(* ===== verification/EC_Prelude.thy ===== *)
theory EC_Prelude
  imports Main "HOL-Library.Word" "HOL-Library.Signed_Division"
begin

text \<open>
  Shared vocabulary of the development: the machine types of the 32-bit EC cores, the
  two's-complement reading of C \<open>int\<close> arithmetic (the tree is built with
  \<open>-fno-strict-overflow\<close>, Makefile.toolchain), byte-array reads and writes, and the
  generic lemmas the component theories use.
\<close>

unbundle bit_operations_syntax

section \<open>Machine types\<close>

type_synonym byte = "8 word"
type_synonym u16 = "16 word"
type_synonym u32 = "32 word"
type_synonym u64 = "64 word"

text \<open>The value a C \<open>int\<close> holds after an arithmetic result is stored in it.\<close>

definition s32 :: "int \<Rightarrow> int" where
  "s32 x = signed_take_bit 31 x"

text \<open>The error codes of include/common.h that the modelled functions return.\<close>

abbreviation (input) EC_SUCCESS :: int where "EC_SUCCESS \<equiv> 0"
abbreviation (input) EC_ERROR_UNKNOWN :: int where "EC_ERROR_UNKNOWN \<equiv> 1"
abbreviation (input) EC_ERROR_OVERFLOW :: int where "EC_ERROR_OVERFLOW \<equiv> 3"
abbreviation (input) EC_ERROR_INVAL :: int where "EC_ERROR_INVAL \<equiv> 5"

named_theorems ec_simps \<open>rewrite rules the component proofs share\<close>

lemma s32_id: "- (2 ^ 31) \<le> x \<Longrightarrow> x < 2 ^ 31 \<Longrightarrow> s32 x = x"
  unfolding s32_def by (rule signed_take_bit_int_eq_self) simp_all

lemma s32_small: "- 2147483648 \<le> x \<Longrightarrow> x \<le> 2147483647 \<Longrightarrow> s32 x = x"
  by (rule s32_id) simp_all

lemma s32_lower: "- (2 ^ 31) \<le> s32 x"
  unfolding s32_def using signed_take_bit_int_greater_eq_minus_exp [of 31 x] by simp

lemma s32_upper: "s32 x < 2 ^ 31"
  unfolding s32_def using signed_take_bit_int_less_exp [of 31 x] by simp

lemma s32_s32 [simp]: "s32 (s32 x) = s32 x"
  by (rule s32_id [OF s32_lower s32_upper])

section \<open>Division of C integers\<close>

lemma sdiv_nonneg: "0 \<le> a \<Longrightarrow> 0 < b \<Longrightarrow> a sdiv b = a div b" for a b :: int
  by (cases "a = 0") (simp_all add: signed_divide_int_def)

lemma sdiv_nonpos: "a < 0 \<Longrightarrow> 0 < b \<Longrightarrow> a sdiv b \<le> 0" for a b :: int
  by (simp add: signed_divide_int_def pos_imp_zdiv_nonneg_iff)

section \<open>Byte arrays\<close>

text \<open>
  \<open>read_at xs i n\<close> is the block of \<open>n\<close> elements at index \<open>i\<close>; \<open>write_at xs i ys\<close>
  overwrites a block, as a \<open>memcpy\<close> into an array does. Both are only used inside the
  array's bounds; each user proves that it stays inside them.
\<close>

definition read_at :: "'a list \<Rightarrow> nat \<Rightarrow> nat \<Rightarrow> 'a list" where
  "read_at xs i n = take n (drop i xs)"

definition write_at :: "'a list \<Rightarrow> nat \<Rightarrow> 'a list \<Rightarrow> 'a list" where
  "write_at xs i ys = take i xs @ ys @ drop (i + length ys) xs"

lemma length_read_at [simp]: "i + n \<le> length xs \<Longrightarrow> length (read_at xs i n) = n"
  by (simp add: read_at_def)

lemma length_write_at [simp]:
  "i + length ys \<le> length xs \<Longrightarrow> length (write_at xs i ys) = length xs"
  by (simp add: write_at_def)

lemma read_at_nth: "i + n \<le> length xs \<Longrightarrow> k < n \<Longrightarrow> read_at xs i n ! k = xs ! (i + k)"
  by (simp add: read_at_def add.commute)

lemma write_at_nth:
  assumes "i + length ys \<le> length xs" "k < length xs"
  shows "write_at xs i ys ! k = (if i \<le> k \<and> k < i + length ys then ys ! (k - i) else xs ! k)"
  using assms by (auto simp: write_at_def nth_append min_def)

lemma read_write_at_same [simp]:
  "i + length ys \<le> length xs \<Longrightarrow> n = length ys \<Longrightarrow> read_at (write_at xs i ys) i n = ys"
  by (simp add: read_at_def write_at_def)

lemma read_write_at_disjoint:
  assumes "i + length ys \<le> length xs" "j + n \<le> length xs"
    and "j + n \<le> i \<or> i + length ys \<le> j"
  shows "read_at (write_at xs i ys) j n = read_at xs j n"
proof (rule nth_equalityI)
  show "length (read_at (write_at xs i ys) j n) = length (read_at xs j n)"
    using assms by simp
next
  fix k assume "k < length (read_at (write_at xs i ys) j n)"
  then have "k < n" using assms by simp
  then show "read_at (write_at xs i ys) j n ! k = read_at xs j n ! k"
    using assms by (auto simp: read_at_nth write_at_nth)
qed

lemma write_at_Nil [simp]: "write_at xs i [] = xs"
  by (simp add: write_at_def)

lemma read_at_0 [simp]: "read_at xs i 0 = []"
  by (simp add: read_at_def)

lemma read_at_write_at_append:
  "i + length ys + length zs \<le> length xs \<Longrightarrow>
   write_at (write_at xs i ys) (i + length ys) zs = write_at xs i (ys @ zs)"
  by (simp add: write_at_def ac_simps)

lemma read_at_append:
  "read_at xs i (m + n) = read_at xs i m @ read_at xs (i + m) n"
  by (simp add: read_at_def take_add add.commute)

section \<open>Counting\<close>

lemma length_filter_mono:
  "(\<And>x. P x \<Longrightarrow> Q x) \<Longrightarrow> length (filter P xs) \<le> length (filter Q xs)"
  by (induction xs) (auto intro: le_SucI)

lemma length_filter_eq_iff:
  assumes "\<And>x. P x \<Longrightarrow> Q x"
  shows "length (filter P xs) = length (filter Q xs) \<longleftrightarrow> (\<forall>x \<in> set xs. Q x \<longrightarrow> P x)"
proof (induction xs)
  case (Cons x xs)
  show ?case using Cons.IH assms [of x] length_filter_mono [of P Q xs, OF assms] by (cases "P x"; cases "Q x") auto
qed simp

section \<open>Words as numbers\<close>

lemma unat_add_small: "unat a + unat b < 2 ^ 32 \<Longrightarrow> unat (a + b :: u32) = unat a + unat b"
  by (simp add: unat_word_ariths)

lemma unat_mult_small: "unat a * unat b < 2 ^ 32 \<Longrightarrow> unat (a * b :: u32) = unat a * unat b"
  by (simp add: unat_word_ariths)

lemma unat_sub_le: "b \<le> a \<Longrightarrow> unat (a - b :: u32) = unat a - unat b"
  by (simp add: unat_sub)

lemma unat_min: "unat (min a b :: u32) = min (unat a) (unat b)"
  by (simp add: min_def word_le_nat_alt)

lemma and_exp_bit: "w AND 2 ^ n \<noteq> 0 \<longleftrightarrow> bit (w :: 'a::len word) n"
proof
  assume "w AND 2 ^ n \<noteq> 0"
  then obtain m where "bit (w AND 2 ^ n) m" by (metis bit_0_eq bit_word_eqI bot_apply bot_bool_def)
  then show "bit w n" by (auto simp: bit_and_iff bit_exp_iff)
next
  assume "bit w n"
  then have "bit (w AND 2 ^ n) n" by (auto simp: bit_and_iff bit_exp_iff dest: bit_imp_le_length)
  then show "w AND 2 ^ n \<noteq> 0" by auto
qed

lemmas u32_arith = unat_add_small unat_mult_small unat_sub_le unat_min

end
