(* ===== verification/Queue.thy ===== *)
theory Queue
  imports EC_Prelude
begin

text \<open>
  The generic ring buffer of common/queue.c with the configuration and state of
  include/queue.h. Head and tail are free-running 32-bit counters that are reduced only
  when the buffer is accessed, so every operation is modelled on 32-bit words. The calls
  of the policy's function pointers are recorded in order in \<open>policy_log\<close>.
\<close>

section \<open>Interface: a bounded first-in first-out store\<close>

text \<open>
  What clients of a queue rely on: \<open>put\<close> accepts a prefix of the offered units, as many as
  fit, \<open>get\<close> hands out the oldest units. The lemmas below follow from that contract alone.
\<close>

locale bounded_fifo =
  fixes inv :: "'q \<Rightarrow> bool"
    and abs :: "'q \<Rightarrow> 'u list"
    and cap :: "'q \<Rightarrow> nat"
    and put :: "'q \<Rightarrow> 'u list \<Rightarrow> nat \<times> 'q"
    and get :: "'q \<Rightarrow> nat \<Rightarrow> 'u list \<times> 'q"
    and unit_ok :: "'q \<Rightarrow> 'u \<Rightarrow> bool"
  assumes bounded: "inv q \<Longrightarrow> length (abs q) \<le> cap q"
    and put_spec: "inv q \<Longrightarrow> list_all (unit_ok q) us \<Longrightarrow> length us < 2 ^ 32 \<Longrightarrow> put q us = (n, q') \<Longrightarrow>
      n = min (length us) (cap q - length (abs q)) \<and> abs q' = abs q @ take n us \<and> inv q'
      \<and> cap q' = cap q \<and> unit_ok q' = unit_ok q"
    and get_spec: "inv q \<Longrightarrow> k < 2 ^ 32 \<Longrightarrow> get q k = (us, q') \<Longrightarrow>
      us = take k (abs q) \<and> abs q' = drop k (abs q) \<and> inv q'
      \<and> cap q' = cap q \<and> unit_ok q' = unit_ok q"

datatype 'u fifo_op = Put "'u list" | Get nat

text \<open>A run of operations: what was accepted, what was handed out, and the final queue.\<close>

fun fifo_run :: "('q \<Rightarrow> 'u list \<Rightarrow> nat \<times> 'q) \<Rightarrow> ('q \<Rightarrow> nat \<Rightarrow> 'u list \<times> 'q) \<Rightarrow>
    'q \<Rightarrow> 'u fifo_op list \<Rightarrow> 'u list \<times> 'u list \<times> 'q" where
  "fifo_run put get q [] = ([], [], q)"
| "fifo_run put get q (Put us # ops) =
     (case put q us of (n, q1) \<Rightarrow>
      case fifo_run put get q1 ops of (ins, outs, q2) \<Rightarrow> (take n us @ ins, outs, q2))"
| "fifo_run put get q (Get k # ops) =
     (case get q k of (us, q1) \<Rightarrow>
      case fifo_run put get q1 ops of (ins, outs, q2) \<Rightarrow> (ins, us @ outs, q2))"

fun fifo_op_ok :: "('u \<Rightarrow> bool) \<Rightarrow> 'u fifo_op \<Rightarrow> bool" where
  "fifo_op_ok ok (Put us) = (list_all ok us \<and> length us < 2 ^ 32)"
| "fifo_op_ok ok (Get k) = (k < 2 ^ 32)"

context bounded_fifo
begin

lemma fifo_conserves:
  assumes "inv q" "list_all (fifo_op_ok (unit_ok q)) ops" "fifo_run put get q ops = (ins, outs, q')"
  shows "outs @ abs q' = abs q @ ins \<and> inv q' \<and> cap q' = cap q"
  using assms
proof (induction ops arbitrary: q ins outs q')
  case Nil
  then show ?case by simp
next
  case (Cons op ops)
  show ?case
  proof (cases op)
    case (Put us)
    obtain n q1 where p: "put q us = (n, q1)" by (cases "put q us")
    obtain ins1 outs1 q2 where r: "fifo_run put get q1 ops = (ins1, outs1, q2)"
      by (cases "fifo_run put get q1 ops") auto
    have s: "abs q1 = abs q @ take n us \<and> inv q1 \<and> cap q1 = cap q \<and> unit_ok q1 = unit_ok q"
      using put_spec [OF Cons.prems(1) _ _ p] Cons.prems(2) Put by simp
    have "outs1 @ abs q2 = abs q1 @ ins1 \<and> inv q2 \<and> cap q2 = cap q1"
      by (rule Cons.IH [OF _ _ r]) (use s Cons.prems(2) in simp_all)
    then show ?thesis using Cons.prems(3) Put p r s by auto
  next
    case (Get k)
    obtain us q1 where p: "get q k = (us, q1)" by (cases "get q k")
    obtain ins1 outs1 q2 where r: "fifo_run put get q1 ops = (ins1, outs1, q2)"
      by (cases "fifo_run put get q1 ops") auto
    have s: "us = take k (abs q) \<and> abs q1 = drop k (abs q) \<and> inv q1 \<and> cap q1 = cap q
        \<and> unit_ok q1 = unit_ok q"
      using get_spec [OF Cons.prems(1) _ p] Cons.prems(2) Get by simp
    have "outs1 @ abs q2 = abs q1 @ ins1 \<and> inv q2 \<and> cap q2 = cap q1"
      by (rule Cons.IH [OF _ _ r]) (use s Cons.prems(2) in simp_all)
    then show ?thesis using Cons.prems(3) Get p r s by auto
  qed
qed

end

section \<open>The ring buffer\<close>

datatype policy_call = PolicyAdd u32 | PolicyRemove u32

record queue =
  q_head :: u32
  q_tail :: u32
  buffer_units :: u32
  unit_bytes :: u32
  buffer :: "byte list"
  policy_log :: "policy_call list"

definition power_of_two :: "u32 \<Rightarrow> bool" where
  "power_of_two x \<longleftrightarrow> x \<noteq> 0 \<and> x AND (x - 1) = 0"

text \<open>A failed \<open>ASSERT\<close> stops the EC: \<open>None\<close>.\<close>

definition queue_init :: "queue \<Rightarrow> queue option" where
  "queue_init q =
     (if power_of_two (buffer_units q) then Some (q\<lparr>q_head := 0, q_tail := 0\<rparr>) else None)"

definition queue_is_empty :: "queue \<Rightarrow> bool" where
  "queue_is_empty q \<longleftrightarrow> q_head q = q_tail q"

definition queue_count :: "queue \<Rightarrow> u32" where
  "queue_count q = q_tail q - q_head q"

definition queue_space :: "queue \<Rightarrow> u32" where
  "queue_space q = buffer_units q - queue_count q"

definition queue_is_full :: "queue \<Rightarrow> bool" where
  "queue_is_full q \<longleftrightarrow> queue_space q = 0"

record queue_chunk =
  chunk_length :: u32
  chunk_start :: u32

definition queue_get_write_chunk :: "queue \<Rightarrow> queue_chunk" where
  "queue_get_write_chunk q =
     (let head = q_head q AND (buffer_units q - 1);
          tail = q_tail q AND (buffer_units q - 1);
          last = (if queue_is_full q then tail
                  else if tail < head then head
                  else buffer_units q)
      in \<lparr>chunk_length = (last - tail) * unit_bytes q, chunk_start = tail * unit_bytes q\<rparr>)"

definition queue_get_read_chunk :: "queue \<Rightarrow> queue_chunk" where
  "queue_get_read_chunk q =
     (let head = q_head q AND (buffer_units q - 1);
          tail = q_tail q AND (buffer_units q - 1);
          last = (if queue_is_empty q then head
                  else if head < tail then tail
                  else buffer_units q)
      in \<lparr>chunk_length = (last - head) * unit_bytes q, chunk_start = head * unit_bytes q\<rparr>)"

definition queue_advance_head :: "queue \<Rightarrow> u32 \<Rightarrow> u32 \<times> queue" where
  "queue_advance_head q count =
     (let transfer = min count (queue_count q)
      in (transfer, q\<lparr>q_head := q_head q + transfer,
                      policy_log := policy_log q @ [PolicyRemove transfer]\<rparr>))"

definition queue_advance_tail :: "queue \<Rightarrow> u32 \<Rightarrow> u32 \<times> queue" where
  "queue_advance_tail q count =
     (let transfer = min count (queue_space q)
      in (transfer, q\<lparr>q_tail := q_tail q + transfer,
                      policy_log := policy_log q @ [PolicyAdd transfer]\<rparr>))"

text \<open>
  The copy routine that \<open>queue_add_memcpy\<close>, \<open>queue_remove_memcpy\<close> and
  \<open>queue_peek_memcpy\<close> receive: destination array, destination offset, source bytes.
\<close>

type_synonym copier = "byte list \<Rightarrow> nat \<Rightarrow> byte list \<Rightarrow> byte list"

definition queue_add_unit :: "queue \<Rightarrow> byte list \<Rightarrow> u32 \<times> queue" where
  "queue_add_unit q src =
     (let tail = q_tail q AND (buffer_units q - 1)
      in if queue_space q = 0 then (0, q)
         else if unit_bytes q = 1
         then queue_advance_tail (q\<lparr>buffer := (buffer q)[unat tail := hd src]\<rparr>) 1
         else queue_advance_tail
                (q\<lparr>buffer := write_at (buffer q) (unat (tail * unit_bytes q))
                              (take (unat (unit_bytes q)) src)\<rparr>) 1)"

definition queue_add_memcpy :: "queue \<Rightarrow> byte list \<Rightarrow> u32 \<Rightarrow> copier \<Rightarrow> u32 \<times> queue" where
  "queue_add_memcpy q src count cpy =
     (let transfer = min count (queue_space q);
          tail = q_tail q AND (buffer_units q - 1);
          first = min transfer (buffer_units q - tail);
          b1 = cpy (buffer q) (unat (tail * unit_bytes q)) (read_at src 0 (unat (first * unit_bytes q)));
          b2 = (if first < transfer
                then cpy b1 0 (read_at src (unat (first * unit_bytes q))
                                 (unat ((transfer - first) * unit_bytes q)))
                else b1)
      in queue_advance_tail (q\<lparr>buffer := b2\<rparr>) transfer)"

definition queue_add_units :: "queue \<Rightarrow> byte list \<Rightarrow> u32 \<Rightarrow> u32 \<times> queue" where
  "queue_add_units q src count = queue_add_memcpy q src count write_at"

definition queue_read_safe :: "queue \<Rightarrow> byte list \<Rightarrow> u32 \<Rightarrow> u32 \<Rightarrow> copier \<Rightarrow> byte list" where
  "queue_read_safe q dest head transfer cpy =
     (let first = min transfer (buffer_units q - head);
          d1 = cpy dest 0 (read_at (buffer q) (unat (head * unit_bytes q)) (unat (first * unit_bytes q)))
      in if first < transfer
         then cpy d1 (unat (first * unit_bytes q))
                (read_at (buffer q) 0 (unat ((transfer - first) * unit_bytes q)))
         else d1)"

definition queue_remove_unit :: "queue \<Rightarrow> byte list \<Rightarrow> u32 \<times> byte list \<times> queue" where
  "queue_remove_unit q dest =
     (let head = q_head q AND (buffer_units q - 1)
      in if queue_count q = 0 then (0, dest, q)
         else let dest' = (if unit_bytes q = 1 then dest[0 := buffer q ! unat head]
                           else write_at dest 0 (read_at (buffer q) (unat (head * unit_bytes q))
                                                   (unat (unit_bytes q))));
                  (n, q') = queue_advance_head q 1
              in (n, dest', q'))"

definition queue_remove_memcpy :: "queue \<Rightarrow> byte list \<Rightarrow> u32 \<Rightarrow> copier \<Rightarrow> u32 \<times> byte list \<times> queue" where
  "queue_remove_memcpy q dest count cpy =
     (let transfer = min count (queue_count q);
          head = q_head q AND (buffer_units q - 1);
          dest' = queue_read_safe q dest head transfer cpy;
          (n, q') = queue_advance_head q transfer
      in (n, dest', q'))"

definition queue_remove_units :: "queue \<Rightarrow> byte list \<Rightarrow> u32 \<Rightarrow> u32 \<times> byte list \<times> queue" where
  "queue_remove_units q dest count = queue_remove_memcpy q dest count write_at"

definition queue_peek_memcpy :: "queue \<Rightarrow> byte list \<Rightarrow> u32 \<Rightarrow> u32 \<Rightarrow> copier \<Rightarrow> u32 \<times> byte list" where
  "queue_peek_memcpy q dest i count cpy =
     (let available = queue_count q;
          transfer = min count (available - i)
      in (transfer,
          if i < available
          then queue_read_safe q dest ((q_head q + i) AND (buffer_units q - 1)) transfer cpy
          else dest))"

definition queue_peek_units :: "queue \<Rightarrow> byte list \<Rightarrow> u32 \<Rightarrow> u32 \<Rightarrow> u32 \<times> byte list" where
  "queue_peek_units q dest i count = queue_peek_memcpy q dest i count write_at"

section \<open>Invariant and abstraction\<close>

definition queue_inv :: "queue \<Rightarrow> bool" where
  "queue_inv q \<longleftrightarrow> power_of_two (buffer_units q) \<and> unit_bytes q \<noteq> 0
     \<and> length (buffer q) = unat (buffer_units q) * unat (unit_bytes q)
     \<and> length (buffer q) < 2 ^ 32
     \<and> queue_count q \<le> buffer_units q"

text \<open>The \<open>s\<close>-th slot of an array of units of \<open>ub\<close> bytes.\<close>

definition slot :: "byte list \<Rightarrow> nat \<Rightarrow> nat \<Rightarrow> byte list" where
  "slot b ub s = read_at b (s * ub) ub"

definition units_of :: "nat \<Rightarrow> byte list \<Rightarrow> nat \<Rightarrow> byte list list" where
  "units_of ub src n = map (slot src ub) [0..<n]"

definition queue_units :: "queue \<Rightarrow> byte list list" where
  "queue_units q =
     map (\<lambda>i. slot (buffer q) (unat (unit_bytes q))
                ((unat (q_head q) + i) mod unat (buffer_units q)))
       [0..<unat (queue_count q)]"

section \<open>Index arithmetic\<close>

lemma and_pred_zero_nat: "n \<noteq> 0 \<Longrightarrow> n AND (n - 1) = (0 :: nat) \<Longrightarrow> \<exists>k. n = 2 ^ k"
proof (induction n rule: less_induct)
  case (less n)
  have rec: "n AND (n - 1) = of_bool (odd n \<and> odd (n - 1)) + 2 * ((n div 2) AND ((n - 1) div 2))"
    by (rule and_rec)
  show ?case
  proof (cases "odd n")
    case True
    then obtain m where m: "n = 2 * m + 1" by (auto elim: oddE)
    with rec less.prems(2) have "m = 0" by simp
    with m have "n = 2 ^ 0" by simp
    then show ?thesis ..
  next
    case False
    then obtain m where m: "n = 2 * m" by (auto elim: evenE)
    with less.prems(1) have "m \<noteq> 0" "(n - 1) div 2 = m - 1" by auto
    with rec less.prems(2) m have "m AND (m - 1) = 0" by simp
    moreover have "m < n" using m \<open>m \<noteq> 0\<close> by simp
    ultimately obtain k where "m = 2 ^ k" using less.IH \<open>m \<noteq> 0\<close> by blast
    with m have "n = 2 ^ Suc k" by simp
    then show ?thesis ..
  qed
qed

lemma power_of_two_exp:
  assumes "power_of_two x"
  obtains k where "k < 32" "x = 2 ^ k" "unat x = 2 ^ k"
proof -
  have nz: "unat x \<noteq> 0" using assms by (simp add: power_of_two_def unat_eq_0)
  have "unat (x AND (x - 1)) = 0" using assms by (simp add: power_of_two_def)
  then have "unat x AND (unat x - 1) = 0"
    using nz by (simp add: unsigned_and_eq unat_sub_le word_le_nat_alt)
  with nz obtain k where k: "unat x = 2 ^ k" using and_pred_zero_nat by blast
  have "(2 :: nat) ^ k < 2 ^ 32" using unsigned_less [where ?'a = nat, of x] k by simp
  then have "k < 32" by (rule power_less_imp_less_exp [rotated]) simp
  moreover have "x = word_of_nat (unat x)" by simp
  then have "x = 2 ^ k" using k by simp
  ultimately show ?thesis using k that by blast
qed

lemma unat_and_pred:
  assumes "power_of_two n"
  shows "unat (x AND (n - 1)) = unat x mod unat n"
proof -
  obtain k where k: "k < 32" "n = 2 ^ k" "unat n = 2 ^ k" using assms by (rule power_of_two_exp)
  then have "n - 1 = mask k" by (simp add: mask_eq_decr_exp)
  then have "unat (x AND (n - 1)) = unat (take_bit k x)" by (simp add: take_bit_eq_mask)
  also have "\<dots> = take_bit k (unat x)" by (rule unsigned_take_bit_eq)
  also have "\<dots> = unat x mod 2 ^ k" by (rule take_bit_eq_mod)
  finally show ?thesis using k by simp
qed

lemma power_of_two_dvd: "power_of_two n \<Longrightarrow> unat n dvd 2 ^ 32"
  by (erule power_of_two_exp) (simp only: le_imp_power_dvd less_imp_le)

lemma power_of_two_pos: "power_of_two n \<Longrightarrow> 0 < unat n"
  by (simp add: power_of_two_def unat_gt_0)

lemma unat_add_mod:
  assumes "power_of_two n"
  shows "unat (a + b :: u32) mod unat n = (unat a + unat b) mod unat n"
  using power_of_two_dvd [OF assms] by (simp add: unat_word_ariths mod_mod_cancel)

lemma mod_offset:
  fixes h c i n :: nat
  assumes "i < n" "c \<le> n"
  shows "((h + i) mod n + n - (h + c) mod n) mod n = (if c \<le> i then i - c else n + i - c)"
proof -
  have n: "0 < n" using assms by simp
  define a where "a = (h + c) mod n"
  have a: "a < n" "a \<le> (h + i) mod n + n" using n by (auto simp: a_def le_simps order.strict_implies_order trans_le_add2)
  have "int (((h + i) mod n + n - a) mod n) = (int ((h + i) mod n) + int n - int a) mod int n"
    using a by (simp add: of_nat_mod of_nat_diff)
  also have "\<dots> = (int ((h + i) mod n) - int a) mod int n"
    by (metis diff_add_eq mod_add_self2)
  also have "\<dots> = (int h + int i - (int h + int c)) mod int n"
    by (simp only: a_def of_nat_mod mod_diff_eq of_nat_add)
  also have "\<dots> = int (if c \<le> i then i - c else n + i - c)"
  proof (cases "c \<le> i")
    case True
    then show ?thesis using assms by (simp add: of_nat_diff)
  next
    case False
    have "(int h + int i - (int h + int c)) mod int n = (int i - int c + int n) mod int n" by simp
    also have "\<dots> = int i - int c + int n" using False assms by (intro mod_pos_pos_trivial) auto
    finally show ?thesis using False assms by (simp add: of_nat_diff)
  qed
  finally show ?thesis by (simp add: a_def)
qed

section \<open>Slots\<close>

lemma slot_write_block:
  assumes "t + m \<le> n" "length b = n * ub" "length ys = m * ub" "s < n"
  shows "slot (write_at b (t * ub) ys) ub s = (if t \<le> s \<and> s < t + m then slot ys ub (s - t) else slot b ub s)"
proof -
  have tm: "t * ub + length ys \<le> length b"
    using assms by (metis add_mult_distrib mult_le_mono1)
  have sn: "s * ub + ub \<le> length b" using assms by (metis Suc_leI add.commute mult_Suc mult_le_mono1)
  show ?thesis
  proof (cases "t \<le> s \<and> s < t + m")
    case True
    then obtain d where d: "s = t + d" "d < m" by (metis add_less_cancel_left le_Suc_ex)
    then have dm: "d * ub + ub \<le> m * ub" by (metis Suc_leI add.commute mult_Suc mult_le_mono1)
    have "slot (write_at b (t * ub) ys) ub s = slot ys ub d"
    proof (rule nth_equalityI)
      show "length (slot (write_at b (t * ub) ys) ub s) = length (slot ys ub d)"
        using tm sn dm assms by (simp add: slot_def)
    next
      fix k assume "k < length (slot (write_at b (t * ub) ys) ub s)"
      then have k: "k < ub" using tm sn by (simp add: slot_def)
      then show "slot (write_at b (t * ub) ys) ub s ! k = slot ys ub d ! k"
        using tm sn dm d assms by (simp add: slot_def read_at_nth write_at_nth add_mult_distrib)
    qed
    then show ?thesis using True d by simp
  next
    case False
    then have "s * ub + ub \<le> t * ub \<or> t * ub + length ys \<le> s * ub"
      using assms(3) by (metis Suc_leI add.commute add_mult_distrib mult_Suc mult_le_mono1 not_less)
    then show ?thesis using tm sn by (simp only: False if_False slot_def read_write_at_disjoint)
  qed
qed

lemma slot_read_block:
  assumes "s < m" "i * ub + m * ub \<le> length b"
  shows "slot (read_at b (i * ub) (m * ub)) ub s = slot b ub (i + s)"
proof -
  have "s * ub + ub \<le> m * ub" using assms by (metis Suc_leI add.commute mult_Suc mult_le_mono1)
  then show ?thesis using assms
    by (intro nth_equalityI) (simp_all add: slot_def read_at_nth add_mult_distrib add.assoc)
qed

section \<open>Reading and writing through the wrap-around\<close>

lemma queue_inv_facts:
  assumes "queue_inv q"
  shows "power_of_two (buffer_units q)" "0 < unat (buffer_units q)" "0 < unat (unit_bytes q)"
    "length (buffer q) = unat (buffer_units q) * unat (unit_bytes q)"
    "unat (buffer_units q) * unat (unit_bytes q) < 2 ^ 32"
    "unat (queue_count q) \<le> unat (buffer_units q)"
    "unat (queue_space q) = unat (buffer_units q) - unat (queue_count q)"
    "unat (q_tail q) mod unat (buffer_units q)
       = (unat (q_head q) + unat (queue_count q)) mod unat (buffer_units q)"
proof -
  show p: "power_of_two (buffer_units q)" using assms by (simp add: queue_inv_def)
  then show "0 < unat (buffer_units q)" by (rule power_of_two_pos)
  show "0 < unat (unit_bytes q)" using assms by (simp add: queue_inv_def unat_gt_0)
  show l: "length (buffer q) = unat (buffer_units q) * unat (unit_bytes q)"
    using assms by (simp add: queue_inv_def)
  show "unat (buffer_units q) * unat (unit_bytes q) < 2 ^ 32"
    using assms l by (simp add: queue_inv_def)
  show "unat (queue_count q) \<le> unat (buffer_units q)"
    using assms by (simp add: queue_inv_def word_le_nat_alt)
  show "unat (queue_space q) = unat (buffer_units q) - unat (queue_count q)"
    using assms by (simp add: queue_space_def queue_inv_def unat_sub_le)
  have "q_tail q = q_head q + queue_count q" by (simp add: queue_count_def)
  then show "unat (q_tail q) mod unat (buffer_units q)
      = (unat (q_head q) + unat (queue_count q)) mod unat (buffer_units q)"
    using unat_add_mod [OF p] by metis
qed

lemma unit_mult:
  assumes "unat a \<le> unat (buffer_units q)" "queue_inv q"
  shows "unat (a * unit_bytes q) = unat a * unat (unit_bytes q)"
proof -
  have "unat a * unat (unit_bytes q) \<le> unat (buffer_units q) * unat (unit_bytes q)"
    using assms(1) by simp
  also have "\<dots> < 2 ^ 32" using assms(2) by (rule queue_inv_facts)
  finally show ?thesis by (rule unat_mult_small)
qed

lemma ring_first:
  fixes n :: u32
  assumes "power_of_two n" "unat transfer \<le> unat n"
    and "tail = x AND (n - 1)" "first = min transfer (n - tail)"
  shows "unat tail = unat x mod unat n" "unat tail < unat n" "unat first = min (unat transfer) (unat n - unat tail)"
    "unat tail + unat first \<le> unat n" "unat (transfer - first) = unat transfer - unat first"
    "unat transfer - unat first \<le> unat tail" "first \<le> transfer"
proof -
  show t: "unat tail = unat x mod unat n" using assms by (simp add: unat_and_pred)
  then show tn: "unat tail < unat n" using power_of_two_pos [OF assms(1)] by simp
  then show f: "unat first = min (unat transfer) (unat n - unat tail)"
    using assms(4) by (simp add: unat_min unat_sub_le word_le_nat_alt)
  show "unat tail + unat first \<le> unat n" using f tn by simp
  show le: "first \<le> transfer" using assms(4) by simp
  then show "unat (transfer - first) = unat transfer - unat first" by (rule unat_sub_le)
  show "unat transfer - unat first \<le> unat tail" using f tn assms(2) by simp
qed

lemma ring_index_cases:
  fixes s t n tr f :: nat
  assumes "t < n" "s < n" "f = min tr (n - t)" "tr - f \<le> t"
  shows "(s + n - t) mod n < tr \<longleftrightarrow> (t \<le> s \<and> s < t + f) \<or> s < tr - f"
    and "t \<le> s \<Longrightarrow> (s + n - t) mod n = s - t"
    and "s < tr - f \<Longrightarrow> (s + n - t) mod n = f + s"
proof -
  have a: "(s + n - t) mod n = (if t \<le> s then s - t else s + n - t)"
  proof (cases "t \<le> s")
    case True
    then have "(s + n - t) mod n = (s - t + n) mod n" by (simp only: diff_add_assoc2)
    also have "\<dots> = s - t" using assms by simp
    finally show ?thesis using True by simp
  qed (use assms in simp)
  then show "(s + n - t) mod n < tr \<longleftrightarrow> (t \<le> s \<and> s < t + f) \<or> s < tr - f"
    using assms by (auto simp: min_def split: if_splits)
  show "t \<le> s \<Longrightarrow> (s + n - t) mod n = s - t" using a by simp
  show "s < tr - f \<Longrightarrow> (s + n - t) mod n = f + s"
    using a assms by (auto simp: min_def split: if_splits)
qed

text \<open>
  The two block copies of \<open>queue_add_memcpy\<close> on plain numbers: unit \<open>j\<close> of the source
  lands in the \<open>j\<close>-th slot after \<open>t\<close>, every other slot keeps its content.
\<close>

lemma ring_write_slots:
  assumes t: "t < n" and tr: "tr \<le> n" and f: "f = min tr (n - t)" and lb: "length b = n * ub"
    and src: "tr * ub \<le> length src"
    and b1: "b1 = write_at b (t * ub) (read_at src 0 (f * ub))"
    and b2: "b2 = (if f < tr then write_at b1 0 (read_at src (f * ub) ((tr - f) * ub)) else b1)"
  shows "length b2 = length b"
    and "s < n \<Longrightarrow> slot b2 ub s =
      (if (s + n - t) mod n < tr then slot src ub ((s + n - t) mod n) else slot b ub s)"
proof -
  have le: "f \<le> tr" "t + f \<le> n" "tr - f \<le> t" using t tr f by auto
  have split: "f * ub + (tr - f) * ub = tr * ub" using le by (simp add: add_mult_distrib [symmetric])
  have l1: "length (read_at src 0 (f * ub)) = f * ub" using src split by simp
  have l2: "length (read_at src (f * ub) ((tr - f) * ub)) = (tr - f) * ub" using src split by simp
  have "t * ub + f * ub \<le> n * ub" using le by (metis add_mult_distrib mult_le_mono1)
  then have lb1: "length b1 = n * ub" using l1 lb by (simp add: b1)
  have "(tr - f) * ub \<le> n * ub" using le t by simp
  then show "length b2 = length b" using l2 lb1 lb by (simp add: b2)
  assume s: "s < n"
  note ric = ring_index_cases [OF t s f le(3)]
  have s1: "slot b1 ub s = (if t \<le> s \<and> s < t + f then slot src ub (s - t) else slot b ub s)"
    unfolding b1 using slot_write_block [OF le(2) lb l1 s] slot_read_block [of "s - t" f 0 ub src]
      src split by auto
  have w: "slot (write_at b1 (0 * ub) (read_at src (f * ub) ((tr - f) * ub))) ub s
      = (if 0 \<le> s \<and> s < 0 + (tr - f) then slot (read_at src (f * ub) ((tr - f) * ub)) ub (s - 0)
         else slot b1 ub s)"
    by (rule slot_write_block [OF _ lb1 l2 s]) (use le t in simp)
  have "s < tr - f \<Longrightarrow> slot (read_at src (f * ub) ((tr - f) * ub)) ub s = slot src ub (f + s)"
    by (rule slot_read_block) (use src split in auto)
  with w have "slot b2 ub s = (if s < tr - f then slot src ub (f + s) else slot b1 ub s)"
    by (auto simp: b2)
  then show "slot b2 ub s =
      (if (s + n - t) mod n < tr then slot src ub ((s + n - t) mod n) else slot b ub s)"
    unfolding s1 using ric le by auto
qed

lemma queue_add_memcpy_buffer:
  assumes inv: "queue_inv q" and tr: "tr = min count (queue_space q)"
    and src: "unat tr * unat (unit_bytes q) \<le> length src"
    and res: "queue_add_memcpy q src count write_at = (m, q')"
    and n: "n = unat (buffer_units q)" and ub: "ub = unat (unit_bytes q)"
    and t: "t = unat (q_tail q) mod n"
  shows "m = tr" "\<exists>b. q' = q\<lparr>q_tail := q_tail q + tr, buffer := b, policy_log := policy_log q @ [PolicyAdd tr]\<rparr>
      \<and> length b = length (buffer q)
      \<and> (\<forall>s < n. slot b ub s =
           (if (s + n - t) mod n < unat tr then slot src ub ((s + n - t) mod n) else slot (buffer q) ub s))"
proof -
  note facts = queue_inv_facts [OF inv]
  define tail where "tail = q_tail q AND (buffer_units q - 1)"
  define first where "first = min tr (buffer_units q - tail)"
  have trn: "unat tr \<le> unat (buffer_units q)" unfolding tr unat_min facts(7) by simp
  note rf = ring_first [OF facts(1) trn tail_def first_def]
  have conv: "unat (first * unit_bytes q) = unat first * ub" "unat (tail * unit_bytes q) = t * ub"
      "unat ((tr - first) * unit_bytes q) = (unat tr - unat first) * ub"
    using rf trn by (simp_all add: unit_mult inv ub n t)
  define b1 where "b1 = write_at (buffer q) (t * ub) (read_at src 0 (unat first * ub))"
  define b2 where "b2 = (if unat first < unat tr
    then write_at b1 0 (read_at src (unat first * ub) ((unat tr - unat first) * ub)) else b1)"
  have "queue_add_memcpy q src count write_at = queue_advance_tail (q\<lparr>buffer := b2\<rparr>) tr"
    unfolding queue_add_memcpy_def Let_def tr [symmetric] tail_def [symmetric] first_def [symmetric]
      conv b1_def b2_def word_less_nat_alt [of first] by simp
  then have r: "m = tr \<and> q' = q\<lparr>q_tail := q_tail q + tr, buffer := b2,
      policy_log := policy_log q @ [PolicyAdd tr]\<rparr>"
    using res tr by (auto simp: queue_advance_tail_def queue_space_def queue_count_def Let_def)
  then show "m = tr" by simp
  have f: "unat first = min (unat tr) (n - t)" "t < n" using rf n t by simp_all
  have lb: "length (buffer q) = n * ub" using facts n ub by simp
  have "length b2 = length (buffer q)" "\<And>s. s < n \<Longrightarrow> slot b2 ub s =
      (if (s + n - t) mod n < unat tr then slot src ub ((s + n - t) mod n) else slot (buffer q) ub s)"
    using ring_write_slots [OF f(2) trn [folded n] f(1) lb src [folded ub] b1_def b2_def] by auto
  with r show "\<exists>b. q' = q\<lparr>q_tail := q_tail q + tr, buffer := b, policy_log := policy_log q @ [PolicyAdd tr]\<rparr>
      \<and> length b = length (buffer q)
      \<and> (\<forall>s < n. slot b ub s =
           (if (s + n - t) mod n < unat tr then slot src ub ((s + n - t) mod n) else slot (buffer q) ub s))"
    by blast
qed

lemma read_at_slots: "read_at b (h * ub) (m * ub) = concat (map (\<lambda>i. slot b ub (h + i)) [0..<m])"
proof (induction m)
  case (Suc m)
  have "read_at b (h * ub) (Suc m * ub) = read_at b (h * ub) (m * ub) @ read_at b ((h + m) * ub) ub"
    by (simp add: read_at_append [symmetric] add_mult_distrib add.commute)
  then show ?case using Suc by (simp add: slot_def)
qed simp

lemma ring_read_slots:
  assumes "h < n" "tr \<le> n" "f = min tr (n - h)"
  shows "read_at b (h * ub) (f * ub) @ read_at b 0 ((tr - f) * ub)
    = concat (map (\<lambda>i. slot b ub ((h + i) mod n)) [0..<tr])"
proof -
  have f: "f \<le> tr" "h + f \<le> n" "f < tr \<Longrightarrow> h + f = n" "tr - f \<le> h" using assms by auto
  have "read_at b (h * ub) (f * ub) = concat (map (\<lambda>i. slot b ub ((h + i) mod n)) [0..<f])"
    unfolding read_at_slots using f(2) by (intro arg_cong [where f = concat] map_cong) auto
  moreover have "read_at b 0 ((tr - f) * ub) = concat (map (\<lambda>i. slot b ub ((h + i) mod n)) [f..<tr])"
  proof (cases "f < tr")
    case True
    have "[f..<tr] = map (\<lambda>i. i + f) [0..<tr - f]" using map_add_upt [of f "tr - f"] f(1) by simp
    moreover have "(h + (i + f)) mod n = i" if "i < tr - f" for i
    proof -
      have "(h + (i + f)) mod n = (i + n) mod n" using f(3) True by (metis add.assoc add.commute)
      also have "\<dots> = i" using that f(4) assms(1) by simp
      finally show ?thesis .
    qed
    ultimately show ?thesis using read_at_slots [of b 0 ub "tr - f"]
      by (auto intro!: arg_cong [where f = concat] map_cong simp: comp_def)
  qed simp
  moreover have "[0..<tr] = [0..<f] @ [f..<tr]" using f(1) by (metis le0 le_add_diff_inverse upt_add_eq_append)
  ultimately show ?thesis by simp
qed

lemma queue_read_safe_bytes:
  assumes inv: "queue_inv q" and tr: "unat tr \<le> unat (buffer_units q)"
    and h: "h = x AND (buffer_units q - 1)"
    and n: "n = unat (buffer_units q)" and ub: "ub = unat (unit_bytes q)"
    and d: "unat tr * ub \<le> length dest"
  shows "queue_read_safe q dest h tr write_at
    = write_at dest 0 (concat (map (\<lambda>i. slot (buffer q) ub ((unat x + i) mod n)) [0..<unat tr]))"
proof -
  note facts = queue_inv_facts [OF inv]
  define first where "first = min tr (buffer_units q - h)"
  note rf = ring_first [OF facts(1) tr h first_def]
  have conv: "unat (first * unit_bytes q) = unat first * ub" "unat (h * unit_bytes q) = unat h * ub"
      "unat ((tr - first) * unit_bytes q) = (unat tr - unat first) * ub"
    using rf tr by (simp_all add: unit_mult inv ub)
  have lb: "length (buffer q) = n * ub" using facts n ub by simp
  have "unat h * ub + unat first * ub \<le> n * ub" using rf(4) n by (metis add_mult_distrib mult_le_mono1)
  then have l1: "length (read_at (buffer q) (unat h * ub) (unat first * ub)) = unat first * ub"
    using lb by simp
  have "(unat tr - unat first) * ub \<le> n * ub" using rf n by simp
  then have l2: "length (read_at (buffer q) 0 ((unat tr - unat first) * ub)) = (unat tr - unat first) * ub"
    using lb by simp
  have split: "unat first * ub + (unat tr - unat first) * ub = unat tr * ub"
    using rf(7) by (simp add: word_le_nat_alt add_mult_distrib [symmetric])
  have zero: "\<not> first < tr \<Longrightarrow> unat tr - unat first = 0" by (simp add: word_less_nat_alt)
  have "queue_read_safe q dest h tr write_at
      = write_at dest 0 (read_at (buffer q) (unat h * ub) (unat first * ub)
          @ read_at (buffer q) 0 ((unat tr - unat first) * ub))"
    unfolding queue_read_safe_def Let_def first_def [symmetric] conv
    using zero read_at_write_at_append [of 0 "read_at (buffer q) (unat h * ub) (unat first * ub)"
        "read_at (buffer q) 0 ((unat tr - unat first) * ub)" dest] l1 l2 split d by auto
  also have "read_at (buffer q) (unat h * ub) (unat first * ub)
          @ read_at (buffer q) 0 ((unat tr - unat first) * ub)
      = concat (map (\<lambda>i. slot (buffer q) ub ((unat h + i) mod n)) [0..<unat tr])"
    by (rule ring_read_slots) (use rf tr n in simp_all)
  finally show ?thesis using rf(1) n by (simp add: mod_add_left_eq)
qed

section \<open>Refinement: the ring buffer is a bounded FIFO of units\<close>

lemma length_queue_units [simp]: "length (queue_units q) = unat (queue_count q)"
  by (simp add: queue_units_def)

lemma queue_add_memcpy_refines:
  assumes inv: "queue_inv q" and tr: "tr = min count (queue_space q)"
    and src: "unat tr * unat (unit_bytes q) \<le> length src"
    and res: "queue_add_memcpy q src count write_at = (m, q')"
  shows "m = tr \<and> queue_units q' = queue_units q @ units_of (unat (unit_bytes q)) src (unat tr)
    \<and> queue_inv q' \<and> buffer_units q' = buffer_units q \<and> unit_bytes q' = unit_bytes q"
proof -
  note facts = queue_inv_facts [OF inv]
  define n where "n = unat (buffer_units q)"
  define ub where "ub = unat (unit_bytes q)"
  define t where "t = unat (q_tail q) mod n"
  define c where "c = unat (queue_count q)"
  define h where "h = unat (q_head q)"
  obtain b where q': "m = tr" "q' = q\<lparr>q_tail := q_tail q + tr, buffer := b,
        policy_log := policy_log q @ [PolicyAdd tr]\<rparr>"
      "length b = length (buffer q)"
      and b: "\<And>s. s < n \<Longrightarrow> slot b ub s = (if (s + n - t) mod n < unat tr
        then slot src ub ((s + n - t) mod n) else slot (buffer q) ub s)"
    using queue_add_memcpy_buffer [OF inv tr src res n_def ub_def t_def] by blast
  have tc: "unat tr \<le> n - c" "c \<le> n" "0 < n"
    using facts by (simp_all add: tr unat_min n_def c_def)
  have cnt: "queue_count q' = queue_count q + tr" using q' by (simp add: queue_count_def)
  have "c + unat tr < 2 ^ 32"
    using tc unsigned_less [where ?'a = nat, of "buffer_units q"] by (simp add: n_def)
  then have c': "unat (queue_count q') = c + unat tr"
    unfolding cnt c_def by (rule unat_add_small)
  have t: "t = (h + c) mod n" using facts by (simp add: t_def n_def c_def h_def)
  have inv': "queue_inv q'" using inv q' c' tc
    by (simp add: queue_inv_def word_le_nat_alt n_def)
  have upt_split: "[0..<c + unat tr] = [0..<c] @ map (\<lambda>i. i + c) [0..<unat tr]"
    by (simp only: upt_add_eq_append [OF le0] map_add_upt add_0 add.commute)
  have slot_i: "slot b ub ((h + i) mod n)
      = (if c \<le> i then slot src ub (i - c) else slot (buffer q) ub ((h + i) mod n))"
    if "i < c + unat tr" for i
    using b [of "(h + i) mod n"] mod_offset [of i n c h] that tc t by (auto split: if_splits)
  have "queue_units q' = map (\<lambda>i. slot b ub ((h + i) mod n)) [0..<c + unat tr]"
    unfolding queue_units_def c' using q' by (simp add: ub_def n_def h_def)
  also have "\<dots> = map (\<lambda>i. slot b ub ((h + i) mod n)) [0..<c]
      @ map (\<lambda>i. slot b ub ((h + (i + c)) mod n)) [0..<unat tr]"
    unfolding upt_split by (simp add: comp_def)
  also have "map (\<lambda>i. slot b ub ((h + i) mod n)) [0..<c] = queue_units q"
    unfolding queue_units_def using slot_i by (auto simp: ub_def n_def h_def c_def)
  also have "map (\<lambda>i. slot b ub ((h + (i + c)) mod n)) [0..<unat tr] = units_of ub src (unat tr)"
    unfolding units_of_def using slot_i by auto
  finally show ?thesis using q' inv' by (simp add: ub_def)
qed

lemma queue_advance_head_refines:
  assumes inv: "queue_inv q" and res: "queue_advance_head q k = (m, q')"
  shows "m = min k (queue_count q) \<and> queue_units q' = drop (unat k) (queue_units q)
    \<and> queue_inv q' \<and> buffer_units q' = buffer_units q \<and> unit_bytes q' = unit_bytes q"
proof -
  note facts = queue_inv_facts [OF inv]
  have q': "m = min k (queue_count q)" "q' = q\<lparr>q_head := q_head q + m,
      policy_log := policy_log q @ [PolicyRemove m]\<rparr>"
    using res by (auto simp: queue_advance_head_def Let_def)
  have "queue_count q' = queue_count q - m" using q' by (simp add: queue_count_def)
  then have c': "unat (queue_count q') = unat (queue_count q) - unat m" using q'(1) by (simp add: unat_sub_le)
  have um: "unat m = min (unat k) (unat (queue_count q))" by (simp add: q'(1) unat_min)
  have inv': "queue_inv q'" using inv q'(2) c' facts(6) by (simp add: queue_inv_def word_le_nat_alt)
  have idx: "(unat (q_head q + m) + i) mod unat (buffer_units q)
      = (unat (q_head q) + (unat m + i)) mod unat (buffer_units q)" for i
    by (simp only: mod_add_left_eq [of "unat (q_head q + m)", symmetric] unat_add_mod [OF facts(1)]
        mod_add_left_eq [of "unat (q_head q) + unat m"] add.assoc)
  have "queue_units q' = map (\<lambda>i. slot (buffer q) (unat (unit_bytes q))
      ((unat (q_head q) + (unat m + i)) mod unat (buffer_units q))) [0..<unat (queue_count q) - unat m]"
    unfolding queue_units_def c' using q'(2) idx by simp
  also have "\<dots> = drop (unat m) (queue_units q)"
    by (rule nth_equalityI) (simp_all add: queue_units_def less_diff_conv add.commute)
  also have "\<dots> = drop (unat k) (queue_units q)" using um by (simp add: min_def)
  finally show ?thesis using q' inv' by simp
qed

lemma queue_remove_memcpy_refines:
  assumes inv: "queue_inv q" and tr: "tr = min count (queue_count q)"
    and d: "unat tr * unat (unit_bytes q) \<le> length dest"
    and res: "queue_remove_memcpy q dest count write_at = (m, dest', q')"
  shows "m = tr \<and> dest' = write_at dest 0 (concat (take (unat count) (queue_units q)))
    \<and> queue_units q' = drop (unat count) (queue_units q)
    \<and> queue_inv q' \<and> buffer_units q' = buffer_units q \<and> unit_bytes q' = unit_bytes q"
proof -
  note facts = queue_inv_facts [OF inv]
  obtain k q1 where adv: "queue_advance_head q tr = (k, q1)" by (cases "queue_advance_head q tr")
  have r: "m = k" "q' = q1"
    "dest' = queue_read_safe q dest (q_head q AND (buffer_units q - 1)) tr write_at"
    using res adv by (simp_all add: queue_remove_memcpy_def Let_def tr)
  have trn: "unat tr \<le> unat (buffer_units q)" using facts(6) by (simp add: tr unat_min)
  have "concat (map (\<lambda>i. slot (buffer q) (unat (unit_bytes q))
        ((unat (q_head q) + i) mod unat (buffer_units q))) [0..<unat tr])
      = concat (take (unat count) (queue_units q))"
    by (intro arg_cong [where f = concat] nth_equalityI) (auto simp: queue_units_def tr unat_min)
  then have "dest' = write_at dest 0 (concat (take (unat count) (queue_units q)))"
    using r(3) queue_read_safe_bytes [OF inv trn refl refl refl d] by simp
  moreover have "drop (unat tr) (queue_units q) = drop (unat count) (queue_units q)"
    by (simp add: tr unat_min min_def word_le_nat_alt)
  ultimately show ?thesis
    using queue_advance_head_refines [OF inv adv] r by (simp add: tr)
qed

lemma queue_add_unit_eq:
  assumes inv: "queue_inv q" and src: "length src = unat (unit_bytes q)" and sp: "queue_space q \<noteq> 0"
  shows "queue_add_unit q src = queue_add_units q src 1"
proof -
  note facts = queue_inv_facts [OF inv]
  have one: "min 1 (queue_space q) = 1" using sp by (simp add: min_def word_le_nat_alt unat_gt_0 Suc_le_eq)
  define tail where "tail = q_tail q AND (buffer_units q - 1)"
  have "unat tail < unat (buffer_units q)" using facts by (simp add: tail_def unat_and_pred)
  then have "min 1 (buffer_units q - tail) = 1"
    by (simp add: min_def word_le_nat_alt unat_sub_le Suc_le_eq)
  moreover have "unit_bytes q = 1 \<Longrightarrow> (buffer q)[unat tail := hd src] = write_at (buffer q) (unat tail) src"
  proof -
    assume "unit_bytes q = 1"
    with src obtain x where "src = [x]" by (cases src) auto
    moreover have "unat tail < length (buffer q)"
      using \<open>unat tail < unat (buffer_units q)\<close> \<open>unit_bytes q = 1\<close> facts by simp
    ultimately show ?thesis by (simp add: write_at_def upd_conv_take_nth_drop)
  qed
  ultimately show ?thesis using sp src one
    by (simp add: queue_add_unit_def queue_add_units_def queue_add_memcpy_def Let_def tail_def read_at_def)
qed

lemma queue_add_unit_full: "queue_space q = 0 \<Longrightarrow> queue_add_unit q src = (0, q)"
  by (simp add: queue_add_unit_def Let_def)

lemma slot_concat:
  assumes "list_all (\<lambda>u. length u = ub) us" "i < length us"
  shows "slot (concat us) ub i = us ! i"
  using assms
proof (induction us arbitrary: i)
  case (Cons u us)
  show ?case
  proof (cases i)
    case (Suc j)
    then have "slot (concat (u # us)) ub i = slot (concat us) ub j"
      using Cons.prems by (simp add: slot_def read_at_def)
    then show ?thesis using Cons Suc by simp
  qed (use Cons.prems in \<open>simp add: slot_def read_at_def\<close>)
qed simp

lemma units_of_concat:
  "list_all (\<lambda>u. length u = ub) us \<Longrightarrow> n \<le> length us \<Longrightarrow> units_of ub (concat us) n = take n us"
  by (rule nth_equalityI) (simp_all add: units_of_def slot_concat)

lemma length_concat_units: "list_all (\<lambda>u. length u = ub) us \<Longrightarrow> length (concat us) = length us * ub"
  by (induction us) auto

lemma queue_units_length:
  assumes "queue_inv q"
  shows "list_all (\<lambda>u. length u = unat (unit_bytes q)) (queue_units q)"
proof -
  note facts = queue_inv_facts [OF assms]
  have "s * unat (unit_bytes q) + unat (unit_bytes q) \<le> length (buffer q)"
    if "s < unat (buffer_units q)" for s
    using that facts(4) by (metis Suc_leI add.commute mult_Suc mult_le_mono1)
  then show ?thesis using facts(2) by (auto simp: queue_units_def list_all_iff slot_def)
qed

lemma queue_add_unit_refines:
  assumes inv: "queue_inv q" and src: "length src = unat (unit_bytes q)" and res: "queue_add_unit q src = (n, q')"
  shows "queue_units q' = queue_units q @ (if length (queue_units q) < unat (buffer_units q) then [src] else [])
    \<and> queue_inv q' \<and> buffer_units q' = buffer_units q \<and> unit_bytes q' = unit_bytes q"
proof (cases "queue_space q = 0")
  case True
  then have "unat (buffer_units q) - unat (queue_count q) = 0"
    using queue_inv_facts(7) [OF inv] by simp
  then show ?thesis using True res inv by (simp add: queue_add_unit_full)
next
  case False
  have one: "min 1 (queue_space q) = 1" using False by (simp add: min_def word_le_nat_alt unat_gt_0 Suc_le_eq)
  have sp: "unat (queue_count q) < unat (buffer_units q)"
    using False queue_inv_facts(7) [OF inv] by (metis unat_gt_0 zero_less_diff)
  have "queue_add_memcpy q src 1 write_at = (n, q')"
    using res by (simp add: queue_add_unit_eq [OF inv src False] queue_add_units_def)
  from queue_add_memcpy_refines [OF inv refl _ this] src sp
  show ?thesis by (simp add: one units_of_def slot_def read_at_def)
qed

lemma queue_remove_unit_refines:
  assumes inv: "queue_inv q" and d: "length dest = unat (unit_bytes q)" and res: "queue_remove_unit q dest = (n, u, q')"
  shows "queue_inv q' \<and> buffer_units q' = buffer_units q \<and> unit_bytes q' = unit_bytes q
    \<and> (if queue_units q = [] then n = 0 \<and> q' = q else n = 1 \<and> queue_units q = u # queue_units q')"
proof (cases "queue_count q = 0")
  case True
  then show ?thesis using res inv by (simp add: queue_remove_unit_def Let_def queue_units_def)
next
  case False
  note facts = queue_inv_facts [OF inv]
  define h where "h = unat (q_head q) mod unat (buffer_units q)"
  have h: "h < unat (buffer_units q)" "unat (q_head q AND (buffer_units q - 1)) = h"
    using facts by (simp_all add: h_def unat_and_pred)
  have c: "0 < unat (queue_count q)" using False by (simp add: unat_gt_0)
  obtain m where adv: "queue_advance_head q 1 = (m, q')"
    and n: "n = m" and u: "u = (if unit_bytes q = 1 then dest[0 := buffer q ! h]
      else write_at dest 0 (read_at (buffer q) (unat ((q_head q AND (buffer_units q - 1)) * unit_bytes q)) (unat (unit_bytes q))))"
    using res False by (auto simp: queue_remove_unit_def Let_def h(2) split: prod.splits)
  have one: "min 1 (queue_count q) = 1" using c by (simp add: min_def word_le_nat_alt Suc_le_eq)
  note adv' = queue_advance_head_refines [OF inv adv]
  have len: "length (slot (buffer q) (unat (unit_bytes q)) h) = unat (unit_bytes q)"
    using queue_units_length [OF inv] c unfolding list_all_length by (force simp: queue_units_def h_def)
  have "u = slot (buffer q) (unat (unit_bytes q)) h"
  proof (cases "unit_bytes q = 1")
    case True
    then obtain x where "dest = [x]" using d by (cases dest) auto
    moreover have "h < length (buffer q)" using True h(1) facts(4) by simp
    ultimately show ?thesis using u True by (simp add: slot_def read_at_def take_Suc_conv_app_nth take_drop hd_drop_conv_nth)
  next
    case False
    then show ?thesis using u d len h unit_mult [OF _ inv, of "q_head q AND (buffer_units q - 1)"]
      by (simp add: slot_def write_at_def)
  qed
  moreover have "hd (queue_units q) = slot (buffer q) (unat (unit_bytes q)) h" "queue_units q \<noteq> []"
    using c by (simp_all add: queue_units_def hd_map h_def upt_conv_Cons)
  moreover have "queue_units q' = tl (queue_units q)" using adv' by (simp add: drop_Suc)
  ultimately show ?thesis using adv' n one list.collapse [of "queue_units q"] by auto
qed

lemma queue_init_refines:
  assumes "queue_inv q"
  shows "\<exists>q'. queue_init q = Some q' \<and> queue_inv q' \<and> queue_units q' = []
    \<and> buffer_units q' = buffer_units q \<and> unit_bytes q' = unit_bytes q"
  using assms by (simp add: queue_init_def queue_inv_def queue_units_def queue_count_def)

section \<open>The FIFO contract holds of the ring buffer\<close>

definition unit_size_ok :: "queue \<Rightarrow> byte list \<Rightarrow> bool" where
  "unit_size_ok q u \<longleftrightarrow> length u = unat (unit_bytes q)"

definition fifo_put :: "queue \<Rightarrow> byte list list \<Rightarrow> nat \<times> queue" where
  "fifo_put q us = (case queue_add_units q (concat us) (word_of_nat (length us)) of (n, q') \<Rightarrow> (unat n, q'))"

definition fifo_get :: "queue \<Rightarrow> nat \<Rightarrow> byte list list \<times> queue" where
  "fifo_get q k =
     (let room = replicate (min k (unat (queue_count q)) * unat (unit_bytes q)) 0
      in case queue_remove_units q room (word_of_nat k) of
           (n, dest, q') \<Rightarrow> (units_of (unat (unit_bytes q)) dest (unat n), q'))"

lemma fifo_put_spec:
  assumes inv: "queue_inv q" and us: "list_all (unit_size_ok q) us" "length us < 2 ^ 32"
    and res: "fifo_put q us = (n, q')"
  shows "n = min (length us) (unat (buffer_units q) - length (queue_units q))
    \<and> queue_units q' = queue_units q @ take n us \<and> queue_inv q'
    \<and> buffer_units q' = buffer_units q \<and> unit_bytes q' = unit_bytes q"
proof -
  obtain m where r: "queue_add_memcpy q (concat us) (word_of_nat (length us)) write_at = (m, q')" "n = unat m"
    using res by (auto simp: fifo_put_def queue_add_units_def split: prod.splits)
  have ok: "list_all (\<lambda>u. length u = unat (unit_bytes q)) us"
    using us(1) by (simp add: unit_size_ok_def list_all_iff)
  define tr where "tr = min (word_of_nat (length us)) (queue_space q)"
  have tr: "unat tr = min (length us) (unat (buffer_units q) - unat (queue_count q))"
    using us(2) queue_inv_facts(7) [OF inv] by (simp add: tr_def unat_min unat_of_nat)
  have "unat tr * unat (unit_bytes q) \<le> length (concat us)"
    using length_concat_units [OF ok] tr by simp
  from queue_add_memcpy_refines [OF inv tr_def this r(1)]
  show ?thesis using r(2) tr by (simp add: units_of_concat [OF ok])
qed

lemma fifo_get_spec:
  assumes inv: "queue_inv q" and k: "k < 2 ^ 32" and res: "fifo_get q k = (us, q')"
  shows "us = take k (queue_units q) \<and> queue_units q' = drop k (queue_units q) \<and> queue_inv q'
    \<and> buffer_units q' = buffer_units q \<and> unit_bytes q' = unit_bytes q"
proof -
  define ub where "ub = unat (unit_bytes q)"
  define room where "room = replicate (min k (unat (queue_count q)) * ub) (0 :: byte)"
  obtain n dest where r: "queue_remove_memcpy q room (word_of_nat k) write_at = (n, dest, q')"
    "us = units_of ub dest (unat n)"
    using res by (auto simp: fifo_get_def queue_remove_units_def room_def ub_def Let_def split: prod.splits)
  define tr where "tr = min (word_of_nat k) (queue_count q)"
  have uk: "unat (word_of_nat k :: u32) = k" using k by (simp add: unat_of_nat)
  have tr: "unat tr = min k (unat (queue_count q))" by (simp add: tr_def unat_min uk)
  have "unat tr * unat (unit_bytes q) \<le> length room" by (simp add: room_def tr ub_def)
  from queue_remove_memcpy_refines [OF inv tr_def this r(1)]
  have spec: "n = tr" "dest = write_at room 0 (concat (take k (queue_units q)))"
    "queue_units q' = drop k (queue_units q) \<and> queue_inv q'
    \<and> buffer_units q' = buffer_units q \<and> unit_bytes q' = unit_bytes q" by (simp_all add: uk)
  have ok: "list_all (\<lambda>u. length u = ub) (take k (queue_units q))"
    using queue_units_length [OF inv] by (auto simp: list_all_iff ub_def dest: in_set_takeD)
  have "dest = concat (take k (queue_units q))"
    using spec(2) length_concat_units [OF ok] by (simp add: write_at_def room_def min.commute)
  then have "us = take k (queue_units q)"
    using r(2) spec(1) tr units_of_concat [OF ok, of "unat tr"] by (simp add: min_def)
  then show ?thesis using spec(3) by simp
qed

interpretation ring: bounded_fifo queue_inv queue_units "\<lambda>q. unat (buffer_units q)" fifo_put fifo_get unit_size_ok
proof
  show "queue_inv q \<Longrightarrow> length (queue_units q) \<le> unat (buffer_units q)" for q
    by (simp add: queue_inv_facts)
  show "queue_inv q \<Longrightarrow> list_all (unit_size_ok q) us \<Longrightarrow> length us < 2 ^ 32 \<Longrightarrow> fifo_put q us = (n, q') \<Longrightarrow>
      n = min (length us) (unat (buffer_units q) - length (queue_units q))
      \<and> queue_units q' = queue_units q @ take n us \<and> queue_inv q'
      \<and> unat (buffer_units q') = unat (buffer_units q) \<and> unit_size_ok q' = unit_size_ok q" for q us n q'
    using fifo_put_spec [of q us n q'] by (simp add: unit_size_ok_def fun_eq_iff)
  show "queue_inv q \<Longrightarrow> k < 2 ^ 32 \<Longrightarrow> fifo_get q k = (us, q') \<Longrightarrow>
      us = take k (queue_units q) \<and> queue_units q' = drop k (queue_units q) \<and> queue_inv q'
      \<and> unat (buffer_units q') = unat (buffer_units q) \<and> unit_size_ok q' = unit_size_ok q" for q k us q'
    using fifo_get_spec [of q k us q'] by (simp add: unit_size_ok_def fun_eq_iff)
qed

section \<open>What clients of the queue get\<close>

text \<open>
  C11. Whatever sequence of \<open>queue_add_units\<close> and \<open>queue_remove_units\<close> calls is made, with any
  counts and with the counters wrapping freely, the units handed out followed by those still in
  the ring are the units that were there before followed by the units accepted, in order: the
  queue loses, duplicates and reorders nothing, never holds more than its capacity, and keeps its
  invariant.
\<close>

theorem queue_fifo_order:
  assumes "queue_inv q" "list_all (fifo_op_ok (unit_size_ok q)) ops"
    and "fifo_run fifo_put fifo_get q ops = (ins, outs, q')"
  shows "outs @ queue_units q' = queue_units q @ ins \<and> queue_inv q'
    \<and> length (queue_units q') \<le> unat (buffer_units q)"
  using ring.fifo_conserves [OF assms] ring.bounded [of q'] by simp

definition wrapping_queue :: queue where
  "wrapping_queue = \<lparr>q_head = 0xffffffff, q_tail = 0xffffffff, buffer_units = 4, unit_bytes = 2,
     buffer = replicate 8 0, policy_log = []\<rparr>"

lemma wrapping_queue_inv: "queue_inv wrapping_queue"
  by (simp add: wrapping_queue_def queue_inv_def power_of_two_def queue_count_def)

theorem queue_fifo_order_witness:
  "case fifo_run fifo_put fifo_get wrapping_queue [Put [[1, 2], [3, 4], [5, 6]], Get 2, Put [[7, 8]], Get 9] of
     (ins, outs, q') \<Rightarrow> outs @ queue_units q' = queue_units wrapping_queue @ ins \<and> queue_inv q'
       \<and> length (queue_units q') \<le> 4"
proof -
  let ?ops = "[Put [[1, 2], [3, 4], [5, 6]], Get 2, Put [[7, 8]], Get 9]"
  have ok: "list_all (fifo_op_ok (unit_size_ok wrapping_queue)) ?ops"
    by (simp add: unit_size_ok_def wrapping_queue_def)
  obtain ins outs q' where r: "fifo_run fifo_put fifo_get wrapping_queue ?ops = (ins, outs, q')"
    by (cases "fifo_run fifo_put fifo_get wrapping_queue ?ops") auto
  show ?thesis using queue_fifo_order [OF wrapping_queue_inv ok r] r by (simp add: wrapping_queue_def)
qed

text \<open>
  The two bulk transfers against their specification on lists of units, whatever the
  positions of the counters and however the block wraps: \<open>queue_add_units\<close> accepts as many units
  as there is space for and appends exactly those, \<open>queue_remove_units\<close> copies the oldest units
  to the destination, leaves the rest of it alone, and removes exactly those.
\<close>

theorem queue_transfers_refine:
  assumes "queue_inv q"
    and "unat (min n (queue_space q)) * unat (unit_bytes q) \<le> length src"
    and "unat (min k (queue_count q)) * unat (unit_bytes q) \<le> length dest"
  shows "(case queue_add_units q src n of (m, q') \<Rightarrow>
      m = min n (queue_space q) \<and> queue_inv q'
      \<and> queue_units q' = queue_units q @ units_of (unat (unit_bytes q)) src (unat m))
    \<and> (case queue_remove_units q dest k of (m, dest', q') \<Rightarrow>
      m = min k (queue_count q) \<and> queue_inv q'
      \<and> dest' = write_at dest 0 (concat (take (unat k) (queue_units q)))
      \<and> queue_units q' = drop (unat k) (queue_units q))"
  using queue_add_memcpy_refines [OF assms(1) refl assms(2)]
    queue_remove_memcpy_refines [OF assms(1) refl assms(3)]
  by (auto simp: queue_add_units_def queue_remove_units_def split: prod.splits)

theorem queue_transfers_refine_witness:
  "case queue_add_units wrapping_queue [1, 2, 3, 4] 2 of (m, q') \<Rightarrow> m = 2 \<and> queue_inv q'
      \<and> queue_units q' = queue_units wrapping_queue @ units_of 2 [1, 2, 3, 4] (unat m)"
  using queue_transfers_refine [OF wrapping_queue_inv, of 2 "[1, 2, 3, 4]" 0 "[]"]
  by (simp add: wrapping_queue_def queue_space_def queue_count_def min_def word_le_nat_alt split: prod.splits)

text \<open>
  Peeking beyond the end of the queue copies nothing but does not report zero units: the
  unsigned subtraction wraps, and the number of units asked for is returned.
\<close>

theorem queue_peek_beyond_end:
  assumes "queue_inv q" "queue_count q < i" "count \<le> queue_count q - i"
  shows "queue_peek_units q dest i count = (count, dest)"
  using assms by (simp add: queue_peek_units_def queue_peek_memcpy_def Let_def min_def not_less order_less_not_sym)

theorem queue_peek_beyond_end_witness: "queue_peek_units wrapping_queue [9, 9, 9, 9] 3 2 = (2, [9, 9, 9, 9])"
  using queue_peek_beyond_end [OF wrapping_queue_inv, of 3 2 "[9, 9, 9, 9]"]
  by (simp add: wrapping_queue_def queue_count_def word_le_nat_alt)

end
