(* ===== verification/Util_Strings.thy ===== *)
theory Util_Strings
  imports EC_Prelude
begin

text \<open>
  The character and string routines of common/util.c. A \<open>const char *\<close> is the list of the
  bytes from the pointer on; the end of the list, like a zero byte, is the terminating
  null. \<open>char\<close> is unsigned on the ARM cores, so \<open>*s\<close> is the byte's value.
\<close>

type_synonym cstr = "byte list"

definition deref :: "cstr \<Rightarrow> int" where
  "deref s = (case s of [] \<Rightarrow> 0 | c # _ \<Rightarrow> uint c)"

text \<open>The characters up to the terminating null.\<close>

definition cstring :: "cstr \<Rightarrow> byte list" where
  "cstring s = takeWhile (\<lambda>c. c \<noteq> 0) s"

section \<open>Lengths and character classes\<close>

fun strlen :: "cstr \<Rightarrow> nat" where
  "strlen [] = 0"
| "strlen (c # s) = (if c \<noteq> 0 then Suc (strlen s) else 0)"

fun strnlen :: "cstr \<Rightarrow> nat \<Rightarrow> nat" where
  "strnlen [] maxlen = 0"
| "strnlen (c # s) maxlen = (if 0 < maxlen \<and> c \<noteq> 0 then Suc (strnlen s (maxlen - 1)) else 0)"

definition isspace :: "int \<Rightarrow> bool" where
  "isspace c \<longleftrightarrow> c = 32 \<or> c = 9 \<or> c = 13 \<or> c = 10"

definition isdigit :: "int \<Rightarrow> bool" where
  "isdigit c \<longleftrightarrow> 48 \<le> c \<and> c \<le> 57"

definition isalpha :: "int \<Rightarrow> bool" where
  "isalpha c \<longleftrightarrow> (65 \<le> c \<and> c \<le> 90) \<or> (97 \<le> c \<and> c \<le> 122)"

definition isupper :: "int \<Rightarrow> bool" where
  "isupper c \<longleftrightarrow> 65 \<le> c \<and> c \<le> 90"

definition isprint :: "int \<Rightarrow> bool" where
  "isprint c \<longleftrightarrow> 32 \<le> c \<and> c \<le> 126"

definition tolower :: "int \<Rightarrow> int" where
  "tolower c = (if 65 \<le> c \<and> c \<le> 90 then c + 97 - 65 else c)"

section \<open>Comparison\<close>

function strcasecmp :: "cstr \<Rightarrow> cstr \<Rightarrow> int" where
  "strcasecmp s1 s2 =
     (let diff = tolower (deref s1) - tolower (deref s2)
      in if diff \<noteq> 0 then diff
         else if deref s1 \<noteq> 0 \<and> deref s2 \<noteq> 0 then strcasecmp (tl s1) (tl s2)
         else 0)"
  by pat_completeness auto
termination
  by (relation "measure (\<lambda>(s1, s2). length s1)") (auto simp: deref_def split: list.splits)

declare strcasecmp.simps [simp del]

function strncasecmp_loop :: "cstr \<Rightarrow> cstr \<Rightarrow> nat \<Rightarrow> int" where
  "strncasecmp_loop s1 s2 n =
     (let diff = tolower (deref s1) - tolower (deref s2)
      in if diff \<noteq> 0 then diff
         else if deref s1 \<noteq> 0 \<and> deref s2 \<noteq> 0 \<and> n - 1 \<noteq> 0
         then strncasecmp_loop (tl s1) (tl s2) (n - 1)
         else 0)"
  by pat_completeness auto
termination
  by (relation "measure (\<lambda>(s1, s2, n). n)") auto

declare strncasecmp_loop.simps [simp del]

definition strncasecmp :: "cstr \<Rightarrow> cstr \<Rightarrow> nat \<Rightarrow> int" where
  "strncasecmp s1 s2 n = (if n = 0 then 0 else strncasecmp_loop s1 s2 n)"

fun strncmp :: "cstr \<Rightarrow> cstr \<Rightarrow> nat \<Rightarrow> int" where
  "strncmp s1 s2 0 = 0"
| "strncmp s1 s2 (Suc n) =
     (if deref s1 \<noteq> deref s2 then deref s1 - deref s2
      else if deref s1 = 0 then 0
      else strncmp (tl s1) (tl s2) n)"

section \<open>Numbers\<close>

text \<open>
  The loops \<open>while ((c = *nptr++) && isspace(c))\<close>: the result is the position of \<open>c\<close>, so
  \<open>c\<close> is \<open>deref\<close> of it and \<open>nptr\<close> its tail.
\<close>

fun skip_space :: "cstr \<Rightarrow> cstr" where
  "skip_space [] = []"
| "skip_space (c # s) = (if c \<noteq> 0 \<and> isspace (uint c) then skip_space s else c # s)"

fun atoi_digits :: "cstr \<Rightarrow> int \<Rightarrow> int" where
  "atoi_digits [] result = result"
| "atoi_digits (c # s) result =
     (if isdigit (uint c) then atoi_digits s (s32 (s32 (result * 10) + (uint c - 48))) else result)"

definition atoi :: "cstr \<Rightarrow> int" where
  "atoi nptr =
     (let p = skip_space nptr;
          neg = (deref p = 45);
          p = (if neg then tl p else p);
          result = atoi_digits p 0
      in if neg then s32 (- result) else result)"

text \<open>The digit value of a character in a base, as the three range tests of the loop decide it.\<close>

definition digit_value :: "int \<Rightarrow> int \<Rightarrow> int option" where
  "digit_value c base =
     (if 48 \<le> c \<and> c < 48 + min base 10 then Some (c - 48)
      else if 65 \<le> c \<and> c < 65 + base - 10 then Some (c - 65 + 10)
      else if 97 \<le> c \<and> c < 97 + base - 10 then Some (c - 97 + 10)
      else None)"

fun strtoi_digits :: "cstr \<Rightarrow> int \<Rightarrow> int \<Rightarrow> cstr \<Rightarrow> int \<times> cstr" where
  "strtoi_digits [] base result endptr = (result, endptr)"
| "strtoi_digits (c # s) base result endptr =
     (if c = 0 then (result, endptr)
      else case digit_value (uint c) base of
             None \<Rightarrow> (result, endptr)
           | Some d \<Rightarrow> strtoi_digits s base (s32 (s32 (result * base) + d)) s)"

definition strtoi :: "cstr \<Rightarrow> int \<Rightarrow> int \<times> cstr" where
  "strtoi nptr base =
     (let p = skip_space nptr;
          (base, neg, p) =
            (if deref p = 48 \<and> deref (tl p) = 120 then (16, False, tl (tl p))
             else if base = 0 then (10, deref p = 45, if deref p = 45 then tl p else p)
             else (base, False, p));
          (result, endptr) = strtoi_digits p base 0 nptr
      in (if neg then s32 (- result) else result, endptr))"

fun strtoul_digits :: "cstr \<Rightarrow> int \<Rightarrow> u64 \<Rightarrow> cstr \<Rightarrow> u64 \<times> cstr" where
  "strtoul_digits [] base result endptr = (result, endptr)"
| "strtoul_digits (c # s) base result endptr =
     (if c = 0 then (result, endptr)
      else case digit_value (uint c) base of
             None \<Rightarrow> (result, endptr)
           | Some d \<Rightarrow> strtoul_digits s base (result * word_of_int base + word_of_int d) s)"

definition strtoul :: "cstr \<Rightarrow> int \<Rightarrow> u64 \<times> cstr" where
  "strtoul nptr base =
     (let p = skip_space nptr
      in if deref p = 48 \<and> deref (tl p) = 120 then strtoul_digits (tl (tl p)) 16 0 nptr
         else if base = 0
         then (if deref p = 45 then (0, nptr) else strtoul_digits p 10 0 nptr)
         else strtoul_digits p base 0 nptr)"

definition str_off :: cstr where "str_off = [111, 102, 102]"
definition str_dis :: cstr where "str_dis = [100, 105, 115]"
definition str_on :: cstr where "str_on = [111, 110]"
definition str_ena :: cstr where "str_ena = [101, 110, 97]"

text \<open>\<open>None\<close>: the string is not recognised and \<open>*dest\<close> is left alone.\<close>

definition parse_bool :: "cstr \<Rightarrow> bool option" where
  "parse_bool s =
     (if strcasecmp s str_off = 0 \<or> strncasecmp s str_dis 3 = 0
         \<or> tolower (deref s) = 102 \<or> tolower (deref s) = 110 then Some False
      else if strcasecmp s str_on = 0 \<or> strncasecmp s str_ena 3 = 0
         \<or> tolower (deref s) = 116 \<or> tolower (deref s) = 121 then Some True
      else None)"

section \<open>Copies\<close>

text \<open>The destination is the array from \<open>dest\<close> on; \<open>i\<close> is the index of \<open>d\<close> in it.\<close>

fun strzcpy_loop :: "byte list \<Rightarrow> nat \<Rightarrow> cstr \<Rightarrow> int \<Rightarrow> byte list" where
  "strzcpy_loop dest i [] len = dest[i := 0]"
| "strzcpy_loop dest i (c # s) len =
     (if 1 < len \<and> c \<noteq> 0 then strzcpy_loop (dest[i := c]) (Suc i) s (len - 1) else dest[i := 0])"

definition strzcpy :: "byte list \<Rightarrow> cstr \<Rightarrow> int \<Rightarrow> byte list" where
  "strzcpy dest src len = (if len \<le> 0 then dest else strzcpy_loop dest 0 src len)"

fun strncpy_loop :: "byte list \<Rightarrow> nat \<Rightarrow> cstr \<Rightarrow> nat \<Rightarrow> byte list" where
  "strncpy_loop dest i [] n = (if n \<noteq> 0 then dest[i := 0] else dest)"
| "strncpy_loop dest i (c # s) n =
     (if n \<noteq> 0 \<and> c \<noteq> 0 then strncpy_loop (dest[i := c]) (Suc i) s (n - 1)
      else if n \<noteq> 0 then dest[i := 0] else dest)"

definition strncpy :: "byte list \<Rightarrow> cstr \<Rightarrow> nat \<Rightarrow> byte list" where
  "strncpy dest src n = strncpy_loop dest 0 src n"

section \<open>Command-line offsets\<close>

datatype parse_error = EC_ERROR_PARAM1 | EC_ERROR_PARAM2 | EC_ERROR_PARAM_COUNT

text \<open>
  \<open>*offset\<close> and \<open>*size\<close> are passed in and handed back; the offset is stored before the size is
  parsed, so an error in the size leaves the new offset behind.
\<close>

definition parse_offset_size ::
  "cstr list \<Rightarrow> nat \<Rightarrow> int \<Rightarrow> int \<Rightarrow> parse_error option \<times> int \<times> int" where
  "parse_offset_size argv shift offset sz =
     (let (err, offset) =
            (if shift < length argv
             then (let (i, e) = strtoi (argv ! shift) 0
                   in if deref e \<noteq> 0 then (Some EC_ERROR_PARAM1, offset) else (None, i))
             else if offset < 0 then (Some EC_ERROR_PARAM_COUNT, offset)
             else (None, offset))
      in case err of
           Some e \<Rightarrow> (Some e, offset, sz)
         | None \<Rightarrow>
             (if Suc shift < length argv
              then (let (i, e) = strtoi (argv ! Suc shift) 0
                    in if deref e \<noteq> 0 then (Some EC_ERROR_PARAM2, offset, sz)
                       else (None, offset, i))
              else if sz < 0 then (Some EC_ERROR_PARAM_COUNT, offset, sz)
              else (None, offset, sz)))"

section \<open>Properties\<close>

lemma strlen_cstring: "strlen s = length (cstring s)"
  by (induction s) (auto simp: cstring_def)

lemma strnlen_min: "strnlen s n = min n (length (cstring s))"
  by (induction s n rule: strnlen.induct) (auto simp: cstring_def min_def)

lemma deref_eq_0: "deref s = 0 \<longleftrightarrow> cstring s = []"
  by (auto simp: deref_def cstring_def uint_0_iff split: list.splits)

lemma cstring_step: "deref s \<noteq> 0 \<Longrightarrow> cstring s = hd s # cstring (tl s) \<and> deref s = uint (hd s)"
  by (auto simp: deref_def cstring_def split: list.splits)

lemma tolower_0 [simp]: "tolower c = 0 \<longleftrightarrow> c = 0"
  by (simp add: tolower_def)

definition lower_case :: "cstr \<Rightarrow> int list" where
  "lower_case s = map (\<lambda>c. tolower (uint c)) (cstring s)"

lemma lower_case_step: "deref s \<noteq> 0 \<Longrightarrow> lower_case s = tolower (deref s) # lower_case (tl s)"
  using cstring_step [of s] by (simp add: lower_case_def)

lemma lower_case_end: "deref s = 0 \<Longrightarrow> lower_case s = []"
  by (simp add: lower_case_def deref_eq_0)

lemma lower_case_Nil: "lower_case s = [] \<longleftrightarrow> deref s = 0"
  by (simp add: lower_case_def deref_eq_0)

lemma tolower_of_0 [simp]: "tolower 0 = 0"
  by (simp add: tolower_def)

lemma strcasecmp_0_iff: "strcasecmp s1 s2 = 0 \<longleftrightarrow> lower_case s1 = lower_case s2"
proof (induction s1 s2 rule: strcasecmp.induct)
  case (1 s1 s2)
  note unf = strcasecmp.simps [of s1 s2]
  show ?case
  proof (cases "deref s1 \<noteq> 0 \<and> deref s2 \<noteq> 0")
    case True
    then show ?thesis using 1 unf lower_case_step [of s1] lower_case_step [of s2] by (auto simp: Let_def)
  next
    case False
    then have "lower_case s1 = lower_case s2 \<longleftrightarrow> deref s1 = 0 \<and> deref s2 = 0"
      by (metis lower_case_Nil)
    moreover have "strcasecmp s1 s2 = 0 \<longleftrightarrow> deref s1 = 0 \<and> deref s2 = 0"
      using False unf by (auto simp: Let_def)
    ultimately show ?thesis by simp
  qed
qed

text \<open>The numeral of \<open>n\<close> in base \<open>b\<close>, most significant digit first.\<close>

definition digit_char :: "nat \<Rightarrow> byte" where
  "digit_char d = word_of_nat (if d < 10 then 48 + d else 87 + d)"

fun numeral_string :: "nat \<Rightarrow> nat \<Rightarrow> cstr" where
  "numeral_string b n =
     (if b < 2 \<or> n < b then [digit_char n] else numeral_string b (n div b) @ [digit_char (n mod b)])"

declare numeral_string.simps [simp del]

lemma uint_digit_char: "d < 36 \<Longrightarrow> uint (digit_char d) = (if d < 10 then 48 + int d else 87 + int d)"
  by (auto simp: digit_char_def unsigned_of_nat take_bit_nat_eq_self)

lemma digit_value_char: "d < b \<Longrightarrow> b \<le> 36 \<Longrightarrow> digit_value (uint (digit_char d)) (int b) = Some (int d)"
  by (auto simp: uint_digit_char digit_value_def min_def)

lemma digit_char_nonzero [simp]: "d < 36 \<Longrightarrow> digit_char d \<noteq> 0"
  using uint_digit_char [of d] by (auto split: if_splits)

lemma strtoi_digits_step:
  assumes "d < b" "b \<le> 36" "r * int b + int d < 2 ^ 31" "0 \<le> r"
  shows "strtoi_digits (digit_char d # s) (int b) r e = strtoi_digits s (int b) (r * int b + int d) s"
proof -
  have nn: "0 \<le> r * int b" using assms by simp
  have "s32 (r * int b) = r * int b" by (rule s32_id) (use assms nn in linarith)+
  moreover have "s32 (r * int b + int d) = r * int b + int d"
    by (rule s32_id) (use assms nn in linarith)+
  ultimately show ?thesis using assms by (simp add: digit_value_char)
qed

lemma strtoi_digits_numeral:
  assumes "2 \<le> b" "b \<le> 36" "n < 2 ^ 31"
  shows "strtoi_digits (numeral_string b n @ s) (int b) 0 e = strtoi_digits s (int b) (int n) s"
  using assms
proof (induction b n arbitrary: s rule: numeral_string.induct)
  case (1 b n)
  show ?case
  proof (cases "n < b")
    case True
    have "int n < 2 ^ 31" using "1.prems"(3) by simp
    then have "strtoi_digits (digit_char n # s) (int b) 0 e = strtoi_digits s (int b) (int n) s"
      using strtoi_digits_step [of n b 0 s e] True 1 by simp
    then show ?thesis using True by (simp add: numeral_string.simps [of b n])
  next
    case False
    have q: "n div b < 2 ^ 31" using "1.prems" div_le_dividend [of n b] by linarith
    have v: "int (n div b) * int b + int (n mod b) = int n"
      by (simp only: of_nat_mult [symmetric] of_nat_add [symmetric] div_mult_mod_eq)
    have "strtoi_digits (numeral_string b n @ s) (int b) 0 e
        = strtoi_digits (digit_char (n mod b) # s) (int b) (int (n div b)) (digit_char (n mod b) # s)"
      using "1.IH" False "1.prems" q by (simp add: numeral_string.simps [of b n] del: strtoi_digits.simps)
    also have "\<dots> = strtoi_digits s (int b) (int n) s"
      using strtoi_digits_step [of "n mod b" b "int (n div b)" s] v "1.prems" by simp
    finally show ?thesis .
  qed
qed

lemma numeral_string_head:
  assumes "2 \<le> b" "b \<le> 36"
  obtains d t where "numeral_string b n = digit_char d # t" "d < b" "n \<noteq> 0 \<Longrightarrow> d \<noteq> 0" "n = 0 \<Longrightarrow> t = []"
proof -
  have "\<exists>d t. numeral_string b n = digit_char d # t \<and> d < b \<and> (n \<noteq> 0 \<longrightarrow> d \<noteq> 0) \<and> (n = 0 \<longrightarrow> t = [])"
    using assms
  proof (induction b n rule: numeral_string.induct)
    case (1 b n)
    show ?case
    proof (cases "n < b")
      case True
      then show ?thesis
        by (intro exI [of _ n] exI [of _ "[]"]) (simp add: numeral_string.simps [of b n])
    next
      case False
      then have "n div b \<noteq> 0" using 1 by (simp add: div_eq_0_iff)
      then show ?thesis using "1.IH" False "1.prems" by (auto simp: numeral_string.simps [of b n])
    qed
  qed
  then show ?thesis using that by blast
qed

lemma skip_space_digit: "d < 36 \<Longrightarrow> skip_space (digit_char d # t) = digit_char d # t"
  using uint_digit_char [of d] by (auto simp: isspace_def)

lemma strtoi_numeral:
  assumes b: "2 \<le> b" "b \<le> 36" and n: "n < 2 ^ 31"
    and rest: "digit_value (deref s) (int b) = None" "deref s \<noteq> 120"
  shows "strtoi (numeral_string b n @ s) (int b) = (int n, s)"
proof -
  obtain d t where hd: "numeral_string b n = digit_char d # t" "d < b" "n \<noteq> 0 \<Longrightarrow> d \<noteq> 0" "n = 0 \<Longrightarrow> t = []"
    using numeral_string_head [OF b, of n] by metis
  have stop: "strtoi_digits s (int b) (int n) s = (int n, s)"
    using rest(1) by (cases s) (auto simp: deref_def)
  have "\<not> (deref (numeral_string b n @ s) = 48 \<and> deref (tl (numeral_string b n @ s)) = 120)"
    using hd rest(2) uint_digit_char [of d] b by (cases "n = 0") (auto simp: deref_def)
  moreover have "skip_space (numeral_string b n @ s) = numeral_string b n @ s"
    using hd b by (simp add: skip_space_digit del: skip_space.simps)
  ultimately show ?thesis
    using strtoi_digits_numeral [OF b n, of s "numeral_string b n @ s"] stop b by (auto simp: strtoi_def Let_def)
qed

lemma strzcpy_loop_spec:
  assumes "0 < len" "i + nat len \<le> length dest"
  shows "strzcpy_loop dest i src len = write_at dest i (take (nat (len - 1)) (cstring src) @ [0])"
  using assms
proof (induction dest i src len rule: strzcpy_loop.induct)
  case (2 dest i c s len)
  show ?case
  proof (cases "1 < len \<and> c \<noteq> 0")
    case True
    then have nl: "nat (len - 1) = Suc (nat (len - 1 - 1))" by linarith
    have i: "i < length dest" using "2.prems" True by linarith
    have "strzcpy_loop dest i (c # s) len
        = write_at (dest[i := c]) (Suc i) (take (nat (len - 1 - 1)) (cstring s) @ [0])"
      using 2 True nl by (simp add: nat_diff_distrib)
    also have "\<dots> = write_at dest i (c # take (nat (len - 1 - 1)) (cstring s) @ [0])"
      using i by (simp add: write_at_def take_Suc_conv_app_nth)
    finally show ?thesis using True nl by (simp add: cstring_def)
  next
    case False
    then have "take (nat (len - 1)) (cstring (c # s)) = []" using 2 by (auto simp: cstring_def)
    then show ?thesis using False 2 by (auto simp: write_at_def upd_conv_take_nth_drop)
  qed
qed (auto simp: write_at_def upd_conv_take_nth_drop cstring_def)

section \<open>Parsing and comparing\<close>

text \<open>
  \<open>strtoi\<close> reads back every number below \<open>2 ^ 31\<close> printed in any base from 2 to 36, and
  stops exactly at the first character that is not a digit of the base.
\<close>

theorem strtoi_roundtrip:
  assumes "2 \<le> b" "b \<le> 36" "n < 2 ^ 31"
    and "digit_value (deref s) (int b) = None" "deref s \<noteq> 120"
  shows "strtoi (numeral_string b n @ s) (int b) = (int n, s)"
  by (rule strtoi_numeral [OF assms])

theorem strtoi_roundtrip_witness: "strtoi (numeral_string 16 255 @ [0x20, 0x31]) 16 = (255, [0x20, 0x31])"
  using strtoi_roundtrip [of 16 255 "[0x20, 0x31]"] by (simp add: deref_def digit_value_def)

end
