(* ===== verification/Util_Memory.thy ===== *)
theory Util_Memory
  imports EC_Prelude
begin

text \<open>
  The block memory routines of common/util.c on a flat byte-addressed memory. Source and
  destination are addresses of the same memory, so overlapping blocks are in the model;
  the word loops load and store four bytes at a time, as the code does. Addresses are
  natural numbers: the code never runs on a block that wraps around the address space.
\<close>

type_synonym mem = "nat \<Rightarrow> byte"

definition load32 :: "mem \<Rightarrow> nat \<Rightarrow> u32" where
  "load32 m a = ucast (m a) OR push_bit 8 (ucast (m (a + 1)))
     OR push_bit 16 (ucast (m (a + 2))) OR push_bit 24 (ucast (m (a + 3)))"

definition store32 :: "mem \<Rightarrow> nat \<Rightarrow> u32 \<Rightarrow> mem" where
  "store32 m a w = m(a := ucast w, a + 1 := ucast (drop_bit 8 w),
     a + 2 := ucast (drop_bit 16 w), a + 3 := ucast (drop_bit 24 w))"

text \<open>\<open>(uintptr_t)p & ~3\<close>\<close>

definition align_down :: "nat \<Rightarrow> nat" where
  "align_down p = p div 4 * 4"

section \<open>The copy loops\<close>

function copy_bytes_up :: "mem \<Rightarrow> nat \<Rightarrow> nat \<Rightarrow> nat \<Rightarrow> mem \<times> nat \<times> nat" where
  "copy_bytes_up m d s lim =
     (if d < lim then copy_bytes_up (m(d := m s)) (d + 1) (s + 1) lim else (m, d, s))"
  by pat_completeness auto
termination
  by (relation "measure (\<lambda>(m, d, s, lim). lim - d)") auto

function copy_words_up :: "mem \<Rightarrow> nat \<Rightarrow> nat \<Rightarrow> nat \<Rightarrow> mem \<times> nat \<times> nat" where
  "copy_words_up m d s lim =
     (if d < lim then copy_words_up (store32 m d (load32 m s)) (d + 4) (s + 4) lim else (m, d, s))"
  by pat_completeness auto
termination
  by (relation "measure (\<lambda>(m, d, s, lim). lim - d)") auto

function copy_bytes_down :: "mem \<Rightarrow> nat \<Rightarrow> nat \<Rightarrow> nat \<Rightarrow> mem \<times> nat \<times> nat" where
  "copy_bytes_down m d s lim =
     (if lim < d then copy_bytes_down (m(d - 1 := m (s - 1))) (d - 1) (s - 1) lim else (m, d, s))"
  by pat_completeness auto
termination
  by (relation "measure (\<lambda>(m, d, s, lim). d)") auto

function copy_words_down :: "mem \<Rightarrow> nat \<Rightarrow> nat \<Rightarrow> nat \<Rightarrow> mem \<times> nat \<times> nat" where
  "copy_words_down m d s lim =
     (if lim < d then copy_words_down (store32 m (d - 4) (load32 m (s - 4))) (d - 4) (s - 4) lim
      else (m, d, s))"
  by pat_completeness auto
termination
  by (relation "measure (\<lambda>(m, d, s, lim). d)") auto

function set_bytes :: "mem \<Rightarrow> nat \<Rightarrow> byte \<Rightarrow> nat \<Rightarrow> mem \<times> nat" where
  "set_bytes m d c lim = (if d < lim then set_bytes (m(d := c)) (d + 1) c lim else (m, d))"
  by pat_completeness auto
termination
  by (relation "measure (\<lambda>(m, d, c, lim). lim - d)") auto

function set_words :: "mem \<Rightarrow> nat \<Rightarrow> u32 \<Rightarrow> nat \<Rightarrow> mem \<times> nat" where
  "set_words m d w lim = (if d < lim then set_words (store32 m d w) (d + 4) w lim else (m, d))"
  by pat_completeness auto
termination
  by (relation "measure (\<lambda>(m, d, w, lim). lim - d)") auto

declare copy_bytes_up.simps [simp del] copy_words_up.simps [simp del]
  copy_bytes_down.simps [simp del] copy_words_down.simps [simp del]
  set_bytes.simps [simp del] set_words.simps [simp del]

section \<open>The routines\<close>

definition memcpy :: "mem \<Rightarrow> nat \<Rightarrow> nat \<Rightarrow> nat \<Rightarrow> mem" where
  "memcpy m dest src len =
     (let tail = dest + len;
          body = align_down tail;
          head = (if dest mod 4 \<noteq> src mod 4 then tail
                  else if tail < align_down (dest + 3) then tail
                  else align_down (dest + 3));
          (m, d, s) = copy_bytes_up m dest src head;
          (m, d, s) = copy_words_up m d s body;
          (m, d, s) = copy_bytes_up m d s tail
      in m)"

definition memset :: "mem \<Rightarrow> nat \<Rightarrow> u32 \<Rightarrow> nat \<Rightarrow> mem" where
  "memset m dest c len =
     (let tail = dest + len;
          body = align_down tail;
          c = c AND 255;
          cccc = c OR push_bit 8 c OR push_bit 16 c OR push_bit 24 c;
          head = (if tail < align_down (dest + 3) then tail else align_down (dest + 3));
          (m, d) = set_bytes m dest (ucast c) head;
          (m, d) = set_words m d cccc body;
          (m, d) = set_bytes m d (ucast c) tail
      in m)"

definition memmove :: "mem \<Rightarrow> nat \<Rightarrow> nat \<Rightarrow> nat \<Rightarrow> mem" where
  "memmove m dest src len =
     (if dest \<le> src \<or> src + len \<le> dest then memcpy m dest src len
      else
        let d = dest + len; s = src + len; tail = dest;
            body = align_down (tail + 3);
            head = (if dest mod 4 \<noteq> src mod 4 then tail
                    else if align_down d < tail then tail
                    else align_down d);
            (m, d, s) = copy_bytes_down m d s head;
            (m, d, s) = copy_words_down m d s body;
            (m, d, s) = copy_bytes_down m d s tail
        in m)"

text \<open>\<open>sa\<close> and \<open>sb\<close> point to plain \<open>char\<close>, unsigned on the ARM cores.\<close>

fun memcmp :: "mem \<Rightarrow> nat \<Rightarrow> nat \<Rightarrow> nat \<Rightarrow> int" where
  "memcmp m sa sb 0 = 0"
| "memcmp m sa sb (Suc len) =
     (let diff = uint (m sa) - uint (m sb)
      in if diff \<noteq> 0 then diff else memcmp m (Suc sa) (Suc sb) len)"

fun safe_memcmp_loop :: "mem \<Rightarrow> nat \<Rightarrow> nat \<Rightarrow> nat \<Rightarrow> u32 \<Rightarrow> u32" where
  "safe_memcmp_loop m us1 us2 0 result = result"
| "safe_memcmp_loop m us1 us2 (Suc n) result =
     safe_memcmp_loop m (Suc us1) (Suc us2) n (result OR (ucast (m us1) XOR ucast (m us2)))"

definition safe_memcmp :: "mem \<Rightarrow> nat \<Rightarrow> nat \<Rightarrow> nat \<Rightarrow> bool" where
  "safe_memcmp m s1 s2 n = (if n = 0 then False else safe_memcmp_loop m s1 s2 n 0 \<noteq> 0)"

text \<open>\<open>c\<close> is an \<open>int\<close> and is compared with the (unsigned) character as such.\<close>

fun memchr :: "mem \<Rightarrow> nat \<Rightarrow> int \<Rightarrow> nat \<Rightarrow> nat option" where
  "memchr m cur c 0 = None"
| "memchr m cur c (Suc n) = (if uint (m cur) = c then Some cur else memchr m (Suc cur) c n)"

fun reverse_loop :: "mem \<Rightarrow> nat \<Rightarrow> nat \<Rightarrow> nat \<Rightarrow> mem" where
  "reverse_loop m start fin 0 = m"
| "reverse_loop m start fin (Suc k) =
     reverse_loop (m(start := m (fin - 1), fin - 1 := m start)) (Suc start) (fin - 1) k"

definition reverse :: "mem \<Rightarrow> nat \<Rightarrow> nat \<Rightarrow> mem" where
  "reverse m dest len = reverse_loop m dest (dest + len) (len div 2)"

section \<open>What a block copy is\<close>

definition block_copy :: "mem \<Rightarrow> nat \<Rightarrow> nat \<Rightarrow> nat \<Rightarrow> mem" where
  "block_copy m dest src n = (\<lambda>a. if dest \<le> a \<and> a < dest + n then m (src + (a - dest)) else m a)"

definition block_set :: "mem \<Rightarrow> nat \<Rightarrow> byte \<Rightarrow> nat \<Rightarrow> mem" where
  "block_set m dest c n = (\<lambda>a. if dest \<le> a \<and> a < dest + n then c else m a)"

definition bytes_at :: "mem \<Rightarrow> nat \<Rightarrow> nat \<Rightarrow> byte list" where
  "bytes_at m a n = map m [a..<a + n]"

lemma load32_bytes:
  "ucast (load32 m a) = m a" "ucast (drop_bit 8 (load32 m a)) = m (a + 1)"
  "ucast (drop_bit 16 (load32 m a)) = m (a + 2)" "ucast (drop_bit 24 (load32 m a)) = m (a + 3)"
  by (rule bit_word_eqI; auto simp: load32_def bit_simps dest: bit_imp_le_length)+

lemma store_load:
  "store32 m d (load32 m s) = m(d := m s, d + 1 := m (s + 1), d + 2 := m (s + 2), d + 3 := m (s + 3))"
  by (simp add: store32_def load32_bytes)

lemma and_255: "(c :: u32) AND 255 = take_bit 8 c"
proof -
  have "(255 :: u32) = mask 8" by (simp add: mask_eq_exp_minus_1)
  then show ?thesis by (simp only: take_bit_eq_mask)
qed

lemma store_repeated:
  fixes c :: u32
  assumes "w = c AND 255" and "cccc = w OR push_bit 8 w OR push_bit 16 w OR push_bit 24 w"
  shows "store32 m d cccc = m(d := ucast c, d + 1 := ucast c, d + 2 := ucast c, d + 3 := ucast c)"
proof -
  have w: "bit w k \<longleftrightarrow> k < 8 \<and> bit c k" for k
    by (simp only: assms(1) and_255 bit_take_bit_iff)
  have "ucast cccc = (ucast c :: byte)" "ucast (drop_bit 8 cccc) = (ucast c :: byte)"
    "ucast (drop_bit 16 cccc) = (ucast c :: byte)" "ucast (drop_bit 24 cccc) = (ucast c :: byte)"
    by (rule bit_word_eqI; auto simp: assms(2) bit_simps w)+
  then show ?thesis by (simp add: store32_def)
qed

section \<open>Correctness of the copy loops\<close>

text \<open>
  A forward copy is safe when it never reads a byte it has already overwritten: the
  destination starts at or below the source, or behind its end.
\<close>

definition up_safe :: "nat \<Rightarrow> nat \<Rightarrow> nat \<Rightarrow> bool" where
  "up_safe dest src len \<longleftrightarrow> dest \<le> src \<or> src + len \<le> dest"

lemma block_copy_0 [simp]: "block_copy m dest src 0 = m"
  by (auto simp: block_copy_def fun_eq_iff)

lemma block_copy_Suc:
  assumes "up_safe dest src len" "k < len" "m' = block_copy m dest src k"
  shows "m'(dest + k := m' (src + k)) = block_copy m dest src (Suc k)"
  using assms by (auto simp: block_copy_def up_safe_def fun_eq_iff)

lemma block_copy_word:
  assumes "up_safe dest src len" "k + 4 \<le> len" "m' = block_copy m dest src k"
  shows "store32 m' (dest + k) (load32 m' (src + k)) = block_copy m dest src (k + 4)"
proof -
  have "m' (src + k + j) = m (src + k + j)" if "j < 4" for j
    using assms that by (auto simp: block_copy_def up_safe_def)
  from this [of 0] this [of 1] this [of 2] this [of 3]
  have "store32 m' (dest + k) (load32 m' (src + k)) = m'(dest + k := m (src + k), dest + k + 1 := m (src + k + 1),
      dest + k + 2 := m (src + k + 2), dest + k + 3 := m (src + k + 3))"
    by (simp only: store_load add_0_right)
  also have "\<dots> = block_copy m dest src (k + 4)"
  proof (rule ext)
    fix a
    consider "a = dest + k" | "a = dest + k + 1" | "a = dest + k + 2" | "a = dest + k + 3"
      | "a < dest + k \<or> dest + k + 4 \<le> a" by linarith
    then show "(m'(dest + k := m (src + k), dest + k + 1 := m (src + k + 1),
        dest + k + 2 := m (src + k + 2), dest + k + 3 := m (src + k + 3))) a = block_copy m dest src (k + 4) a"
      by cases (auto simp: assms(3) block_copy_def add.assoc)
  qed
  finally show ?thesis .
qed

lemma copy_bytes_up_spec:
  assumes "up_safe dest src len" "k \<le> len" "lim \<le> dest + len"
  shows "copy_bytes_up (block_copy m dest src k) (dest + k) (src + k) lim
    = (let k' = max k (lim - dest) in (block_copy m dest src k', dest + k', src + k'))"
  using assms
proof (induction "lim - dest - k" arbitrary: k)
  case 0
  then have "max k (lim - dest) = k" "\<not> dest + k < lim" by simp_all
  then show ?case by (simp add: copy_bytes_up.simps [of _ "dest + k"] Let_def)
next
  case (Suc x)
  then have "k < len" "dest + k < lim" by simp_all
  then have "copy_bytes_up (block_copy m dest src k) (dest + k) (src + k) lim
      = copy_bytes_up (block_copy m dest src (Suc k)) (dest + Suc k) (src + Suc k) lim"
    using block_copy_Suc [OF Suc.prems(1) _ refl, of k m] by (simp add: copy_bytes_up.simps [of _ "dest + k"])
  also have "\<dots> = (let k' = max (Suc k) (lim - dest) in (block_copy m dest src k', dest + k', src + k'))"
    by (rule Suc.hyps) (use Suc \<open>k < len\<close> in simp_all)
  also have "max (Suc k) (lim - dest) = max k (lim - dest)" using \<open>dest + k < lim\<close> by simp
  finally show ?case .
qed

lemma copy_words_up_spec:
  assumes "up_safe dest src len" "k \<le> len" "lim \<le> dest + len" "dest + k < lim \<Longrightarrow> 4 dvd lim - (dest + k)"
  shows "\<exists>k'. k \<le> k' \<and> k' \<le> len \<and> copy_words_up (block_copy m dest src k) (dest + k) (src + k) lim
    = (block_copy m dest src k', dest + k', src + k')"
  using assms
proof (induction "lim - dest - k" arbitrary: k rule: less_induct)
  case less
  show ?case
  proof (cases "dest + k < lim")
    case False
    then have "copy_words_up (block_copy m dest src k) (dest + k) (src + k) lim
        = (block_copy m dest src k, dest + k, src + k)"
      by (simp add: copy_words_up.simps [of _ "dest + k"])
    then show ?thesis using less.prems(2) by blast
  next
    case True
    then obtain c where c: "lim - (dest + k) = 4 * c" "0 < c" using less.prems(4) by (auto elim!: dvdE)
    then have k4: "k + 4 \<le> len" "dest + (k + 4) < lim \<Longrightarrow> 4 dvd lim - (dest + (k + 4))"
      using less.prems(3) True by (auto intro!: dvdI [of _ _ "c - 1"])
    have step: "copy_words_up (block_copy m dest src k) (dest + k) (src + k) lim
        = copy_words_up (block_copy m dest src (k + 4)) (dest + (k + 4)) (src + (k + 4)) lim"
      using block_copy_word [OF less.prems(1) k4(1) refl, of m] True
      by (simp add: copy_words_up.simps [of _ "dest + k"] add.assoc)
    have "\<exists>k'. k + 4 \<le> k' \<and> k' \<le> len \<and> copy_words_up (block_copy m dest src (k + 4)) (dest + (k + 4)) (src + (k + 4)) lim
        = (block_copy m dest src k', dest + k', src + k')"
      by (rule less.hyps) (use less.prems k4 True in simp_all)
    then show ?thesis unfolding step by (meson le_add1 order_trans)
  qed
qed

lemma align_down_le: "align_down p \<le> p"
  by (simp add: align_down_def)

lemma align_down_dvd [simp]: "4 dvd align_down p"
  by (simp add: align_down_def)

lemma align_up_ge: "p \<le> align_down (p + 3)"
proof -
  have "p + 3 = (p + 3) div 4 * 4 + (p + 3) mod 4" by simp
  moreover have "(p + 3) mod 4 \<le> 3" by simp
  ultimately show ?thesis unfolding align_down_def by linarith
qed

lemma memcpy_correct:
  assumes "up_safe dest src len"
  shows "memcpy m dest src len = block_copy m dest src len"
proof -
  define tail where "tail = dest + len"
  define head where "head = (if dest mod 4 \<noteq> src mod 4 then tail
    else if tail < align_down (dest + 3) then tail else align_down (dest + 3))"
  have h: "dest \<le> head" "head \<le> dest + len" "head = tail \<or> 4 dvd head"
    using align_up_ge [of dest] by (auto simp: head_def tail_def)
  define k where "k = head - dest"
  have "copy_bytes_up m dest src head = (block_copy m dest src k, dest + k, src + k)"
    using copy_bytes_up_spec [OF assms, of 0 head m] h by (simp add: Let_def k_def)
  moreover have dk: "dest + k = head" "k \<le> len" using h by (simp_all add: k_def)
  moreover obtain k' where k': "k' \<le> len"
    "copy_words_up (block_copy m dest src k) (dest + k) (src + k) (align_down tail)
      = (block_copy m dest src k', dest + k', src + k')"
    using copy_words_up_spec [OF assms dk(2), of "align_down tail" m] h align_down_le [of tail]
    by (auto simp: tail_def dk dvd_diff_nat)
  moreover have "copy_bytes_up (block_copy m dest src k') (dest + k') (src + k') tail
      = (block_copy m dest src len, dest + len, src + len)"
    using copy_bytes_up_spec [OF assms k'(1), of tail m] k'(1) by (simp add: tail_def max_def)
  ultimately show ?thesis
    by (simp add: memcpy_def Let_def tail_def [symmetric] head_def [symmetric])
qed

section \<open>Copying downwards\<close>

text \<open>
  With the destination inside the source block, the copy runs from the top: the part above
  offset \<open>j\<close> is in place, everything below is still the original.
\<close>

definition copied_above :: "mem \<Rightarrow> nat \<Rightarrow> nat \<Rightarrow> nat \<Rightarrow> nat \<Rightarrow> mem" where
  "copied_above m dest src len j = block_copy m (dest + j) (src + j) (len - j)"

lemma copied_above_Suc:
  assumes "src < dest" "j < len" "m' = copied_above m dest src len (Suc j)"
  shows "m'(dest + j := m' (src + j)) = copied_above m dest src len j"
  using assms by (auto simp: copied_above_def block_copy_def fun_eq_iff intro!: arg_cong [where f = m])

lemma copied_above_word:
  assumes "src < dest" "j + 4 \<le> len" "m' = copied_above m dest src len (j + 4)"
  shows "store32 m' (dest + j) (load32 m' (src + j)) = copied_above m dest src len j"
proof -
  have "m' (src + j + i) = m (src + j + i)" if "i < 4" for i
    using assms that by (auto simp: copied_above_def block_copy_def)
  from this [of 0] this [of 1] this [of 2] this [of 3]
  have "store32 m' (dest + j) (load32 m' (src + j)) = m'(dest + j := m (src + j), dest + j + 1 := m (src + j + 1),
      dest + j + 2 := m (src + j + 2), dest + j + 3 := m (src + j + 3))"
    by (simp only: store_load add_0_right)
  also have "\<dots> = copied_above m dest src len j"
  proof (rule ext)
    fix a
    consider "a = dest + j" | "a = dest + j + 1" | "a = dest + j + 2" | "a = dest + j + 3"
      | "a < dest + j" | "dest + j + 4 \<le> a" by linarith
    then show "(m'(dest + j := m (src + j), dest + j + 1 := m (src + j + 1),
        dest + j + 2 := m (src + j + 2), dest + j + 3 := m (src + j + 3))) a = copied_above m dest src len j a"
      by cases (use assms in \<open>auto simp: copied_above_def block_copy_def intro!: arg_cong [where f = m]\<close>)
  qed
  finally show ?thesis .
qed

lemma copy_bytes_down_spec:
  assumes "src < dest" "j \<le> len" "dest \<le> lim"
  shows "copy_bytes_down (copied_above m dest src len j) (dest + j) (src + j) lim
    = (let j' = min j (lim - dest) in (copied_above m dest src len j', dest + j', src + j'))"
  using assms(2)
proof (induction j)
  case 0
  then show ?case using assms by (simp add: copy_bytes_down.simps [of _ dest] Let_def)
next
  case (Suc j)
  show ?case
  proof (cases "lim < dest + Suc j")
    case True
    have "copy_bytes_down (copied_above m dest src len (Suc j)) (dest + Suc j) (src + Suc j) lim
        = copy_bytes_down (copied_above m dest src len j) (dest + j) (src + j) lim"
      using True copied_above_Suc [OF assms(1) _ refl, of j len m] Suc.prems
      by (simp add: copy_bytes_down.simps [of _ "Suc (dest + j)"])
    moreover have "min (Suc j) (lim - dest) = min j (lim - dest)" using True assms(3) by simp
    ultimately show ?thesis using Suc by simp
  next
    case False
    then have "min (Suc j) (lim - dest) = Suc j" by simp
    then show ?thesis using False by (simp add: copy_bytes_down.simps [of _ "Suc (dest + j)"] Let_def)
  qed
qed

lemma copy_words_down_spec:
  assumes "src < dest" "j \<le> len" "dest \<le> lim" "lim < dest + j \<Longrightarrow> 4 dvd dest + j - lim"
  shows "\<exists>j'. j' \<le> j \<and> copy_words_down (copied_above m dest src len j) (dest + j) (src + j) lim
    = (copied_above m dest src len j', dest + j', src + j')"
  using assms(2,4)
proof (induction j rule: less_induct)
  case (less j)
  show ?case
  proof (cases "lim < dest + j")
    case False
    then show ?thesis by (auto simp: copy_words_down.simps [of _ "dest + j"])
  next
    case True
    then obtain c where c: "dest + j - lim = 4 * c" "0 < c" using less.prems(2) by (auto elim!: dvdE)
    then have "4 \<le> j" using assms(3) by linarith
    then obtain i where i: "j = i + 4" by (metis add.commute le_Suc_ex)
    have d: "lim < dest + i \<Longrightarrow> 4 dvd dest + i - lim" using c i by (auto intro!: dvdI [of _ _ "c - 1"])
    have step: "copy_words_down (copied_above m dest src len j) (dest + j) (src + j) lim
        = copy_words_down (copied_above m dest src len i) (dest + i) (src + i) lim"
      using copied_above_word [OF assms(1) _ refl, of i len m] True less.prems(1) i
      by (simp add: copy_words_down.simps [of _ "dest + (i + 4)"])
    show ?thesis unfolding step using less.IH [of i] i d less.prems(1) by fastforce
  qed
qed

lemma memmove_correct: "memmove m dest src len = block_copy m dest src len"
proof (cases "dest \<le> src \<or> src + len \<le> dest")
  case True
  then show ?thesis by (simp add: memmove_def memcpy_correct up_safe_def)
next
  case False
  then have sd: "src < dest" by simp
  define head where "head = (if dest mod 4 \<noteq> src mod 4 then dest
    else if align_down (dest + len) < dest then dest else align_down (dest + len))"
  have h: "dest \<le> head" "head \<le> dest + len" "head = dest \<or> 4 dvd head"
    using align_down_le [of "dest + len"] by (auto simp: head_def)
  define j where "j = head - dest"
  have j: "dest + j = head" "j \<le> len" using h by (simp_all add: j_def)
  have "copy_bytes_down m (dest + len) (src + len) head = (copied_above m dest src len j, dest + j, src + j)"
    using copy_bytes_down_spec [OF sd le_refl h(1), of m len] h j
    by (simp add: Let_def j_def copied_above_def min_def split: if_splits)
  moreover obtain j' where j': "j' \<le> j"
    "copy_words_down (copied_above m dest src len j) (dest + j) (src + j) (align_down (dest + 3))
      = (copied_above m dest src len j', dest + j', src + j')"
    using copy_words_down_spec [OF sd j(2) align_up_ge, of m] h align_up_ge [of dest]
    by (auto simp: j dvd_diff_nat)
  moreover have "copy_bytes_down (copied_above m dest src len j') (dest + j') (src + j') dest
      = (copied_above m dest src len 0, dest, src)"
    using copy_bytes_down_spec [OF sd _ le_refl, of j' len m] j'(1) j(2) by simp
  ultimately show ?thesis using False
    by (simp add: memmove_def Let_def head_def [symmetric] copied_above_def)
qed

section \<open>memset\<close>

lemma block_set_0 [simp]: "block_set m dest c 0 = m"
  by (auto simp: block_set_def fun_eq_iff)

lemma block_set_Suc: "(block_set m dest c k)(dest + k := c) = block_set m dest c (Suc k)"
  by (auto simp: block_set_def fun_eq_iff)

lemma set_bytes_spec:
  "set_bytes (block_set m dest c k) (dest + k) c lim
    = (let k' = max k (lim - dest) in (block_set m dest c k', dest + k'))"
proof (induction "lim - dest - k" arbitrary: k)
  case 0
  then have "max k (lim - dest) = k" "\<not> dest + k < lim" by simp_all
  then show ?case by (simp add: set_bytes.simps [of _ "dest + k"] Let_def)
next
  case (Suc x)
  then have "dest + k < lim" by simp
  then have "set_bytes (block_set m dest c k) (dest + k) c lim
      = set_bytes (block_set m dest c (Suc k)) (dest + Suc k) c lim"
    by (simp add: set_bytes.simps [of _ "dest + k"] block_set_Suc)
  also have "\<dots> = (let k' = max (Suc k) (lim - dest) in (block_set m dest c k', dest + k'))"
    by (rule Suc.hyps(1)) (use Suc.hyps(2) in simp)
  also have "max (Suc k) (lim - dest) = max k (lim - dest)" using \<open>dest + k < lim\<close> by simp
  finally show ?case .
qed

lemma set_words_spec:
  assumes w: "\<And>m d. store32 m d w = m(d := c, d + 1 := c, d + 2 := c, d + 3 := c)"
    and "dest + k < lim \<Longrightarrow> 4 dvd lim - (dest + k)"
  shows "\<exists>k'. k \<le> k' \<and> k' \<le> max k (lim - dest) \<and> set_words (block_set m dest c k) (dest + k) w lim
    = (block_set m dest c k', dest + k')"
  using assms(2)
proof (induction "lim - dest - k" arbitrary: k rule: less_induct)
  case less
  show ?case
  proof (cases "dest + k < lim")
    case False
    then show ?thesis by (auto simp: set_words.simps [of _ "dest + k"])
  next
    case True
    then obtain q where q: "lim - (dest + k) = 4 * q" "0 < q" using less.prems by (auto elim!: dvdE)
    then have k4: "dest + (k + 4) \<le> lim" "dest + (k + 4) < lim \<Longrightarrow> 4 dvd lim - (dest + (k + 4))"
      using True by (auto intro!: dvdI [of _ _ "q - 1"])
    have "store32 (block_set m dest c k) (dest + k) w = block_set m dest c (k + 4)"
      unfolding w by (auto simp: block_set_def fun_eq_iff)
    then have step: "set_words (block_set m dest c k) (dest + k) w lim
        = set_words (block_set m dest c (k + 4)) (dest + (k + 4)) w lim"
      using True by (simp add: set_words.simps [of _ "dest + k"] add.assoc)
    have "\<exists>k'. k + 4 \<le> k' \<and> k' \<le> max (k + 4) (lim - dest) \<and>
        set_words (block_set m dest c (k + 4)) (dest + (k + 4)) w lim = (block_set m dest c k', dest + k')"
      by (rule less.hyps) (use k4 True in simp_all)
    then show ?thesis unfolding step using k4(1) by fastforce
  qed
qed

lemma memset_correct: "memset m dest c len = block_set m dest (ucast c) len"
proof -
  define tail where "tail = dest + len"
  define w where "w = c AND 255"
  define cccc where "cccc = w OR push_bit 8 w OR push_bit 16 w OR push_bit 24 w"
  define head where "head = (if tail < align_down (dest + 3) then tail else align_down (dest + 3))"
  have h: "dest \<le> head" "head \<le> tail" "head = tail \<or> 4 dvd head"
    using align_up_ge [of dest] by (auto simp: head_def tail_def)
  have c8: "ucast w = (ucast c :: byte)"
    unfolding w_def and_255 by (rule bit_word_eqI) (auto simp: bit_simps)
  define k where "k = head - dest"
  have "set_bytes m dest (ucast c) head = (block_set m dest (ucast c) k, dest + k)"
    using set_bytes_spec [of m dest "ucast c" 0 head] by (simp add: Let_def k_def)
  moreover have dk: "dest + k = head" using h by (simp add: k_def)
  moreover obtain k' where k': "k' \<le> len"
    "set_words (block_set m dest (ucast c) k) (dest + k) cccc (align_down tail)
      = (block_set m dest (ucast c) k', dest + k')"
    using set_words_spec [of cccc "ucast c" dest k "align_down tail" m] store_repeated [OF w_def cccc_def]
      h align_down_le [of tail] by (fastforce simp: tail_def dk k_def dvd_diff_nat max_def split: if_splits)
  moreover have "set_bytes (block_set m dest (ucast c) k') (dest + k') (ucast c) tail
      = (block_set m dest (ucast c) len, dest + len)"
    using set_bytes_spec [of m dest "ucast c" k' tail] k'(1) by (simp add: tail_def max_def)
  ultimately show ?thesis
    by (simp add: memset_def Let_def tail_def [symmetric] head_def [symmetric] w_def [symmetric]
        cccc_def [symmetric] c8)
qed

section \<open>Comparison, search and reversal\<close>

lemma bytes_at_Suc: "bytes_at m a (Suc n) = m a # bytes_at m (Suc a) n"
  by (simp add: bytes_at_def upt_conv_Cons del: upt_Suc)

lemma bytes_at_0 [simp]: "bytes_at m a 0 = []"
  by (simp add: bytes_at_def)

lemma length_bytes_at [simp]: "length (bytes_at m a n) = n"
  by (simp add: bytes_at_def)

lemma bytes_at_nth [simp]: "i < n \<Longrightarrow> bytes_at m a n ! i = m (a + i)"
  by (simp add: bytes_at_def)

lemma word_xor_0: "x XOR y = 0 \<longleftrightarrow> x = (y :: u32)"
  by (auto simp: bit_eq_iff bit_simps)

lemma memcmp_0_iff: "memcmp m sa sb len = 0 \<longleftrightarrow> bytes_at m sa len = bytes_at m sb len"
  by (induction m sa sb len rule: memcmp.induct) (auto simp: bytes_at_Suc Let_def word_uint_eq_iff)

lemma ucast_byte_u32: "ucast (ucast a :: u32) = (a :: byte)"
  by (rule bit_word_eqI) (auto simp: bit_simps)

lemma safe_memcmp_loop_0_iff:
  "safe_memcmp_loop m s1 s2 n r = 0 \<longleftrightarrow> r = 0 \<and> bytes_at m s1 n = bytes_at m s2 n"
proof (induction m s1 s2 n r rule: safe_memcmp_loop.induct)
  case (2 m us1 us2 n r)
  have "(ucast (m us1) XOR ucast (m us2) :: u32) = 0 \<longleftrightarrow> m us1 = m us2"
    by (metis word_xor_0 ucast_byte_u32)
  with 2 show ?case by (auto simp: bytes_at_Suc or_eq_0_iff)
qed simp

lemma safe_memcmp_agrees: "safe_memcmp m s1 s2 n \<longleftrightarrow> memcmp m s1 s2 n \<noteq> 0"
  by (auto simp: safe_memcmp_def safe_memcmp_loop_0_iff memcmp_0_iff)

lemma memchr_Some:
  "memchr m a c n = Some p \<Longrightarrow> a \<le> p \<and> p < a + n \<and> uint (m p) = c \<and> (\<forall>i\<in>{a..<p}. uint (m i) \<noteq> c)"
proof (induction m a c n rule: memchr.induct)
  case (2 m cur c n)
  show ?case
  proof (cases "uint (m cur) = c")
    case False
    with 2 have "Suc cur \<le> p \<and> p < Suc cur + n \<and> uint (m p) = c \<and> (\<forall>i\<in>{Suc cur..<p}. uint (m i) \<noteq> c)"
      by simp
    with False show ?thesis by (auto simp: le_eq_less_or_eq Suc_le_eq)
  qed (use 2 in auto)
qed simp

lemma memchr_None: "memchr m a c n = None \<longleftrightarrow> c \<notin> uint ` set (bytes_at m a n)"
  by (induction m a c n rule: memchr.induct) (auto simp: bytes_at_Suc)

lemma reverse_loop_spec:
  assumes "2 * k \<le> fin - start" "start \<le> fin"
  shows "reverse_loop m start fin k = (\<lambda>a.
    if (start \<le> a \<and> a < start + k) \<or> (fin - k \<le> a \<and> a < fin) then m (start + fin - 1 - a) else m a)"
  using assms
proof (induction m start fin k rule: reverse_loop.induct)
  case (2 m start fin k)
  let ?m = "m(start := m (fin - 1), fin - 1 := m start)"
  have lt: "start < fin - 1" using "2.prems" by arith
  have "reverse_loop m start fin (Suc k) = (\<lambda>a. if (Suc start \<le> a \<and> a < Suc start + k)
      \<or> (fin - 1 - k \<le> a \<and> a < fin - 1) then ?m (Suc start + (fin - 1) - 1 - a) else ?m a)"
    unfolding reverse_loop.simps by (rule "2.IH") (use "2.prems" in arith)+
  also have "\<dots> = (\<lambda>a. if (start \<le> a \<and> a < start + Suc k) \<or> (fin - Suc k \<le> a \<and> a < fin)
      then m (start + fin - 1 - a) else m a)"
  proof (rule ext)
    fix a
    have sum: "Suc start + (fin - 1) - 1 - a = start + fin - 1 - a" using lt by simp
    consider "a = start" | "a = fin - 1" | "Suc start \<le> a" "a < fin - 1" | "a < start" | "fin \<le> a" by linarith
    then show "(if (Suc start \<le> a \<and> a < Suc start + k) \<or> (fin - 1 - k \<le> a \<and> a < fin - 1)
        then ?m (Suc start + (fin - 1) - 1 - a) else ?m a)
      = (if (start \<le> a \<and> a < start + Suc k) \<or> (fin - Suc k \<le> a \<and> a < fin)
        then m (start + fin - 1 - a) else m a)"
      unfolding sum by cases (use "2.prems" lt in auto)
  qed
  finally show ?case .
qed (auto simp: fun_eq_iff)

lemma reverse_correct: "bytes_at (reverse m dest len) dest len = rev (bytes_at m dest len)"
proof (rule nth_equalityI)
  fix i assume "i < length (bytes_at (reverse m dest len) dest len)"
  then have i: "i < len" by simp
  have r: "reverse m dest len = (\<lambda>a. if (dest \<le> a \<and> a < dest + len div 2)
      \<or> (dest + len - len div 2 \<le> a \<and> a < dest + len) then m (dest + (dest + len) - 1 - a) else m a)"
    unfolding reverse_def by (rule reverse_loop_spec) simp_all
  have "dest + (dest + len) - 1 - (dest + i) = dest + (len - Suc i)" using i by simp
  moreover have "\<not> (i < len div 2 \<or> dest + len - len div 2 \<le> dest + i) \<Longrightarrow> dest + i = dest + len - Suc i"
    using i by linarith
  ultimately show "bytes_at (reverse m dest len) dest len ! i = rev (bytes_at m dest len) ! i"
    using i by (auto simp: rev_nth r)
qed simp

section \<open>The library routines against their specification\<close>

text \<open>
  \<open>memmove\<close> moves the block for every overlap and alignment of source and destination, and
  changes nothing else, although it copies words where it can and runs backwards where it must;
  \<open>memset\<close> fills exactly the block; \<open>reverse\<close> reverses it.
\<close>

theorem block_routines_correct:
  "memmove m dest src len = (\<lambda>a. if dest \<le> a \<and> a < dest + len then m (src + (a - dest)) else m a)
   \<and> memset m dest c len = (\<lambda>a. if dest \<le> a \<and> a < dest + len then ucast c else m a)
   \<and> bytes_at (reverse m dest len) dest len = rev (bytes_at m dest len)"
  by (simp add: memmove_correct memset_correct reverse_correct block_copy_def block_set_def)

text \<open>
  \<open>safe_memcmp\<close>, which runs in time independent of the data, says "different" exactly when
  \<open>memcmp\<close> does, which is exactly when the blocks differ.
\<close>

theorem safe_memcmp_correct:
  "safe_memcmp m s1 s2 n = (bytes_at m s1 n \<noteq> bytes_at m s2 n)
    \<and> (memcmp m s1 s2 n = 0) = (bytes_at m s1 n = bytes_at m s2 n)"
  by (simp add: safe_memcmp_agrees memcmp_0_iff)

end
