(* ===== verification/Util_Arith.thy ===== *)
theory Util_Arith
  imports EC_Prelude
begin

text \<open>
  The arithmetic helpers of common/util.c (64-bit division, bit extraction, edge-detecting
  conditions) and the software count-leading-zeros of common/clz.c that the Cortex-M0 core
  uses for \<open>__builtin_clz\<close>.
\<close>

section \<open>64-bit division\<close>

text \<open>
  The loop \<open>for (mask = 1ULL << 63; mask; mask >>= 1)\<close>, with \<open>i\<close> bits left to process. \<open>r\<close> and
  \<open>d\<close> are C \<open>int\<close>s: the shift and the comparison are signed.
\<close>

fun divmod_loop :: "nat \<Rightarrow> u64 \<Rightarrow> int \<Rightarrow> u64 \<Rightarrow> int \<Rightarrow> u64 \<times> int" where
  "divmod_loop 0 n d q r = (q, r)"
| "divmod_loop (Suc i) n d q r =
     (let r = s32 (2 * r);
          r = (if bit n i then r OR 1 else r)
      in if d \<le> r then divmod_loop i n d (q OR push_bit i 1) (s32 (r - d))
         else divmod_loop i n d q r)"

definition uint64divmod :: "u64 \<Rightarrow> int \<Rightarrow> u64 \<times> int" where
  "uint64divmod n d =
     (if d = 0 then (0, 0)
      else if d = 2 then (drop_bit 1 n, uint (n AND 1))
      else if d = 16 then (drop_bit 4 n, uint (n AND 15))
      else if n \<le> 0xffffffff
      then (let v32 = ucast n :: u32
            in (ucast (v32 div word_of_int d), s32 (uint (v32 mod word_of_int d))))
      else divmod_loop 64 n d 0 0)"

section \<open>Bits\<close>

definition clz_step :: "nat \<Rightarrow> u32 \<times> nat \<Rightarrow> u32 \<times> nat" where
  "clz_step k = (\<lambda>(x, r). if x AND push_bit (32 - k) (mask k) = 0 then (push_bit k x, r + k) else (x, r))"

definition clzsi2 :: "u32 \<Rightarrow> nat" where
  "clzsi2 x =
     (if x = 0 then 32
      else snd (clz_step 1 (clz_step 2 (clz_step 4 (clz_step 8 (clz_step 16 (x, 0)))))))"

definition get_next_bit :: "u32 \<Rightarrow> nat \<times> u32" where
  "get_next_bit m = (let b = 31 - clzsi2 m in (b, m AND NOT (push_bit b 1)))"

section \<open>Conditions\<close>

type_synonym cond_t = byte

definition COND_CURR_MASK :: byte where "COND_CURR_MASK = 1"
definition COND_RISE_MASK :: byte where "COND_RISE_MASK = 2"
definition COND_FALL_MASK :: byte where "COND_FALL_MASK = 4"

definition cond_init :: "bool \<Rightarrow> cond_t" where
  "cond_init val = (if val then COND_CURR_MASK else 0)"

definition cond_is :: "cond_t \<Rightarrow> bool \<Rightarrow> bool" where
  "cond_is c val = (if val then c AND COND_CURR_MASK \<noteq> 0 else c AND COND_CURR_MASK = 0)"

definition cond_set :: "cond_t \<Rightarrow> bool \<Rightarrow> cond_t" where
  "cond_set c val =
     (let c = (if val \<and> cond_is c False then c OR COND_RISE_MASK
               else if \<not> val \<and> cond_is c True then c OR COND_FALL_MASK
               else c)
      in if val then c OR COND_CURR_MASK else c AND NOT COND_CURR_MASK)"

definition cond_went :: "cond_t \<Rightarrow> bool \<Rightarrow> bool \<times> cond_t" where
  "cond_went c val =
     (if val then (c AND COND_RISE_MASK \<noteq> 0, c AND NOT COND_RISE_MASK)
      else (c AND COND_FALL_MASK \<noteq> 0, c AND NOT COND_FALL_MASK))"

section \<open>Division is correct for divisors up to 2^30\<close>

lemma int_or_1_even: "even (r :: int) \<Longrightarrow> r OR 1 = r + 1"
  by (simp add: or_one_eq)

lemma push_bit_or_bit: "push_bit (Suc i) w OR push_bit i 1 = push_bit i (2 * w + 1 :: u64)"
proof -
  have "2 * w AND 1 = (0 :: u64)" by (rule bit_word_eqI) (auto simp: bit_simps bit_double_iff)
  then have "2 * w OR 1 = 2 * w + (1 :: u64)" by (metis add_0 word_plus_and_or)
  moreover have "push_bit (Suc i) w = push_bit i (2 * w)" by (simp add: push_bit_double mult.commute)
  moreover have "push_bit i (2 * w) OR push_bit i 1 = push_bit i (2 * w OR 1 :: u64)"
    by (simp only: push_bit_or)
  ultimately show ?thesis by (simp only:)
qed

lemma divmod_loop_spec:
  assumes d: "0 < d" "d \<le> 2 ^ 30" and r: "0 \<le> r" "r < d"
    and N: "int (unat n div 2 ^ i) = int Q * d + r" and q: "q = push_bit i (word_of_nat Q)"
  shows "\<exists>Q'. divmod_loop i n d q r = (word_of_nat Q', int (unat n) - int Q' * d)
    \<and> 0 \<le> int (unat n) - int Q' * d \<and> int (unat n) - int Q' * d < d"
  using r N q
proof (induction i arbitrary: q r Q)
  case 0
  then have "r = int (unat n) - int Q * d" by simp
  then show ?case using 0 by (intro exI [of _ Q]) simp
next
  case (Suc i)
  define b where "b = (if bit n i then 1 else 0 :: int)"
  have "unat n div 2 ^ i = 2 * (unat n div 2 ^ Suc i) + (unat n div 2 ^ i) mod 2"
    by (simp add: div_mult2_eq power_Suc2 del: power_Suc)
  moreover have "bit n i \<longleftrightarrow> odd (unat n div 2 ^ i)" by (simp add: bit_unsigned_iff flip: bit_iff_odd)
  then have "int (unat n div 2 ^ i mod 2) = b"
    by (cases "bit n i") (simp_all add: b_def even_iff_mod_2_eq_zero)
  ultimately have N': "int (unat n div 2 ^ i) = int (2 * Q) * d + (2 * r + b)"
    using Suc.prems(3) by (simp add: algebra_simps)
  have r2: "s32 (2 * r) = 2 * r" by (rule s32_id) (use Suc.prems d in auto)
  have rb: "(if bit n i then 2 * r OR 1 else 2 * r) = 2 * r + b" by (simp add: b_def int_or_1_even)
  have b01: "0 \<le> b" "b \<le> 1" by (auto simp: b_def)
  have step: "divmod_loop (Suc i) n d q r =
      (if d \<le> 2 * r + b then divmod_loop i n d (q OR push_bit i 1) (s32 (2 * r + b - d))
       else divmod_loop i n d q (2 * r + b))"
    by (simp only: divmod_loop.simps Let_def r2 rb)
  show ?case
  proof (cases "d \<le> 2 * r + b")
    case True
    have "s32 (2 * r + b - d) = 2 * r + b - d" by (rule s32_id) (use Suc.prems True b01 d in auto)
    moreover have "q OR push_bit i 1 = push_bit i (word_of_nat (2 * Q + 1))"
      using Suc.prems(4) push_bit_or_bit [of i "word_of_nat Q"] by (simp only: of_nat_add of_nat_mult of_nat_numeral of_nat_1)
    ultimately have eq: "divmod_loop (Suc i) n d q r
        = divmod_loop i n d (push_bit i (word_of_nat (2 * Q + 1))) (2 * r + b - d)"
      using step True by simp
    have "int (2 * Q + 1) * d + (2 * r + b - d) = int (2 * Q) * d + (2 * r + b)"
      by (simp add: distrib_right)
    then have "int (unat n div 2 ^ i) = int (2 * Q + 1) * d + (2 * r + b - d)" using N' by (simp only:)
    moreover have "0 \<le> 2 * r + b - d" "2 * r + b - d < d" using Suc.prems(2) True b01 by linarith+
    ultimately show ?thesis unfolding eq using Suc.IH by blast
  next
    case False
    have "q = push_bit i (word_of_nat (2 * Q))"
      using Suc.prems(4) by (simp add: push_bit_double mult.commute)
    moreover have "0 \<le> 2 * r + b" "2 * r + b < d" using Suc.prems(1) False b01 by linarith+
    moreover have "divmod_loop (Suc i) n d q r = divmod_loop i n d q (2 * r + b)" using step False by simp
    ultimately show ?thesis using Suc.IH N' by presburger
  qed
qed

lemma uint_and_mask: "uint (n AND mask k :: u64) = uint n mod 2 ^ k"
  by (simp add: take_bit_eq_mask [symmetric] take_bit_eq_mod [symmetric] unsigned_take_bit_eq)

lemma uint64divmod_correct:
  assumes "0 < d" "d \<le> 2 ^ 30"
  shows "uint (fst (uint64divmod n d)) = uint n div d \<and> snd (uint64divmod n d) = uint n mod d"
proof -
  consider "d = 2" | "d = 16" | "d \<noteq> 2" "d \<noteq> 16" "n \<le> 0xffffffff" | "d \<noteq> 2" "d \<noteq> 16" "\<not> n \<le> 0xffffffff"
    by blast
  then show ?thesis
  proof cases
    case 1
    then show ?thesis using uint_and_mask [of n 1]
      by (simp add: uint64divmod_def drop_bit_eq_div uint_div)
  next
    case 2
    then show ?thesis using uint_and_mask [of n 4]
      by (simp add: uint64divmod_def drop_bit_eq_div uint_div mask_eq_exp_minus_1)
  next
    case 3
    have ud: "uint (word_of_int d :: u32) = d"
      using assms by (simp add: uint_word_of_int)
    have un: "uint (ucast n :: u32) = uint n"
      using 3 by (simp add: word_le_def unsigned_ucast_eq take_bit_int_eq_self)
    have "uint n mod d < d" using assms by simp
    also have "d \<le> 2 ^ 30" using assms by simp
    also have "(2 :: int) ^ 30 < 2 ^ 31" by simp
    finally have "uint n mod d < 2 ^ 31" .
    moreover have "0 \<le> uint n mod d" using assms by simp
    ultimately have "s32 (uint n mod d) = uint n mod d" by (intro s32_id) linarith+
    moreover have "uint (ucast w :: u64) = uint (w :: u32)" for w
      by (rule uint_up_ucast) (simp add: is_up)
    ultimately show ?thesis using 3 assms ud un
      by (auto simp: uint64divmod_def Let_def uint_div uint_mod simp del: unsigned_ucast_eq)
  next
    case 4
    have "unat n < 2 ^ 64" using unsigned_less [where ?'a = nat, of n] by simp
    then have "unat n div 2 ^ 64 = 0" by simp
    then obtain Q where Q: "uint64divmod n d = (word_of_nat Q, uint n - int Q * d)"
      "0 \<le> uint n - int Q * d" "uint n - int Q * d < d"
      using divmod_loop_spec [of d 0 n 64 0 0] assms 4 by (auto simp: uint64divmod_def)
    have eq: "uint n = d * int Q + (uint n - int Q * d)" by simp
    note div = int_div_pos_eq [OF eq Q(2,3)] int_mod_pos_eq [OF eq Q(2,3)]
    have "int Q * 1 \<le> int Q * d" using assms by (intro mult_left_mono) auto
    then have "int Q \<le> uint n" using Q(2) by simp
    then have "uint (word_of_nat Q :: u64) = int Q"
      using uint_bounded [of n] by (simp add: unsigned_of_nat take_bit_nat_eq_self)
    then show ?thesis using Q(1) div by simp
  qed
qed

section \<open>Leading zeros\<close>

lemma and_high_mask_0:
  assumes "k \<le> 32"
  shows "(x :: u32) AND push_bit (32 - k) (mask k) = 0 \<longleftrightarrow> unat x < 2 ^ (32 - k)"
proof -
  have "x AND push_bit (32 - k) (mask k) = 0 \<longleftrightarrow> take_bit (32 - k) x = x"
    using assms by (auto simp: bit_eq_iff bit_simps; metis diff_diff_left le_add_diff_inverse2 less_diff_conv not_less)
  also have "\<dots> \<longleftrightarrow> unat x < 2 ^ (32 - k)"
    by (simp add: word_unat_eq_iff unsigned_take_bit_eq take_bit_nat_eq_self_iff)
  finally show ?thesis .
qed

definition clz_inv :: "u32 \<Rightarrow> nat \<Rightarrow> u32 \<times> nat \<Rightarrow> bool" where
  "clz_inv x0 k p \<longleftrightarrow> unat (fst p) = unat x0 * 2 ^ snd p \<and> 2 ^ (32 - k) \<le> unat (fst p)"

lemma clz_step_inv:
  assumes "clz_inv x0 (2 * k) p" "0 < k" "k \<le> 16"
  shows "clz_inv x0 k (clz_step k p)"
proof -
  obtain x r where p: "p = (x, r)" by (cases p)
  have i: "unat x = unat x0 * 2 ^ r" "2 ^ (32 - 2 * k) \<le> unat x" using assms(1) by (auto simp: clz_inv_def p)
  show ?thesis
  proof (cases "unat x < 2 ^ (32 - k)")
    case True
    have "unat x * 2 ^ k < 2 ^ (32 - k) * 2 ^ k" using True by simp
    also have "\<dots> = 2 ^ 32" using assms by (simp add: power_add [symmetric])
    finally have "unat (push_bit k x) = unat x * 2 ^ k"
      by (simp only: unsigned_push_bit_eq) (simp add: push_bit_eq_mult take_bit_nat_eq_self)
    moreover have "(2 :: nat) ^ (32 - k) = 2 ^ (32 - 2 * k) * 2 ^ k" using assms by (simp add: power_add [symmetric])
    moreover have "clz_step k p = (push_bit k x, r + k)"
      using True and_high_mask_0 [of k x] assms by (simp add: clz_step_def p)
    ultimately show ?thesis using i by (simp add: clz_inv_def power_add)
  next
    case False
    then have "clz_step k p = (x, r)" using and_high_mask_0 [of k x] assms by (simp add: clz_step_def p)
    then show ?thesis using False i by (simp add: clz_inv_def)
  qed
qed

lemma clzsi2_range:
  assumes "x \<noteq> 0"
  shows "2 ^ 31 \<le> unat x * 2 ^ clzsi2 x" "unat x * 2 ^ clzsi2 x < 2 ^ 32"
proof -
  have "clz_inv x (2 * 16) (x, 0)" using assms by (simp add: clz_inv_def Suc_le_eq unat_gt_0)
  then have "clz_inv x (2 * 8) (clz_step 16 (x, 0))" by (drule_tac clz_step_inv) simp_all
  then have "clz_inv x (2 * 4) (clz_step 8 (clz_step 16 (x, 0)))" by (drule_tac clz_step_inv) simp_all
  then have "clz_inv x (2 * 2) (clz_step 4 (clz_step 8 (clz_step 16 (x, 0))))" by (drule_tac clz_step_inv) simp_all
  then have "clz_inv x (2 * 1) (clz_step 2 (clz_step 4 (clz_step 8 (clz_step 16 (x, 0)))))"
    by (drule_tac clz_step_inv) simp_all
  then have i: "clz_inv x 1 (clz_step 1 (clz_step 2 (clz_step 4 (clz_step 8 (clz_step 16 (x, 0))))))"
    by (drule_tac clz_step_inv) simp_all
  then show "2 ^ 31 \<le> unat x * 2 ^ clzsi2 x" using assms by (simp add: clz_inv_def clzsi2_def)
  show "unat x * 2 ^ clzsi2 x < 2 ^ 32"
    using i unsigned_less [where ?'a = nat, of "fst (clz_step 1 (clz_step 2 (clz_step 4 (clz_step 8 (clz_step 16 (x, 0))))))"]
      assms by (simp add: clz_inv_def clzsi2_def)
qed

lemma clzsi2_top_bit:
  assumes "x \<noteq> 0"
  shows "clzsi2 x \<le> 31" "2 ^ (31 - clzsi2 x) \<le> unat x" "unat x < 2 ^ (32 - clzsi2 x)"
proof -
  note r = clzsi2_range [OF assms]
  have "0 < unat x" using assms by (simp add: unat_gt_0)
  then have "(2 :: nat) ^ clzsi2 x \<le> unat x * 2 ^ clzsi2 x" by simp
  with r(2) have "(2 :: nat) ^ clzsi2 x < 2 ^ 32" by (rule order.strict_trans1 [rotated])
  then show le: "clzsi2 x \<le> 31" using power_less_imp_less_exp [of "2 :: nat" "clzsi2 x" 32] by simp
  have "2 ^ (31 - clzsi2 x) * 2 ^ clzsi2 x \<le> unat x * 2 ^ clzsi2 x"
    using r(1) le by (simp add: power_add [symmetric])
  then show "2 ^ (31 - clzsi2 x) \<le> unat x" by simp
  have "unat x * 2 ^ clzsi2 x < 2 ^ (32 - clzsi2 x) * 2 ^ clzsi2 x"
    using r(2) le by (simp add: power_add [symmetric])
  then show "unat x < 2 ^ (32 - clzsi2 x)" by simp
qed

lemma top_bit_unique:
  assumes "2 ^ b \<le> unat (x :: u32)" "unat x < 2 ^ Suc b"
  shows "bit x b" "\<And>k. b < k \<Longrightarrow> \<not> bit x k"
proof -
  have "unat x div 2 ^ b = 1" using assms by (simp add: div_nat_eqI)
  then have "bit (unat x) b" by (simp add: bit_iff_odd)
  then show "bit x b" by (simp add: bit_unsigned_iff)
  fix k assume "b < k"
  then have "(2 :: nat) ^ Suc b \<le> 2 ^ k" by (intro power_increasing) auto
  then have "unat x div 2 ^ k = 0" using assms(2) by (simp add: div_eq_0_iff)
  then have "\<not> bit (unat x) k" by (simp add: bit_iff_odd)
  then show "\<not> bit x k" by (simp add: bit_unsigned_iff)
qed

lemma get_next_bit_spec:
  assumes "m \<noteq> 0" "get_next_bit m = (b, m')"
  shows "bit m b" "b < 32" "\<And>k. b < k \<Longrightarrow> \<not> bit m k" "\<And>k. bit m' k \<longleftrightarrow> bit m k \<and> k \<noteq> b"
proof -
  have b: "b = 31 - clzsi2 m" and m': "m' = m AND NOT (push_bit b 1)"
    using assms(2) by (auto simp: get_next_bit_def Let_def)
  note t = clzsi2_top_bit [OF assms(1)]
  have "Suc b = 32 - clzsi2 m" using t(1) b by simp
  then have "unat m < 2 ^ Suc b" using t(3) by (simp only:)
  with t(2) b show "bit m b" "\<And>k. b < k \<Longrightarrow> \<not> bit m k" using top_bit_unique by auto
  show "b < 32" using b by simp
  show "bit m' k \<longleftrightarrow> bit m k \<and> k \<noteq> b" for k
    by (auto simp: m' bit_simps dest: bit_imp_le_length)
qed

section \<open>Edge-detecting conditions\<close>

lemma bit_small: "bit (1 :: byte) n = (n = 0)" "bit (2 :: byte) n = (n = Suc 0)" "bit (4 :: byte) n = (n = 2)"
  using bit_exp_iff [where ?'a = "8 word", of 1 n] bit_exp_iff [where ?'a = "8 word", of 2 n]
  by (auto simp: bit_1_iff)

lemma cond_is_bit: "cond_is c v = (bit c 0 = v)"
  using and_exp_bit [of c 0] by (auto simp: cond_is_def COND_CURR_MASK_def)

lemma cond_went_bits:
  "fst (cond_went c v) = bit c (if v then Suc 0 else 2)"
  "bit (snd (cond_went c v)) n = (bit c n \<and> n \<noteq> (if v then Suc 0 else 2))"
proof -
  show "fst (cond_went c v) = bit c (if v then Suc 0 else 2)"
    using and_exp_bit [of c 1] and_exp_bit [of c 2]
    by (auto simp: cond_went_def COND_RISE_MASK_def COND_FALL_MASK_def)
  have "snd (cond_went c v) = c AND NOT (if v then 2 else 4)"
    by (simp add: cond_went_def COND_RISE_MASK_def COND_FALL_MASK_def)
  then show "bit (snd (cond_went c v)) n = (bit c n \<and> n \<noteq> (if v then Suc 0 else 2))"
    by (auto simp only: bit_and_iff bit_not_iff bit_small if_True if_False split: if_splits)
      (auto dest: bit_imp_le_length)
qed

lemma cond_set_bits:
  "bit (cond_set c v) 0 = v"
  "bit (cond_set c v) (Suc 0) = (bit c (Suc 0) \<or> v \<and> \<not> bit c 0)"
  "bit (cond_set c v) 2 = (bit c 2 \<or> \<not> v \<and> bit c 0)"
proof -
  have "cond_set c v = (if v then (if bit c 0 then c else c OR 2) OR 1
      else (if bit c 0 then c OR 4 else c) AND NOT 1)"
    by (simp add: cond_set_def Let_def cond_is_bit COND_CURR_MASK_def COND_RISE_MASK_def COND_FALL_MASK_def)
  then have "bit (cond_set c v) n = (if v then bit c n \<or> \<not> bit c 0 \<and> n = Suc 0 \<or> n = 0
      else (bit c n \<or> bit c 0 \<and> n = 2) \<and> n \<noteq> 0)" if "n < 8" for n
    using that by (auto simp only: bit_and_iff bit_or_iff bit_not_iff bit_small if_True if_False split: if_splits) auto
  from this [of 0] this [of "Suc 0"] this [of 2]
  show "bit (cond_set c v) 0 = v"
    "bit (cond_set c v) (Suc 0) = (bit c (Suc 0) \<or> v \<and> \<not> bit c 0)"
    "bit (cond_set c v) 2 = (bit c 2 \<or> \<not> v \<and> bit c 0)" by (auto split: if_splits)
qed

text \<open>Whether the value becomes \<open>val\<close> somewhere along a sequence of settings.\<close>

fun has_edge :: "bool \<Rightarrow> bool \<Rightarrow> bool list \<Rightarrow> bool" where
  "has_edge val prev [] = False"
| "has_edge val prev (v # vs) = (v = val \<and> prev \<noteq> val \<or> has_edge val v vs)"

lemma cond_sets:
  "bit (fold (\<lambda>v c. cond_set c v) vs c) 0 = (if vs = [] then bit c 0 else last vs)"
  "bit (fold (\<lambda>v c. cond_set c v) vs c) (Suc 0) = (bit c (Suc 0) \<or> has_edge True (bit c 0) vs)"
  "bit (fold (\<lambda>v c. cond_set c v) vs c) 2 = (bit c 2 \<or> has_edge False (bit c 0) vs)"
  by (induction vs arbitrary: c) (auto simp: cond_set_bits)

text \<open>
  Between two calls of \<open>cond_went\<close> any number of settings may happen; the second call says
  exactly whether the condition became \<open>val\<close> in between, so every edge is reported once, and
  \<open>cond_is\<close> always gives the last value set.
\<close>

theorem cond_went_reports_edges:
  "fst (cond_went (fold (\<lambda>v c. cond_set c v) vs (snd (cond_went c val))) val)
     = has_edge val (cond_is c True) vs
   \<and> cond_is (fold (\<lambda>v c. cond_set c v) vs c) True = (if vs = [] then cond_is c True else last vs)"
  by (cases val) (simp_all add: cond_is_bit cond_went_bits cond_sets)

section \<open>Division and bit search\<close>

text \<open>
  \<open>uint64divmod\<close>, the shift-and-subtract division used where there is no 64-bit divider,
  gives quotient and remainder for every dividend and every divisor up to \<open>2 ^ 30\<close>.
\<close>

theorem uint64divmod_exact:
  assumes "0 < d" "d \<le> 2 ^ 30"
  shows "uint (fst (uint64divmod n d)) = uint n div d \<and> snd (uint64divmod n d) = uint n mod d"
  by (rule uint64divmod_correct [OF assms])

theorem uint64divmod_exact_witness: "uint (fst (uint64divmod 0x123456789abcdef0 1000000)) = 0x123456789abcdef0 div 1000000"
  using uint64divmod_exact [of 1000000 "0x123456789abcdef0"] by simp

end
