(* ===== verification/Checksums.thy ===== *)
theory Checksums
  imports EC_Prelude
begin

text \<open>
  The checksums of common/crc.c (CRC-32 by table) and common/crc8.c (CRC-8 bit by bit in a
  wider register), each shown equal to the textbook bit-serial definition.
\<close>

section \<open>CRC-32\<close>

definition crc32_tab :: "u32 list" where
  "crc32_tab =
    [0x00000000, 0x77073096, 0xee0e612c, 0x990951ba, 0x076dc419, 0x706af48f, 0xe963a535, 0x9e6495a3,
     0x0edb8832, 0x79dcb8a4, 0xe0d5e91e, 0x97d2d988, 0x09b64c2b, 0x7eb17cbd, 0xe7b82d07, 0x90bf1d91,
     0x1db71064, 0x6ab020f2, 0xf3b97148, 0x84be41de, 0x1adad47d, 0x6ddde4eb, 0xf4d4b551, 0x83d385c7,
     0x136c9856, 0x646ba8c0, 0xfd62f97a, 0x8a65c9ec, 0x14015c4f, 0x63066cd9, 0xfa0f3d63, 0x8d080df5,
     0x3b6e20c8, 0x4c69105e, 0xd56041e4, 0xa2677172, 0x3c03e4d1, 0x4b04d447, 0xd20d85fd, 0xa50ab56b,
     0x35b5a8fa, 0x42b2986c, 0xdbbbc9d6, 0xacbcf940, 0x32d86ce3, 0x45df5c75, 0xdcd60dcf, 0xabd13d59,
     0x26d930ac, 0x51de003a, 0xc8d75180, 0xbfd06116, 0x21b4f4b5, 0x56b3c423, 0xcfba9599, 0xb8bda50f,
     0x2802b89e, 0x5f058808, 0xc60cd9b2, 0xb10be924, 0x2f6f7c87, 0x58684c11, 0xc1611dab, 0xb6662d3d,
     0x76dc4190, 0x01db7106, 0x98d220bc, 0xefd5102a, 0x71b18589, 0x06b6b51f, 0x9fbfe4a5, 0xe8b8d433,
     0x7807c9a2, 0x0f00f934, 0x9609a88e, 0xe10e9818, 0x7f6a0dbb, 0x086d3d2d, 0x91646c97, 0xe6635c01,
     0x6b6b51f4, 0x1c6c6162, 0x856530d8, 0xf262004e, 0x6c0695ed, 0x1b01a57b, 0x8208f4c1, 0xf50fc457,
     0x65b0d9c6, 0x12b7e950, 0x8bbeb8ea, 0xfcb9887c, 0x62dd1ddf, 0x15da2d49, 0x8cd37cf3, 0xfbd44c65,
     0x4db26158, 0x3ab551ce, 0xa3bc0074, 0xd4bb30e2, 0x4adfa541, 0x3dd895d7, 0xa4d1c46d, 0xd3d6f4fb,
     0x4369e96a, 0x346ed9fc, 0xad678846, 0xda60b8d0, 0x44042d73, 0x33031de5, 0xaa0a4c5f, 0xdd0d7cc9,
     0x5005713c, 0x270241aa, 0xbe0b1010, 0xc90c2086, 0x5768b525, 0x206f85b3, 0xb966d409, 0xce61e49f,
     0x5edef90e, 0x29d9c998, 0xb0d09822, 0xc7d7a8b4, 0x59b33d17, 0x2eb40d81, 0xb7bd5c3b, 0xc0ba6cad,
     0xedb88320, 0x9abfb3b6, 0x03b6e20c, 0x74b1d29a, 0xead54739, 0x9dd277af, 0x04db2615, 0x73dc1683,
     0xe3630b12, 0x94643b84, 0x0d6d6a3e, 0x7a6a5aa8, 0xe40ecf0b, 0x9309ff9d, 0x0a00ae27, 0x7d079eb1,
     0xf00f9344, 0x8708a3d2, 0x1e01f268, 0x6906c2fe, 0xf762575d, 0x806567cb, 0x196c3671, 0x6e6b06e7,
     0xfed41b76, 0x89d32be0, 0x10da7a5a, 0x67dd4acc, 0xf9b9df6f, 0x8ebeeff9, 0x17b7be43, 0x60b08ed5,
     0xd6d6a3e8, 0xa1d1937e, 0x38d8c2c4, 0x4fdff252, 0xd1bb67f1, 0xa6bc5767, 0x3fb506dd, 0x48b2364b,
     0xd80d2bda, 0xaf0a1b4c, 0x36034af6, 0x41047a60, 0xdf60efc3, 0xa867df55, 0x316e8eef, 0x4669be79,
     0xcb61b38c, 0xbc66831a, 0x256fd2a0, 0x5268e236, 0xcc0c7795, 0xbb0b4703, 0x220216b9, 0x5505262f,
     0xc5ba3bbe, 0xb2bd0b28, 0x2bb45a92, 0x5cb36a04, 0xc2d7ffa7, 0xb5d0cf31, 0x2cd99e8b, 0x5bdeae1d,
     0x9b64c2b0, 0xec63f226, 0x756aa39c, 0x026d930a, 0x9c0906a9, 0xeb0e363f, 0x72076785, 0x05005713,
     0x95bf4a82, 0xe2b87a14, 0x7bb12bae, 0x0cb61b38, 0x92d28e9b, 0xe5d5be0d, 0x7cdcefb7, 0x0bdbdf21,
     0x86d3d2d4, 0xf1d4e242, 0x68ddb3f8, 0x1fda836e, 0x81be16cd, 0xf6b9265b, 0x6fb077e1, 0x18b74777,
     0x88085ae6, 0xff0f6a70, 0x66063bca, 0x11010b5c, 0x8f659eff, 0xf862ae69, 0x616bffd3, 0x166ccf45,
     0xa00ae278, 0xd70dd2ee, 0x4e048354, 0x3903b3c2, 0xa7672661, 0xd06016f7, 0x4969474d, 0x3e6e77db,
     0xaed16a4a, 0xd9d65adc, 0x40df0b66, 0x37d83bf0, 0xa9bcae53, 0xdebb9ec5, 0x47b2cf7f, 0x30b5ffe9,
     0xbdbdf21c, 0xcabac28a, 0x53b39330, 0x24b4a3a6, 0xbad03605, 0xcdd70693, 0x54de5729, 0x23d967bf,
     0xb3667a2e, 0xc4614ab8, 0x5d681b02, 0x2a6f2b94, 0xb40bbe37, 0xc30c8ea1, 0x5a05df1b, 0x2d02ef8d]"

definition crc32_step :: "byte \<Rightarrow> u32 \<Rightarrow> u32" where
  "crc32_step b crc =
     (let crc = crc XOR ucast b in crc32_tab ! unat (crc AND 0xff) XOR drop_bit 8 crc)"

definition crc32_hash :: "u32 \<Rightarrow> byte list \<Rightarrow> u32" where
  "crc32_hash crc buf = fold crc32_step buf crc"

definition CRC32_INITIAL :: u32 where
  "CRC32_INITIAL = 0xffffffff"

definition crc32_ctx_init :: u32 where
  "crc32_ctx_init = CRC32_INITIAL"

text \<open>The bytes of a value as they lie in memory on the little-endian core.\<close>

definition crc32_ctx_hash32 :: "u32 \<Rightarrow> u32 \<Rightarrow> u32" where
  "crc32_ctx_hash32 crc val =
     crc32_hash crc [ucast val, ucast (drop_bit 8 val), ucast (drop_bit 16 val), ucast (drop_bit 24 val)]"

definition crc32_ctx_hash16 :: "u32 \<Rightarrow> u16 \<Rightarrow> u32" where
  "crc32_ctx_hash16 crc val = crc32_hash crc [ucast val, ucast (drop_bit 8 val)]"

definition crc32_ctx_hash8 :: "u32 \<Rightarrow> byte \<Rightarrow> u32" where
  "crc32_ctx_hash8 crc val = crc32_hash crc [val]"

definition crc32_ctx_result :: "u32 \<Rightarrow> u32" where
  "crc32_ctx_result crc = crc XOR 0xffffffff"

section \<open>CRC-8\<close>

text \<open>One round of the inner loop, on the 32-bit register of the C code.\<close>

definition crc8_bit :: "u32 \<Rightarrow> u32" where
  "crc8_bit crc = push_bit 1 (if crc AND 0x8000 \<noteq> 0 then crc XOR 0x8380 else crc)"

definition crc8_byte :: "byte \<Rightarrow> u32 \<Rightarrow> u32" where
  "crc8_byte d crc = (crc8_bit ^^ 8) (crc XOR push_bit 8 (ucast d))"

definition crc8_arg :: "byte list \<Rightarrow> byte \<Rightarrow> byte" where
  "crc8_arg data previous_crc = ucast (drop_bit 8 (fold crc8_byte data (push_bit 8 (ucast previous_crc))))"

definition crc8 :: "byte list \<Rightarrow> byte" where
  "crc8 data = crc8_arg data 0"

section \<open>The bit-serial definitions\<close>

text \<open>One bit of the reflected CRC-32 with polynomial 0x04C11DB7, and of CRC-8 with 0x07.\<close>

definition crc32_serial_bit :: "u32 \<Rightarrow> u32" where
  "crc32_serial_bit crc = drop_bit 1 crc XOR (if bit crc 0 then 0xedb88320 else 0)"

definition crc32_serial :: "u32 \<Rightarrow> byte list \<Rightarrow> u32" where
  "crc32_serial crc buf = fold (\<lambda>b crc. (crc32_serial_bit ^^ 8) (crc XOR ucast b)) buf crc"

definition crc8_serial_bit :: "byte \<Rightarrow> byte" where
  "crc8_serial_bit c = push_bit 1 c XOR (if bit c 7 then 0x07 else 0)"

definition crc8_serial :: "byte list \<Rightarrow> byte \<Rightarrow> byte" where
  "crc8_serial data c = fold (\<lambda>d c. (crc8_serial_bit ^^ 8) (c XOR d)) data c"

section \<open>Equivalence\<close>

lemma serial_bit_xor: "crc32_serial_bit (a XOR b) = crc32_serial_bit a XOR crc32_serial_bit b"
  by (cases "bit a 0"; cases "bit b 0") (simp_all add: crc32_serial_bit_def bit_xor_iff ac_simps)

lemma serial_bits_xor: "(crc32_serial_bit ^^ n) (a XOR b) = (crc32_serial_bit ^^ n) a XOR (crc32_serial_bit ^^ n) b"
  by (induction n) (simp_all add: serial_bit_xor)

lemma low_zero_step:
  assumes "\<And>k. k < Suc n \<Longrightarrow> \<not> bit (a :: u32) k"
  shows "crc32_serial_bit a = drop_bit 1 a" "k < n \<Longrightarrow> \<not> bit (drop_bit 1 a) k"
  using assms [of 0] assms [of "Suc k"] by (auto simp: crc32_serial_bit_def bit_drop_bit_eq)

lemma serial_bits_shift: "(\<And>k. k < n \<Longrightarrow> \<not> bit a k) \<Longrightarrow> (crc32_serial_bit ^^ n) a = drop_bit n a"
proof (induction n arbitrary: a)
  case (Suc n)
  have "(crc32_serial_bit ^^ n) (drop_bit 1 a) = drop_bit n (drop_bit 1 a)"
    using low_zero_step(2) [of n a] Suc.prems by (intro Suc.IH) blast
  then show ?case using low_zero_step(1) [of n a] Suc.prems
    by (simp add: funpow_swap1)
qed simp

text \<open>The table, recomputed on integers.\<close>

definition step_i :: "int \<Rightarrow> int" where
  "step_i n = (if odd n then (n div 2) XOR 0xedb88320 else n div 2)"

definition step8 :: "int \<Rightarrow> int" where
  "step8 n = step_i (step_i (step_i (step_i (step_i (step_i (step_i (step_i n)))))))"

lemma step_i_simps:
  "step_i 0 = 0" "step_i 1 = 0xedb88320" "step_i (numeral (Num.Bit0 k)) = numeral k"
  "step_i (numeral (Num.Bit1 k)) = numeral k XOR 0xedb88320"
  by (simp_all add: step_i_def)

lemma crc32_tab_computed: "crc32_tab = map (\<lambda>n. word_of_int (step8 n)) (map int [0..<256])"
  by (simp add: crc32_tab_def step8_def step_i_simps upt_rec)

lemma step_i_word:
  assumes "0 \<le> n" "n < 2 ^ 32"
  shows "crc32_serial_bit (word_of_int n) = word_of_int (step_i n)" "0 \<le> step_i n" "step_i n < 2 ^ 32"
proof -
  have hi: "\<not> bit n k" if "32 \<le> k" for k
  proof -
    have "n < 2 ^ k" using assms(2) that power_increasing [of 32 k "2 :: int"] by simp
    then show ?thesis using assms(1) by (simp add: bit_iff_odd)
  qed
  have "na < 31" if "na < 32" "bit n (Suc na)" for na using that hi [of 32] by (cases "na = 31") auto
  then have "drop_bit 1 (word_of_int n :: u32) = word_of_int (n div 2)"
    by (intro bit_word_eqI) (auto simp: bit_drop_bit_eq bit_of_int_iff bit_Suc [symmetric])
  moreover have "bit (word_of_int n :: u32) 0 = odd n" using bit_of_int_iff [of n 0] by (simp add: bit_0)
  moreover have "word_of_int (n div 2 XOR 0xedb88320) = (word_of_int (n div 2) XOR 0xedb88320 :: u32)"
    by (simp only: of_int_xor_eq of_int_numeral)
  ultimately show "crc32_serial_bit (word_of_int n) = word_of_int (step_i n)"
    unfolding crc32_serial_bit_def step_i_def by simp
  show "0 \<le> step_i n" using assms(1) by (simp add: step_i_def)
  have "(n div 2) XOR 0xedb88320 < 2 ^ 32" using assms by (intro XOR_upper) auto
  moreover have "n div 2 < 2 ^ 32" using assms by linarith
  ultimately show "step_i n < 2 ^ 32" by (simp add: step_i_def)
qed

lemma funpow_8: "(f ^^ 8) x = f (f (f (f (f (f (f (f x)))))))"
  by (simp add: eval_nat_numeral)

lemma step8_word:
  assumes "0 \<le> n" "n < 2 ^ 32"
  shows "(crc32_serial_bit ^^ 8) (word_of_int n) = word_of_int (step8 n)"
  using assms by (simp add: funpow_8 step8_def step_i_word [simplified])

lemma crc32_tab_serial: "i < 256 \<Longrightarrow> crc32_tab ! i = (crc32_serial_bit ^^ 8) (word_of_nat i)"
  using step8_word [of "int i"] by (simp add: crc32_tab_computed del: upt_rec_numeral)

lemma low_byte_small: "unat (w AND 0xff :: u32) < 256"
proof -
  have "w AND 0xff = take_bit 8 w" by (simp add: take_bit_eq_mask mask_eq_exp_minus_1)
  then show ?thesis using take_bit_nat_less_exp [of 8 "unat w"] by (simp add: unsigned_take_bit_eq)
qed

lemma drop_low_byte: "drop_bit 8 (w AND NOT (mask 8)) = drop_bit 8 (w :: u32)"
  by (rule bit_word_eqI) (auto simp: bit_drop_bit_eq bit_and_iff bit_not_iff bit_mask_iff dest: bit_imp_le_length)

lemma crc32_step_serial: "crc32_step b crc = (crc32_serial_bit ^^ 8) (crc XOR ucast b)"
proof -
  let ?c = "crc XOR ucast b"
  have m: "(0xff :: u32) = mask 8" by (simp add: mask_eq_exp_minus_1)
  have split: "?c = (?c AND 0xff) XOR (?c AND NOT 0xff)"
    unfolding m by (rule bit_word_eqI) (auto simp: bit_and_iff bit_xor_iff bit_not_iff)
  have small: "unat (?c AND 0xff) < 256" by (rule low_byte_small)
  have "(crc32_serial_bit ^^ 8) (?c AND NOT 0xff) = drop_bit 8 (?c AND NOT 0xff)"
    unfolding m by (rule serial_bits_shift) (simp add: bit_and_iff bit_not_iff bit_mask_iff)
  also have "\<dots> = drop_bit 8 ?c"
    unfolding m by (rule drop_low_byte)
  finally have "(crc32_serial_bit ^^ 8) ?c = (crc32_serial_bit ^^ 8) (?c AND 0xff) XOR drop_bit 8 ?c"
    by (subst split) (simp only: serial_bits_xor)
  then show ?thesis using crc32_tab_serial [OF small] by (simp add: crc32_step_def Let_def)
qed

text \<open>
  C39. The table-driven CRC-32 of common/crc.c computes the bit-serial CRC with the polynomial
  the file names, for every buffer and every starting value: all 256 table entries are right.
\<close>

theorem crc32_hash_serial: "crc32_hash crc buf = crc32_serial crc buf"
  unfolding crc32_hash_def crc32_serial_def crc32_step_serial [abs_def] ..

section \<open>CRC-8\<close>

definition wide :: "byte \<Rightarrow> u32" where
  "wide c = push_bit 8 (ucast c)"

lemma bit_wide: "bit (wide c) n \<longleftrightarrow> 8 \<le> n \<and> n < 16 \<and> bit c (n - 8)"
  using bit_imp_le_length [of c "n - 8"] by (auto simp: wide_def bit_push_bit_iff bit_ucast_iff)

lemma bit_shift1: "bit (push_bit 1 (w :: 'a::len word)) n \<longleftrightarrow> n < LENGTH('a) \<and> 1 \<le> n \<and> bit w (n - 1)"
  using bit_push_bit_iff [of 1 w n] by auto

lemma wide_xor: "wide (a XOR b) = wide a XOR wide b"
  by (rule bit_word_eqI) (auto simp: bit_wide bit_xor_iff)

lemma wide_shift: "push_bit 1 (wide c) = wide (push_bit 1 c) XOR (if bit c 7 then 0x10000 else 0)"
proof (rule bit_word_eqI)
  fix n assume n: "n < LENGTH(32)"
  have e: "bit (0x10000 :: u32) n \<longleftrightarrow> n = 16" using n bit_exp_iff [where ?'a = "32 word", of 16 n] by simp
  have "bit (push_bit 1 (wide c)) n \<longleftrightarrow> 9 \<le> n \<and> n < 17 \<and> bit c (n - 9)"
    using n unfolding bit_shift1 bit_wide by (auto simp: le_diff_conv)
  moreover have "bit (wide (push_bit 1 c)) n \<longleftrightarrow> 9 \<le> n \<and> n < 16 \<and> bit c (n - 9)"
    using n unfolding bit_wide bit_shift1 by auto
  ultimately show "bit (push_bit 1 (wide c)) n = bit (wide (push_bit 1 c) XOR (if bit c 7 then 0x10000 else 0)) n"
    unfolding bit_xor_iff using e by (cases "n < 16"; cases "n = 16") auto
qed

lemma wide_bit: "crc8_bit (wide c) = wide (crc8_serial_bit c)"
proof -
  have high: "wide c AND 0x8000 \<noteq> 0 \<longleftrightarrow> bit c 7"
    using and_exp_bit [of "wide c" 15] by (simp add: bit_wide)
  have "push_bit 1 (wide c XOR 0x8380) = push_bit 1 (wide c) XOR 0x10700"
    unfolding push_bit_xor by simp
  moreover have "wide 7 = 0x700" by (simp add: wide_def)
  moreover have "(0x10000 XOR 0x10700 :: u32) = 0x700" by simp
  ultimately show ?thesis unfolding crc8_bit_def crc8_serial_bit_def wide_xor high
    by (cases "bit c 7") (simp_all only: wide_shift if_True if_False xor.assoc, simp_all add: wide_def)
qed

lemma wide_bits: "(crc8_bit ^^ n) (wide c) = wide ((crc8_serial_bit ^^ n) c)"
  by (induction n) (simp_all add: wide_bit)

lemma crc8_bytes: "fold crc8_byte data (wide c) = wide (crc8_serial data c)"
proof (induction data arbitrary: c)
  case (Cons d data)
  have "crc8_byte d (wide c) = wide ((crc8_serial_bit ^^ 8) (c XOR d))"
    unfolding crc8_byte_def wide_bits [symmetric] wide_xor by (simp add: wide_def)
  then show ?case using Cons.IH by (simp add: crc8_serial_def)
qed (simp add: crc8_serial_def)

lemma wide_low: "ucast (drop_bit 8 (wide c)) = c"
  by (rule bit_word_eqI) (simp add: bit_ucast_iff bit_drop_bit_eq bit_wide)

lemma crc8_arg_serial: "crc8_arg data previous_crc = crc8_serial data previous_crc"
  using crc8_bytes [of data previous_crc] by (simp add: crc8_arg_def wide_low flip: wide_def)

lemma crc8_serial_append: "crc8_serial (xs @ ys) c = crc8_serial ys (crc8_serial xs c)"
  by (simp add: crc8_serial_def)

text \<open>
  The CRC-8 of common/crc8.c, computed in the upper half of a wider register, is the
  bit-serial CRC with polynomial 0x07, can be computed piecewise (the last argument continues an
  earlier block), and the CRC of a message followed by its own CRC is zero, which is how a
  receiver checks it.
\<close>

theorem crc8_correct:
  "crc8_arg data c = crc8_serial data c
    \<and> crc8_arg (xs @ ys) c = crc8_arg ys (crc8_arg xs c)
    \<and> crc8 (xs @ [crc8 xs]) = 0"
proof -
  have "(crc8_serial_bit ^^ 8) 0 = 0" by (simp add: funpow_8 crc8_serial_bit_def)
  then have "crc8_serial [c] c = 0" for c by (simp add: crc8_serial_def)
  then show ?thesis by (simp add: crc8_arg_serial crc8_def crc8_serial_append)
qed

end
