(* ===== verification/Shmalloc.thy ===== *)
theory Shmalloc
  imports EC_Prelude
begin

text \<open>
  The shared-memory allocator of common/shmalloc.c on an explicit heap: buffer headers live
  at addresses (naturals, 0 is NULL), the free chain and the chain of allocated buffers are
  doubly linked through them. Every pointer assignment of the C functions is an update of
  the heap. Loops along a chain take a bound on the number of nodes they may visit, and
  return \<open>None\<close> when it is too small; the theorems show that the number of buffers is enough.
  The mutex around each operation is the one of theory Task.
\<close>

section \<open>Heap and chains\<close>

record shm_buffer =
  next_buffer :: nat
  prev_buffer :: nat
  buffer_size :: nat

type_synonym heap = "nat \<Rightarrow> shm_buffer"

record shm =
  shm_heap :: heap
  free_buf_chain :: nat
  allocced_buf_chain :: nat
  max_allocated_size :: int

abbreviation (input) NULL :: nat where "NULL \<equiv> 0"
abbreviation (input) HEADER_SIZE :: nat where "HEADER_SIZE \<equiv> 12"

definition set_next :: "nat \<Rightarrow> nat \<Rightarrow> heap \<Rightarrow> heap" where
  "set_next a v h = h(a := (h a)\<lparr>next_buffer := v\<rparr>)"

definition set_prev :: "nat \<Rightarrow> nat \<Rightarrow> heap \<Rightarrow> heap" where
  "set_prev a v h = h(a := (h a)\<lparr>prev_buffer := v\<rparr>)"

definition set_size :: "nat \<Rightarrow> nat \<Rightarrow> heap \<Rightarrow> heap" where
  "set_size a v h = h(a := (h a)\<lparr>buffer_size := v\<rparr>)"

text \<open>\<open>if (p) p->prev_buffer = v;\<close>\<close>

definition set_prev_if :: "nat \<Rightarrow> nat \<Rightarrow> heap \<Rightarrow> heap" where
  "set_prev_if p v h = (if p \<noteq> NULL then set_prev p v h else h)"

definition shared_mem_init :: "nat \<Rightarrow> nat \<Rightarrow> shm \<Rightarrow> shm" where
  "shared_mem_init base ram_end s =
     s\<lparr>free_buf_chain := base,
       shm_heap := (shm_heap s)(base := \<lparr>next_buffer = NULL, prev_buffer = NULL, buffer_size = ram_end - base\<rparr>)\<rparr>"

section \<open>Releasing\<close>

text \<open>The sanity check's loop: is \<open>ptr\<close> in the chain from \<open>pfb\<close> on?\<close>

fun chain_has :: "nat \<Rightarrow> heap \<Rightarrow> nat \<Rightarrow> nat \<Rightarrow> bool option" where
  "chain_has 0 h pfb ptr = None"
| "chain_has (Suc fuel) h pfb ptr =
     (if pfb = NULL then Some False
      else if pfb = ptr then Some True
      else chain_has fuel h (next_buffer (h pfb)) ptr)"

text \<open>Taking \<open>ptr\<close> out of the allocated chain; \<open>False\<close> when it is not in it.\<close>

definition unlink_allocated :: "nat \<Rightarrow> nat \<Rightarrow> shm \<Rightarrow> (bool \<times> shm) option" where
  "unlink_allocated fuel ptr s =
     (let h = shm_heap s
      in if ptr = allocced_buf_chain s
         then Some (True, s\<lparr>shm_heap := set_prev_if (next_buffer (h ptr)) NULL h,
                           allocced_buf_chain := next_buffer (h ptr)\<rparr>)
         else case chain_has fuel h (next_buffer (h (allocced_buf_chain s))) ptr of
                None \<Rightarrow> None
              | Some False \<Rightarrow> Some (False, s)
              | Some True \<Rightarrow>
                  (let h = set_next (prev_buffer (h ptr)) (next_buffer (h ptr)) h;
                       h = set_prev_if (next_buffer (h ptr)) (prev_buffer (h ptr)) h
                   in Some (True, s\<lparr>shm_heap := h\<rparr>)))"

text \<open>The highest free buffer below \<open>ptr\<close>.\<close>

fun find_spot :: "nat \<Rightarrow> heap \<Rightarrow> nat \<Rightarrow> nat \<Rightarrow> nat option" where
  "find_spot 0 h pfb ptr = None"
| "find_spot (Suc fuel) h pfb ptr =
     (if next_buffer (h pfb) \<noteq> NULL \<and> next_buffer (h pfb) < ptr
      then find_spot fuel h (next_buffer (h pfb)) ptr else Some pfb)"

text \<open>Putting \<open>ptr\<close> below the whole free chain, merging it with the first buffer if they touch.\<close>

definition insert_first :: "nat \<Rightarrow> shm \<Rightarrow> shm" where
  "insert_first ptr s =
     (let h = shm_heap s; released_size = buffer_size (h ptr); fc = free_buf_chain s;
          h = (if ptr + released_size = fc
               then set_next ptr (next_buffer (h fc)) (set_size ptr (buffer_size (h fc) + released_size) h)
               else set_prev fc ptr (set_next ptr fc (set_size ptr released_size h)));
          h = set_prev_if (next_buffer (h ptr)) ptr h;
          h = set_prev ptr NULL h
      in s\<lparr>shm_heap := h, free_buf_chain := ptr\<rparr>)"

text \<open>Putting \<open>ptr\<close> into the chain above \<open>pfb\<close>, merging it with either neighbour.\<close>

definition insert_after :: "nat \<Rightarrow> nat \<Rightarrow> heap \<Rightarrow> heap" where
  "insert_after pfb ptr h =
     (let released_size = buffer_size (h ptr)
      in if pfb + buffer_size (h pfb) = ptr
         then (let h = set_size pfb (buffer_size (h pfb) + released_size) h
               in if ptr + released_size = next_buffer (h pfb)
                  then (let h = set_size pfb (buffer_size (h pfb) + buffer_size (h (next_buffer (h pfb)))) h;
                            h = set_next pfb (next_buffer (h (next_buffer (h pfb)))) h
                        in set_prev_if (next_buffer (h pfb)) pfb h)
                  else h)
         else
           let h = (if ptr + released_size = next_buffer (h pfb)
                    then set_next ptr (next_buffer (h (next_buffer (h pfb))))
                           (set_size ptr (released_size + buffer_size (h (next_buffer (h pfb)))) h)
                    else set_size ptr released_size (set_next ptr (next_buffer (h pfb)) h));
               h = set_next pfb ptr (set_prev ptr pfb h)
           in set_prev_if (next_buffer (h ptr)) ptr h)"

definition insert_free :: "nat \<Rightarrow> nat \<Rightarrow> shm \<Rightarrow> shm option" where
  "insert_free fuel ptr s =
     (if free_buf_chain s = NULL
      then Some (s\<lparr>free_buf_chain := ptr,
                  shm_heap := set_prev ptr NULL (set_next ptr NULL (shm_heap s))\<rparr>)
      else if ptr < free_buf_chain s then Some (insert_first ptr s)
      else map_option (\<lambda>pfb. s\<lparr>shm_heap := insert_after pfb ptr (shm_heap s)\<rparr>)
             (find_spot fuel (shm_heap s) (free_buf_chain s) ptr))"

definition do_release :: "nat \<Rightarrow> nat \<Rightarrow> shm \<Rightarrow> shm option" where
  "do_release fuel ptr s =
     (case unlink_allocated fuel ptr s of
        None \<Rightarrow> None
      | Some (False, s) \<Rightarrow> Some s
      | Some (True, s) \<Rightarrow> insert_free fuel ptr s)"

section \<open>Acquiring\<close>

text \<open>The candidate with the least headroom so far, and that headroom.\<close>

fun best_fit :: "nat \<Rightarrow> heap \<Rightarrow> nat \<Rightarrow> nat \<Rightarrow> nat \<Rightarrow> nat \<Rightarrow> (nat \<times> nat) option" where
  "best_fit 0 h sz pfb headroom candidate = None"
| "best_fit (Suc fuel) h sz pfb headroom candidate =
     (if pfb = NULL then Some (headroom, candidate)
      else if sz < buffer_size (h pfb) \<and> buffer_size (h pfb) - sz < headroom
      then best_fit fuel h sz (next_buffer (h pfb)) (buffer_size (h pfb) - sz) pfb
      else best_fit fuel h sz (next_buffer (h pfb)) headroom candidate)"

text \<open>Taking the whole candidate out of the free chain.\<close>

definition take_whole :: "nat \<Rightarrow> shm \<Rightarrow> shm" where
  "take_whole candidate s =
     (let h = shm_heap s; nx = next_buffer (h candidate)
      in if candidate = free_buf_chain s
         then s\<lparr>free_buf_chain := nx, shm_heap := set_prev_if nx NULL h\<rparr>
         else s\<lparr>shm_heap := set_prev_if nx (prev_buffer (h candidate)) (set_next (prev_buffer (h candidate)) nx h)\<rparr>)"

text \<open>Keeping the candidate's tail as a free buffer.\<close>

definition take_front :: "nat \<Rightarrow> nat \<Rightarrow> nat \<Rightarrow> shm \<Rightarrow> shm" where
  "take_front candidate sz headroom s =
     (let h = set_size candidate sz (shm_heap s);
          pfb = candidate + sz;
          h = set_size pfb headroom h;
          h = set_next pfb (next_buffer (h candidate)) h;
          h = set_prev pfb (prev_buffer (h candidate)) h;
          h = set_prev_if (next_buffer (h pfb)) pfb h
      in if candidate = free_buf_chain s then s\<lparr>free_buf_chain := pfb, shm_heap := h\<rparr>
         else s\<lparr>shm_heap := set_next (prev_buffer (h pfb)) pfb h\<rparr>)"

text \<open>The size with its header, in the unsigned arithmetic of the C expression.\<close>

definition padded_size :: "u32 \<Rightarrow> nat" where
  "padded_size sz = unat (((sz + 3) AND NOT 3) + 12)"

datatype shm_error = SHM_ERROR_INVAL | SHM_ERROR_BUSY

definition do_acquire :: "nat \<Rightarrow> u32 \<Rightarrow> shm \<Rightarrow> (shm_error + nat \<times> shm) option" where
  "do_acquire fuel sz s =
     (let n = padded_size sz
      in case best_fit fuel (shm_heap s) n (free_buf_chain s) 0x10000000 NULL of
           None \<Rightarrow> None
         | Some (headroom, candidate) \<Rightarrow>
             if candidate = NULL then Some (Inl SHM_ERROR_BUSY)
             else if headroom \<le> HEADER_SIZE then Some (Inr (candidate, take_whole candidate s))
             else Some (Inr (candidate, take_front candidate n headroom s)))"

fun max_available :: "nat \<Rightarrow> heap \<Rightarrow> nat \<Rightarrow> nat \<Rightarrow> nat option" where
  "max_available 0 h pfb m = None"
| "max_available (Suc fuel) h pfb m =
     (if pfb = NULL then Some m
      else max_available fuel h (next_buffer (h pfb)) (if m < buffer_size (h pfb) then buffer_size (h pfb) else m))"

definition shared_mem_size :: "nat \<Rightarrow> shm \<Rightarrow> nat option" where
  "shared_mem_size fuel s = max_available fuel (shm_heap s) (free_buf_chain s) 0"

text \<open>The result is the address after the header.\<close>

definition shared_mem_acquire :: "bool \<Rightarrow> nat \<Rightarrow> u32 \<Rightarrow> shm \<Rightarrow> (shm_error + nat \<times> shm) option" where
  "shared_mem_acquire in_irq fuel sz s =
     (if in_irq then Some (Inl SHM_ERROR_INVAL)
      else if free_buf_chain s = NULL then Some (Inl SHM_ERROR_BUSY)
      else case do_acquire fuel sz s of
             Some (Inr (new_buf, s)) \<Rightarrow>
               (let ac = allocced_buf_chain s;
                    h = set_prev new_buf NULL (set_next new_buf ac (shm_heap s));
                    h = set_prev_if ac new_buf h
                in Some (Inr (new_buf + HEADER_SIZE,
                     s\<lparr>shm_heap := h, allocced_buf_chain := new_buf,
                       max_allocated_size := max (sint sz) (max_allocated_size s)\<rparr>)))
           | r \<Rightarrow> r)"

definition shared_mem_release :: "bool \<Rightarrow> nat \<Rightarrow> nat \<Rightarrow> shm \<Rightarrow> shm option" where
  "shared_mem_release in_irq fuel ptr s = (if in_irq then Some s else do_release fuel (ptr - HEADER_SIZE) s)"

fun chain_total :: "nat \<Rightarrow> heap \<Rightarrow> nat \<Rightarrow> nat option" where
  "chain_total 0 h buf = None"
| "chain_total (Suc fuel) h buf =
     (if buf = NULL then Some 0 else map_option ((+) (buffer_size (h buf))) (chain_total fuel h (next_buffer (h buf))))"

text \<open>The figures that \<open>command_shmem\<close> prints: total, allocated, free, largest free, largest request.\<close>

definition command_shmem :: "nat \<Rightarrow> shm \<Rightarrow> (nat \<times> nat \<times> nat \<times> nat \<times> int) option" where
  "command_shmem fuel s =
     (case (chain_total fuel (shm_heap s) (allocced_buf_chain s), chain_total fuel (shm_heap s) (free_buf_chain s),
            max_available fuel (shm_heap s) (free_buf_chain s) 0) of
        (Some allocated, Some free, Some mx) \<Rightarrow> Some (allocated + free, allocated, free, mx, max_allocated_size s)
      | _ \<Rightarrow> None)"


section \<open>Doubly linked chains\<close>

definition hd_or :: "nat list \<Rightarrow> nat \<Rightarrow> nat" where
  "hd_or xs q = (case xs of [] \<Rightarrow> q | x # _ \<Rightarrow> x)"

definition last_or :: "nat \<Rightarrow> nat list \<Rightarrow> nat" where
  "last_or pr xs = (if xs = [] then pr else last xs)"

lemma hd_or_simps [simp]: "hd_or [] q = q" "hd_or (x # xs) q = x" "hd_or (xs @ ys) q = hd_or xs (hd_or ys q)"
  by (simp_all add: hd_or_def split: list.splits)

lemma last_or_simps [simp]:
  "last_or pr [] = pr" "last_or pr (x # xs) = last_or x xs" "last_or pr (xs @ [x]) = x"
  by (simp_all add: last_or_def)

text \<open>The next pointers lead from each node to the following one and at last to \<open>q\<close>; the
  previous pointers lead back, at last to \<open>pr\<close>.\<close>

fun next_ok :: "heap \<Rightarrow> nat list \<Rightarrow> nat \<Rightarrow> bool" where
  "next_ok h [] q = True"
| "next_ok h (x # xs) q = (next_buffer (h x) = hd_or xs q \<and> next_ok h xs q)"

fun prev_ok :: "heap \<Rightarrow> nat \<Rightarrow> nat list \<Rightarrow> bool" where
  "prev_ok h pr [] = True"
| "prev_ok h pr (x # xs) = (prev_buffer (h x) = pr \<and> prev_ok h x xs)"

definition chain :: "heap \<Rightarrow> nat \<Rightarrow> nat list \<Rightarrow> bool" where
  "chain h p xs \<longleftrightarrow> p = hd_or xs NULL \<and> next_ok h xs NULL \<and> prev_ok h NULL xs \<and> distinct xs \<and> NULL \<notin> set xs"

lemma next_ok_append [simp]: "next_ok h (xs @ ys) q \<longleftrightarrow> next_ok h xs (hd_or ys q) \<and> next_ok h ys q"
  by (induction xs) auto

lemma prev_ok_append [simp]: "prev_ok h pr (xs @ ys) \<longleftrightarrow> prev_ok h pr xs \<and> prev_ok h (last_or pr xs) ys"
  by (induction xs arbitrary: pr) auto

lemma next_ok_cong: "(\<And>x. x \<in> set xs \<Longrightarrow> next_buffer (h' x) = next_buffer (h x)) \<Longrightarrow> next_ok h' xs q = next_ok h xs q"
  by (induction xs) auto

lemma prev_ok_cong: "(\<And>x. x \<in> set xs \<Longrightarrow> prev_buffer (h' x) = prev_buffer (h x)) \<Longrightarrow> prev_ok h' pr xs = prev_ok h pr xs"
  by (induction xs arbitrary: pr) auto

lemma field_simps_heap [simp]:
  "next_buffer (set_next a v h x) = (if x = a then v else next_buffer (h x))"
  "prev_buffer (set_next a v h x) = prev_buffer (h x)" "buffer_size (set_next a v h x) = buffer_size (h x)"
  "prev_buffer (set_prev a v h x) = (if x = a then v else prev_buffer (h x))"
  "next_buffer (set_prev a v h x) = next_buffer (h x)" "buffer_size (set_prev a v h x) = buffer_size (h x)"
  "buffer_size (set_size a v h x) = (if x = a then v else buffer_size (h x))"
  "next_buffer (set_size a v h x) = next_buffer (h x)" "prev_buffer (set_size a v h x) = prev_buffer (h x)"
  "next_buffer (set_prev_if a v h x) = next_buffer (h x)" "buffer_size (set_prev_if a v h x) = buffer_size (h x)"
  "prev_buffer (set_prev_if a v h x) = (if x = a \<and> a \<noteq> 0 then v else prev_buffer (h x))"
  by (auto simp: set_next_def set_prev_def set_size_def set_prev_if_def)

lemma ok_frame [simp]:
  "next_ok (set_prev a v h) xs q = next_ok h xs q" "next_ok (set_size a v h) xs q = next_ok h xs q"
  "next_ok (set_prev_if a v h) xs q = next_ok h xs q" "prev_ok (set_next a v h) pr xs = prev_ok h pr xs"
  "prev_ok (set_size a v h) pr xs = prev_ok h pr xs"
  "a \<notin> set xs \<Longrightarrow> next_ok (set_next a v h) xs q = next_ok h xs q"
  "a \<notin> set xs \<Longrightarrow> prev_ok (set_prev a v h) pr xs = prev_ok h pr xs"
  "a \<notin> set xs \<Longrightarrow> prev_ok (set_prev_if a v h) pr xs = prev_ok h pr xs"
  by (auto intro!: next_ok_cong prev_ok_cong)

lemma chain_frame:
  assumes "\<And>x. x \<in> set xs \<Longrightarrow> next_buffer (h' x) = next_buffer (h x) \<and> prev_buffer (h' x) = prev_buffer (h x)"
  shows "chain h' p xs = chain h p xs"
  using next_ok_cong [of xs h' h] prev_ok_cong [of xs h' h] assms by (simp add: chain_def)

lemma prev_ok_set_prev_if:
  assumes "0 \<notin> set xs" "distinct xs"
  shows "prev_ok (set_prev_if (hd_or xs 0) v h) v xs = prev_ok h (if xs = [] then v else prev_buffer (h (hd xs))) xs"
  using assms by (cases xs) auto

text \<open>Taking a node out of a chain, as \<open>do_acquire\<close> and \<open>do_release\<close> both do.\<close>

lemma unlink_first:
  assumes "chain h p (c # bs)"
  shows "p = c" "next_buffer (h c) = hd_or bs 0" "chain (set_prev_if (next_buffer (h c)) 0 h) (next_buffer (h c)) bs"
  using assms by (cases bs; auto simp: chain_def)+

lemma unlink_inner:
  assumes "chain h p (as @ c # bs)" "as \<noteq> []"
  shows "p \<noteq> c" "prev_buffer (h c) = last as" "next_buffer (h c) = hd_or bs 0"
    "chain (set_prev_if (next_buffer (h c)) (prev_buffer (h c)) (set_next (prev_buffer (h c)) (next_buffer (h c)) h)) p (as @ bs)"
proof -
  obtain as' a where as: "as = as' @ [a]" using assms(2) by (cases as rule: rev_cases) auto
  show "p \<noteq> c" using assms by (cases as) (auto simp: chain_def)
  show "prev_buffer (h c) = last as" "next_buffer (h c) = hd_or bs 0" using assms as by (auto simp: chain_def)
  show "chain (set_prev_if (next_buffer (h c)) (prev_buffer (h c)) (set_next (prev_buffer (h c)) (next_buffer (h c)) h)) p (as @ bs)"
    using assms(1) unfolding as by (cases bs) (auto simp: chain_def)
qed

lemma push_chain:
  assumes "chain h p xs" "c \<notin> set xs" "c \<noteq> 0"
  shows "chain (set_prev_if p c (set_prev c 0 (set_next c p h))) c (c # xs)"
  using assms by (cases xs) (auto simp: chain_def)

lemma replace_node:
  assumes "chain h p (as @ c # bs)" "d \<notin> set (as @ bs)" "d \<noteq> 0" "d \<noteq> c"
    and h1: "h1 = set_prev d (prev_buffer (h c)) (set_next d (next_buffer (h c)) h)"
    and h2: "h2 = set_prev_if (next_buffer (h c)) d h1"
  shows "as = [] \<Longrightarrow> chain h2 d (d # bs)"
    and "as \<noteq> [] \<Longrightarrow> chain (set_next (prev_buffer (h2 d)) d h2) p (as @ d # bs)"
proof -
  assume "as = []"
  then show "chain h2 d (d # bs)" using assms(1 - 4) unfolding h2 h1 by (cases bs) (auto simp: chain_def)
next
  assume "as \<noteq> []"
  then obtain as' a where as: "as = as' @ [a]" by (cases as rule: rev_cases) auto
  show "chain (set_next (prev_buffer (h2 d)) d h2) p (as @ d # bs)"
    using assms(1 - 4) unfolding h2 h1 as by (cases bs) (auto simp: chain_def)
qed

section \<open>Blocks of memory\<close>

definition block :: "heap \<Rightarrow> nat \<Rightarrow> nat set" where
  "block h x = {x..<x + buffer_size (h x)}"

definition area :: "heap \<Rightarrow> nat list \<Rightarrow> nat set" where
  "area h xs = (\<Union>x \<in> set xs. block h x)"

text \<open>Free buffers are sorted and never touch: adjacent free buffers have been merged.\<close>

definition separated :: "heap \<Rightarrow> nat list \<Rightarrow> bool" where
  "separated h xs = successively (\<lambda>x y. x + buffer_size (h x) < y) xs"

lemma area_simps [simp]: "area h [] = {}" "area h (x # xs) = block h x \<union> area h xs" "area h (xs @ ys) = area h xs \<union> area h ys"
  by (auto simp: area_def)

lemma area_cong: "(\<And>x. x \<in> set xs \<Longrightarrow> buffer_size (h' x) = buffer_size (h x)) \<Longrightarrow> area h' xs = area h xs"
  by (auto simp: area_def block_def)

lemma separated_cong:
  "(\<And>x. x \<in> set xs \<Longrightarrow> buffer_size (h' x) = buffer_size (h x)) \<Longrightarrow> separated h' xs = separated h xs"
  unfolding separated_def by (rule successively_cong) auto

lemma separated_simps [simp]:
  "separated h []" "separated h [x]" "separated h (x # y # xs) \<longleftrightarrow> x + buffer_size (h x) < y \<and> separated h (y # xs)"
  by (simp_all add: separated_def)

lemma size_frame [simp]:
  "separated (set_next a v h) xs = separated h xs" "separated (set_prev a v h) xs = separated h xs"
  "separated (set_prev_if a v h) xs = separated h xs" "a \<notin> set xs \<Longrightarrow> separated (set_size a v h) xs = separated h xs"
  "area (set_next a v h) xs = area h xs" "area (set_prev a v h) xs = area h xs"
  "area (set_prev_if a v h) xs = area h xs" "a \<notin> set xs \<Longrightarrow> area (set_size a v h) xs = area h xs"
  "block (set_next a v h) x = block h x" "block (set_prev a v h) x = block h x"
  "block (set_prev_if a v h) x = block h x" "a \<noteq> x \<Longrightarrow> block (set_size a v h) x = block h x"
  by (auto intro!: separated_cong area_cong simp: block_def)

lemma separated_append:
  "separated h (xs @ y # ys) \<longleftrightarrow>
     separated h xs \<and> separated h (y # ys) \<and> (xs \<noteq> [] \<longrightarrow> last xs + buffer_size (h (last xs)) < y)"
  by (auto simp: separated_def successively_append_iff)

lemma separated_drop: "separated h (x # xs) \<Longrightarrow> separated h xs"
  by (cases xs) auto

lemma separated_less: "separated h (x # xs) \<Longrightarrow> y \<in> set xs \<Longrightarrow> x < y"
proof (induction xs arbitrary: x)
  case (Cons z zs)
  then have "x < z" by simp
  then show ?case using Cons.IH [of z] Cons.prems by auto
qed simp

lemma block_merge: "buffer_size (h' x) = buffer_size (h x) + buffer_size (h y) \<Longrightarrow> x + buffer_size (h x) = y
   \<Longrightarrow> block h' x = block h x \<union> block h y"
  by (auto simp: block_def)

lemma block_same: "buffer_size (h' x) = buffer_size (h x) \<Longrightarrow> block h' x = block h x"
  by (simp add: block_def)

text \<open>What returning \<open>ptr\<close> to the free chain \<open>fs\<close> must achieve.\<close>

definition returned :: "nat \<Rightarrow> heap \<Rightarrow> nat list \<Rightarrow> heap \<Rightarrow> nat \<Rightarrow> nat list \<Rightarrow> bool" where
  "returned ptr h fs h' p' fs' \<longleftrightarrow> chain h' p' fs' \<and> separated h' fs' \<and> area h' fs' = area h fs \<union> block h ptr
     \<and> set fs' \<subseteq> insert ptr (set fs) \<and> (\<forall>x \<in> set fs'. buffer_size (h x) \<le> buffer_size (h' x))
     \<and> (\<forall>x. x \<notin> insert ptr (set fs) \<longrightarrow> h' x = h x)"

lemma heap_untouched [simp]:
  "x \<noteq> a \<Longrightarrow> set_next a v h x = h x" "x \<noteq> a \<Longrightarrow> set_prev a v h x = h x" "x \<noteq> a \<Longrightarrow> set_size a v h x = h x"
  "x \<noteq> a \<Longrightarrow> set_prev_if a v h x = h x"
  by (simp_all add: set_next_def set_prev_def set_size_def set_prev_if_def)

lemma set_prev_if_hd [simp]: "x \<notin> set fs \<Longrightarrow> set_prev_if (hd_or fs 0) v h x = h x"
  by (cases fs) (auto simp: set_prev_if_def)

lemma free_buf_chain_insert_first [simp]: "free_buf_chain (insert_first ptr s) = ptr"
  by (simp add: insert_first_def Let_def)

lemma returned_empty:
  assumes "ptr \<noteq> 0"
  shows "returned ptr h [] (set_prev ptr 0 (set_next ptr 0 h)) ptr [ptr]"
  using assms by (auto simp: returned_def chain_def block_def)

lemma returned_first:
  assumes c: "chain (shm_heap s) (free_buf_chain s) (f # fs)" and sep: "separated (shm_heap s) (f # fs)"
    and ptr: "ptr \<noteq> 0" "ptr < f" "ptr + buffer_size (shm_heap s ptr) \<le> f"
  shows "\<exists>fs'. returned ptr (shm_heap s) (f # fs) (shm_heap (insert_first ptr s)) (free_buf_chain (insert_first ptr s)) fs'"
proof -
  have notin: "ptr \<notin> set (f # fs)" using separated_less [OF sep] ptr(2) by fastforce
  have fc: "free_buf_chain s = f" using c by (simp add: chain_def)
  let ?h = "shm_heap s" and ?s' = "insert_first ptr s"
  let ?m = "ptr + buffer_size (?h ptr) = f"
  have "returned ptr ?h (f # fs) (shm_heap ?s') (free_buf_chain ?s') (if ?m then ptr # fs else ptr # f # fs)"
  proof (cases ?m)
    case True
    have nx: "next_buffer (?h f) = hd_or fs 0" using c by (simp add: chain_def)
    have h': "shm_heap ?s' = set_prev ptr 0 (set_prev_if (hd_or fs 0) ptr
        (set_next ptr (hd_or fs 0) (set_size ptr (buffer_size (?h f) + buffer_size (?h ptr)) ?h)))"
      using True fc nx by (simp add: insert_first_def Let_def)
    have "chain (shm_heap ?s') ptr (ptr # fs)" unfolding h' using c ptr notin by (cases fs) (auto simp: chain_def)
    moreover have "separated (shm_heap ?s') (ptr # fs)"
      using sep True notin unfolding h' by (cases fs) auto
    moreover have "block (shm_heap ?s') ptr = block ?h ptr \<union> block ?h f"
      using True by (intro block_merge) (simp_all add: h')
    moreover have "area (shm_heap ?s') fs = area ?h fs" using notin by (simp add: h')
    ultimately show ?thesis using True by (auto simp: returned_def h')
  next
    case False
    have h': "shm_heap ?s' = set_prev ptr 0 (set_prev_if f ptr (set_prev f ptr (set_next ptr f
        (set_size ptr (buffer_size (?h ptr)) ?h))))"
      using False fc by (simp add: insert_first_def Let_def)
    have "chain (shm_heap ?s') ptr (ptr # f # fs)" unfolding h' using c ptr notin by (auto simp: chain_def)
    moreover have "separated (shm_heap ?s') (ptr # f # fs)"
      using sep False ptr(3) notin unfolding h' by (auto simp: separated_cong [of "f # fs" "set_size ptr (buffer_size (?h ptr)) ?h"])
    moreover have "area (shm_heap ?s') (ptr # f # fs) = area ?h (ptr # f # fs)"
      using notin by (intro area_cong) (auto simp: h')
    ultimately show ?thesis using False by (auto simp: returned_def h')
  qed
  then show ?thesis by blast
qed

lemma inner_facts:
  assumes "chain h fc (as @ p # bs)" "separated h (as @ p # bs)" "p < ptr" "bs \<noteq> [] \<longrightarrow> ptr < hd bs"
  shows "ptr \<notin> set (as @ p # bs)" "next_buffer (h p) = hd_or bs 0" "p \<notin> set as" "p \<notin> set bs"
    "\<forall>x \<in> set as. x \<notin> set bs" "\<forall>b bs'. bs = b # bs' \<longrightarrow> next_buffer (h b) = hd_or bs' 0 \<and> b \<notin> set bs'"
proof -
  have sep: "separated h (p # bs)" using assms(2) by (simp add: separated_append)
  have "x < p" if x: "x \<in> set as" for x
  proof -
    obtain ys zs where "as = ys @ x # zs" using split_list [OF x] by blast
    then have "separated h (x # zs @ p # bs)" using assms(2) by (simp add: separated_append)
    then show ?thesis using separated_less [of h x "zs @ p # bs" p] by simp
  qed
  moreover have "ptr < x" if "x \<in> set bs" for x
    using that assms(4) separated_drop [OF sep] separated_less [of h "hd bs" "tl bs" x] by (cases bs) auto
  ultimately show "ptr \<notin> set (as @ p # bs)" using assms(3) by fastforce
  show "next_buffer (h p) = hd_or bs 0" "p \<notin> set as" "p \<notin> set bs" "\<forall>x \<in> set as. x \<notin> set bs"
    "\<forall>b bs'. bs = b # bs' \<longrightarrow> next_buffer (h b) = hd_or bs' 0 \<and> b \<notin> set bs'"
    using assms(1) by (auto simp: chain_def)
qed

lemma returned_after_low:
  assumes c: "chain h fc (as @ p # bs)" and sep: "separated h (as @ p # bs)"
    and ptr: "p < ptr" "bs \<noteq> [] \<longrightarrow> ptr < hd bs \<and> ptr + buffer_size (h ptr) \<le> hd bs"
    and low: "p + buffer_size (h p) = ptr"
  shows "\<exists>fs'. returned ptr h (as @ p # bs) (insert_after p ptr h) fc fs'"
proof -
  have f: "ptr \<notin> set (as @ p # bs)" "next_buffer (h p) = hd_or bs 0" "p \<notin> set as" "p \<notin> set bs" "\<forall>x \<in> set as. x \<notin> set bs"
      "\<forall>b bs'. bs = b # bs' \<longrightarrow> next_buffer (h b) = hd_or bs' 0 \<and> b \<notin> set bs'"
    using inner_facts [OF c sep ptr(1)] ptr(2) by auto
  let ?h' = "insert_after p ptr h"
  show ?thesis
  proof (cases "ptr + buffer_size (h ptr) = hd_or bs 0")
    case True
    then obtain b bs' where bs: "bs = b # bs'" using ptr(1) by (cases bs) auto
    have b: "next_buffer (h b) = hd_or bs' 0" "b \<notin> set bs'" "ptr + buffer_size (h ptr) = b" using f(6) bs True by auto
    have h': "?h' = set_prev_if (hd_or bs' 0) p (set_next p (hd_or bs' 0)
        (set_size p (buffer_size (h p) + buffer_size (h ptr) + buffer_size (h b)) (set_size p (buffer_size (h p) + buffer_size (h ptr)) h)))"
      using low b f(2) f(4) True bs by (auto simp: insert_after_def Let_def)
    have "chain ?h' fc (as @ p # bs')" unfolding h'
      using c f(3, 4, 5) bs by (cases as rule: rev_cases; cases bs') (auto simp: chain_def)
    moreover have "separated ?h' (as @ p # bs')" unfolding h'
      using sep f(3, 4, 5) bs low b by (cases bs') (auto simp: separated_append)
    moreover have "block ?h' p = block h p \<union> block h ptr \<union> block h b"
      using low b by (auto simp: h' block_def)
    ultimately have "returned ptr h (as @ p # bs) ?h' fc (as @ p # bs')"
      using f(3, 4, 5) bs by (auto simp: returned_def h')
    then show ?thesis by blast
  next
    case False
    have h': "?h' = set_size p (buffer_size (h p) + buffer_size (h ptr)) h"
      using low f(2) False by (simp add: insert_after_def Let_def)
    have "chain ?h' fc (as @ p # bs)" unfolding h' using c by (simp add: chain_def)
    moreover have "separated ?h' (as @ p # bs)" unfolding h'
      using sep f(3, 4, 5) low ptr(2) False by (cases bs) (auto simp: separated_append)
    moreover have "block ?h' p = block h p \<union> block h ptr"
      using low by (auto simp: h' block_def)
    ultimately have "returned ptr h (as @ p # bs) ?h' fc (as @ p # bs)"
      using f(3, 4, 5) by (auto simp: returned_def h')
    then show ?thesis by blast
  qed
qed

lemma returned_after_high:
  assumes c: "chain h fc (as @ p # bs)" and sep: "separated h (as @ p # bs)"
    and ptr: "p < ptr" "bs \<noteq> [] \<longrightarrow> ptr < hd bs \<and> ptr + buffer_size (h ptr) \<le> hd bs"
    and high: "p + buffer_size (h p) < ptr"
  shows "\<exists>fs'. returned ptr h (as @ p # bs) (insert_after p ptr h) fc fs'"
proof -
  have f: "ptr \<notin> set (as @ p # bs)" "next_buffer (h p) = hd_or bs 0" "p \<notin> set as" "p \<notin> set bs" "\<forall>x \<in> set as. x \<notin> set bs"
      "\<forall>b bs'. bs = b # bs' \<longrightarrow> next_buffer (h b) = hd_or bs' 0 \<and> b \<notin> set bs'"
    using inner_facts [OF c sep ptr(1)] ptr(2) by auto
  let ?h' = "insert_after p ptr h"
  show ?thesis
  proof (cases "ptr + buffer_size (h ptr) = hd_or bs 0")
    case True
    then obtain b bs' where bs: "bs = b # bs'" using ptr(1) by (cases bs) auto
    have b: "next_buffer (h b) = hd_or bs' 0" "b \<notin> set bs'" "ptr + buffer_size (h ptr) = b" using f(6) bs True by auto
    have h': "?h' = set_prev_if (hd_or bs' 0) ptr (set_next p ptr (set_prev ptr p (set_next ptr (hd_or bs' 0)
        (set_size ptr (buffer_size (h ptr) + buffer_size (h b)) h))))"
      using high b f(1, 2) True bs by (auto simp: insert_after_def Let_def)
    have "chain ?h' fc (as @ p # ptr # bs')" unfolding h'
      using c f(1, 3, 4, 5) bs ptr(1) by (cases bs') (auto simp: chain_def)
    moreover have "separated ?h' (as @ p # ptr # bs')" unfolding h'
      using sep f(1, 3, 4, 5) bs high b by (cases bs') (auto simp: separated_append)
    moreover have "block ?h' ptr = block h ptr \<union> block h b"
      using b by (auto simp: h' block_def)
    ultimately have "returned ptr h (as @ p # bs) ?h' fc (as @ p # ptr # bs')"
      using f(1, 3, 4, 5) bs by (auto simp: returned_def h')
    then show ?thesis by blast
  next
    case False
    have h': "?h' = set_prev_if (hd_or bs 0) ptr (set_next p ptr (set_prev ptr p
        (set_size ptr (buffer_size (h ptr)) (set_next ptr (hd_or bs 0) h))))"
      using high f(1, 2) False by (auto simp: insert_after_def Let_def)
    have "chain ?h' fc (as @ p # ptr # bs)" unfolding h'
      using c f(1, 3, 4, 5) ptr(1) by (cases bs) (auto simp: chain_def)
    moreover have "separated ?h' (as @ p # ptr # bs)" unfolding h'
      using sep f(1, 3, 4, 5) high ptr(2) False by (cases bs) (auto simp: separated_append)
    moreover have "block ?h' ptr = block h ptr" by (simp add: h' block_def)
    ultimately have "returned ptr h (as @ p # bs) ?h' fc (as @ p # ptr # bs)"
      using f(1, 3, 4, 5) by (auto simp: returned_def h')
    then show ?thesis by blast
  qed
qed

text \<open>Finding the place: \<open>p\<close> is the last free buffer below \<open>ptr\<close>.\<close>

lemma find_spot_split:
  assumes "next_ok h (x # xs) 0" "0 \<notin> set (x # xs)" "length xs < fuel" "x < ptr"
  shows "\<exists>as p bs. x # xs = as @ p # bs \<and> find_spot fuel h x ptr = Some p \<and> p < ptr \<and> (bs \<noteq> [] \<longrightarrow> ptr \<le> hd bs)"
  using assms
proof (induction xs arbitrary: x fuel)
  case Nil
  then show ?case by (cases fuel) auto
next
  case (Cons y ys)
  then obtain fuel' where fuel: "fuel = Suc fuel'" by (cases fuel) auto
  show ?case
  proof (cases "y < ptr")
    case True
    from Cons.IH [of y fuel'] Cons.prems fuel True obtain as p bs
      where "y # ys = as @ p # bs" "find_spot fuel' h y ptr = Some p" "p < ptr" "bs \<noteq> [] \<longrightarrow> ptr \<le> hd bs" by auto
    moreover have "find_spot fuel h x ptr = find_spot fuel' h y ptr" using Cons.prems True fuel by simp
    ultimately show ?thesis by (intro exI [of _ "x # as"] exI [of _ p] exI [of _ bs]) simp
  next
    case False
    then show ?thesis using Cons.prems fuel by (intro exI [of _ "[]"] exI [of _ x] exI [of _ "y # ys"]) auto
  qed
qed

lemma area_disjoint_below:
  assumes "block h x \<inter> block h y = {}" "x < y" "0 < buffer_size (h y)"
  shows "x + buffer_size (h x) \<le> y"
proof (rule ccontr)
  assume "\<not> ?thesis"
  then have "y \<in> block h x \<inter> block h y" using assms(2, 3) by (simp add: block_def)
  then show False using assms(1) by blast
qed

lemma insert_free_returned:
  assumes c: "chain (shm_heap s) (free_buf_chain s) fs" and sep: "separated (shm_heap s) fs"
    and dis: "area (shm_heap s) fs \<inter> block (shm_heap s) ptr = {}"
    and pos: "0 < buffer_size (shm_heap s ptr)" "\<forall>x \<in> set fs. 0 < buffer_size (shm_heap s x)"
    and ptr: "ptr \<noteq> 0" and fuel: "length fs < fuel"
  shows "\<exists>s' fs'. insert_free fuel ptr s = Some s' \<and> returned ptr (shm_heap s) fs (shm_heap s') (free_buf_chain s') fs'
    \<and> allocced_buf_chain s' = allocced_buf_chain s \<and> max_allocated_size s' = max_allocated_size s"
proof (cases fs)
  case Nil
  then show ?thesis using c returned_empty [OF ptr, of "shm_heap s"]
    by (intro exI) (auto simp: insert_free_def chain_def)
next
  case (Cons f fs1)
  let ?h = "shm_heap s"
  have fc: "free_buf_chain s = f" "f \<noteq> 0" using c Cons by (auto simp: chain_def)
  have blk: "block ?h x \<inter> block ?h ptr = {}" if "x \<in> set fs" for x using dis that by (auto simp: area_def)
  have below: "x \<in> set fs \<Longrightarrow> x < ptr \<Longrightarrow> x + buffer_size (?h x) \<le> ptr" for x
    using area_disjoint_below [OF blk] pos(1) by blast
  have above: "x \<in> set fs \<Longrightarrow> ptr < x \<Longrightarrow> ptr + buffer_size (?h ptr) \<le> x" for x
    using area_disjoint_below [of ?h ptr x] blk pos(2) by (metis inf_commute)
  have neq: "ptr \<notin> set fs" using blk pos by (force simp: block_def)
  show ?thesis
  proof (cases "ptr < f")
    case True
    then show ?thesis using returned_first [of s f fs1 ptr] c sep ptr above fc Cons
      by (auto simp: insert_free_def insert_first_def Let_def)
  next
    case False
    then have lt: "f < ptr" using neq Cons by auto
    obtain as p bs where sp: "fs = as @ p # bs" "find_spot fuel ?h f ptr = Some p" "p < ptr" "bs \<noteq> [] \<longrightarrow> ptr \<le> hd bs"
      using find_spot_split [of ?h f fs1 fuel ptr] c fuel lt Cons by (auto simp: chain_def)
    have hd: "bs \<noteq> [] \<longrightarrow> ptr < hd bs \<and> ptr + buffer_size (?h ptr) \<le> hd bs"
      using sp(1, 4) neq above by (cases bs) (auto simp: le_less)
    have c': "chain ?h f (as @ p # bs)" "separated ?h (as @ p # bs)" using c sep sp(1) fc by simp_all
    have "p + buffer_size (?h p) \<le> ptr" using below sp by simp
    then obtain fs' where "returned ptr ?h (as @ p # bs) (insert_after p ptr ?h) f fs'"
      using returned_after_low [OF c' sp(3) hd] returned_after_high [OF c' sp(3) hd] by (auto simp: le_less)
    then show ?thesis using sp lt fc by (auto simp: insert_free_def)
  qed
qed

section \<open>The allocator's invariant\<close>

text \<open>
  \<open>fs\<close> and \<open>al\<close> are the nodes of the two chains. Together their blocks tile the arena
  \<open>{base..<base + span}\<close>; every block has room for its header.
\<close>

definition shm_ok :: "nat \<Rightarrow> nat \<Rightarrow> shm \<Rightarrow> nat list \<Rightarrow> nat list \<Rightarrow> bool" where
  "shm_ok base span s fs al \<longleftrightarrow> (let h = shm_heap s in
     chain h (free_buf_chain s) fs \<and> chain h (allocced_buf_chain s) al \<and> set fs \<inter> set al = {} \<and> separated h fs
     \<and> (\<forall>x \<in> set fs \<union> set al. HEADER_SIZE \<le> buffer_size (h x))
     \<and> (\<forall>x \<in> set al. \<forall>y \<in> set al. x \<noteq> y \<longrightarrow> block h x \<inter> block h y = {})
     \<and> area h fs \<inter> area h al = {} \<and> area h fs \<union> area h al = {base..<base + span})"

lemma shm_okD:
  assumes "shm_ok base span s fs al"
  shows "chain (shm_heap s) (free_buf_chain s) fs" "chain (shm_heap s) (allocced_buf_chain s) al" "set fs \<inter> set al = {}"
    "separated (shm_heap s) fs" "\<And>x. x \<in> set fs \<union> set al \<Longrightarrow> HEADER_SIZE \<le> buffer_size (shm_heap s x)"
    "\<And>x y. x \<in> set al \<Longrightarrow> y \<in> set al \<Longrightarrow> x \<noteq> y \<Longrightarrow> block (shm_heap s) x \<inter> block (shm_heap s) y = {}"
    "area (shm_heap s) fs \<inter> area (shm_heap s) al = {}" "area (shm_heap s) fs \<union> area (shm_heap s) al = {base..<base + span}"
  using assms unfolding shm_ok_def Let_def by blast+

lemma init_ok:
  assumes "0 < base" "base + HEADER_SIZE \<le> ram_end" "allocced_buf_chain s = 0"
  shows "shm_ok base (ram_end - base) (shared_mem_init base ram_end s) [base] []"
  using assms by (auto simp: shm_ok_def shared_mem_init_def chain_def block_def)

lemma shm_ok_lengths:
  assumes "shm_ok base span s fs al"
  shows "length fs \<le> span" "length al \<le> span"
proof -
  have "x \<in> {base..<base + span}" if "x \<in> set fs \<union> set al" for x
  proof -
    have "x \<in> block (shm_heap s) x" using shm_okD(5) [OF assms that] by (simp add: block_def)
    then show ?thesis using that shm_okD(8) [OF assms] unfolding area_def by blast
  qed
  then have "set fs \<subseteq> {base..<base + span}" "set al \<subseteq> {base..<base + span}" by blast+
  then have "card (set fs) \<le> span" "card (set al) \<le> span"
    by (metis card_atLeastLessThan card_mono diff_add_inverse finite_atLeastLessThan)+
  then show "length fs \<le> span" "length al \<le> span"
    using shm_okD(1, 2) [OF assms] by (simp_all add: chain_def distinct_card)
qed

section \<open>Releasing keeps the invariant\<close>

lemma chain_has_iff:
  "next_ok h xs 0 \<Longrightarrow> 0 \<notin> set xs \<Longrightarrow> length xs < fuel \<Longrightarrow> chain_has fuel h (hd_or xs 0) ptr = Some (ptr \<in> set xs)"
proof (induction xs arbitrary: fuel)
  case Nil
  then show ?case by (cases fuel) auto
next
  case (Cons x xs)
  then show ?case by (cases fuel) auto
qed

lemma unlink_allocated_ok:
  assumes c: "chain (shm_heap s) (allocced_buf_chain s) (as @ ptr # bs)" and fuel: "length (as @ ptr # bs) \<le> fuel"
  shows "\<exists>s'. unlink_allocated fuel ptr s = Some (True, s') \<and> chain (shm_heap s') (allocced_buf_chain s') (as @ bs)
    \<and> (\<forall>x. buffer_size (shm_heap s' x) = buffer_size (shm_heap s x)) \<and> (\<forall>x. x \<notin> set (as @ bs) \<longrightarrow> shm_heap s' x = shm_heap s x)
    \<and> free_buf_chain s' = free_buf_chain s \<and> max_allocated_size s' = max_allocated_size s"
proof (cases as)
  case Nil
  then show ?thesis using unlink_first [of "shm_heap s" "allocced_buf_chain s" ptr bs] c
    by (intro exI) (auto simp: unlink_allocated_def Let_def)
next
  case (Cons a as')
  note u = unlink_inner [OF c]
  have ne: "as \<noteq> []" using Cons by simp
  have ac: "allocced_buf_chain s = a" and nx: "next_buffer (shm_heap s a) = hd_or (as' @ ptr # bs) 0"
    using c Cons by (auto simp: chain_def)
  have "chain_has fuel (shm_heap s) (hd_or (as' @ ptr # bs) 0) ptr = Some (ptr \<in> set (as' @ ptr # bs))"
    using c fuel Cons by (intro chain_has_iff) (auto simp: chain_def)
  then have "chain_has fuel (shm_heap s) (next_buffer (shm_heap s (allocced_buf_chain s))) ptr = Some True"
    unfolding ac nx by simp
  moreover have "ptr \<noteq> allocced_buf_chain s" "prev_buffer (shm_heap s ptr) \<noteq> ptr"
    using u(1, 2) [OF ne] c last_in_set [OF ne] by (auto simp: chain_def)
  moreover have "x \<notin> set as \<Longrightarrow> x \<noteq> last as" for x using last_in_set [OF ne] by blast
  ultimately show ?thesis using u [OF ne] ne
    by (intro exI) (auto simp: unlink_allocated_def Let_def)
qed

lemma release_ok:
  assumes ok: "shm_ok base span s fs al" and al: "al = as @ ptr # bs" and fuel: "length fs < fuel" "length al \<le> fuel"
  shows "\<exists>s' fs'. do_release fuel ptr s = Some s' \<and> shm_ok base span s' fs' (as @ bs)
    \<and> area (shm_heap s') fs' = area (shm_heap s) fs \<union> block (shm_heap s) ptr
    \<and> (\<forall>x \<in> set (as @ bs). buffer_size (shm_heap s' x) = buffer_size (shm_heap s x))"
proof -
  note d = shm_okD [OF ok]
  obtain s1 where s1: "unlink_allocated fuel ptr s = Some (True, s1)"
      "chain (shm_heap s1) (allocced_buf_chain s1) (as @ bs)" "\<forall>x. buffer_size (shm_heap s1 x) = buffer_size (shm_heap s x)"
      "\<forall>x. x \<notin> set (as @ bs) \<longrightarrow> shm_heap s1 x = shm_heap s x" "free_buf_chain s1 = free_buf_chain s"
    using unlink_allocated_ok [of s as ptr bs fuel] d(2) al fuel(2) by auto
  have blk1: "block (shm_heap s1) = block (shm_heap s)" using s1(3) by (simp add: block_def fun_eq_iff)
  have area1: "area (shm_heap s1) xs = area (shm_heap s) xs" for xs using s1(3) by (intro area_cong) simp
  have distinct: "ptr \<notin> set (as @ bs)" "ptr \<noteq> 0" using d(2) al by (auto simp: chain_def)
  have c1: "chain (shm_heap s1) (free_buf_chain s1) fs"
  proof -
    have "shm_heap s1 x = shm_heap s x" if "x \<in> set fs" for x using that d(3) s1(4) al by auto
    then show ?thesis using d(1) s1(5) chain_frame [of fs "shm_heap s1" "shm_heap s"] by simp
  qed
  have sep1: "separated (shm_heap s1) fs" using d(4) s1(3) separated_cong [of fs "shm_heap s1" "shm_heap s"] by simp
  have dis1: "area (shm_heap s1) fs \<inter> block (shm_heap s1) ptr = {}" using d(7) al unfolding area1 blk1 by auto
  have pos: "0 < buffer_size (shm_heap s1 x)" if "x \<in> set fs \<union> set al" for x
    using d(5) [OF that] s1(3) by (metis gr0I not_numeral_le_zero)
  have "0 < buffer_size (shm_heap s1 ptr)" "\<forall>x \<in> set fs. 0 < buffer_size (shm_heap s1 x)" using pos al by auto
  from insert_free_returned [OF c1 sep1 dis1 this distinct(2) fuel(1)] obtain s2 fs2
    where s2: "insert_free fuel ptr s1 = Some s2" "returned ptr (shm_heap s1) fs (shm_heap s2) (free_buf_chain s2) fs2"
      "allocced_buf_chain s2 = allocced_buf_chain s1" by blast
  note r = s2(2) [unfolded returned_def]
  have same: "shm_heap s2 x = shm_heap s1 x" if "x \<in> set (as @ bs)" for x
    using r that distinct d(3) al by auto
  have area2: "area (shm_heap s2) (as @ bs) = area (shm_heap s) (as @ bs)"
    using same s1(3) by (intro area_cong) auto
  have fs2: "area (shm_heap s2) fs2 = area (shm_heap s) fs \<union> block (shm_heap s) ptr" using r area1 blk1 by simp
  have others: "block (shm_heap s) ptr \<inter> area (shm_heap s) (as @ bs) = {}"
    using d(6) distinct al unfolding area_def by auto
  have "shm_ok base span s2 fs2 (as @ bs)" unfolding shm_ok_def Let_def
  proof (intro conjI)
    show "chain (shm_heap s2) (free_buf_chain s2) fs2" "separated (shm_heap s2) fs2" using r by blast+
    show "chain (shm_heap s2) (allocced_buf_chain s2) (as @ bs)"
      using s1(2) s2(3) same chain_frame [of "as @ bs" "shm_heap s2" "shm_heap s1"] by simp
    show "set fs2 \<inter> set (as @ bs) = {}" using r d(3) al distinct by auto
    show "\<forall>x \<in> set fs2 \<union> set (as @ bs). 12 \<le> buffer_size (shm_heap s2 x)"
    proof
      fix x assume x: "x \<in> set fs2 \<union> set (as @ bs)"
      then have "12 \<le> buffer_size (shm_heap s x)" using r d(5) al by auto
      then show "12 \<le> buffer_size (shm_heap s2 x)" using x r s1(3) same by (metis UnE order.trans)
    qed
    show "\<forall>x \<in> set (as @ bs). \<forall>y \<in> set (as @ bs). x \<noteq> y \<longrightarrow> block (shm_heap s2) x \<inter> block (shm_heap s2) y = {}"
      using d(6) same s1(3) al by (auto simp: block_def)
    show "area (shm_heap s2) fs2 \<inter> area (shm_heap s2) (as @ bs) = {}"
      using others d(7) al unfolding fs2 area2 by auto
    show "area (shm_heap s2) fs2 \<union> area (shm_heap s2) (as @ bs) = {base..<base + span}"
      using d(8) al unfolding fs2 area2 by auto
  qed
  then show ?thesis using s1(1, 3) s2(1) fs2 same by (intro exI [of _ s2] exI [of _ fs2]) (simp add: do_release_def)
qed

section \<open>Acquiring keeps the invariant\<close>

lemma best_fit_spec:
  "next_ok h xs 0 \<Longrightarrow> 0 \<notin> set xs \<Longrightarrow> length xs < fuel \<Longrightarrow>
   \<exists>hr c. best_fit fuel h n (hd_or xs 0) hr0 c0 = Some (hr, c) \<and> hr \<le> hr0
     \<and> ((hr = hr0 \<and> c = c0) \<or> (c \<in> set xs \<and> n < buffer_size (h c) \<and> hr = buffer_size (h c) - n))
     \<and> (\<forall>x \<in> set xs. n < buffer_size (h x) \<longrightarrow> hr \<le> buffer_size (h x) - n)"
proof (induction xs arbitrary: fuel hr0 c0)
  case Nil
  then show ?case by (cases fuel) auto
next
  case (Cons x xs)
  then obtain fuel' where fuel: "fuel = Suc fuel'" by (cases fuel) auto
  let ?t = "n < buffer_size (h x) \<and> buffer_size (h x) - n < hr0"
  let ?hr = "if ?t then buffer_size (h x) - n else hr0" and ?c = "if ?t then x else c0"
  have "best_fit fuel h n (hd_or (x # xs) 0) hr0 c0 = best_fit fuel' h n (hd_or xs 0) ?hr ?c"
    using Cons.prems fuel by simp
  moreover obtain hr c where "best_fit fuel' h n (hd_or xs 0) ?hr ?c = Some (hr, c)" "hr \<le> ?hr"
      "(hr = ?hr \<and> c = ?c) \<or> (c \<in> set xs \<and> n < buffer_size (h c) \<and> hr = buffer_size (h c) - n)"
      "\<forall>x \<in> set xs. n < buffer_size (h x) \<longrightarrow> hr \<le> buffer_size (h x) - n"
    using Cons.IH [of fuel' ?hr ?c] Cons.prems fuel by auto
  ultimately show ?case by (intro exI [of _ hr] exI [of _ c]) (auto split: if_splits)
qed

lemma take_whole_ok:
  assumes c: "chain (shm_heap s) (free_buf_chain s) (as @ c # bs)"
  shows "chain (shm_heap (take_whole c s)) (free_buf_chain (take_whole c s)) (as @ bs)"
    "buffer_size (shm_heap (take_whole c s) x) = buffer_size (shm_heap s x)"
    "x \<notin> set (as @ bs) \<Longrightarrow> shm_heap (take_whole c s) x = shm_heap s x"
    "allocced_buf_chain (take_whole c s) = allocced_buf_chain s"
proof -
  have "chain (shm_heap (take_whole c s)) (free_buf_chain (take_whole c s)) (as @ bs)
    \<and> buffer_size (shm_heap (take_whole c s) x) = buffer_size (shm_heap s x)
    \<and> (x \<notin> set (as @ bs) \<longrightarrow> shm_heap (take_whole c s) x = shm_heap s x)"
  proof (cases "as = []")
    case True
    then show ?thesis using unlink_first [of "shm_heap s" "free_buf_chain s" c bs] c
      by (auto simp: take_whole_def Let_def)
  next
    case False
    have "x \<notin> set as \<Longrightarrow> x \<noteq> last as" using last_in_set [OF False] by blast
    then show ?thesis using unlink_inner [OF c False] by (auto simp: take_whole_def Let_def)
  qed
  then show "chain (shm_heap (take_whole c s)) (free_buf_chain (take_whole c s)) (as @ bs)"
    "buffer_size (shm_heap (take_whole c s) x) = buffer_size (shm_heap s x)"
    "x \<notin> set (as @ bs) \<Longrightarrow> shm_heap (take_whole c s) x = shm_heap s x" by blast+
  show "allocced_buf_chain (take_whole c s) = allocced_buf_chain s" by (simp add: take_whole_def Let_def)
qed

lemma take_front_ok:
  assumes c: "chain (shm_heap s) (free_buf_chain s) (as @ c # bs)"
    and new: "c + n \<notin> set (as @ bs)" "0 < n"
  shows "chain (shm_heap (take_front c n hr s)) (free_buf_chain (take_front c n hr s)) (as @ (c + n) # bs)"
    "buffer_size (shm_heap (take_front c n hr s) x) = (if x = c then n else if x = c + n then hr else buffer_size (shm_heap s x))"
    "x \<notin> set (as @ c # (c + n) # bs) \<Longrightarrow> shm_heap (take_front c n hr s) x = shm_heap s x"
    "allocced_buf_chain (take_front c n hr s) = allocced_buf_chain s"
proof -
  let ?h = "set_size (c + n) hr (set_size c n (shm_heap s))"
  have ch: "chain ?h (free_buf_chain s) (as @ c # bs)" using c by (simp add: chain_def)
  have d: "c + n \<noteq> 0" "c + n \<noteq> c" using new by auto
  define h1 where "h1 = set_prev (c + n) (prev_buffer (?h c)) (set_next (c + n) (next_buffer (?h c)) ?h)"
  define h2 where "h2 = set_prev_if (next_buffer (?h c)) (c + n) h1"
  note r = replace_node [OF ch new(1) d h1_def h2_def]
  have fc: "c = free_buf_chain s \<longleftrightarrow> as = []" using c by (cases as) (auto simp: chain_def)
  have nb: "next_buffer (?h c) = hd_or bs 0" "as \<noteq> [] \<Longrightarrow> prev_buffer (?h c) = last as"
    using unlink_inner(2, 3) [OF ch] unlink_first(2) [of ?h "free_buf_chain s" c bs] ch by (cases as; auto)+
  have tf: "take_front c n hr s = (if as = [] then s\<lparr>free_buf_chain := c + n, shm_heap := h2\<rparr>
      else s\<lparr>shm_heap := set_next (prev_buffer (h2 (c + n))) (c + n) h2\<rparr>)"
    using fc d(2) by (simp add: take_front_def Let_def h2_def h1_def)
  show "chain (shm_heap (take_front c n hr s)) (free_buf_chain (take_front c n hr s)) (as @ (c + n) # bs)"
    using r unfolding tf by auto
  show "buffer_size (shm_heap (take_front c n hr s) x) = (if x = c then n else if x = c + n then hr else buffer_size (shm_heap s x))"
    using d(2) unfolding tf h2_def h1_def by auto
  show "shm_heap (take_front c n hr s) x = shm_heap s x" if x: "x \<notin> set (as @ c # (c + n) # bs)"
  proof -
    have "as \<noteq> [] \<Longrightarrow> x \<noteq> last as" using x last_in_set [of as] by auto
    moreover have "h2 x = shm_heap s x" using x nb(1) unfolding h2_def h1_def by auto
    moreover have "as \<noteq> [] \<Longrightarrow> prev_buffer (h2 (c + n)) = last as" using nb d new unfolding h2_def h1_def
      by (cases bs) auto
    ultimately show ?thesis unfolding tf by auto
  qed
  show "allocced_buf_chain (take_front c n hr s) = allocced_buf_chain s" by (simp add: take_front_def Let_def)
qed

text \<open>What taking \<open>c\<close> from the free chain \<open>fs\<close> must achieve, the allocated nodes \<open>A\<close> being untouched.\<close>

definition taken :: "nat \<Rightarrow> nat set \<Rightarrow> heap \<Rightarrow> nat list \<Rightarrow> heap \<Rightarrow> nat \<Rightarrow> nat list \<Rightarrow> bool" where
  "taken c A h fs h1 p1 fs1 \<longleftrightarrow> chain h1 p1 fs1 \<and> separated h1 fs1 \<and> c \<notin> set fs1 \<and> set fs1 \<inter> A = {}
     \<and> area h1 fs1 \<union> block h1 c = area h fs \<and> area h1 fs1 \<inter> block h1 c = {}
     \<and> (\<forall>x \<in> insert c (set fs1). HEADER_SIZE \<le> buffer_size (h1 x)) \<and> (\<forall>x \<in> A. h1 x = h x)"

lemma separated_area_disjoint:
  assumes "separated h (as @ c # bs)"
  shows "block h c \<inter> area h (as @ bs) = {}"
proof -
  have "block h c \<inter> block h b = {}" if "b \<in> set bs" for b
  proof -
    have s: "separated h (c # bs)" using assms by (simp add: separated_append)
    then have "c + buffer_size (h c) \<le> b"
      using that by (cases bs) (auto dest: separated_less)
    then show ?thesis by (auto simp: block_def)
  qed
  moreover have "block h c \<inter> block h a = {}" if a: "a \<in> set as" for a
  proof -
    obtain ys zs where "as = ys @ a # zs" using split_list [OF a] by blast
    then have s: "separated h (a # zs @ c # bs)" using assms by (simp add: separated_append)
    have "a + buffer_size (h a) \<le> c" using s by (cases zs) (auto dest: separated_less)
    then show ?thesis by (auto simp: block_def)
  qed
  ultimately show ?thesis unfolding area_def by auto
qed

lemma separated_remove: "separated h (as @ c # bs) \<Longrightarrow> separated h (as @ bs)"
proof (cases bs)
  case (Cons b bs')
  assume sep: "separated h (as @ c # bs)"
  then show ?thesis using Cons by (auto simp: separated_append)
qed (simp add: separated_append)

lemma whole_taken:
  assumes ok: "shm_ok base span s (as @ c # bs) al"
  shows "taken c (set al) (shm_heap s) (as @ c # bs) (shm_heap (take_whole c s)) (free_buf_chain (take_whole c s)) (as @ bs)"
proof -
  note d = shm_okD [OF ok] and t = take_whole_ok [OF shm_okD(1) [OF ok]]
  have area: "area (shm_heap (take_whole c s)) xs = area (shm_heap s) xs"
    and sep: "separated (shm_heap (take_whole c s)) xs = separated (shm_heap s) xs"
    and blk: "block (shm_heap (take_whole c s)) x = block (shm_heap s) x" for xs x
    using t(2) by (auto intro!: area_cong separated_cong simp: block_def)
  have al: "\<forall>x \<in> set al. shm_heap (take_whole c s) x = shm_heap s x"
  proof
    fix x assume "x \<in> set al"
    then have "x \<notin> set (as @ bs)" using d(3) by auto
    then show "shm_heap (take_whole c s) x = shm_heap s x" by (rule t(3))
  qed
  show ?thesis unfolding taken_def area sep blk
    using t(1, 2) al d(1, 3, 4, 5) separated_remove [OF d(4)] separated_area_disjoint [OF d(4)]
    by (auto simp: chain_def)
qed

lemma front_taken:
  assumes ok: "shm_ok base span s (as @ c # bs) al" and n: "12 \<le> n" "n + 12 < buffer_size (shm_heap s c)"
  shows "taken c (set al) (shm_heap s) (as @ c # bs)
    (shm_heap (take_front c n (buffer_size (shm_heap s c) - n) s))
    (free_buf_chain (take_front c n (buffer_size (shm_heap s c) - n) s)) (as @ (c + n) # bs)"
proof -
  note d = shm_okD [OF ok]
  let ?h = "shm_heap s" and ?hr = "buffer_size (shm_heap s c) - n"
  let ?h1 = "shm_heap (take_front c n ?hr s)"
  have inc: "c + n \<in> block ?h c" using n by (simp add: block_def)
  have own: "x \<in> block ?h x" if "x \<in> set (as @ bs) \<union> set al" for x using d(5) [of x] that by (auto simp: block_def)
  have "c + n \<notin> area ?h (as @ bs)" using inc separated_area_disjoint [OF d(4)] by blast
  then have new: "c + n \<notin> set (as @ bs)" using own unfolding area_def by blast
  have "c + n \<notin> area ?h al" using inc d(7) by auto
  then have newal: "c + n \<notin> set al" using own unfolding area_def by blast
  have pos: "0 < n" using n by simp
  note t = take_front_ok [OF d(1) new pos, where hr = ?hr]
  have notin: "c \<notin> set (as @ bs)" "c \<noteq> c + n" using d(1) pos by (auto simp: chain_def)
  have area: "area ?h1 (as @ bs) = area ?h (as @ bs)" using notin new t(2) by (intro area_cong) auto
  have blk: "block ?h1 c \<union> block ?h1 (c + n) = block ?h c" "block ?h1 c \<inter> block ?h1 (c + n) = {}"
    using n t(2) by (auto simp: block_def)
  have "separated ?h1 (as @ (c + n) # bs)"
  proof -
    have "separated ?h1 as = separated ?h as" "separated ?h1 bs = separated ?h bs"
      using notin new t(2) by (auto intro!: separated_cong)
    moreover have "buffer_size (?h1 (last as)) = buffer_size (?h (last as))" if "as \<noteq> []"
      using t(2) [of "last as"] notin new last_in_set [OF that] by auto
    ultimately show ?thesis using d(4) n t(2) [of "c + n"] notin
      by (cases bs) (auto simp: separated_append)
  qed
  moreover have "\<forall>x \<in> insert c (set (as @ (c + n) # bs)). 12 \<le> buffer_size (?h1 x)"
    using d(5) t(2) n by auto
  moreover have "\<forall>x \<in> set al. ?h1 x = ?h x"
  proof
    fix x assume "x \<in> set al"
    then have "x \<notin> set (as @ c # (c + n) # bs)" using d(3) newal by auto
    then show "?h1 x = ?h x" by (rule t(3))
  qed
  moreover have "area ?h1 (as @ (c + n) # bs) \<inter> block ?h1 c = {}"
    using area blk separated_area_disjoint [OF d(4)] by auto
  ultimately show ?thesis unfolding taken_def using t(1) notin newal d(3) area blk by auto
qed

lemma push_taken:
  assumes ok: "shm_ok base span s fs al" and c: "c \<in> set fs"
    and tk: "taken c (set al) (shm_heap s) fs (shm_heap s1) (free_buf_chain s1) fs1"
    and ac: "allocced_buf_chain s1 = allocced_buf_chain s"
    and s2: "s2 = s1\<lparr>shm_heap := set_prev_if (allocced_buf_chain s1) c
       (set_prev c 0 (set_next c (allocced_buf_chain s1) (shm_heap s1))), allocced_buf_chain := c, max_allocated_size := m\<rparr>"
  shows "shm_ok base span s2 fs1 (c # al)"
    and "buffer_size (shm_heap s2 x) = buffer_size (shm_heap s1 x)"
proof -
  note d = shm_okD [OF ok] and t = tk [unfolded taken_def]
  have c0: "c \<noteq> 0" "c \<notin> set al" using d(1, 3) c by (auto simp: chain_def)
  have ac1: "chain (shm_heap s1) (allocced_buf_chain s1) al"
    using d(2) t ac chain_frame [of al "shm_heap s1" "shm_heap s"] by simp
  have ac_al: "allocced_buf_chain s1 \<in> set al \<or> allocced_buf_chain s1 = 0" using ac1 by (cases al) (auto simp: chain_def)
  show sz: "buffer_size (shm_heap s2 x) = buffer_size (shm_heap s1 x)" for x unfolding s2 by simp
  have area: "area (shm_heap s2) xs = area (shm_heap s1) xs" and sep: "separated (shm_heap s2) xs = separated (shm_heap s1) xs"
    and blk: "block (shm_heap s2) x = block (shm_heap s1) x" for xs x
    using sz by (auto intro!: area_cong separated_cong simp: block_def)
  have al: "area (shm_heap s1) al = area (shm_heap s) al" using t by (intro area_cong) auto
  have blk1: "x \<in> set al \<Longrightarrow> block (shm_heap s1) x = block (shm_heap s) x" for x using t by (simp add: block_def)
  have cal: "block (shm_heap s1) c \<inter> area (shm_heap s) al = {}" using t d(7) by blast
  show "shm_ok base span s2 fs1 (c # al)" unfolding shm_ok_def Let_def
  proof (intro conjI)
    have "shm_heap s2 x = shm_heap s1 x" if x: "x \<in> set fs1" for x
    proof -
      have "x \<noteq> c" "x \<noteq> allocced_buf_chain s1 \<or> allocced_buf_chain s1 = 0" using x t ac_al by auto
      then show ?thesis unfolding s2 by (auto simp: set_prev_if_def)
    qed
    then show "chain (shm_heap s2) (free_buf_chain s2) fs1"
      using t chain_frame [of fs1 "shm_heap s2" "shm_heap s1"] s2 by simp
    show "chain (shm_heap s2) (allocced_buf_chain s2) (c # al)" using push_chain [OF ac1 c0(2, 1)] unfolding s2 by simp
    show "set fs1 \<inter> set (c # al) = {}" using t by auto
    show "separated (shm_heap s2) fs1" using t sep by blast
    show "\<forall>x \<in> set fs1 \<union> set (c # al). 12 \<le> buffer_size (shm_heap s2 x)" using t d(5) sz by auto
    show "\<forall>x \<in> set (c # al). \<forall>y \<in> set (c # al). x \<noteq> y \<longrightarrow> block (shm_heap s2) x \<inter> block (shm_heap s2) y = {}"
      using d(6) cal blk1 unfolding blk area_def by auto
    show "area (shm_heap s2) fs1 \<inter> area (shm_heap s2) (c # al) = {}" using t d(7) al unfolding area by auto
    show "area (shm_heap s2) fs1 \<union> area (shm_heap s2) (c # al) = {base..<base + span}" using t d(8) al unfolding area by auto
  qed
qed

lemma unat_align: "unat (w AND NOT 3 :: u32) = 4 * (unat w div 4)"
proof -
  have three: "(3 :: u32) = mask 2" by (simp add: mask_eq_exp_minus_1)
  have up: "2 \<le> n \<Longrightarrow> Suc (Suc (n - 2)) = n" for n :: nat by arith
  have "w AND NOT 3 = push_bit 2 (drop_bit 2 w)" unfolding three
    by (rule bit_word_eqI)
      (auto simp: bit_and_iff bit_not_iff bit_mask_iff bit_push_bit_iff bit_drop_bit_eq not_less up)
  moreover have "unat (push_bit 2 (drop_bit 2 w)) = 4 * (unat w div 4)"
  proof -
    have d: "unat (drop_bit 2 w) = unat w div 4" using take_bit_nat_eq_self [of "unat w" 32] unsigned_less [of w, where ?'a = nat]
      by (subst unsigned_drop_bit_eq) (simp add: drop_bit_eq_div)
    have "4 * (unat w div 4) \<le> unat w" by simp
    also have "\<dots> < 2 ^ 32" using unsigned_less [of w, where ?'a = nat] by simp
    finally have small: "unat (4 :: u32) * unat (drop_bit 2 w) < 2 ^ 32" using d by simp
    show ?thesis using unat_mult_small [OF small] d by (simp add: push_bit_eq_mult mult.commute)
  qed
  ultimately show ?thesis by simp
qed

lemma padded_size_eq:
  assumes "unat sz < 2 ^ 31"
  shows "padded_size sz = 4 * ((unat sz + 3) div 4) + 12"
proof -
  have "unat (sz + 3) = unat sz + 3" using assms by (subst unat_add_small) auto
  then have a: "unat ((sz + 3) AND NOT 3) = 4 * ((unat sz + 3) div 4)" by (simp only: unat_align)
  moreover have "4 * ((unat sz + 3) div 4) \<le> unat sz + 3" by simp
  ultimately show ?thesis using assms unfolding padded_size_def by (subst unat_add_small) auto
qed

lemma padded_size_bounds: "unat sz < 2 ^ 31 \<Longrightarrow> unat sz + 12 \<le> padded_size sz \<and> padded_size sz \<le> unat sz + 15"
  by (simp add: padded_size_eq) linarith

text \<open>What an acquire of \<open>n\<close> bytes, header included, does to a state that satisfies the invariant.\<close>

lemma acquire_ok:
  assumes ok: "shm_ok base span s fs al" and fuel: "length fs < fuel" and sz: "unat sz < 2 ^ 31"
  shows "(\<exists>c s' fs'. shared_mem_acquire False fuel sz s = Some (Inr (c + HEADER_SIZE, s')) \<and> shm_ok base span s' fs' (c # al)
       \<and> c \<in> set fs \<and> padded_size sz < buffer_size (shm_heap s c) \<and> padded_size sz \<le> buffer_size (shm_heap s' c)
       \<and> block (shm_heap s') c \<subseteq> area (shm_heap s) fs
       \<and> (\<forall>x \<in> set fs. padded_size sz < buffer_size (shm_heap s x) \<longrightarrow> buffer_size (shm_heap s c) \<le> buffer_size (shm_heap s x))
       \<and> (\<forall>x \<in> set al. buffer_size (shm_heap s' x) = buffer_size (shm_heap s x)))
    \<or> (shared_mem_acquire False fuel sz s = Some (Inl SHM_ERROR_BUSY)
       \<and> (\<forall>x \<in> set fs. padded_size sz < buffer_size (shm_heap s x) \<longrightarrow> 0x10000000 \<le> buffer_size (shm_heap s x) - padded_size sz))"
proof -
  note d = shm_okD [OF ok]
  let ?n = "padded_size sz" and ?h = "shm_heap s"
  have n: "12 \<le> ?n" using padded_size_bounds [OF sz] by simp
  have fc: "free_buf_chain s = hd_or fs 0" "next_ok ?h fs 0" "0 \<notin> set fs" using d(1) by (auto simp: chain_def)
  obtain hr c where b: "best_fit fuel ?h ?n (hd_or fs 0) 0x10000000 0 = Some (hr, c)" "hr \<le> 0x10000000"
      "(hr = 0x10000000 \<and> c = 0) \<or> (c \<in> set fs \<and> ?n < buffer_size (?h c) \<and> hr = buffer_size (?h c) - ?n)"
      "\<forall>x \<in> set fs. ?n < buffer_size (?h x) \<longrightarrow> hr \<le> buffer_size (?h x) - ?n"
    using best_fit_spec [OF fc(2, 3) fuel] by blast
  show ?thesis
  proof (cases "c = 0")
    case True
    then have "hr = 0x10000000" using b(3) fc(3) by auto
    then show ?thesis using True b fc(1) by (auto simp: shared_mem_acquire_def do_acquire_def)
  next
    case False
    then have c: "c \<in> set fs" "?n < buffer_size (?h c)" "hr = buffer_size (?h c) - ?n" using b(3) by auto
    obtain as bs where fs: "fs = as @ c # bs" using split_list [OF c(1)] by blast
    define s1 where "s1 = (if hr \<le> 12 then take_whole c s else take_front c ?n hr s)"
    have ac: "allocced_buf_chain s1 = allocced_buf_chain s"
      by (simp add: s1_def take_whole_def take_front_def Let_def)
    have "\<exists>fs1. taken c (set al) ?h fs (shm_heap s1) (free_buf_chain s1) fs1 \<and> ?n \<le> buffer_size (shm_heap s1 c)"
    proof (cases "hr \<le> 12")
      case True
      then show ?thesis using whole_taken [of base span s as c bs al] take_whole_ok(2) [of s as c bs c] ok d(1) fs c(2)
        by (auto simp: s1_def)
    next
      case False
      then have "?n + 12 < buffer_size (?h c)" using c(3) by simp
      then show ?thesis using front_taken [of base span s as c bs al, OF _ n] ok fs False c(3) n
        by (auto simp: s1_def take_front_def Let_def)
    qed
    then obtain fs1 where tk: "taken c (set al) ?h fs (shm_heap s1) (free_buf_chain s1) fs1"
      "?n \<le> buffer_size (shm_heap s1 c)" by blast
    define s2 where "s2 = s1\<lparr>shm_heap := set_prev_if (allocced_buf_chain s1) c
       (set_prev c 0 (set_next c (allocced_buf_chain s1) (shm_heap s1))), allocced_buf_chain := c,
       max_allocated_size := max (sint sz) (max_allocated_size s1)\<rparr>"
    note p = push_taken [OF ok c(1) tk(1) ac s2_def]
    have "shared_mem_acquire False fuel sz s = Some (Inr (c + 12, s2))"
      using b(1) fc(1) False c(1) fc(3) fs
      by (cases as) (auto simp: shared_mem_acquire_def do_acquire_def Let_def s2_def s1_def)
    moreover have "block (shm_heap s2) c \<subseteq> area ?h fs" using tk(1) p(2) by (auto simp: taken_def block_def)
    moreover have "\<forall>x \<in> set al. buffer_size (shm_heap s2 x) = buffer_size (?h x)" using tk(1) p(2) by (simp add: taken_def)
    moreover have "buffer_size (?h c) \<le> buffer_size (?h x)" if "x \<in> set fs" "?n < buffer_size (?h x)" for x
      using that b(4) c(2, 3) by fastforce
    ultimately show ?thesis using p c tk(2) by auto
  qed
qed

section \<open>The interface of an allocator\<close>

text \<open>
  What a client of shared memory relies on. \<open>live\<close> is the set of buffers handed out and not
  returned, \<open>owned\<close> the addresses that belong to a buffer.
\<close>

locale allocator =
  fixes inv :: "'s \<Rightarrow> bool"
    and live :: "'s \<Rightarrow> nat set"
    and owned :: "'s \<Rightarrow> nat \<Rightarrow> nat set"
    and arena :: "nat set"
    and alloc :: "nat \<Rightarrow> 's \<Rightarrow> (nat \<times> 's) option"
    and release :: "nat \<Rightarrow> 's \<Rightarrow> 's"
    and size_ok :: "nat \<Rightarrow> bool"
  assumes owned_disjoint: "inv s \<Longrightarrow> x \<in> live s \<Longrightarrow> y \<in> live s \<Longrightarrow> x \<noteq> y \<Longrightarrow> owned s x \<inter> owned s y = {}"
    and owned_arena: "inv s \<Longrightarrow> x \<in> live s \<Longrightarrow> owned s x \<subseteq> arena"
    and alloc_inv: "inv s \<Longrightarrow> size_ok n \<Longrightarrow> alloc n s = Some (b, s') \<Longrightarrow> inv s' \<and> live s' = insert b (live s) \<and> b \<notin> live s"
    and alloc_frame: "inv s \<Longrightarrow> size_ok n \<Longrightarrow> alloc n s = Some (b, s') \<Longrightarrow> x \<in> live s \<Longrightarrow> owned s' x = owned s x"
    and alloc_room: "inv s \<Longrightarrow> size_ok n \<Longrightarrow> alloc n s = Some (b, s') \<Longrightarrow> n \<le> card (owned s' b)"
    and release_inv: "inv s \<Longrightarrow> b \<in> live s \<Longrightarrow> inv (release b s) \<and> live (release b s) = live s - {b}"
    and release_frame: "inv s \<Longrightarrow> b \<in> live s \<Longrightarrow> x \<in> live s \<Longrightarrow> x \<noteq> b \<Longrightarrow> owned (release b s) x = owned s x"
begin

text \<open>A client's step: a request, or the return of a live buffer. Failed requests change nothing.\<close>

inductive client_step :: "'s \<Rightarrow> nat set \<Rightarrow> 's \<Rightarrow> bool" where
  acquire: "size_ok n \<Longrightarrow> alloc n s = Some (b, s') \<Longrightarrow> client_step s {} s'"
| refuse: "size_ok n \<Longrightarrow> alloc n s = None \<Longrightarrow> client_step s {} s"
| give_back: "b \<in> live s \<Longrightarrow> client_step s {b} (release b s)"

text \<open>A run of the clients; the set collects the buffers returned in it.\<close>

inductive client_run :: "'s \<Rightarrow> nat set \<Rightarrow> 's \<Rightarrow> bool" where
  idle: "client_run s {} s"
| more: "client_run s R t \<Longrightarrow> client_step t Q u \<Longrightarrow> client_run s (R \<union> Q) u"

lemma client_step_inv:
  assumes "client_step s Q t" "inv s"
  shows "inv t" "x \<in> live s \<Longrightarrow> x \<notin> Q \<Longrightarrow> x \<in> live t \<and> owned t x = owned s x"
  using assms alloc_inv alloc_frame release_inv release_frame by (auto elim!: client_step.cases)

lemma client_run_keeps:
  assumes "client_run s R t" "inv s"
  shows "inv t \<and> (\<forall>x \<in> live s - R. x \<in> live t \<and> owned t x = owned s x)"
  using assms
proof (induction rule: client_run.induct)
  case (more s R t Q u)
  then show ?case using client_step_inv [OF more.hyps(2)] by auto
qed simp

end

section \<open>The shared-memory allocator implements the interface\<close>

definition shm_inv :: "nat \<Rightarrow> nat \<Rightarrow> shm \<Rightarrow> bool" where
  "shm_inv base span s \<longleftrightarrow> (\<exists>fs al. shm_ok base span s fs al)"

definition shm_live :: "shm \<Rightarrow> nat set" where
  "shm_live s = {x. \<exists>al. chain (shm_heap s) (allocced_buf_chain s) al \<and> x \<in> set al}"

text \<open>The usable bytes of a buffer: its block without the header.\<close>

definition shm_owned :: "shm \<Rightarrow> nat \<Rightarrow> nat set" where
  "shm_owned s x = {x + HEADER_SIZE..<x + buffer_size (shm_heap s x)}"

text \<open>A chain through the arena has at most one node per byte, so this bound is always enough.\<close>

definition shm_alloc :: "nat \<Rightarrow> nat \<Rightarrow> shm \<Rightarrow> (nat \<times> shm) option" where
  "shm_alloc span n s =
     (case shared_mem_acquire False (Suc span) (word_of_nat n) s of
        Some (Inr (p, s')) \<Rightarrow> Some (p - HEADER_SIZE, s')
      | _ \<Rightarrow> None)"

definition shm_free :: "nat \<Rightarrow> nat \<Rightarrow> shm \<Rightarrow> shm" where
  "shm_free span b s =
     (case shared_mem_release False (Suc span) (b + HEADER_SIZE) s of Some s' \<Rightarrow> s' | None \<Rightarrow> s)"

lemma chain_unique: "chain h p xs \<Longrightarrow> chain h p ys \<Longrightarrow> xs = ys"
proof -
  have "next_ok h xs 0 \<Longrightarrow> next_ok h ys 0 \<Longrightarrow> 0 \<notin> set xs \<Longrightarrow> 0 \<notin> set ys \<Longrightarrow> hd_or xs 0 = hd_or ys 0 \<Longrightarrow> xs = ys"
  proof (induction xs arbitrary: ys)
    case Nil
    then show ?case by (cases ys) auto
  next
    case (Cons x xs)
    then show ?case by (cases ys) auto
  qed
  then show "chain h p xs \<Longrightarrow> chain h p ys \<Longrightarrow> xs = ys" by (auto simp: chain_def)
qed

lemma shm_live_eq:
  assumes "shm_ok base span s fs al"
  shows "shm_live s = set al"
  using chain_unique [OF shm_okD(2) [OF assms]] shm_okD(2) [OF assms] unfolding shm_live_def by blast

lemma shm_alloc_ok:
  assumes ok: "shm_ok base span s fs al" and n: "n < 2 ^ 31" and r: "shm_alloc span n s = Some (b, s')"
  shows "\<exists>fs'. shm_ok base span s' fs' (b # al) \<and> n + HEADER_SIZE \<le> buffer_size (shm_heap s' b)
    \<and> (\<forall>x \<in> set al. buffer_size (shm_heap s' x) = buffer_size (shm_heap s x))"
proof -
  have w: "unat (word_of_nat n :: u32) = n" using n by (simp add: unsigned_of_nat take_bit_nat_eq_self)
  have "length fs < Suc span" using shm_ok_lengths(1) [OF ok] by simp
  from acquire_ok [OF ok this, of "word_of_nat n"] w n r padded_size_bounds [of "word_of_nat n"] show ?thesis
    by (fastforce simp: shm_alloc_def)
qed

lemma shm_free_ok:
  assumes ok: "shm_ok base span s fs al" and b: "b \<in> set al"
  shows "\<exists>fs'. shm_ok base span (shm_free span b s) fs' (remove1 b al)
    \<and> (\<forall>x \<in> set al - {b}. buffer_size (shm_heap (shm_free span b s) x) = buffer_size (shm_heap s x))"
proof -
  obtain as bs where al: "al = as @ b # bs" using split_list [OF b] by blast
  have d: "b \<notin> set as" "b \<notin> set bs" using shm_okD(2) [OF ok] al by (auto simp: chain_def)
  have "length fs < Suc span" "length al \<le> Suc span" using shm_ok_lengths [OF ok] by auto
  from release_ok [OF ok al this] show ?thesis
    using d by (auto simp: shm_free_def shared_mem_release_def al remove1_append)
qed

lemma shm_ok_owned:
  assumes "shm_ok base span s fs al" "x \<in> set al"
  shows "shm_owned s x \<subseteq> block (shm_heap s) x" "shm_owned s x \<subseteq> {base..<base + span}"
proof -
  show s: "shm_owned s x \<subseteq> block (shm_heap s) x" by (auto simp: shm_owned_def block_def)
  have "block (shm_heap s) x \<subseteq> area (shm_heap s) al" using assms(2) by (auto simp: area_def)
  then show "shm_owned s x \<subseteq> {base..<base + span}" using s shm_okD(8) [OF assms(1)] by blast
qed

lemma shm_allocator:
  "allocator (shm_inv base span) shm_live shm_owned {base..<base + span} (shm_alloc span) (shm_free span) (\<lambda>n. n < 2 ^ 31)"
proof
  fix s x y
  assume "shm_inv base span s" and x: "x \<in> shm_live s" and y: "y \<in> shm_live s" "x \<noteq> y"
  then obtain fs al where ok: "shm_ok base span s fs al" by (auto simp: shm_inv_def)
  then have "x \<in> set al" "y \<in> set al" using x y shm_live_eq by auto
  then show "shm_owned s x \<inter> shm_owned s y = {}"
    using shm_okD(6) [OF ok] shm_ok_owned(1) [OF ok] y(2) by blast
next
  fix s x assume "shm_inv base span s" "x \<in> shm_live s"
  then show "shm_owned s x \<subseteq> {base..<base + span}"
    using shm_ok_owned(2) shm_live_eq unfolding shm_inv_def by blast
next
  fix s n b s' assume i: "shm_inv base span s" "n < 2 ^ 31" "shm_alloc span n s = Some (b, s')"
  then obtain fs al where ok: "shm_ok base span s fs al" by (auto simp: shm_inv_def)
  from shm_alloc_ok [OF ok i(2, 3)] obtain fs' where ok': "shm_ok base span s' fs' (b # al)"
      "n + HEADER_SIZE \<le> buffer_size (shm_heap s' b)"
      "\<forall>x \<in> set al. buffer_size (shm_heap s' x) = buffer_size (shm_heap s x)" by blast
  have live: "shm_live s = set al" "shm_live s' = insert b (set al)" "b \<notin> set al"
    using shm_live_eq [OF ok] shm_live_eq [OF ok'(1)] shm_okD(2) [OF ok'(1)] by (auto simp: chain_def)
  show "shm_inv base span s' \<and> shm_live s' = insert b (shm_live s) \<and> b \<notin> shm_live s"
    using ok' live by (auto simp: shm_inv_def)
  show "shm_owned s' x = shm_owned s x" if "x \<in> shm_live s" for x using that ok'(3) live by (simp add: shm_owned_def)
  show "n \<le> card (shm_owned s' b)" using ok'(2) by (simp add: shm_owned_def)
next
  fix s b assume i: "shm_inv base span s" "b \<in> shm_live s"
  then obtain fs al where ok: "shm_ok base span s fs al" by (auto simp: shm_inv_def)
  then have b: "b \<in> set al" using i(2) shm_live_eq by auto
  from shm_free_ok [OF ok b] obtain fs' where ok': "shm_ok base span (shm_free span b s) fs' (remove1 b al)"
      "\<forall>x \<in> set al - {b}. buffer_size (shm_heap (shm_free span b s) x) = buffer_size (shm_heap s x)" by blast
  have "distinct al" using shm_okD(2) [OF ok] by (simp add: chain_def)
  then have live: "shm_live s = set al" "shm_live (shm_free span b s) = set al - {b}"
    using shm_live_eq [OF ok] shm_live_eq [OF ok'(1)] by auto
  show "shm_inv base span (shm_free span b s) \<and> shm_live (shm_free span b s) = shm_live s - {b}"
    using ok' live by (auto simp: shm_inv_def)
  show "shm_owned (shm_free span b s) x = shm_owned s x" if "x \<in> shm_live s" "x \<noteq> b" for x
    using that ok'(2) live by (simp add: shm_owned_def)
qed

interpretation shared: allocator "shm_inv base span" shm_live shm_owned "{base..<base + span}" "shm_alloc span"
  "shm_free span" "\<lambda>n. n < 2 ^ 31" for base span
  by (rule shm_allocator)

section \<open>The allocator's properties\<close>

text \<open>
  \<open>shared_mem_acquire\<close> on any state that satisfies the invariant either returns a buffer
  cut from free memory, large enough, from the smallest free buffer that is large enough, and
  leaves all other buffers alone; or fails as busy because no free buffer is large enough (or
  is too much larger). Its search needs no more steps than there are free buffers.
\<close>

theorem acquire_correct:
  assumes "shm_ok base span s fs al" "length fs < fuel" "unat sz < 2 ^ 31"
  shows "(\<exists>c s' fs'. shared_mem_acquire False fuel sz s = Some (Inr (c + HEADER_SIZE, s')) \<and> shm_ok base span s' fs' (c # al)
       \<and> c \<in> set fs \<and> unat sz + HEADER_SIZE \<le> buffer_size (shm_heap s' c) \<and> block (shm_heap s') c \<subseteq> area (shm_heap s) fs
       \<and> (\<forall>x \<in> set fs. padded_size sz < buffer_size (shm_heap s x) \<longrightarrow> buffer_size (shm_heap s c) \<le> buffer_size (shm_heap s x))
       \<and> (\<forall>x \<in> set al. buffer_size (shm_heap s' x) = buffer_size (shm_heap s x)))
    \<or> (shared_mem_acquire False fuel sz s = Some (Inl SHM_ERROR_BUSY)
       \<and> (\<forall>x \<in> set fs. padded_size sz < buffer_size (shm_heap s x) \<longrightarrow> 0x10000000 \<le> buffer_size (shm_heap s x) - padded_size sz))"
proof -
  have "unat sz + HEADER_SIZE \<le> padded_size sz" using padded_size_bounds [OF assms(3)] by simp
  then show ?thesis using acquire_ok [OF assms] by (meson order.trans)
qed

text \<open>
  \<open>shared_mem_release\<close> of a live buffer returns, keeps the invariant (in particular that
  no two free buffers touch: neighbours have been merged), gives exactly the buffer's bytes
  back to the free memory and leaves the other live buffers alone.
\<close>

theorem release_correct:
  assumes "shm_ok base span s fs al" "b \<in> set al" "length fs < fuel" "length al \<le> fuel"
  shows "\<exists>s' fs'. shared_mem_release False fuel (b + HEADER_SIZE) s = Some s' \<and> shm_ok base span s' fs' (remove1 b al)
     \<and> area (shm_heap s') fs' = area (shm_heap s) fs \<union> block (shm_heap s) b
     \<and> (\<forall>x \<in> set al - {b}. buffer_size (shm_heap s' x) = buffer_size (shm_heap s x))"
proof -
  obtain as bs where al: "al = as @ b # bs" using split_list [OF assms(2)] by blast
  have "b \<notin> set as" "b \<notin> set bs" using shm_okD(2) [OF assms(1)] al by (auto simp: chain_def)
  then show ?thesis using release_ok [OF assms(1) al assms(3, 4)]
    by (auto simp: shared_mem_release_def al remove1_append)
qed

text \<open>
  C10. In every run of the allocator's clients, a buffer keeps its bytes until it is returned, all
  of them lie inside the managed area, and no other buffer handed out meanwhile overlaps them.
\<close>

theorem live_buffers_never_overlap:
  assumes "shm_inv base span s" "shared.client_run span s R t" "x \<in> shm_live s" "x \<notin> R" "y \<in> shm_live t" "y \<noteq> x"
  shows "x \<in> shm_live t \<and> shm_owned t x = shm_owned s x \<and> shm_owned t y \<inter> shm_owned s x = {}
     \<and> shm_owned t x \<subseteq> {base..<base + span} \<and> shm_owned t y \<subseteq> {base..<base + span}"
proof -
  have r: "shm_inv base span t" "x \<in> shm_live t" "shm_owned t x = shm_owned s x"
    using shared.client_run_keeps [OF assms(2, 1)] assms(3, 4) by auto
  then show ?thesis using shared.owned_disjoint [OF r(1) assms(5) r(2) assms(6)] shared.owned_arena [OF r(1,2)]
      shared.owned_arena [OF r(1) assms(5)] by simp
qed

lemma chain_total_sum:
  "next_ok h xs 0 \<Longrightarrow> 0 \<notin> set xs \<Longrightarrow> length xs < fuel \<Longrightarrow>
   chain_total fuel h (hd_or xs 0) = Some (sum_list (map (\<lambda>x. buffer_size (h x)) xs))"
proof (induction xs arbitrary: fuel)
  case Nil
  then show ?case by (cases fuel) auto
next
  case (Cons x xs)
  then show ?case by (cases fuel) auto
qed

lemma max_available_bound:
  "next_ok h xs 0 \<Longrightarrow> 0 \<notin> set xs \<Longrightarrow> length xs < fuel \<Longrightarrow>
   \<exists>m. max_available fuel h (hd_or xs 0) m0 = Some m \<and> m0 \<le> m \<and> (\<forall>x \<in> set xs. buffer_size (h x) \<le> m)
     \<and> (m = m0 \<or> (\<exists>x \<in> set xs. m = buffer_size (h x)))"
proof (induction xs arbitrary: fuel m0)
  case Nil
  then show ?case by (cases fuel) auto
next
  case (Cons x xs)
  then obtain fuel' where fuel: "fuel = Suc fuel'" by (cases fuel) auto
  show ?case using Cons.IH [of fuel' "if m0 < buffer_size (h x) then buffer_size (h x) else m0"] Cons.prems fuel
    by (fastforce split: if_splits)
qed

lemma card_area:
  assumes "distinct xs" "\<And>x y. x \<in> set xs \<Longrightarrow> y \<in> set xs \<Longrightarrow> x \<noteq> y \<Longrightarrow> block h x \<inter> block h y = {}"
  shows "finite (area h xs) \<and> card (area h xs) = sum_list (map (\<lambda>x. buffer_size (h x)) xs)"
  using assms
proof (induction xs)
  case (Cons x xs)
  have "block h x \<inter> area h xs = {}" using Cons.prems unfolding area_def by fastforce
  then show ?case using Cons by (simp add: card_Un_disjoint block_def)
qed simp

lemma separated_disjoint:
  assumes "separated h xs" "x \<in> set xs" "y \<in> set xs" "x \<noteq> y"
  shows "block h x \<inter> block h y = {}"
proof -
  obtain as bs where xs: "xs = as @ x # bs" using split_list [OF assms(2)] by blast
  have "block h y \<subseteq> area h (as @ bs)" using assms(3, 4) xs by (auto simp: area_def)
  then show ?thesis using separated_area_disjoint [of h as x bs] assms(1) xs by blast
qed

text \<open>
  No memory is ever lost: what the \<open>shmem\<close> console command prints as the total of
  allocated and free memory is the size of the arena, in every state of the allocator.
\<close>

theorem shmem_total_constant:
  assumes "shm_ok base span s fs al"
  shows "\<exists>allocated free mx. command_shmem (Suc span) s = Some (span, allocated, free, mx, max_allocated_size s)
    \<and> allocated + free = span \<and> allocated = card (area (shm_heap s) al) \<and> free = card (area (shm_heap s) fs)"
proof -
  note d = shm_okD [OF assms]
  have c: "next_ok (shm_heap s) fs 0" "0 \<notin> set fs" "free_buf_chain s = hd_or fs 0" "distinct fs"
      "next_ok (shm_heap s) al 0" "0 \<notin> set al" "allocced_buf_chain s = hd_or al 0" "distinct al"
    using d(1, 2) by (auto simp: chain_def)
  have len: "length fs < Suc span" "length al < Suc span" using shm_ok_lengths [OF assms] by auto
  have f: "finite (area (shm_heap s) fs) \<and> card (area (shm_heap s) fs) = sum_list (map (\<lambda>x. buffer_size (shm_heap s x)) fs)"
    using separated_disjoint [OF d(4)] by (rule card_area [OF c(4)])
  have a: "finite (area (shm_heap s) al) \<and> card (area (shm_heap s) al) = sum_list (map (\<lambda>x. buffer_size (shm_heap s x)) al)"
    using d(6) by (rule card_area [OF c(8)])
  have "card (area (shm_heap s) fs) + card (area (shm_heap s) al) = span"
    using card_Un_disjoint [of "area (shm_heap s) fs" "area (shm_heap s) al"] d(7, 8) f a by simp
  then show ?thesis using chain_total_sum [OF c(1, 2) len(1)] chain_total_sum [OF c(5, 6) len(2)] f a
      max_available_bound [OF c(1, 2) len(1), of 0] c(3, 7)
    by (auto simp: command_shmem_def)
qed

text \<open>
  The documentation calls \<open>shared_mem_size\<close> the maximum that can be acquired; a request
  for that many bytes always fails, since the figure includes the header.
\<close>

theorem shared_mem_size_not_acquirable:
  assumes "shm_ok base span s fs al" "length fs < fuel" "shared_mem_size fuel s = Some m" "m < 2 ^ 31" "fs \<noteq> []"
  shows "shared_mem_acquire False fuel (word_of_nat m) s = Some (Inl SHM_ERROR_BUSY)"
proof -
  have w: "unat (word_of_nat m :: u32) = m" using assms(4) by (simp add: unsigned_of_nat take_bit_nat_eq_self)
  then have p: "m + 12 \<le> padded_size (word_of_nat m)" using padded_size_bounds [of "word_of_nat m"] assms(4) by simp
  have c: "next_ok (shm_heap s) fs 0" "0 \<notin> set fs" "free_buf_chain s = hd_or fs 0"
    using shm_okD(1) [OF assms(1)] by (auto simp: chain_def)
  have "\<forall>x \<in> set fs. buffer_size (shm_heap s x) \<le> m"
    using max_available_bound [OF c(1, 2) assms(2), of 0] assms(3) c(3) by (auto simp: shared_mem_size_def)
  then have "\<not> (\<exists>x \<in> set fs. padded_size (word_of_nat m) < buffer_size (shm_heap s x))" using p by fastforce
  then show ?thesis using acquire_ok [OF assms(1, 2), of "word_of_nat m"] w assms(4) by auto
qed

section \<open>A concrete arena\<close>

definition ex_shm :: shm where
  "ex_shm = \<lparr>shm_heap = (\<lambda>x. if x = 100 then \<lparr>next_buffer = NULL, prev_buffer = NULL, buffer_size = 40\<rparr>
       else \<lparr>next_buffer = NULL, prev_buffer = NULL, buffer_size = 84\<rparr>),
     free_buf_chain = 140, allocced_buf_chain = 100, max_allocated_size = 28\<rparr>"

lemma ex_shm_ok: "shm_ok 100 124 ex_shm [140] [100]"
  by (auto simp: shm_ok_def ex_shm_def chain_def block_def)

lemma ex_padded: "padded_size 20 = 32"
  using padded_size_eq [of 20] by simp

theorem acquire_correct_witness:
  "(\<exists>c s' fs'. shared_mem_acquire False 2 20 ex_shm = Some (Inr (c + HEADER_SIZE, s')) \<and> shm_ok 100 124 s' fs' [c, 100]
     \<and> 32 \<le> buffer_size (shm_heap s' c))"
  using acquire_correct [OF ex_shm_ok, of 2 20] by (auto simp: ex_padded ex_shm_def)

theorem release_correct_witness:
  "\<exists>s' fs'. shared_mem_release False 2 (100 + HEADER_SIZE) ex_shm = Some s' \<and> shm_ok 100 124 s' fs' []
     \<and> area (shm_heap s') fs' = area (shm_heap ex_shm) [140] \<union> block (shm_heap ex_shm) 100"
  using release_correct [OF ex_shm_ok, of 100 2] by auto

theorem live_buffers_never_overlap_witness:
  "\<exists>b t. shm_alloc 124 20 ex_shm = Some (b, t) \<and> shm_owned t 100 = shm_owned ex_shm 100
     \<and> shm_owned t b \<inter> shm_owned ex_shm 100 = {} \<and> shm_owned t b \<subseteq> {100..<100 + 124}"
proof -
  have inv: "shm_inv 100 124 ex_shm" using ex_shm_ok by (auto simp: shm_inv_def)
  have live: "shm_live ex_shm = {100}" using shm_live_eq [OF ex_shm_ok] by simp
  obtain b t where t: "shm_alloc 124 20 ex_shm = Some (b, t)"
    using acquire_ok [OF ex_shm_ok, of "Suc 124" 20] by (auto simp: shm_alloc_def ex_padded ex_shm_def)
  have "shared.client_step 124 ex_shm {} t" using t by (intro shared.client_step.acquire [of 20]) simp_all
  then have run: "shared.client_run 124 ex_shm ({} \<union> {}) t" by (rule shared.client_run.more [OF shared.client_run.idle])
  have "b \<in> shm_live t" "b \<noteq> 100" using shared.alloc_inv [OF inv _ t] live by auto
  with live_buffers_never_overlap [OF inv run, of 100 b] live t show ?thesis by auto
qed

theorem shmem_total_constant_witness:
  "\<exists>allocated free mx. command_shmem (Suc 124) ex_shm = Some (124, allocated, free, mx, max_allocated_size ex_shm)
    \<and> allocated + free = 124"
  using shmem_total_constant [OF ex_shm_ok] by auto

theorem shared_mem_size_not_acquirable_witness:
  "shared_mem_size 2 ex_shm = Some 84 \<and> shared_mem_acquire False 2 (word_of_nat 84) ex_shm = Some (Inl SHM_ERROR_BUSY)"
proof -
  have m: "shared_mem_size 2 ex_shm = Some 84" by code_simp
  from shared_mem_size_not_acquirable [OF ex_shm_ok _ m] m show ?thesis by simp
qed
end
