(* ===== verification/Hooks.thy ===== *)
theory Hooks
  imports EC_Prelude
begin

text \<open>
  The hook and deferred-call machinery of common/hooks.c: the tables the linker collects are the
  parameters \<open>hook_list\<close> and \<open>deferred_funcs\<close>, the routines they point to live in other
  modules and are the parameter \<open>run\<close>, which may change the whole state (a routine may call
  \<open>hook_call_deferred\<close>). The bodies are those of the build without CONFIG_HOOK_DEBUG, whose
  code only gathers statistics.
\<close>

section \<open>Data\<close>

datatype hook_type =
    HOOK_INIT | HOOK_PRE_FREQ_CHANGE | HOOK_FREQ_CHANGE | HOOK_SYSJUMP | HOOK_CHIPSET_PRE_INIT
  | HOOK_CHIPSET_STARTUP | HOOK_CHIPSET_RESUME | HOOK_CHIPSET_SUSPEND | HOOK_CHIPSET_SHUTDOWN
  | HOOK_CHIPSET_RESET | HOOK_AC_CHANGE | HOOK_LID_CHANGE | HOOK_TABLET_MODE_CHANGE
  | HOOK_BASE_ATTACHED_CHANGE | HOOK_POWER_BUTTON_CHANGE | HOOK_BATTERY_SOC_CHANGE
  | HOOK_CCD_CHANGE | HOOK_USB_PM_CHANGE | HOOK_TICK | HOOK_SECOND | HOOK_USB_PD_DISCONNECT

record 'r hook_data =
  routine :: 'r
  priority :: int

definition HOOK_PRIO_FIRST :: int where "HOOK_PRIO_FIRST = 1"
definition HOOK_PRIO_LAST :: int where "HOOK_PRIO_LAST = 9999"

definition SECOND :: u64 where "SECOND = 1000000"

text \<open>What the hook task does, in order; \<open>WaitEvent\<close> is the call of \<open>task_wait_event\<close>.\<close>

datatype hook_event = Deferred nat | Notified hook_type | EnableAllTasks | WaitEvent int

text \<open>
  The statics of the file. \<open>hooks_woken\<close> is the effect of \<open>task_wake(TASK_ID_HOOKS)\<close>, and
  \<open>world\<close> is the state of every other module.
\<close>

record 'w hooks =
  deferred_until :: "u64 list"
  defer_new_call :: bool
  hook_task_started :: bool
  last_second :: u64
  last_tick :: u64
  hooks_woken :: bool
  trace :: "hook_event list"
  world :: 'w

section \<open>Calling hooks\<close>

text \<open>The inner loop that finds the lowest remaining priority.\<close>

definition lowest_prio :: "'r hook_data list \<Rightarrow> int \<Rightarrow> int" where
  "lowest_prio hs last_prio =
     fold (\<lambda>p prio. if priority p < prio \<and> priority p > last_prio then priority p else prio)
       hs (HOOK_PRIO_LAST + 1)"

text \<open>The inner loop that calls every hook of that priority.\<close>

definition call_prio :: "('r \<Rightarrow> 's \<Rightarrow> 's) \<Rightarrow> 'r hook_data list \<Rightarrow> int \<Rightarrow> nat \<times> 's \<Rightarrow> nat \<times> 's" where
  "call_prio run hs prio =
     fold (\<lambda>p (called, s). if priority p = prio then (called + 1, run (routine p) s) else (called, s)) hs"

partial_function (option) notify_loop ::
    "('r \<Rightarrow> 's \<Rightarrow> 's) \<Rightarrow> 'r hook_data list \<Rightarrow> nat \<Rightarrow> int \<Rightarrow> 's \<Rightarrow> 's option" where
  "notify_loop run hs called last_prio s =
     (if called < length hs then
        let prio = lowest_prio hs last_prio;
            (called', s') = call_prio run hs prio (called, s)
        in notify_loop run hs called' prio s'
      else Some s)"

definition hook_notify :: "(hook_type \<Rightarrow> 'r hook_data list) \<Rightarrow> ('r \<Rightarrow> 's \<Rightarrow> 's) \<Rightarrow> hook_type \<Rightarrow> 's \<Rightarrow> 's option" where
  "hook_notify hook_list run type s = notify_loop run (hook_list type) 0 (HOOK_PRIO_FIRST - 1) s"

section \<open>Deferred calls\<close>

text \<open>\<open>i\<close> is the difference \<open>data - __deferred_funcs\<close>, \<open>now\<close> the value \<open>get_time\<close> returns.\<close>

definition hook_call_deferred :: "u64 \<Rightarrow> int \<Rightarrow> int \<Rightarrow> 'w hooks \<Rightarrow> int \<times> 'w hooks" where
  "hook_call_deferred now i us s =
     (if i < 0 \<or> int (length (deferred_until s)) \<le> i then (EC_ERROR_INVAL, s)
      else if us = - 1 then
        (EC_SUCCESS, s\<lparr>deferred_until := (deferred_until s)[nat i := 0]\<rparr>)
      else
        (EC_SUCCESS,
         s\<lparr>deferred_until := (deferred_until s)[nat i := now + word_of_int us],
           defer_new_call := True,
           hooks_woken := hooks_woken s \<or> hook_task_started s\<rparr>))"

section \<open>The hook task\<close>

definition handle_one :: "('r \<Rightarrow> 'w hooks \<Rightarrow> 'w hooks) \<Rightarrow> 'r list \<Rightarrow> u64 \<Rightarrow> nat \<Rightarrow> 'w hooks \<Rightarrow> 'w hooks" where
  "handle_one run funcs t i s =
     (if deferred_until s ! i \<noteq> 0 \<and> deferred_until s ! i < t then
        run (funcs ! i)
          (s\<lparr>deferred_until := (deferred_until s)[i := 0], trace := trace s @ [Deferred i]\<rparr>)
      else s)"

definition handle_deferred :: "('r \<Rightarrow> 'w hooks \<Rightarrow> 'w hooks) \<Rightarrow> 'r list \<Rightarrow> u64 \<Rightarrow> 'w hooks \<Rightarrow> 'w hooks" where
  "handle_deferred run funcs t s = fold (handle_one run funcs t) [0..<length funcs] s"

text \<open>One periodic hook: due \<open>interval\<close> microseconds after the last time, modulo \<open>2 ^ 64\<close>.\<close>

definition periodic_tick :: "(hook_type \<Rightarrow> 'r hook_data list) \<Rightarrow> ('r \<Rightarrow> 'w hooks \<Rightarrow> 'w hooks) \<Rightarrow>
    u64 \<Rightarrow> u64 \<Rightarrow> 'w hooks \<Rightarrow> 'w hooks option" where
  "periodic_tick hook_list run HOOK_TICK_INTERVAL t s =
     (if HOOK_TICK_INTERVAL \<le> t - last_tick s then
        map_option (\<lambda>s'. s'\<lparr>last_tick := t\<rparr>)
          (hook_notify hook_list run HOOK_TICK (s\<lparr>trace := trace s @ [Notified HOOK_TICK]\<rparr>))
      else Some s)"

definition periodic_second :: "(hook_type \<Rightarrow> 'r hook_data list) \<Rightarrow> ('r \<Rightarrow> 'w hooks \<Rightarrow> 'w hooks) \<Rightarrow>
    u64 \<Rightarrow> 'w hooks \<Rightarrow> 'w hooks option" where
  "periodic_second hook_list run t s =
     (if SECOND \<le> t - last_second s then
        map_option (\<lambda>s'. s'\<lparr>last_second := t\<rparr>)
          (hook_notify hook_list run HOOK_SECOND (s\<lparr>trace := trace s @ [Notified HOOK_SECOND]\<rparr>))
      else Some s)"

text \<open>How long to sleep: until the next tick, or less for a pending deferred call.\<close>

definition until_tick :: "u64 \<Rightarrow> u64 \<Rightarrow> u64 \<Rightarrow> int" where
  "until_tick HOOK_TICK_INTERVAL lt t =
     (if lt + HOOK_TICK_INTERVAL > t then s32 (uint (lt + HOOK_TICK_INTERVAL - t)) else 0)"

definition shorten :: "u64 \<Rightarrow> u64 \<Rightarrow> int \<Rightarrow> int" where
  "shorten t u nxt =
     (if \<not> nxt > 0 \<or> u = 0 then nxt
      else if u < t then 0
      else if u - t < word_of_int nxt then s32 (uint (u - t))
      else nxt)"

definition next_wait :: "u64 list \<Rightarrow> u64 \<Rightarrow> int \<Rightarrow> int" where
  "next_wait until t nxt = fold (shorten t) until nxt"

text \<open>
  The end of a round: the wait to make, if any. \<open>intr1\<close> and \<open>intr2\<close> are what interrupts and
  other tasks do after the flag is cleared and after the scan of the deadlines.
\<close>

definition plan_sleep :: "u64 \<Rightarrow> ('w hooks \<Rightarrow> 'w hooks) \<Rightarrow> ('w hooks \<Rightarrow> 'w hooks) \<Rightarrow> u64 \<Rightarrow> 'w hooks \<Rightarrow>
    'w hooks \<times> int option" where
  "plan_sleep HOOK_TICK_INTERVAL intr1 intr2 t s =
     (let s1 = intr1 (s\<lparr>defer_new_call := False\<rparr>);
          nxt = next_wait (deferred_until s1) t (until_tick HOOK_TICK_INTERVAL (last_tick s) t);
          s2 = intr2 s1
      in (s2, if nxt > 0 \<and> \<not> defer_new_call s2 then Some nxt else None))"

text \<open>
  One round of the endless loop; \<open>t1\<close> and \<open>t2\<close> are what its two calls of \<open>get_time\<close> return.
\<close>

definition hook_task_iter :: "(hook_type \<Rightarrow> 'r hook_data list) \<Rightarrow> 'r list \<Rightarrow> ('r \<Rightarrow> 'w hooks \<Rightarrow> 'w hooks) \<Rightarrow>
    u64 \<Rightarrow> ('w hooks \<Rightarrow> 'w hooks) \<Rightarrow> ('w hooks \<Rightarrow> 'w hooks) \<Rightarrow> u64 \<Rightarrow> u64 \<Rightarrow> 'w hooks \<Rightarrow> 'w hooks option" where
  "hook_task_iter hook_list funcs run HOOK_TICK_INTERVAL intr1 intr2 t1 t2 s =
     Option.bind (periodic_tick hook_list run HOOK_TICK_INTERVAL t1 (handle_deferred run funcs t1 s)) (\<lambda>s.
     Option.bind (periodic_second hook_list run t1 s) (\<lambda>s.
       case plan_sleep HOOK_TICK_INTERVAL intr1 intr2 t2 s of
         (s', None) \<Rightarrow> Some s'
       | (s', Some nxt) \<Rightarrow> Some (s'\<lparr>trace := trace s' @ [WaitEvent nxt]\<rparr>)))"

text \<open>The entry of the task, before the loop, and the initial values of its statics.\<close>

definition hooks_initial :: "nat \<Rightarrow> u64 \<Rightarrow> 'w \<Rightarrow> 'w hooks" where
  "hooks_initial n HOOK_TICK_INTERVAL w =
     \<lparr>deferred_until = replicate n 0, defer_new_call = False, hook_task_started = False,
      last_second = - SECOND, last_tick = - HOOK_TICK_INTERVAL, hooks_woken = False,
      trace = [], world = w\<rparr>"

definition hook_task_start :: "(hook_type \<Rightarrow> 'r hook_data list) \<Rightarrow> ('r \<Rightarrow> 'w hooks \<Rightarrow> 'w hooks) \<Rightarrow>
    'w hooks \<Rightarrow> 'w hooks option" where
  "hook_task_start hook_list run s =
     map_option (\<lambda>s'. s'\<lparr>trace := trace s' @ [EnableAllTasks]\<rparr>)
       (hook_notify hook_list run HOOK_INIT
         (s\<lparr>hook_task_started := True, trace := trace s @ [Notified HOOK_INIT]\<rparr>))"

section \<open>Hooks are called in priority order\<close>

lemma lowest_prio_fold:
  fixes hs :: "'r hook_data list" and l m :: int
  defines "step \<equiv> \<lambda>(p :: 'r hook_data) prio. if priority p < prio \<and> priority p > l then priority p else prio"
  shows "fold step hs m \<le> m
    \<and> (\<forall>q \<in> set hs. l < priority q \<longrightarrow> fold step hs m \<le> priority q)
    \<and> (fold step hs m = m \<or> (\<exists>q \<in> set hs. l < priority q \<and> fold step hs m = priority q))"
proof (induction hs arbitrary: m)
  case (Cons h hs)
  show ?case using Cons.IH [of "step h m"] unfolding step_def by (auto split: if_splits)
qed simp

definition prio_ok :: "'r hook_data list \<Rightarrow> bool" where
  "prio_ok hs \<longleftrightarrow> (\<forall>h \<in> set hs. HOOK_PRIO_FIRST \<le> priority h \<and> priority h \<le> HOOK_PRIO_LAST)"

lemma lowest_prio_spec:
  assumes "prio_ok hs" "h \<in> set hs" "l < priority h"
  shows "l < lowest_prio hs l" "\<exists>q \<in> set hs. priority q = lowest_prio hs l"
    "\<And>q. q \<in> set hs \<Longrightarrow> l < priority q \<Longrightarrow> lowest_prio hs l \<le> priority q"
proof -
  note f = lowest_prio_fold [where hs = hs and m = "HOOK_PRIO_LAST + 1" and l = l, folded lowest_prio_def]
  have "lowest_prio hs l < HOOK_PRIO_LAST + 1" using f assms by (force simp: prio_ok_def)
  then show "l < lowest_prio hs l" "\<exists>q \<in> set hs. priority q = lowest_prio hs l" using f by auto
  show "\<And>q. q \<in> set hs \<Longrightarrow> l < priority q \<Longrightarrow> lowest_prio hs l \<le> priority q" using f by blast
qed

lemma call_prio_eq:
  "call_prio run hs prio (c, s) =
     (c + length (filter (\<lambda>p. priority p = prio) hs),
      fold (run \<circ> routine) (filter (\<lambda>p. priority p = prio) hs) s)"
  unfolding call_prio_def by (induction hs arbitrary: c s) simp_all

lemma sorted_filter_above:
  assumes "sorted (map priority hs)" "l < m" "\<And>q. q \<in> set hs \<Longrightarrow> l < priority q \<Longrightarrow> m \<le> priority q"
  shows "filter (\<lambda>p. l < priority p) hs = filter (\<lambda>p. priority p = m) hs @ filter (\<lambda>p. m < priority p) hs"
  using assms
proof (induction hs)
  case (Cons h hs)
  have "filter (\<lambda>p. priority p = m) hs = []" if "m < priority h"
    using that Cons.prems(1) by (fastforce simp: filter_empty_conv)
  then show ?case using Cons by (cases "priority h = m"; cases "m < priority h") fastforce+
qed simp

text \<open>What is left to call after priority \<open>l\<close>, in the order of the stable sort.\<close>

definition remaining :: "'r hook_data list \<Rightarrow> int \<Rightarrow> 'r hook_data list" where
  "remaining hs l = filter (\<lambda>p. l < priority p) (sort_key priority hs)"

lemma remaining_step:
  assumes "prio_ok hs" "remaining hs l \<noteq> []"
  shows "remaining hs l = filter (\<lambda>p. priority p = lowest_prio hs l) hs @ remaining hs (lowest_prio hs l)"
    "filter (\<lambda>p. priority p = lowest_prio hs l) hs \<noteq> []"
proof -
  obtain h where h: "h \<in> set hs" "l < priority h" using assms(2) by (auto simp: remaining_def filter_empty_conv)
  note lp = lowest_prio_spec [OF assms(1) h]
  have "remaining hs l = filter (\<lambda>p. priority p = lowest_prio hs l) (sort_key priority hs) @ remaining hs (lowest_prio hs l)"
    unfolding remaining_def using lp(1,3) by (intro sorted_filter_above) simp_all
  then show "remaining hs l = filter (\<lambda>p. priority p = lowest_prio hs l) hs @ remaining hs (lowest_prio hs l)"
    using sort_key_stable [of priority "lowest_prio hs l" hs] by simp
  show "filter (\<lambda>p. priority p = lowest_prio hs l) hs \<noteq> []" using lp(2) by (auto simp: filter_empty_conv)
qed

lemma notify_loop_remaining:
  assumes "prio_ok hs" "called + length (remaining hs l) = length hs"
  shows "notify_loop run hs called l s = Some (fold (run \<circ> routine) (remaining hs l) s)"
  using assms(2)
proof (induction "length (remaining hs l)" arbitrary: called l s rule: less_induct)
  case less
  show ?case
  proof (cases "remaining hs l = []")
    case True
    then show ?thesis using less.prems by (simp add: notify_loop.simps)
  next
    case False
    let ?p = "lowest_prio hs l"
    let ?now = "filter (\<lambda>p. priority p = ?p) hs"
    note st = remaining_step [OF assms(1) False]
    have "length (remaining hs l) = length ?now + length (remaining hs ?p)" by (subst st(1)) simp
    then have "notify_loop run hs (called + length ?now) ?p (fold (run \<circ> routine) ?now s)
        = Some (fold (run \<circ> routine) (remaining hs ?p) (fold (run \<circ> routine) ?now s))"
      using st(2) less.prems by (intro less.hyps) auto
    moreover have "called < length hs" using less.prems False by (cases "remaining hs l") auto
    ultimately show ?thesis
      by (subst notify_loop.simps, subst st(1)) (simp add: Let_def call_prio_eq del: fold_append, simp)
  qed
qed

lemma remaining_all: "prio_ok hs \<Longrightarrow> remaining hs (HOOK_PRIO_FIRST - 1) = sort_key priority hs"
  unfolding remaining_def by (rule filter_True) (auto simp: prio_ok_def)

lemma hook_notify_eq:
  "prio_ok (hook_list type) \<Longrightarrow>
   hook_notify hook_list run type s = Some (fold (run \<circ> routine) (sort_key priority (hook_list type)) s)"
  unfolding hook_notify_def using notify_loop_remaining [of "hook_list type" 0 "HOOK_PRIO_FIRST - 1" run s]
  by (simp add: remaining_all)

text \<open>
  C13. When every registered priority lies between HOOK_PRIO_FIRST and HOOK_PRIO_LAST, as the
  documentation of DECLARE_HOOK asks, \<open>hook_notify\<close> terminates and has called every hook of the
  type exactly once, in the order of the stable sort by priority: lower numbers first, equal
  priorities in link order, each routine seeing the state its predecessors left.
\<close>

theorem hook_notify_correct:
  assumes "\<forall>h \<in> set (hook_list type). HOOK_PRIO_FIRST \<le> priority h \<and> priority h \<le> HOOK_PRIO_LAST"
  shows "hook_notify hook_list run type s
    = Some (fold (\<lambda>h. run (routine h)) (sort_key priority (hook_list type)) s)"
  using hook_notify_eq [of hook_list type run s] assms by (simp add: prio_ok_def comp_def)

theorem hook_notify_correct_witness:
  "hook_notify (\<lambda>_. [\<lparr>routine = 1, priority = 5000\<rparr>, \<lparr>routine = 2, priority = 1\<rparr>, \<lparr>routine = 3, priority = 5000\<rparr>])
     (\<lambda>r s. s @ [r]) HOOK_INIT [] = Some [2, 1, 3 :: nat]"
  using hook_notify_correct [of "\<lambda>_. [\<lparr>routine = 1, priority = 5000\<rparr>, \<lparr>routine = 2, priority = 1\<rparr>,
    \<lparr>routine = 3 :: nat, priority = 5000\<rparr>]" HOOK_INIT "\<lambda>r s. s @ [r]" "[]"]
  by (simp add: HOOK_PRIO_FIRST_def HOOK_PRIO_LAST_def)

section \<open>Deferred calls are made when they are due\<close>

definition due :: "u64 \<Rightarrow> 'w hooks \<Rightarrow> nat \<Rightarrow> bool" where
  "due t s i \<longleftrightarrow> deferred_until s ! i \<noteq> 0 \<and> deferred_until s ! i < t"

text \<open>
  What a routine run at time \<open>t\<close> or later can do to the deadlines through
  \<open>hook_call_deferred\<close>: cancel them, or move them to \<open>t\<close> or later.
\<close>

definition later :: "u64 \<Rightarrow> 'w hooks \<Rightarrow> 'w hooks \<Rightarrow> bool" where
  "later t s s' \<longleftrightarrow> length (deferred_until s') = length (deferred_until s)
     \<and> (\<forall>i < length (deferred_until s). deferred_until s' ! i \<in> {deferred_until s ! i, 0} \<or> t \<le> deferred_until s' ! i)"

lemma later_refl [simp]: "later t s s"
  by (simp add: later_def)

lemma later_trans: "later t a b \<Longrightarrow> later t b c \<Longrightarrow> later t a c"
  unfolding later_def by (smt (verit) insert_iff singletonD)

lemma later_due: "later t s s' \<Longrightarrow> i < length (deferred_until s) \<Longrightarrow> due t s' i \<Longrightarrow> due t s i"
  unfolding later_def due_def by (metis insert_iff leD singletonD)

lemma deferred_later:
  assumes "t \<le> now" "us = - 1 \<or> 0 \<le> us \<and> uint now + us < 2 ^ 64"
  shows "later t s (snd (hook_call_deferred now i us s))"
proof -
  have "t \<le> now + word_of_int us" if "us \<noteq> - 1"
  proof -
    have "uint (now + word_of_int us) = uint now + us"
      using assms(2) that uint_ge_0 [of now] by (simp add: uint_word_ariths uint_word_of_int mod_simps)
    then show ?thesis using assms that by (simp add: word_le_def)
  qed
  then show ?thesis by (auto simp: hook_call_deferred_def later_def nth_list_update)
qed

lemma handle_one_later:
  assumes "\<And>r s. later t s (run r s)" "i < length (deferred_until s)"
  shows "later t s (handle_one run funcs t i s)" "\<not> due t (handle_one run funcs t i s) i"
proof -
  let ?s = "s\<lparr>deferred_until := (deferred_until s)[i := 0], trace := trace s @ [Deferred i]\<rparr>"
  have c: "later t s ?s" "\<not> due t ?s i" using assms(2) by (auto simp: later_def due_def nth_list_update)
  have "later t ?s (run (funcs ! i) ?s)" by (rule assms(1))
  then show "later t s (handle_one run funcs t i s)" "\<not> due t (handle_one run funcs t i s) i"
    using c later_trans [of t s ?s] later_due [of t ?s _ i] assms(2) by (auto simp: handle_one_def due_def)
qed

lemma handle_one_trace:
  assumes "\<And>r s. trace (run r s) = trace s"
  shows "trace (handle_one run funcs t i s) = trace s @ (if due t s i then [Deferred i] else [])"
  using assms by (simp add: handle_one_def due_def)

lemma handle_pass:
  assumes run: "\<And>r s. later t s (run r s)" "\<And>r s. trace (run r s) = trace s"
    and "k \<le> length (deferred_until s)"
  shows "later t s (fold (handle_one run funcs t) [0..<k] s)
    \<and> (\<forall>i < k. \<not> due t (fold (handle_one run funcs t) [0..<k] s) i)
    \<and> (\<exists>js. trace (fold (handle_one run funcs t) [0..<k] s) = trace s @ map Deferred js
          \<and> sorted_wrt (<) js \<and> (\<forall>i \<in> set js. i < k \<and> due t s i))"
  using assms(3)
proof (induction k)
  case (Suc k)
  let ?s = "fold (handle_one run funcs t) [0..<k] s"
  obtain js where ih: "later t s ?s" "\<forall>i < k. \<not> due t ?s i" "trace ?s = trace s @ map Deferred js"
      "sorted_wrt (<) js" "\<forall>i \<in> set js. i < k \<and> due t s i"
    using Suc by auto
  have len: "length (deferred_until ?s) = length (deferred_until s)" using ih(1) by (simp add: later_def)
  have k: "k < length (deferred_until ?s)" using Suc.prems len by simp
  note h = handle_one_later [OF run(1) k, where funcs = funcs]
  have 1: "later t s (handle_one run funcs t k ?s)" by (rule later_trans [OF ih(1) h(1)])
  have 2: "\<forall>i < Suc k. \<not> due t (handle_one run funcs t k ?s) i"
  proof (intro allI impI)
    fix i assume "i < Suc k"
    then consider "i = k" | "i < k" by linarith
    then show "\<not> due t (handle_one run funcs t k ?s) i"
      using ih(2) h(2) later_due [OF h(1), of i] k by cases auto
  qed
  have 3: "\<forall>i \<in> set (js @ (if due t ?s k then [k] else [])). i < Suc k \<and> due t s i"
    using ih(5) later_due [OF ih(1)] k len by auto
  have 4: "sorted_wrt (<) (js @ (if due t ?s k then [k] else []))" using ih(4,5) by (auto simp: sorted_wrt_append)
  have 5: "trace (handle_one run funcs t k ?s) = trace s @ map Deferred (js @ (if due t ?s k then [k] else []))"
    using ih(3) by (simp add: handle_one_trace [OF run(2)])
  show ?case unfolding upt_Suc_append [OF le0] fold_append comp_apply
    using 1 2 3 4 5 by (intro conjI exI [of _ "js @ (if due t ?s k then [k] else [])"]) simp_all
qed simp

text \<open>
  A pass of the hook task over the deferred calls at time \<open>t\<close>, for routines that touch the
  deadlines only as \<open>hook_call_deferred\<close> does: each routine is called at most once and in table
  order, only routines whose deadline was set and had passed when the pass began are called (so
  never before the requested delay), and afterwards no deadline before \<open>t\<close> is left.
\<close>

theorem deferred_pass_correct:
  assumes "\<forall>r s. later t s (run r s)" "\<forall>r s. trace (run r s) = trace s"
    and "length funcs = length (deferred_until s)"
  shows "\<exists>js. trace (handle_deferred run funcs t s) = trace s @ map Deferred js
      \<and> sorted_wrt (<) js
      \<and> (\<forall>i \<in> set js. i < length funcs \<and> deferred_until s ! i \<noteq> 0 \<and> deferred_until s ! i < t)
      \<and> (\<forall>i < length funcs. deferred_until (handle_deferred run funcs t s) ! i = 0
           \<or> t \<le> deferred_until (handle_deferred run funcs t s) ! i)"
proof -
  let ?s = "fold (handle_one run funcs t) [0..<length funcs] s"
  obtain js where js: "trace ?s = trace s @ map Deferred js" "sorted_wrt (<) js"
      "\<forall>i \<in> set js. i < length funcs \<and> due t s i" "\<forall>i < length funcs. \<not> due t ?s i"
    using handle_pass [of t run "length funcs" s funcs] assms by auto
  have "\<forall>i < length funcs. deferred_until ?s ! i = 0 \<or> t \<le> deferred_until ?s ! i"
    using js(4) by (auto simp: due_def not_less)
  then show ?thesis using js(1-3) unfolding handle_deferred_def due_def by blast
qed

definition rearm_self :: "nat \<Rightarrow> nat hooks \<Rightarrow> nat hooks" where
  "rearm_self r s = snd (hook_call_deferred 120 (int r) 50 (s\<lparr>world := world s + 1\<rparr>))"

theorem deferred_pass_correct_witness:
  "\<exists>js. trace (handle_deferred rearm_self [0, 1, 2] 120
        (hooks_initial 3 500000 0\<lparr>deferred_until := [100, 130, 110]\<rparr>)) = [] @ map Deferred js
      \<and> sorted_wrt (<) js
      \<and> (\<forall>i \<in> set js. i < 3 \<and> [100, 130, 110] ! i \<noteq> (0 :: u64) \<and> [100, 130, 110] ! i < (120 :: u64))
      \<and> (\<forall>i < 3. deferred_until (handle_deferred rearm_self [0, 1, 2] 120
            (hooks_initial 3 500000 0\<lparr>deferred_until := [100, 130, 110]\<rparr>)) ! i = 0
           \<or> 120 \<le> deferred_until (handle_deferred rearm_self [0, 1, 2] 120
            (hooks_initial 3 500000 0\<lparr>deferred_until := [100, 130, 110]\<rparr>)) ! i)"
proof -
  have "later 120 s (rearm_self r s)" for r s
    using deferred_later [of 120 120 50 "s\<lparr>world := world s + 1\<rparr>" "int r"]
    by (simp add: rearm_self_def later_def)
  moreover have "trace (rearm_self r s) = trace s" for r s
    by (simp add: rearm_self_def hook_call_deferred_def)
  ultimately show ?thesis
    using deferred_pass_correct [of 120 rearm_self "[0, 1, 2]" "hooks_initial 3 500000 0\<lparr>deferred_until := [100, 130, 110]\<rparr>"]
    by (simp add: hooks_initial_def numeral_3_eq_3)
qed

section \<open>The hook task does not oversleep\<close>

lemma shorten_spec:
  assumes "0 \<le> n" "n < 2 ^ 31"
  shows "0 \<le> shorten t u n" "shorten t u n \<le> n"
    "0 < shorten t u n \<Longrightarrow> u \<noteq> 0 \<Longrightarrow> t \<le> u \<and> shorten t u n \<le> uint (u - t)"
    "shorten t u n = 0 \<Longrightarrow> n = 0 \<or> (u \<noteq> 0 \<and> u \<le> t)"
proof -
  have lt: "u - t < word_of_int n \<longleftrightarrow> uint (u - t) < n"
    using assms by (simp add: word_less_def uint_word_of_int)
  have id: "s32 (uint (u - t)) = uint (u - t)" if "uint (u - t) < n"
    using that assms uint_ge_0 [of "u - t"] by (intro s32_id) linarith+
  have eq: "uint (u - t) = 0 \<longleftrightarrow> u = t" by (simp add: uint_0_iff)
  show "0 \<le> shorten t u n" "shorten t u n \<le> n"
    "0 < shorten t u n \<Longrightarrow> u \<noteq> 0 \<Longrightarrow> t \<le> u \<and> shorten t u n \<le> uint (u - t)"
    "shorten t u n = 0 \<Longrightarrow> n = 0 \<or> (u \<noteq> 0 \<and> u \<le> t)"
    using assms id eq unfolding shorten_def lt by (auto simp: not_less split: if_splits)
qed

lemma next_wait_spec:
  assumes "0 \<le> n" "n < 2 ^ 31"
  shows "0 \<le> next_wait us t n \<and> next_wait us t n \<le> n
    \<and> (0 < next_wait us t n \<longrightarrow> (\<forall>u \<in> set us. u \<noteq> 0 \<longrightarrow> t \<le> u \<and> next_wait us t n \<le> uint (u - t)))
    \<and> (next_wait us t n = 0 \<longrightarrow> n = 0 \<or> (\<exists>u \<in> set us. u \<noteq> 0 \<and> u \<le> t))"
  using assms
proof (induction us arbitrary: n)
  case (Cons u us)
  note sh = shorten_spec [OF Cons.prems, of t u]
  have step: "next_wait (u # us) t n = next_wait us t (shorten t u n)" by (simp add: next_wait_def)
  note ih = Cons.IH [of "shorten t u n"]
  show ?case unfolding step using ih sh Cons.prems by (smt (verit) list.set_intros set_ConsD)
qed (simp add: next_wait_def)

lemma until_tick_spec:
  assumes "lt \<le> t" "uint i < 2 ^ 31"
  shows "0 \<le> until_tick i lt t" "until_tick i lt t < 2 ^ 31"
    "until_tick i lt t = (if lt + i > t then uint (lt + i - t) else 0)"
    "until_tick i lt t = 0 \<Longrightarrow> lt + i \<le> t"
proof -
  have id: "until_tick i lt t = (if lt + i > t then uint (lt + i - t) else 0) \<and> 0 \<le> until_tick i lt t
      \<and> until_tick i lt t < 2 ^ 31 \<and> (until_tick i lt t = 0 \<longrightarrow> lt + i \<le> t)"
  proof (cases "lt + i > t")
    case True
    have nowrap: "uint (lt + i) = uint lt + uint i"
    proof (rule ccontr)
      assume "uint (lt + i) \<noteq> uint lt + uint i"
      then have "uint (lt + i) = uint lt + uint i - 2 ^ 64"
        using uint_plus_if' [of lt i] by (simp split: if_splits)
      then have "uint (lt + i) < uint lt" using uint_lt2p [of i] by simp
      then show False using True assms(1) by (simp add: word_less_def word_le_def)
    qed
    have "uint (lt + i - t) = uint (lt + i) - uint t"
      using True by (intro uint_sub_lem [THEN iffD1]) (simp add: word_less_def)
    then have "0 < uint (lt + i - t)" "uint (lt + i - t) < 2 ^ 31"
      using True assms nowrap by (simp_all add: word_less_def word_le_def)
    then show ?thesis using True by (simp add: until_tick_def s32_id)
  qed (simp add: until_tick_def)
  then show "0 \<le> until_tick i lt t" "until_tick i lt t < 2 ^ 31"
    "until_tick i lt t = (if lt + i > t then uint (lt + i - t) else 0)"
    "until_tick i lt t = 0 \<Longrightarrow> lt + i \<le> t" by blast+
qed

text \<open>What interrupts and other tasks may do to the state: any number of \<open>hook_call_deferred\<close>.\<close>

inductive isr_calls :: "'w hooks \<Rightarrow> 'w hooks \<Rightarrow> bool" where
  isr_none: "isr_calls s s"
| isr_call: "isr_calls s s' \<Longrightarrow> isr_calls s (snd (hook_call_deferred now i us s'))"

lemma isr_calls_seen:
  "isr_calls s s' \<Longrightarrow> defer_new_call s' \<or> set (deferred_until s') \<subseteq> insert 0 (set (deferred_until s))"
proof (induction rule: isr_calls.induct)
  case (isr_call s s' now i us)
  then show ?case using set_update_subset_insert [of "deferred_until s'" "nat i" 0]
    by (auto simp: hook_call_deferred_def)
qed auto

text \<open>
  C37. The hook task decides how long to sleep correctly and loses no wake-up. Whatever deferred
  calls interrupts and other tasks make while the decision is taken, when the task goes to sleep
  for \<open>n\<close> microseconds, \<open>n\<close> is positive, the next tick is not earlier than \<open>n\<close> from now, and no
  pending deferred call is past due or due before \<open>n\<close> has elapsed; and it stays awake only when
  the tick is due, a deferred call is due, or a new deferred call has come in.
\<close>

theorem hook_task_sleep_sound:
  assumes "last_tick s \<le> t" "uint HOOK_TICK_INTERVAL < 2 ^ 31"
    and "\<forall>s. isr_calls s (intr2 s)"
    and "plan_sleep HOOK_TICK_INTERVAL intr1 intr2 t s = (s', sleep)"
  shows "case sleep of
      Some n \<Rightarrow> 0 < n \<and> n \<le> uint (last_tick s + HOOK_TICK_INTERVAL - t)
        \<and> (\<forall>u \<in> set (deferred_until s'). u \<noteq> 0 \<longrightarrow> t \<le> u \<and> n \<le> uint (u - t))
    | None \<Rightarrow> last_tick s + HOOK_TICK_INTERVAL \<le> t \<or> defer_new_call s'
        \<or> (\<exists>u \<in> set (deferred_until (intr1 (s\<lparr>defer_new_call := False\<rparr>))). u \<noteq> 0 \<and> u \<le> t)"
proof -
  define s1 where "s1 = intr1 (s\<lparr>defer_new_call := False\<rparr>)"
  define tick where "tick = until_tick HOOK_TICK_INTERVAL (last_tick s) t"
  define n where "n = next_wait (deferred_until s1) t tick"
  have r: "s' = intr2 s1" "sleep = (if n > 0 \<and> \<not> defer_new_call s' then Some n else None)"
    using assms(4) by (auto simp: plan_sleep_def Let_def s1_def n_def tick_def)
  note tk = until_tick_spec [OF assms(1,2), folded tick_def]
  note nw = next_wait_spec [OF tk(1,2), of "deferred_until s1" t, folded n_def]
  have seen: "defer_new_call s' \<or> set (deferred_until s') \<subseteq> insert 0 (set (deferred_until s1))"
    using assms(3) r(1) isr_calls_seen by blast
  show ?thesis
  proof (cases "n > 0 \<and> \<not> defer_new_call s'")
    case True
    then have "n \<le> uint (last_tick s + HOOK_TICK_INTERVAL - t)" using nw tk(3) by (auto split: if_splits)
    then show ?thesis using True r(2) nw seen by auto
  next
    case False
    then show ?thesis using r(2) nw tk(4) by (auto simp: s1_def)
  qed
qed

definition alarm_isr :: "unit hooks \<Rightarrow> unit hooks" where
  "alarm_isr s = snd (hook_call_deferred 1000100 1 (- 1) s)"

theorem hook_task_sleep_sound_witness:
  "(let s = hooks_initial 2 500000 ()\<lparr>last_tick := 1000000, deferred_until := [1000300, 1000200]\<rparr>;
        (s', sleep) = plan_sleep 500000 id alarm_isr 1000100 s
    in sleep = Some 100 \<and> deferred_until s' = [1000300, 0]
       \<and> (\<forall>u \<in> set (deferred_until s'). u \<noteq> 0 \<longrightarrow> 1000100 \<le> u \<and> 100 \<le> uint (u - 1000100)))"
proof -
  let ?s = "hooks_initial 2 500000 ()\<lparr>last_tick := 1000000, deferred_until := [1000300, 1000200]\<rparr>"
  have e: "plan_sleep 500000 id alarm_isr 1000100 ?s
      = (?s\<lparr>deferred_until := [1000300, 0]\<rparr>, Some 100)"
    by (simp add: plan_sleep_def Let_def alarm_isr_def hook_call_deferred_def hooks_initial_def next_wait_def
        shorten_def until_tick_def s32_id)
  have "isr_calls s (alarm_isr s)" for s
    unfolding alarm_isr_def by (rule isr_call [OF isr_none])
  then show ?thesis
    using hook_task_sleep_sound [of ?s 1000100 500000 alarm_isr id, OF _ _ _ e] e by (simp add: hooks_initial_def)
qed

end
