(* ===== verification/Timer.thy ===== *)
theory Timer
  imports EC_Prelude Util_Arith "HOL-Library.Signed_Division"
begin

text \<open>
  The timer module of common/timer.c: the 64-bit clock made of a software high word and a
  hardware low word, one timer per task in a bitmap, and the interrupt routine that expires
  timers and programs the next hardware event. The hardware clock is a parameter: the values
  it returns when it is read. Events sent to tasks and triggered interrupts are recorded in
  order.
\<close>

section \<open>Data and small operations\<close>

definition ts_hi :: "u64 \<Rightarrow> u32" where
  "ts_hi t = ucast (drop_bit 32 t)"

definition ts_lo :: "u64 \<Rightarrow> u32" where
  "ts_lo t = ucast t"

definition ts_val :: "u32 \<Rightarrow> u32 \<Rightarrow> u64" where
  "ts_val hi lo = push_bit 32 (ucast hi) OR ucast lo"

datatype tm_call = TimerEvent nat | TriggerTimerIrq

record timers =
  clksrc_high :: u32
  timer_running :: u32
  timer_deadline :: "nat \<Rightarrow> u64"
  next_deadline :: u32
  hw_clock_event :: "u32 option"
  tm_calls :: "tm_call list"

definition fls :: "u32 \<Rightarrow> nat" where
  "fls n = 31 - clzsi2 n"

text \<open>\<open>check_timer &= ~(1 << tskid)\<close> with \<open>tskid = __fls(check_timer)\<close>.\<close>

definition drop_fls :: "u32 \<Rightarrow> u32" where
  "drop_fls m = m AND NOT (push_bit (fls m) 1)"

definition expire_timer :: "nat \<Rightarrow> timers \<Rightarrow> timers" where
  "expire_timer tskid s =
     s\<lparr>timer_running := timer_running s AND NOT (push_bit tskid 1), tm_calls := tm_calls s @ [TimerEvent tskid]\<rparr>"

definition timestamp_expired :: "u64 \<Rightarrow> u64 \<Rightarrow> bool" where
  "timestamp_expired deadline now_val \<longleftrightarrow> 0 \<le> sint (now_val - deadline)"

text \<open>
  \<open>get_time\<close> reads the high word, the low word, the high word again, and both once more
  when the high word has changed: \<open>h0\<close>, \<open>l1\<close>, \<open>h2\<close>, \<open>h3\<close>, \<open>l4\<close> are the values it reads.
\<close>

definition get_time :: "u32 \<Rightarrow> u32 \<Rightarrow> u32 \<Rightarrow> u32 \<Rightarrow> u32 \<Rightarrow> u64" where
  "get_time h0 l1 h2 h3 l4 = (if h0 \<noteq> h2 then ts_val h3 l4 else ts_val h0 l1)"

definition clock_ms :: "u32 \<Rightarrow> int" where
  "clock_ms lo = sint lo sdiv 1000"

section \<open>The interrupt routine\<close>

lemma fls_bits:
  assumes "m \<noteq> 0"
  shows "bit m (fls m)" "fls m < 32" "bit (drop_fls m) k \<longleftrightarrow> bit m k \<and> k \<noteq> fls m"
  using get_next_bit_spec [OF assms, of "fls m" "drop_fls m"]
  by (auto simp: get_next_bit_def fls_def drop_fls_def Let_def)

definition bits_of :: "u32 \<Rightarrow> nat set" where
  "bits_of w = {k. bit w k}"

lemma bits_of_subset: "bits_of w \<subseteq> {..<32}"
  by (auto simp: bits_of_def dest: bit_imp_le_length)

lemma finite_bits_of [simp]: "finite (bits_of w)"
  using finite_subset [OF bits_of_subset] by blast

lemma card_bits_of: "card (bits_of w) \<le> 32"
  using card_mono [OF _ bits_of_subset] by simp

lemma bits_of_clear: "m \<noteq> 0 \<Longrightarrow> bits_of (drop_fls m) = bits_of m - {fls m}"
  using fls_bits(3) by (auto simp: bits_of_def)

lemma bits_of_and_not: "bits_of (w AND NOT (push_bit k 1)) = bits_of w - {k}"
  by (auto simp: bits_of_def bit_and_iff bit_not_iff bit_exp_iff dest: bit_imp_le_length)

lemmas bits_of_and_not_exp = bits_of_and_not [unfolded push_bit_of_1]

lemma bits_of_eq_empty: "bits_of w = {} \<longleftrightarrow> w = 0"
  by (auto simp: bits_of_def intro: bit_word_eqI)

lemma bits_of_fls_card: "m \<noteq> 0 \<Longrightarrow> card (bits_of (drop_fls m)) < card (bits_of m)"
  unfolding bits_of_clear by (rule card_Diff1_less) (auto simp: bits_of_def fls_bits(1))

lemma bits_of_fls_insert: "m \<noteq> 0 \<Longrightarrow> bits_of m = insert (fls m) (bits_of (drop_fls m))"
  using fls_bits(1, 3) by (auto simp: bits_of_def)

function timer_scan :: "u32 \<Rightarrow> u64 \<Rightarrow> u64 \<Rightarrow> timers \<Rightarrow> u64 \<times> timers" where
  "timer_scan check_timer now_val next s =
     (if check_timer = 0 then (next, s)
      else
        let tskid = fls check_timer
        in if timer_deadline s tskid \<le> now_val then timer_scan (drop_fls check_timer) now_val next (expire_timer tskid s)
           else if ts_hi (timer_deadline s tskid) = ts_hi now_val \<and> ts_lo (timer_deadline s tskid) < ts_lo next
           then timer_scan (drop_fls check_timer) now_val (timer_deadline s tskid) s
           else timer_scan (drop_fls check_timer) now_val next s)"
  by pat_completeness auto
termination
  by (relation "measure (\<lambda>(c, _). card (bits_of c))") (auto simp: bits_of_fls_card)

declare timer_scan.simps [simp del]

lemma timer_scan_0 [simp]: "timer_scan 0 nw nx s = (nx, s)"
  by (simp add: timer_scan.simps)

lemma timer_scan_step:
  "c \<noteq> 0 \<Longrightarrow> timer_scan c nw nx s =
     (if timer_deadline s (fls c) \<le> nw then timer_scan (drop_fls c) nw nx (expire_timer (fls c) s)
      else timer_scan (drop_fls c) nw
        (if ts_hi (timer_deadline s (fls c)) = ts_hi nw \<and> ts_lo (timer_deadline s (fls c)) < ts_lo nx
         then timer_deadline s (fls c) else nx) s)"
  by (subst timer_scan.simps) (simp add: Let_def)

lemma bits_induct [case_names zero step]:
  assumes "P 0" "\<And>c. c \<noteq> 0 \<Longrightarrow> P (drop_fls c) \<Longrightarrow> P c"
  shows "P c"
proof (induction "card (bits_of c)" arbitrary: c rule: less_induct)
  case less
  show ?case using assms less [OF bits_of_fls_card] by (cases "c = 0") auto
qed

lemma expire_timer_fields [simp]:
  "timer_deadline (expire_timer k s) = timer_deadline s" "next_deadline (expire_timer k s) = next_deadline s"
  "clksrc_high (expire_timer k s) = clksrc_high s" "hw_clock_event (expire_timer k s) = hw_clock_event s"
  "bits_of (timer_running (expire_timer k s)) = bits_of (timer_running s) - {k}"
  by (simp_all add: expire_timer_def bits_of_and_not del: push_bit_of_1)

lemma timer_scan_running:
  "timer_scan c nw nx s = (nx', s') \<Longrightarrow>
     timer_deadline s' = timer_deadline s \<and> next_deadline s' = next_deadline s \<and> clksrc_high s' = clksrc_high s
     \<and> hw_clock_event s' = hw_clock_event s
     \<and> bits_of (timer_running s') = bits_of (timer_running s) - {k \<in> bits_of c. timer_deadline s k \<le> nw}"
proof (induction c arbitrary: nx s rule: bits_induct)
  case zero
  then show ?case by (simp add: bits_of_eq_empty [THEN iffD2])
next
  case (step c)
  from step.IH [of _ "expire_timer (fls c) s"] step.IH [of _ s] step.prems show ?case
    unfolding bits_of_fls_insert [OF step.hyps] timer_scan_step [OF step.hyps] by (fastforce split: if_splits)
qed

text \<open>The timers of the current epoch that have not expired: what the scan looks for.\<close>

definition pending :: "(nat \<Rightarrow> u64) \<Rightarrow> u64 \<Rightarrow> nat set \<Rightarrow> u64 set" where
  "pending dl nw C = {dl k |k. k \<in> C \<and> nw < dl k \<and> ts_hi (dl k) = ts_hi nw}"

lemma pending_insert:
  "pending dl nw (insert k C) = (if nw < dl k \<and> ts_hi (dl k) = ts_hi nw then {dl k} else {}) \<union> pending dl nw C"
  by (auto simp: pending_def)

lemma timer_scan_next:
  "timer_scan c nw nx s = (nx', s') \<Longrightarrow>
     (nx' = nx \<or> nx' \<in> pending (timer_deadline s) nw (bits_of c)) \<and> ts_lo nx' \<le> ts_lo nx
     \<and> (\<forall>d \<in> pending (timer_deadline s) nw (bits_of c). ts_lo nx' \<le> ts_lo d)"
proof (induction c arbitrary: nx s rule: bits_induct)
  case zero
  then show ?case by (simp add: bits_of_eq_empty [THEN iffD2] pending_def)
next
  case (step c)
  show ?case
  proof (cases "timer_deadline s (fls c) \<le> nw")
    case True
    then show ?thesis using step.IH [of nx "expire_timer (fls c) s"] step.prems
      unfolding bits_of_fls_insert [OF step.hyps] timer_scan_step [OF step.hyps] by (simp add: pending_insert leD)
  next
    case False
    let ?nx = "if ts_hi (timer_deadline s (fls c)) = ts_hi nw \<and> ts_lo (timer_deadline s (fls c)) < ts_lo nx
       then timer_deadline s (fls c) else nx"
    from False step.prems have "timer_scan (drop_fls c) nw ?nx s = (nx', s')"
      by (simp only: timer_scan_step [OF step.hyps] if_False)
    from step.IH [OF this] False show ?thesis
      unfolding bits_of_fls_insert [OF step.hyps] pending_insert by (auto split: if_splits)
  qed
qed

text \<open>The inner \<open>do\<close> loop: scan again while a timer has been started meanwhile.\<close>

lemma timer_scan_no_new: "timer_running (snd (timer_scan (timer_running s) nw nx s)) AND NOT (timer_running s) = 0"
proof -
  obtain nx' s' where "timer_scan (timer_running s) nw nx s = (nx', s')" by fastforce
  from timer_scan_running [OF this] this
  have "bits_of (timer_running s' AND NOT (timer_running s)) = {}"
    by (auto simp: bits_of_def bit_and_iff bit_not_iff)
  then show ?thesis using \<open>timer_scan _ _ _ _ = _\<close> by (simp add: bits_of_eq_empty)
qed

function scan_retry :: "u64 \<Rightarrow> u64 \<Rightarrow> timers \<Rightarrow> u64 \<times> timers" where
  "scan_retry now_val next s =
     (case timer_scan (timer_running s) now_val next s of
        (next', s') \<Rightarrow>
          if timer_running s' AND NOT (timer_running s) \<noteq> 0 then scan_retry now_val next' s' else (next', s'))"
  by pat_completeness auto
termination
  by (relation "measure (\<lambda>_. 0)") (simp, metis snd_conv timer_scan_no_new)

declare scan_retry.simps [simp del]

lemma scan_retry_once: "scan_retry nw nx s = timer_scan (timer_running s) nw nx s"
  using timer_scan_no_new [of s nw nx] by (subst scan_retry.simps) (auto split: prod.splits)

text \<open>
  The outer loop reads the clock at the start and at the end of each round: \<open>clk\<close> gives the
  readings in order. \<open>None\<close> means that \<open>fuel\<close> rounds were not enough.
\<close>

fun process_loop :: "nat \<Rightarrow> (nat \<Rightarrow> u64) \<Rightarrow> nat \<Rightarrow> timers \<Rightarrow> (nat \<times> timers) option" where
  "process_loop 0 clk i s = None"
| "process_loop (Suc fuel) clk i s =
     (case scan_retry (clk i) (- 1) s of
        (next, s) \<Rightarrow>
          if ts_hi next = 0xffffffff then Some (i, s\<lparr>hw_clock_event := None, next_deadline := 0xffffffff\<rparr>)
          else
            let s = s\<lparr>hw_clock_event := Some (ts_lo next), next_deadline := ts_lo next\<rparr>
            in if next \<le> clk (Suc i) then process_loop fuel clk (Suc (Suc i)) s else Some (i, s))"

definition process_timers :: "nat \<Rightarrow> (nat \<Rightarrow> u64) \<Rightarrow> bool \<Rightarrow> timers \<Rightarrow> (nat \<times> timers) option" where
  "process_timers fuel clk overflow s =
     process_loop fuel clk 0 (if overflow then s\<lparr>clksrc_high := clksrc_high s + 1\<rparr> else s)"

section \<open>Starting and stopping timers\<close>

datatype tm_error = TM_SUCCESS | TM_ERROR_BUSY

text \<open>\<open>None\<close>: the assertion \<open>tskid < TASK_ID_COUNT\<close> failed.\<close>

definition timer_arm :: "nat \<Rightarrow> u64 \<Rightarrow> nat \<Rightarrow> timers \<Rightarrow> (tm_error \<times> timers) option" where
  "timer_arm task_count tstamp tskid s =
     (if \<not> tskid < task_count then None
      else if timer_running s AND push_bit tskid 1 \<noteq> 0 then Some (TM_ERROR_BUSY, s)
      else
        let s = s\<lparr>timer_deadline := (timer_deadline s)(tskid := tstamp),
                   timer_running := timer_running s OR push_bit tskid 1\<rparr>
        in Some (TM_SUCCESS,
             if ts_hi tstamp < clksrc_high s \<or> (ts_hi tstamp = clksrc_high s \<and> ts_lo tstamp \<le> next_deadline s)
             then s\<lparr>tm_calls := tm_calls s @ [TriggerTimerIrq]\<rparr> else s))"

definition timer_cancel :: "nat \<Rightarrow> nat \<Rightarrow> timers \<Rightarrow> timers option" where
  "timer_cancel task_count tskid s =
     (if \<not> tskid < task_count then None
      else Some (s\<lparr>timer_running := timer_running s AND NOT (push_bit tskid 1)\<rparr>))"

text \<open>The clock's low word is set in the hardware by the caller of these two.\<close>

definition force_time :: "u64 \<Rightarrow> timers \<Rightarrow> u32 \<times> timers" where
  "force_time ts s = (ts_lo ts, s\<lparr>clksrc_high := ts_hi ts, tm_calls := tm_calls s @ [TriggerTimerIrq]\<rparr>)"

definition timer_init :: "(u64 \<times> int \<times> int) option \<Rightarrow> timers \<Rightarrow> u32 \<times> timers" where
  "timer_init tag s =
     (case tag of
        Some (ts, version, sz) \<Rightarrow>
          if version = 1 \<and> sz = 8 then (ts_lo ts, s\<lparr>clksrc_high := ts_hi ts\<rparr>) else (0, s\<lparr>clksrc_high := 0\<rparr>)
      | None \<Rightarrow> (0, s\<lparr>clksrc_high := 0\<rparr>))"

definition timer_sysjump :: "u64 \<Rightarrow> u64 \<times> int \<times> int" where
  "timer_sysjump time = (time, 1, 8)"

section \<open>Delays\<close>

text \<open>
  The busy loop of \<open>udelay\<close>: \<open>rd\<close> are the values the low word has when it is read; the
  result is the number of reads made after the first one.
\<close>

fun udelay_loop :: "nat \<Rightarrow> (nat \<Rightarrow> u32) \<Rightarrow> nat \<Rightarrow> u32 \<Rightarrow> u32 \<Rightarrow> nat option" where
  "udelay_loop 0 rd i t0 us = None"
| "udelay_loop (Suc fuel) rd i t0 us = (if rd i - t0 \<le> us then udelay_loop fuel rd (Suc i) t0 us else Some i)"

definition udelay :: "nat \<Rightarrow> (nat \<Rightarrow> u32) \<Rightarrow> u32 \<Rightarrow> nat option" where
  "udelay fuel rd us = udelay_loop fuel rd 1 (rd 0) us"

text \<open>
  The loop of \<open>usleep\<close>: each round waits for events (\<open>ev i\<close>) and reads the clock. The result
  is the accumulated event mask and the rounds made.
\<close>

fun usleep_loop :: "nat \<Rightarrow> (nat \<Rightarrow> u32) \<Rightarrow> (nat \<Rightarrow> u32) \<Rightarrow> nat \<Rightarrow> u32 \<Rightarrow> u32 \<Rightarrow> u32 \<Rightarrow> (u32 \<times> nat) option" where
  "usleep_loop 0 rd ev i t0 us evt = None"
| "usleep_loop (Suc fuel) rd ev i t0 us evt =
     (let evt = evt OR ev i
      in if \<not> bit evt 31 \<and> rd (Suc i) - t0 < us then usleep_loop fuel rd ev (Suc i) t0 us evt
         else Some (evt, Suc i))"

text \<open>
  The events put back for the task, after the given number of rounds; before the scheduler
  has started it is a plain delay. A delay of 0 fails the assertion: the result is \<open>None\<close>.
\<close>

definition usleep :: "bool \<Rightarrow> nat \<Rightarrow> (nat \<Rightarrow> u32) \<Rightarrow> (nat \<Rightarrow> u32) \<Rightarrow> u32 \<Rightarrow> (u32 \<times> nat) option" where
  "usleep started fuel rd ev us =
     (if \<not> started then map_option (\<lambda>i. (0, i)) (udelay fuel (\<lambda>i. rd (Suc i)) us)
      else if us = 0 then None
      else map_option (\<lambda>(evt, i). (evt AND NOT (push_bit 31 1), i)) (usleep_loop fuel rd ev 0 (rd 0) us 0))"

section \<open>Correctness of the interrupt routine\<close>

lemma timer_scan_calls:
  "timer_scan c nw nx s = (nx', s') \<Longrightarrow>
     \<exists>ks. tm_calls s' = tm_calls s @ map TimerEvent ks \<and> distinct ks \<and> set ks = {k \<in> bits_of c. timer_deadline s k \<le> nw}"
proof (induction c arbitrary: nx s rule: bits_induct)
  case zero
  then show ?case by (auto simp: bits_of_eq_empty [THEN iffD2])
next
  case (step c)
  have notin: "fls c \<notin> bits_of (drop_fls c)" by (simp add: bits_of_clear step.hyps)
  show ?case
  proof (cases "timer_deadline s (fls c) \<le> nw")
    case True
    from True step.prems have "timer_scan (drop_fls c) nw nx (expire_timer (fls c) s) = (nx', s')"
      by (simp only: timer_scan_step [OF step.hyps] if_True)
    from step.IH [OF this] obtain ks where ks: "tm_calls s' = tm_calls (expire_timer (fls c) s) @ map TimerEvent ks"
        "distinct ks" "set ks = {k \<in> bits_of (drop_fls c). timer_deadline s k \<le> nw}" by auto
    then show ?thesis using True notin unfolding bits_of_fls_insert [OF step.hyps]
      by (intro exI [of _ "fls c # ks"]) (auto simp: expire_timer_def)
  next
    case False
    from False step.prems obtain nx2 where "timer_scan (drop_fls c) nw nx2 s = (nx', s')"
      by (simp only: timer_scan_step [OF step.hyps] if_False)
    from step.IH [OF this] obtain ks where ks: "tm_calls s' = tm_calls s @ map TimerEvent ks"
        "distinct ks" "set ks = {k \<in> bits_of (drop_fls c). timer_deadline s k \<le> nw}" by auto
    then show ?thesis using False unfolding bits_of_fls_insert [OF step.hyps]
      by (intro exI [of _ ks]) auto
  qed
qed

lemma ts_val_hi_lo [simp]: "ts_val (ts_hi t) (ts_lo t) = t"
  by (rule bit_word_eqI) (auto simp: ts_val_def ts_hi_def ts_lo_def bit_or_iff bit_push_bit_iff bit_ucast_iff bit_drop_bit_eq)

lemma unat_ts_hi: "unat (ts_hi t) = unat t div 2 ^ 32"
  using unsigned_less [of t, where ?'a = nat]
  by (simp add: ts_hi_def unsigned_ucast_eq unsigned_drop_bit_eq take_bit_eq_mod less_mult_imp_div_less)
    (simp add: drop_bit_eq_div less_mult_imp_div_less)

lemma unat_ts_lo: "unat (ts_lo t) = unat t mod 2 ^ 32"
  by (simp add: ts_lo_def unsigned_ucast_eq take_bit_eq_mod)

lemma same_hi_le: "ts_hi a = ts_hi b \<Longrightarrow> a \<le> b \<longleftrightarrow> ts_lo a \<le> ts_lo b"
  unfolding word_le_nat_alt unat_ts_lo
  by (metis add_le_cancel_left div_mult_mod_eq unat_ts_hi)

text \<open>
  What the routine guarantees when the clock read \<open>nw\<close> and then \<open>nw'\<close>: the timers expired,
  each once, and the hardware event set to the earliest one left in this epoch of the clock,
  still ahead of the last reading.
\<close>

definition alarm_ok :: "(nat \<Rightarrow> u64) \<Rightarrow> u64 \<Rightarrow> u64 \<Rightarrow> nat set \<Rightarrow> u32 option \<Rightarrow> bool" where
  "alarm_ok dl nw nw' C alarm =
     (case alarm of
        None \<Rightarrow> \<forall>d \<in> pending dl nw C. ts_lo d = 0xffffffff
      | Some l \<Rightarrow> \<exists>d \<in> pending dl nw C. l = ts_lo d \<and> nw' < d \<and> (\<forall>e \<in> pending dl nw C. d \<le> e))"

definition expired_ok :: "u64 \<Rightarrow> timers \<Rightarrow> timers \<Rightarrow> bool" where
  "expired_ok nw s s' \<longleftrightarrow> timer_deadline s' = timer_deadline s
     \<and> bits_of (timer_running s') = {k \<in> bits_of (timer_running s). nw < timer_deadline s k}
     \<and> (\<exists>ks. tm_calls s' = tm_calls s @ map TimerEvent ks \<and> distinct ks
          \<and> set ks = {k \<in> bits_of (timer_running s). timer_deadline s k \<le> nw})"

lemma scan_expired:
  "scan_retry nw nx s = (nx', s') \<Longrightarrow> expired_ok nw s s'"
  unfolding scan_retry_once expired_ok_def
  using timer_scan_running [of "timer_running s" nw nx s nx' s'] timer_scan_calls [of "timer_running s" nw nx s nx' s']
  by (auto simp: not_le)

lemma expired_trans:
  assumes a: "expired_ok a s t" and b: "expired_ok b t u" and le: "a \<le> b"
  shows "expired_ok b s u"
proof -
  obtain ks where ks: "tm_calls t = tm_calls s @ map TimerEvent ks" "distinct ks"
      "set ks = {k \<in> bits_of (timer_running s). timer_deadline s k \<le> a}" using a by (auto simp: expired_ok_def)
  obtain ls where ls: "tm_calls u = tm_calls t @ map TimerEvent ls" "distinct ls"
      "set ls = {k \<in> bits_of (timer_running t). timer_deadline t k \<le> b}" using b by (auto simp: expired_ok_def)
  have t: "timer_deadline t = timer_deadline s" "timer_deadline u = timer_deadline t"
      "bits_of (timer_running t) = {k \<in> bits_of (timer_running s). a < timer_deadline s k}"
      "bits_of (timer_running u) = {k \<in> bits_of (timer_running t). b < timer_deadline t k}"
    using a b by (auto simp: expired_ok_def)
  have "tm_calls u = tm_calls s @ map TimerEvent (ks @ ls) \<and> distinct (ks @ ls)
      \<and> set (ks @ ls) = {k \<in> bits_of (timer_running s). timer_deadline s k \<le> b}"
    using ks ls t le by (auto simp: not_le intro: order.trans)
  then show ?thesis unfolding expired_ok_def using t le by (intro conjI exI [of _ "ks @ ls"]) (auto intro: le_less_trans)
qed

lemma expired_ok_update [simp]:
  "expired_ok nw (s\<lparr>hw_clock_event := e, next_deadline := d\<rparr>) u = expired_ok nw s u"
  "expired_ok nw s (u\<lparr>hw_clock_event := e, next_deadline := d\<rparr>) = expired_ok nw s u"
  "expired_ok nw (s\<lparr>clksrc_high := h\<rparr>) u = expired_ok nw s u"
  by (simp_all add: expired_ok_def)

lemma ts_minus_1: "ts_hi (- 1) = 0xffffffff" "ts_lo (- 1) = 0xffffffff"
  by code_simp+

lemma scan_next:
  assumes "scan_retry nw (- 1) s = (nx, s')"
  shows "nx = - 1 \<and> (\<forall>d \<in> pending (timer_deadline s') nw (bits_of (timer_running s')). ts_lo d = 0xffffffff)
    \<or> nx \<in> pending (timer_deadline s') nw (bits_of (timer_running s'))
      \<and> (\<forall>e \<in> pending (timer_deadline s') nw (bits_of (timer_running s')). nx \<le> e)"
proof -
  have s': "timer_deadline s' = timer_deadline s"
      "bits_of (timer_running s') = {k \<in> bits_of (timer_running s). nw < timer_deadline s k}"
    using scan_expired [OF assms] by (auto simp: expired_ok_def)
  then have P: "pending (timer_deadline s') nw (bits_of (timer_running s'))
      = pending (timer_deadline s) nw (bits_of (timer_running s))" by (auto simp: pending_def)
  have max: "(0xffffffff :: u32) \<le> l \<Longrightarrow> l = 0xffffffff" for l
    using unsigned_less [of l, where ?'a = nat] by (simp add: word_le_nat_alt word_unat_eq_iff)
  have ge: "nx \<le> e" if "nx \<in> pending (timer_deadline s) nw C" "e \<in> pending (timer_deadline s) nw C" "ts_lo nx \<le> ts_lo e" for e C
    using that same_hi_le [of nx e] by (auto simp: pending_def)
  from timer_scan_next [OF assms [unfolded scan_retry_once]] show ?thesis
    unfolding P using ge max by (auto simp: ts_minus_1)
qed

lemma process_loop_correct:
  assumes "\<And>i. clk i \<le> clk (Suc i)" "\<And>j. ts_hi (clk j) \<noteq> 0xffffffff"
  shows "process_loop fuel clk i s = Some (j, s') \<Longrightarrow> expired_ok (clk j) s s' \<and> i \<le> j
     \<and> alarm_ok (timer_deadline s') (clk j) (clk (Suc j)) (bits_of (timer_running s')) (hw_clock_event s')"
proof (induction fuel arbitrary: i s)
  case (Suc fuel)
  obtain nx t where sc: "scan_retry (clk i) (- 1) s = (nx, t)" by fastforce
  note e = scan_expired [OF sc] and n = scan_next [OF sc]
  have hi: "ts_hi nx = 0xffffffff \<longleftrightarrow> nx = - 1"
    using n assms(2) [of i] ts_minus_1 by (auto simp: pending_def)
  show ?case
  proof (cases "nx \<noteq> - 1 \<and> nx \<le> clk (Suc i)")
    case True
    let ?t = "t\<lparr>hw_clock_event := Some (ts_lo nx), next_deadline := ts_lo nx\<rparr>"
    have "process_loop fuel clk (Suc (Suc i)) ?t = Some (j, s')"
      using Suc.prems True hi by (simp add: sc Let_def)
    from Suc.IH [OF this] have IH: "expired_ok (clk j) ?t s'" "Suc (Suc i) \<le> j"
        "alarm_ok (timer_deadline s') (clk j) (clk (Suc j)) (bits_of (timer_running s')) (hw_clock_event s')" by auto
    have "clk i \<le> clk j" using IH(2) lift_Suc_mono_le [of clk i j] assms(1) by simp
    from expired_trans [OF e _ this] IH show ?thesis by simp
  next
    case False
    then have s': "j = i" "s' = t\<lparr>hw_clock_event := (if nx = - 1 then None else Some (ts_lo nx)),
        next_deadline := (if nx = - 1 then 0xffffffff else ts_lo nx)\<rparr>"
      using Suc.prems hi by (auto simp: sc Let_def split: if_splits)
    have "- 1 \<notin> pending (timer_deadline t) (clk i) (bits_of (timer_running t))"
      using assms(2) [of i] ts_minus_1 by (auto simp: pending_def)
    then show ?thesis using e n False unfolding s' by (auto simp: alarm_ok_def not_le)
  qed
qed simp

lemma process_loop_total:
  assumes mono: "\<And>i. clk i \<le> clk (Suc i)" and hi: "\<And>j. ts_hi (clk j) \<noteq> 0xffffffff"
  shows "card {k \<in> bits_of (timer_running s). clk i < timer_deadline s k} < fuel \<Longrightarrow>
    \<exists>r. process_loop fuel clk i s = Some r"
proof (induction fuel arbitrary: i s)
  case (Suc fuel)
  obtain nx t where sc: "scan_retry (clk i) (- 1) s = (nx, t)" by fastforce
  show ?case
  proof (cases "nx = - 1 \<or> \<not> nx \<le> clk (Suc i)")
    case True
    then show ?thesis by (auto simp: sc Let_def ts_minus_1)
  next
    case False
    let ?t = "t\<lparr>hw_clock_event := Some (ts_lo nx), next_deadline := ts_lo nx\<rparr>"
    obtain k where k: "k \<in> bits_of (timer_running t)" "timer_deadline t k = nx" "clk i < nx" "ts_hi nx = ts_hi (clk i)"
      using scan_next [OF sc] False by (auto simp: pending_def)
    have t: "bits_of (timer_running t) = {k \<in> bits_of (timer_running s). clk i < timer_deadline s k}"
      using scan_expired [OF sc] by (auto simp: expired_ok_def)
    have "nx \<le> clk (Suc (Suc i))" using False mono order.trans by blast
    then have "card {k \<in> bits_of (timer_running t). clk (Suc (Suc i)) < timer_deadline t k}
        < card (bits_of (timer_running t))"
      by (intro psubset_card_mono psubsetI) (simp, blast, use k leD in blast)
    then have "\<exists>r. process_loop fuel clk (Suc (Suc i)) ?t = Some r"
      using Suc.prems by (intro Suc.IH) (simp add: t)
    then show ?thesis using False by (simp add: sc Let_def)
  qed
qed simp

lemma process_timers_returns:
  assumes "\<And>i. clk i \<le> clk (Suc i)" "\<And>i. ts_hi (clk i) \<noteq> 0xffffffff" "33 \<le> fuel"
  shows "\<exists>j tm'. process_timers fuel clk overflow tm = Some (j, tm') \<and> expired_ok (clk j) tm tm'
     \<and> alarm_ok (timer_deadline tm') (clk j) (clk (Suc j)) (bits_of (timer_running tm')) (hw_clock_event tm')"
proof -
  let ?tm = "if overflow then tm\<lparr>clksrc_high := clksrc_high tm + 1\<rparr> else tm"
  have "card {k \<in> bits_of (timer_running ?tm). clk 0 < timer_deadline ?tm k} \<le> card (bits_of (timer_running ?tm))"
    by (intro card_mono) auto
  with card_bits_of [of "timer_running ?tm"] assms(3)
  obtain j tm' where p: "process_loop fuel clk 0 ?tm = Some (j, tm')"
    using process_loop_total [of clk, OF assms(1,2), of ?tm 0 fuel] by fastforce
  from process_loop_correct [of clk, OF assms(1,2) p] p show ?thesis
    by (cases overflow) (auto simp: process_timers_def)
qed

text \<open>
  C9. The timer interrupt expires exactly the running timers whose deadline the clock has
  reached, sends each of their tasks one timer event, and leaves the hardware event set to
  the earliest remaining deadline of this epoch, ahead of the last clock reading: no timer of
  the epoch is missed.
\<close>

theorem process_timers_correct:
  assumes "\<And>i. clk i \<le> clk (Suc i)" "\<And>i. ts_hi (clk i) \<noteq> 0xffffffff"
    and "process_timers fuel clk overflow s = Some (j, s')"
  shows "expired_ok (clk j) s s'
     \<and> alarm_ok (timer_deadline s') (clk j) (clk (Suc j)) (bits_of (timer_running s')) (hw_clock_event s')"
proof -
  let ?s = "if overflow then s\<lparr>clksrc_high := clksrc_high s + 1\<rparr> else s"
  have "process_loop fuel clk 0 ?s = Some (j, s')" using assms(3) by (simp add: process_timers_def)
  from process_loop_correct [of clk, OF assms(1, 2) this] show ?thesis by (cases overflow) simp_all
qed

text \<open>
  The timer interrupt returns: with a clock that does not go back, at most 33 rounds are
  made whatever timers are running.
\<close>

theorem process_timers_total:
  assumes "\<And>i. clk i \<le> clk (Suc i)" "\<And>i. ts_hi (clk i) \<noteq> 0xffffffff" "33 \<le> fuel"
  shows "\<exists>j s'. process_timers fuel clk overflow s = Some (j, s')"
  using process_timers_returns [of clk, OF assms] by blast

section \<open>The clock\<close>

text \<open>
  \<open>get_time\<close> returns a time the clock really had while it ran, although it reads the two
  halves apart: the five reads happen at \<open>t0 \<le> \<dots> \<le> t4\<close>, less than one turn of the low word
  apart.
\<close>

theorem get_time_consistent:
  assumes "t0 \<le> t1" "t1 \<le> t2" "t2 \<le> t3" "t3 \<le> t4" "unat t4 - unat t0 < 2 ^ 32"
  shows "get_time (ts_hi t0) (ts_lo t1) (ts_hi t2) (ts_hi t3) (ts_lo t4) \<in> {t1, t4}"
proof (cases "ts_hi t0 = ts_hi t2")
  case True
  have "ts_hi t1 = ts_hi t0"
    using True assms(1, 2) div_le_mono [of "unat t0" "unat t1" "2 ^ 32"] div_le_mono [of "unat t1" "unat t2" "2 ^ 32"]
    unfolding word_unat_eq_iff unat_ts_hi word_le_nat_alt by linarith
  then have "ts_val (ts_hi t0) (ts_lo t1) = t1" using ts_val_hi_lo [of t1] by simp
  then show ?thesis using True by (simp add: get_time_def)
next
  case False
  have le: "unat t0 \<le> unat t2" "unat t2 \<le> unat t3" "unat t3 \<le> unat t4" "unat t4 < unat t0 + 2 ^ 32"
    using assms by (auto simp: word_le_nat_alt)
  have "unat t0 div 2 ^ 32 < unat t2 div 2 ^ 32"
    using False le(1) div_le_mono [of "unat t0" "unat t2" "2 ^ 32"]
    by (simp add: word_unat_eq_iff unat_ts_hi del: One_nat_def)
  moreover have "unat t4 div 2 ^ 32 \<le> (unat t0 + 2 ^ 32) div 2 ^ 32" using le(4) by (intro div_le_mono) simp
  moreover have "(unat t0 + 2 ^ 32) div 2 ^ 32 = Suc (unat t0 div 2 ^ 32)" by simp
  moreover have "unat t2 div 2 ^ 32 \<le> unat t3 div 2 ^ 32" "unat t3 div 2 ^ 32 \<le> unat t4 div 2 ^ 32"
    using le by (auto intro: div_le_mono)
  ultimately have "ts_hi t3 = ts_hi t4" unfolding word_unat_eq_iff unat_ts_hi by linarith
  then show ?thesis using False by (simp add: get_time_def)
qed

text \<open>
  \<open>timestamp_expired\<close> compares correctly across the wrap of the 64-bit counter, as long as
  the two times are less than half a turn apart.
\<close>

theorem timestamp_expired_window:
  assumes "d < 2 ^ 63"
  shows "timestamp_expired deadline (deadline + word_of_nat d) \<and> (d \<noteq> 0 \<longrightarrow> \<not> timestamp_expired (deadline + word_of_nat d) deadline)"
proof -
  have pos: "sint (word_of_nat d :: u64) = int d"
    using assms by (simp add: signed_of_nat signed_take_bit_int_eq_self)
  moreover have "sint (- word_of_nat d :: u64) = - int d"
  proof -
    have "(- word_of_nat d :: u64) = word_of_int (- int d)" by simp
    then show ?thesis using assms by (simp only: sint_sbintrunc') (simp add: signed_take_bit_int_eq_self)
  qed
  ultimately show ?thesis by (simp add: timestamp_expired_def)
qed

lemma udelay_loop_spec:
  "udelay_loop fuel rd i t0 us = Some j \<Longrightarrow> i \<le> j \<and> us < rd j - t0 \<and> (\<forall>k. i \<le> k \<and> k < j \<longrightarrow> rd k - t0 \<le> us)"
proof (induction fuel arbitrary: i)
  case (Suc fuel)
  show ?case
  proof (cases "rd i - t0 \<le> us")
    case True
    then have "udelay_loop fuel rd (Suc i) t0 us = Some j" using Suc.prems by simp
    from Suc.IH [OF this] True show ?thesis by (metis Suc_leD Suc_leI le_neq_implies_less)
  next
    case False
    then have "j = i" "us < rd i - t0" using Suc.prems by auto
    then show ?thesis by auto
  qed
qed simp

lemma udelay_loop_total:
  "us < rd k - t0 \<Longrightarrow> i \<le> k \<Longrightarrow> k - i < fuel \<Longrightarrow> \<exists>j. udelay_loop fuel rd i t0 us = Some j"
proof (induction fuel arbitrary: i)
  case (Suc fuel)
  show ?case
  proof (cases "i = k")
    case True
    then show ?thesis using Suc.prems by (auto simp: not_le)
  next
    case False
    then show ?thesis using Suc.IH [of "Suc i"] Suc.prems by auto
  qed
qed simp

text \<open>
  \<open>udelay\<close> returns once the hardware counter has advanced by more than the delay, also
  when the counter wraps meanwhile, and not before.
\<close>

theorem udelay_correct:
  assumes "us < rd k - rd 0" "1 \<le> k" "k \<le> fuel"
  shows "\<exists>i. udelay fuel rd us = Some i \<and> us < rd i - rd 0 \<and> (\<forall>j. 1 \<le> j \<and> j < i \<longrightarrow> rd j - rd 0 \<le> us)"
proof -
  obtain i where "udelay_loop fuel rd 1 (rd 0) us = Some i"
    using udelay_loop_total [of us rd k "rd 0" 1 fuel] assms by force
  from udelay_loop_spec [OF this] this show ?thesis by (auto simp: udelay_def)
qed

section \<open>Concrete timers\<close>

definition ex_timers :: timers where
  "ex_timers = \<lparr>clksrc_high = 0, timer_running = 0x26, timer_deadline = (\<lambda>k. if k = 1 then 50 else if k = 2 then 400 else 200),
     next_deadline = 0xffffffff, hw_clock_event = None, tm_calls = []\<rparr>"

definition ex_clk :: "nat \<Rightarrow> u64" where
  "ex_clk i = (if i = 0 then 100 else 300)"

lemma ex_clk_mono: "ex_clk i \<le> ex_clk (Suc i)" "ts_hi (ex_clk i) \<noteq> 0xffffffff"
  by (simp_all add: ex_clk_def) code_simp+

lemma ex_process:
  "map_option (\<lambda>(j, s). (j, tm_calls s, hw_clock_event s, timer_running s)) (process_timers 33 ex_clk False ex_timers)
   = Some (2, [TimerEvent 1, TimerEvent 5], Some 400, 4)"
  by code_simp

theorem process_timers_correct_witness:
  "\<exists>s'. process_timers 33 ex_clk False ex_timers = Some (2, s') \<and> expired_ok (ex_clk 2) ex_timers s'
     \<and> hw_clock_event s' = Some 400
     \<and> alarm_ok (timer_deadline s') (ex_clk 2) (ex_clk 3) (bits_of (timer_running s')) (hw_clock_event s')"
proof -
  obtain s' where s': "process_timers 33 ex_clk False ex_timers = Some (2, s')" "hw_clock_event s' = Some 400"
    using ex_process by auto
  have "Suc 2 = (3 :: nat)" by simp
  with process_timers_correct [of ex_clk, OF ex_clk_mono s'(1)] s' show ?thesis by metis
qed

theorem process_timers_total_witness:
  "\<exists>j s'. process_timers 33 ex_clk True ex_timers = Some (j, s')"
  by (rule process_timers_total [of ex_clk, OF ex_clk_mono]) simp

theorem get_time_consistent_witness:
  "get_time (ts_hi 0xfffffffe) (ts_lo 0xffffffff) (ts_hi 0x100000000) (ts_hi 0x100000000) (ts_lo 0x100000001)
   \<in> {0xffffffff, 0x100000001}"
  by (rule get_time_consistent) simp_all

theorem timestamp_expired_window_witness:
  "timestamp_expired (- 5) (- 5 + word_of_nat 10) \<and> \<not> timestamp_expired (- 5 + word_of_nat 10) (- 5)"
  using timestamp_expired_window [of 10 "- 5"] by simp

theorem udelay_correct_witness:
  "\<exists>i. udelay 20 (\<lambda>n. 0xfffffffa + 2 * of_nat n) 9 = Some i \<and> 9 < (0xfffffffa + 2 * of_nat i) - (0xfffffffa :: u32)"
  using udelay_correct [of 9 "\<lambda>n. 0xfffffffa + 2 * of_nat n" 5 20] by auto
end
