(* ===== verification/Task.thy ===== *)
theory Task
  imports EC_Prelude Timer
begin

text \<open>
  The task scheduler, events and mutexes of core/cortex-m0/task.c. The scheduler is a
  function on its bitmaps; a task that blocks in \<open>__wait_evt\<close> is resumed after the rest of
  the system (\<open>world\<close>, a parameter) has run. The mutex is a step relation over the program
  counters of all tasks, one step per atomic section of the code, so that its theorems hold
  for every interleaving. \<open>None\<close> stands for a failed assertion, or for a wait that has not
  ended within the given number of rounds.
\<close>

section \<open>Scheduler state\<close>

abbreviation (input) TASK_ID_IDLE :: nat where "TASK_ID_IDLE \<equiv> 0"
abbreviation (input) EVENT_MUTEX_BIT :: nat where "EVENT_MUTEX_BIT \<equiv> 30"
abbreviation (input) EVENT_TIMER_BIT :: nat where "EVENT_TIMER_BIT \<equiv> 31"

record sched =
  tasks_ready :: u32
  tasks_enabled :: u32
  current_task :: nat
  task_events :: "nat \<Rightarrow> u32"
  start_called :: bool
  pend_sv :: bool

definition event_or :: "nat \<Rightarrow> u32 \<Rightarrow> sched \<Rightarrow> sched" where
  "event_or tskid ev s = s\<lparr>task_events := (task_events s)(tskid := task_events s tskid OR ev)\<rparr>"

definition event_clear :: "nat \<Rightarrow> u32 \<Rightarrow> sched \<Rightarrow> sched" where
  "event_clear tskid ev s = s\<lparr>task_events := (task_events s)(tskid := task_events s tskid AND NOT ev)\<rparr>"

text \<open>The scheduling system call: \<open>__svc_handler\<close>, reached by \<open>__schedule\<close>.\<close>

definition svc_handler :: "bool \<Rightarrow> nat \<Rightarrow> sched \<Rightarrow> sched option" where
  "svc_handler desched resched s =
     (let ready = (if desched \<and> task_events s (current_task s) = 0
                   then tasks_ready s AND NOT (push_bit (current_task s) 1) else tasks_ready s);
          ready = ready OR push_bit resched 1
      in if ready AND tasks_enabled s = 0 then None
         else Some (s\<lparr>tasks_ready := ready, current_task := fls (ready AND tasks_enabled s)\<rparr>))"

definition task_enable_all_tasks :: "nat \<Rightarrow> sched \<Rightarrow> sched option" where
  "task_enable_all_tasks task_count s =
     svc_handler False 0 (s\<lparr>tasks_ready := push_bit task_count 1 - 1, tasks_enabled := push_bit task_count 1 - 1\<rparr>)"

section \<open>Waiting for events\<close>

type_synonym sys = "sched \<times> timers"

text \<open>
  The loop of \<open>__wait_evt\<close>; \<open>i\<close> counts the times the task has been resumed. The result has
  the events read, the state after \<open>atomic_read_clear\<close> and the new count.
\<close>

fun wait_evt_loop :: "nat \<Rightarrow> (nat \<Rightarrow> sys \<Rightarrow> sys) \<Rightarrow> nat \<Rightarrow> nat \<Rightarrow> nat \<Rightarrow> sys \<Rightarrow> (u32 \<times> nat \<times> sys) option" where
  "wait_evt_loop 0 world me resched i st = None"
| "wait_evt_loop (Suc fuel) world me resched i st =
     (let evt = task_events (fst st) me; s = (fst st)\<lparr>task_events := (task_events (fst st))(me := 0)\<rparr>
      in if evt \<noteq> 0 then Some (evt, i, (s, snd st))
         else case svc_handler True resched s of
                None \<Rightarrow> None
              | Some s \<Rightarrow> wait_evt_loop fuel world me TASK_ID_IDLE (Suc i) (world i (s, snd st)))"

definition wait_evt ::
  "nat \<Rightarrow> (nat \<Rightarrow> sys \<Rightarrow> sys) \<Rightarrow> nat \<Rightarrow> u64 \<Rightarrow> int \<Rightarrow> nat \<Rightarrow> nat \<Rightarrow> sys \<Rightarrow> (u32 \<times> nat \<times> sys) option" where
  "wait_evt fuel world task_count time timeout_us resched i st =
     (let me = current_task (fst st);
          armed = (if 0 < timeout_us
                   then (case timer_arm task_count (time + word_of_int timeout_us) me (snd st) of
                           Some (TM_SUCCESS, tm) \<Rightarrow> Some tm
                         | _ \<Rightarrow> None)
                   else Some (snd st))
      in case armed of
           None \<Rightarrow> None
         | Some tm \<Rightarrow>
             (case wait_evt_loop fuel world me resched i (fst st, tm) of
                None \<Rightarrow> None
              | Some (evt, i, (s, tm)) \<Rightarrow>
                  if 0 < timeout_us
                  then (case timer_cancel task_count me tm of
                          None \<Rightarrow> None
                        | Some tm \<Rightarrow> Some (evt, i, (event_clear me (push_bit EVENT_TIMER_BIT 1) s, tm)))
                  else Some (evt, i, (s, tm))))"

definition task_wait_event ::
  "nat \<Rightarrow> (nat \<Rightarrow> sys \<Rightarrow> sys) \<Rightarrow> nat \<Rightarrow> u64 \<Rightarrow> int \<Rightarrow> nat \<Rightarrow> sys \<Rightarrow> (u32 \<times> nat \<times> sys) option" where
  "task_wait_event fuel world task_count time timeout_us i st =
     wait_evt fuel world task_count time timeout_us TASK_ID_IDLE i st"

text \<open>\<open>in_irq\<close>: called in interrupt context. The result is the events waited for, if any.\<close>

definition task_set_event ::
  "nat \<Rightarrow> (nat \<Rightarrow> sys \<Rightarrow> sys) \<Rightarrow> nat \<Rightarrow> u64 \<Rightarrow> bool \<Rightarrow> nat \<Rightarrow> u32 \<Rightarrow> bool \<Rightarrow> nat \<Rightarrow> sys \<Rightarrow> (u32 \<times> nat \<times> sys) option" where
  "task_set_event fuel world task_count time in_irq tskid ev waiting i st =
     (let s = event_or tskid ev (fst st)
      in if in_irq
         then Some (0, i, (s\<lparr>tasks_ready := tasks_ready s OR push_bit tskid 1,
                            pend_sv := pend_sv s \<or> start_called s\<rparr>, snd st))
         else if waiting then wait_evt fuel world task_count time (-1) tskid i (s, snd st)
         else map_option (\<lambda>s. (0, i, (s, snd st))) (svc_handler False tskid s))"

text \<open>
  The loop of \<open>task_wait_event_mask\<close>. \<open>clk i\<close> is the time read after the task has been
  resumed \<open>i\<close> times; the remaining time is stored in an \<open>int\<close>.
\<close>

fun wait_mask_loop ::
  "nat \<Rightarrow> (nat \<Rightarrow> sys \<Rightarrow> sys) \<Rightarrow> nat \<Rightarrow> (nat \<Rightarrow> u64) \<Rightarrow> u32 \<Rightarrow> int \<Rightarrow> u64 \<Rightarrow> u32 \<Rightarrow> int \<Rightarrow> nat \<Rightarrow> sys
   \<Rightarrow> (u32 \<times> nat \<times> sys) option" where
  "wait_mask_loop 0 world task_count clk msk timeout_us deadline evs remaining i st = None"
| "wait_mask_loop (Suc fuel) world task_count clk msk timeout_us deadline evs remaining i st =
     (if evs AND msk \<noteq> 0 then Some (evs, i, st)
      else case wait_evt fuel world task_count (clk i) remaining TASK_ID_IDLE i st of
             None \<Rightarrow> None
           | Some (e, i, st) \<Rightarrow>
               (let evs = evs OR e; remaining = s32 (uint (deadline - clk i))
                in if 0 < timeout_us \<and> remaining \<le> 0 then Some (evs OR push_bit EVENT_TIMER_BIT 1, i, st)
                   else wait_mask_loop fuel world task_count clk msk timeout_us deadline evs remaining i st))"

definition task_wait_event_mask ::
  "nat \<Rightarrow> (nat \<Rightarrow> sys \<Rightarrow> sys) \<Rightarrow> nat \<Rightarrow> (nat \<Rightarrow> u64) \<Rightarrow> u32 \<Rightarrow> int \<Rightarrow> nat \<Rightarrow> sys \<Rightarrow> (u32 \<times> nat \<times> sys) option" where
  "task_wait_event_mask fuel world task_count clk event_mask timeout_us i st =
     (let deadline = clk i + word_of_int timeout_us;
          msk = event_mask OR push_bit EVENT_TIMER_BIT 1
      in case wait_mask_loop fuel world task_count clk msk timeout_us deadline 0 timeout_us i st of
           None \<Rightarrow> None
         | Some (evs, i, (s, tm)) \<Rightarrow>
             Some (evs AND msk, i,
                   (if evs AND NOT msk \<noteq> 0 then event_or (current_task s) (evs AND NOT msk) s else s, tm)))"

section \<open>Interrupt priorities\<close>

text \<open>One round of the loop of \<open>__nvic_init_irqs\<close>: a two-bit field per interrupt.\<close>

definition nvic_set_priority :: "nat \<times> nat \<Rightarrow> (nat \<Rightarrow> u32) \<Rightarrow> nat \<Rightarrow> u32" where
  "nvic_set_priority = (\<lambda>(irq, prio) pri.
     let shift = irq mod 4 * 8 + 6; prio = (if 3 < prio then 3 else prio)
     in pri(irq div 4 := (pri (irq div 4) AND NOT (push_bit shift 3)) OR push_bit shift (word_of_nat prio)))"

definition nvic_init_irqs :: "(nat \<times> nat) list \<Rightarrow> (nat \<Rightarrow> u32) \<Rightarrow> nat \<Rightarrow> u32" where
  "nvic_init_irqs irqprio pri = fold nvic_set_priority irqprio pri"

definition nvic_priority :: "(nat \<Rightarrow> u32) \<Rightarrow> nat \<Rightarrow> u32" where
  "nvic_priority pri irq = drop_bit (irq mod 4 * 8 + 6) (pri (irq div 4)) AND 3"

section \<open>The scheduler picks the right task\<close>

definition runnable :: "sched \<Rightarrow> nat set" where
  "runnable s = bits_of (tasks_ready s) \<inter> bits_of (tasks_enabled s)"

lemma bits_of_and: "bits_of (a AND b) = bits_of a \<inter> bits_of b"
  by (auto simp: bits_of_def bit_and_iff)

lemma bits_of_or [simp]: "bits_of (a OR b) = bits_of a \<union> bits_of b"
  by (auto simp: bits_of_def bit_or_iff)

lemma bits_of_push_bit: "k < 32 \<Longrightarrow> bits_of (push_bit k 1) = {k}"
  by (auto simp: bits_of_def bit_exp_iff)

lemma bits_of_0 [simp]: "bits_of 0 = {}"
  by (simp add: bits_of_def)

lemma fls_Max: "m \<noteq> 0 \<Longrightarrow> fls m = Max (bits_of m)"
  using get_next_bit_spec(1, 3) [of m "fls m" "drop_fls m"]
  by (intro Max_eqI [symmetric]) (auto simp: bits_of_def get_next_bit_def fls_def drop_fls_def Let_def not_less [symmetric])

text \<open>
  The scheduler's invariant: a task with events to read is never left out of the ready set,
  the running task is ready and enabled, and so is the idle task.
\<close>

definition sched_inv :: "sched \<Rightarrow> bool" where
  "sched_inv s \<longleftrightarrow> (\<forall>t < 32. task_events s t \<noteq> 0 \<longrightarrow> t \<in> bits_of (tasks_ready s))
     \<and> current_task s \<in> runnable s \<and> TASK_ID_IDLE \<in> bits_of (tasks_enabled s)"

definition ready_after :: "bool \<Rightarrow> nat \<Rightarrow> sched \<Rightarrow> nat set" where
  "ready_after desched resched s = insert resched (bits_of (tasks_ready s) -
     (if desched \<and> task_events s (current_task s) = 0 then {current_task s} else {}))"

definition svc_ready :: "bool \<Rightarrow> nat \<Rightarrow> sched \<Rightarrow> u32" where
  "svc_ready desched resched s = (if desched \<and> task_events s (current_task s) = 0
     then tasks_ready s AND NOT (push_bit (current_task s) 1) else tasks_ready s) OR push_bit resched 1"

lemma svc_handler_ready:
  "svc_handler desched resched s = (let ready = svc_ready desched resched s in
     if ready AND tasks_enabled s = 0 then None
     else Some (s\<lparr>tasks_ready := ready, current_task := fls (ready AND tasks_enabled s)\<rparr>))"
  by (simp add: svc_handler_def svc_ready_def Let_def)

lemma bits_of_svc_ready: "resched < 32 \<Longrightarrow> bits_of (svc_ready desched resched s) = ready_after desched resched s"
  by (simp add: svc_ready_def ready_after_def bits_of_and_not bits_of_push_bit del: push_bit_of_1)

lemma svc_handler_Some:
  assumes "svc_handler desched resched s = Some s'" "resched < 32"
  shows "bits_of (tasks_ready s') = ready_after desched resched s" "current_task s' = Max (runnable s')"
    "current_task s' \<in> runnable s'" "tasks_enabled s' = tasks_enabled s" "task_events s' = task_events s"
    "start_called s' = start_called s"
proof -
  show "bits_of (tasks_ready s') = ready_after desched resched s"
      "tasks_enabled s' = tasks_enabled s" "task_events s' = task_events s" "start_called s' = start_called s"
    using assms by (auto simp: svc_handler_ready Let_def bits_of_svc_ready split: if_splits)
  have "current_task s' = fls (tasks_ready s' AND tasks_enabled s')" "tasks_ready s' AND tasks_enabled s' \<noteq> 0"
    using assms(1) by (auto simp: svc_handler_ready Let_def split: if_splits)
  moreover from this fls_bits(1) have "fls (tasks_ready s' AND tasks_enabled s') \<in> runnable s'"
    by (auto simp: runnable_def bits_of_and [symmetric]) (auto simp: bits_of_def)
  ultimately show "current_task s' = Max (runnable s')" "current_task s' \<in> runnable s'"
    by (auto simp: runnable_def fls_Max bits_of_and)
qed

lemma svc_handler_total:
  assumes "resched < 32" "ready_after desched resched s \<inter> bits_of (tasks_enabled s) \<noteq> {}"
  shows "\<exists>s'. svc_handler desched resched s = Some s'"
proof -
  have "svc_ready desched resched s AND tasks_enabled s \<noteq> 0"
    using assms unfolding bits_of_eq_empty [symmetric] bits_of_and by (simp add: bits_of_svc_ready)
  then show ?thesis by (simp add: svc_handler_ready Let_def)
qed

lemma svc_handler_inv:
  assumes "sched_inv s" "svc_handler desched resched s = Some s'" "resched < 32"
  shows "sched_inv s'"
  using assms(1) svc_handler_Some [OF assms(2, 3)] by (auto simp: sched_inv_def ready_after_def)

text \<open>
  C8. Every scheduling call does exactly what it was asked for. The caller leaves the ready tasks if it
  gives up the processor and has no event pending, the task to be resumed joins them, and nothing
  else about the tasks changes; the processor goes to the enabled and ready task of the highest
  number, which is the most urgent; and the invariant of the scheduler is kept. The assertion cannot
  fail as long as a task that gives up the processor names an enabled task, for instance the idle task.
\<close>

theorem scheduler_correct:
  assumes "sched_inv s" "resched < 32" "\<not> desched \<or> resched \<in> bits_of (tasks_enabled s)"
  shows "\<exists>s'. svc_handler desched resched s = Some s' \<and> sched_inv s'
     \<and> bits_of (tasks_ready s') = insert resched (bits_of (tasks_ready s)
          - (if desched \<and> task_events s (current_task s) = 0 then {current_task s} else {}))
     \<and> tasks_enabled s' = tasks_enabled s \<and> task_events s' = task_events s
     \<and> current_task s' \<in> bits_of (tasks_ready s') \<inter> bits_of (tasks_enabled s')
     \<and> (\<forall>k \<in> bits_of (tasks_ready s') \<inter> bits_of (tasks_enabled s'). k \<le> current_task s')
     \<and> (desched \<and> task_events s (current_task s) = 0 \<and> current_task s \<noteq> resched \<longrightarrow> current_task s' \<noteq> current_task s)"
proof -
  have "ready_after desched resched s \<inter> bits_of (tasks_enabled s) \<noteq> {}"
    using assms by (auto simp: ready_after_def sched_inv_def runnable_def)
  from svc_handler_total [OF assms(2) this] obtain s' where s': "svc_handler desched resched s = Some s'" by blast
  note f = svc_handler_Some [OF s' assms(2)]
  have "k \<le> current_task s'" if "k \<in> bits_of (tasks_ready s') \<inter> bits_of (tasks_enabled s')" for k
    using that f(2) by (simp add: runnable_def)
  then show ?thesis using s' svc_handler_inv [OF assms(1) s' assms(2)] f
    by (auto simp: ready_after_def runnable_def)
qed

lemma sched_inv_event_or:
  assumes "sched_inv s" "tskid < 32"
  shows "sched_inv (event_or tskid ev s\<lparr>tasks_ready := tasks_ready s OR push_bit tskid 1, pend_sv := b\<rparr>)"
  using assms by (auto simp: sched_inv_def event_or_def runnable_def bits_of_push_bit simp del: push_bit_of_1)

text \<open>
  An event sent from an interrupt, or without waiting from a task, always reaches the
  receiver: its bits are set, the receiver is ready, and the invariant is kept.
\<close>

theorem set_event_delivers:
  assumes "sched_inv s" "tskid < 32"
  shows "\<exists>s'. task_set_event fuel world n time in_irq tskid ev False i (s, tm) = Some (0, i, (s', tm)) \<and> sched_inv s'
     \<and> tskid \<in> bits_of (tasks_ready s') \<and> task_events s' tskid = task_events s tskid OR ev"
proof (cases in_irq)
  case True
  then show ?thesis using assms sched_inv_event_or [OF assms]
    by (auto simp: task_set_event_def Let_def bits_of_push_bit event_or_def simp del: push_bit_of_1)
next
  case False
  let ?s = "event_or tskid ev s"
  have "ready_after False tskid ?s \<inter> bits_of (tasks_enabled ?s) \<noteq> {}"
    using assms by (auto simp: ready_after_def sched_inv_def runnable_def event_or_def)
  from svc_handler_total [OF assms(2) this] obtain s' where s': "svc_handler False tskid ?s = Some s'" by blast
  note f = svc_handler_Some [OF s' assms(2)]
  have "sched_inv s'" using assms(1) f by (auto simp: sched_inv_def ready_after_def event_or_def)
  then show ?thesis using False s' f
    by (auto simp: task_set_event_def Let_def ready_after_def event_or_def)
qed

lemma wait_evt_loop_event:
  "wait_evt_loop fuel world me resched i st = Some (evt, j, st') \<Longrightarrow>
   evt \<noteq> 0 \<and> task_events (fst st') me = 0 \<and> i \<le> j \<and> (i = j \<longrightarrow> evt = task_events (fst st) me)"
proof (induction fuel arbitrary: resched i st)
  case (Suc fuel)
  show ?case
  proof (cases "task_events (fst st) me = 0")
    case True
    then obtain s2 where "wait_evt_loop fuel world me TASK_ID_IDLE (Suc i) (world i (s2, snd st)) = Some (evt, j, st')"
      using Suc.prems by (auto simp: Let_def split: option.splits)
    from Suc.IH [OF this] show ?thesis by auto
  next
    case False
    then show ?thesis using Suc.prems by (auto simp: Let_def)
  qed
qed simp

text \<open>
  A wait with a timeout returns only with an event to handle, and leaves no timer behind:
  the caller's timer is stopped and its timer event is cleared.
\<close>

theorem wait_evt_cleans_up:
  assumes "wait_evt fuel world n time timeout_us resched i (s, tm) = Some (evt, j, (s', tm'))" "0 < timeout_us"
  shows "evt \<noteq> 0 \<and> current_task s < n \<and> current_task s \<notin> bits_of (timer_running tm')
    \<and> \<not> bit (task_events s' (current_task s)) EVENT_TIMER_BIT"
  using assms
  by (auto simp: wait_evt_def timer_arm_def timer_cancel_def Let_def bits_of_and_not_exp event_clear_def bit_and_iff
      bit_not_iff bit_exp_iff dest!: wait_evt_loop_event split: option.splits tm_error.splits if_splits)

section \<open>Interrupt priorities are set independently\<close>

lemma field_bit:
  assumes "p \<le> 3" "k \<le> 30"
  shows "bit ((w AND NOT (push_bit k 3)) OR push_bit k (word_of_nat p) :: u32) m
    \<longleftrightarrow> (if k \<le> m \<and> m < k + 2 then bit (word_of_nat p :: u32) (m - k) else bit w m)"
proof -
  have three: "(3 :: u32) = mask 2" by (simp add: mask_eq_exp_minus_1)
  consider "p = 0" | "p = 1" | "p = 2" | "p = 3" using assms(1) by linarith
  then have "(word_of_nat p :: u32) = take_bit 2 (word_of_nat p)" by cases simp_all
  then have p: "bit (word_of_nat p :: u32) n \<longleftrightarrow> n < 2 \<and> bit (word_of_nat p :: u32) n" for n
    by (metis bit_take_bit_iff)
  show ?thesis unfolding three using assms(2) p [of "m - k"]
    by (auto simp: bit_or_iff bit_and_iff bit_not_iff bit_push_bit_iff bit_mask_iff dest: bit_imp_le_length)
qed

lemma nvic_priority_bit:
  "bit (nvic_priority pri irq) k \<longleftrightarrow> k < 2 \<and> bit (pri (irq div 4)) (irq mod 4 * 8 + 6 + k)"
proof -
  have three: "(3 :: u32) = mask 2" by (simp add: mask_eq_exp_minus_1)
  show ?thesis unfolding nvic_priority_def three
    by (auto simp: bit_and_iff bit_mask_iff bit_drop_bit_eq)
qed

lemma nvic_set_priority_bit:
  "bit (nvic_set_priority (irq, prio) pri r) m \<longleftrightarrow>
     (if r = irq div 4 \<and> irq mod 4 * 8 + 6 \<le> m \<and> m < irq mod 4 * 8 + 8
      then bit (word_of_nat (min prio 3) :: u32) (m - (irq mod 4 * 8 + 6)) else bit (pri r) m)"
proof -
  have "irq mod 4 \<le> 3" using mod_less_divisor [of 4 irq] by linarith
  then have sh: "irq mod 4 * 8 + 6 \<le> 30" by linarith
  have pr: "(if 3 < prio then 3 else prio) = min prio 3" by simp
  show ?thesis
  proof (cases "r = irq div 4")
    case True
    then show ?thesis using field_bit [of "min prio 3" "irq mod 4 * 8 + 6" "pri r" m, OF _ sh]
      by (simp add: nvic_set_priority_def pr Let_def add.commute [of _ 2] del: push_bit_numeral)
  next
    case False
    then show ?thesis by (simp add: nvic_set_priority_def Let_def)
  qed
qed

lemma nvic_set_same: "nvic_priority (nvic_set_priority (irq, prio) pri) irq = word_of_nat (min prio 3)"
proof (rule bit_word_eqI)
  fix k assume "k < LENGTH(32)"
  have "bit (word_of_nat (min prio 3) :: u32) k \<Longrightarrow> k < 2"
    using field_bit [of "min prio 3" 0 0 k] by (auto simp: bit_or_iff bit_and_iff split: if_splits)
  then show "bit (nvic_priority (nvic_set_priority (irq, prio) pri) irq) k = bit (word_of_nat (min prio 3) :: u32) k"
    by (auto simp: nvic_priority_bit nvic_set_priority_bit)
qed

lemma nvic_set_other:
  assumes "irq \<noteq> irq'"
  shows "nvic_priority (nvic_set_priority (irq, prio) pri) irq' = nvic_priority pri irq'"
proof -
  have "irq div 4 = irq' div 4 \<Longrightarrow> irq mod 4 \<noteq> irq' mod 4" using assms by (metis div_mult_mod_eq)
  then show ?thesis by (intro bit_word_eqI) (auto simp: nvic_priority_bit nvic_set_priority_bit)
qed

text \<open>
  After \<open>__nvic_init_irqs\<close> every listed interrupt has the priority listed last for it,
  capped at 3, and no other interrupt's field has changed.
\<close>

theorem nvic_init_priorities:
  "nvic_priority (nvic_init_irqs irqprio pri) irq =
     (case map_of (rev irqprio) irq of Some prio \<Rightarrow> word_of_nat (min prio 3) | None \<Rightarrow> nvic_priority pri irq)"
proof (induction irqprio rule: rev_induct)
  case (snoc x xs)
  obtain i p where x: "x = (i, p)" by (cases x)
  show ?case using snoc by (cases "i = irq") (auto simp: x nvic_init_irqs_def nvic_set_same nvic_set_other)
qed (simp add: nvic_init_irqs_def)

section \<open>Mutexes\<close>

text \<open>
  One mutex and where each task is in \<open>mutex_lock\<close> and \<open>mutex_unlock\<close>: outside, before the
  test of the lock, waiting for the wake-up event, owning the lock but still listed as a
  waiter, inside, and waking the waiters of its snapshot.
\<close>

datatype mutex_pc = Outside | Trying | Waiting | Owning | Inside | Waking u32

record mutex_sys =
  mtx_lock :: u32
  mtx_waiters :: u32
  mtx_events :: "nat \<Rightarrow> u32"
  mtx_pc :: "nat \<Rightarrow> mutex_pc"

definition goto_pc :: "nat \<Rightarrow> mutex_pc \<Rightarrow> mutex_sys \<Rightarrow> mutex_sys" where
  "goto_pc t p m = m\<lparr>mtx_pc := (mtx_pc m)(t := p)\<rparr>"

text \<open>The atomic sections of \<open>mutex_lock\<close>.\<close>

definition lock_enter :: "nat \<Rightarrow> mutex_sys \<Rightarrow> mutex_sys" where
  "lock_enter t m = goto_pc t Trying (m\<lparr>mtx_waiters := mtx_waiters m OR push_bit t 1\<rparr>)"

definition lock_try :: "nat \<Rightarrow> mutex_sys \<Rightarrow> mutex_sys" where
  "lock_try t m = (if mtx_lock m = 0 then goto_pc t Owning (m\<lparr>mtx_lock := 2\<rparr>) else goto_pc t Waiting m)"

definition lock_woken :: "nat \<Rightarrow> mutex_sys \<Rightarrow> mutex_sys" where
  "lock_woken t m = goto_pc t Trying
     (m\<lparr>mtx_events := (mtx_events m)(t := mtx_events m t AND NOT (push_bit EVENT_MUTEX_BIT 1))\<rparr>)"

definition lock_done :: "nat \<Rightarrow> mutex_sys \<Rightarrow> mutex_sys" where
  "lock_done t m = goto_pc t Inside (m\<lparr>mtx_waiters := mtx_waiters m AND NOT (push_bit t 1)\<rparr>)"

text \<open>The atomic sections of \<open>mutex_unlock\<close>.\<close>

definition unlock_release :: "nat \<Rightarrow> mutex_sys \<Rightarrow> mutex_sys" where
  "unlock_release t m = goto_pc t (Waking (mtx_waiters m)) (m\<lparr>mtx_lock := 0\<rparr>)"

definition unlock_wake :: "nat \<Rightarrow> u32 \<Rightarrow> mutex_sys \<Rightarrow> mutex_sys" where
  "unlock_wake t w m = goto_pc t (Waking (drop_fls w))
     (m\<lparr>mtx_events := (mtx_events m)(fls w := mtx_events m (fls w) OR push_bit EVENT_MUTEX_BIT 1)\<rparr>)"

definition unlock_done :: "nat \<Rightarrow> mutex_sys \<Rightarrow> mutex_sys" where
  "unlock_done t m = goto_pc t Outside
     (m\<lparr>mtx_events := (mtx_events m)(t := mtx_events m t AND NOT (push_bit EVENT_MUTEX_BIT 1))\<rparr>)"

text \<open>Any task may take its next step; other code changes only other event bits.\<close>

inductive mutex_step :: "mutex_sys \<Rightarrow> mutex_sys \<Rightarrow> bool" where
  enter: "t < 32 \<Longrightarrow> mtx_pc m t = Outside \<Longrightarrow> mutex_step m (lock_enter t m)"
| attempt: "t < 32 \<Longrightarrow> mtx_pc m t = Trying \<Longrightarrow> mutex_step m (lock_try t m)"
| woken: "t < 32 \<Longrightarrow> mtx_pc m t = Waiting \<Longrightarrow> bit (mtx_events m t) EVENT_MUTEX_BIT \<Longrightarrow> mutex_step m (lock_woken t m)"
| locked: "t < 32 \<Longrightarrow> mtx_pc m t = Owning \<Longrightarrow> mutex_step m (lock_done t m)"
| release: "t < 32 \<Longrightarrow> mtx_pc m t = Inside \<Longrightarrow> mutex_step m (unlock_release t m)"
| wake: "t < 32 \<Longrightarrow> mtx_pc m t = Waking w \<Longrightarrow> w \<noteq> 0 \<Longrightarrow> mutex_step m (unlock_wake t w m)"
| unlocked: "t < 32 \<Longrightarrow> mtx_pc m t = Waking 0 \<Longrightarrow> mutex_step m (unlock_done t m)"
| other: "\<forall>t. bit (ev t) EVENT_MUTEX_BIT \<longleftrightarrow> bit (mtx_events m t) EVENT_MUTEX_BIT \<Longrightarrow> mutex_step m (m\<lparr>mtx_events := ev\<rparr>)"

inductive mutex_reach :: "mutex_sys \<Rightarrow> bool" where
  start: "mtx_lock m = 0 \<Longrightarrow> \<forall>t. mtx_pc m t = Outside \<Longrightarrow> mutex_reach m"
| one_step: "mutex_reach m \<Longrightarrow> mutex_step m m' \<Longrightarrow> mutex_reach m'"

definition owner :: "mutex_sys \<Rightarrow> nat \<Rightarrow> bool" where
  "owner m t \<longleftrightarrow> mtx_pc m t = Owning \<or> mtx_pc m t = Inside"

definition will_wake :: "mutex_sys \<Rightarrow> nat \<Rightarrow> bool" where
  "will_wake m t \<longleftrightarrow> (\<exists>u w. mtx_pc m u = Waking w \<and> bit w t)"

lemmas mutex_defs = goto_pc_def lock_enter_def lock_try_def lock_woken_def lock_done_def unlock_release_def
  unlock_wake_def unlock_done_def

lemmas mutex_bits = bit_or_iff bit_and_iff bit_not_iff bit_exp_iff

lemma owner_goto: "owner (goto_pc t p m) u = (if u = t then p = Owning \<or> p = Inside else owner m u)"
  by (simp add: owner_def goto_pc_def)

lemma owner_update [simp]:
  "owner (m\<lparr>mtx_lock := l\<rparr>) = owner m" "owner (m\<lparr>mtx_waiters := w\<rparr>) = owner m" "owner (m\<lparr>mtx_events := e\<rparr>) = owner m"
  by (auto simp: owner_def fun_eq_iff)

text \<open>Exclusion and the waiters' list are kept by every step.\<close>

definition lock_inv :: "mutex_sys \<Rightarrow> bool" where
  "lock_inv m \<longleftrightarrow> (mtx_lock m = 0 \<longrightarrow> (\<forall>t. \<not> owner m t)) \<and> (\<forall>t u. owner m t \<and> owner m u \<longrightarrow> t = u)
     \<and> (mtx_lock m \<noteq> 0 \<longrightarrow> (\<exists>t. owner m t))"

lemma lock_inv_same:
  assumes "mtx_lock m' = mtx_lock m" "owner m' = owner m"
  shows "lock_inv m' = lock_inv m"
  using assms by (simp add: lock_inv_def)

lemma owner_goto_same: "owner m t = (p = Owning \<or> p = Inside) \<Longrightarrow> owner (goto_pc t p m) = owner m"
  by (auto simp: owner_goto fun_eq_iff)

lemma lock_inv_step: "mutex_step m m' \<Longrightarrow> lock_inv m \<Longrightarrow> lock_inv m'"
proof (induction rule: mutex_step.induct)
  case (attempt t m)
  show ?case
  proof (cases "mtx_lock m = 0")
    case True
    then show ?thesis using attempt
      by (simp add: lock_inv_def lock_try_def owner_goto) (auto simp: goto_pc_def)
  next
    case False
    have "owner (goto_pc t Waiting m) = owner m" using attempt by (intro owner_goto_same) (simp add: owner_def)
    then show ?thesis using lock_inv_same [of "goto_pc t Waiting m" m] False attempt
      by (simp add: lock_try_def) (simp add: goto_pc_def)
  qed
next
  case (release t m)
  then have "owner m u \<longleftrightarrow> u = t" for u by (auto simp: lock_inv_def owner_def)
  then show ?case by (simp add: lock_inv_def unlock_release_def owner_goto) (simp add: goto_pc_def)
next
  case (other ev m)
  then show ?case using lock_inv_same [of "m\<lparr>mtx_events := ev\<rparr>" m] by simp
qed (subst lock_inv_same; simp_all add: lock_enter_def lock_woken_def lock_done_def unlock_wake_def unlock_done_def
    owner_goto_same owner_def; simp add: goto_pc_def)+

definition waiters_inv :: "mutex_sys \<Rightarrow> bool" where
  "waiters_inv m \<longleftrightarrow> (\<forall>t. mtx_pc m t \<in> {Trying, Waiting, Owning} \<longrightarrow> bit (mtx_waiters m) t)"

lemma bit_u32_less: "bit (w :: u32) n \<Longrightarrow> n < 32"
  using bit_imp_le_length [of w n] by simp

lemma waiters_inv_step: "mutex_step m m' \<Longrightarrow> waiters_inv m \<Longrightarrow> waiters_inv m'"
  by (induction rule: mutex_step.induct) (auto simp: waiters_inv_def mutex_defs mutex_bits intro: bit_u32_less)

definition wakeup_inv :: "mutex_sys \<Rightarrow> bool" where
  "wakeup_inv m \<longleftrightarrow> (\<forall>t. mtx_pc m t = Waiting \<longrightarrow>
     bit (mtx_events m t) EVENT_MUTEX_BIT \<or> mtx_lock m \<noteq> 0 \<or> will_wake m t)"

lemma will_wake_goto: "\<forall>w. mtx_pc m t \<noteq> Waking w \<Longrightarrow> will_wake m u \<Longrightarrow> will_wake (goto_pc t p m) u"
  by (auto simp: will_wake_def goto_pc_def)

lemma will_wake_update [simp]:
  "will_wake (m\<lparr>mtx_lock := l\<rparr>) = will_wake m" "will_wake (m\<lparr>mtx_waiters := w\<rparr>) = will_wake m"
  "will_wake (m\<lparr>mtx_events := e\<rparr>) = will_wake m"
  by (auto simp: will_wake_def fun_eq_iff)

lemma wakeup_goto:
  assumes "wakeup_inv m" "\<forall>w. mtx_pc m t \<noteq> Waking w" "p = Waiting \<longrightarrow> mtx_lock m \<noteq> 0"
  shows "wakeup_inv (goto_pc t p m)"
  unfolding wakeup_inv_def
proof (intro allI impI)
  fix u assume u: "mtx_pc (goto_pc t p m) u = Waiting"
  have m: "mtx_events (goto_pc t p m) = mtx_events m" "mtx_lock (goto_pc t p m) = mtx_lock m" by (simp_all add: goto_pc_def)
  show "bit (mtx_events (goto_pc t p m) u) EVENT_MUTEX_BIT \<or> mtx_lock (goto_pc t p m) \<noteq> 0 \<or> will_wake (goto_pc t p m) u"
  proof (cases "u = t")
    case True
    then show ?thesis using u assms(3) unfolding m by (simp add: goto_pc_def)
  next
    case False
    then have "mtx_pc m u = Waiting" using u by (simp add: goto_pc_def)
    then show ?thesis using assms(1) will_wake_goto [OF assms(2)] unfolding m wakeup_inv_def by blast
  qed
qed

lemma wakeup_events:
  assumes "wakeup_inv m" "\<forall>u. mtx_pc m u = Waiting \<longrightarrow> bit (mtx_events m u) 30 \<longrightarrow> bit (ev u) 30"
  shows "wakeup_inv (m\<lparr>mtx_events := ev\<rparr>)"
  using assms by (auto simp: wakeup_inv_def)

lemma wakeup_update [simp]:
  "wakeup_inv (m\<lparr>mtx_waiters := w\<rparr>) = wakeup_inv m" "l \<noteq> 0 \<Longrightarrow> wakeup_inv (m\<lparr>mtx_lock := l\<rparr>)"
  by (simp_all add: wakeup_inv_def)

lemma wakeup_release:
  assumes "waiters_inv m" "mtx_pc m t = Inside"
  shows "wakeup_inv (unlock_release t m)"
  using assms by (auto simp: wakeup_inv_def will_wake_def unlock_release_def goto_pc_def waiters_inv_def)

lemma wakeup_wake:
  assumes "wakeup_inv m" "mtx_pc m t = Waking w" "w \<noteq> 0"
  shows "wakeup_inv (unlock_wake t w m)"
  unfolding wakeup_inv_def
proof (intro allI impI)
  let ?m = "unlock_wake t w m"
  fix u assume u: "mtx_pc ?m u = Waiting"
  then have "u \<noteq> t" "mtx_pc m u = Waiting" by (auto simp: unlock_wake_def goto_pc_def split: if_splits)
  moreover have "will_wake ?m u" if wake: "will_wake m u" and other: "u \<noteq> fls w"
  proof -
    obtain v x where v: "mtx_pc m v = Waking x" "bit x u" using wake by (auto simp: will_wake_def)
    have "mtx_pc ?m v = Waking (if v = t then drop_fls w else x)" using v(1) by (simp add: unlock_wake_def goto_pc_def)
    moreover have "bit (if v = t then drop_fls w else x) u"
      using v assms(2) other fls_bits(3) [OF assms(3), of u] by auto
    ultimately show ?thesis unfolding will_wake_def by blast
  qed
  ultimately show "bit (mtx_events ?m u) EVENT_MUTEX_BIT \<or> mtx_lock ?m \<noteq> 0 \<or> will_wake ?m u"
    using assms(1) unfolding wakeup_inv_def
    by (cases "u = fls w") (auto simp: unlock_wake_def goto_pc_def bit_or_iff bit_exp_iff)
qed

lemma wakeup_inv_step: "mutex_step m m' \<Longrightarrow> waiters_inv m \<Longrightarrow> wakeup_inv m \<Longrightarrow> wakeup_inv m'"
proof (induction rule: mutex_step.induct)
  case (unlocked t m)
  have "will_wake (unlock_done t m) u" if wake: "will_wake m u" for u
  proof -
    obtain v x where v: "mtx_pc m v = Waking x" "bit x u" using wake by (auto simp: will_wake_def)
    then have "v \<noteq> t" using unlocked by auto
    then show ?thesis using v by (auto simp: will_wake_def unlock_done_def goto_pc_def)
  qed
  then show ?case using unlocked by (auto simp: wakeup_inv_def unlock_done_def goto_pc_def split: if_splits)
next
  case (woken t m)
  let ?ev = "(mtx_events m)(t := mtx_events m t AND NOT (push_bit 30 1))"
  have "wakeup_inv (goto_pc t Trying m)" using woken by (intro wakeup_goto) auto
  then have "wakeup_inv ((goto_pc t Trying m)\<lparr>mtx_events := ?ev\<rparr>)" by (rule wakeup_events) (auto simp: goto_pc_def)
  moreover have "(goto_pc t Trying m)\<lparr>mtx_events := ?ev\<rparr> = lock_woken t m"
    by (simp add: lock_woken_def goto_pc_def)
  ultimately show ?case by simp
qed (auto simp: lock_enter_def lock_try_def lock_done_def wakeup_release wakeup_wake intro!: wakeup_goto
    intro: wakeup_events)

definition mutex_inv :: "mutex_sys \<Rightarrow> bool" where
  "mutex_inv m \<longleftrightarrow> lock_inv m \<and> waiters_inv m \<and> wakeup_inv m"

lemma mutex_reach_inv: "mutex_reach m \<Longrightarrow> mutex_inv m"
proof (induction rule: mutex_reach.induct)
  case (start m)
  then show ?case by (simp add: mutex_inv_def lock_inv_def waiters_inv_def wakeup_inv_def owner_def)
next
  case (one_step m m')
  then show ?case using lock_inv_step waiters_inv_step wakeup_inv_step by (simp add: mutex_inv_def)
qed

text \<open>
  C12. Mutual exclusion: in every interleaving at most one task is between the return of
  \<open>mutex_lock\<close> and its call of \<open>mutex_unlock\<close>.
\<close>

theorem mutex_exclusion:
  assumes "mutex_reach m" "mtx_pc m t = Inside" "mtx_pc m u = Inside"
  shows "t = u \<and> mtx_lock m \<noteq> 0"
  using mutex_reach_inv [OF assms(1)] assms(2, 3) unfolding mutex_inv_def lock_inv_def owner_def by blast

text \<open>
  C36. No wake-up is lost: whenever a task waits for the mutex, it has the wake-up event
  pending, or another task owns the mutex, or a task is in \<open>mutex_unlock\<close> and has the waiter
  still on its list.
\<close>

theorem mutex_no_lost_wakeup:
  assumes "mutex_reach m" "mtx_pc m t = Waiting"
  shows "bit (mtx_events m t) EVENT_MUTEX_BIT \<or> (\<exists>u. u \<noteq> t \<and> owner m u)
    \<or> (\<exists>u w. u \<noteq> t \<and> mtx_pc m u = Waking w \<and> bit w t)"
proof -
  have inv: "lock_inv m" "wakeup_inv m" using mutex_reach_inv [OF assms(1)] by (auto simp: mutex_inv_def)
  consider "bit (mtx_events m t) 30" | "mtx_lock m \<noteq> 0" | "will_wake m t"
    using inv(2) assms(2) by (auto simp: wakeup_inv_def)
  then show ?thesis
  proof cases
    case 2
    then obtain u where "owner m u" using inv(1) by (auto simp: lock_inv_def)
    moreover from this assms(2) have "u \<noteq> t" by (auto simp: owner_def)
    ultimately show ?thesis by blast
  next
    case 3
    then obtain u w where "mtx_pc m u = Waking w" "bit w t" by (auto simp: will_wake_def)
    moreover from this assms(2) have "u \<noteq> t" by auto
    ultimately show ?thesis by blast
  qed blast
qed

section \<open>Concrete runs\<close>

definition ex_sched :: sched where
  "ex_sched = \<lparr>tasks_ready = 0b1010, tasks_enabled = 0b1111, current_task = 3, task_events = (\<lambda>_. 0),
     start_called = True, pend_sv = False\<rparr>"

lemma ex_sched_inv: "sched_inv ex_sched"
  by (simp add: sched_inv_def ex_sched_def runnable_def bits_of_def bit_numeral_rec)

theorem scheduler_correct_witness:
  "\<exists>s'. svc_handler True TASK_ID_IDLE ex_sched = Some s' \<and> sched_inv s' \<and> current_task s' = 1
     \<and> bits_of (tasks_ready s') = insert TASK_ID_IDLE (bits_of (tasks_ready ex_sched) - {current_task ex_sched})"
proof -
  have c: "map_option current_task (svc_handler True 0 ex_sched) = Some 1" "task_events ex_sched (current_task ex_sched) = 0"
    "bit (tasks_enabled ex_sched) 0" by code_simp+
  then have "\<not> True \<or> TASK_ID_IDLE \<in> bits_of (tasks_enabled ex_sched)" by (simp add: bits_of_def)
  from scheduler_correct [OF ex_sched_inv _ this] c show ?thesis by auto
qed

theorem set_event_delivers_witness:
  "\<exists>s'. task_set_event 1 (\<lambda>_ st. st) 4 0 False 2 8 False 0 (ex_sched, ex_timers) = Some (0, 0, (s', ex_timers))
     \<and> sched_inv s' \<and> 2 \<in> bits_of (tasks_ready s') \<and> task_events s' 2 = task_events ex_sched 2 OR 8"
  by (rule set_event_delivers [OF ex_sched_inv]) simp

text \<open>The rest of the system lets the task's timer expire.\<close>

definition ex_world :: "nat \<Rightarrow> sys \<Rightarrow> sys" where
  "ex_world i = (\<lambda>(s, tm). (event_or 3 (push_bit 31 1) s, expire_timer 3 tm))"

theorem wait_evt_cleans_up_witness:
  "\<exists>evt j s' tm'. wait_evt 5 ex_world 4 0 500 TASK_ID_IDLE 0 (ex_sched, ex_timers) = Some (evt, j, (s', tm'))
     \<and> evt = push_bit 31 1 \<and> j = 1 \<and> evt \<noteq> 0 \<and> current_task ex_sched \<notin> bits_of (timer_running tm')"
proof -
  have e: "map_option (\<lambda>(evt, j, st). (evt, j)) (wait_evt 5 ex_world 4 0 500 0 0 (ex_sched, ex_timers))
      = Some (push_bit 31 1, 1)" by code_simp
  obtain s' tm' where w: "wait_evt 5 ex_world 4 0 500 0 0 (ex_sched, ex_timers) = Some (push_bit 31 1, 1, (s', tm'))"
    using e by auto
  from wait_evt_cleans_up [OF w] w show ?thesis by auto
qed

definition ex_mutex :: mutex_sys where
  "ex_mutex = \<lparr>mtx_lock = 0, mtx_waiters = 0, mtx_events = (\<lambda>_. 0), mtx_pc = (\<lambda>_. Outside)\<rparr>"

definition ex_contended :: mutex_sys where
  "ex_contended = lock_try 2 (lock_enter 2 (lock_done 1 (lock_try 1 (lock_enter 1 ex_mutex))))"

lemma ex_contended_reach: "mutex_reach ex_contended"
proof -
  have "mutex_reach ex_mutex" by (rule mutex_reach.start) (simp_all add: ex_mutex_def)
  then have "mutex_reach (lock_enter 1 ex_mutex)"
    by (rule mutex_reach.one_step) (rule mutex_step.enter, simp_all add: ex_mutex_def)
  then have "mutex_reach (lock_try 1 (lock_enter 1 ex_mutex))"
    by (rule mutex_reach.one_step) (rule mutex_step.attempt, simp_all add: mutex_defs ex_mutex_def)
  then have "mutex_reach (lock_done 1 (lock_try 1 (lock_enter 1 ex_mutex)))"
    by (rule mutex_reach.one_step) (rule mutex_step.locked, simp_all add: mutex_defs ex_mutex_def)
  then have "mutex_reach (lock_enter 2 (lock_done 1 (lock_try 1 (lock_enter 1 ex_mutex))))"
    by (rule mutex_reach.one_step) (rule mutex_step.enter, simp_all add: mutex_defs ex_mutex_def)
  then show ?thesis unfolding ex_contended_def
    by (rule mutex_reach.one_step) (rule mutex_step.attempt, simp_all add: mutex_defs ex_mutex_def)
qed

theorem mutex_exclusion_witness: "mtx_pc ex_contended 1 = Inside \<and> mtx_lock ex_contended \<noteq> 0"
proof -
  have i: "mtx_pc ex_contended 1 = Inside" by (simp add: ex_contended_def mutex_defs ex_mutex_def)
  from mutex_exclusion [OF ex_contended_reach i i] i show ?thesis by blast
qed

theorem mutex_no_lost_wakeup_witness:
  "mtx_pc ex_contended 2 = Waiting \<and> (bit (mtx_events ex_contended 2) EVENT_MUTEX_BIT \<or> (\<exists>u. u \<noteq> 2 \<and> owner ex_contended u)
    \<or> (\<exists>u w. u \<noteq> 2 \<and> mtx_pc ex_contended u = Waking w \<and> bit w 2))"
proof -
  have w: "mtx_pc ex_contended 2 = Waiting" by (simp add: ex_contended_def mutex_defs ex_mutex_def)
  from mutex_no_lost_wakeup [OF ex_contended_reach w] w show ?thesis by blast
qed
end
