(* ===== verification/Charge_Manager.thy ===== *)
theory Charge_Manager
  imports EC_Prelude Util_Strings
begin

text \<open>
  The charge manager of common/charge_manager.c: which port the board charges from, at
  which current, and which current it offers as a source. Every \<open>#ifdef\<close> of the file is a
  field of \<open>cm_config\<close>, so the theorems hold for every build configuration; the functions of
  other modules and of the board (roles, connection state, lock state, clock, ramp module,
  whether the board accepts a port) are the fields of \<open>cm_env\<close>. C globals and function
  statics are the record \<open>cm\<close>; calls that leave the module are recorded in order in
  \<open>events\<close>. Port and supplier numbers are C \<open>int\<close>s, \<open>-1\<close> is ``none''.
\<close>

section \<open>Data\<close>

datatype dualrole_capabilities = CAP_UNKNOWN | CAP_DUALROLE | CAP_DEDICATED

datatype ceil_requestor = CEIL_REQUESTOR_PD | CEIL_REQUESTOR_HOST

datatype usb_chg_type = USB_CHG_TYPE_NONE | USB_CHG_TYPE_PD | USB_CHG_TYPE_C | USB_CHG_TYPE_PROPRIETARY
  | USB_CHG_TYPE_BC12_DCP | USB_CHG_TYPE_BC12_CDP | USB_CHG_TYPE_BC12_SDP | USB_CHG_TYPE_OTHER
  | USB_CHG_TYPE_VBUS | USB_CHG_TYPE_UNKNOWN | USB_CHG_TYPE_DEDICATED

datatype usb_power_roles = USB_PD_PORT_POWER_DISCONNECTED | USB_PD_PORT_POWER_SOURCE
  | USB_PD_PORT_POWER_SINK | USB_PD_PORT_POWER_SINK_NOT_CHARGING

record charge_port_info =
  current :: int
  voltage :: int

record usb_chg_measures =
  voltage_max :: u16
  voltage_now :: u16
  current_max :: u16
  current_lim :: u16

record power_info =
  pi_role :: usb_power_roles
  pi_type :: usb_chg_type
  pi_dualrole :: bool
  pi_meas :: usb_chg_measures
  pi_max_power :: u32

abbreviation (input) CHARGE_PORT_NONE :: int where "CHARGE_PORT_NONE \<equiv> -1"
abbreviation (input) CHARGE_SUPPLIER_NONE :: int where "CHARGE_SUPPLIER_NONE \<equiv> -1"
abbreviation (input) CHARGE_CEIL_NONE :: int where "CHARGE_CEIL_NONE \<equiv> -1"
abbreviation (input) CHARGE_UNINITIALIZED :: int where "CHARGE_UNINITIALIZED \<equiv> -1"
abbreviation (input) OVERRIDE_OFF :: int where "OVERRIDE_OFF \<equiv> -1"
abbreviation (input) OVERRIDE_DONT_CHARGE :: int where "OVERRIDE_DONT_CHARGE \<equiv> -2"
abbreviation (input) CHARGE_SUPPLIER_PD :: int where "CHARGE_SUPPLIER_PD \<equiv> 0"
abbreviation (input) CHARGE_SUPPLIER_TYPEC :: int where "CHARGE_SUPPLIER_TYPEC \<equiv> 1"
abbreviation (input) CHARGE_SUPPLIER_TYPEC_DTS :: int where "CHARGE_SUPPLIER_TYPEC_DTS \<equiv> 2"
abbreviation (input) CHARGE_DETECT_DELAY :: int where "CHARGE_DETECT_DELAY \<equiv> 2000000"
abbreviation (input) POWER_SWAP_TIMEOUT :: int where "POWER_SWAP_TIMEOUT \<equiv> 2425000"
abbreviation (input) TYPEC_RP_1A5 :: int where "TYPEC_RP_1A5 \<equiv> 1"
abbreviation (input) TYPEC_RP_3A0 :: int where "TYPEC_RP_3A0 \<equiv> 2"
abbreviation (input) EC_POWER_LIMIT_NONE :: int where "EC_POWER_LIMIT_NONE \<equiv> 0xffff"
abbreviation (input) PD_POWER_CHARGING_PORT :: int where "PD_POWER_CHARGING_PORT \<equiv> 0xff"

text \<open>
  The build configuration. \<open>bc12\<close> is \<open>CHARGE_MANAGER_BC12\<close>, \<open>dedicated_ports\<close>
  \<open>CONFIG_DEDICATED_CHARGE_PORT_COUNT\<close>; \<open>max_rp\<close> is
  \<open>CONFIG_USB_PD_MAX_SINGLE_SOURCE_CURRENT\<close> and \<open>pullup\<close> is \<open>CONFIG_USB_PD_PULLUP\<close>.
\<close>

record cm_config =
  pd_port_count :: int
  dedicated_ports :: int
  bc12 :: bool
  drp_charging :: bool
  safe_mode :: bool
  pd_logging :: bool
  ramp_hw :: bool
  ramp_task :: bool
  max_total_source :: bool
  max_rp :: int
  pullup :: int
  max_voltage_mv :: int

definition charge_port_count :: "cm_config \<Rightarrow> int" where
  "charge_port_count cfg = pd_port_count cfg + dedicated_ports cfg"

definition charge_supplier_count :: "cm_config \<Rightarrow> int" where
  "charge_supplier_count cfg = 3 + (if bc12 cfg then 6 else 0) + (if 0 < dedicated_ports cfg then 1 else 0)"

text \<open>
  The supplier numbers follow the enumeration of include/charge_manager.h: PD, TYPEC,
  TYPEC_DTS, then with BC1.2 the DCP, CDP, SDP, PROPRIETARY, OTHER and VBUS suppliers, then
  the dedicated one.
\<close>

definition charge_supplier_dedicated :: "cm_config \<Rightarrow> int" where
  "charge_supplier_dedicated cfg = charge_supplier_count cfg - 1"

definition supplier_priority :: "cm_config \<Rightarrow> int \<Rightarrow> int" where
  "supplier_priority cfg i =
     (if 0 < dedicated_ports cfg \<and> i = charge_supplier_dedicated cfg then 0
      else if i = 0 then 1
      else if i = 1 then 2
      else if i = 2 then 2
      else if i = 3 then 3
      else if i = 4 then 4
      else if i = 5 then 5
      else if i = 6 then 2
      else if i = 7 then 6
      else 7)"

datatype cm_event =
    SetActiveChargePort int
  | SetChargeLimit int int int int int
  | RampSupplierChange int int int "u64 option" int
  | SetHwRamp bool
  | RequestPowerSwap int
  | NewPowerRequest int
  | SendHostEvent
  | DeferRefresh int
  | DeferOverrideTimeout int
  | DeferDetectDebounced int
  | LogEvent int u16 usb_chg_measures
  | SetSourceCurrentLimit int int
  | SelectRp int int
  | UpdateContract int
  | SetExternalVoltageLimit int int

record cm =
  available_charge :: "int \<Rightarrow> int \<Rightarrow> charge_port_info"
  registration_time :: "int \<Rightarrow> u64"
  charge_ceil :: "int \<Rightarrow> ceil_requestor \<Rightarrow> int"
  dualrole_capability :: "int \<Rightarrow> dualrole_capabilities"
  save_log :: "int \<Rightarrow> bool"
  charge_port :: int
  charge_current :: int
  charge_current_uncapped :: int
  charge_voltage :: int
  charge_supplier :: int
  override_port :: int
  delayed_override_port :: int
  delayed_override_deadline :: u64
  source_port_bitmap :: u32
  source_port_rp :: "int \<Rightarrow> int"
  left_safe_mode :: bool
  is_seeded :: bool
  active_charge_port_initialized :: bool
  events :: "cm_event list"

text \<open>
  What the module reads from elsewhere. \<open>accept_port\<close> is the board's
  \<open>board_set_active_charge_port(port) == EC_SUCCESS\<close>, \<open>vbus_voltage\<close> the configured way of
  measuring VBUS.
\<close>

record cm_env =
  role_sink :: "int \<Rightarrow> bool"
  pd_connected :: "int \<Rightarrow> bool"
  image_ro :: bool
  locked :: bool
  now :: u64
  accept_port :: "int \<Rightarrow> bool"
  ramp_allowed :: "int \<Rightarrow> bool"
  ramp_max :: "int \<Rightarrow> int \<Rightarrow> int"
  ramp_stable :: bool
  ramp_limit :: int
  vbus_voltage :: "int \<Rightarrow> int"

definition emit :: "cm_event \<Rightarrow> cm \<Rightarrow> cm" where
  "emit e s = s\<lparr>events := events s @ [e]\<rparr>"

definition POWER :: "charge_port_info \<Rightarrow> int" where
  "POWER c = s32 (current c * voltage c)"

section \<open>Queries\<close>

definition is_pd_port :: "cm_config \<Rightarrow> int \<Rightarrow> bool" where
  "is_pd_port cfg port \<longleftrightarrow> 0 \<le> port \<and> port < pd_port_count cfg"

definition is_sink :: "cm_config \<Rightarrow> cm_env \<Rightarrow> int \<Rightarrow> bool" where
  "is_sink cfg env port = (if \<not> is_pd_port cfg port then True else role_sink env port)"

definition is_connected :: "cm_config \<Rightarrow> cm_env \<Rightarrow> int \<Rightarrow> bool" where
  "is_connected cfg env port = (if \<not> is_pd_port cfg port then True else pd_connected env port)"

definition charge_manager_spoof_dualrole_capability :: "cm_env \<Rightarrow> cm \<Rightarrow> bool" where
  "charge_manager_spoof_dualrole_capability env s \<longleftrightarrow> (image_ro env \<and> locked env) \<or> \<not> left_safe_mode s"

definition ports :: "cm_config \<Rightarrow> int list" where
  "ports cfg = [0..charge_port_count cfg - 1]"

definition suppliers :: "cm_config \<Rightarrow> int list" where
  "suppliers cfg = [0..charge_supplier_count cfg - 1]"

definition charge_manager_init :: "cm_config \<Rightarrow> cm \<Rightarrow> cm" where
  "charge_manager_init cfg s =
     s\<lparr>available_charge := (\<lambda>j i. if j \<in> set (suppliers cfg) \<and> i \<in> set (ports cfg)
          then \<lparr>current = CHARGE_UNINITIALIZED, voltage = CHARGE_UNINITIALIZED\<rparr>
          else available_charge s j i),
       charge_ceil := (\<lambda>i. if i \<in> set (ports cfg) then (\<lambda>_. CHARGE_CEIL_NONE) else charge_ceil s i),
       dualrole_capability := (\<lambda>i. if i \<in> set (ports cfg) \<and> \<not> is_pd_port cfg i
          then CAP_DEDICATED else dualrole_capability s i),
       source_port_rp := (\<lambda>i. if i \<in> set (ports cfg) \<and> is_pd_port cfg i
          then pullup cfg else source_port_rp s i)\<rparr>"

definition charge_manager_is_seeded :: "cm_config \<Rightarrow> cm \<Rightarrow> bool \<times> cm" where
  "charge_manager_is_seeded cfg s =
     (if is_seeded s then (True, s)
      else if list_ex (\<lambda>i. list_ex (\<lambda>j.
             current (available_charge s i j) = CHARGE_UNINITIALIZED
             \<or> voltage (available_charge s i j) = CHARGE_UNINITIALIZED) (ports cfg)) (suppliers cfg)
      then (False, s)
      else (True, s\<lparr>is_seeded := True\<rparr>))"

definition charge_manager_get_source_current :: "cm_config \<Rightarrow> cm \<Rightarrow> int \<Rightarrow> int" where
  "charge_manager_get_source_current cfg s port =
     (if \<not> is_pd_port cfg port then 0
      else if source_port_rp s port = TYPEC_RP_3A0 then 3000
      else if source_port_rp s port = TYPEC_RP_1A5 then 1500
      else 500)"

text \<open>One iteration of the loop of \<open>find_supplier\<close>.\<close>

definition find_supplier_step :: "cm_config \<Rightarrow> cm \<Rightarrow> int \<Rightarrow> int \<Rightarrow> int \<Rightarrow> int \<Rightarrow> int" where
  "find_supplier_step cfg s port min_cur i chg =
     (if current (available_charge s i port) \<le> min_cur \<or> voltage (available_charge s i port) \<le> 0 then chg
      else if chg = CHARGE_SUPPLIER_NONE then i
      else if supplier_priority cfg chg < supplier_priority cfg i then chg
      else if supplier_priority cfg i < supplier_priority cfg chg then i
      else if POWER (available_charge s chg port) < POWER (available_charge s i port) then i
      else chg)"

definition find_supplier :: "cm_config \<Rightarrow> cm \<Rightarrow> int \<Rightarrow> int \<Rightarrow> int \<Rightarrow> int" where
  "find_supplier cfg s port chg min_cur = fold (find_supplier_step cfg s port min_cur) (suppliers cfg) chg"

definition charge_manager_get_ceil :: "cm \<Rightarrow> int \<Rightarrow> int" where
  "charge_manager_get_ceil s port =
     fold (\<lambda>i ceil. let val = charge_ceil s port i
             in if val \<noteq> CHARGE_CEIL_NONE \<and> (ceil = CHARGE_CEIL_NONE \<or> val < ceil) then val else ceil)
       [CEIL_REQUESTOR_PD, CEIL_REQUESTOR_HOST] CHARGE_CEIL_NONE"

section \<open>Power information for the host\<close>

definition supplier_chg_type :: "cm_config \<Rightarrow> int \<Rightarrow> usb_chg_type" where
  "supplier_chg_type cfg chg =
     (if chg = CHARGE_SUPPLIER_PD then USB_CHG_TYPE_PD
      else if chg = CHARGE_SUPPLIER_TYPEC \<or> chg = CHARGE_SUPPLIER_TYPEC_DTS then USB_CHG_TYPE_C
      else if bc12 cfg \<and> chg = 6 then USB_CHG_TYPE_PROPRIETARY
      else if bc12 cfg \<and> chg = 3 then USB_CHG_TYPE_BC12_DCP
      else if bc12 cfg \<and> chg = 4 then USB_CHG_TYPE_BC12_CDP
      else if bc12 cfg \<and> chg = 5 then USB_CHG_TYPE_BC12_SDP
      else if bc12 cfg \<and> chg = 8 then USB_CHG_TYPE_VBUS
      else if 0 < dedicated_ports cfg \<and> chg = charge_supplier_dedicated cfg then USB_CHG_TYPE_DEDICATED
      else USB_CHG_TYPE_OTHER)"

text \<open>
  The response record is filled in place: fields that a branch does not write keep the
  value the buffer had.
\<close>

definition charge_manager_fill_power_info ::
  "cm_config \<Rightarrow> cm_env \<Rightarrow> cm \<Rightarrow> int \<Rightarrow> power_info \<Rightarrow> power_info" where
  "charge_manager_fill_power_info cfg env s port r =
     (let chg = (if port = charge_port s then charge_supplier s
                 else let chg = find_supplier cfg s port CHARGE_SUPPLIER_NONE 0
                      in if chg = CHARGE_SUPPLIER_NONE then find_supplier cfg s port chg (-1) else chg);
          role = (if charge_port s = port then USB_PD_PORT_POWER_SINK
                  else if is_connected cfg env port \<and> \<not> is_sink cfg env port then USB_PD_PORT_POWER_SOURCE
                  else if chg \<noteq> CHARGE_SUPPLIER_NONE then USB_PD_PORT_POWER_SINK_NOT_CHARGING
                  else USB_PD_PORT_POWER_DISCONNECTED);
          r = r\<lparr>pi_role := role, pi_dualrole := (dualrole_capability s port = CAP_DUALROLE)\<rparr>
      in if chg = CHARGE_SUPPLIER_NONE \<or> role = USB_PD_PORT_POWER_SOURCE
         then r\<lparr>pi_type := USB_CHG_TYPE_NONE,
                pi_meas := (pi_meas r)\<lparr>voltage_max := 0,
                  voltage_now := (if role = USB_PD_PORT_POWER_SOURCE then 5000 else 0),
                  current_max := word_of_int (charge_manager_get_source_current cfg s port)\<rparr>,
                pi_max_power := 0\<rparr>
         else
           let avail = available_charge s chg port;
               vmax = word_of_int (voltage avail);
               type = (if now env < registration_time s port + word_of_int CHARGE_DETECT_DELAY
                       then USB_CHG_TYPE_UNKNOWN else supplier_chg_type cfg chg);
               use_ramp = (ramp_task cfg \<or> ramp_hw cfg) \<and> charge_port s = port \<and> ramp_allowed env chg;
               clim = (if use_ramp then word_of_int (ramp_limit env) else word_of_int (current avail));
               cmax = (if use_ramp
                       then (if ramp_stable env then clim else word_of_int (ramp_max env chg (current avail)))
                       else word_of_int (current avail));
               mpow = (if use_ramp then word_of_int (uint (cmax :: u16) * uint (vmax :: u16))
                       else word_of_int (POWER avail));
               vnow = (if role = USB_PD_PORT_POWER_SINK_NOT_CHARGING then 5000
                       else word_of_int (vbus_voltage env port))
           in r\<lparr>pi_type := type,
                pi_meas := \<lparr>voltage_max = vmax, voltage_now = vnow, current_max = cmax, current_lim = clim\<rparr>,
                pi_max_power := mpow\<rparr>)"

fun role_code :: "usb_power_roles \<Rightarrow> u16" where
  "role_code USB_PD_PORT_POWER_DISCONNECTED = 0"
| "role_code USB_PD_PORT_POWER_SOURCE = 1"
| "role_code USB_PD_PORT_POWER_SINK = 2"
| "role_code USB_PD_PORT_POWER_SINK_NOT_CHARGING = 3"

fun type_code :: "usb_chg_type \<Rightarrow> u16" where
  "type_code USB_CHG_TYPE_NONE = 0"
| "type_code USB_CHG_TYPE_PD = 1"
| "type_code USB_CHG_TYPE_C = 2"
| "type_code USB_CHG_TYPE_PROPRIETARY = 3"
| "type_code USB_CHG_TYPE_BC12_DCP = 4"
| "type_code USB_CHG_TYPE_BC12_CDP = 5"
| "type_code USB_CHG_TYPE_BC12_SDP = 6"
| "type_code USB_CHG_TYPE_OTHER = 7"
| "type_code USB_CHG_TYPE_VBUS = 8"
| "type_code USB_CHG_TYPE_UNKNOWN = 9"
| "type_code USB_CHG_TYPE_DEDICATED = 10"

text \<open>
  \<open>pinfo\<close> is an uninitialised local of the C function: \<open>scratch\<close> is what the stack held.
\<close>

definition charge_manager_save_log :: "cm_config \<Rightarrow> cm_env \<Rightarrow> power_info \<Rightarrow> int \<Rightarrow> cm \<Rightarrow> cm" where
  "charge_manager_save_log cfg env scratch port s =
     (if \<not> is_pd_port cfg port then s
      else
        let s = s\<lparr>save_log := (save_log s)(port := False)\<rparr>;
            pinfo = charge_manager_fill_power_info cfg env s port scratch;
            flags = (if port = override_port s then push_bit 13 1 else 0)
              OR (if port = delayed_override_port s then push_bit 14 1 else 0)
              OR role_code (pi_role pinfo) OR push_bit 3 (type_code (pi_type pinfo))
              OR (if pi_dualrole pinfo then push_bit 15 1 else 0)
        in emit (LogEvent port flags (pi_meas pinfo)) s)"

section \<open>Selecting the charge port\<close>

record best =
  b_supplier :: int
  b_port :: int
  b_power :: int

definition no_best :: best where
  "no_best = \<lparr>b_supplier = CHARGE_SUPPLIER_NONE, b_port = CHARGE_PORT_NONE, b_power = -1\<rparr>"

text \<open>The condition under which the loop takes supplier \<open>i\<close> on port \<open>j\<close> instead of the best so far.\<close>

definition takes_over :: "cm_config \<Rightarrow> cm \<Rightarrow> int \<Rightarrow> int \<Rightarrow> int \<Rightarrow> best \<Rightarrow> bool" where
  "takes_over cfg s i j pow b \<longleftrightarrow> b_supplier b = CHARGE_SUPPLIER_NONE
     \<or> supplier_priority cfg i < supplier_priority cfg (b_supplier b)
     \<or> (j = override_port s \<and> b_port b \<noteq> override_port s)
     \<or> (supplier_priority cfg i = supplier_priority cfg (b_supplier b)
        \<and> (b_power b < pow \<or> (pow = b_power b \<and> charge_port s = j)))"

text \<open>The body of the two nested loops for supplier \<open>i\<close> on port \<open>j\<close>.\<close>

definition best_port_step :: "cm_config \<Rightarrow> cm_env \<Rightarrow> cm \<Rightarrow> int \<times> int \<Rightarrow> best \<Rightarrow> best" where
  "best_port_step cfg env s = (\<lambda>(i, j) b.
     let avail = available_charge s i j; pow = POWER avail
     in if current avail = 0 \<or> voltage avail = 0 then b
        else if override_port s \<noteq> OVERRIDE_OFF \<and> override_port s = b_port b \<and> override_port s \<noteq> j then b
        else if \<not> drp_charging cfg \<and> dualrole_capability s j \<noteq> CAP_DEDICATED \<and> override_port s \<noteq> j
                \<and> \<not> charge_manager_spoof_dualrole_capability env s then b
        else if takes_over cfg s i j pow b then \<lparr>b_supplier = i, b_port = j, b_power = pow\<rparr>
        else b)"

definition candidates :: "cm_config \<Rightarrow> (int \<times> int) list" where
  "candidates cfg = List.product (suppliers cfg) (ports cfg)"

definition charge_manager_get_best_charge_port :: "cm_config \<Rightarrow> cm_env \<Rightarrow> cm \<Rightarrow> int \<times> int" where
  "charge_manager_get_best_charge_port cfg env s =
     (let b = (if override_port s \<noteq> OVERRIDE_DONT_CHARGE
               then fold (best_port_step cfg env s) (candidates cfg) no_best else no_best)
      in (b_port b, b_supplier b))"

definition charge_manager_switch_to_source :: "cm_config \<Rightarrow> cm_env \<Rightarrow> int \<Rightarrow> cm \<Rightarrow> cm" where
  "charge_manager_switch_to_source cfg env port s =
     (if \<not> is_pd_port cfg port then s
      else if dualrole_capability s port = CAP_DUALROLE \<and> is_sink cfg env port
      then emit (RequestPowerSwap port) s else s)"

section \<open>What the selection returns\<close>

text \<open>
  A supplier/port pair that the loop does not skip, apart from the rule that an override
  port already chosen is kept.
\<close>

definition has_charge :: "cm \<Rightarrow> int \<Rightarrow> int \<Rightarrow> bool" where
  "has_charge s i j \<longleftrightarrow> current (available_charge s i j) \<noteq> 0 \<and> voltage (available_charge s i j) \<noteq> 0"

definition eligible :: "cm_config \<Rightarrow> cm_env \<Rightarrow> cm \<Rightarrow> int \<Rightarrow> int \<Rightarrow> bool" where
  "eligible cfg env s i j \<longleftrightarrow> has_charge s i j
     \<and> (drp_charging cfg \<or> dualrole_capability s j = CAP_DEDICATED \<or> override_port s = j
        \<or> charge_manager_spoof_dualrole_capability env s)"

definition best_ok :: "cm_config \<Rightarrow> cm_env \<Rightarrow> cm \<Rightarrow> (int \<times> int) set \<Rightarrow> best \<Rightarrow> bool" where
  "best_ok cfg env s C b \<longleftrightarrow> b = no_best
     \<or> ((b_supplier b, b_port b) \<in> C \<and> eligible cfg env s (b_supplier b) (b_port b)
        \<and> b_power b = POWER (available_charge s (b_supplier b) (b_port b)))"

lemma best_port_step_unfold:
  "best_port_step cfg env s (i, j) b =
     (if eligible cfg env s i j \<and> \<not> (override_port s \<noteq> -1 \<and> override_port s = b_port b \<and> override_port s \<noteq> j)
        \<and> takes_over cfg s i j (POWER (available_charge s i j)) b
      then \<lparr>b_supplier = i, b_port = j, b_power = POWER (available_charge s i j)\<rparr> else b)"
  by (auto simp: best_port_step_def eligible_def has_charge_def Let_def)

lemma best_port_step_ok:
  assumes "best_ok cfg env s C b"
  shows "best_ok cfg env s (insert (i, j) C) (best_port_step cfg env s (i, j) b)"
  using assms unfolding best_port_step_unfold by (auto simp: best_ok_def)

lemma fold_best_ok:
  "best_ok cfg env s C b \<Longrightarrow> best_ok cfg env s (C \<union> set cs) (fold (best_port_step cfg env s) cs b)"
proof (induction cs arbitrary: b C)
  case (Cons c cs)
  obtain i j where c: "c = (i, j)" by (cases c)
  have "best_ok cfg env s (insert c C) (best_port_step cfg env s c b)"
    using best_port_step_ok [OF Cons.prems] c by simp
  from Cons.IH [OF this] show ?case by simp
qed simp

lemma set_candidates: "set (candidates cfg) = set (suppliers cfg) \<times> set (ports cfg)"
  by (simp add: candidates_def)

lemma best_charge_port_eligible:
  assumes "charge_manager_get_best_charge_port cfg env s = (p, sp)"
  shows "(p = CHARGE_PORT_NONE \<and> sp = CHARGE_SUPPLIER_NONE)
    \<or> (p \<in> set (ports cfg) \<and> sp \<in> set (suppliers cfg) \<and> eligible cfg env s sp p)"
proof -
  have "best_ok cfg env s (set (candidates cfg)) (fold (best_port_step cfg env s) (candidates cfg) no_best)"
    using fold_best_ok [of cfg env s "{}" no_best "candidates cfg"] by (simp add: best_ok_def)
  then show ?thesis using assms
    by (auto simp: charge_manager_get_best_charge_port_def best_ok_def no_best_def set_candidates Let_def split: if_splits)
qed

section \<open>Refresh\<close>

definition zero_port :: "cm_config \<Rightarrow> int \<Rightarrow> cm \<Rightarrow> cm" where
  "zero_port cfg p s = s\<lparr>available_charge := (\<lambda>i j. if i \<in> set (suppliers cfg) \<and> j = p
     then \<lparr>current = 0, voltage = 0\<rparr> else available_charge s i j)\<rparr>"

definition charged_ports :: "cm_config \<Rightarrow> cm \<Rightarrow> int set" where
  "charged_ports cfg s = {j \<in> set (ports cfg). \<exists>i \<in> set (suppliers cfg). has_charge s i j}"

lemma finite_charged_ports [simp]: "finite (charged_ports cfg s)"
  by (simp add: charged_ports_def)

lemma zero_port_charged: "charged_ports cfg (zero_port cfg p s) = charged_ports cfg s - {p}"
  by (auto simp: charged_ports_def zero_port_def has_charge_def)

lemma zero_port_decreases:
  assumes "charge_manager_get_best_charge_port cfg env s = (p, sp)" "p \<noteq> CHARGE_PORT_NONE"
  shows "card (charged_ports cfg (zero_port cfg p s)) < card (charged_ports cfg s)"
proof -
  have "p \<in> charged_ports cfg s"
    using best_charge_port_eligible [OF assms(1)] assms(2) by (auto simp: charged_ports_def eligible_def)
  from card_Diff1_less [OF finite_charged_ports this] show ?thesis by (simp only: zero_port_charged)
qed

text \<open>
  The \<open>while (1)\<close> loop: it returns from \<open>charge_manager_refresh\<close> in safe mode, breaks with a
  port and supplier, or fails the \<open>ASSERT\<close> when the board refuses ``no port''.
\<close>

datatype hunt_result = HuntReturn | HuntBreak int int | HuntAssert

lemma charged_ports_emit [simp]: "charged_ports cfg (emit e s) = charged_ports cfg s"
  by (simp add: charged_ports_def emit_def has_charge_def)

lemma zero_port_emit: "zero_port cfg p (emit e s) = emit e (zero_port cfg p s)"
  by (simp add: zero_port_def emit_def cong: if_cong)

function hunt_port :: "cm_config \<Rightarrow> cm_env \<Rightarrow> cm \<Rightarrow> hunt_result \<times> cm" where
  "hunt_port cfg env s =
     (let (new_port, new_supplier) = charge_manager_get_best_charge_port cfg env s
      in if \<not> left_safe_mode s \<and> new_port = CHARGE_PORT_NONE then (HuntReturn, s)
         else if active_charge_port_initialized s \<and> new_port = charge_port s \<and> new_supplier = charge_supplier s
         then (HuntBreak new_port new_supplier, s)
         else if accept_port env new_port
         then (HuntBreak new_port new_supplier, emit (SetActiveChargePort new_port) s)
         else if new_port = CHARGE_PORT_NONE then (HuntAssert, emit (SetActiveChargePort new_port) s)
         else hunt_port cfg env (zero_port cfg new_port (emit (SetActiveChargePort new_port) s)))"
  by pat_completeness auto
termination
proof (relation "measure (\<lambda>(cfg, env, s). card (charged_ports cfg s))", goal_cases)
  case (2 cfg env s x y z)
  then show ?case using zero_port_decreases [of cfg env s y z] by (simp add: zero_port_emit)
qed simp

declare hunt_port.simps [simp del]

text \<open>Current, uncapped current and voltage for the selected port and supplier.\<close>

definition new_charge :: "cm_config \<Rightarrow> cm_env \<Rightarrow> cm \<Rightarrow> int \<Rightarrow> int \<Rightarrow> int \<times> int \<times> int" where
  "new_charge cfg env s new_port new_supplier =
     (if new_supplier = CHARGE_SUPPLIER_NONE then (0, 0, 0)
      else
        let avail = available_charge s new_supplier new_port;
            uncapped = (if ramp_hw cfg \<and> ramp_allowed env new_supplier
                        then ramp_max env new_supplier (current avail) else current avail);
            ceil = charge_manager_get_ceil s new_port;
            cur = (if left_safe_mode s \<and> ceil \<noteq> CHARGE_CEIL_NONE then min ceil uncapped else uncapped)
        in (cur, uncapped, voltage avail))"

text \<open>
  \<open>registration_time[new_port]\<close> is read for \<open>new_port = CHARGE_PORT_NONE\<close> too when the
  ramp task is notified: \<open>None\<close> stands for that read outside the array.
\<close>

definition registration_time_at :: "cm_config \<Rightarrow> cm \<Rightarrow> int \<Rightarrow> u64 option" where
  "registration_time_at cfg s port = (if port \<in> set (ports cfg) then Some (registration_time s port) else None)"

definition set_limit :: "cm_config \<Rightarrow> cm_env \<Rightarrow> int \<Rightarrow> int \<Rightarrow> int \<Rightarrow> int \<Rightarrow> int \<Rightarrow> cm \<Rightarrow> cm" where
  "set_limit cfg env new_port new_supplier cur uncapped vtg s =
     (if ramp_task cfg
      then emit (RampSupplierChange new_port new_supplier cur (registration_time_at cfg s new_port) vtg) s
      else emit (SetChargeLimit new_port new_supplier cur uncapped vtg)
             (if ramp_hw cfg then emit (SetHwRamp (ramp_allowed env new_supplier)) s else s))"

definition log_changes :: "cm_config \<Rightarrow> cm_env \<Rightarrow> power_info \<Rightarrow> int \<Rightarrow> int \<Rightarrow> cm \<Rightarrow> cm" where
  "log_changes cfg env scratch updated_new updated_old s =
     (if \<not> pd_logging cfg then s
      else
        let s = (if updated_new \<noteq> CHARGE_PORT_NONE then s\<lparr>save_log := (save_log s)(updated_new := True)\<rparr>
                 else if charge_port s \<noteq> CHARGE_PORT_NONE then s\<lparr>save_log := (save_log s)(charge_port s := False)\<rparr>
                 else s);
            s = (if updated_old \<noteq> CHARGE_PORT_NONE then s\<lparr>save_log := (save_log s)(updated_old := True)\<rparr> else s)
        in fold (\<lambda>i s. if save_log s i then charge_manager_save_log cfg env scratch i s else s)
             [0..pd_port_count cfg - 1] s)"

definition power_changed :: "int \<Rightarrow> int \<Rightarrow> int \<Rightarrow> cm \<Rightarrow> bool" where
  "power_changed new_port new_supplier cur s \<longleftrightarrow>
     new_port \<noteq> charge_port s \<or> cur \<noteq> charge_current s \<or> new_supplier \<noteq> charge_supplier s"

definition updated_new_port :: "int \<Rightarrow> int \<Rightarrow> int \<Rightarrow> cm \<Rightarrow> int" where
  "updated_new_port new_port uncapped vtg s =
     (if new_port \<noteq> CHARGE_PORT_NONE
         \<and> (new_port \<noteq> charge_port s \<or> uncapped \<noteq> charge_current_uncapped s \<or> vtg \<noteq> charge_voltage s)
      then new_port else CHARGE_PORT_NONE)"

definition updated_old_port :: "int \<Rightarrow> cm \<Rightarrow> int" where
  "updated_old_port new_port s =
     (if charge_port s \<noteq> new_port \<and> charge_port s \<noteq> CHARGE_PORT_NONE then charge_port s else CHARGE_PORT_NONE)"

definition cleanup_old_port :: "cm_config \<Rightarrow> cm_env \<Rightarrow> int \<Rightarrow> cm \<Rightarrow> cm" where
  "cleanup_old_port cfg env new_port s =
     (if charge_port s \<noteq> new_port \<and> charge_port s \<noteq> CHARGE_PORT_NONE
      then charge_manager_switch_to_source cfg env (charge_port s) s else s)"

definition new_power_request :: "cm_config \<Rightarrow> int \<Rightarrow> cm \<Rightarrow> cm" where
  "new_power_request cfg port s = (if is_pd_port cfg port then emit (NewPowerRequest port) s else s)"

definition refresh_commit :: "cm_config \<Rightarrow> cm_env \<Rightarrow> power_info \<Rightarrow> int \<Rightarrow> int \<Rightarrow> int \<Rightarrow> int \<Rightarrow> int \<Rightarrow> cm \<Rightarrow> cm" where
  "refresh_commit cfg env scratch new_port new_supplier cur uncapped vtg s =
     (let changed = power_changed new_port new_supplier cur s;
          updated_new = updated_new_port new_port uncapped vtg s;
          updated_old = updated_old_port new_port s;
          s1 = (if changed then set_limit cfg env new_port new_supplier cur uncapped vtg s else s);
          s2 = (cleanup_old_port cfg env new_port s1)
                 \<lparr>charge_current := cur, charge_current_uncapped := uncapped, charge_voltage := vtg,
                   charge_supplier := new_supplier, charge_port := new_port\<rparr>;
          s3 = log_changes cfg env scratch updated_new updated_old s2;
          s4 = new_power_request cfg updated_old (new_power_request cfg updated_new s3)
      in if changed then emit SendHostEvent s4 else s4)"

definition refresh_apply :: "cm_config \<Rightarrow> cm_env \<Rightarrow> power_info \<Rightarrow> int \<Rightarrow> int \<Rightarrow> cm \<Rightarrow> cm" where
  "refresh_apply cfg env scratch new_port new_supplier s =
     (let s = s\<lparr>active_charge_port_initialized := True,
                override_port := (if 0 \<le> override_port s \<and> override_port s \<noteq> new_port
                                  then OVERRIDE_OFF else override_port s)\<rparr>;
          (cur, uncapped, vtg) = new_charge cfg env s new_port new_supplier
      in refresh_commit cfg env scratch new_port new_supplier cur uncapped vtg s)"

text \<open>\<open>None\<close>: the \<open>ASSERT\<close> failed.\<close>

definition charge_manager_refresh :: "cm_config \<Rightarrow> cm_env \<Rightarrow> power_info \<Rightarrow> cm \<Rightarrow> cm option" where
  "charge_manager_refresh cfg env scratch s =
     (case hunt_port cfg env s of
        (HuntReturn, s) \<Rightarrow> Some s
      | (HuntAssert, s) \<Rightarrow> None
      | (HuntBreak new_port new_supplier, s) \<Rightarrow> Some (refresh_apply cfg env scratch new_port new_supplier s))"

definition charge_override_timeout :: "cm \<Rightarrow> cm" where
  "charge_override_timeout s = emit SendHostEvent (s\<lparr>delayed_override_port := OVERRIDE_OFF\<rparr>)"

definition charger_detect_debounced :: "cm \<Rightarrow> cm" where
  "charger_detect_debounced s = emit SendHostEvent s"

section \<open>Changes reported by other modules\<close>

datatype cm_error = EC_SUCCESS | EC_ERROR_BUSY | EC_ERROR_INVAL | EC_ERROR_PARAM1

definition defer_refresh_if_seeded :: "cm_config \<Rightarrow> cm \<Rightarrow> cm" where
  "defer_refresh_if_seeded cfg s =
     (case charge_manager_is_seeded cfg s of (b, s) \<Rightarrow> if b then emit (DeferRefresh 0) s else s)"

definition charge_manager_set_override :: "cm_config \<Rightarrow> cm_env \<Rightarrow> int \<Rightarrow> cm \<Rightarrow> cm_error \<times> cm" where
  "charge_manager_set_override cfg env port s =
     (if delayed_override_port s \<noteq> OVERRIDE_OFF then (EC_ERROR_BUSY, s)
      else if port < 0 \<or> is_sink cfg env port
      then (EC_SUCCESS, if override_port s \<noteq> port then defer_refresh_if_seeded cfg (s\<lparr>override_port := port\<rparr>) else s)
      else if \<not> is_sink cfg env port \<and> dualrole_capability s port = CAP_DUALROLE
      then (EC_SUCCESS,
            emit (RequestPowerSwap port)
              (emit (DeferOverrideTimeout POWER_SWAP_TIMEOUT)
                (s\<lparr>delayed_override_deadline := now env + word_of_int POWER_SWAP_TIMEOUT,
                   delayed_override_port := port\<rparr>)))
      else (EC_ERROR_INVAL, s))"

datatype charge_manager_change_type = CHANGE_CHARGE | CHANGE_DUALROLE

text \<open>The \<open>switch\<close>: \<open>None\<close> is the early return, otherwise \<open>clear_override\<close> and the new state.\<close>

definition change_relevant ::
  "cm_config \<Rightarrow> charge_manager_change_type \<Rightarrow> int \<Rightarrow> int \<Rightarrow> charge_port_info \<Rightarrow> cm \<Rightarrow> (bool \<times> cm) option" where
  "change_relevant cfg change supplier port charge s =
     (case change of
        CHANGE_CHARGE \<Rightarrow>
          (if current (available_charge s supplier port) = current charge
              \<and> voltage (available_charge s supplier port) = voltage charge then None
           else Some (0 < current charge \<and> current (available_charge s supplier port) = 0,
                      if pd_logging cfg then s\<lparr>save_log := (save_log s)(port := True)\<rparr> else s))
      | CHANGE_DUALROLE \<Rightarrow>
          (if drp_charging cfg \<or> dualrole_capability s port \<noteq> CAP_DEDICATED then None
           else if list_ex (\<lambda>i. 0 < current (available_charge s i port)) (suppliers cfg) then Some (True, s)
           else None))"

text \<open>Removing override ports when a charge comes up on another port that may be charged from.\<close>

definition clear_overrides :: "cm_config \<Rightarrow> int \<Rightarrow> bool \<Rightarrow> cm \<Rightarrow> cm" where
  "clear_overrides cfg port clear_override s =
     (if clear_override \<and> override_port s \<noteq> port
         \<and> (drp_charging cfg \<or> dualrole_capability s port = CAP_DEDICATED)
      then (let s = s\<lparr>override_port := OVERRIDE_OFF\<rparr>
            in if delayed_override_port s \<noteq> OVERRIDE_OFF
               then emit (DeferOverrideTimeout (-1)) (s\<lparr>delayed_override_port := OVERRIDE_OFF\<rparr>)
               else s)
      else s)"

text \<open>Storing the charge, and completing a delayed override that was waiting for it.\<close>

definition store_charge :: "cm_config \<Rightarrow> cm_env \<Rightarrow> int \<Rightarrow> int \<Rightarrow> charge_port_info \<Rightarrow> cm \<Rightarrow> cm" where
  "store_charge cfg env supplier port charge s =
     (let s = s\<lparr>available_charge := (available_charge s)(supplier := (available_charge s supplier)(port := charge)),
                registration_time := (registration_time s)(port := now env)\<rparr>;
          s = (if 0 < current charge then emit (DeferDetectDebounced CHARGE_DETECT_DELAY) s else s)
      in if port = delayed_override_port s \<and> 0 < current charge
            \<and> is_sink cfg env (delayed_override_port s)
            \<and> now env < delayed_override_deadline s
         then snd (charge_manager_set_override cfg env port
                (emit (DeferOverrideTimeout (-1)) (s\<lparr>delayed_override_port := OVERRIDE_OFF\<rparr>)))
         else s)"

definition charge_manager_make_change ::
  "cm_config \<Rightarrow> cm_env \<Rightarrow> charge_manager_change_type \<Rightarrow> int \<Rightarrow> int \<Rightarrow> charge_port_info \<Rightarrow> cm \<Rightarrow> cm" where
  "charge_manager_make_change cfg env change supplier port charge s =
     (case change_relevant cfg change supplier port charge s of
        None \<Rightarrow> s
      | Some (clear_override, s) \<Rightarrow>
          let s = clear_overrides cfg port clear_override s;
              s = (if change = CHANGE_CHARGE then store_charge cfg env supplier port charge s else s)
          in defer_refresh_if_seeded cfg s)"

text \<open>A null \<open>charge\<close> pointer is \<open>None\<close>.\<close>

definition charge_manager_update_charge ::
  "cm_config \<Rightarrow> cm_env \<Rightarrow> int \<Rightarrow> int \<Rightarrow> charge_port_info option \<Rightarrow> cm \<Rightarrow> cm" where
  "charge_manager_update_charge cfg env supplier port charge s =
     (let charge = (case charge of None \<Rightarrow> \<lparr>current = 0, voltage = 0\<rparr> | Some c \<Rightarrow> c)
      in charge_manager_make_change cfg env CHANGE_CHARGE supplier port charge s)"

definition pd_set_input_current_limit :: "cm_config \<Rightarrow> cm_env \<Rightarrow> int \<Rightarrow> u32 \<Rightarrow> u32 \<Rightarrow> cm \<Rightarrow> cm" where
  "pd_set_input_current_limit cfg env port max_ma supply_voltage s =
     charge_manager_update_charge cfg env CHARGE_SUPPLIER_PD port
       (Some \<lparr>current = sint max_ma, voltage = sint supply_voltage\<rparr>) s"

definition typec_set_input_current_limit :: "cm_config \<Rightarrow> cm_env \<Rightarrow> int \<Rightarrow> u32 \<Rightarrow> u32 \<Rightarrow> cm \<Rightarrow> cm" where
  "typec_set_input_current_limit cfg env port max_ma supply_voltage s =
     (let dts = bit max_ma 31;
          cur = sint (max_ma AND NOT (push_bit 31 1));
          cur = (if \<not> ramp_task cfg \<and> \<not> ramp_hw cfg \<and> dts then min cur 500 else cur);
          charge = Some \<lparr>current = cur, voltage = sint supply_voltage\<rparr>;
          s = charge_manager_update_charge cfg env
                (if dts then CHARGE_SUPPLIER_TYPEC_DTS else CHARGE_SUPPLIER_TYPEC) port charge s
      in if max_ma = 0 \<or> supply_voltage = 0
         then charge_manager_update_charge cfg env
                (if dts then CHARGE_SUPPLIER_TYPEC else CHARGE_SUPPLIER_TYPEC_DTS) port charge s
         else s)"

definition charge_manager_update_dualrole ::
  "cm_config \<Rightarrow> cm_env \<Rightarrow> int \<Rightarrow> dualrole_capabilities \<Rightarrow> cm \<Rightarrow> cm" where
  "charge_manager_update_dualrole cfg env port cap s =
     (if cap \<noteq> dualrole_capability s port
      then charge_manager_make_change cfg env CHANGE_DUALROLE 0 port \<lparr>current = 0, voltage = 0\<rparr>
             (s\<lparr>dualrole_capability := (dualrole_capability s)(port := cap)\<rparr>)
      else s)"

definition charge_manager_leave_safe_mode :: "cm_config \<Rightarrow> cm \<Rightarrow> cm" where
  "charge_manager_leave_safe_mode cfg s =
     (if left_safe_mode s then s else defer_refresh_if_seeded cfg (s\<lparr>left_safe_mode := True\<rparr>))"

definition charge_manager_set_ceil :: "cm_config \<Rightarrow> int \<Rightarrow> ceil_requestor \<Rightarrow> int \<Rightarrow> cm \<Rightarrow> cm" where
  "charge_manager_set_ceil cfg port requestor ceil s =
     (if charge_ceil s port requestor \<noteq> ceil
      then (let s = s\<lparr>charge_ceil := (charge_ceil s)(port := (charge_ceil s port)(requestor := ceil))\<rparr>
            in if port = charge_port s then defer_refresh_if_seeded cfg s else s)
      else s)"

definition charge_manager_force_ceil :: "cm_config \<Rightarrow> int \<Rightarrow> int \<Rightarrow> cm \<Rightarrow> cm" where
  "charge_manager_force_ceil cfg port ceil s =
     (let s = (if left_safe_mode s \<and> port = charge_port s \<and> ceil < charge_current s
               then emit (SetChargeLimit port CHARGE_SUPPLIER_PD ceil (charge_current_uncapped s) (charge_voltage s)) s
               else s)
      in charge_manager_set_ceil cfg port CEIL_REQUESTOR_PD ceil s)"

definition charge_manager_get_power_limit_uw :: "cm \<Rightarrow> int" where
  "charge_manager_get_power_limit_uw s =
     (if charge_current s = CHARGE_UNINITIALIZED \<or> charge_voltage s = CHARGE_UNINITIALIZED then 0
      else s32 (charge_current s * charge_voltage s))"

section \<open>Sourcing power\<close>

definition has_other_active_source :: "cm \<Rightarrow> int \<Rightarrow> bool" where
  "has_other_active_source s port \<longleftrightarrow> source_port_bitmap s AND NOT (push_bit (nat port) 1) \<noteq> 0"

definition is_active_source :: "cm \<Rightarrow> int \<Rightarrow> bool" where
  "is_active_source s port \<longleftrightarrow> source_port_bitmap s AND push_bit (nat port) 1 \<noteq> 0"

definition can_supply_max_current :: "cm_config \<Rightarrow> cm \<Rightarrow> int \<Rightarrow> bool" where
  "can_supply_max_current cfg s port =
     (if max_total_source cfg
      then (if \<not> is_active_source s port \<and> has_other_active_source s port then False
            else \<not> list_ex (\<lambda>p. p \<noteq> port \<and> is_active_source s p \<and> source_port_rp s p = max_rp cfg)
                   [0..pd_port_count cfg - 1])
      else \<not> has_other_active_source s port)"

definition set_port_rp :: "cm_config \<Rightarrow> cm_env \<Rightarrow> power_info \<Rightarrow> int \<Rightarrow> cm \<Rightarrow> cm" where
  "set_port_rp cfg env scratch p s =
     (let rp = (if can_supply_max_current cfg s p then max_rp cfg else pullup cfg);
          s = s\<lparr>source_port_rp := (source_port_rp s)(p := rp)\<rparr>;
          s = (if pd_logging cfg \<and> is_connected cfg env p \<and> \<not> is_sink cfg env p
               then charge_manager_save_log cfg env scratch p s else s)
      in emit (UpdateContract p) (emit (SelectRp p rp) (emit (SetSourceCurrentLimit p rp) s)))"

definition charge_manager_source_port :: "cm_config \<Rightarrow> cm_env \<Rightarrow> power_info \<Rightarrow> int \<Rightarrow> bool \<Rightarrow> cm \<Rightarrow> cm" where
  "charge_manager_source_port cfg env scratch port enable s =
     (let prev_bitmap = source_port_bitmap s;
          s = s\<lparr>source_port_bitmap := (if enable then prev_bitmap OR push_bit (nat port) 1
                                       else prev_bitmap AND NOT (push_bit (nat port) 1))\<rparr>
      in if prev_bitmap = source_port_bitmap s then s
         else fold (set_port_rp cfg env scratch) [0..pd_port_count cfg - 1] s)"

definition charge_manager_get_source_pdo :: "cm_config \<Rightarrow> cm \<Rightarrow> 'a list \<Rightarrow> 'a list \<Rightarrow> int \<Rightarrow> 'a list" where
  "charge_manager_get_source_pdo cfg s pd_src_pdo_max pd_src_pdo port =
     (if can_supply_max_current cfg s port then pd_src_pdo_max else pd_src_pdo)"

section \<open>Host and console commands\<close>

datatype ec_status = EC_RES_SUCCESS | EC_RES_ERROR | EC_RES_INVALID_PARAM | EC_RES_UNAVAILABLE

definition hc_pd_power_info ::
  "cm_config \<Rightarrow> cm_env \<Rightarrow> cm \<Rightarrow> byte \<Rightarrow> power_info \<Rightarrow> ec_status \<times> power_info" where
  "hc_pd_power_info cfg env s p_port r =
     (let port = (if uint p_port = PD_POWER_CHARGING_PORT then charge_port s else uint p_port)
      in if charge_port_count cfg \<le> port then (EC_RES_INVALID_PARAM, r)
         else (EC_RES_SUCCESS, charge_manager_fill_power_info cfg env s port r))"

definition hc_charge_port_override :: "cm_config \<Rightarrow> cm_env \<Rightarrow> u16 \<Rightarrow> cm \<Rightarrow> ec_status \<times> cm" where
  "hc_charge_port_override cfg env p s =
     (if sint p < OVERRIDE_DONT_CHARGE \<or> charge_port_count cfg \<le> sint p then (EC_RES_INVALID_PARAM, s)
      else case charge_manager_set_override cfg env (sint p) s of
             (e, s) \<Rightarrow> (if e = EC_SUCCESS then EC_RES_SUCCESS else EC_RES_ERROR, s))"

definition hc_override_dedicated_charger_limit ::
  "cm_config \<Rightarrow> cm_env \<Rightarrow> int \<Rightarrow> u16 \<Rightarrow> u16 \<Rightarrow> cm \<Rightarrow> ec_status \<times> cm" where
  "hc_override_dedicated_charger_limit cfg env dedicated_port lim_ma lim_mv s =
     (if charge_port s \<noteq> dedicated_port then (EC_RES_UNAVAILABLE, s)
      else (EC_RES_SUCCESS,
            charge_manager_update_charge cfg env (charge_supplier_dedicated cfg) dedicated_port
              (Some \<lparr>current = uint lim_ma, voltage = uint lim_mv\<rparr>) s))"

text \<open>The status, the port number it prints, and the new state.\<close>

definition command_charge_port_override ::
  "cm_config \<Rightarrow> cm_env \<Rightarrow> cstr list \<Rightarrow> cm \<Rightarrow> cm_error \<times> int option \<times> cm" where
  "command_charge_port_override cfg env argv s =
     (if 2 \<le> length argv
      then (let (port, e) = strtoi (argv ! 1) 0
            in if deref e \<noteq> 0 \<or> port < OVERRIDE_DONT_CHARGE \<or> charge_port_count cfg \<le> port
               then (EC_ERROR_PARAM1, None, s)
               else case charge_manager_set_override cfg env port s of
                      (ret, s) \<Rightarrow> (ret, Some (if ret = EC_SUCCESS then port else override_port s), s))
      else (EC_SUCCESS, Some (override_port s), s))"

definition charge_manager_set_external_power_limit :: "cm_config \<Rightarrow> int \<Rightarrow> int \<Rightarrow> cm \<Rightarrow> cm" where
  "charge_manager_set_external_power_limit cfg lim_ma lim_mv s =
     (let lim_ma = (if lim_ma = EC_POWER_LIMIT_NONE then CHARGE_CEIL_NONE else lim_ma);
          lim_mv = (if lim_mv = EC_POWER_LIMIT_NONE then max_voltage_mv cfg else lim_mv)
      in fold (\<lambda>port s. emit (SetExternalVoltageLimit port lim_mv)
                           (charge_manager_set_ceil cfg port CEIL_REQUESTOR_HOST lim_ma s))
           [0..pd_port_count cfg - 1] s)"

definition charge_manager_external_power_limit_off :: "cm_config \<Rightarrow> cm \<Rightarrow> cm" where
  "charge_manager_external_power_limit_off cfg s =
     charge_manager_set_external_power_limit cfg EC_POWER_LIMIT_NONE EC_POWER_LIMIT_NONE s"

definition hc_external_power_limit :: "cm_config \<Rightarrow> u16 \<Rightarrow> u16 \<Rightarrow> cm \<Rightarrow> ec_status \<times> cm" where
  "hc_external_power_limit cfg lim_ma lim_mv s =
     (EC_RES_SUCCESS, charge_manager_set_external_power_limit cfg (uint lim_ma) (uint lim_mv) s)"

definition command_external_power_limit :: "cm_config \<Rightarrow> cstr list \<Rightarrow> cm \<Rightarrow> cm_error \<times> cm" where
  "command_external_power_limit cfg argv s =
     (let (cur, e1) = (if 2 \<le> length argv then strtoi (argv ! 1) 10 else (EC_POWER_LIMIT_NONE, []));
          (vtg, e2) = (if 3 \<le> length argv then strtoi (argv ! 2) 10 else (EC_POWER_LIMIT_NONE, []))
      in if deref e1 \<noteq> 0 \<or> deref e2 \<noteq> 0 then (EC_ERROR_PARAM1, s)
         else (EC_SUCCESS, charge_manager_set_external_power_limit cfg cur vtg s))"


section \<open>Optimality of the selection\<close>

text \<open>
  \<open>beats\<close> is the order that the comment in \<open>charge_manager_get_best_charge_port\<close> promises:
  priority, then power, then the port that is charging already. \<open>pool\<close> is what the
  selection chooses from: the override port alone once it has a charge, else everything
  that may be charged from.
\<close>

definition beats :: "cm_config \<Rightarrow> cm \<Rightarrow> int \<times> int \<Rightarrow> int \<times> int \<Rightarrow> bool" where
  "beats cfg s = (\<lambda>(i, j) (i', j').
     supplier_priority cfg i < supplier_priority cfg i'
     \<or> (supplier_priority cfg i = supplier_priority cfg i'
        \<and> (POWER (available_charge s i' j') < POWER (available_charge s i j)
           \<or> (POWER (available_charge s i j) = POWER (available_charge s i' j')
              \<and> j = charge_port s \<and> j' \<noteq> charge_port s))))"

definition pool :: "cm_config \<Rightarrow> cm_env \<Rightarrow> cm \<Rightarrow> (int \<times> int) set \<Rightarrow> (int \<times> int) set" where
  "pool cfg env s C = {(i, j) \<in> C. eligible cfg env s i j
     \<and> (j = override_port s \<or> (\<forall>i'. (i', override_port s) \<in> C \<longrightarrow> \<not> eligible cfg env s i' (override_port s)))}"

definition best_of :: "cm_config \<Rightarrow> cm_env \<Rightarrow> cm \<Rightarrow> (int \<times> int) set \<Rightarrow> best \<Rightarrow> bool" where
  "best_of cfg env s C b \<longleftrightarrow>
     (if pool cfg env s C = {} then b = no_best
      else (b_supplier b, b_port b) \<in> pool cfg env s C
        \<and> b_power b = POWER (available_charge s (b_supplier b) (b_port b))
        \<and> (\<forall>c \<in> pool cfg env s C. \<not> beats cfg s c (b_supplier b, b_port b)))"

lemma beats_trans_not: "\<not> beats cfg s c b \<Longrightarrow> \<not> beats cfg s b a \<Longrightarrow> \<not> beats cfg s c a"
  by (cases a; cases b; cases c) (auto simp: beats_def)

lemma beats_irrefl [simp]: "\<not> beats cfg s c c"
  by (cases c) (auto simp: beats_def)

definition override_charged :: "cm_config \<Rightarrow> cm_env \<Rightarrow> cm \<Rightarrow> (int \<times> int) set \<Rightarrow> bool" where
  "override_charged cfg env s C \<longleftrightarrow> (\<exists>i. (i, override_port s) \<in> C \<and> eligible cfg env s i (override_port s))"

lemma pool_charged:
  "override_charged cfg env s C \<Longrightarrow> pool cfg env s C = {(i, j) \<in> C. eligible cfg env s i j \<and> j = override_port s}"
  by (auto simp: pool_def override_charged_def)

lemma pool_uncharged:
  "\<not> override_charged cfg env s C \<Longrightarrow> pool cfg env s C = {(i, j) \<in> C. eligible cfg env s i j}"
  by (auto simp: pool_def override_charged_def)

text \<open>What one round of the loop does, by whether the override port was seen before.\<close>

lemma pool_insert:
  "pool cfg env s (insert (i, j) C) =
     (if \<not> eligible cfg env s i j then pool cfg env s C
      else if override_charged cfg env s C then (if j = override_port s then insert (i, j) (pool cfg env s C) else pool cfg env s C)
      else if j = override_port s then {(i, j)}
      else insert (i, j) (pool cfg env s C))"
proof (cases "eligible cfg env s i j")
  case False
  then show ?thesis by (auto simp: pool_def)
next
  case True
  then show ?thesis by (auto simp: pool_def override_charged_def)
qed

lemma takes_over_beats:
  assumes "b_supplier b \<noteq> -1" "b_power b = POWER (available_charge s (b_supplier b) (b_port b))"
    and "\<not> (j = override_port s \<and> b_port b \<noteq> override_port s)"
  shows "takes_over cfg s i j (POWER (available_charge s i j)) b
    \<Longrightarrow> \<not> beats cfg s (b_supplier b, b_port b) (i, j)"
    and "\<not> takes_over cfg s i j (POWER (available_charge s i j)) b
    \<Longrightarrow> \<not> beats cfg s (i, j) (b_supplier b, b_port b)"
  using assms by (auto simp: takes_over_def beats_def)

lemma best_of_compare:
  assumes old: "best_of cfg env s C b" "pool cfg env s C \<noteq> {}" "\<forall>c \<in> C. fst c \<noteq> -1"
    and new: "pool cfg env s (insert (i, j) C) = insert (i, j) (pool cfg env s C)"
    and same: "\<not> (j = override_port s \<and> b_port b \<noteq> override_port s)"
    and el: "eligible cfg env s i j"
    and noskip: "\<not> (override_port s \<noteq> -1 \<and> override_port s = b_port b \<and> override_port s \<noteq> j)"
  shows "best_of cfg env s (insert (i, j) C) (best_port_step cfg env s (i, j) b)"
proof -
  have b: "(b_supplier b, b_port b) \<in> pool cfg env s C"
      "b_power b = POWER (available_charge s (b_supplier b) (b_port b))"
      "\<And>c. c \<in> pool cfg env s C \<Longrightarrow> \<not> beats cfg s c (b_supplier b, b_port b)"
    using old by (auto simp: best_of_def)
  have supp: "b_supplier b \<noteq> -1" using b(1) old(3) by (force simp: pool_def)
  show ?thesis
  proof (cases "takes_over cfg s i j (POWER (available_charge s i j)) b")
    case True
    have "\<not> beats cfg s c (i, j)" if "c \<in> pool cfg env s C" for c
      using beats_trans_not [OF b(3) [OF that] takes_over_beats(1) [OF supp b(2) same True]] .
    then show ?thesis using True el noskip by (auto simp: best_port_step_unfold best_of_def new)
  next
    case False
    then show ?thesis using b takes_over_beats(2) [OF supp b(2) same False]
      by (auto simp: best_port_step_unfold best_of_def new)
  qed
qed

lemma best_of_step:
  assumes old: "best_of cfg env s C b" and C: "\<forall>c \<in> C. fst c \<noteq> -1 \<and> 0 \<le> snd c" and j: "0 \<le> j"
  shows "best_of cfg env s (insert (i, j) C) (best_port_step cfg env s (i, j) b)"
proof (cases "eligible cfg env s i j")
  case False
  then show ?thesis using old by (simp add: best_port_step_unfold best_of_def pool_insert)
next
  case el: True
  show ?thesis
  proof (cases "pool cfg env s C = {}")
    case True
    then have "\<not> override_charged cfg env s C" by (auto simp: pool_def override_charged_def)
    with True have "b = no_best" "pool cfg env s (insert (i, j) C) = {(i, j)}"
      using old el by (auto simp: best_of_def pool_insert)
    then show ?thesis using el by (simp add: best_port_step_unfold best_of_def takes_over_def no_best_def)
  next
    case False
    then have b: "(b_supplier b, b_port b) \<in> pool cfg env s C" using old by (auto simp: best_of_def)
    consider "override_charged cfg env s C" "j \<noteq> override_port s"
      | "override_charged cfg env s C" "j = override_port s"
      | "\<not> override_charged cfg env s C" "j = override_port s"
      | "\<not> override_charged cfg env s C" "j \<noteq> override_port s" by blast
    then show ?thesis
    proof cases
      case 1
      then have "b_port b = override_port s" "override_port s \<noteq> -1" using b C by (auto simp: pool_charged)
      then have "best_port_step cfg env s (i, j) b = b" using 1 by (auto simp: best_port_step_unfold)
      then show ?thesis using 1 el old by (simp only: best_of_def pool_insert if_True if_False simp_thms)
    next
      case 2
      then have "b_port b = override_port s" using b by (auto simp: pool_charged)
      then show ?thesis using 2 el C False by (intro best_of_compare old) (auto simp: pool_insert)
    next
      case 3
      then have "b_port b \<noteq> override_port s" using b by (auto simp: pool_uncharged override_charged_def)
      then show ?thesis using 3 el by (simp add: best_port_step_unfold best_of_def pool_insert takes_over_def)
    next
      case 4
      then have "b_port b \<noteq> override_port s" using b by (auto simp: pool_uncharged override_charged_def)
      then show ?thesis using 4 el C False by (intro best_of_compare old) (auto simp: pool_insert)
    qed
  qed
qed

lemma fold_best_of:
  assumes "best_of cfg env s C b" "\<forall>c \<in> C \<union> set cs. fst c \<noteq> -1 \<and> 0 \<le> snd c"
  shows "best_of cfg env s (C \<union> set cs) (fold (best_port_step cfg env s) cs b)"
  using assms
proof (induction cs arbitrary: b C)
  case (Cons c cs)
  have "best_of cfg env s (insert c C) (best_port_step cfg env s c b)"
    using best_of_step [OF Cons.prems(1), of "snd c" "fst c"] Cons.prems(2) by auto
  from Cons.IH [OF this] Cons.prems(2) show ?case by simp
qed simp

lemma candidates_nonneg: "c \<in> set (candidates cfg) \<Longrightarrow> fst c \<noteq> -1 \<and> 0 \<le> snd c"
  by (auto simp: set_candidates suppliers_def ports_def)

lemma best_charge_port_best_of:
  assumes "override_port s \<noteq> OVERRIDE_DONT_CHARGE"
  shows "best_of cfg env s (set (candidates cfg)) (fold (best_port_step cfg env s) (candidates cfg) no_best)"
  using fold_best_of [of cfg env s "{}" no_best "candidates cfg"] candidates_nonneg
  by (simp add: best_of_def pool_def)

text \<open>
  C2. What \<open>charge_manager_get_best_charge_port\<close> returns in every state: nothing on
  ``don't charge'' or when no supplier may be charged from, and otherwise a supplier and
  port of the pool (the override port alone when it has a charge) that no member of the
  pool beats by priority, then power, then being the active port.
\<close>

theorem best_charge_port_optimal:
  "case charge_manager_get_best_charge_port cfg env s of (p, sp) \<Rightarrow>
     if override_port s = OVERRIDE_DONT_CHARGE \<or> pool cfg env s (set (candidates cfg)) = {}
     then p = CHARGE_PORT_NONE \<and> sp = CHARGE_SUPPLIER_NONE
     else (sp, p) \<in> pool cfg env s (set (candidates cfg))
       \<and> \<not> (\<exists>c \<in> pool cfg env s (set (candidates cfg)). beats cfg s c (sp, p))"
  using best_charge_port_best_of [of s cfg env]
  by (auto simp: charge_manager_get_best_charge_port_def best_of_def no_best_def Let_def split: if_splits)

lemma override_port_chosen:
  assumes "0 \<le> override_port s" "override_port s \<in> set (ports cfg)" "i \<in> set (suppliers cfg)"
    and "has_charge s i (override_port s)"
  shows "fst (charge_manager_get_best_charge_port cfg env s) = override_port s"
proof -
  have "override_charged cfg env s (set (candidates cfg))"
    using assms by (auto simp: override_charged_def set_candidates eligible_def)
  moreover from this have "pool cfg env s (set (candidates cfg)) \<noteq> {}"
    by (auto simp: pool_charged override_charged_def)
  ultimately show ?thesis using best_charge_port_best_of [of s cfg env] assms(1)
    by (auto simp: charge_manager_get_best_charge_port_def best_of_def pool_charged Let_def split: if_splits)
qed

section \<open>What a refresh does\<close>

text \<open>
  \<open>hunted cfg env s t\<close>: \<open>t\<close> is \<open>s\<close> after the hunt has zeroed the available charge of some
  ports the board refused, and has logged its requests.
\<close>

definition zero_ports :: "cm_config \<Rightarrow> int set \<Rightarrow> cm \<Rightarrow> cm" where
  "zero_ports cfg R s = s\<lparr>available_charge := (\<lambda>i j. if i \<in> set (suppliers cfg) \<and> j \<in> R
     then \<lparr>current = 0, voltage = 0\<rparr> else available_charge s i j)\<rparr>"

definition hunted :: "cm_config \<Rightarrow> cm_env \<Rightarrow> cm \<Rightarrow> cm \<Rightarrow> bool" where
  "hunted cfg env s t \<longleftrightarrow> (\<exists>R es. R \<subseteq> set (ports cfg) \<and> (\<forall>p \<in> R. \<not> accept_port env p)
     \<and> set es \<subseteq> range SetActiveChargePort \<and> t = zero_ports cfg R (s\<lparr>events := events s @ es\<rparr>))"

lemma hunted_refl [simp]: "hunted cfg env s s"
  unfolding hunted_def by (intro exI [of _ "{}"] exI [of _ "[]"]) (simp add: zero_ports_def)

lemma hunted_emit [simp]: "hunted cfg env s (emit (SetActiveChargePort p) s)"
  unfolding hunted_def by (intro exI [of _ "{}"] exI [of _ "[SetActiveChargePort p]"]) (simp add: zero_ports_def emit_def)

lemma hunted_zero_port:
  assumes "hunted cfg env (zero_port cfg p (emit (SetActiveChargePort p) s)) t"
    and "p \<in> set (ports cfg)" "\<not> accept_port env p"
  shows "hunted cfg env s t"
proof -
  obtain R es where R: "R \<subseteq> set (ports cfg)" "\<forall>p \<in> R. \<not> accept_port env p" "set es \<subseteq> range SetActiveChargePort"
    and t: "t = zero_ports cfg R ((zero_port cfg p (emit (SetActiveChargePort p) s))
                \<lparr>events := events (zero_port cfg p (emit (SetActiveChargePort p) s)) @ es\<rparr>)"
    using assms(1) unfolding hunted_def by blast
  have "t = zero_ports cfg (insert p R) (s\<lparr>events := events s @ (SetActiveChargePort p # es)\<rparr>)"
    unfolding t by (rule cm.equality) (auto simp: zero_ports_def zero_port_def emit_def fun_eq_iff)
  then show ?thesis unfolding hunted_def using R assms(2, 3)
    by (intro exI [of _ "insert p R"] exI [of _ "SetActiveChargePort p # es"]) simp
qed

lemma hunted_fields:
  assumes "hunted cfg env s t"
  shows "charge_port t = charge_port s" "charge_supplier t = charge_supplier s" "charge_current t = charge_current s"
    "charge_voltage t = charge_voltage s" "charge_current_uncapped t = charge_current_uncapped s"
    "left_safe_mode t = left_safe_mode s" "charge_ceil t = charge_ceil s" "override_port t = override_port s"
    "is_seeded t = is_seeded s" "source_port_rp t = source_port_rp s" "source_port_bitmap t = source_port_bitmap s"
    "active_charge_port_initialized t = active_charge_port_initialized s"
    "dualrole_capability t = dualrole_capability s"
  using assms by (auto simp: hunted_def zero_ports_def)

lemma emit_selection [simp]:
  "eligible cfg env (emit e s) i j = eligible cfg env s i j"
  "takes_over cfg (emit e s) i j w b = takes_over cfg s i j w b"
  "available_charge (emit e s) = available_charge s" "override_port (emit e s) = override_port s"
  by (simp_all add: eligible_def has_charge_def takes_over_def emit_def charge_manager_spoof_dualrole_capability_def)

lemma best_charge_port_emit [simp]:
  "charge_manager_get_best_charge_port cfg env (emit e s) = charge_manager_get_best_charge_port cfg env s"
proof -
  have "best_port_step cfg env (emit e s) = best_port_step cfg env s"
    by (auto simp: fun_eq_iff best_port_step_unfold)
  then show ?thesis by (simp add: charge_manager_get_best_charge_port_def)
qed

lemma hunt_port_spec:
  "hunt_port cfg env s = (r, t) \<Longrightarrow> hunted cfg env s t \<and>
     (case r of
        HuntReturn \<Rightarrow> \<not> left_safe_mode s
      | HuntAssert \<Rightarrow> \<not> accept_port env CHARGE_PORT_NONE
      | HuntBreak p sp \<Rightarrow> charge_manager_get_best_charge_port cfg env t = (p, sp)
          \<and> (left_safe_mode s \<or> p \<noteq> CHARGE_PORT_NONE)
          \<and> (if active_charge_port_initialized s \<and> p = charge_port s \<and> sp = charge_supplier s then True
             else accept_port env p))"
proof (induction cfg env s arbitrary: r t rule: hunt_port.induct)
  case (1 cfg env s)
  obtain p sp where b: "charge_manager_get_best_charge_port cfg env s = (p, sp)" by fastforce
  let ?kept = "active_charge_port_initialized s \<and> p = charge_port s \<and> sp = charge_supplier s"
  show ?case
  proof (cases "(\<not> left_safe_mode s \<and> p = -1) \<or> ?kept \<or> accept_port env p \<or> p = -1")
    case True
    then show ?thesis using "1.prems" b by (subst (asm) hunt_port.simps) (auto split: if_splits)
  next
    case False
    then have p: "p \<in> set (ports cfg)" using best_charge_port_eligible [OF b] by auto
    have eq: "hunt_port cfg env (zero_port cfg p (emit (SetActiveChargePort p) s)) = (r, t)"
      using "1.prems" b False by (subst (asm) hunt_port.simps) (auto split: if_splits)
    have IH: "hunted cfg env (zero_port cfg p (emit (SetActiveChargePort p) s)) t \<and> (case r of
        HuntReturn \<Rightarrow> \<not> left_safe_mode (zero_port cfg p (emit (SetActiveChargePort p) s))
      | HuntAssert \<Rightarrow> \<not> accept_port env CHARGE_PORT_NONE
      | HuntBreak p' sp' \<Rightarrow> charge_manager_get_best_charge_port cfg env t = (p', sp')
          \<and> (left_safe_mode (zero_port cfg p (emit (SetActiveChargePort p) s)) \<or> p' \<noteq> CHARGE_PORT_NONE)
          \<and> (if active_charge_port_initialized (zero_port cfg p (emit (SetActiveChargePort p) s))
              \<and> p' = charge_port (zero_port cfg p (emit (SetActiveChargePort p) s))
              \<and> sp' = charge_supplier (zero_port cfg p (emit (SetActiveChargePort p) s)) then True
             else accept_port env p'))"
      using "1.IH" [OF b [symmetric] refl] eq False by simp
    have "hunted cfg env s t" using hunted_zero_port IH p False by blast
    with IH show ?thesis by (auto simp: zero_port_def emit_def split: hunt_result.splits if_splits)
  qed
qed

text \<open>\<open>core\<close> forgets what only logging and calls to other modules change.\<close>

definition core :: "cm \<Rightarrow> cm" where
  "core s = s\<lparr>save_log := (\<lambda>_. False), events := []\<rparr>"

lemma core_emit [simp]: "core (emit e s) = core s"
  by (simp add: core_def emit_def)

lemma core_save_log [simp]: "core (charge_manager_save_log cfg env scratch p s) = core s"
  by (simp add: charge_manager_save_log_def Let_def) (simp add: core_def)

lemma core_fold:
  assumes "\<And>x s. core (f x s) = core s"
  shows "core (fold f xs s) = core s"
  by (induction xs arbitrary: s) (simp_all add: assms)

lemma core_save_log_update [simp]: "core (s\<lparr>save_log := l\<rparr>) = core s"
  by (simp add: core_def)

lemma core_log_changes [simp]: "core (log_changes cfg env scratch a b s) = core s"
  by (simp add: log_changes_def Let_def core_fold)

lemma core_switch_to_source [simp]: "core (charge_manager_switch_to_source cfg env p s) = core s"
  by (simp add: charge_manager_switch_to_source_def)

lemma core_set_limit [simp]: "core (set_limit cfg env p sp c u v s) = core s"
  by (simp add: set_limit_def)

lemma core_fields [simp]:
  "charge_port (core s) = charge_port s" "charge_supplier (core s) = charge_supplier s"
  "charge_current (core s) = charge_current s" "charge_voltage (core s) = charge_voltage s"
  "charge_current_uncapped (core s) = charge_current_uncapped s" "override_port (core s) = override_port s"
  "is_seeded (core s) = is_seeded s" "charge_ceil (core s) = charge_ceil s"
  "left_safe_mode (core s) = left_safe_mode s" "available_charge (core s) = available_charge s"
  "source_port_rp (core s) = source_port_rp s" "source_port_bitmap (core s) = source_port_bitmap s"
  "active_charge_port_initialized (core s) = active_charge_port_initialized s" "delayed_override_port (core s) = delayed_override_port s"
  "dualrole_capability (core s) = dualrole_capability s"
  by (simp_all add: core_def)

lemma core_eqD:
  assumes "core s = core t"
  shows "charge_port s = charge_port t" "charge_supplier s = charge_supplier t"
    "charge_current s = charge_current t" "charge_voltage s = charge_voltage t"
    "charge_current_uncapped s = charge_current_uncapped t" "override_port s = override_port t"
    "is_seeded s = is_seeded t" "charge_ceil s = charge_ceil t"
    "left_safe_mode s = left_safe_mode t" "available_charge s = available_charge t"
    "source_port_rp s = source_port_rp t" "source_port_bitmap s = source_port_bitmap t"
    "active_charge_port_initialized s = active_charge_port_initialized t" "delayed_override_port s = delayed_override_port t"
    "dualrole_capability s = dualrole_capability t"
  using arg_cong [OF assms, of charge_port] arg_cong [OF assms, of charge_supplier]
    arg_cong [OF assms, of charge_current] arg_cong [OF assms, of charge_voltage]
    arg_cong [OF assms, of charge_current_uncapped] arg_cong [OF assms, of override_port]
    arg_cong [OF assms, of is_seeded] arg_cong [OF assms, of charge_ceil]
    arg_cong [OF assms, of left_safe_mode] arg_cong [OF assms, of available_charge]
    arg_cong [OF assms, of source_port_rp] arg_cong [OF assms, of source_port_bitmap]
    arg_cong [OF assms, of active_charge_port_initialized] arg_cong [OF assms, of delayed_override_port]
    arg_cong [OF assms, of dualrole_capability]
  by simp_all

text \<open>What the part of the refresh after the hunt leaves behind.\<close>

lemma new_charge_update [simp]:
  "new_charge cfg env (s\<lparr>active_charge_port_initialized := b\<rparr>) p sp = new_charge cfg env s p sp"
  "new_charge cfg env (s\<lparr>override_port := q\<rparr>) p sp = new_charge cfg env s p sp"
  by (simp_all add: new_charge_def charge_manager_get_ceil_def)

lemma core_requests [simp]:
  "core (new_power_request cfg p s) = core s" "core (cleanup_old_port cfg env p s) = core s"
  by (simp_all add: new_power_request_def cleanup_old_port_def)

lemma core_update:
  "core (t\<lparr>charge_current := c, charge_current_uncapped := u, charge_voltage := v, charge_supplier := sp, charge_port := p\<rparr>)
   = (core t)\<lparr>charge_current := c, charge_current_uncapped := u, charge_voltage := v, charge_supplier := sp, charge_port := p\<rparr>"
  by (simp add: core_def)

lemma refresh_commit_core:
  "core (refresh_commit cfg env scratch p sp c u v s) =
     core (s\<lparr>charge_current := c, charge_current_uncapped := u, charge_voltage := v, charge_supplier := sp, charge_port := p\<rparr>)"
  by (simp add: refresh_commit_def Let_def core_update if_distrib [of core])

lemma refresh_apply_core:
  assumes "new_charge cfg env s p sp = (c, u, v)"
  shows "core (refresh_apply cfg env scratch p sp s) = core (s\<lparr>active_charge_port_initialized := True,
      override_port := (if 0 \<le> override_port s \<and> override_port s \<noteq> p then OVERRIDE_OFF else override_port s),
      charge_current := c, charge_current_uncapped := u, charge_voltage := v,
      charge_supplier := sp, charge_port := p\<rparr>)"
  by (simp add: refresh_apply_def assms refresh_commit_core)

lemma refresh_apply_fields:
  "charge_port (refresh_apply cfg env scratch p sp s) = p"
  "charge_supplier (refresh_apply cfg env scratch p sp s) = sp"
  "charge_current (refresh_apply cfg env scratch p sp s) = fst (new_charge cfg env s p sp)"
  "charge_voltage (refresh_apply cfg env scratch p sp s) = snd (snd (new_charge cfg env s p sp))"
  using core_eqD [OF refresh_apply_core] by (cases "new_charge cfg env s p sp", simp)+

lemma ceil_Min:
  "charge_manager_get_ceil s p =
     (if \<forall>r. charge_ceil s p r = CHARGE_CEIL_NONE then CHARGE_CEIL_NONE
      else Min (charge_ceil s p ` {r. charge_ceil s p r \<noteq> CHARGE_CEIL_NONE}))"
proof -
  have univ: "P CEIL_REQUESTOR_PD \<and> P CEIL_REQUESTOR_HOST \<longleftrightarrow> (\<forall>r. P r)" for P
    by (metis ceil_requestor.exhaust)
  have img: "{r. Q r} = (if Q CEIL_REQUESTOR_PD then {CEIL_REQUESTOR_PD} else {})
      \<union> (if Q CEIL_REQUESTOR_HOST then {CEIL_REQUESTOR_HOST} else {})" for Q
    by (rule set_eqI, rename_tac r, case_tac r) auto
  show ?thesis unfolding charge_manager_get_ceil_def
    by (simp add: univ [symmetric] img Let_def min_def)
qed

lemma finite_ceil [simp]: "finite (charge_ceil s p ` R)"
  by (rule finite_imageI, rule finite_subset [of _ "{CEIL_REQUESTOR_PD, CEIL_REQUESTOR_HOST}"])
    (auto, metis ceil_requestor.exhaust)

lemma new_charge_Min:
  assumes "new_charge cfg env s p sp = (c, u, v)" "left_safe_mode s" "sp \<noteq> CHARGE_SUPPLIER_NONE"
  shows "c = Min (insert u (charge_ceil s p ` {r. charge_ceil s p r \<noteq> CHARGE_CEIL_NONE}))"
proof -
  let ?C = "charge_ceil s p ` {r. charge_ceil s p r \<noteq> -1}"
  have c: "c = (if charge_manager_get_ceil s p \<noteq> -1 then min (charge_manager_get_ceil s p) u else u)"
    using assms by (auto simp: new_charge_def Let_def)
  show ?thesis
  proof (cases "?C = {}")
    case True
    then have "\<forall>r. charge_ceil s p r = -1" by auto
    then have "charge_manager_get_ceil s p = -1" by (simp add: ceil_Min)
    then show ?thesis by (simp add: c True)
  next
    case False
    then have "charge_manager_get_ceil s p = Min ?C" by (auto simp: ceil_Min)
    moreover have "Min ?C \<noteq> -1" using Min_in [OF finite_ceil False] by auto
    ultimately show ?thesis using False by (simp add: c min.commute)
  qed
qed

lemma refresh_cases:
  assumes "charge_manager_refresh cfg env scratch s = Some s'"
  obtains "\<not> left_safe_mode s" "hunted cfg env s s'"
  | p sp t where "hunted cfg env s t" "charge_manager_get_best_charge_port cfg env t = (p, sp)"
      "left_safe_mode s \<or> p \<noteq> CHARGE_PORT_NONE"
      "(p = charge_port s \<and> sp = charge_supplier s) \<or> accept_port env p"
      "s' = refresh_apply cfg env scratch p sp t"
proof -
  obtain r t where h: "hunt_port cfg env s = (r, t)" by fastforce
  show thesis using hunt_port_spec [OF h] assms h that
    by (cases r) (auto simp: charge_manager_refresh_def split: if_splits)
qed

text \<open>
  C1. Outside safe mode, a refresh leaves the module charging from the best port and
  supplier of the state in which exactly some ports the board refused have lost their
  charge, and the board has accepted that port unless neither port nor supplier changed.
\<close>

theorem refresh_selects_best:
  assumes "charge_manager_refresh cfg env scratch s = Some s'" "left_safe_mode s"
  shows "\<exists>t. hunted cfg env s t
     \<and> charge_manager_get_best_charge_port cfg env t = (charge_port s', charge_supplier s')
     \<and> available_charge s' = available_charge t
     \<and> ((charge_port s' = charge_port s \<and> charge_supplier s' = charge_supplier s) \<or> accept_port env (charge_port s'))"
  using assms(1)
proof (cases rule: refresh_cases)
  case (2 p sp t)
  obtain c u v where n: "new_charge cfg env t p sp = (c, u, v)" by (cases "new_charge cfg env t p sp")
  show ?thesis using 2 core_eqD(10) [OF refresh_apply_core [OF n, of scratch]]
    by (intro exI [of _ t]) (simp add: refresh_apply_fields)
qed (use assms(2) in simp)

lemma best_has_charge:
  assumes "charge_manager_get_best_charge_port cfg env s = (p, sp)" "sp \<noteq> CHARGE_SUPPLIER_NONE"
  shows "has_charge s sp p"
  using assms best_charge_port_best_of [of s cfg env]
  by (auto simp: charge_manager_get_best_charge_port_def best_of_def no_best_def Let_def pool_def eligible_def split: if_splits)

lemma hunted_offer: "hunted cfg env s t \<Longrightarrow> has_charge t sp p \<Longrightarrow> available_charge t sp p = available_charge s sp p"
  by (auto simp: hunted_def zero_ports_def has_charge_def split: if_splits)


text \<open>
  The refresh always returns: the hunt for an acceptable port ends, and the assertion
  in it cannot fail for a board that accepts to stop charging.
\<close>

theorem refresh_total:
  assumes "accept_port env CHARGE_PORT_NONE"
  shows "\<exists>s'. charge_manager_refresh cfg env scratch s = Some s'"
proof -
  obtain r t where h: "hunt_port cfg env s = (r, t)" by fastforce
  show ?thesis using hunt_port_spec [OF h] assms h
    by (cases r) (auto simp: charge_manager_refresh_def)
qed

text \<open>
  In safe mode a board that is charging keeps charging from some port, whatever the
  suppliers report.
\<close>

theorem safe_mode_keeps_charging:
  assumes "charge_manager_refresh cfg env scratch s = Some s'" "\<not> left_safe_mode s"
    and "charge_port s \<noteq> CHARGE_PORT_NONE"
  shows "charge_port s' \<noteq> CHARGE_PORT_NONE"
  using assms(1)
proof (cases rule: refresh_cases)
  case 1
  then show ?thesis using assms(3) hunted_fields by simp
next
  case (2 p sp t)
  then show ?thesis using assms(2) by (simp add: refresh_apply_fields)
qed

section \<open>Sharing the source current\<close>

lemma is_active_source_bit: "is_active_source s p \<longleftrightarrow> bit (source_port_bitmap s) (nat p)"
  by (simp add: is_active_source_def and_exp_bit)

lemma has_other_active_sourceI:
  assumes "is_active_source s q" "nat q \<noteq> nat p"
  shows "has_other_active_source s p"
proof -
  have "bit (source_port_bitmap s AND NOT (push_bit (nat p) 1)) (nat q)"
    using assms by (auto simp: is_active_source_bit bit_and_iff bit_not_iff bit_exp_iff dest: bit_imp_le_length)
  then show ?thesis by (auto simp: has_other_active_source_def)
qed

lemma set_port_rp_state [simp]:
  "source_port_rp (set_port_rp cfg env scratch p s)
   = (source_port_rp s)(p := if can_supply_max_current cfg s p then max_rp cfg else pullup cfg)"
  "source_port_bitmap (set_port_rp cfg env scratch p s) = source_port_bitmap s"
proof -
  have "core (set_port_rp cfg env scratch p s) = core (s\<lparr>source_port_rp := (source_port_rp s)
      (p := if can_supply_max_current cfg s p then max_rp cfg else pullup cfg)\<rparr>)"
    by (simp add: set_port_rp_def Let_def)
  from core_eqD(11, 12) [OF this]
  show "source_port_rp (set_port_rp cfg env scratch p s)
     = (source_port_rp s)(p := if can_supply_max_current cfg s p then max_rp cfg else pullup cfg)"
    "source_port_bitmap (set_port_rp cfg env scratch p s) = source_port_bitmap s" by simp_all
qed

abbreviation pd_ports :: "cm_config \<Rightarrow> int set" where
  "pd_ports cfg \<equiv> set [0..pd_port_count cfg - 1]"

definition max_source :: "cm_config \<Rightarrow> cm \<Rightarrow> int \<Rightarrow> bool" where
  "max_source cfg s p \<longleftrightarrow> is_active_source s p \<and> source_port_rp s p = max_rp cfg"

definition shared :: "cm_config \<Rightarrow> cm \<Rightarrow> int set \<Rightarrow> bool" where
  "shared cfg s D \<longleftrightarrow> (\<forall>p \<in> D. \<forall>q \<in> D. max_source cfg s p \<and> max_source cfg s q \<longrightarrow> p = q)
     \<and> (max_total_source cfg \<longrightarrow> (\<exists>p \<in> D. is_active_source s p) \<longrightarrow> (\<exists>p \<in> pd_ports cfg. max_source cfg s p))"

lemma can_supply_no_other:
  assumes "can_supply_max_current cfg s x" "x \<in> pd_ports cfg" "q \<in> pd_ports cfg" "q \<noteq> x"
  shows "\<not> max_source cfg s q"
  using assms has_other_active_sourceI [of s q x]
  by (auto simp: eq_nat_nat_iff can_supply_max_current_def list_ex_iff max_source_def split: if_splits)

lemma cannot_supply_other:
  assumes "\<not> can_supply_max_current cfg s x" "max_total_source cfg" "is_active_source s x"
  shows "\<exists>q \<in> pd_ports cfg. q \<noteq> x \<and> max_source cfg s q"
  using assms by (auto simp: can_supply_max_current_def list_ex_iff max_source_def split: if_splits)

lemma shared_step:
  assumes "shared cfg s D" "D \<subseteq> pd_ports cfg" "x \<in> pd_ports cfg" "pullup cfg \<noteq> max_rp cfg"
  shows "shared cfg (set_port_rp cfg env scratch x s) (insert x D)"
proof -
  let ?s = "set_port_rp cfg env scratch x s"
  have act: "is_active_source ?s p = is_active_source s p" for p by (simp add: is_active_source_def)
  have other: "max_source cfg ?s p = max_source cfg s p" if "p \<noteq> x" for p using that by (simp add: max_source_def act)
  have new: "max_source cfg ?s x \<longleftrightarrow> is_active_source s x \<and> can_supply_max_current cfg s x"
    using assms(4) by (simp add: max_source_def act)
  have uniq: "p = q" if "max_source cfg ?s p" "max_source cfg ?s q" "p \<in> insert x D" "q \<in> insert x D" for p q
  proof (cases "p = x \<or> q = x")
    case True
    have "\<not> max_source cfg ?s r" if "r \<in> D" "r \<noteq> x" "max_source cfg ?s x" for r
      using can_supply_no_other [of cfg s x r] that new other assms(2, 3) by auto
    then show ?thesis using True that by auto
  next
    case False
    then show ?thesis using that other assms(1) by (auto simp: shared_def)
  qed
  have some: "\<exists>p \<in> pd_ports cfg. max_source cfg ?s p"
    if tot: "max_total_source cfg" and ex: "\<exists>p \<in> insert x D. is_active_source s p"
  proof (cases "max_source cfg ?s x")
    case False
    show ?thesis
    proof (cases "is_active_source s x")
      case True
      then show ?thesis using cannot_supply_other [OF _ tot True] False new other by auto
    next
      case False
      then obtain p where "p \<in> pd_ports cfg" "max_source cfg s p" using ex assms(1) tot by (auto simp: shared_def)
      moreover from this False have "p \<noteq> x" by (auto simp: max_source_def)
      ultimately show ?thesis using other by blast
    qed
  qed (use assms(3) in blast)
  show ?thesis unfolding shared_def act using uniq some by blast
qed

lemma shared_fold:
  "shared cfg s D \<Longrightarrow> D \<subseteq> pd_ports cfg \<Longrightarrow> set xs \<subseteq> pd_ports cfg \<Longrightarrow> pullup cfg \<noteq> max_rp cfg \<Longrightarrow>
   shared cfg (fold (set_port_rp cfg env scratch) xs s) (D \<union> set xs)"
proof (induction xs arbitrary: s D)
  case (Cons x xs)
  then show ?case using Cons.IH [OF shared_step [of cfg s D x]] by simp
qed simp

lemma idle_can_supply:
  assumes "\<not> is_active_source s p"
  shows "can_supply_max_current cfg s p \<longleftrightarrow> source_port_bitmap s = 0"
proof -
  have other: "has_other_active_source s p \<longleftrightarrow> source_port_bitmap s \<noteq> 0"
  proof -
    have "\<not> bit (source_port_bitmap s) (nat p)" using assms by (simp add: is_active_source_bit)
    then have "source_port_bitmap s AND NOT (push_bit (nat p) 1) = source_port_bitmap s"
      by (intro bit_word_eqI) (auto simp: bit_and_iff bit_not_iff bit_exp_iff)
    then show ?thesis by (simp add: has_other_active_source_def)
  qed
  have "source_port_bitmap s = 0 \<Longrightarrow> \<not> is_active_source s q" for q by (simp add: is_active_source_def)
  then show ?thesis using assms other by (auto simp: can_supply_max_current_def list_ex_iff)
qed

lemma idle_fold:
  "\<not> is_active_source s p \<Longrightarrow> source_port_rp (fold (set_port_rp cfg env scratch) xs s) p =
     (if p \<notin> set xs then source_port_rp s p else if source_port_bitmap s = 0 then max_rp cfg else pullup cfg)"
  by (induction xs arbitrary: s) (auto simp: is_active_source_def idle_can_supply)

lemma fold_bitmap: "source_port_bitmap (fold (set_port_rp cfg env scratch) xs s) = source_port_bitmap s"
  by (induction xs arbitrary: s) simp_all


section \<open>The module never acts before every supplier has reported\<close>

text \<open>
  The module's life: every way in which another module calls it, in any order and with any
  environment. The set is a history variable: the supplier/port pairs reported so far. The
  refresh is a deferred call, so it runs only after it has been deferred.
\<close>

inductive cm_reach :: "cm_config \<Rightarrow> (int \<times> int) set \<Rightarrow> cm \<Rightarrow> bool" for cfg where
  boot: "events s = [] \<Longrightarrow> \<not> is_seeded s \<Longrightarrow> cm_reach cfg {} (charge_manager_init cfg s)"
| charge: "cm_reach cfg U s \<Longrightarrow>
    cm_reach cfg (insert (sp, p) U) (charge_manager_update_charge cfg env sp p c s)"
| dualrole: "cm_reach cfg U s \<Longrightarrow> cm_reach cfg U (charge_manager_update_dualrole cfg env p cap s)"
| override: "cm_reach cfg U s \<Longrightarrow> cm_reach cfg U (snd (charge_manager_set_override cfg env p s))"
| override_timeout: "cm_reach cfg U s \<Longrightarrow> cm_reach cfg U (charge_override_timeout s)"
| debounced: "cm_reach cfg U s \<Longrightarrow> cm_reach cfg U (charger_detect_debounced s)"
| leave_safe_mode: "cm_reach cfg U s \<Longrightarrow> cm_reach cfg U (charge_manager_leave_safe_mode cfg s)"
| set_ceil: "cm_reach cfg U s \<Longrightarrow> cm_reach cfg U (charge_manager_set_ceil cfg p r ceil s)"
| force_ceil: "cm_reach cfg U s \<Longrightarrow> cm_reach cfg U (charge_manager_force_ceil cfg p ceil s)"
| source: "cm_reach cfg U s \<Longrightarrow> cm_reach cfg U (charge_manager_source_port cfg env scratch p enable s)"
| refresh: "cm_reach cfg U s \<Longrightarrow> DeferRefresh 0 \<in> set (events s) \<Longrightarrow>
    charge_manager_refresh cfg env scratch s = Some s' \<Longrightarrow> cm_reach cfg U s'"

definition seed_inv :: "cm_config \<Rightarrow> (int \<times> int) set \<Rightarrow> cm \<Rightarrow> bool" where
  "seed_inv cfg U s \<longleftrightarrow>
     (if is_seeded s then set (candidates cfg) \<subseteq> U
      else (\<forall>i j. (i, j) \<in> set (candidates cfg) - U \<longrightarrow> current (available_charge s i j) = CHARGE_UNINITIALIZED)
           \<and> DeferRefresh 0 \<notin> set (events s))"

lemma seed_inv_emit: "e \<noteq> DeferRefresh 0 \<Longrightarrow> seed_inv cfg U (emit e s) = seed_inv cfg U s"
  by (auto simp: seed_inv_def emit_def)

lemma seed_inv_update [simp]:
  "seed_inv cfg U (s\<lparr>override_port := a\<rparr>) = seed_inv cfg U s"
  "seed_inv cfg U (s\<lparr>delayed_override_port := a\<rparr>) = seed_inv cfg U s"
  "seed_inv cfg U (s\<lparr>delayed_override_deadline := d\<rparr>) = seed_inv cfg U s"
  "seed_inv cfg U (s\<lparr>dualrole_capability := q\<rparr>) = seed_inv cfg U s"
  "seed_inv cfg U (s\<lparr>left_safe_mode := b\<rparr>) = seed_inv cfg U s"
  "seed_inv cfg U (s\<lparr>charge_ceil := c\<rparr>) = seed_inv cfg U s"
  "seed_inv cfg U (s\<lparr>save_log := l\<rparr>) = seed_inv cfg U s"
  "seed_inv cfg U (s\<lparr>source_port_bitmap := w\<rparr>) = seed_inv cfg U s"
  "seed_inv cfg U (s\<lparr>source_port_rp := rp\<rparr>) = seed_inv cfg U s"
  "seed_inv cfg U (s\<lparr>registration_time := t\<rparr>) = seed_inv cfg U s"
  by (simp_all add: seed_inv_def)

lemma seed_inv_fold: "(\<And>x s. seed_inv cfg U (f x s) = seed_inv cfg U s) \<Longrightarrow> seed_inv cfg U (fold f xs s) = seed_inv cfg U s"
  by (induction xs arbitrary: s) simp_all

lemma seed_inv_set_port_rp [simp]: "seed_inv cfg U (set_port_rp cfg env scratch p s) = seed_inv cfg U s"
  by (simp add: set_port_rp_def charge_manager_save_log_def Let_def seed_inv_emit)

lemma seed_inv_defer:
  assumes "seed_inv cfg U s"
  shows "seed_inv cfg U (defer_refresh_if_seeded cfg s)"
proof (cases "is_seeded s \<or> fst (charge_manager_is_seeded cfg s) = False")
  case True
  then show ?thesis using assms
    by (auto simp: defer_refresh_if_seeded_def charge_manager_is_seeded_def seed_inv_def emit_def)
next
  case False
  then have init: "current (available_charge s i j) \<noteq> -1" if "(i, j) \<in> set (candidates cfg)" for i j
    using that by (auto simp: charge_manager_is_seeded_def set_candidates list_ex_iff split: if_splits)
  have "(i, j) \<in> U" if "(i, j) \<in> set (candidates cfg)" for i j
    using that init [OF that] assms False unfolding seed_inv_def by auto
  then show ?thesis using False
    by (auto simp: defer_refresh_if_seeded_def charge_manager_is_seeded_def seed_inv_def emit_def split: if_splits)
qed

lemma seed_inv_charge:
  "seed_inv cfg U s \<Longrightarrow> seed_inv cfg (insert (sp, p) U)
     (s\<lparr>available_charge := (available_charge s)(sp := (available_charge s sp)(p := c)), registration_time := t\<rparr>)"
  by (auto simp: seed_inv_def)

lemma seed_inv_mono: "seed_inv cfg U s \<Longrightarrow> U \<subseteq> V \<Longrightarrow> seed_inv cfg V s"
  by (auto simp: seed_inv_def split: if_splits)

lemma seed_inv_override: "seed_inv cfg U s \<Longrightarrow> seed_inv cfg U (snd (charge_manager_set_override cfg env p s))"
  by (simp add: charge_manager_set_override_def seed_inv_emit seed_inv_defer)

lemma seed_inv_clear_overrides: "seed_inv cfg U (clear_overrides cfg p b s) = seed_inv cfg U s"
  by (simp add: clear_overrides_def Let_def seed_inv_emit)

lemma seed_inv_store_charge:
  assumes "seed_inv cfg U s"
  shows "seed_inv cfg (insert (sp, p) U) (store_charge cfg env sp p c s)"
  using seed_inv_charge [OF assms, where sp = sp and p = p and c = c and t = "(registration_time s)(p := now env)"] unfolding store_charge_def Let_def
  by (simp add: seed_inv_emit seed_inv_override)

lemma change_relevant_same:
  "change_relevant cfg change sp p c s = Some (b, t) \<Longrightarrow> seed_inv cfg U t = seed_inv cfg U s"
  by (auto simp: change_relevant_def split: charge_manager_change_type.splits if_splits)

lemma seed_inv_make_change:
  assumes "seed_inv cfg U s"
  shows "seed_inv cfg (if change = CHANGE_CHARGE then insert (sp, p) U else U)
    (charge_manager_make_change cfg env change sp p c s)"
proof (cases "change_relevant cfg change sp p c s")
  case None
  then show ?thesis using seed_inv_mono [OF assms, of "insert (sp, p) U"] assms
    by (auto simp: charge_manager_make_change_def)
next
  case (Some bt)
  obtain b t where bt: "bt = (b, t)" by (cases bt)
  then have "seed_inv cfg U (clear_overrides cfg p b t)"
    using Some assms by (simp add: change_relevant_same seed_inv_clear_overrides)
  then show ?thesis using Some bt
    by (auto simp: charge_manager_make_change_def intro!: seed_inv_defer intro: seed_inv_store_charge)
qed

lemma seed_inv_refresh:
  assumes "charge_manager_refresh cfg env scratch s = Some s'" "is_seeded s" "seed_inv cfg U s"
  shows "seed_inv cfg U s'"
proof -
  have "is_seeded s'" using assms(1)
  proof (cases rule: refresh_cases)
    case (2 p sp t)
    obtain c u v where "new_charge cfg env t p sp = (c, u, v)" by (cases "new_charge cfg env t p sp")
    from core_eqD(7) [OF refresh_apply_core [OF this]] show ?thesis using 2 assms(2) hunted_fields by simp
  qed (use assms(2) hunted_fields in simp)
  then show ?thesis using assms(2, 3) by (simp add: seed_inv_def)
qed

lemma cm_reach_seed_inv: "cm_reach cfg U s \<Longrightarrow> seed_inv cfg U s"
proof (induction rule: cm_reach.induct)
  case (boot s)
  then show ?case by (auto simp: charge_manager_init_def seed_inv_def set_candidates)
next
  case (charge U s sp p env c)
  then show ?case using seed_inv_make_change [of cfg U s CHANGE_CHARGE]
    by (simp add: charge_manager_update_charge_def)
next
  case (dualrole U s env p cap)
  then show ?case using seed_inv_make_change [of cfg U _ CHANGE_DUALROLE]
    by (simp add: charge_manager_update_dualrole_def)
next
  case (refresh U s env scratch s')
  then have "is_seeded s" by (auto simp: seed_inv_def split: if_splits)
  then show ?case using seed_inv_refresh refresh by blast
qed (simp_all add: seed_inv_override charge_override_timeout_def charger_detect_debounced_def seed_inv_emit
    charge_manager_leave_safe_mode_def charge_manager_set_ceil_def charge_manager_force_ceil_def
    charge_manager_source_port_def seed_inv_defer seed_inv_fold Let_def)

text \<open>
  In every history of calls, a refresh has been scheduled only if every supplier of every
  port has reported before: the module never picks a charge port from partial information.
\<close>

theorem refresh_only_after_all_reported:
  assumes "cm_reach cfg U s" "DeferRefresh 0 \<in> set (events s)"
  shows "set (suppliers cfg) \<times> set (ports cfg) \<subseteq> U"
  using cm_reach_seed_inv [OF assms(1)] assms(2)
  by (auto simp: seed_inv_def set_candidates split: if_splits)

section \<open>Concrete boards\<close>

text \<open>
  A board with two PD ports and no BC1.2 detection: port 0 has a 15 W Type-C charger, port 1
  a 45 W PD charger limited to 2 A by the host; the board accepts every port but those listed.
\<close>

definition ex_cfg :: cm_config where
  "ex_cfg = \<lparr>pd_port_count = 2, dedicated_ports = 0, bc12 = False, drp_charging = False, safe_mode = False,
     pd_logging = False, ramp_hw = False, ramp_task = False, max_total_source = True, max_rp = TYPEC_RP_3A0,
     pullup = TYPEC_RP_1A5, max_voltage_mv = 20000\<rparr>"

definition ex_env :: "int list \<Rightarrow> cm_env" where
  "ex_env refused = \<lparr>role_sink = (\<lambda>_. True), pd_connected = (\<lambda>_. True), image_ro = False, locked = False,
     now = 0, accept_port = (\<lambda>p. p \<notin> set refused), ramp_allowed = (\<lambda>_. False), ramp_max = (\<lambda>_ c. c),
     ramp_stable = True, ramp_limit = 0, vbus_voltage = (\<lambda>_. 5000)\<rparr>"

definition ex_cm :: "bool \<Rightarrow> int \<Rightarrow> cm" where
  "ex_cm left port = \<lparr>available_charge = (\<lambda>i j. if i = 1 \<and> j = 0 then \<lparr>current = 3000, voltage = 5000\<rparr>
        else if i = 0 \<and> j = 1 then \<lparr>current = 3000, voltage = 15000\<rparr> else \<lparr>current = 0, voltage = 0\<rparr>),
     registration_time = (\<lambda>_. 0),
     charge_ceil = (\<lambda>j r. if j = 1 \<and> r = CEIL_REQUESTOR_HOST then 2000 else CHARGE_CEIL_NONE),
     dualrole_capability = (\<lambda>_. CAP_DEDICATED), save_log = (\<lambda>_. False), charge_port = port, charge_current = 0,
     charge_current_uncapped = 0, charge_voltage = 0, charge_supplier = CHARGE_SUPPLIER_NONE,
     override_port = OVERRIDE_OFF, delayed_override_port = OVERRIDE_OFF, delayed_override_deadline = 0,
     source_port_bitmap = 0, source_port_rp = (\<lambda>_. TYPEC_RP_1A5), left_safe_mode = left, is_seeded = False,
     active_charge_port_initialized = False, events = []\<rparr>"

definition ex_info :: power_info where
  "ex_info = \<lparr>pi_role = USB_PD_PORT_POWER_DISCONNECTED, pi_type = USB_CHG_TYPE_NONE, pi_dualrole = False,
     pi_meas = \<lparr>voltage_max = 0, voltage_now = 0, current_max = 0, current_lim = 0\<rparr>, pi_max_power = 0\<rparr>"

lemma ex_refresh:
  "map_option (\<lambda>s. (charge_port s, charge_supplier s, charge_current s, charge_current_uncapped s))
     (charge_manager_refresh ex_cfg (ex_env []) ex_info (ex_cm True (-1))) = Some (1, 0, 2000, 3000)"
  by code_simp

lemma ex_refresh_refused:
  "map_option (\<lambda>s. (charge_port s, charge_supplier s, charge_current s))
     (charge_manager_refresh ex_cfg (ex_env [1]) ex_info (ex_cm True (-1))) = Some (0, 1, 3000)"
  by code_simp

lemma ex_safe_mode: "\<not> Option.is_none (charge_manager_refresh ex_cfg (ex_env [0, 1]) ex_info (ex_cm False 0))"
  by code_simp

theorem refresh_selects_best_witness:
  "\<exists>s' t. charge_manager_refresh ex_cfg (ex_env [1]) ex_info (ex_cm True (-1)) = Some s'
     \<and> charge_port s' = 0 \<and> hunted ex_cfg (ex_env [1]) (ex_cm True (-1)) t
     \<and> charge_manager_get_best_charge_port ex_cfg (ex_env [1]) t = (charge_port s', charge_supplier s')"
proof -
  obtain s' where s': "charge_manager_refresh ex_cfg (ex_env [1]) ex_info (ex_cm True (-1)) = Some s'" "charge_port s' = 0"
    using ex_refresh_refused by auto
  have "left_safe_mode (ex_cm True (-1))" by code_simp
  from refresh_selects_best [OF s'(1) this] s' show ?thesis by blast
qed


theorem refresh_total_witness:
  "\<exists>s'. charge_manager_refresh ex_cfg (ex_env [0, 1]) ex_info (ex_cm True 0) = Some s'"
proof -
  have "accept_port (ex_env [0, 1]) (-1)" by code_simp
  from refresh_total [OF this] show ?thesis .
qed

theorem safe_mode_keeps_charging_witness:
  "\<exists>s'. charge_manager_refresh ex_cfg (ex_env [0, 1]) ex_info (ex_cm False 0) = Some s' \<and> charge_port s' \<noteq> CHARGE_PORT_NONE"
proof -
  obtain s' where s': "charge_manager_refresh ex_cfg (ex_env [0, 1]) ex_info (ex_cm False 0) = Some s'"
    using ex_safe_mode by (auto simp: Option.is_none_def)
  have "\<not> left_safe_mode (ex_cm False 0)" "charge_port (ex_cm False 0) \<noteq> -1" by code_simp+
  from safe_mode_keeps_charging [OF s' this] s' show ?thesis by blast
qed


definition ex_cfg1 :: cm_config where
  "ex_cfg1 = ex_cfg\<lparr>pd_port_count := 1\<rparr>"

definition ex_reports :: "cm \<Rightarrow> cm" where
  "ex_reports s = fold (\<lambda>(sp, p). charge_manager_update_charge ex_cfg1 (ex_env []) sp p None) (candidates ex_cfg1) s"

lemma fold_reports_reach:
  "cm_reach cfg U s \<Longrightarrow>
   cm_reach cfg (U \<union> set xs) (fold (\<lambda>(sp, p). charge_manager_update_charge cfg env sp p c) xs s)"
proof (induction xs arbitrary: U s)
  case (Cons x xs)
  obtain sp p where x: "x = (sp, p)" by (cases x)
  have "cm_reach cfg (insert x U) (charge_manager_update_charge cfg env sp p c s)"
    unfolding x using Cons.prems by (rule cm_reach.charge)
  from Cons.IH [OF this] show ?case by (simp add: x)
qed simp

theorem refresh_only_after_all_reported_witness:
  "let s = ex_reports (charge_manager_init ex_cfg1 (ex_cm True (-1))) in
   cm_reach ex_cfg1 (set (candidates ex_cfg1)) s \<and> DeferRefresh 0 \<in> set (events s)
   \<and> set (suppliers ex_cfg1) \<times> set (ports ex_cfg1) \<subseteq> set (candidates ex_cfg1)"
proof -
  let ?s0 = "charge_manager_init ex_cfg1 (ex_cm True (-1))"
  have "cm_reach ex_cfg1 {} ?s0" by (rule cm_reach.boot) code_simp+
  from fold_reports_reach [OF this] have r: "cm_reach ex_cfg1 (set (candidates ex_cfg1)) (ex_reports ?s0)"
    by (simp add: ex_reports_def)
  have e: "DeferRefresh 0 \<in> set (events (ex_reports ?s0))" by code_simp
  from refresh_only_after_all_reported [OF r e] r e show ?thesis by (simp only: Let_def simp_thms)
qed
end
