(* ===== verification/Charge_Ramp.thy ===== *)
theory Charge_Ramp
  imports EC_Prelude
begin

text \<open>
  The software charge ramp of common/charge_ramp_sw.c and the policy of
  common/charge_ramp.c. One iteration of the task's loop is one function on the module's
  state; the charge manager's notification is another. What the module asks of the board,
  the charger and the clock when it runs is the record \<open>ramp_env\<close>. Calls of
  \<open>board_set_charge_limit\<close> and host events are recorded in order.
\<close>

section \<open>State\<close>

abbreviation (input) RAMP_COUNT :: nat where "RAMP_COUNT \<equiv> 3"
abbreviation (input) OC_RECOVER_MAX_TIME :: u64 where "OC_RECOVER_MAX_TIME \<equiv> 1000000"
abbreviation (input) CURRENT_DRAW_DELAY :: int where "CURRENT_DRAW_DELAY \<equiv> 5000000"
abbreviation (input) RAMP_CURR_INCR_MA :: int where "RAMP_CURR_INCR_MA \<equiv> 64"
abbreviation (input) RAMP_CURR_DELAY :: int where "RAMP_CURR_DELAY \<equiv> 500000"
abbreviation (input) RAMP_CURR_START_MA :: int where "RAMP_CURR_START_MA \<equiv> 500"
abbreviation (input) RAMP_ICL_BACKOFF :: int where "RAMP_ICL_BACKOFF \<equiv> 128"
abbreviation (input) STABLIZE_DELAY :: int where "STABLIZE_DELAY \<equiv> 5000000"
abbreviation (input) DETECT_DELAY :: int where "DETECT_DELAY \<equiv> 2000000"
abbreviation (input) ONE_SECOND :: int where "ONE_SECOND \<equiv> 1000000"

datatype chg_ramp_state = CHG_RAMP_DISCONNECTED | CHG_RAMP_CHARGE_DETECT_DELAY | CHG_RAMP_OVERCURRENT_DETECT
  | CHG_RAMP_RAMP | CHG_RAMP_STABILIZE | CHG_RAMP_STABLE

record oc_info =
  oc_ts :: u64
  oc_detected :: bool
  oc_sup :: int
  oc_icl :: int

datatype ramp_call = SetChargeLimit int int int int int | PowerChangeEvent | SaveLog int

record ramp =
  ramp_st :: chg_ramp_state
  ramp_st_prev :: chg_ramp_state
  oc_infos :: "int \<Rightarrow> nat \<Rightarrow> oc_info"
  oc_info_idx :: "int \<Rightarrow> nat"
  active_port :: int
  active_sup :: int
  active_icl :: int
  active_vtg :: int
  reg_time :: u64
  stablize_port :: int
  stablize_sup :: int
  max_icl :: int
  min_icl :: int
  detect_end_time_us :: u64
  last_active_port :: int
  values_changed :: bool
  task_wait_time :: int
  ramp_calls :: "ramp_call list"

text \<open>
  \<open>allowed\<close> and \<open>ramp_limit_max\<close> are \<open>chg_ramp_allowed\<close> and \<open>chg_ramp_max\<close>; the last two say whether
  VBUS sags below the ramping and below the stable threshold.
\<close>

record ramp_env =
  allowed :: "int \<Rightarrow> bool"
  ramp_limit_max :: "int \<Rightarrow> int \<Rightarrow> int"
  time_now :: u64
  full_current :: bool
  vbus_low_ramping :: "int \<Rightarrow> bool"
  vbus_low_stable :: "int \<Rightarrow> bool"
  logging :: bool

section \<open>Policy\<close>

text \<open>\<open>bc12_allowed\<close> and \<open>bc12_max\<close> are what the BC1.2 detection module answers.\<close>

definition chg_ramp_allowed :: "bool \<Rightarrow> bool \<Rightarrow> bool \<Rightarrow> (int \<Rightarrow> bool) \<Rightarrow> int \<Rightarrow> bool" where
  "chg_ramp_allowed ramp_hw in_rw locked bc12_allowed supplier =
     (if \<not> in_rw \<and> locked then False
      else if supplier = 2 \<or> (ramp_hw \<and> (supplier = 0 \<or> supplier = 1)) then True
      else bc12_allowed supplier)"

definition chg_ramp_max :: "bool \<Rightarrow> (int \<Rightarrow> int \<Rightarrow> int) \<Rightarrow> int \<Rightarrow> int \<Rightarrow> int" where
  "chg_ramp_max ramp_hw bc12_max supplier sup_curr =
     (if supplier = 2 then max 2400 sup_curr
      else if ramp_hw \<and> (supplier = 0 \<or> supplier = 1) then sup_curr
      else bc12_max supplier sup_curr)"

section \<open>Operations\<close>

definition ACTIVE_OC_INFO :: "ramp \<Rightarrow> oc_info" where
  "ACTIVE_OC_INFO s = oc_infos s (active_port s) (oc_info_idx s (active_port s))"

definition set_active_oc :: "oc_info \<Rightarrow> ramp \<Rightarrow> ramp" where
  "set_active_oc v s = s\<lparr>oc_infos := (oc_infos s)(active_port s :=
     (oc_infos s (active_port s))(oc_info_idx s (active_port s) := v))\<rparr>"

definition remember_overcurrent :: "ramp_env \<Rightarrow> int \<Rightarrow> ramp \<Rightarrow> ramp" where
  "remember_overcurrent env port s =
     (if active_port s \<noteq> -1 \<and> port \<noteq> active_port s
      then (let i = oc_info_idx s (active_port s);
                s = s\<lparr>oc_info_idx := (oc_info_idx s)(active_port s := if i = RAMP_COUNT - 1 then 0 else Suc i)\<rparr>
            in set_active_oc ((ACTIVE_OC_INFO s)\<lparr>oc_ts := time_now env, oc_sup := active_sup s, oc_icl := active_icl s\<rparr>) s)
      else s)"

definition chg_ramp_charge_supplier_change :: "ramp_env \<Rightarrow> int \<Rightarrow> int \<Rightarrow> int \<Rightarrow> u64 \<Rightarrow> int \<Rightarrow> ramp \<Rightarrow> ramp" where
  "chg_ramp_charge_supplier_change env port supplier cur registration_time vtg s =
     (let s = remember_overcurrent env port s;
          s = s\<lparr>active_port := port, active_sup := supplier, active_vtg := vtg,
                 min_icl := (if allowed env supplier then RAMP_CURR_START_MA else cur),
                 max_icl := (if allowed env supplier then ramp_limit_max env supplier cur else cur),
                 reg_time := registration_time\<rparr>
      in if ramp_st s \<noteq> CHG_RAMP_STABILIZE
         then s\<lparr>ramp_st := (if port = -1 then CHG_RAMP_DISCONNECTED else CHG_RAMP_CHARGE_DETECT_DELAY)\<rparr>
         else s)"

definition chg_ramp_get_current_limit :: "ramp \<Rightarrow> int" where
  "chg_ramp_get_current_limit s =
     (case ramp_st s of
        CHG_RAMP_RAMP \<Rightarrow> active_icl s
      | CHG_RAMP_STABILIZE \<Rightarrow> active_icl s
      | CHG_RAMP_STABLE \<Rightarrow> active_icl s
      | _ \<Rightarrow> min_icl s)"

definition chg_ramp_is_detected :: "ramp \<Rightarrow> bool" where
  "chg_ramp_is_detected s \<longleftrightarrow> ramp_st s \<noteq> CHG_RAMP_DISCONNECTED \<and> ramp_st s \<noteq> CHG_RAMP_CHARGE_DETECT_DELAY"

definition chg_ramp_is_stable :: "ramp \<Rightarrow> bool" where
  "chg_ramp_is_stable s \<longleftrightarrow> ramp_st s = CHG_RAMP_STABLE"

definition ramp_emit :: "ramp_call \<Rightarrow> ramp \<Rightarrow> ramp" where
  "ramp_emit c s = s\<lparr>ramp_calls := ramp_calls s @ [c]\<rparr>"

text \<open>The cases of the \<open>switch\<close>: the new state, the new limit, and the module's state.\<close>

definition ramp_overcurrent_detect :: "ramp_env \<Rightarrow> chg_ramp_state \<Rightarrow> ramp \<Rightarrow> chg_ramp_state \<times> int \<times> ramp" where
  "ramp_overcurrent_detect env st_new s =
     (let s = s\<lparr>task_wait_time := ONE_SECOND\<rparr>
      in if \<not> allowed env (active_sup s) then (CHG_RAMP_STABLE, min_icl s, s)
         else if \<not> full_current env then (st_new, active_icl s, s\<lparr>task_wait_time := CURRENT_DRAW_DELAY\<rparr>)
         else if list_all (\<lambda>i. oc_sup (oc_infos s (active_port s) i) = active_sup s
                             \<and> oc_detected (oc_infos s (active_port s) i)) [0..<RAMP_COUNT]
         then (CHG_RAMP_STABLE, oc_icl (ACTIVE_OC_INFO s) - RAMP_ICL_BACKOFF, s)
         else (CHG_RAMP_RAMP, min_icl s, s))"

definition ramp_detect_delay :: "ramp_env \<Rightarrow> ramp \<Rightarrow> chg_ramp_state \<times> int \<times> ramp" where
  "ramp_detect_delay env s =
     (if ramp_st_prev s \<noteq> ramp_st s \<or> active_port s \<noteq> last_active_port s
      then (let s = s\<lparr>last_active_port := active_port s\<rparr>;
                s = (if reg_time s < oc_ts (ACTIVE_OC_INFO s) + OC_RECOVER_MAX_TIME
                     then set_active_oc ((ACTIVE_OC_INFO s)\<lparr>oc_detected := True\<rparr>) s
                     else s\<lparr>oc_infos := (oc_infos s)(active_port s :=
                            (\<lambda>i. if i < RAMP_COUNT then (oc_infos s (active_port s) i)\<lparr>oc_detected := False\<rparr>
                                 else oc_infos s (active_port s) i))\<rparr>)
            in (ramp_st s, active_icl s,
                s\<lparr>detect_end_time_us := time_now env + word_of_int DETECT_DELAY, task_wait_time := DETECT_DELAY\<rparr>))
      else if time_now env < detect_end_time_us s
      then (ramp_st s, active_icl s, s\<lparr>task_wait_time := s32 (uint (detect_end_time_us s - time_now env))\<rparr>)
      else ramp_overcurrent_detect env CHG_RAMP_OVERCURRENT_DETECT (ramp_emit PowerChangeEvent s))"

definition ramp_ramp :: "ramp_env \<Rightarrow> ramp \<Rightarrow> chg_ramp_state \<times> int \<times> ramp" where
  "ramp_ramp env s =
     (if \<not> full_current env then (ramp_st s, active_icl s, s\<lparr>task_wait_time := CURRENT_DRAW_DELAY\<rparr>)
      else if vbus_low_ramping env (active_port s)
      then (CHG_RAMP_STABILIZE, max (min_icl s) (active_icl s - RAMP_ICL_BACKOFF),
            s\<lparr>task_wait_time := STABLIZE_DELAY, stablize_port := active_port s, stablize_sup := active_sup s\<rparr>)
      else
        let s = s\<lparr>task_wait_time := RAMP_CURR_DELAY\<rparr>
        in if active_icl s = max_icl s then (CHG_RAMP_STABLE, active_icl s, s)
           else if max_icl s < active_icl s + RAMP_CURR_INCR_MA then (ramp_st s, max_icl s, s)
           else (ramp_st s, active_icl s + RAMP_CURR_INCR_MA, s))"

definition ramp_stabilize :: "ramp \<Rightarrow> chg_ramp_state \<times> int \<times> ramp" where
  "ramp_stabilize s =
     (let s = s\<lparr>task_wait_time := ONE_SECOND\<rparr>
      in if active_port s = stablize_port s \<and> active_sup s = stablize_sup s then (CHG_RAMP_STABLE, active_icl s, s)
         else (if active_port s = -1 then CHG_RAMP_DISCONNECTED else CHG_RAMP_CHARGE_DETECT_DELAY, active_icl s, s))"

definition ramp_stable_case :: "ramp_env \<Rightarrow> ramp \<Rightarrow> chg_ramp_state \<times> int \<times> ramp" where
  "ramp_stable_case env s =
     (let s = (if ramp_st_prev s \<noteq> ramp_st s
               then ramp_emit PowerChangeEvent (if logging env then ramp_emit (SaveLog (active_port s)) s else s) else s);
          s = s\<lparr>task_wait_time := ONE_SECOND\<rparr>
      in if allowed env (active_sup s) \<and> vbus_low_stable env (active_port s)
         then (CHG_RAMP_RAMP, min_icl s, s\<lparr>max_icl := max (min_icl s) (max_icl s - RAMP_ICL_BACKOFF)\<rparr>)
         else (ramp_st s, active_icl s, s))"

definition ramp_switch :: "ramp_env \<Rightarrow> ramp \<Rightarrow> chg_ramp_state \<times> int \<times> ramp" where
  "ramp_switch env s =
     (case ramp_st s of
        CHG_RAMP_DISCONNECTED \<Rightarrow> (ramp_st s, active_icl s, s\<lparr>task_wait_time := -1\<rparr>)
      | CHG_RAMP_CHARGE_DETECT_DELAY \<Rightarrow> ramp_detect_delay env s
      | CHG_RAMP_OVERCURRENT_DETECT \<Rightarrow> ramp_overcurrent_detect env (ramp_st s) s
      | CHG_RAMP_RAMP \<Rightarrow> ramp_ramp env s
      | CHG_RAMP_STABILIZE \<Rightarrow> ramp_stabilize s
      | CHG_RAMP_STABLE \<Rightarrow> ramp_stable_case env s)"

text \<open>One iteration of the loop of \<open>chg_ramp_task\<close>, up to the wait.\<close>

definition chg_ramp_iteration :: "ramp_env \<Rightarrow> ramp \<Rightarrow> ramp" where
  "chg_ramp_iteration env s0 =
     (case ramp_switch env s0 of
        (st_new, icl_new, s) \<Rightarrow>
          let s = s\<lparr>values_changed := (values_changed s \<or> ramp_st s \<noteq> st_new \<or> active_icl s \<noteq> icl_new),
                     ramp_st_prev := ramp_st s, ramp_st := st_new, active_icl := icl_new\<rparr>;
              lim = chg_ramp_get_current_limit s
          in if values_changed s
             then ramp_emit (SetChargeLimit (active_port s) (active_sup s) lim lim (active_vtg s)) s else s)"

text \<open>The initialisation before the loop.\<close>

definition chg_ramp_task_init :: "int \<Rightarrow> ramp \<Rightarrow> ramp" where
  "chg_ramp_task_init pd_ports s =
     s\<lparr>oc_infos := (\<lambda>p i. if 0 \<le> p \<and> p < pd_ports \<and> i = 0 then (oc_infos s p i)\<lparr>oc_sup := -1\<rparr> else oc_infos s p i),
       task_wait_time := -1, detect_end_time_us := 0, last_active_port := -1\<rparr>"


section \<open>Reachable states\<close>

text \<open>The module's life: loop iterations and notifications in any order and any environment.\<close>

inductive ramp_reach :: "ramp \<Rightarrow> bool" where
  boot: "ramp_st s = CHG_RAMP_DISCONNECTED \<Longrightarrow> ramp_reach (chg_ramp_task_init pd_ports s)"
| iterate: "ramp_reach s \<Longrightarrow> ramp_reach (chg_ramp_iteration env s)"
| change: "ramp_reach s \<Longrightarrow> ramp_reach (chg_ramp_charge_supplier_change env port supplier cur t vtg s)"

definition ramp_inv :: "ramp \<Rightarrow> bool" where
  "ramp_inv s \<longleftrightarrow> (ramp_st s = CHG_RAMP_RAMP \<longrightarrow>
     min (min_icl s) (max_icl s) \<le> active_icl s \<and> active_icl s \<le> max (min_icl s) (max_icl s))"

lemma ramp_emit_fields [simp]:
  "ramp_st (ramp_emit c s) = ramp_st s" "min_icl (ramp_emit c s) = min_icl s" "max_icl (ramp_emit c s) = max_icl s"
  "active_icl (ramp_emit c s) = active_icl s" "active_port (ramp_emit c s) = active_port s"
  "active_sup (ramp_emit c s) = active_sup s"
  by (simp_all add: ramp_emit_def)

lemma set_active_oc_fields [simp]:
  "ramp_st (set_active_oc v s) = ramp_st s" "min_icl (set_active_oc v s) = min_icl s"
  "max_icl (set_active_oc v s) = max_icl s" "active_icl (set_active_oc v s) = active_icl s"
  by (simp_all add: set_active_oc_def)

text \<open>Entering the ramp always starts at the minimum; inside it the limit stays between the bounds.\<close>

lemma ramp_switch_inv:
  assumes "ramp_switch env s = (st, icl, s')" "ramp_inv s" "st = CHG_RAMP_RAMP"
  shows "min (min_icl s') (max_icl s') \<le> icl \<and> icl \<le> max (min_icl s') (max_icl s')"
proof (cases "ramp_st s")
  case CHG_RAMP_CHARGE_DETECT_DELAY
  then show ?thesis using assms
    by (auto simp: ramp_switch_def ramp_detect_delay_def ramp_overcurrent_detect_def Let_def split: if_splits)
next
  case CHG_RAMP_OVERCURRENT_DETECT
  then show ?thesis using assms
    by (auto simp: ramp_switch_def ramp_overcurrent_detect_def Let_def split: if_splits)
next
  case CHG_RAMP_RAMP
  then show ?thesis using assms
    by (auto simp: ramp_switch_def ramp_ramp_def ramp_inv_def Let_def split: if_splits)
next
  case CHG_RAMP_STABLE
  then show ?thesis using assms
    by (auto simp: ramp_switch_def ramp_stable_case_def Let_def split: if_splits)
qed (use assms in \<open>auto simp: ramp_switch_def ramp_stabilize_def Let_def split: if_splits\<close>)

lemma ramp_iteration_inv: "ramp_inv s \<Longrightarrow> ramp_inv (chg_ramp_iteration env s)"
proof -
  assume inv: "ramp_inv s"
  obtain st icl s' where sw: "ramp_switch env s = (st, icl, s')" by (metis prod_cases3)
  show ?thesis using ramp_switch_inv [OF sw inv]
    by (auto simp: chg_ramp_iteration_def sw Let_def ramp_inv_def)
qed

lemma ramp_change_inv: "ramp_inv (chg_ramp_charge_supplier_change env port supplier cur t vtg s)"
  by (auto simp: chg_ramp_charge_supplier_change_def ramp_inv_def Let_def)

lemma ramp_reach_inv: "ramp_reach s \<Longrightarrow> ramp_inv s"
proof (induction rule: ramp_reach.induct)
  case (boot s pd_ports)
  then show ?case by (simp add: ramp_inv_def chg_ramp_task_init_def)
qed (simp_all add: ramp_iteration_inv ramp_change_inv)

text \<open>
  In every reachable state in which the module is ramping, the limit it reports lies
  between the minimum and the maximum for the active charger, whatever the board, the
  battery and the charge manager did before.
\<close>

theorem ramp_limit_between_bounds:
  assumes "ramp_reach s" "ramp_st s = CHG_RAMP_RAMP"
  shows "min (min_icl s) (max_icl s) \<le> chg_ramp_get_current_limit s
    \<and> chg_ramp_get_current_limit s \<le> max (min_icl s) (max_icl s)"
  using ramp_reach_inv [OF assms(1)] assms(2) by (simp add: ramp_inv_def chg_ramp_get_current_limit_def)

section \<open>The ramp ends\<close>

definition steady :: "ramp_env \<Rightarrow> ramp \<Rightarrow> bool" where
  "steady env s \<longleftrightarrow> full_current env \<and> \<not> vbus_low_ramping env (active_port s)"

lemma ramp_step_values:
  assumes "ramp_st s = CHG_RAMP_RAMP" "steady env s"
  shows "ramp_st (chg_ramp_iteration env s) = (if active_icl s = max_icl s then CHG_RAMP_STABLE else CHG_RAMP_RAMP)"
    "active_icl (chg_ramp_iteration env s) = (if active_icl s = max_icl s then max_icl s
       else if max_icl s < active_icl s + RAMP_CURR_INCR_MA then max_icl s else active_icl s + RAMP_CURR_INCR_MA)"
    "max_icl (chg_ramp_iteration env s) = max_icl s" "active_port (chg_ramp_iteration env s) = active_port s"
  using assms by (auto simp: chg_ramp_iteration_def ramp_switch_def ramp_ramp_def steady_def Let_def)

lemma ramp_to_max:
  "ramp_st s = CHG_RAMP_RAMP \<Longrightarrow> steady env s \<Longrightarrow> active_icl s \<le> max_icl s \<Longrightarrow>
   max_icl s - active_icl s \<le> int n * RAMP_CURR_INCR_MA \<Longrightarrow>
   \<exists>k \<le> n. ramp_st ((chg_ramp_iteration env ^^ Suc k) s) = CHG_RAMP_STABLE
     \<and> active_icl ((chg_ramp_iteration env ^^ Suc k) s) = max_icl s"
proof (induction n arbitrary: s)
  case 0
  then show ?case using ramp_step_values [of s env] by (intro exI [of _ 0]) auto
next
  case (Suc n)
  show ?case
  proof (cases "active_icl s = max_icl s")
    case True
    then show ?thesis using Suc.prems ramp_step_values [of s env] by (intro exI [of _ 0]) auto
  next
    case False
    let ?t = "chg_ramp_iteration env s"
    note v = ramp_step_values [OF Suc.prems(1, 2)]
    have "ramp_st ?t = CHG_RAMP_RAMP" "steady env ?t" "active_icl ?t \<le> max_icl ?t"
        "max_icl ?t - active_icl ?t \<le> int n * RAMP_CURR_INCR_MA"
      using v Suc.prems False by (auto simp: steady_def)
    from Suc.IH [OF this] obtain k where "k \<le> n" "ramp_st ((chg_ramp_iteration env ^^ Suc k) ?t) = CHG_RAMP_STABLE"
      "active_icl ((chg_ramp_iteration env ^^ Suc k) ?t) = max_icl ?t" by blast
    then show ?thesis using v(3) by (intro exI [of _ "Suc k"]) (simp add: funpow_swap1)
  qed
qed

text \<open>
  C38. While the board draws the full current and VBUS does not sag, a ramp from below its
  maximum becomes stable at exactly the maximum, within one iteration per 64 mA and one more.
\<close>

theorem ramp_becomes_stable:
  assumes "ramp_st s = CHG_RAMP_RAMP" "steady env s" "active_icl s \<le> max_icl s"
  shows "\<exists>k. int k \<le> (max_icl s - active_icl s + 63) div 64
    \<and> chg_ramp_is_stable ((chg_ramp_iteration env ^^ Suc k) s)
    \<and> chg_ramp_get_current_limit ((chg_ramp_iteration env ^^ Suc k) s) = max_icl s"
proof -
  let ?n = "nat ((max_icl s - active_icl s + 63) div 64)"
  have n: "int ?n = (max_icl s - active_icl s + 63) div 64" using assms(3) by simp
  have "max_icl s - active_icl s \<le> int ?n * 64" unfolding n by linarith
  from ramp_to_max [OF assms this] obtain k where k: "k \<le> ?n" "ramp_st ((chg_ramp_iteration env ^^ Suc k) s) = CHG_RAMP_STABLE"
    "active_icl ((chg_ramp_iteration env ^^ Suc k) s) = max_icl s" by blast
  have "int k \<le> (max_icl s - active_icl s + 63) div 64" using k(1) n by linarith
  then show ?thesis using k(2, 3) by (intro exI [of _ k]) (simp add: chg_ramp_is_stable_def chg_ramp_get_current_limit_def)
qed

section \<open>A stale limit\<close>

definition ex_ramp_env :: "bool \<Rightarrow> ramp_env" where
  "ex_ramp_env sag = \<lparr>allowed = (\<lambda>_. True), ramp_limit_max = (\<lambda>_ c. c), time_now = 3000000, full_current = True,
     vbus_low_ramping = (\<lambda>_. sag), vbus_low_stable = (\<lambda>_. False), logging = False\<rparr>"

definition ex_ramp :: ramp where
  "ex_ramp = \<lparr>ramp_st = CHG_RAMP_DISCONNECTED, ramp_st_prev = CHG_RAMP_DISCONNECTED,
     oc_infos = (\<lambda>_ _. \<lparr>oc_ts = 0, oc_detected = False, oc_sup = 0, oc_icl = 0\<rparr>), oc_info_idx = (\<lambda>_. 0),
     active_port = -1, active_sup = 0, active_icl = 0, active_vtg = 0, reg_time = 0, stablize_port = 0, stablize_sup = 0,
     max_icl = 0, min_icl = 0, detect_end_time_us = 0, last_active_port = -1, values_changed = False,
     task_wait_time = -1, ramp_calls = []\<rparr>"

text \<open>A 3 A charger is ramped until VBUS sags; it then lowers its offer to 550 mA while the
  module waits for the current to settle.\<close>

definition ex_ramping :: ramp where
  "ex_ramping = chg_ramp_iteration (ex_ramp_env False\<lparr>time_now := 6000000\<rparr>)
     (chg_ramp_iteration (ex_ramp_env False)
       (chg_ramp_charge_supplier_change (ex_ramp_env False) 0 4 3000 3000000 5000 (chg_ramp_task_init 1 ex_ramp)))"

definition ex_stale :: ramp where
  "ex_stale = chg_ramp_iteration (ex_ramp_env False)
     (chg_ramp_charge_supplier_change (ex_ramp_env False) 0 4 550 9000000 5000
       (chg_ramp_iteration (ex_ramp_env True) ((chg_ramp_iteration (ex_ramp_env False) ^^ 3) ex_ramping)))"

lemma ex_ramping_reach: "ramp_reach ex_ramping"
  unfolding ex_ramping_def by (intro ramp_reach.iterate ramp_reach.change ramp_reach.boot) (simp add: ex_ramp_def)

lemma ramp_reach_funpow: "ramp_reach s \<Longrightarrow> ramp_reach ((chg_ramp_iteration env ^^ n) s)"
  by (induction n) (simp_all add: ramp_reach.iterate)

lemma ex_ramping_state: "ramp_st ex_ramping = CHG_RAMP_RAMP \<and> active_icl ex_ramping = 500 \<and> max_icl ex_ramping = 3000"
  by code_simp

lemma ex_stale_reach: "ramp_reach ex_stale"
  unfolding ex_stale_def
  by (intro ramp_reach.iterate ramp_reach.change ramp_reach_funpow ex_ramping_reach)

lemma ex_stale_state: "ramp_st ex_stale = CHG_RAMP_STABLE \<and> active_icl ex_stale = 564 \<and> max_icl ex_stale = 550"
  by code_simp

text \<open>
  A notification that arrives while the module waits for the current to stabilise leaves
  a stale limit: when the same supplier on the same port lowers its current then, the module
  becomes stable with a limit above the new maximum and reports it to the board.
\<close>

theorem stabilize_keeps_stale_limit:
  "\<exists>s. ramp_reach s \<and> chg_ramp_is_stable s \<and> max_icl s < chg_ramp_get_current_limit s"
  using ex_stale_reach ex_stale_state
  by (intro exI [of _ ex_stale]) (simp add: chg_ramp_is_stable_def chg_ramp_get_current_limit_def)

theorem ramp_limit_between_bounds_witness:
  "ramp_st ex_ramping = CHG_RAMP_RAMP \<and> min (min_icl ex_ramping) (max_icl ex_ramping) \<le> chg_ramp_get_current_limit ex_ramping
    \<and> chg_ramp_get_current_limit ex_ramping \<le> max (min_icl ex_ramping) (max_icl ex_ramping)"
  using ramp_limit_between_bounds [OF ex_ramping_reach] ex_ramping_state by blast

theorem ramp_becomes_stable_witness:
  "\<exists>k. int k \<le> 40 \<and> chg_ramp_is_stable ((chg_ramp_iteration (ex_ramp_env False) ^^ Suc k) ex_ramping)
    \<and> chg_ramp_get_current_limit ((chg_ramp_iteration (ex_ramp_env False) ^^ Suc k) ex_ramping) = 3000"
proof -
  have s: "steady (ex_ramp_env False) ex_ramping" by (simp add: steady_def ex_ramp_env_def)
  from ramp_becomes_stable [OF _ s] ex_ramping_state show ?thesis by simp
qed

end
