(* ===== verification/Nvmem_Vars.thy ===== *)
theory Nvmem_Vars
  imports EC_Prelude
begin

text \<open>
  The persistent variable store of common/nvmem_vars.c: a byte region that holds a sequence of
  key/value tuples, a zero byte and 0xff filling. The RAM copy is a list of bytes of the region's
  size; bytes that lie after it in memory, which \<open>match_key_at\<close> may look at, are the parameter
  \<open>over\<close>. The flash layer below (common/nvmem.c) and the allocator are answers of an environment.
\<close>

section \<open>A store of variables\<close>

text \<open>
  What the users of the variables rely on: setting a key changes what is looked up under that key
  and nothing else; it succeeds exactly if there is room for the new value beside the other keys, and
  if there is none, the key is dropped.
\<close>

locale var_store =
  fixes inv :: "'s \<Rightarrow> bool"
    and lookup :: "'s \<Rightarrow> 'k \<Rightarrow> 'v option"
    and upd :: "'k \<Rightarrow> 'v \<Rightarrow> 's \<Rightarrow> bool \<times> 's"
    and del :: "'k \<Rightarrow> 's \<Rightarrow> 's"
    and key_ok :: "'k \<Rightarrow> bool"
    and val_ok :: "'v \<Rightarrow> bool"
    and room :: "('k \<Rightarrow> 'v option) \<Rightarrow> 'k \<Rightarrow> 'v \<Rightarrow> bool"
  assumes upd_spec: "inv s \<Longrightarrow> key_ok k \<Longrightarrow> val_ok v \<Longrightarrow> upd k v s = (ok, s') \<Longrightarrow>
      inv s' \<and> (ok \<longleftrightarrow> room (lookup s) k v) \<and> lookup s' = (lookup s)(k := (if ok then Some v else None))"
    and del_spec: "inv s \<Longrightarrow> key_ok k \<Longrightarrow> inv (del k s) \<and> lookup (del k s) = (lookup s)(k := None)"

datatype ('k, 'v) var_op = Upd 'k 'v | Del 'k

text \<open>A history of the store, with the results of the updates, and the same history of a map.\<close>

fun var_run :: "('k \<Rightarrow> 'v \<Rightarrow> 's \<Rightarrow> bool \<times> 's) \<Rightarrow> ('k \<Rightarrow> 's \<Rightarrow> 's) \<Rightarrow> ('k, 'v) var_op list \<Rightarrow> 's \<Rightarrow> bool list \<times> 's" where
  "var_run upd del [] s = ([], s)"
| "var_run upd del (Upd k v # ops) s =
     (case upd k v s of (ok, s') \<Rightarrow> case var_run upd del ops s' of (oks, t) \<Rightarrow> (ok # oks, t))"
| "var_run upd del (Del k # ops) s = var_run upd del ops (del k s)"

fun map_run :: "(('k \<Rightarrow> 'v option) \<Rightarrow> 'k \<Rightarrow> 'v \<Rightarrow> bool) \<Rightarrow> ('k, 'v) var_op list \<Rightarrow> ('k \<Rightarrow> 'v option) \<Rightarrow> bool list \<times> ('k \<Rightarrow> 'v option)" where
  "map_run room [] m = ([], m)"
| "map_run room (Upd k v # ops) m =
     (let ok = room m k v in case map_run room ops (m(k := (if ok then Some v else None))) of (oks, m') \<Rightarrow> (ok # oks, m'))"
| "map_run room (Del k # ops) m = map_run room ops (m(k := None))"

fun var_op_ok :: "('k \<Rightarrow> bool) \<Rightarrow> ('v \<Rightarrow> bool) \<Rightarrow> ('k, 'v) var_op \<Rightarrow> bool" where
  "var_op_ok key_ok val_ok (Upd k v) = (key_ok k \<and> val_ok v)"
| "var_op_ok key_ok val_ok (Del k) = key_ok k"

context var_store
begin

lemma run_refines:
  assumes "inv s" "list_all (var_op_ok key_ok val_ok) ops" "var_run upd del ops s = (oks, s')"
  shows "inv s' \<and> map_run room ops (lookup s) = (oks, lookup s')"
  using assms
proof (induction ops arbitrary: s oks)
  case (Cons op ops)
  show ?case
  proof (cases op)
    case (Upd k v)
    obtain ok s1 where u: "upd k v s = (ok, s1)" by (cases "upd k v s")
    obtain oks1 where r: "var_run upd del ops s1 = (oks1, s')" "oks = ok # oks1"
      using Cons.prems(3) Upd u by (auto split: prod.splits)
    have "inv s1 \<and> (ok \<longleftrightarrow> room (lookup s) k v) \<and> lookup s1 = (lookup s)(k := (if ok then Some v else None))"
      using upd_spec [OF Cons.prems(1) _ _ u] Cons.prems(2) Upd by simp
    then show ?thesis using Cons.IH [OF _ _ r(1)] Cons.prems(2) Upd r(2) by (cases ok) (simp_all add: Let_def fun_upd_def)
  next
    case (Del k)
    then show ?thesis using Cons.IH [of "del k s"] Cons.prems del_spec [of s k] by (simp add: fun_upd_def)
  qed
qed simp

end

section \<open>The operations\<close>

text \<open>A byte of the memory that begins with the RAM copy.\<close>

definition byte_at :: "byte list \<Rightarrow> (nat \<Rightarrow> byte) \<Rightarrow> nat \<Rightarrow> byte" where
  "byte_at buf over i = (if i < length buf then buf ! i else over (i - length buf))"

definition match_key_at :: "byte list \<Rightarrow> (nat \<Rightarrow> byte) \<Rightarrow> nat \<Rightarrow> byte list \<Rightarrow> bool" where
  "match_key_at buf over idx key =
     (let key_len = word_of_nat (length key) :: byte;
          max_len = min (length key) (length buf - idx - 1);
          diffs = word_of_nat max_len XOR key_len;
          diffs = diffs OR (byte_at buf over idx XOR key_len);
          diffs = fold (\<lambda>i d. d OR (byte_at buf over (idx + 3 + i) XOR key ! i)) [0..<max_len] diffs
      in diffs = 0)"

definition next_tuple :: "byte list \<Rightarrow> nat \<Rightarrow> bool \<times> nat" where
  "next_tuple buf idx =
     (if buf ! idx = 0 then (False, idx)
      else let idx' = idx + 3 + unat (buf ! idx) + unat (buf ! (idx + 1))
           in (buf ! idx' \<noteq> 0, idx'))"

partial_function (option) getvar_idx :: "byte list \<Rightarrow> (nat \<Rightarrow> byte) \<Rightarrow> nat \<Rightarrow> byte list \<Rightarrow> (bool \<times> nat) option" where
  "getvar_idx buf over i key =
     (if match_key_at buf over i key then Some (True, i)
      else let (more, i') = next_tuple buf i
           in if more then getvar_idx buf over i' key else Some (False, i'))"

text \<open>\<open>while (next_tuple(&i));\<close>\<close>

partial_function (option) skip_tuples :: "byte list \<Rightarrow> nat \<Rightarrow> nat option" where
  "skip_tuples buf i =
     (let (more, i') = next_tuple buf i in if more then skip_tuples buf i' else Some i')"

record nv_vars =
  rbuf :: "byte list option"
  region :: "byte list"

text \<open>What the layers below answer: the codes of the allocator, of reading, writing and committing.\<close>

record nv_env =
  acquire_rc :: int
  read_rc :: int
  write_rc :: int
  commit_rc :: int

definition release_local_copy :: "nv_vars \<Rightarrow> nv_vars" where
  "release_local_copy s = s\<lparr>rbuf := None\<rparr>"

definition get_local_copy :: "nv_env \<Rightarrow> nv_vars \<Rightarrow> int \<times> nv_vars" where
  "get_local_copy env s =
     (if rbuf s \<noteq> None then (EC_SUCCESS, s)
      else if acquire_rc env \<noteq> EC_SUCCESS then (acquire_rc env, s)
      else if read_rc env \<noteq> EC_SUCCESS then (read_rc env, release_local_copy s)
      else (EC_SUCCESS, s\<lparr>rbuf := Some (region s)\<rparr>))"

definition writevars :: "nv_env \<Rightarrow> nv_vars \<Rightarrow> int \<times> nv_vars" where
  "writevars env s =
     (case rbuf s of
        None \<Rightarrow> (EC_SUCCESS, s)
      | Some buf \<Rightarrow>
          if write_rc env \<noteq> EC_SUCCESS then (write_rc env, s)
          else if commit_rc env \<noteq> EC_SUCCESS then (commit_rc env, s\<lparr>region := buf\<rparr>)
          else (commit_rc env, release_local_copy (s\<lparr>region := buf\<rparr>)))"

text \<open>The loop of \<open>initvars\<close> over the tuples: the index of the final zero, or \<open>None\<close> for \<open>fixit\<close>.\<close>

function scan_tuples :: "byte list \<Rightarrow> nat \<Rightarrow> nat option" where
  "scan_tuples buf i =
     (if buf ! i = 0 then Some i
      else if i + 3 > length buf then None
      else if buf ! (i + 1) = 0 then None
      else let len = 3 + unat (buf ! i) + unat (buf ! (i + 1))
           in if i + len \<ge> length buf then None else scan_tuples buf (i + len))"
  by pat_completeness auto
termination
  by (relation "measure (\<lambda>(buf, i). length buf - i)") auto

declare scan_tuples.simps [simp del]

definition vars_valid :: "byte list \<Rightarrow> bool" where
  "vars_valid buf =
     (case scan_tuples buf 0 of
        None \<Rightarrow> False
      | Some i \<Rightarrow> list_all (\<lambda>b. b = 0xff) (drop (i + 1) buf))"

definition initvars :: "nv_env \<Rightarrow> nv_vars \<Rightarrow> int \<times> nv_vars" where
  "initvars env s =
     (case get_local_copy env s of
        (rv, s1) \<Rightarrow>
          if rv \<noteq> EC_SUCCESS then (rv, s1)
          else if vars_valid (the (rbuf s1)) then (EC_SUCCESS, release_local_copy s1)
          else writevars env (s1\<lparr>rbuf := Some (0 # replicate (length (the (rbuf s1)) - 1) 0xff)\<rparr>))"

text \<open>The tuple found, as its index; \<open>None\<close> outside is a lookup that does not end.\<close>

definition getvar :: "nv_env \<Rightarrow> (nat \<Rightarrow> byte) \<Rightarrow> byte list \<Rightarrow> nv_vars \<Rightarrow> (nat option \<times> nv_vars) option" where
  "getvar env over key s =
     (if key = [] then Some (None, s)
      else case get_local_copy env s of
             (rv, s1) \<Rightarrow>
               if rv \<noteq> EC_SUCCESS then Some (None, s1)
               else case getvar_idx (the (rbuf s1)) over 0 key of
                      None \<Rightarrow> None
                    | Some (False, i) \<Rightarrow> Some (None, s1)
                    | Some (True, i) \<Rightarrow> Some (Some i, s1))"

definition tuple_key :: "byte list \<Rightarrow> nat \<Rightarrow> byte list" where
  "tuple_key buf i = read_at buf (i + 3) (unat (buf ! i))"

definition tuple_val :: "byte list \<Rightarrow> nat \<Rightarrow> byte list" where
  "tuple_val buf i = read_at buf (i + 3 + unat (buf ! i)) (unat (buf ! (i + 1)))"

text \<open>The part of \<open>setvar\<close> that removes an old tuple: the buffer and where the new one goes.\<close>

definition remove_tuple :: "byte list \<Rightarrow> (nat \<Rightarrow> byte) \<Rightarrow> byte list \<Rightarrow> (byte list \<times> nat) option" where
  "remove_tuple buf over key =
     (case getvar_idx buf over 0 key of
        None \<Rightarrow> None
      | Some (False, i) \<Rightarrow> Some (buf, i)
      | Some (True, i) \<Rightarrow>
          (case next_tuple buf i of
             (False, j) \<Rightarrow> Some (buf, i)
           | (True, j) \<Rightarrow>
               let buf' = write_at buf i (read_at buf j (length buf - j))
               in map_option (Pair buf') (skip_tuples buf' i)))"

text \<open>The end of \<open>setvar\<close>: mark the end and erase the rest.\<close>

definition finish_vars :: "nat \<Rightarrow> byte list \<Rightarrow> byte list" where
  "finish_vars i buf = write_at (buf[i := 0]) (i + 1) (replicate (length buf - (i + 1)) 0xff)"

definition new_tuple :: "byte list \<Rightarrow> byte list \<Rightarrow> byte list" where
  "new_tuple key val = [word_of_nat (length key), word_of_nat (length val), 0] @ key @ val"

definition set_in_buffer :: "byte list \<Rightarrow> (nat \<Rightarrow> byte) \<Rightarrow> byte list \<Rightarrow> byte list \<Rightarrow> (int \<times> byte list) option" where
  "set_in_buffer buf over key val =
     (case remove_tuple buf over key of
        None \<Rightarrow> None
      | Some (buf, i) \<Rightarrow>
          if val = [] then Some (EC_SUCCESS, finish_vars i buf)
          else if i + 3 + length key + length val + 1 > length buf then Some (EC_ERROR_OVERFLOW, finish_vars i buf)
          else let buf = write_at buf i (new_tuple key val)
               in Some (EC_SUCCESS, finish_vars (snd (next_tuple buf i)) buf))"

definition setvar :: "nv_env \<Rightarrow> (nat \<Rightarrow> byte) \<Rightarrow> byte list \<Rightarrow> byte list \<Rightarrow> nv_vars \<Rightarrow> (int \<times> nv_vars) option" where
  "setvar env over key val s =
     (if key = [] then Some (EC_ERROR_INVAL, s)
      else case get_local_copy env s of
             (rv, s1) \<Rightarrow>
               if rv \<noteq> EC_SUCCESS then Some (rv, s1)
               else map_option (\<lambda>(rv, buf). (rv, s1\<lparr>rbuf := Some buf\<rparr>))
                      (set_in_buffer (the (rbuf s1)) over key val))"

section \<open>The region as a sequence of tuples\<close>

record var =
  vkey :: "byte list"
  vval :: "byte list"
  vflags :: byte

definition blob_ok :: "byte list \<Rightarrow> bool" where
  "blob_ok b \<longleftrightarrow> b \<noteq> [] \<and> length b < 256"

definition var_ok :: "var \<Rightarrow> bool" where
  "var_ok t \<longleftrightarrow> blob_ok (vkey t) \<and> blob_ok (vval t)"

definition enc :: "var \<Rightarrow> byte list" where
  "enc t = [word_of_nat (length (vkey t)), word_of_nat (length (vval t)), vflags t] @ vkey t @ vval t"

definition encs :: "var list \<Rightarrow> byte list" where
  "encs ts = concat (map enc ts)"

definition vars_rep :: "byte list \<Rightarrow> var list \<Rightarrow> bool" where
  "vars_rep buf ts \<longleftrightarrow> list_all var_ok ts \<and> (\<exists>n. buf = encs ts @ 0 # replicate n 0xff)"

definition vars_inv :: "byte list \<Rightarrow> bool" where
  "vars_inv buf \<longleftrightarrow> (\<exists>ts. vars_rep buf ts \<and> distinct (map vkey ts))"

lemma encs_simps [simp]: "encs [] = []" "encs (t # ts) = enc t @ encs ts" "encs (ts @ us) = encs ts @ encs us"
  by (simp_all add: encs_def)

lemma length_enc [simp]: "length (enc t) = 3 + length (vkey t) + length (vval t)"
  by (simp add: enc_def)

lemma unat_len [simp]: "blob_ok b \<Longrightarrow> unat (word_of_nat (length b) :: byte) = length b"
  by (simp add: blob_ok_def unat_of_nat)

lemma len_nonzero [simp]: "blob_ok b \<Longrightarrow> (word_of_nat (length b) :: byte) \<noteq> 0"
  by (metis blob_ok_def length_0_conv unat_0 unat_len)

lemma len_inj: "length a < 256 \<Longrightarrow> length b < 256 \<Longrightarrow>
    (word_of_nat (length a) :: byte) = word_of_nat (length b) \<longleftrightarrow> length a = length b"
  by (auto simp: unat_of_nat dest: arg_cong [where f = unat])

lemma enc_nth [simp]:
  "enc t ! 0 = word_of_nat (length (vkey t))" "enc t ! Suc 0 = word_of_nat (length (vval t))"
  by (simp_all add: enc_def)

text \<open>A buffer with the tuple \<open>t\<close> at index \<open>length pre\<close>.\<close>

lemma at_tuple:
  assumes "buf = pre @ enc t @ post" "var_ok t"
  shows "buf ! length pre = word_of_nat (length (vkey t))" "buf ! (length pre + 1) = word_of_nat (length (vval t))"
    "read_at buf (length pre + 3) (length (vkey t)) = vkey t"
    "read_at buf (length pre + 3 + length (vkey t)) (length (vval t)) = vval t"
    "tuple_key buf (length pre) = vkey t" "tuple_val buf (length pre) = vval t"
  using assms by (simp_all add: nth_append enc_def read_at_def tuple_key_def tuple_val_def var_ok_def numeral_3_eq_3)

lemma xor_eq_0: "a XOR b = 0 \<longleftrightarrow> a = (b :: byte)"
  by (auto simp: bit_eq_iff bit_simps)

lemma fold_or_0: "fold (\<lambda>i d. d OR f i) xs d = 0 \<longleftrightarrow> d = 0 \<and> (\<forall>i \<in> set xs. f i = (0 :: byte))"
  by (induction xs arbitrary: d) (auto simp: or_eq_0_iff)

lemma match_key_at_iff:
  "match_key_at buf over idx key \<longleftrightarrow>
     (word_of_nat (min (length key) (length buf - idx - 1)) :: byte) = word_of_nat (length key)
     \<and> byte_at buf over idx = word_of_nat (length key)
     \<and> (\<forall>i < min (length key) (length buf - idx - 1). byte_at buf over (idx + 3 + i) = key ! i)"
  unfolding match_key_at_def Let_def fold_or_0 or_eq_0_iff xor_eq_0 by auto

lemma match_tuple:
  assumes "buf = pre @ enc t @ post" "post \<noteq> []" "var_ok t" "blob_ok key"
  shows "match_key_at buf over (length pre) key \<longleftrightarrow> vkey t = key"
proof -
  let ?i = "length pre" and ?room = "length buf - length pre - 1"
  have k: "length key < 256" "length (vkey t) < 256" using assms(3,4) by (simp_all add: blob_ok_def var_ok_def)
  have len: "length buf = ?i + length (enc t) + length post" using assms(1) by simp
  have first: "byte_at buf over ?i = word_of_nat (length (vkey t))"
    using at_tuple(1) [OF assms(1,3)] len by (simp add: byte_at_def)
  have data: "byte_at buf over (?i + 3 + n) = vkey t ! n" if "n < length (vkey t)" for n
    using that len assms(1) by (simp add: byte_at_def nth_append enc_def numeral_3_eq_3)
  show ?thesis
  proof
    assume "match_key_at buf over ?i key"
    then have m: "(word_of_nat (length (vkey t)) :: byte) = word_of_nat (length key)"
      "\<forall>n < min (length key) ?room. byte_at buf over (?i + 3 + n) = key ! n"
      unfolding match_key_at_iff using first by auto
    then have "length (vkey t) = length key" using len_inj [OF k(2,1)] by simp
    then show "vkey t = key" using m(2) data len by (intro nth_equalityI) (auto simp: min_def)
  next
    assume "vkey t = key"
    then show "match_key_at buf over ?i key"
      unfolding match_key_at_iff using first data len by (auto simp: min_def)
  qed
qed

lemma match_end:
  assumes "idx < length buf" "buf ! idx = 0" "blob_ok key"
  shows "\<not> match_key_at buf over idx key"
  using assms len_nonzero [OF assms(3)] by (auto simp: match_key_at_iff byte_at_def)

lemma next_tuple_at:
  assumes "buf = pre @ enc t @ post" "post \<noteq> []" "var_ok t"
  shows "next_tuple buf (length pre) = (hd post \<noteq> 0, length pre + length (enc t))"
proof -
  have "buf ! (length pre + length (enc t)) = hd post"
    using assms(1,2) by (simp add: nth_append hd_conv_nth del: length_enc)
  then show ?thesis using at_tuple(1,2) [OF assms(1,3)] assms(3)
    by (simp add: next_tuple_def Let_def var_ok_def add.assoc add.left_commute)
qed

lemma next_tuple_end: "buf ! idx = 0 \<Longrightarrow> next_tuple buf idx = (False, idx)"
  by (simp add: next_tuple_def)

lemma hd_encs: "list_all var_ok ts \<Longrightarrow> hd (encs ts @ 0 # rest) \<noteq> 0 \<longleftrightarrow> ts \<noteq> []"
  by (cases ts) (auto simp: enc_def var_ok_def)

lemma getvar_idx_none:
  assumes "buf = pre @ encs ts @ 0 # rest" "list_all var_ok ts" "blob_ok key" "key \<notin> vkey ` set ts"
  shows "getvar_idx buf over (length pre) key = Some (False, length pre + length (encs ts))"
  using assms
proof (induction ts arbitrary: pre)
  case Nil
  then have "length pre < length buf" "buf ! length pre = 0" by (simp_all add: nth_append)
  then show ?case using match_end [OF _ _ Nil.prems(3)]
    by (subst getvar_idx.simps) (simp add: next_tuple_end)
next
  case (Cons t ts)
  have b: "buf = pre @ enc t @ (encs ts @ 0 # rest)" using Cons.prems(1) by simp
  have t: "var_ok t" "list_all var_ok ts" "vkey t \<noteq> key" "key \<notin> vkey ` set ts" using Cons.prems(2,4) by auto
  note st = match_tuple [OF b _ t(1) Cons.prems(3), of over] next_tuple_at [OF b _ t(1)] hd_encs [OF t(2), of rest]
  show ?case
  proof (cases "ts = []")
    case True
    then show ?thesis using st t(3) by (subst getvar_idx.simps) simp
  next
    case False
    have "getvar_idx buf over (length (pre @ enc t)) key = Some (False, length (pre @ enc t) + length (encs ts))"
      using b by (intro Cons.IH [OF _ t(2) Cons.prems(3) t(4)]) simp
    then show ?thesis using st t(3) False by (subst getvar_idx.simps) (simp add: add.assoc)
  qed
qed

lemma getvar_idx_some:
  assumes "buf = pre @ encs us @ enc t @ encs ts @ 0 # rest" "list_all var_ok (us @ t # ts)" "blob_ok key"
    and "key \<notin> vkey ` set us" "vkey t = key"
  shows "getvar_idx buf over (length pre) key = Some (True, length pre + length (encs us))"
  using assms
proof (induction us arbitrary: pre)
  case Nil
  then have "match_key_at buf over (length pre) key"
    using match_tuple [of buf pre t "encs ts @ 0 # rest" key over] by simp
  then show ?case by (subst getvar_idx.simps) simp
next
  case (Cons u us)
  have b: "buf = pre @ enc u @ (encs (us @ t # ts) @ 0 # rest)" using Cons.prems(1) by simp
  have t: "var_ok u" "list_all var_ok (us @ t # ts)" "vkey u \<noteq> key" "key \<notin> vkey ` set us" using Cons.prems(2,4) by auto
  note st = match_tuple [OF b _ t(1) Cons.prems(3), of over] next_tuple_at [OF b _ t(1)] hd_encs [OF t(2), of rest]
  have "getvar_idx buf over (length (pre @ enc u)) key = Some (True, length (pre @ enc u) + length (encs us))"
    using b by (intro Cons.IH [OF _ t(2) Cons.prems(3) t(4) Cons.prems(5)]) simp
  then show ?case using st t(3) by (subst getvar_idx.simps) (simp add: add.assoc del: encs_simps(3))
qed

lemma skip_tuples_at:
  assumes "buf = pre @ encs ts @ 0 # rest" "list_all var_ok ts"
  shows "skip_tuples buf (length pre) = Some (length pre + length (encs ts))"
  using assms
proof (induction ts arbitrary: pre)
  case Nil
  then have "buf ! length pre = 0" by (simp add: nth_append)
  then show ?case by (subst skip_tuples.simps) (simp add: next_tuple_end)
next
  case (Cons t ts)
  have b: "buf = pre @ enc t @ (encs ts @ 0 # rest)" using Cons.prems(1) by simp
  have t: "var_ok t" "list_all var_ok ts" using Cons.prems(2) by auto
  note st = next_tuple_at [OF b _ t(1)] hd_encs [OF t(2), of rest]
  have "skip_tuples buf (length (pre @ enc t)) = Some (length (pre @ enc t) + length (encs ts))"
    using b by (intro Cons.IH [OF _ t(2)]) simp
  then show ?case using st by (subst skip_tuples.simps) (cases "ts = []"; simp add: add.assoc)
qed

lemma finish_vars_eq:
  assumes "take i buf = e" "i = length e" "i < length buf"
  shows "finish_vars i buf = e @ 0 # replicate (length buf - (i + 1)) 0xff"
  using assms by (simp add: finish_vars_def write_at_def take_Suc_conv_app_nth)

lemma remove_tuple_spec:
  assumes rep: "vars_rep buf ts" and d: "distinct (map vkey ts)" and key: "blob_ok key"
  defines "ts' \<equiv> filter (\<lambda>t. vkey t \<noteq> key) ts"
  shows "\<exists>buf'. remove_tuple buf over key = Some (buf', length (encs ts'))
    \<and> length buf' = length buf \<and> take (length (encs ts')) buf' = encs ts' \<and> length (encs ts') < length buf"
proof -
  obtain n where buf: "buf = encs ts @ 0 # replicate n 0xff" and ok: "list_all var_ok ts"
    using rep by (auto simp: vars_rep_def)
  show ?thesis
  proof (cases "key \<in> vkey ` set ts")
    case False
    then have "ts' = ts" unfolding ts'_def by (auto intro!: filter_True)
    then show ?thesis using getvar_idx_none [of buf "[]" ts _ key over] buf ok key False by (simp add: remove_tuple_def)
  next
    case True
    then obtain us t vs where ts: "ts = us @ t # vs" "vkey t = key" by (auto dest: split_list)
    then have others: "key \<notin> vkey ` set us" "key \<notin> vkey ` set vs" using d by auto
    have "filter (\<lambda>t. vkey t \<noteq> key) us = us" "filter (\<lambda>t. vkey t \<noteq> key) vs = vs"
      using others by (auto intro!: filter_True)
    then have ts': "ts' = us @ vs" unfolding ts'_def using ts by simp
    define tl where "tl = 0 # replicate n (0xff :: byte)"
    have b: "buf = encs us @ enc t @ (encs vs @ tl)" using buf ts(1) by (simp add: tl_def)
    have okt: "var_ok t" "list_all var_ok us" "list_all var_ok vs" using ok ts by auto
    have g: "getvar_idx buf over 0 key = Some (True, length (encs us))"
      using getvar_idx_some [of buf "[]" us t vs _ key over] b ok ts others(1) key by (simp add: tl_def)
    have nt: "next_tuple buf (length (encs us)) = (vs \<noteq> [], length (encs us) + length (enc t))"
      using next_tuple_at [OF b _ okt(1)] hd_encs [OF okt(3)] by (simp add: tl_def)
    show ?thesis
    proof (cases "vs = []")
      case True
      then show ?thesis using g nt b ts' by (simp add: remove_tuple_def tl_def)
    next
      case False
      define buf' where "buf' = encs us @ encs vs @ tl @ drop (length (encs vs @ tl)) (enc t @ encs vs @ tl)"
      have w: "write_at buf (length (encs us)) (read_at buf (length (encs us) + length (enc t))
          (length buf - (length (encs us) + length (enc t)))) = buf'"
        by (simp add: b write_at_def read_at_def buf'_def)
      have "skip_tuples buf' (length (encs us)) = Some (length (encs us) + length (encs vs))"
        using skip_tuples_at [of buf' "encs us" vs _] okt(3) by (simp add: buf'_def tl_def)
      moreover have "length buf' = length buf" by (simp add: buf'_def b)
      ultimately show ?thesis using g nt w False ts' b by (simp add: remove_tuple_def Let_def buf'_def tl_def)
    qed
  qed
qed

lemma set_in_buffer_spec:
  assumes rep: "vars_rep buf ts" and d: "distinct (map vkey ts)" and key: "blob_ok key" and val: "length val < 256"
  defines "ts' \<equiv> filter (\<lambda>t. vkey t \<noteq> key) ts"
  shows "\<exists>rv buf'. set_in_buffer buf over key val = Some (rv, buf') \<and> length buf' = length buf
    \<and> (if val = [] then rv = EC_SUCCESS \<and> vars_rep buf' ts'
        else if length (encs ts') + 3 + length key + length val + 1 \<le> length buf
        then rv = EC_SUCCESS \<and> vars_rep buf' (ts' @ [\<lparr>vkey = key, vval = val, vflags = 0\<rparr>])
        else rv = EC_ERROR_OVERFLOW \<and> vars_rep buf' ts')"
proof -
  let ?i = "length (encs ts')"
  obtain b1 where r: "remove_tuple buf over key = Some (b1, ?i)" "length b1 = length buf"
      "take ?i b1 = encs ts'" "?i < length buf"
    using remove_tuple_spec [OF rep d key, of over] ts'_def by blast
  have ok: "list_all var_ok ts'" using rep by (auto simp: ts'_def vars_rep_def list_all_iff)
  have f: "finish_vars ?i b1 = encs ts' @ 0 # replicate (length buf - (?i + 1)) 0xff"
    using finish_vars_eq [OF r(3) refl] r(2,4) by simp
  have short: "vars_rep (finish_vars ?i b1) ts'" "length (finish_vars ?i b1) = length buf"
    unfolding f using ok r(4) by (auto simp: vars_rep_def)
  let ?t = "\<lparr>vkey = key, vval = val, vflags = 0\<rparr>"
  show ?thesis
  proof (cases "val \<noteq> [] \<and> ?i + 3 + length key + length val + 1 \<le> length buf")
    case False
    then show ?thesis using r(1,2) short by (auto simp: set_in_buffer_def)
  next
    case True
    define b2 where "b2 = write_at b1 ?i (new_tuple key val)"
    have e: "new_tuple key val = enc ?t" by (simp add: new_tuple_def enc_def)
    have t: "var_ok ?t" using key val True by (simp add: var_ok_def blob_ok_def)
    have b2: "b2 = encs ts' @ enc ?t @ drop (?i + length (enc ?t)) b1" by (simp add: b2_def e write_at_def r(3))
    have ne: "drop (?i + length (enc ?t)) b1 \<noteq> []" "length b2 = length buf" using True r(2) by (simp_all add: b2)
    have nx: "next_tuple b2 ?i = (hd (drop (?i + length (enc ?t)) b1) \<noteq> 0, ?i + length (enc ?t))"
      by (rule next_tuple_at [OF b2 ne(1) t])
    have "take (?i + length (enc ?t)) b2 = encs (ts' @ [?t])" by (simp add: b2)
    then have fin: "finish_vars (?i + length (enc ?t)) b2
        = encs (ts' @ [?t]) @ 0 # replicate (length buf - (?i + length (enc ?t) + 1)) 0xff"
      using ne(2) True by (subst finish_vars_eq) simp_all
    have "set_in_buffer buf over key val = Some (EC_SUCCESS, finish_vars (?i + length (enc ?t)) b2)"
      using True r(1,2) nx by (simp add: set_in_buffer_def Let_def b2_def [symmetric])
    moreover have "vars_rep (finish_vars (?i + length (enc ?t)) b2) (ts' @ [?t])"
      unfolding fin using ok t by (auto simp: vars_rep_def simp del: encs_simps)
    moreover have "length (finish_vars (?i + length (enc ?t)) b2) = length buf" unfolding fin using True by (simp, linarith)
    ultimately show ?thesis using True by auto
  qed
qed

section \<open>The contract of the store\<close>

definition var_lookup :: "(nat \<Rightarrow> byte) \<Rightarrow> byte list \<Rightarrow> byte list \<Rightarrow> byte list option" where
  "var_lookup over buf key =
     (if blob_ok key
      then case getvar_idx buf over 0 key of Some (True, i) \<Rightarrow> Some (tuple_val buf i) | _ \<Rightarrow> None
      else None)"

definition var_upd :: "(nat \<Rightarrow> byte) \<Rightarrow> byte list \<Rightarrow> byte list \<Rightarrow> byte list \<Rightarrow> bool \<times> byte list" where
  "var_upd over key val buf =
     (case set_in_buffer buf over key val of Some (rv, buf') \<Rightarrow> (rv = EC_SUCCESS, buf') | None \<Rightarrow> (False, buf))"

definition var_del :: "(nat \<Rightarrow> byte) \<Rightarrow> byte list \<Rightarrow> byte list \<Rightarrow> byte list" where
  "var_del over key buf = snd (var_upd over key [] buf)"

definition vals :: "var list \<Rightarrow> byte list \<Rightarrow> byte list option" where
  "vals ts key = (if blob_ok key then map_of (map (\<lambda>t. (vkey t, vval t)) ts) key else None)"

lemma var_lookup_rep:
  assumes "vars_rep buf ts"
  shows "var_lookup over buf = vals ts"
proof
  fix key
  obtain n where buf: "buf = encs ts @ 0 # replicate n 0xff" and ok: "list_all var_ok ts"
    using assms by (auto simp: vars_rep_def)
  show "var_lookup over buf key = vals ts key"
  proof (cases "blob_ok key")
    case key: True
    show ?thesis
    proof (cases "key \<in> vkey ` set ts")
      case False
      then have "map_of (map (\<lambda>t. (vkey t, vval t)) ts) key = None" by (auto simp: map_of_eq_None_iff)
      then show ?thesis using getvar_idx_none [of buf "[]" ts _ key over] buf ok key False
        by (simp add: var_lookup_def vals_def)
    next
      case True
      then have "\<exists>t \<in> set ts. vkey t = key" by auto
      from split_list_first_prop [OF this]
      obtain us t vs where first: "ts = us @ t # vs" "vkey t = key" "\<forall>y \<in> set us. vkey y \<noteq> key" by blast
      then have ts: "ts = us @ t # vs" "vkey t = key" "key \<notin> vkey ` set us" by auto
      have b: "buf = encs us @ enc t @ (encs vs @ 0 # replicate n 0xff)" using buf ts(1) by simp
      have g: "getvar_idx buf over 0 key = Some (True, length (encs us))"
        using getvar_idx_some [of buf "[]" us t vs _ key over] b ok ts key by simp
      have "var_ok t" using ok ts by simp
      moreover have "map_of (map (\<lambda>t. (vkey t, vval t)) us) key = None" using ts(3) by (auto simp: map_of_eq_None_iff)
      ultimately show ?thesis using g at_tuple(6) [OF b] ts key
        by (simp add: var_lookup_def vals_def map_add_def)
    qed
  qed (simp add: var_lookup_def vals_def)
qed

lemma map_of_filter_vars:
  "map_of (map (\<lambda>t. (vkey t, vval t)) (filter (\<lambda>t. vkey t \<noteq> key) ts)) x
     = (if x = key then None else map_of (map (\<lambda>t. (vkey t, vval t)) ts) x)"
  by (induction ts) auto

lemma vals_filter: "vals (filter (\<lambda>t. vkey t \<noteq> key) ts) = (vals ts)(key := None)"
  by (simp add: vals_def fun_eq_iff map_of_filter_vars)

lemma vals_append:
  assumes "blob_ok key" "key \<notin> vkey ` set ts"
  shows "vals (ts @ [\<lparr>vkey = key, vval = val, vflags = f\<rparr>]) = (vals ts)(key := Some val)"
proof -
  have "map_of (map (\<lambda>t. (vkey t, vval t)) ts) key = None" using assms(2) by (auto simp: map_of_eq_None_iff)
  then show ?thesis using assms(1) by (auto simp: vals_def fun_eq_iff map_add_def split: option.splits)
qed

text \<open>
  The bytes that a map takes in the region, and the room for one more value in a region of \<open>cap\<close>
  bytes: the old value of the key is given up first, and one byte marks the end.
\<close>

definition stored_size :: "(byte list \<Rightarrow> byte list option) \<Rightarrow> nat" where
  "stored_size m = (\<Sum>k \<in> dom m. 3 + length k + length (the (m k)))"

definition room_for :: "nat \<Rightarrow> (byte list \<Rightarrow> byte list option) \<Rightarrow> byte list \<Rightarrow> byte list \<Rightarrow> bool" where
  "room_for cap m key val \<longleftrightarrow> stored_size (m(key := None)) + (3 + length key + length val) + 1 \<le> cap"

lemma vals_Cons: "var_ok t \<Longrightarrow> vals (t # ts) = (vals ts)(vkey t \<mapsto> vval t)"
  by (auto simp: vals_def var_ok_def fun_eq_iff)

lemma dom_vals: "list_all var_ok ts \<Longrightarrow> dom (vals ts) = vkey ` set ts"
proof (induction ts)
  case Nil
  then show ?case by (simp add: vals_def dom_def)
next
  case (Cons t ts)
  then have "vals (t # ts) = (vals ts)(vkey t \<mapsto> vval t)" "dom (vals ts) = vkey ` set ts" by (simp_all only: vals_Cons list.pred_inject)
  then show ?case by (simp only: dom_fun_upd option.distinct if_False list.set image_insert)
qed

lemma stored_size_empty: "stored_size Map.empty = 0"
  by (simp add: stored_size_def)

lemma stored_size_upd:
  assumes "finite (dom m)" "k \<notin> dom m"
  shows "stored_size (m(k \<mapsto> v)) = 3 + length k + length v + stored_size m"
proof -
  let ?f = "\<lambda>x. 3 + length x + length (the ((m(k \<mapsto> v)) x))"
  have "dom (m(k \<mapsto> v)) = insert k (dom m)" by (simp only: dom_fun_upd option.distinct if_False)
  then have "stored_size (m(k \<mapsto> v)) = ?f k + sum ?f (dom m)"
    unfolding stored_size_def using sum.insert [OF assms, of ?f] by (simp only:)
  moreover have "sum ?f (dom m) = stored_size m" unfolding stored_size_def by (rule sum.cong) (use assms(2) in auto)
  ultimately show ?thesis by simp
qed

lemma stored_size_vals: "list_all var_ok ts \<Longrightarrow> distinct (map vkey ts) \<Longrightarrow> stored_size (vals ts) = length (encs ts)"
proof (induction ts)
  case Nil
  have "vals [] = Map.empty" by (simp add: vals_def fun_eq_iff)
  then show ?case by (simp add: stored_size_empty)
next
  case (Cons t ts)
  have v: "vals (t # ts) = (vals ts)(vkey t \<mapsto> vval t)" "dom (vals ts) = vkey ` set ts"
    using Cons.prems(1) by (simp_all add: vals_Cons dom_vals)
  have "stored_size (vals (t # ts)) = 3 + length (vkey t) + length (vval t) + stored_size (vals ts)"
    unfolding v(1) by (rule stored_size_upd) (use Cons.prems(2) v(2) in auto)
  then show ?case using Cons by simp
qed

lemma set_in_buffer_vals:
  assumes "vars_inv buf" "blob_ok key" "length val < 256"
  obtains rv buf' where "set_in_buffer buf over key val = Some (rv, buf')" "vars_inv buf'" "length buf' = length buf"
    "var_lookup over buf' = (var_lookup over buf)(key := (if rv = EC_SUCCESS \<and> val \<noteq> [] then Some val else None))"
    "val \<noteq> [] \<Longrightarrow> rv = EC_SUCCESS \<longleftrightarrow> room_for (length buf) (var_lookup over buf) key val"
proof -
  obtain ts where ts: "vars_rep buf ts" "distinct (map vkey ts)" using assms(1) by (auto simp: vars_inv_def)
  define ts' where "ts' = filter (\<lambda>t. vkey t \<noteq> key) ts"
  let ?new = "ts' @ [\<lparr>vkey = key, vval = val, vflags = 0\<rparr>]"
  obtain rv buf' where r: "set_in_buffer buf over key val = Some (rv, buf')" "length buf' = length buf"
    "if val = [] then rv = EC_SUCCESS \<and> vars_rep buf' ts'
        else if length (encs ts') + 3 + length key + length val + 1 \<le> length buf
        then rv = EC_SUCCESS \<and> vars_rep buf' ?new else rv = EC_ERROR_OVERFLOW \<and> vars_rep buf' ts'"
    using set_in_buffer_spec [OF ts assms(2,3), of over] unfolding ts'_def by blast
  have nk: "key \<notin> vkey ` set ts'" "distinct (map vkey ts')"
    using ts(2) by (auto simp: ts'_def distinct_map_filter)
  have dn: "distinct (map vkey ?new)" using nk by auto
  have v: "vals ts' = (vals ts)(key := None)" "vals ?new = (vals ts)(key := Some val)"
    using vals_append [OF assms(2) nk(1)] by (simp_all add: ts'_def vals_filter)
  consider "rv = EC_SUCCESS" "val \<noteq> []" "vars_rep buf' ?new" | "\<not> (rv = EC_SUCCESS \<and> val \<noteq> [])" "vars_rep buf' ts'"
    using r(3) by (cases "val = []"; cases "length (encs ts') + 3 + length key + length val + 1 \<le> length buf") (simp, simp, simp, simp)
  then have "vars_inv buf' \<and> var_lookup over buf'
      = (var_lookup over buf)(key := (if rv = EC_SUCCESS \<and> val \<noteq> [] then Some val else None))"
  proof cases
    case 1
    then have "vars_inv buf'" using dn unfolding vars_inv_def by blast
    then show ?thesis using 1 v(2) by (simp add: var_lookup_rep [OF 1(3)] var_lookup_rep [OF ts(1)])
  next
    case 2
    then have "vars_inv buf'" using nk(2) unfolding vars_inv_def by blast
    then show ?thesis using v(1)
      unfolding if_not_P [OF 2(1)] var_lookup_rep [OF 2(2)] var_lookup_rep [OF ts(1)] by simp
  qed
  moreover have "rv = EC_SUCCESS \<longleftrightarrow> room_for (length buf) (var_lookup over buf) key val" if "val \<noteq> []"
  proof -
    have "list_all var_ok ts'" using ts(1) by (auto simp: vars_rep_def ts'_def list_all_iff)
    from stored_size_vals [OF this nk(2)]
    have "stored_size ((var_lookup over buf)(key := None)) = length (encs ts')"
      unfolding v(1) var_lookup_rep [OF ts(1)] .
    then have "room_for (length buf) (var_lookup over buf) key val \<longleftrightarrow> length (encs ts') + 3 + length key + length val + 1 \<le> length buf"
      by (simp add: room_for_def)
    then show ?thesis using r(3) that by (cases "length (encs ts') + 3 + length key + length val + 1 \<le> length buf") (simp_all only: if_True if_False, simp_all)
  qed
  ultimately show ?thesis using that r(1,2) by blast
qed

interpretation nvars: var_store "\<lambda>buf. vars_inv buf \<and> length buf = cap" "var_lookup over" "var_upd over" "var_del over"
  blob_ok blob_ok "room_for cap" for cap over
proof
  fix s k v ok s'
  assume a: "vars_inv s \<and> length s = cap" "blob_ok k" "blob_ok v" "var_upd over k v s = (ok, s')"
  then have v: "length v < 256" "v \<noteq> []" by (auto simp: blob_ok_def)
  obtain rv buf' where r: "set_in_buffer s over k v = Some (rv, buf')" "vars_inv buf'" "length buf' = length s"
    "var_lookup over buf' = (var_lookup over s)(k := (if rv = EC_SUCCESS \<and> v \<noteq> [] then Some v else None))"
    "rv = EC_SUCCESS \<longleftrightarrow> room_for (length s) (var_lookup over s) k v"
    by (rule set_in_buffer_vals [OF conjunct1 [OF a(1)] a(2) v(1), of over]) (rule that, assumption+, erule meta_mp, rule v(2))
  have s: "s' = buf'" "ok = (rv = EC_SUCCESS)" using a(4) r(1) by (simp_all add: var_upd_def)
  have both: "(rv = EC_SUCCESS \<and> v \<noteq> []) = (rv = EC_SUCCESS)" using v(2) by simp
  have "vars_inv buf' \<and> length buf' = cap" using r(2,3) a(1) by simp
  moreover have "rv = EC_SUCCESS \<longleftrightarrow> room_for cap (var_lookup over s) k v" using r(5) a(1) by simp
  ultimately show "(vars_inv s' \<and> length s' = cap) \<and> (ok \<longleftrightarrow> room_for cap (var_lookup over s) k v)
      \<and> var_lookup over s' = (var_lookup over s)(k := (if ok then Some v else None))"
    using r(4) unfolding s both by (rule conjI [OF _ conjI])
next
  fix s k
  assume a: "vars_inv s \<and> length s = cap" "blob_ok k"
  obtain rv buf' where r: "set_in_buffer s over k [] = Some (rv, buf')" "vars_inv buf'" "length buf' = length s"
    "var_lookup over buf' = (var_lookup over s)(k := None)"
    by (rule set_in_buffer_vals [OF conjunct1 [OF a(1)] a(2), of "[]" over]) simp_all
  then show "(vars_inv (var_del over k s) \<and> length (var_del over k s) = cap)
      \<and> var_lookup over (var_del over k s) = (var_lookup over s)(k := None)"
    using a(1) by (simp add: var_del_def var_upd_def)
qed

section \<open>The interface functions\<close>

text \<open>What the RAM copy holds, or would hold once it is read.\<close>

definition contents :: "nv_vars \<Rightarrow> byte list" where
  "contents s = (case rbuf s of None \<Rightarrow> region s | Some buf \<Rightarrow> buf)"

definition env_ok :: "nv_env \<Rightarrow> bool" where
  "env_ok env \<longleftrightarrow> acquire_rc env = 0 \<and> read_rc env = 0 \<and> write_rc env = 0 \<and> commit_rc env = 0"

text \<open>The value a caller of \<open>getvar\<close> and \<open>tuple_val\<close> sees.\<close>

definition var_value :: "nv_env \<Rightarrow> (nat \<Rightarrow> byte) \<Rightarrow> byte list \<Rightarrow> nv_vars \<Rightarrow> byte list option" where
  "var_value env over key s =
     (case getvar env over key s of
        Some (Some i, s') \<Rightarrow> Some (tuple_val (the (rbuf s')) i)
      | _ \<Rightarrow> None)"

lemma get_local_copy_ok:
  assumes "env_ok env" "get_local_copy env s = (rv, s')"
  shows "rv = 0" "rbuf s' = Some (contents s)" "region s' = region s" "contents s' = contents s"
  using assms by (auto simp: get_local_copy_def env_ok_def contents_def split: if_splits option.splits)

lemma var_value_lookup:
  assumes "env_ok env" "blob_ok key"
  shows "var_value env over key s = var_lookup over (contents s) key"
proof -
  obtain rv s' where g: "get_local_copy env s = (rv, s')" by (cases "get_local_copy env s")
  have "key \<noteq> []" using assms(2) by (simp add: blob_ok_def)
  then show ?thesis using get_local_copy_ok [OF assms(1) g] assms(2) g
    by (auto simp: var_value_def getvar_def var_lookup_def split: option.splits prod.splits bool.splits)
qed

text \<open>
  The interface of the variable store: on a well-formed store \<open>setvar\<close> returns, keeps the
  store well formed and its size, and afterwards \<open>getvar\<close> finds exactly what it should: the new
  value under the key that was set, nothing under it when it was deleted or did not fit, and the
  old values under all other keys. This holds whatever bytes lie after the buffer.
\<close>

theorem setvar_getvar:
  assumes "env_ok env" "vars_inv (contents s)" "blob_ok key" "length val < 256"
  shows "\<exists>rv s'. setvar env over key val s = Some (rv, s') \<and> vars_inv (contents s')
      \<and> length (contents s') = length (contents s) \<and> region s' = region s
      \<and> (\<forall>k. blob_ok k \<longrightarrow> var_value env over k s' =
            (if k = key then (if rv = EC_SUCCESS \<and> val \<noteq> [] then Some val else None)
             else var_value env over k s))"
proof -
  obtain r s1 where g: "get_local_copy env s = (r, s1)" by (cases "get_local_copy env s")
  note l = get_local_copy_ok [OF assms(1) g]
  obtain rv buf' where b: "set_in_buffer (contents s) over key val = Some (rv, buf')" "vars_inv buf'"
      "length buf' = length (contents s)"
      "var_lookup over buf' = (var_lookup over (contents s))(key := (if rv = EC_SUCCESS \<and> val \<noteq> [] then Some val else None))"
    using set_in_buffer_vals [OF assms(2-4), of over] by blast
  define s' where "s' = s1\<lparr>rbuf := Some buf'\<rparr>"
  have "setvar env over key val s = Some (rv, s')"
    using assms(3) g l(1,2) b(1) by (simp add: setvar_def blob_ok_def s'_def)
  moreover have c: "contents s' = buf'" by (simp add: s'_def contents_def)
  ultimately show ?thesis using b(2-4) l(3)
    by (auto simp: var_value_lookup [OF assms(1)] s'_def intro!: exI [of _ rv] exI [of _ s'])
qed

text \<open>
  C18. Over whole histories the byte region behaves as a finite map of limited size: any sequence of
  updates and deletions has the effect of the same operations on the map, and each update succeeds
  exactly if the new value fits, that is, if the tuples of the other keys (three bytes, the key and the
  value each), the new tuple and the end mark take no more bytes than the region has. An update
  that does not fit leaves its key deleted.
\<close>

theorem variables_refine_map:
  assumes "vars_inv buf" "list_all (var_op_ok blob_ok blob_ok) ops" "var_run (var_upd over) (var_del over) ops buf = (oks, buf')"
  shows "vars_inv buf' \<and> length buf' = length buf \<and> map_run (room_for (length buf)) ops (var_lookup over buf) = (oks, var_lookup over buf')"
  using nvars.run_refines [of buf "length buf" ops over] assms by blast

section \<open>Initialisation\<close>

lemma scan_rep:
  assumes "list_all var_ok ts" "buf = pre @ encs ts @ 0 # rest"
  shows "scan_tuples buf (length pre) = Some (length pre + length (encs ts))"
  using assms
proof (induction ts arbitrary: pre)
  case Nil
  then show ?case by (subst scan_tuples.simps) (simp add: nth_append)
next
  case (Cons t ts)
  have b: "buf = pre @ enc t @ (encs ts @ 0 # rest)" using Cons.prems(2) by simp
  have t: "var_ok t" "list_all var_ok ts" using Cons.prems(1) by auto
  have "scan_tuples buf (length (pre @ enc t)) = Some (length (pre @ enc t) + length (encs ts))"
    using b by (intro Cons.IH [OF t(2)]) simp
  moreover have "length pre + length (enc t) < length buf" by (simp add: b)
  ultimately show ?case using at_tuple(1,2) [OF b t(1)] t(1)
    by (subst scan_tuples.simps) (simp add: Let_def var_ok_def add.assoc)
qed

lemma tuple_split:
  assumes "buf ! i \<noteq> 0" "buf ! (i + 1) \<noteq> 0" "i + (3 + unat (buf ! i) + unat (buf ! (i + 1))) < length buf"
  obtains t where "var_ok t" "enc t @ drop (i + (3 + unat (buf ! i) + unat (buf ! (i + 1)))) buf = drop i buf"
    "length (enc t) = 3 + unat (buf ! i) + unat (buf ! (i + 1))"
proof -
  define kl vl where "kl = unat (buf ! i)" and "vl = unat (buf ! (i + 1))"
  define t where "t = \<lparr>vkey = take kl (drop (i + 3) buf), vval = take vl (drop (i + 3 + kl) buf), vflags = buf ! (i + 2)\<rparr>"
  have l: "length (vkey t) = kl" "length (vval t) = vl" using assms(3) by (simp_all add: t_def kl_def vl_def)
  have pos: "0 < kl" "0 < vl" using assms(1,2) by (simp_all add: kl_def vl_def unat_gt_0)
  have "unat x < 256" for x :: byte by (rule order_less_le_trans [OF unsigned_less]) simp
  then have "kl < 256" "vl < 256" by (simp_all add: kl_def vl_def)
  then have "var_ok t" using l pos by (auto simp: var_ok_def blob_ok_def simp flip: length_greater_0_conv)
  moreover have "enc t @ drop (i + (3 + kl + vl)) buf = drop i buf"
  proof -
    have h: "drop i buf = buf ! i # buf ! (i + 1) # buf ! (i + 2) # drop (i + 3) buf"
      using assms(3) by (simp add: Cons_nth_drop_Suc [symmetric] numeral_3_eq_3 numeral_2_eq_2)
    have d: "drop (i + 3 + kl) buf = drop kl (drop (i + 3) buf)"
      "drop (i + (3 + kl + vl)) buf = drop vl (drop kl (drop (i + 3) buf))" by (simp_all add: ac_simps)
    have tl: "vkey t @ vval t @ drop (i + (3 + kl + vl)) buf = drop (i + 3) buf"
      by (simp add: t_def d del: drop_drop)
    have "vflags t = buf ! (i + 2)" "word_of_nat kl = buf ! i" "word_of_nat vl = buf ! (i + 1)"
      by (simp_all add: t_def kl_def vl_def)
    then have "enc t = buf ! i # buf ! (i + 1) # buf ! (i + 2) # vkey t @ vval t"
      unfolding enc_def l by simp
    then show ?thesis unfolding h using tl by simp
  qed
  ultimately show ?thesis using that l by (simp add: kl_def vl_def)
qed

lemma scan_sound:
  "scan_tuples buf i = Some e \<Longrightarrow> i < length buf \<Longrightarrow>
     \<exists>ts. list_all var_ok ts \<and> drop i buf = encs ts @ 0 # drop (e + 1) buf"
proof (induction buf i rule: scan_tuples.induct)
  case (1 buf i)
  let ?len = "3 + unat (buf ! i) + unat (buf ! (i + 1))"
  show ?case
  proof (cases "buf ! i = 0")
    case True
    then have "e = i" using 1(2) by (subst (asm) scan_tuples.simps) simp
    then show ?thesis using True 1(3) by (intro exI [of _ "[]"]) (simp add: Cons_nth_drop_Suc [symmetric])
  next
    case False
    then have c: "\<not> i + 3 > length buf" "buf ! (i + 1) \<noteq> 0" "\<not> i + ?len \<ge> length buf"
      and rec: "scan_tuples buf (i + ?len) = Some e"
      using 1(2) by (subst (asm) scan_tuples.simps, simp add: Let_def split: if_splits)+
    obtain ts where ts: "list_all var_ok ts" "drop (i + ?len) buf = encs ts @ 0 # drop (e + 1) buf"
      using 1(1) [OF False c(1,2) refl c(3) rec] c(3) by auto
    obtain t where t: "var_ok t" "enc t @ drop (i + ?len) buf = drop i buf"
      using tuple_split [OF False c(2)] c(3) by auto
    then show ?thesis using ts by (intro exI [of _ "t # ts"]) (simp flip: t(2))
  qed
qed

lemma vars_valid_iff:
  assumes "buf \<noteq> []"
  shows "vars_valid buf \<longleftrightarrow> (\<exists>ts. vars_rep buf ts)"
proof
  assume "vars_valid buf"
  then obtain e where e: "scan_tuples buf 0 = Some e" "list_all (\<lambda>b. b = 0xff) (drop (e + 1) buf)"
    by (auto simp: vars_valid_def split: option.splits)
  obtain ts where ts: "list_all var_ok ts" "buf = encs ts @ 0 # drop (e + 1) buf"
    using scan_sound [OF e(1)] assms by auto
  have "drop (e + 1) buf = replicate (length (drop (e + 1) buf)) 0xff"
    using e(2) by (intro replicate_length_same [symmetric]) (simp add: list_all_iff)
  then show "\<exists>ts. vars_rep buf ts" using ts unfolding vars_rep_def by metis
next
  assume "\<exists>ts. vars_rep buf ts"
  then obtain ts n where "list_all var_ok ts" "buf = [] @ encs ts @ 0 # replicate n 0xff" by (auto simp: vars_rep_def)
  then show "vars_valid buf" using scan_rep [of ts buf "[]"] by (simp add: vars_valid_def list_all_iff)
qed

text \<open>
  \<open>initvars\<close> accepts exactly the regions that hold a sequence of valid tuples, the final zero
  and the filling, and leaves them alone; every other region, whatever garbage it holds, it
  replaces by an empty store. Afterwards the store is well formed and the RAM copy is released.
\<close>

theorem initvars_repairs:
  assumes "env_ok env" "rbuf s = None" "region s \<noteq> []"
  shows "\<exists>s'. initvars env s = (EC_SUCCESS, s') \<and> rbuf s' = None \<and> length (region s') = length (region s)
      \<and> (if \<exists>ts. vars_rep (region s) ts then region s' = region s else vars_rep (region s') [])"
proof -
  obtain r s1 where g: "get_local_copy env s = (r, s1)" by (cases "get_local_copy env s")
  note l = get_local_copy_ok [OF assms(1) g]
  have c: "contents s = region s" using assms(2) by (simp add: contents_def)
  have e: "vars_rep (0 # replicate (length (region s) - 1) 0xff) []" by (auto simp: vars_rep_def)
  show ?thesis
  proof (cases "vars_valid (region s)")
    case True
    then show ?thesis using g l c vars_valid_iff [OF assms(3)]
      by (intro exI [of _ "release_local_copy s1"]) (simp add: initvars_def release_local_copy_def)
  next
    case False
    then show ?thesis using g l c vars_valid_iff [OF assms(3)] assms(1,3) e
      by (simp add: initvars_def writevars_def env_ok_def release_local_copy_def)
  qed
qed

section \<open>Witnesses\<close>

definition ex_nv_env :: nv_env where
  "ex_nv_env = \<lparr>acquire_rc = 0, read_rc = 0, write_rc = 0, commit_rc = 0\<rparr>"

definition ex_nv :: nv_vars where
  "ex_nv = \<lparr>rbuf = None, region = [1, 2, 0, 0x41, 0x61, 0x62, 0] @ replicate 25 0xff\<rparr>"

lemma ex_rep: "vars_rep (region ex_nv) [\<lparr>vkey = [0x41], vval = [0x61, 0x62], vflags = 0\<rparr>]"
  by (auto simp: ex_nv_def vars_rep_def var_ok_def blob_ok_def enc_def intro!: exI [of _ 25])

lemma ex_contents: "contents ex_nv = region ex_nv" "vars_inv (region ex_nv)"
  using ex_rep by (auto simp: contents_def ex_nv_def vars_inv_def)

theorem setvar_getvar_witness:
  "\<exists>rv s'. setvar ex_nv_env (\<lambda>_. 0) [0x42] [0x63] ex_nv = Some (rv, s') \<and> vars_inv (contents s')
      \<and> length (contents s') = length (contents ex_nv) \<and> region s' = region ex_nv
      \<and> (\<forall>k. blob_ok k \<longrightarrow> var_value ex_nv_env (\<lambda>_. 0) k s' =
            (if k = [0x42] then (if rv = EC_SUCCESS \<and> [0x63] \<noteq> ([] :: byte list) then Some [0x63] else None)
             else var_value ex_nv_env (\<lambda>_. 0) k ex_nv))"
  using ex_contents by (intro setvar_getvar) (simp_all add: ex_nv_env_def env_ok_def blob_ok_def)

text \<open>
  Of the region's 32 bytes seven are in use. A value of one byte fits, one of 25 bytes in its place does
  not: its key is dropped, and the other one is kept.
\<close>

lemma ex_map_run:
  "map_run (room_for 32) [Upd [0x42] [0x63], Upd [0x42] (replicate 25 7), Upd [0x43] [9]] [[0x41] \<mapsto> [0x61, 0x62]]
     = ([True, False, True], [[0x41] \<mapsto> [0x61, 0x62], [0x43] \<mapsto> [9]])"
proof -
  let ?m = "[[0x41 :: byte] \<mapsto> [0x61 :: byte, 0x62]]"
  have 6: "stored_size ?m = 6" using stored_size_upd [of Map.empty "[0x41]" "[0x61, 0x62]"] by (simp add: stored_size_empty)
  have e: "?m([0x42] := None) = ?m" "?m([0x43] := None) = ?m" by (auto simp: fun_eq_iff)
  have "room_for 32 ?m [0x42] [0x63]" "\<not> room_for 32 (?m([0x42] \<mapsto> [0x63])) [0x42] (replicate 25 7)" "room_for 32 ?m [0x43] [9]"
    unfolding room_for_def fun_upd_upd e 6 by simp_all
  then show ?thesis by (simp only: map_run.simps Let_def if_True if_False fun_upd_upd e prod.case)
qed

theorem variables_refine_map_witness:
  "\<exists>buf'. var_run (var_upd (\<lambda>_. 0)) (var_del (\<lambda>_. 0)) [Upd [0x42] [0x63], Upd [0x42] (replicate 25 7), Upd [0x43] [9]] (region ex_nv)
        = ([True, False, True], buf')
     \<and> var_lookup (\<lambda>_. 0) buf' = [[0x41] \<mapsto> [0x61, 0x62], [0x43] \<mapsto> [9]]"
proof -
  let ?ops = "[Upd [0x42] [0x63], Upd [0x42] (replicate 25 7), Upd [0x43] [9]] :: (byte list, byte list) var_op list"
  obtain oks buf' where r: "var_run (var_upd (\<lambda>_. 0)) (var_del (\<lambda>_. 0)) ?ops (region ex_nv) = (oks, buf')" by fastforce
  have ok: "list_all (var_op_ok blob_ok blob_ok) ?ops" by (simp add: blob_ok_def)
  have m: "var_lookup (\<lambda>_. 0) (region ex_nv) = [[0x41] \<mapsto> [0x61, 0x62]]"
    unfolding var_lookup_rep [OF ex_rep] by (auto simp: vals_def blob_ok_def fun_eq_iff)
  have l: "length (region ex_nv) = 32" by (simp add: ex_nv_def)
  have "(oks, var_lookup (\<lambda>_. 0) buf') = ([True, False, True], [[0x41] \<mapsto> [0x61, 0x62], [0x43] \<mapsto> [9]])"
    using variables_refine_map [OF ex_contents(2) ok r] unfolding l m ex_map_run by (simp only:)
  then show ?thesis using r by (metis prod.inject)
qed

theorem initvars_repairs_witness:
  "\<exists>s'. initvars ex_nv_env ex_nv = (EC_SUCCESS, s') \<and> rbuf s' = None \<and> length (region s') = length (region ex_nv)
      \<and> (if \<exists>ts. vars_rep (region ex_nv) ts then region s' = region ex_nv else vars_rep (region s') [])"
  by (rule initvars_repairs) (simp_all add: ex_nv_env_def env_ok_def ex_nv_def)

end
