(* ===== verification/Host_Command.thy ===== *)
theory Host_Command
  imports EC_Prelude
begin

text \<open>
  The host command interface of common/host_command.c: version 3 packets are received, checked
  and answered, commands are looked up in the table the linker collects and run in their task.
  The table (with the handlers of all modules) and the forwarding of commands to a PD chip are
  parameters; packets handed to the interface driver are recorded in order. Debug output and the
  suppression of its repetitions, AP hang detection and the interface-ready event of
  CONFIG_HOSTCMD_EVENTS are left out. A command version of 32 or more, for which C leaves the
  shift that tests the version mask undefined, has no bit of the mask.
\<close>

section \<open>Data\<close>

abbreviation (input) EC_RES_SUCCESS :: int where "EC_RES_SUCCESS \<equiv> 0"
abbreviation (input) EC_RES_INVALID_COMMAND :: int where "EC_RES_INVALID_COMMAND \<equiv> 1"
abbreviation (input) EC_RES_ERROR :: int where "EC_RES_ERROR \<equiv> 2"
abbreviation (input) EC_RES_INVALID_PARAM :: int where "EC_RES_INVALID_PARAM \<equiv> 3"
abbreviation (input) EC_RES_INVALID_VERSION :: int where "EC_RES_INVALID_VERSION \<equiv> 6"
abbreviation (input) EC_RES_INVALID_CHECKSUM :: u16 where "EC_RES_INVALID_CHECKSUM \<equiv> 7"
abbreviation (input) EC_RES_IN_PROGRESS :: u16 where "EC_RES_IN_PROGRESS \<equiv> 8"
abbreviation (input) EC_RES_UNAVAILABLE :: int where "EC_RES_UNAVAILABLE \<equiv> 9"
abbreviation (input) EC_RES_INVALID_HEADER :: u16 where "EC_RES_INVALID_HEADER \<equiv> 12"
abbreviation (input) EC_RES_REQUEST_TRUNCATED :: u16 where "EC_RES_REQUEST_TRUNCATED \<equiv> 13"
abbreviation (input) EC_RES_RESPONSE_TOO_BIG :: u16 where "EC_RES_RESPONSE_TOO_BIG \<equiv> 14"

abbreviation (input) EC_CMD_GET_COMMS_STATUS :: u16 where "EC_CMD_GET_COMMS_STATUS \<equiv> 0x0009"
abbreviation (input) EC_CMD_REBOOT :: u16 where "EC_CMD_REBOOT \<equiv> 0x00D1"
abbreviation (input) EC_MEMMAP_SIZE :: nat where "EC_MEMMAP_SIZE \<equiv> 255"

text \<open>Who answers a command: the packet layer below, or a driver of an older protocol.\<close>

datatype responder = PacketRespond | DriverRespond

record host_args =
  send_response :: responder
  command :: u16
  version :: byte
  params :: "byte list"
  params_size :: u16
  response :: "byte list"
  response_max :: u16
  response_size :: u16
  result :: u16

text \<open>
  A packet: \<open>pkt_request\<close> and \<open>pkt_response\<close> are the whole buffers, of \<open>pkt_request_max\<close> and
  \<open>pkt_response_max\<close> bytes; \<open>pkt_temp\<close> is the temporary request buffer, if there is one.
\<close>

record host_packet =
  pkt_request :: "byte list"
  pkt_temp :: "byte list option"
  pkt_request_max :: u16
  pkt_request_size :: u16
  pkt_response :: "byte list"
  pkt_response_max :: u16
  pkt_response_size :: u16
  driver_result :: u16

datatype args_ref = Args0 | DriverArgs

text \<open>The statics of the file; \<open>hc_sent\<close> are the packets and \<open>drv_sent\<close> the driver responses sent.\<close>

record 'w hc =
  args0 :: host_args
  drv_args :: host_args
  pkt0 :: host_packet
  pending_args :: "args_ref option"
  cmd_pending_event :: bool
  command_pending :: bool
  saved_result :: byte
  g_vboot_mode :: int
  host_memmap :: "byte list"
  hc_sent :: "byte list list"
  drv_sent :: "host_args list"
  system_resets :: nat
  hc_world :: 'w

type_synonym 'w hc_handler = "host_args \<Rightarrow> 'w hc \<Rightarrow> int \<times> host_args \<times> 'w hc"

record 'w host_command =
  hcmd_handler :: "'w hc_handler"
  hcmd_command :: int
  hcmd_version_mask :: u32

text \<open>
  The build: whether CONFIG_HOST_COMMAND_STATUS is set, the table, and \<open>pd_host_command\<close> when
  CONFIG_HOSTCMD_PD is set, from command, version, parameters and room to a result and data.
\<close>

record 'w hc_config =
  status_cfg :: bool
  hcmds :: "'w host_command list"
  pd_forward :: "(u16 \<Rightarrow> byte \<Rightarrow> byte list \<Rightarrow> u16 \<Rightarrow> int \<times> byte list) option"

definition args_of :: "args_ref \<Rightarrow> 'w hc \<Rightarrow> host_args" where
  "args_of r s = (case r of Args0 \<Rightarrow> args0 s | DriverArgs \<Rightarrow> drv_args s)"

definition put_args :: "args_ref \<Rightarrow> host_args \<Rightarrow> 'w hc \<Rightarrow> 'w hc" where
  "put_args r a s = (case r of Args0 \<Rightarrow> s\<lparr>args0 := a\<rparr> | DriverArgs \<Rightarrow> s\<lparr>drv_args := a\<rparr>)"

section \<open>Bytes\<close>

definition le16 :: "byte \<Rightarrow> byte \<Rightarrow> u16" where
  "le16 lo hi = ucast lo OR push_bit 8 (ucast hi)"

definition bytes16 :: "u16 \<Rightarrow> byte list" where
  "bytes16 w = [ucast w, ucast (drop_bit 8 w)]"

definition le32 :: "byte list \<Rightarrow> nat \<Rightarrow> u32" where
  "le32 xs i = ucast (xs ! i) OR push_bit 8 (ucast (xs ! (i + 1))) OR push_bit 16 (ucast (xs ! (i + 2)))
     OR push_bit 24 (ucast (xs ! (i + 3)))"

definition bytes32 :: "u32 \<Rightarrow> byte list" where
  "bytes32 w = [ucast w, ucast (drop_bit 8 w), ucast (drop_bit 16 w), ucast (drop_bit 24 w)]"

definition csum :: "byte list \<Rightarrow> int" where
  "csum bs = sum_list (map uint bs)"

section \<open>Answering\<close>

text \<open>
  \<open>host_packet_respond\<close>: the handler's \<open>response\<close> is the memory behind the header of the packet's
  response buffer. What that memory holds behind the bytes that are sent is not observed.
\<close>

definition clip_response :: "u16 \<Rightarrow> host_args \<Rightarrow> host_args" where
  "clip_response rmax a =
     (if result a \<noteq> 0 then a\<lparr>response_size := 0\<rparr>
      else if (ucast (response_size a) :: u32) > ucast rmax - 8
      then a\<lparr>result := EC_RES_RESPONSE_TOO_BIG, response_size := 0\<rparr>
      else a)"

definition response_header :: "byte \<Rightarrow> host_args \<Rightarrow> byte list" where
  "response_header cs a = [3, cs] @ bytes16 (result a) @ bytes16 (response_size a) @ [0, 0]"

definition host_packet_respond :: "host_args \<Rightarrow> 'w hc \<Rightarrow> host_args \<times> 'w hc" where
  "host_packet_respond a s =
     (let p = pkt0 s;
          a = clip_response (pkt_response_max p) a;
          data = read_at (response a) 0 (unat (response_size a));
          cs = csum (response_header 0 a) + csum data;
          hdr = response_header (word_of_int (- cs)) a;
          p = p\<lparr>pkt_response := hdr @ response a, pkt_response_size := 8 + response_size a,
                driver_result := result a\<rparr>
      in (a, s\<lparr>pkt0 := p, hc_sent := hc_sent s @ [read_at (pkt_response p) 0 (unat (pkt_response_size p))]\<rparr>))"

definition do_respond :: "args_ref \<Rightarrow> 'w hc \<Rightarrow> 'w hc" where
  "do_respond r s =
     (let a = args_of r s
      in case send_response a of
           PacketRespond \<Rightarrow> (case host_packet_respond a s of (a', s') \<Rightarrow> put_args r a' s')
         | DriverRespond \<Rightarrow> s\<lparr>drv_sent := drv_sent s @ [a]\<rparr>)"

definition host_send_response :: "bool \<Rightarrow> bool \<Rightarrow> args_ref \<Rightarrow> 'w hc \<Rightarrow> 'w hc" where
  "host_send_response st in_irq r s =
     (let a = args_of r s
      in if st \<and> \<not> in_irq \<and> command_pending s
         then s\<lparr>saved_result := (if response_size a \<noteq> 0 then 9 else ucast (result a)), command_pending := False\<rparr>
         else do_respond r
                (if st \<and> \<not> in_irq \<and> result a = EC_RES_IN_PROGRESS then s\<lparr>command_pending := True\<rparr> else s))"

section \<open>Looking up and running commands\<close>

text \<open>The linear search, and the binary search of CONFIG_HOSTCMD_SECTION_SORTED.\<close>

fun find_linear :: "'w host_command list \<Rightarrow> int \<Rightarrow> 'w host_command option" where
  "find_linear [] cmd = None"
| "find_linear (h # hs) cmd = (if cmd = hcmd_command h then Some h else find_linear hs cmd)"

function find_binary :: "'w host_command list \<Rightarrow> int \<Rightarrow> int \<Rightarrow> int \<Rightarrow> 'w host_command option" where
  "find_binary hs l r cmd =
     (if l > r then None
      else let m = l + (r - l) div 2; h = hs ! nat m
           in if hcmd_command h < cmd then find_binary hs (m + 1) r cmd
              else if hcmd_command h > cmd then find_binary hs l (m - 1) cmd
              else Some h)"
  by pat_completeness auto
termination
  by (relation "measure (\<lambda>(hs, l, r, cmd). nat (r - l + 1))") auto

declare find_binary.simps [simp del]

definition find_host_command :: "bool \<Rightarrow> 'w host_command list \<Rightarrow> int \<Rightarrow> 'w host_command option" where
  "find_host_command sorted_section hs cmd =
     (if sorted_section then find_binary hs 0 (int (length hs) - 1) cmd else find_linear hs cmd)"

text \<open>Running a command of the table on arguments \<open>r\<close>.\<close>

definition run_host_command :: "bool \<Rightarrow> 'w host_command list \<Rightarrow> args_ref \<Rightarrow> 'w hc \<Rightarrow> int \<times> 'w hc" where
  "run_host_command sorted_section hs r s =
     (let a = args_of r s
      in case find_host_command sorted_section hs (uint (command a)) of
           None \<Rightarrow> (EC_RES_INVALID_COMMAND, s)
         | Some h \<Rightarrow>
             if push_bit (unat (version a)) 1 AND hcmd_version_mask h = 0 then (EC_RES_INVALID_VERSION, s)
             else (case hcmd_handler h a s of (rv, a', s') \<Rightarrow> (rv, put_args r a' s')))"

text \<open>Handing a command to the PD chip.\<close>

definition forward_command :: "(u16 \<Rightarrow> byte \<Rightarrow> byte list \<Rightarrow> u16 \<Rightarrow> int \<times> byte list) \<Rightarrow> args_ref \<Rightarrow> 'w hc \<Rightarrow> int \<times> 'w hc" where
  "forward_command pd_host_command r s =
     (let a = args_of r s
      in case pd_host_command (command a - 0x4000) (version a) (read_at (params a) 0 (unat (params_size a))) (response_max a) of
           (rv, data) \<Rightarrow>
             if rv \<ge> 0
             then (0, put_args r (a\<lparr>response := write_at (response a) 0 data, response_size := word_of_int rv\<rparr>) s)
             else (- rv, s))"

text \<open>The result, truncated to the 16 bits that \<open>host_command_process\<close> returns.\<close>

definition host_command_process :: "bool \<Rightarrow> 'w hc_config \<Rightarrow> args_ref \<Rightarrow> 'w hc \<Rightarrow> u16 \<times> 'w hc" where
  "host_command_process sorted_section cfg r s =
     (let a = args_of r s;
          (rv, s') = (case pd_forward cfg of
             Some pd_host_command \<Rightarrow>
               if 0x4000 \<le> command a \<and> command a \<le> 0x7fff then forward_command pd_host_command r s
               else run_host_command sorted_section (hcmds cfg) r s
           | None \<Rightarrow> run_host_command sorted_section (hcmds cfg) r s)
      in (word_of_int rv, s'))"

definition set_result :: "args_ref \<Rightarrow> u16 \<Rightarrow> 'w hc \<Rightarrow> 'w hc" where
  "set_result r v s = put_args r ((args_of r s)\<lparr>result := v\<rparr>) s"

section \<open>Receiving\<close>

definition host_command_received :: "bool \<Rightarrow> 'w hc_config \<Rightarrow> bool \<Rightarrow> args_ref \<Rightarrow> 'w hc \<Rightarrow> 'w hc" where
  "host_command_received sorted_section cfg in_irq r s =
     (let s = (if command (args_of r s) = EC_CMD_REBOOT
               then set_result r 2 (s\<lparr>system_resets := system_resets s + 1\<rparr>) else s)
      in if result (args_of r s) \<noteq> 0 then host_send_response (status_cfg cfg) in_irq r s
         else if status_cfg cfg \<and> command (args_of r s) = EC_CMD_GET_COMMS_STATUS
         then (case host_command_process sorted_section cfg r s of
                 (rv, s) \<Rightarrow> host_send_response (status_cfg cfg) in_irq r (set_result r rv s))
         else s\<lparr>pending_args := Some r, cmd_pending_event := True\<rparr>)"

definition host_request_expected_size :: "byte list \<Rightarrow> int" where
  "host_request_expected_size req =
     (if req ! 0 \<noteq> 3 then 0 else if req ! 5 \<noteq> 0 then 0 else 8 + uint (le16 (req ! 6) (req ! 7)))"

text \<open>The error that the checks of \<open>host_packet_receive\<close> find, in their order; 0 when there is none.\<close>

definition packet_error :: "host_packet \<Rightarrow> u16" where
  "packet_error p =
     (let req = pkt_request p; data_len = le16 (req ! 6) (req ! 7)
      in if driver_result p \<noteq> 0 then driver_result p
         else if pkt_request_size p < 8 then EC_RES_REQUEST_TRUNCATED
         else if pkt_request_size p > pkt_request_max p then EC_RES_REQUEST_TRUNCATED
         else if req ! 0 \<noteq> 3 then EC_RES_INVALID_HEADER
         else if unat (pkt_request_size p) < 8 + unat data_len then EC_RES_REQUEST_TRUNCATED
         else if word_of_int (csum (take 8 req) + csum (read_at req 8 (unat data_len))) \<noteq> (0 :: byte)
         then EC_RES_INVALID_CHECKSUM
         else 0)"

text \<open>The memory the handler finds behind \<open>args->params\<close>.\<close>

definition packet_params :: "host_packet \<Rightarrow> byte list" where
  "packet_params p =
     (let req = pkt_request p; n = unat (le16 (req ! 6) (req ! 7))
      in case pkt_temp p of
           None \<Rightarrow> drop 8 req
         | Some tmp \<Rightarrow> drop 8 (write_at tmp 0 (read_at req 0 (8 + n))))"

text \<open>\<open>None\<close>: the assertion that the response buffer has room for a header fails.\<close>

definition host_packet_receive :: "bool \<Rightarrow> 'w hc_config \<Rightarrow> bool \<Rightarrow> host_packet \<Rightarrow> 'w hc \<Rightarrow> 'w hc option" where
  "host_packet_receive sorted_section cfg in_irq p s =
     (let s = s\<lparr>pkt0 := p\<rparr>; req = pkt_request p; err = packet_error p
      in if driver_result p = 0 \<and> 8 \<le> pkt_request_size p \<and> pkt_request_size p \<le> pkt_request_max p
            \<and> pkt_response_max p < 8
         then None
         else if err \<noteq> 0
         then (case host_packet_respond ((args0 s)\<lparr>result := err\<rparr>) s of (a, s) \<Rightarrow> Some (s\<lparr>args0 := a\<rparr>))
         else Some (host_command_received sorted_section cfg in_irq Args0
                (s\<lparr>args0 := \<lparr>send_response = PacketRespond, command = le16 (req ! 2) (req ! 3), version = req ! 4,
                   params = packet_params p, params_size = le16 (req ! 6) (req ! 7), response = drop 8 (pkt_response p),
                   response_max = pkt_response_max p - 8, response_size = 0, result = 0\<rparr>\<rparr>)))"

section \<open>The task\<close>

definition host_command_init :: "'w hc \<Rightarrow> 'w hc" where
  "host_command_init s =
     s\<lparr>host_memmap := (host_memmap s)[0x20 := 0x45, 0x21 := 0x43, 0x22 := 1, 0x26 := 1]\<rparr>"

definition process_pending :: "bool \<Rightarrow> 'w hc_config \<Rightarrow> 'w hc \<Rightarrow> 'w hc" where
  "process_pending sorted_section cfg s =
     (case pending_args s of
        None \<Rightarrow> s
      | Some r \<Rightarrow>
          (case host_command_process sorted_section cfg r s of
             (rv, s) \<Rightarrow> host_send_response (status_cfg cfg) False r (set_result r rv s)))"

text \<open>
  One round of the task: \<open>evt\<close> says whether the event was there, \<open>t0\<close> and \<open>now1\<close> are the two
  readings of the clock. The locals \<open>t1\<close> and \<open>t_recess\<close> are carried along; the result says how
  long the task rests.
\<close>

definition host_command_round :: "bool \<Rightarrow> 'w hc_config \<Rightarrow> bool \<Rightarrow> u64 \<Rightarrow> u64 \<Rightarrow> u64 \<times> u64 \<times> 'w hc \<Rightarrow> nat \<times> u64 \<times> u64 \<times> 'w hc" where
  "host_command_round sorted_section cfg evt t0 now1 = (\<lambda>(t1, t_recess, s).
     let s = (if evt then process_pending sorted_section cfg (s\<lparr>cmd_pending_event := False\<rparr>) else s);
         t_recess = (if t0 - t1 > 3000 then t0 else t_recess)
     in (if now1 - t_recess > 500000 then 20000 else 0, now1, t_recess, s))"

section \<open>The commands of this file\<close>

definition host_command_proto_version :: "'w hc_handler" where
  "host_command_proto_version a s = (EC_RES_SUCCESS, a\<lparr>response := write_at (response a) 0 (bytes32 2), response_size := 4\<rparr>, s)"

definition host_command_hello :: "'w hc_handler" where
  "host_command_hello a s =
     (EC_RES_SUCCESS, a\<lparr>response := write_at (response a) 0 (bytes32 (le32 (params a) 0 + 0x01020304)), response_size := 4\<rparr>, s)"

definition host_command_read_test :: "'w hc_handler" where
  "host_command_read_test a s =
     (let offset = le32 (params a) 0; psize = le32 (params a) 4; n = unat psize div 4
      in if n > 32 \<or> psize > ucast (response_size a) then (EC_RES_ERROR, a, s)
         else (EC_RES_SUCCESS,
               a\<lparr>response := write_at (response a) 0 (concat (map (\<lambda>i. bytes32 (offset + word_of_nat i)) [0..<n])),
                 response_size := word_of_nat (n * 4)\<rparr>, s))"

definition host_command_read_memmap :: "'w hc_handler" where
  "host_command_read_memmap a s =
     (let offset = unat (params a ! 0); n = unat (params a ! 1)
      in if n > EC_MEMMAP_SIZE \<or> offset > EC_MEMMAP_SIZE \<or> offset + n > EC_MEMMAP_SIZE \<or> n > unat (response_max a)
         then (EC_RES_INVALID_PARAM, a, s)
         else if offset = 0x30 \<and> host_memmap s ! 0x25 = 0 then (EC_RES_UNAVAILABLE, a, s)
         else (EC_RES_SUCCESS,
               a\<lparr>response := write_at (response a) 0 (read_at (host_memmap s) offset n), response_size := word_of_nat n\<rparr>, s))"

definition host_command_get_cmd_versions :: "bool \<Rightarrow> 'w host_command list \<Rightarrow> 'w hc_handler" where
  "host_command_get_cmd_versions sorted_section hs a s =
     (let cmd = (if version a = 1 then uint (le16 (params a ! 0) (params a ! 1)) else uint (params a ! 0))
      in case find_host_command sorted_section hs cmd of
           None \<Rightarrow> (EC_RES_INVALID_PARAM, a, s)
         | Some h \<Rightarrow> (EC_RES_SUCCESS,
                      a\<lparr>response := write_at (response a) 0 (bytes32 (hcmd_version_mask h)), response_size := 4\<rparr>, s))"

definition host_command_get_comms_status :: "'w hc_handler" where
  "host_command_get_comms_status a s =
     (0, a\<lparr>response := write_at (response a) 0 (bytes32 (if command_pending s then 1 else 0)), response_size := 4\<rparr>, s)"

definition host_command_resend_response :: "'w hc_handler" where
  "host_command_resend_response a s = (0, a\<lparr>result := ucast (saved_result s), response_size := 0\<rparr>, s\<lparr>saved_result := 9\<rparr>)"

definition host_command_entering_mode :: "'w hc_handler" where
  "host_command_entering_mode a s = (0, a\<lparr>response_size := 0\<rparr>, s\<lparr>g_vboot_mode := sint (le32 (params a) 0)\<rparr>)"

definition host_command_test_protocol :: "'w hc_handler" where
  "host_command_test_protocol a s =
     (let copy_len = min (unat (le32 (params a) 4)) 32;
          buf = write_at (replicate 32 0) 0 (read_at (params a) 8 copy_len)
      in (sint (le32 (params a) 0), a\<lparr>response := write_at (response a) 0 buf, response_size := word_of_nat copy_len\<rparr>, s))"

definition host_command_get_features :: "u32 \<Rightarrow> u32 \<Rightarrow> 'w hc_handler" where
  "host_command_get_features flags0 flags1 a s =
     (EC_RES_SUCCESS, a\<lparr>response := write_at (response a) 0 (bytes32 flags0 @ bytes32 flags1), response_size := 8\<rparr>, s)"

section \<open>Searching the table\<close>

lemma find_linear_at:
  "sorted_wrt (<) (map hcmd_command hs) \<Longrightarrow> i < length hs \<Longrightarrow> find_linear hs (hcmd_command (hs ! i)) = Some (hs ! i)"
proof (induction hs arbitrary: i)
  case (Cons h hs)
  show ?case
  proof (cases i)
    case (Suc j)
    then have "hs ! j \<in> set hs" using Cons.prems(2) by simp
    then have "hcmd_command (hs ! j) \<noteq> hcmd_command h" using Cons.prems(1) by fastforce
    then show ?thesis using Cons Suc by simp
  qed simp
qed simp

lemma find_linear_None: "(\<And>i. i < length hs \<Longrightarrow> hcmd_command (hs ! i) \<noteq> cmd) \<Longrightarrow> find_linear hs cmd = None"
proof (induction hs)
  case (Cons h hs)
  from Cons.prems [of 0] have "cmd \<noteq> hcmd_command h" by auto
  moreover have "find_linear hs cmd = None"
    using Cons.prems [of "Suc _"] by (intro Cons.IH) auto
  ultimately show ?case by simp
qed simp

text \<open>Outside \<open>l\<close> to \<open>r\<close> the command cannot be.\<close>

lemma find_binary_linear:
  assumes "sorted_wrt (<) (map hcmd_command hs)" "0 \<le> l" "r < int (length hs)"
    and "\<And>i. int i < l \<Longrightarrow> i < length hs \<Longrightarrow> hcmd_command (hs ! i) < cmd"
    and "\<And>i. r < int i \<Longrightarrow> i < length hs \<Longrightarrow> cmd < hcmd_command (hs ! i)"
  shows "find_binary hs l r cmd = find_linear hs cmd"
  using assms
proof (induction hs l r cmd rule: find_binary.induct)
  case (1 hs l r cmd)
  note sorted = 1(3) and below = 1(6) and above = 1(7)
  show ?case
  proof (cases "l > r")
    case True
    have "hcmd_command (hs ! i) \<noteq> cmd" if "i < length hs" for i
      using that True below [of i] above [of i] by (cases "int i < l") fastforce+
    then show ?thesis using True find_linear_None [of hs cmd] by (simp add: find_binary.simps)
  next
    case False
    define m where "m = l + (r - l) div 2"
    have m: "0 \<le> m" "l \<le> m" "m \<le> r" "nat m < length hs" using False 1(4,5) by (auto simp: m_def)
    have ord: "hcmd_command (hs ! i) < hcmd_command (hs ! j)" if "i < j" "j < length hs" for i j
      using sorted that by (simp add: sorted_wrt_iff_nth_less)
    have low: "hcmd_command (hs ! i) \<le> hcmd_command (hs ! nat m)" if "int i < m + 1" for i
    proof (cases "i = nat m")
      case False
      then have "i < nat m" using that m by linarith
      then show ?thesis using ord [of i "nat m"] m by simp
    qed simp
    have high: "hcmd_command (hs ! nat m) \<le> hcmd_command (hs ! i)" if "m - 1 < int i" "i < length hs" for i
    proof (cases "i = nat m")
      case False
      then have "nat m < i" using that m by linarith
      then show ?thesis using ord [of "nat m" i] that by simp
    qed simp
    consider (lt) "hcmd_command (hs ! nat m) < cmd" | (gt) "hcmd_command (hs ! nat m) > cmd"
      | (eq) "hcmd_command (hs ! nat m) = cmd" by linarith
    then show ?thesis
    proof cases
      case lt
      have "find_binary hs (m + 1) r cmd = find_linear hs cmd"
        using False lt m 1(5) sorted above low by (intro 1(1) [OF _ m_def refl]) fastforce+
      then show ?thesis using False lt by (subst find_binary.simps) (simp add: Let_def m_def)
    next
      case gt
      have "find_binary hs l (m - 1) cmd = find_linear hs cmd"
        using False gt m 1(4,5) sorted below high by (intro 1(2) [OF _ m_def refl]) fastforce+
      then show ?thesis using False gt by (subst find_binary.simps) (simp add: Let_def m_def)
    next
      case eq
      then show ?thesis using False find_linear_at [OF sorted m(4)]
        by (subst find_binary.simps) (simp add: Let_def m_def)
    qed
  qed
qed

text \<open>
  On a table sorted by command number, as the linker lays it out, the binary search returns
  what the linear search returns: the same entry for every command in the table, and none for any
  other number, also for an empty table.
\<close>

theorem find_host_command_binary:
  assumes "sorted_wrt (<) (map hcmd_command hs)"
  shows "find_host_command True hs cmd = find_host_command False hs cmd"
  using find_binary_linear [of hs 0 "int (length hs) - 1" cmd] assms by (simp add: find_host_command_def)

definition ex_hcmd :: "int \<Rightarrow> unit host_command" where
  "ex_hcmd c = \<lparr>hcmd_handler = host_command_hello, hcmd_command = c, hcmd_version_mask = 1\<rparr>"

theorem find_host_command_binary_witness:
  "find_host_command True (map ex_hcmd [1, 4, 9]) 4 = find_host_command False (map ex_hcmd [1, 4, 9]) 4"
  by (rule find_host_command_binary) (simp add: ex_hcmd_def)

section \<open>Responses\<close>

lemma le16_bytes16: "le16 (ucast w) (ucast (drop_bit 8 w)) = w"
  by (rule bit_word_eqI) (auto simp: le16_def bit_simps dest: bit_imp_le_length)

lemma length_response_header [simp]: "length (response_header cs a) = 8"
  by (simp add: response_header_def bytes16_def)

lemma csum_append [simp]: "csum (xs @ ys) = csum xs + csum ys"
  by (simp add: csum_def)

lemma csum_header: "csum (response_header cs a) = csum (response_header 0 a) + uint cs"
  by (simp add: csum_def response_header_def)

lemma csum_closed: "(word_of_int (c + uint (word_of_int (- c) :: byte)) :: byte) = 0"
  by simp

lemma unat16_less: "unat (w :: u16) < 2 ^ 16"
  by (rule order_less_le_trans [OF unsigned_less]) simp

lemma unat_ucast16 [simp]: "unat (ucast (w :: u16) :: u32) = unat w"
  using unat16_less [of w] by (simp add: unsigned_ucast_eq take_bit_nat_eq_self)

lemma clip_response_fits:
  assumes "8 \<le> unat rmax"
  shows "unat (response_size (clip_response rmax a)) \<le> unat rmax - 8"
    "result (clip_response rmax a) \<noteq> 0 \<Longrightarrow> response_size (clip_response rmax a) = 0"
    "result (clip_response rmax a)
      = (if result a \<noteq> 0 then result a else if unat (response_size a) \<le> unat rmax - 8 then 0 else 14)"
    "response (clip_response rmax a) = response a"
proof -
  have "unat (ucast rmax - 8 :: u32) = unat rmax - 8"
    using assms by (subst unat_sub_le) (simp_all add: word_le_nat_alt)
  then have "(ucast (response_size a) :: u32) > ucast rmax - 8 \<longleftrightarrow> \<not> unat (response_size a) \<le> unat rmax - 8"
    by (simp add: word_less_nat_alt not_le)
  then show "unat (response_size (clip_response rmax a)) \<le> unat rmax - 8"
    "result (clip_response rmax a) \<noteq> 0 \<Longrightarrow> response_size (clip_response rmax a) = 0"
    "result (clip_response rmax a)
      = (if result a \<noteq> 0 then result a else if unat (response_size a) \<le> unat rmax - 8 then 0 else 14)"
    "response (clip_response rmax a) = response a"
    by (auto simp: clip_response_def)
qed

text \<open>
  Every response packet is well formed, whatever the handler returned: its bytes sum to zero,
  it is no longer than the interface allows, the header carries version, result and length, the
  data are the handler's; an error carries no data, and data that do not fit become the error
  EC_RES_RESPONSE_TOO_BIG.
\<close>

theorem host_packet_respond_wellformed:
  assumes "8 \<le> unat (pkt_response_max (pkt0 s))"
    and "length (response a) = unat (pkt_response_max (pkt0 s)) - 8"
  shows "\<exists>pkt res n. hc_sent (snd (host_packet_respond a s)) = hc_sent s @ [pkt]
      \<and> (word_of_int (csum pkt) :: byte) = 0 \<and> length pkt = 8 + n \<and> length pkt \<le> unat (pkt_response_max (pkt0 s))
      \<and> pkt ! 0 = 3 \<and> le16 (pkt ! 2) (pkt ! 3) = res \<and> unat (le16 (pkt ! 4) (pkt ! 5)) = n
      \<and> drop 8 pkt = take n (response a) \<and> (res \<noteq> 0 \<longrightarrow> n = 0)
      \<and> res = (if result a \<noteq> 0 then result a
               else if unat (response_size a) \<le> unat (pkt_response_max (pkt0 s)) - 8 then 0 else EC_RES_RESPONSE_TOO_BIG)"
proof -
  define rmax where "rmax = pkt_response_max (pkt0 s)"
  define a' where "a' = clip_response rmax a"
  define n where "n = unat (response_size a')"
  note clip = clip_response_fits [of rmax a, folded a'_def, OF assms(1) [folded rmax_def]]
  define data where "data = read_at (response a') 0 n"
  define cs where "cs = (word_of_int (- (csum (response_header 0 a') + csum data)) :: byte)"
  define pkt where "pkt = response_header cs a' @ data"
  have n: "n \<le> unat rmax - 8" "n \<le> length (response a)" using clip(1) assms(2) by (simp_all add: n_def rmax_def)
  have size: "unat (8 + response_size a') = 8 + n"
  proof -
    show ?thesis using unat16_less [of rmax] n(1) assms(1) by (simp add: unat_word_ariths n_def rmax_def)
  qed
  have sent: "hc_sent (snd (host_packet_respond a s)) = hc_sent s @ [pkt]"
    using n(2) by (simp add: host_packet_respond_def Let_def pkt_def data_def cs_def a'_def [symmetric] rmax_def [symmetric]
        n_def [symmetric] size read_at_def clip(4))
  have len: "length pkt = 8 + n" using n(2) by (simp add: pkt_def data_def clip(4))
  have "csum pkt = (csum (response_header 0 a') + csum data) + uint cs"
    using csum_header [of cs a'] by (simp add: pkt_def)
  then have sum0: "(word_of_int (csum pkt) :: byte) = 0" unfolding cs_def by (simp only: csum_closed)
  have fields: "pkt ! 0 = 3" "le16 (pkt ! 2) (pkt ! 3) = result a'" "le16 (pkt ! 4) (pkt ! 5) = response_size a'"
    by (simp_all add: pkt_def response_header_def bytes16_def le16_bytes16)
  have "drop 8 pkt = take n (response a)" by (simp add: pkt_def data_def read_at_def clip(4))
  then show ?thesis using sent sum0 len fields n assms(1) clip(2,3)
    by (intro exI [of _ pkt] exI [of _ "result a'"] exI [of _ n]) (simp add: n_def [symmetric] rmax_def [symmetric], force simp: n_def)
qed

section \<open>Requests\<close>

text \<open>The packet a host sends for a command.\<close>

definition request_header :: "byte \<Rightarrow> u16 \<Rightarrow> byte \<Rightarrow> nat \<Rightarrow> byte list" where
  "request_header cs cmd ver n = [3, cs] @ bytes16 cmd @ [ver, 0] @ bytes16 (word_of_nat n)"

definition encode_request :: "u16 \<Rightarrow> byte \<Rightarrow> byte list \<Rightarrow> byte list" where
  "encode_request cmd ver data =
     request_header (word_of_int (- (csum (request_header 0 cmd ver (length data)) + csum data))) cmd ver (length data) @ data"

lemma length_encode_request [simp]: "length (encode_request cmd ver data) = 8 + length data"
  by (simp add: encode_request_def request_header_def bytes16_def)

lemma csum_request_header: "csum (request_header cs cmd ver n) = csum (request_header 0 cmd ver n) + uint cs"
  by (simp add: csum_def request_header_def)

lemma encode_request_csum: "(word_of_int (csum (encode_request cmd ver data)) :: byte) = 0"
proof -
  define c where "c = csum (request_header 0 cmd ver (length data)) + csum data"
  have "csum (encode_request cmd ver data) = c + uint (word_of_int (- c) :: byte)"
    unfolding encode_request_def csum_append c_def [symmetric]
    by (subst csum_request_header) (simp add: c_def)
  then show ?thesis by (simp only: csum_closed)
qed

lemma encode_request_fields:
  assumes "length data < 2 ^ 16"
  shows "(encode_request cmd ver data @ pad) ! 0 = 3" "(encode_request cmd ver data @ pad) ! 4 = ver"
    "le16 ((encode_request cmd ver data @ pad) ! 2) ((encode_request cmd ver data @ pad) ! 3) = cmd"
    "unat (le16 ((encode_request cmd ver data @ pad) ! 6) ((encode_request cmd ver data @ pad) ! 7)) = length data"
  using assms by (simp_all add: encode_request_def request_header_def bytes16_def le16_bytes16 unat_of_nat)

text \<open>
  C19. Round trip of the request format: a packet built for a command, with any padding after it
  and with or without a temporary buffer, is accepted, and the command task is woken with exactly
  that command, version and data; nothing is sent yet.
\<close>

theorem host_request_roundtrip:
  assumes "length data < 2 ^ 16" "pkt_request p = encode_request cmd ver data @ pad" "driver_result p = 0"
    and "8 + length data \<le> unat (pkt_request_size p)" "pkt_request_size p \<le> pkt_request_max p"
    and "8 \<le> unat (pkt_response_max p)"
    and "\<forall>tmp. pkt_temp p = Some tmp \<longrightarrow> 8 + length data \<le> length tmp"
    and "cmd \<noteq> EC_CMD_REBOOT" "\<not> (status_cfg cfg \<and> cmd = EC_CMD_GET_COMMS_STATUS)"
  shows "\<exists>s'. host_packet_receive sorted_section cfg in_irq p s = Some s'
      \<and> pending_args s' = Some Args0 \<and> cmd_pending_event s' \<and> hc_sent s' = hc_sent s
      \<and> command (args0 s') = cmd \<and> version (args0 s') = ver \<and> unat (params_size (args0 s')) = length data
      \<and> take (length data) (params (args0 s')) = data"
proof -
  let ?req = "encode_request cmd ver data @ pad"
  let ?s = "s\<lparr>pkt0 := p, args0 := \<lparr>send_response = PacketRespond, command = cmd, version = ver,
      params = packet_params p, params_size = le16 (?req ! 6) (?req ! 7), response = drop 8 (pkt_response p),
      response_max = pkt_response_max p - 8, response_size = 0, result = 0\<rparr>\<rparr>"
  note f = encode_request_fields [OF assms(1), of cmd ver pad]
  have "csum (take 8 ?req) + csum (read_at ?req 8 (length data)) = csum (encode_request cmd ver data)"
    by (simp add: read_at_def flip: csum_append take_add)
  then have "(word_of_int (csum (take 8 ?req) + csum (read_at ?req 8 (length data))) :: byte) = 0"
    using encode_request_csum by simp
  then have noerr: "packet_error p = 0"
    using assms(2-5) f by (simp add: packet_error_def Let_def word_less_nat_alt word_le_nat_alt not_less)
  have data: "drop 8 (encode_request cmd ver data) = data"
    by (simp add: encode_request_def request_header_def bytes16_def)
  have par: "take (length data) (packet_params p) = data"
  proof (cases "pkt_temp p")
    case None
    then show ?thesis using assms(2) data by (simp add: packet_params_def Let_def)
  next
    case (Some tmp)
    then show ?thesis using assms(2,7) data f by (simp add: packet_params_def Let_def write_at_def read_at_def)
  qed
  have "\<not> pkt_response_max p < 8" using assms(6) by (simp add: word_less_nat_alt)
  then have "host_packet_receive sorted_section cfg in_irq p s = Some (host_command_received sorted_section cfg in_irq Args0 ?s)"
    using noerr f(2,3) by (simp only: host_packet_receive_def Let_def assms(2)) simp
  moreover have "host_command_received sorted_section cfg in_irq Args0 ?s = ?s\<lparr>pending_args := Some Args0, cmd_pending_event := True\<rparr>"
    using assms(8,9) by (auto simp: host_command_received_def args_of_def Let_def)
  ultimately show ?thesis using par f(4) by (intro exI [of _ "?s\<lparr>pending_args := Some Args0, cmd_pending_event := True\<rparr>"]) simp
qed

definition ex_packet :: host_packet where
  "ex_packet = \<lparr>pkt_request = encode_request 1 0 [1, 2, 3, 4] @ [], pkt_temp = None, pkt_request_max = 12, pkt_request_size = 12,
     pkt_response = replicate 16 0, pkt_response_max = 16, pkt_response_size = 0, driver_result = 0\<rparr>"

definition ex_args :: "u16 \<Rightarrow> host_args" where
  "ex_args cmd = \<lparr>send_response = PacketRespond, command = cmd, version = 0, params = [1, 2, 3, 4], params_size = 4,
     response = [5, 6, 7, 8, 0, 0, 0, 0], response_max = 8, response_size = 4, result = 0\<rparr>"

definition ex_hc :: "u16 \<Rightarrow> unit hc" where
  "ex_hc cmd = \<lparr>args0 = ex_args cmd, drv_args = ex_args cmd, pkt0 = ex_packet, pending_args = Some Args0, cmd_pending_event = True,
     command_pending = False, saved_result = 5, g_vboot_mode = 0, host_memmap = replicate 256 0, hc_sent = [], drv_sent = [],
     system_resets = 0, hc_world = ()\<rparr>"

definition ex_cfg :: "unit hc_config" where
  "ex_cfg = \<lparr>status_cfg = True,
     hcmds = [ex_hcmd 1, \<lparr>hcmd_handler = host_command_resend_response, hcmd_command = 0xDB, hcmd_version_mask = 1\<rparr>],
     pd_forward = None\<rparr>"

theorem host_packet_respond_wellformed_witness:
  "\<exists>pkt res n. hc_sent (snd (host_packet_respond (ex_args 1) (ex_hc 1))) = hc_sent (ex_hc 1) @ [pkt]
      \<and> (word_of_int (csum pkt) :: byte) = 0 \<and> length pkt = 8 + n \<and> n = 4 \<and> res = (0 :: u16) \<and> drop 8 pkt = [5, 6, 7, 8]"
proof -
  have "8 \<le> unat (pkt_response_max (pkt0 (ex_hc 1)))"
    "length (response (ex_args 1)) = unat (pkt_response_max (pkt0 (ex_hc 1))) - 8"
    by (simp_all add: ex_hc_def ex_packet_def ex_args_def)
  from host_packet_respond_wellformed [OF this] obtain pkt res n
    where w: "hc_sent (snd (host_packet_respond (ex_args 1) (ex_hc 1))) = hc_sent (ex_hc 1) @ [pkt]"
      "(word_of_int (csum pkt) :: byte) = 0" "length pkt = 8 + n" "drop 8 pkt = take n (response (ex_args 1))" "res = (0 :: u16)"
    by (auto simp: ex_args_def ex_hc_def ex_packet_def)
  have "n = 4"
    using w(1,3) by (auto simp: host_packet_respond_def Let_def clip_response_def ex_args_def ex_hc_def ex_packet_def read_at_def
        response_header_def bytes16_def)
  then show ?thesis using w by (intro exI [of _ pkt] exI [of _ res] exI [of _ n]) (simp add: ex_args_def)
qed

theorem host_request_roundtrip_witness:
  "\<exists>s'. host_packet_receive True ex_cfg True ex_packet (ex_hc 0) = Some s' \<and> pending_args s' = Some Args0
     \<and> command (args0 s') = 1 \<and> unat (params_size (args0 s')) = 4 \<and> take 4 (params (args0 s')) = [1, 2, 3, 4]"
proof -
  define data :: "byte list" where "data = [1, 2, 3, 4]"
  have n: "length data = 4" by (simp add: data_def)
  have "pkt_request ex_packet = encode_request 1 0 data @ []" by (simp add: ex_packet_def data_def)
  from host_request_roundtrip [OF _ this, of ex_cfg True True "ex_hc 0", unfolded n]
  show ?thesis by (auto simp: ex_packet_def ex_cfg_def data_def)
qed

lemma csum_update: "i < length xs \<Longrightarrow> csum (xs[i := b]) = csum xs - uint (xs ! i) + uint b"
  by (induction xs arbitrary: i) (auto simp: csum_def split: nat.split)

lemma packet_error_0:
  assumes "packet_error p = 0" "length (pkt_request p) = unat (pkt_request_max p)"
  defines "n \<equiv> unat (le16 (pkt_request p ! 6) (pkt_request p ! 7))"
  shows "8 + n \<le> length (pkt_request p)" "(word_of_int (csum (take (8 + n) (pkt_request p))) :: byte) = 0"
    "driver_result p = 0" "8 \<le> pkt_request_size p" "pkt_request_size p \<le> pkt_request_max p"
proof -
  have c: "csum (take 8 (pkt_request p)) + csum (read_at (pkt_request p) 8 n) = csum (take (8 + n) (pkt_request p))"
    by (simp add: read_at_def take_add)
  show "driver_result p = 0" "8 \<le> pkt_request_size p" "pkt_request_size p \<le> pkt_request_max p"
    "8 + n \<le> length (pkt_request p)" "(word_of_int (csum (take (8 + n) (pkt_request p))) :: byte) = 0"
    using assms(1,2) c by (auto simp: packet_error_def Let_def n_def word_less_nat_alt word_le_nat_alt split: if_splits)
qed

text \<open>
  C20. A request that differs from a valid one in any single byte outside the length field is
  rejected: an error packet is sent at once, and no command is run or made pending.
\<close>

theorem corrupted_request_rejected:
  assumes "packet_error p = 0" "length (pkt_request p) = unat (pkt_request_max p)" "8 \<le> unat (pkt_response_max p)"
    and "i < 8 + unat (le16 (pkt_request p ! 6) (pkt_request p ! 7))" "i \<noteq> 6" "i \<noteq> 7" "b \<noteq> pkt_request p ! i"
  shows "\<exists>s' err. host_packet_receive sorted_section cfg in_irq (p\<lparr>pkt_request := (pkt_request p)[i := b]\<rparr>) s = Some s'
      \<and> err \<noteq> 0 \<and> result (args0 s') = err \<and> length (hc_sent s') = Suc (length (hc_sent s))
      \<and> pending_args s' = pending_args s \<and> cmd_pending_event s' = cmd_pending_event s \<and> hc_world s' = hc_world s"
proof -
  define n where "n = unat (le16 (pkt_request p ! 6) (pkt_request p ! 7))"
  define q where "q = p\<lparr>pkt_request := (pkt_request p)[i := b]\<rparr>"
  note ok = packet_error_0 [OF assms(1,2), folded n_def]
  have i: "i < 8 + n" using assms(4) by (simp add: n_def)
  have len: "le16 (pkt_request q ! 6) (pkt_request q ! 7) = le16 (pkt_request p ! 6) (pkt_request p ! 7)"
    using assms(5,6) by (simp add: q_def)
  have "csum (take (8 + n) (pkt_request q)) = csum (take (8 + n) (pkt_request p)) - uint (pkt_request p ! i) + uint b"
    using i ok(1) csum_update [of i "take (8 + n) (pkt_request p)" b] by (simp add: q_def take_update_swap)
  then have "(word_of_int (csum (take (8 + n) (pkt_request q))) :: byte) = b - pkt_request p ! i"
    using ok(2) by simp
  then have bad: "(word_of_int (csum (take 8 (pkt_request q)) + csum (read_at (pkt_request q) 8 n)) :: byte) \<noteq> 0"
    using assms(7) by (simp add: read_at_def flip: csum_append take_add)
  then have err: "packet_error q \<noteq> 0"
    unfolding packet_error_def Let_def len n_def [symmetric] using ok(3) by simp
  have "\<not> pkt_response_max q < 8" using assms(3) by (simp add: q_def word_less_nat_alt)
  then show ?thesis using err
    by (simp add: q_def [symmetric] host_packet_receive_def Let_def host_packet_respond_def clip_response_def)
qed

lemma ex_packet_ok: "packet_error ex_packet = 0"
  by (simp add: packet_error_def ex_packet_def encode_request_def request_header_def bytes16_def le16_def csum_def read_at_def)

theorem corrupted_request_rejected_witness:
  "\<exists>s' err. host_packet_receive True ex_cfg True (ex_packet\<lparr>pkt_request := (pkt_request ex_packet)[9 := 7]\<rparr>) (ex_hc 0) = Some s'
     \<and> err \<noteq> 0 \<and> result (args0 s') = err \<and> length (hc_sent s') = 1"
proof -
  have "length (pkt_request ex_packet) = unat (pkt_request_max ex_packet)" "8 \<le> unat (pkt_response_max ex_packet)"
    "9 < 8 + unat (le16 (pkt_request ex_packet ! 6) (pkt_request ex_packet ! 7))" "7 \<noteq> pkt_request ex_packet ! 9"
    by (simp_all add: ex_packet_def encode_request_def request_header_def bytes16_def le16_def)
  from corrupted_request_rejected [OF ex_packet_ok this(1-3) _ _ this(4), of True ex_cfg True "ex_hc 0"]
  show ?thesis by (auto simp: ex_hc_def)
qed

text \<open>
  The command that should return the saved result of a slow command never does: its handler
  stores the saved result where the caller then writes the handler's return value, so the answer
  is EC_RES_SUCCESS whatever the slow command returned, and the saved result is discarded.
\<close>

theorem resend_response_loses_result:
  assumes "pending_args s = Some Args0" "\<not> command_pending s" "pd_forward cfg = None"
    and "find_host_command sorted_section (hcmds cfg) (uint (command (args0 s)))
       = Some \<lparr>hcmd_handler = host_command_resend_response, hcmd_command = 0xDB, hcmd_version_mask = 1\<rparr>"
    and "version (args0 s) = 0" "send_response (args0 s) = PacketRespond"
  shows "result (args0 (process_pending sorted_section cfg s)) = 0
      \<and> saved_result (process_pending sorted_section cfg s) = 9
      \<and> driver_result (pkt0 (process_pending sorted_section cfg s)) = 0"
  using assms by (simp add: process_pending_def host_command_process_def run_host_command_def args_of_def put_args_def
      host_command_resend_response_def set_result_def host_send_response_def do_respond_def host_packet_respond_def
      clip_response_def Let_def)

theorem resend_response_loses_result_witness:
  "saved_result (ex_hc 0xDB) = 5 \<and> result (args0 (process_pending True ex_cfg (ex_hc 0xDB))) = 0
     \<and> saved_result (process_pending True ex_cfg (ex_hc 0xDB)) = 9"
  using resend_response_loses_result [of "ex_hc 0xDB" ex_cfg True]
  by (simp add: ex_hc_def ex_args_def ex_cfg_def ex_hcmd_def find_host_command_def find_binary.simps)

end
