(* ===== verification/Thermal.thy ===== *)
theory Thermal
  imports Util_Arith Util_Strings "HOL-Library.Signed_Division"
begin

text \<open>
  The thermal engine of common/thermal.c, which runs after the sensors have been read, once a
  second. It decides with the edge-detecting conditions of theory Util_Arith when to throttle the
  processor and when to shut it down. What it asks of other modules is recorded in order.
\<close>

section \<open>Data\<close>

abbreviation (input) EC_TEMP_THRESH_WARN :: nat where "EC_TEMP_THRESH_WARN \<equiv> 0"
abbreviation (input) EC_TEMP_THRESH_HIGH :: nat where "EC_TEMP_THRESH_HIGH \<equiv> 1"
abbreviation (input) EC_TEMP_THRESH_HALT :: nat where "EC_TEMP_THRESH_HALT \<equiv> 2"
abbreviation (input) EC_TEMP_THRESH_COUNT :: nat where "EC_TEMP_THRESH_COUNT \<equiv> 3"

record ec_thermal_config =
  temp_host :: "nat \<Rightarrow> u32"
  temp_host_release :: "nat \<Rightarrow> u32"
  temp_fan_off :: u32
  temp_fan_max :: u32

datatype throttle_type = THROTTLE_SOFT | THROTTLE_HARD

datatype thermal_call =
    SensorFailureEvent
  | ForceShutdown
  | ThrottleAp bool throttle_type
  | FanSetPercent nat int

record thermal =
  thermal_params :: "ec_thermal_config list"
  cond_hot :: "nat \<Rightarrow> cond_t"
  thermal_log :: "thermal_call list"

text \<open>A field of the configuration assigned to a C \<open>int\<close>.\<close>

definition to_int :: "u32 \<Rightarrow> int" where
  "to_int w = s32 (uint w)"

section \<open>Operations\<close>

text \<open>\<open>None\<close>: division by zero.\<close>

definition thermal_fan_percent :: "int \<Rightarrow> int \<Rightarrow> int \<Rightarrow> int option" where
  "thermal_fan_percent low high cur =
     (if cur < low then Some 0
      else if cur > high then Some 100
      else if s32 (high - low) = 0 then None
      else Some (s32 (100 * s32 (cur - low)) sdiv s32 (high - low)))"

record tally =
  count_over :: "nat \<Rightarrow> nat"
  count_under :: "nat \<Rightarrow> nat"
  num_valid_limits :: "nat \<Rightarrow> nat"
  num_sensors_read :: nat
  fmax :: int
  temp_fan_configured :: bool

definition no_tally :: tally where
  "no_tally = \<lparr>count_over = \<lambda>_. 0, count_under = \<lambda>_. 0, num_valid_limits = \<lambda>_. 0,
     num_sensors_read = 0, fmax = 0, temp_fan_configured = False\<rparr>"

text \<open>The limits of one sensor with reading \<open>t\<close>.\<close>

definition tally_limit :: "ec_thermal_config \<Rightarrow> int \<Rightarrow> nat \<Rightarrow> tally \<Rightarrow> tally" where
  "tally_limit p t j a =
     (let limit = to_int (temp_host p j); release = to_int (temp_host_release p j)
      in if limit = 0 then a
         else
           let a = a\<lparr>num_valid_limits := (num_valid_limits a)(j := num_valid_limits a j + 1)\<rparr>
           in if t > limit then a\<lparr>count_over := (count_over a)(j := count_over a j + 1)\<rparr>
              else if release \<noteq> 0
              then (if t < release then a\<lparr>count_under := (count_under a)(j := count_under a j + 1)\<rparr> else a)
              else if t < limit then a\<lparr>count_under := (count_under a)(j := count_under a j + 1)\<rparr>
              else a)"

definition tally_fan :: "ec_thermal_config \<Rightarrow> int \<Rightarrow> tally \<Rightarrow> tally option" where
  "tally_fan p t a =
     (if temp_fan_off p \<noteq> 0 \<and> temp_fan_max p \<noteq> 0
      then map_option (\<lambda>f. a\<lparr>fmax := (if f > fmax a then f else fmax a), temp_fan_configured := True\<rparr>)
             (thermal_fan_percent (to_int (temp_fan_off p)) (to_int (temp_fan_max p)) t)
      else Some a)"

text \<open>The loop over the sensors: a reading is \<open>None\<close> when the sensor could not be read.\<close>

fun tally_sensors :: "(ec_thermal_config \<times> int option) list \<Rightarrow> tally \<Rightarrow> tally option" where
  "tally_sensors [] a = Some a"
| "tally_sensors ((p, None) # rest) a = tally_sensors rest a"
| "tally_sensors ((p, Some t) # rest) a =
     Option.bind
       (tally_fan p t (fold (tally_limit p t) [0..<EC_TEMP_THRESH_COUNT] (a\<lparr>num_sensors_read := num_sensors_read a + 1\<rparr>)))
       (tally_sensors rest)"

definition set_hot :: "tally \<Rightarrow> nat \<Rightarrow> (nat \<Rightarrow> cond_t) \<Rightarrow> (nat \<Rightarrow> cond_t)" where
  "set_hot a j hot =
     (if count_over a j \<noteq> 0 then hot(j := cond_set (hot j) True)
      else if count_under a j = num_valid_limits a j then hot(j := cond_set (hot j) False)
      else hot)"

text \<open>\<open>if (cond_went_true(...)) on; else if (cond_went_false(...)) off;\<close>\<close>

definition react :: "nat \<Rightarrow> thermal_call list \<Rightarrow> thermal_call list \<Rightarrow> thermal \<Rightarrow> thermal" where
  "react j on off s =
     (case cond_went (cond_hot s j) True of
        (True, c) \<Rightarrow> s\<lparr>cond_hot := (cond_hot s)(j := c), thermal_log := thermal_log s @ on\<rparr>
      | (False, c) \<Rightarrow>
          (case cond_went c False of
             (went, c) \<Rightarrow> s\<lparr>cond_hot := (cond_hot s)(j := c),
                             thermal_log := thermal_log s @ (if went then off else [])\<rparr>))"

definition thermal_control :: "nat \<Rightarrow> int option list \<Rightarrow> thermal \<Rightarrow> thermal option" where
  "thermal_control fan_count readings s =
     (case tally_sensors (zip (thermal_params s) readings) no_tally of
        None \<Rightarrow> None
      | Some a \<Rightarrow>
          if num_sensors_read a = 0 then Some (s\<lparr>thermal_log := thermal_log s @ [SensorFailureEvent]\<rparr>)
          else
            let s = s\<lparr>cond_hot := fold (set_hot a) [0..<EC_TEMP_THRESH_COUNT] (cond_hot s)\<rparr>;
                s = react EC_TEMP_THRESH_HALT [ForceShutdown] [] s;
                s = react EC_TEMP_THRESH_HIGH [ThrottleAp True THROTTLE_HARD] [ThrottleAp False THROTTLE_HARD] s;
                s = react EC_TEMP_THRESH_WARN [ThrottleAp True THROTTLE_SOFT] [ThrottleAp False THROTTLE_SOFT] s
            in Some (if temp_fan_configured a
                     then s\<lparr>thermal_log := thermal_log s @ map (\<lambda>i. FanSetPercent i (fmax a)) [0..<fan_count]\<rparr>
                     else s))"

text \<open>The console command; \<open>None\<close> is a write outside the array of parameters.\<close>

definition set_param :: "nat \<Rightarrow> u32 \<Rightarrow> ec_thermal_config \<Rightarrow> ec_thermal_config" where
  "set_param i v p =
     (if i = 2 then p\<lparr>temp_host := (temp_host p)(EC_TEMP_THRESH_WARN := v)\<rparr>
      else if i = 3 then p\<lparr>temp_host := (temp_host p)(EC_TEMP_THRESH_HIGH := v)\<rparr>
      else if i = 4 then p\<lparr>temp_host := (temp_host p)(EC_TEMP_THRESH_HALT := v)\<rparr>
      else if i = 5 then p\<lparr>temp_fan_off := v\<rparr>
      else if i = 6 then p\<lparr>temp_fan_max := v\<rparr>
      else p)"

fun set_params :: "nat \<Rightarrow> nat \<Rightarrow> cstr list \<Rightarrow> thermal \<Rightarrow> (int \<times> thermal) option" where
  "set_params n i [] s = Some (EC_SUCCESS, s)"
| "set_params n i (arg # args) s =
     (let (val, e) = strtoi arg 0
      in if deref e \<noteq> 0 then Some (11 + int i - 1, s)
         else if val < 0 then set_params n (i + 1) args s
         else if n < length (thermal_params s)
         then set_params n (i + 1) args
                (s\<lparr>thermal_params := (thermal_params s)[n := set_param i (word_of_int val) (thermal_params s ! n)]\<rparr>)
         else None)"

definition command_thermalset :: "cstr list \<Rightarrow> thermal \<Rightarrow> (int \<times> thermal) option" where
  "command_thermalset argv s =
     (if length argv < 3 \<or> 7 < length argv then Some (20, s)
      else let (n, e) = strtoi (argv ! 1) 0
           in if deref e \<noteq> 0 then Some (11, s)
              else set_params (unat (word_of_int n :: u32)) 2 (drop 2 argv) s)"

definition thermal_command_set_threshold :: "u32 \<Rightarrow> ec_thermal_config \<Rightarrow> thermal \<Rightarrow> int \<times> thermal" where
  "thermal_command_set_threshold sensor_num cfg s =
     (if length (thermal_params s) \<le> unat sensor_num then (3, s)
      else (0, s\<lparr>thermal_params := (thermal_params s)[unat sensor_num := cfg]\<rparr>))"

definition thermal_command_get_threshold :: "u32 \<Rightarrow> thermal \<Rightarrow> int \<times> ec_thermal_config option" where
  "thermal_command_get_threshold sensor_num s =
     (if length (thermal_params s) \<le> unat sensor_num then (3, None)
      else (0, Some (thermal_params s ! unat sensor_num)))"

section \<open>What is counted\<close>

type_synonym reading = "ec_thermal_config \<times> int option"

definition has_limit :: "nat \<Rightarrow> reading \<Rightarrow> bool" where
  "has_limit j r = (case r of (p, Some t) \<Rightarrow> to_int (temp_host p j) \<noteq> 0 | _ \<Rightarrow> False)"

definition is_over :: "nat \<Rightarrow> reading \<Rightarrow> bool" where
  "is_over j r = (case r of (p, Some t) \<Rightarrow> to_int (temp_host p j) \<noteq> 0 \<and> t > to_int (temp_host p j) | _ \<Rightarrow> False)"

definition is_cool :: "nat \<Rightarrow> reading \<Rightarrow> bool" where
  "is_cool j r = (case r of
     (p, Some t) \<Rightarrow> to_int (temp_host p j) \<noteq> 0 \<and> t \<le> to_int (temp_host p j)
        \<and> (if to_int (temp_host_release p j) \<noteq> 0 then t < to_int (temp_host_release p j) else t < to_int (temp_host p j))
   | _ \<Rightarrow> False)"

lemma tally_limit_counts:
  "count_over (tally_limit p t j a) k = count_over a k + (if k = j \<and> is_over j (p, Some t) then 1 else 0)"
  "count_under (tally_limit p t j a) k = count_under a k + (if k = j \<and> is_cool j (p, Some t) then 1 else 0)"
  "num_valid_limits (tally_limit p t j a) k = num_valid_limits a k + (if k = j \<and> has_limit j (p, Some t) then 1 else 0)"
  "num_sensors_read (tally_limit p t j a) = num_sensors_read a"
  by (auto simp: tally_limit_def Let_def is_over_def is_cool_def has_limit_def)

lemma tally_fan_counts:
  "tally_fan p t a = Some a' \<Longrightarrow> count_over a' = count_over a \<and> count_under a' = count_under a
     \<and> num_valid_limits a' = num_valid_limits a \<and> num_sensors_read a' = num_sensors_read a"
  by (auto simp: tally_fan_def split: if_splits)

lemma upt_3: "[0..<3] = [0, 1, 2 :: nat]"
  by (simp add: upt_rec)

lemma tally_sensors_counts:
  assumes "tally_sensors rs a = Some b" "j < 3"
  shows "count_over b j = count_over a j + length (filter (is_over j) rs)
    \<and> count_under b j = count_under a j + length (filter (is_cool j) rs)
    \<and> num_valid_limits b j = num_valid_limits a j + length (filter (has_limit j) rs)
    \<and> num_sensors_read b = num_sensors_read a + length (filter (\<lambda>r. snd r \<noteq> None) rs)"
  using assms(1)
proof (induction rs a rule: tally_sensors.induct)
  case (2 p rest a)
  then show ?case by (simp add: is_over_def is_cool_def has_limit_def)
next
  case (3 p t rest a)
  obtain c where c: "tally_fan p t (fold (tally_limit p t) [0..<3] (a\<lparr>num_sensors_read := num_sensors_read a + 1\<rparr>)) = Some c"
    "tally_sensors rest c = Some b"
    using 3(2) by (auto split: bind_splits)
  have "j = 0 \<or> j = 1 \<or> j = 2" using assms(2) by auto
  then show ?case using 3(1) [OF c] tally_fan_counts [OF c(1)]
    by (auto simp: upt_3 tally_limit_counts)
qed simp

lemma cool_counts: "length (filter (is_cool j) rs) = length (filter (has_limit j) rs)
    \<longleftrightarrow> (\<forall>r \<in> set rs. has_limit j r \<longrightarrow> is_cool j r)"
  by (rule length_filter_eq_iff) (auto simp: is_cool_def has_limit_def split: prod.splits option.splits)

section \<open>Hysteresis\<close>

text \<open>Between two rounds no edge is left unreported.\<close>

definition settled :: "thermal \<Rightarrow> bool" where
  "settled s \<longleftrightarrow> (\<forall>j < 3. \<not> bit (cond_hot s j) (Suc 0) \<and> \<not> bit (cond_hot s j) 2)"

definition hot :: "thermal \<Rightarrow> nat \<Rightarrow> bool" where
  "hot s j = bit (cond_hot s j) 0"

definition next_hot :: "thermal \<Rightarrow> int option list \<Rightarrow> nat \<Rightarrow> bool" where
  "next_hot s readings j =
     (let rs = zip (thermal_params s) readings
      in list_ex (is_over j) rs \<or> (hot s j \<and> \<not> list_all (\<lambda>r. has_limit j r \<longrightarrow> is_cool j r) rs))"

definition edge_calls :: "bool \<Rightarrow> bool \<Rightarrow> thermal_call list \<Rightarrow> thermal_call list \<Rightarrow> thermal_call list" where
  "edge_calls before after on off = (if after \<and> \<not> before then on else if before \<and> \<not> after then off else [])"

lemma set_hot_other: "k \<noteq> j \<Longrightarrow> set_hot a j h k = h k"
  by (simp add: set_hot_def)

lemma set_hot_all: "j < 3 \<Longrightarrow> fold (set_hot a) [0..<3] h j = set_hot a j h j"
  unfolding upt_3 by (auto simp: set_hot_def less_Suc_eq numeral_3_eq_3 numeral_2_eq_2)

lemma react_settles:
  assumes "\<not> (bit (cond_hot s j) (Suc 0) \<and> bit (cond_hot s j) 2)"
  shows "hot (react j on off s) = hot s"
    "\<And>k. k \<noteq> j \<Longrightarrow> cond_hot (react j on off s) k = cond_hot s k"
    "\<not> bit (cond_hot (react j on off s) j) (Suc 0)" "\<not> bit (cond_hot (react j on off s) j) 2"
    "thermal_log (react j on off s) = thermal_log s @
       (if bit (cond_hot s j) (Suc 0) then on else if bit (cond_hot s j) 2 then off else [])"
    "thermal_params (react j on off s) = thermal_params s"
proof -
  let ?c = "cond_hot s j"
  obtain w c1 where 1: "cond_went ?c True = (w, c1)" by (cases "cond_went ?c True")
  obtain v c2 where 2: "cond_went c1 False = (v, c2)" by (cases "cond_went c1 False")
  have b1: "w = bit ?c (Suc 0)" "\<And>n. bit c1 n = (bit ?c n \<and> n \<noteq> Suc 0)"
    using cond_went_bits [of ?c True] 1 by simp_all
  have b2: "v = bit c1 2" "\<And>n. bit c2 n = (bit c1 n \<and> n \<noteq> 2)"
    using cond_went_bits [of c1 False] 2 by simp_all
  show "hot (react j on off s) = hot s"
    "\<And>k. k \<noteq> j \<Longrightarrow> cond_hot (react j on off s) k = cond_hot s k"
    "\<not> bit (cond_hot (react j on off s) j) (Suc 0)" "\<not> bit (cond_hot (react j on off s) j) 2"
    "thermal_log (react j on off s) = thermal_log s @
       (if bit (cond_hot s j) (Suc 0) then on else if bit (cond_hot s j) 2 then off else [])"
    "thermal_params (react j on off s) = thermal_params s"
    using assms 1 2 b1 b2 by (auto simp: react_def hot_def fun_eq_iff split: bool.splits)
qed

lemma set_hot_bits:
  assumes "settled s" "j < 3" "tally_sensors (zip (thermal_params s) readings) no_tally = Some a"
  defines "c \<equiv> set_hot a j (cond_hot s) j"
  shows "bit c 0 = next_hot s readings j"
    "bit c (Suc 0) = (next_hot s readings j \<and> \<not> hot s j)" "bit c 2 = (\<not> next_hot s readings j \<and> hot s j)"
proof -
  let ?rs = "zip (thermal_params s) readings"
  have old: "\<not> bit (cond_hot s j) (Suc 0)" "\<not> bit (cond_hot s j) 2" using assms(1,2) by (auto simp: settled_def)
  have cnt: "count_over a j = length (filter (is_over j) ?rs)" "count_under a j = length (filter (is_cool j) ?rs)"
      "num_valid_limits a j = length (filter (has_limit j) ?rs)"
    using tally_sensors_counts [OF assms(3,2)] by (simp_all add: no_tally_def)
  have o: "count_over a j \<noteq> 0 \<longleftrightarrow> list_ex (is_over j) ?rs"
    unfolding cnt by (auto simp: list_ex_iff filter_empty_conv)
  have u: "count_under a j = num_valid_limits a j \<longleftrightarrow> list_all (\<lambda>r. has_limit j r \<longrightarrow> is_cool j r) ?rs"
    unfolding cnt cool_counts by (simp add: list_all_iff)
  have c: "c = (if list_ex (is_over j) ?rs then cond_set (cond_hot s j) True
      else if list_all (\<lambda>r. has_limit j r \<longrightarrow> is_cool j r) ?rs then cond_set (cond_hot s j) False
      else cond_hot s j)"
    unfolding c_def set_hot_def o u by simp
  show "bit c 0 = next_hot s readings j"
    "bit c (Suc 0) = (next_hot s readings j \<and> \<not> hot s j)" "bit c 2 = (\<not> next_hot s readings j \<and> hot s j)"
    unfolding c next_hot_def Let_def using old by (auto simp: hot_def cond_set_bits)
qed

lemma thermal_round:
  assumes "settled s" "thermal_control fans readings s = Some s'"
    and "\<exists>(p, r) \<in> set (zip (thermal_params s) readings). r \<noteq> None"
  shows "settled s'" "\<And>j. j < 3 \<Longrightarrow> hot s' j = next_hot s readings j"
    "\<exists>speed. thermal_log s' = thermal_log s
        @ edge_calls (hot s 2) (next_hot s readings 2) [ForceShutdown] []
        @ edge_calls (hot s 1) (next_hot s readings 1) [ThrottleAp True THROTTLE_HARD] [ThrottleAp False THROTTLE_HARD]
        @ edge_calls (hot s 0) (next_hot s readings 0) [ThrottleAp True THROTTLE_SOFT] [ThrottleAp False THROTTLE_SOFT]
        @ speed \<and> (speed = [] \<or> (\<exists>f. speed = map (\<lambda>i. FanSetPercent i f) [0..<fans]))"
proof -
  obtain a where a: "tally_sensors (zip (thermal_params s) readings) no_tally = Some a"
    using assms(2) by (auto simp: thermal_control_def split: option.splits)
  have "num_sensors_read a \<noteq> 0"
    using tally_sensors_counts [OF a, of 0] assms(3) by (force simp: no_tally_def filter_empty_conv)
  define s0 where "s0 = s\<lparr>cond_hot := fold (set_hot a) [0..<3] (cond_hot s)\<rparr>"
  define s1 where "s1 = react 2 [ForceShutdown] [] s0"
  define s2 where "s2 = react 1 [ThrottleAp True THROTTLE_HARD] [ThrottleAp False THROTTLE_HARD] s1"
  define s3 where "s3 = react 0 [ThrottleAp True THROTTLE_SOFT] [ThrottleAp False THROTTLE_SOFT] s2"
  have s': "s' = (if temp_fan_configured a
      then s3\<lparr>thermal_log := thermal_log s3 @ map (\<lambda>i. FanSetPercent i (fmax a)) [0..<fans]\<rparr> else s3)"
    using assms(2) a \<open>num_sensors_read a \<noteq> 0\<close>
    by (simp add: thermal_control_def Let_def s0_def s1_def s2_def s3_def split: if_splits)
  have c0: "cond_hot s0 j = set_hot a j (cond_hot s) j" if "j < 3" for j
    using set_hot_all [OF that] by (simp add: s0_def)
  note bits = set_hot_bits [OF assms(1) _ a]
  have ex: "\<not> (bit (cond_hot s0 j) (Suc 0) \<and> bit (cond_hot s0 j) 2)" if "j < 3" for j
    using bits [OF that] c0 [OF that] by auto
  note r1 = react_settles [OF ex [of 2], where on = "[ForceShutdown]" and off = "[]", folded s1_def]
  have k1: "cond_hot s1 1 = cond_hot s0 1" "cond_hot s1 0 = cond_hot s0 0" using r1(2) by simp_all
  note r2 = react_settles [where s = s1 and j = 1 and on = "[ThrottleAp True THROTTLE_HARD]"
      and off = "[ThrottleAp False THROTTLE_HARD]", folded s2_def]
  have k2: "cond_hot s2 2 = cond_hot s1 2" "cond_hot s2 0 = cond_hot s0 0" using r2(2) ex [of 1] k1 by simp_all
  note r3 = react_settles [where s = s2 and j = 0 and on = "[ThrottleAp True THROTTLE_SOFT]"
      and off = "[ThrottleAp False THROTTLE_SOFT]", folded s3_def]
  have k3: "cond_hot s3 2 = cond_hot s1 2" "cond_hot s3 1 = cond_hot s2 1" using r3(2) ex [of 0] k2 by simp_all
  have log: "thermal_log s3 = thermal_log s
      @ edge_calls (hot s 2) (next_hot s readings 2) [ForceShutdown] []
      @ edge_calls (hot s 1) (next_hot s readings 1) [ThrottleAp True THROTTLE_HARD] [ThrottleAp False THROTTLE_HARD]
      @ edge_calls (hot s 0) (next_hot s readings 0) [ThrottleAp True THROTTLE_SOFT] [ThrottleAp False THROTTLE_SOFT]"
    using r1(5) r2(5) r3(5) ex [of 0] ex [of 1] k1 k2 bits [of 0] bits [of 1] bits [of 2] c0 [of 0] c0 [of 1] c0 [of 2]
    by (simp add: edge_calls_def s0_def)
  have hots: "hot s3 j = next_hot s readings j" if "j < 3" for j
    using that r1(1) r2(1) r3(1) ex [of 0] ex [of 1] k1 k2 bits [OF that] c0 [OF that] by (simp add: hot_def fun_eq_iff)
  have "settled s3"
    unfolding settled_def using r1(3,4) r2(3,4) r3(3,4) ex [of 0] ex [of 1] k1 k2 k3
    by (auto simp: less_Suc_eq numeral_3_eq_3 numeral_2_eq_2)
  then show "settled s'" "\<And>j. j < 3 \<Longrightarrow> hot s' j = next_hot s readings j" using s' hots by (auto simp: settled_def hot_def)
  show "\<exists>speed. thermal_log s' = thermal_log s
        @ edge_calls (hot s 2) (next_hot s readings 2) [ForceShutdown] []
        @ edge_calls (hot s 1) (next_hot s readings 1) [ThrottleAp True THROTTLE_HARD] [ThrottleAp False THROTTLE_HARD]
        @ edge_calls (hot s 0) (next_hot s readings 0) [ThrottleAp True THROTTLE_SOFT] [ThrottleAp False THROTTLE_SOFT]
        @ speed \<and> (speed = [] \<or> (\<exists>f. speed = map (\<lambda>i. FanSetPercent i f) [0..<fans]))"
    using s' log by auto
qed

text \<open>
  One round of the thermal engine against its specification, for any sensors of which at
  least one can be read. Per threshold the system becomes hot when some sensor is above its limit
  and cool only when every sensor with a limit is below its release level; the calls it makes are
  exactly those of the edges, in the order shutdown, hard throttle, soft throttle, fans; and no
  edge is left to be reported twice or late.
\<close>

theorem thermal_control_hysteresis:
  assumes "settled s" "thermal_control fans readings s = Some s'"
    and "\<exists>(p, r) \<in> set (zip (thermal_params s) readings). r \<noteq> None"
  shows "settled s' \<and> (\<forall>j < 3. hot s' j = next_hot s readings j)
    \<and> (\<exists>speed. thermal_log s' = thermal_log s
        @ edge_calls (hot s 2) (next_hot s readings 2) [ForceShutdown] []
        @ edge_calls (hot s 1) (next_hot s readings 1) [ThrottleAp True THROTTLE_HARD] [ThrottleAp False THROTTLE_HARD]
        @ edge_calls (hot s 0) (next_hot s readings 0) [ThrottleAp True THROTTLE_SOFT] [ThrottleAp False THROTTLE_SOFT]
        @ speed \<and> (speed = [] \<or> (\<exists>f. speed = map (\<lambda>i. FanSetPercent i f) [0..<fans])))"
  using thermal_round [OF assms] by blast

definition ex_thermal :: thermal where
  "ex_thermal = \<lparr>thermal_params = [\<lparr>temp_host = (\<lambda>_. 0)(0 := 300, 1 := 320, 2 := 340), temp_host_release = (\<lambda>_. 0)(1 := 310),
      temp_fan_off = 0, temp_fan_max = 0\<rparr>], cond_hot = \<lambda>_. 0, thermal_log = []\<rparr>"

lemma ex_thermal_cold: "settled ex_thermal" "\<not> hot ex_thermal j"
  by (simp_all add: settled_def hot_def ex_thermal_def)

lemma ex_thermal_read: "\<exists>(p, r) \<in> set (zip (thermal_params ex_thermal) [Some (330 :: int)]). r \<noteq> None"
  by (simp add: ex_thermal_def)

lemma ex_thermal_round: "\<exists>s'. thermal_control 0 [Some 330] ex_thermal = Some s'"
proof -
  have "tally_sensors (zip (thermal_params ex_thermal) [Some 330]) no_tally \<noteq> None"
    by (simp add: ex_thermal_def tally_fan_def upt_3 split: bind_splits)
  then have "thermal_control 0 [Some 330] ex_thermal \<noteq> None"
    by (auto simp: thermal_control_def Let_def)
  then show ?thesis by blast
qed

theorem thermal_control_hysteresis_witness:
  "case thermal_control 0 [Some 330] ex_thermal of None \<Rightarrow> False
   | Some s' \<Rightarrow> settled s' \<and> hot s' 1 = next_hot ex_thermal [Some 330] 1
       \<and> thermal_log s' = edge_calls False (next_hot ex_thermal [Some 330] 2) [ForceShutdown] []
         @ edge_calls False (next_hot ex_thermal [Some 330] 1) [ThrottleAp True THROTTLE_HARD] [ThrottleAp False THROTTLE_HARD]
         @ edge_calls False (next_hot ex_thermal [Some 330] 0) [ThrottleAp True THROTTLE_SOFT] [ThrottleAp False THROTTLE_SOFT]"
proof -
  obtain s' where s': "thermal_control 0 [Some 330] ex_thermal = Some s'" using ex_thermal_round by blast
  from thermal_control_hysteresis [OF ex_thermal_cold(1) s' ex_thermal_read] show ?thesis
    using s' ex_thermal_cold(2) by (auto simp: ex_thermal_def)
qed

section \<open>The fan\<close>

text \<open>
  The fan speed asked for is a percentage, 0 below the lower temperature and 100 above the
  upper one, and never decreases with the temperature, for every pair of temperatures whose
  distance fits the multiplication.
\<close>

theorem thermal_fan_percent_ramp:
  assumes "low < high" "high - low \<le> 20000000" "cur \<le> cur'"
  shows "\<exists>p p'. thermal_fan_percent low high cur = Some p \<and> thermal_fan_percent low high cur' = Some p'
    \<and> 0 \<le> p \<and> p \<le> p' \<and> p' \<le> 100"
proof -
  have val: "thermal_fan_percent low high t
      = Some (if t < low then 0 else if t > high then 100 else 100 * (t - low) div (high - low))" for t
  proof (cases "low \<le> t \<and> t \<le> high")
    case True
    then have "s32 (t - low) = t - low" "s32 (high - low) = high - low" "s32 (100 * (t - low)) = 100 * (t - low)"
      using True assms by (simp_all add: s32_id)
    then show ?thesis using True assms(1) by (simp add: thermal_fan_percent_def signed_divide_int_def sgn_if)
  qed (auto simp: thermal_fan_percent_def)
  have bound: "0 \<le> 100 * (t - low) div (high - low) \<and> 100 * (t - low) div (high - low) \<le> 100"
    if "low \<le> t" "t \<le> high" for t
  proof -
    have "100 * (t - low) div (high - low) \<le> 100 * (high - low) div (high - low)"
      using that assms(1) by (intro zdiv_mono1) auto
    also have "\<dots> = 100" using assms(1) by (intro nonzero_mult_div_cancel_right) simp
    finally show ?thesis using that assms(1) by (simp add: pos_imp_zdiv_nonneg_iff)
  qed
  have mono: "100 * (cur - low) div (high - low) \<le> 100 * (cur' - low) div (high - low)"
    using assms by (intro zdiv_mono1) auto
  show ?thesis unfolding val using bound [of cur] bound [of cur'] mono assms by auto
qed

theorem thermal_fan_percent_ramp_witness:
  "\<exists>p p'. thermal_fan_percent 300 320 305 = Some p \<and> thermal_fan_percent 300 320 310 = Some p'
    \<and> 0 \<le> p \<and> p \<le> p' \<and> p' \<le> 100"
  by (rule thermal_fan_percent_ramp) simp_all

lemma thermal_fan_percent_div0: "thermal_fan_percent t t t = None"
  by (simp add: thermal_fan_percent_def s32_def)

end
