(* ===== verification/Throttle_Ap.thy ===== *)
theory Throttle_Ap
  imports Thermal
begin

text \<open>
  Throttling of the host processor, common/throttle_ap.c: every source of throttling has a bit
  per type of throttling, and the processor is told after every request. The mutex of the module
  makes each request atomic. The second part composes it with the thermal engine.
\<close>

section \<open>Requests\<close>

datatype throttle_sources = THROTTLE_SRC_THERMAL | THROTTLE_SRC_BAT_DISCHG_CURRENT | THROTTLE_SRC_BAT_VOLTAGE

definition source_bit :: "throttle_sources \<Rightarrow> nat" where
  "source_bit src = (case src of THROTTLE_SRC_THERMAL \<Rightarrow> 0 | THROTTLE_SRC_BAT_DISCHG_CURRENT \<Rightarrow> 1 | THROTTLE_SRC_BAT_VOLTAGE \<Rightarrow> 2)"

text \<open>\<open>told\<close> are the calls of \<open>host_throttle_cpu\<close> and \<open>chipset_throttle_cpu\<close>, by type.\<close>

record throttle =
  throttle_request :: "throttle_type \<Rightarrow> u32"
  told :: "throttle_type \<Rightarrow> u32 list"

definition throttle_ap :: "bool \<Rightarrow> throttle_type \<Rightarrow> throttle_sources \<Rightarrow> throttle \<Rightarrow> throttle" where
  "throttle_ap on type source s =
     (let bitmask = push_bit (source_bit source) 1;
          tmpval = (if on then throttle_request s type OR bitmask else throttle_request s type AND NOT bitmask)
      in \<lparr>throttle_request = (throttle_request s)(type := tmpval), told = (told s)(type := told s type @ [tmpval])\<rparr>)"

definition throttle_initial :: throttle where
  "throttle_initial = \<lparr>throttle_request = \<lambda>_. 0, told = \<lambda>_. []\<rparr>"

type_synonym request = "bool \<times> throttle_type \<times> throttle_sources"

definition throttle_run :: "request list \<Rightarrow> throttle \<Rightarrow> throttle" where
  "throttle_run rs s = fold (\<lambda>(on, type, source). throttle_ap on type source) rs s"

text \<open>What each source asked for last.\<close>

definition wanted :: "request list \<Rightarrow> throttle_type \<Rightarrow> throttle_sources \<Rightarrow> bool" where
  "wanted rs = fold (\<lambda>(on, type, source) w. w(type := (w type)(source := on))) rs (\<lambda>_ _. False)"

lemma source_bit_inj [simp]: "source_bit a = source_bit b \<longleftrightarrow> a = b"
  by (simp add: source_bit_def split: throttle_sources.split)

lemma source_bit_less: "source_bit a < 3"
  by (simp add: source_bit_def split: throttle_sources.split)

lemma throttle_ap_bit:
  "n < 32 \<Longrightarrow> bit (throttle_request (throttle_ap on type source s) t) n
     = (if t = type \<and> n = source_bit source then on else bit (throttle_request s t) n)"
  by (auto simp: throttle_ap_def Let_def bit_simps)

lemma throttle_ap_other [simp]:
  "throttle_request (throttle_ap on type source s) t = throttle_request s t" "told (throttle_ap on type source s) t = told s t"
  if "t \<noteq> type"
  using that by (simp_all add: throttle_ap_def Let_def)

lemma throttle_ap_told [simp]:
  "told (throttle_ap on type source s) type = told s type @ [throttle_request (throttle_ap on type source s) type]"
  by (simp add: throttle_ap_def Let_def)

lemma throttle_run_snoc [simp]:
  "throttle_run (rs @ [(on, type, source)]) s = throttle_ap on type source (throttle_run rs s)"
  "wanted (rs @ [(on, type, source)]) = (wanted rs)(type := (wanted rs type)(source := on))"
  by (simp_all add: throttle_run_def wanted_def)

lemma throttle_run_bits:
  "n < 32 \<Longrightarrow> bit (throttle_request (throttle_run rs throttle_initial) t) n \<longleftrightarrow> (\<exists>src. n = source_bit src \<and> wanted rs t src)"
proof (induction rs rule: rev_induct)
  case Nil
  then show ?case by (simp add: throttle_run_def throttle_initial_def wanted_def)
next
  case (snoc r rs)
  then show ?case by (cases r) (auto simp: throttle_ap_bit)
qed

lemma told_last:
  "told (throttle_run rs throttle_initial) t \<noteq> [] \<Longrightarrow>
     last (told (throttle_run rs throttle_initial) t) = throttle_request (throttle_run rs throttle_initial) t"
proof (induction rs rule: rev_induct)
  case Nil
  then show ?case by (simp add: throttle_run_def throttle_initial_def)
next
  case (snoc r rs)
  then show ?case by (cases r; cases "t = fst (snd r)") auto
qed

lemma u32_eq_0_iff: "(w :: u32) = 0 \<longleftrightarrow> (\<forall>n < 32. \<not> bit w n)"
  by (auto simp: bit_eq_iff dest: bit_imp_le_length)

text \<open>
  Throttling is the virtual OR of all sources, over every sequence of requests: the
  processor was last told to throttle exactly if some source's last request for that type was to
  throttle, so every source must agree before the throttling ends, and repeated requests of one
  source do not add up.
\<close>

theorem throttle_virtual_or:
  assumes "told (throttle_run rs throttle_initial) t \<noteq> []"
  shows "last (told (throttle_run rs throttle_initial) t) \<noteq> 0 \<longleftrightarrow> (\<exists>source. wanted rs t source)"
proof -
  have "source_bit source < 32" for source using source_bit_less [of source] by simp
  then show ?thesis unfolding told_last [OF assms] u32_eq_0_iff using throttle_run_bits by blast
qed

theorem throttle_virtual_or_witness:
  "last (told (throttle_run [(True, THROTTLE_HARD, THROTTLE_SRC_THERMAL), (True, THROTTLE_HARD, THROTTLE_SRC_BAT_VOLTAGE),
      (False, THROTTLE_HARD, THROTTLE_SRC_THERMAL)] throttle_initial) THROTTLE_HARD) \<noteq> 0"
  by (subst throttle_virtual_or)
    (auto simp: throttle_run_def wanted_def throttle_ap_def Let_def intro: exI [of _ THROTTLE_SRC_BAT_VOLTAGE])

section \<open>The thermal engine and the processor\<close>

text \<open>The throttling calls of the thermal engine, made to the module above.\<close>

definition thermal_throttle :: "thermal_call \<Rightarrow> throttle \<Rightarrow> throttle" where
  "thermal_throttle c = (case c of ThrottleAp on type \<Rightarrow> throttle_ap on type THROTTLE_SRC_THERMAL | _ \<Rightarrow> id)"

text \<open>
  Both modules from boot on, in any interleaving: rounds of the thermal engine, requests of other
  sources, and changes of the thresholds by the host.
\<close>

inductive throttled :: "thermal \<Rightarrow> throttle \<Rightarrow> bool" where
  boot: "settled s \<Longrightarrow> (\<And>j. \<not> hot s j) \<Longrightarrow> throttled s throttle_initial"
| thermal_task: "throttled s t \<Longrightarrow> thermal_control fans readings s = Some s' \<Longrightarrow>
    throttled s' (fold thermal_throttle (drop (length (thermal_log s)) (thermal_log s')) t)"
| other_source: "throttled s t \<Longrightarrow> source \<noteq> THROTTLE_SRC_THERMAL \<Longrightarrow> throttled s (throttle_ap on type source t)"
| new_limits: "throttled s t \<Longrightarrow> throttled (s\<lparr>thermal_params := ps\<rparr>) t"

definition level_of :: "throttle_type \<Rightarrow> nat" where
  "level_of type = (case type of THROTTLE_SOFT \<Rightarrow> EC_TEMP_THRESH_WARN | THROTTLE_HARD \<Rightarrow> EC_TEMP_THRESH_HIGH)"

definition thermal_on :: "(throttle_type \<Rightarrow> bool) \<Rightarrow> throttle \<Rightarrow> bool" where
  "thermal_on h t \<longleftrightarrow> (\<forall>ty. bit (throttle_request t ty) 0 = h ty
     \<and> (if told t ty = [] then throttle_request t ty = 0 else last (told t ty) = throttle_request t ty))"

definition agree :: "thermal \<Rightarrow> throttle \<Rightarrow> bool" where
  "agree s t \<longleftrightarrow> settled s \<and> thermal_on (\<lambda>ty. hot s (level_of ty)) t"

lemma fold_fan [simp]: "fold thermal_throttle (map (\<lambda>i. FanSetPercent i f) xs) t = t"
  by (induction xs) (simp_all add: thermal_throttle_def)

lemma thermal_bit: "bit (throttle_request (throttle_ap on type source s) t) 0
    = (if t = type \<and> source = THROTTLE_SRC_THERMAL then on else bit (throttle_request s t) 0)"
  by (subst throttle_ap_bit) (simp_all add: source_bit_def split: throttle_sources.splits)

lemma thermal_on_request:
  assumes "thermal_on h t"
  shows "thermal_on (if source = THROTTLE_SRC_THERMAL then h(type := on) else h) (throttle_ap on type source t)"
  unfolding thermal_on_def
proof
  fix ty
  show "bit (throttle_request (throttle_ap on type source t) ty) 0 = (if source = THROTTLE_SRC_THERMAL then h(type := on) else h) ty
     \<and> (if told (throttle_ap on type source t) ty = [] then throttle_request (throttle_ap on type source t) ty = 0
        else last (told (throttle_ap on type source t) ty) = throttle_request (throttle_ap on type source t) ty)"
    using assms by (cases "ty = type") (simp_all add: thermal_on_def thermal_bit)
qed

lemma thermal_on_edge:
  assumes "thermal_on h t"
  shows "thermal_on (h(type := on)) (if h type = on then t else throttle_ap on type THROTTLE_SRC_THERMAL t)"
  using assms thermal_on_request [OF assms, of THROTTLE_SRC_THERMAL type on] by (auto simp: fun_upd_idem)

lemma agree_round:
  assumes "agree s t" "thermal_control fans readings s = Some s'"
  shows "agree s' (fold thermal_throttle (drop (length (thermal_log s)) (thermal_log s')) t)"
proof (cases "\<exists>(p, r) \<in> set (zip (thermal_params s) readings). r \<noteq> None")
  case True
  have st: "settled s" using assms(1) by (simp add: agree_def)
  note r = thermal_round [OF st assms(2) True]
  from r(3) obtain speed where log: "drop (length (thermal_log s)) (thermal_log s')
      = edge_calls (hot s 2) (hot s' 2) [ForceShutdown] []
        @ edge_calls (hot s 1) (hot s' 1) [ThrottleAp True THROTTLE_HARD] [ThrottleAp False THROTTLE_HARD]
        @ edge_calls (hot s 0) (hot s' 0) [ThrottleAp True THROTTLE_SOFT] [ThrottleAp False THROTTLE_SOFT] @ speed"
    and speed: "fold thermal_throttle speed u = u" for u
    using r(2) by auto
  define t1 where "t1 = (if hot s' 1 = hot s 1 then t else throttle_ap (hot s' 1) THROTTLE_HARD THROTTLE_SRC_THERMAL t)"
  define t2 where "t2 = (if hot s' 0 = hot s 0 then t1 else throttle_ap (hot s' 0) THROTTLE_SOFT THROTTLE_SRC_THERMAL t1)"
  have "fold thermal_throttle (drop (length (thermal_log s)) (thermal_log s')) t = t2"
    unfolding log by (auto simp: edge_calls_def thermal_throttle_def speed t1_def t2_def)
  moreover have "thermal_on (\<lambda>ty. hot s' (level_of ty)) t2"
  proof -
    let ?h = "\<lambda>ty. hot s (level_of ty)"
    have lv: "?h THROTTLE_HARD = hot s 1" "?h THROTTLE_SOFT = hot s 0" by (simp_all add: level_of_def)
    have "thermal_on ?h t" using assms(1) by (simp add: agree_def)
    from thermal_on_edge [OF this, of THROTTLE_HARD "hot s' 1"]
    have "thermal_on (?h(THROTTLE_HARD := hot s' 1)) t1" unfolding t1_def lv by (simp add: eq_commute)
    from thermal_on_edge [OF this, of THROTTLE_SOFT "hot s' 0"]
    have "thermal_on (?h(THROTTLE_HARD := hot s' 1, THROTTLE_SOFT := hot s' 0)) t2"
      unfolding t2_def by (simp add: lv eq_commute)
    moreover have "?h(THROTTLE_HARD := hot s' 1, THROTTLE_SOFT := hot s' 0) = (\<lambda>ty. hot s' (level_of ty))"
      by (auto simp: fun_eq_iff level_of_def split: throttle_type.split)
    ultimately show ?thesis by simp
  qed
  ultimately show ?thesis using r(1) by (simp add: agree_def)
next
  case False
  have "num_sensors_read a = 0" if "tally_sensors (zip (thermal_params s) readings) no_tally = Some a" for a
    using tally_sensors_counts [OF that, of 0] False by (force simp: no_tally_def filter_empty_conv)
  then have "s' = s\<lparr>thermal_log := thermal_log s @ [SensorFailureEvent]\<rparr>"
    using assms(2) by (auto simp: thermal_control_def split: option.splits if_splits)
  then show ?thesis using assms(1) by (simp add: thermal_throttle_def agree_def settled_def hot_def)
qed

lemma throttled_agree: "throttled s t \<Longrightarrow> agree s t"
proof (induction rule: throttled.induct)
  case (boot s)
  then show ?case by (simp add: agree_def thermal_on_def throttle_initial_def)
next
  case (thermal_task s t fans readings s')
  then show ?case by (blast intro: agree_round)
next
  case (other_source s t source on type)
  then show ?case using thermal_on_request [of _ t source type on] by (simp add: agree_def)
next
  case (new_limits s t ps)
  then show ?case by (simp add: agree_def settled_def hot_def)
qed

lemma throttled_others:
  assumes "throttled s t" "\<forall>(on, type, source) \<in> set rs. source \<noteq> THROTTLE_SRC_THERMAL"
  shows "throttled s (throttle_run rs t)"
  using assms
proof (induction rs rule: rev_induct)
  case Nil
  then show ?case by (simp add: throttle_run_def)
next
  case (snoc r rs)
  then show ?case by (cases r) (auto intro: throttled.other_source)
qed

lemma to_int_sint: "to_int w = sint w"
  by (simp add: to_int_def s32_def sint_uint)

lemma throttled_told:
  assumes "throttled s t"
  shows "hot s (level_of ty) \<Longrightarrow> told t ty \<noteq> [] \<and> last (told t ty) \<noteq> 0" "bit (throttle_request t ty) 0 = hot s (level_of ty)"
    "\<not> hot s (level_of ty) \<Longrightarrow> told t ty \<noteq> [] \<Longrightarrow> (\<And>n. 0 < n \<Longrightarrow> \<not> bit (throttle_request t ty) n) \<Longrightarrow> last (told t ty) = 0"
proof -
  have a: "bit (throttle_request t ty) 0 = hot s (level_of ty)"
      "if told t ty = [] then throttle_request t ty = 0 else last (told t ty) = throttle_request t ty"
    using throttled_agree [OF assms] by (simp_all add: agree_def thermal_on_def)
  then show "bit (throttle_request t ty) 0 = hot s (level_of ty)" by simp
  show "told t ty \<noteq> [] \<and> last (told t ty) \<noteq> 0" if "hot s (level_of ty)"
  proof -
    have "bit (throttle_request t ty) 0" using a(1) that by simp
    then show ?thesis using a(2) by (auto split: if_splits)
  qed
  show "last (told t ty) = 0" if "\<not> hot s (level_of ty)" "told t ty \<noteq> []" "\<And>n. 0 < n \<Longrightarrow> \<not> bit (throttle_request t ty) n"
  proof -
    have "\<not> bit (throttle_request t ty) n" for n using a(1) that by (cases n) auto
    then have "throttle_request t ty = 0" by (simp add: bit_eq_iff)
    then show ?thesis using a(2) that by simp
  qed
qed

text \<open>
  C17. While a temperature is above its warning or high level, the processor is throttled, softly or
  hard, whatever the other sources of throttling ask for. In every state of the two modules, and
  after any changes of the limits by the host: once a round of the thermal engine measures a
  temperature above its limit, the processor is throttled, and stays so through all requests of other
  sources until the next round; in a round that finds the engine throttling, a temperature that has
  not fallen below its release level (its limit, if it has none) keeps the throttling on; and a
  round that finds all temperatures below these levels ends it, unless another source asks for it. A
  limit of 0 is no limit.
\<close>

theorem hot_system_is_throttled:
  fixes ty :: throttle_type
  assumes "throttled s t" "thermal_control fans readings s = Some s'" "\<forall>(on, type, source) \<in> set rs. source \<noteq> THROTTLE_SRC_THERMAL"
  defines "t' \<equiv> throttle_run rs (fold thermal_throttle (drop (length (thermal_log s)) (thermal_log s')) t)"
    and "measured \<equiv> {(p, T). (p, Some T) \<in> set (zip (thermal_params s) readings)}"
    and "limit \<equiv> \<lambda>p. sint (temp_host p (case ty of THROTTLE_SOFT \<Rightarrow> EC_TEMP_THRESH_WARN | THROTTLE_HARD \<Rightarrow> EC_TEMP_THRESH_HIGH))"
    and "release \<equiv> \<lambda>p. sint (temp_host_release p (case ty of THROTTLE_SOFT \<Rightarrow> EC_TEMP_THRESH_WARN | THROTTLE_HARD \<Rightarrow> EC_TEMP_THRESH_HIGH))"
  shows "((\<exists>(p, T) \<in> measured. limit p \<noteq> 0 \<and> T > limit p) \<longrightarrow> told t' ty \<noteq> [] \<and> last (told t' ty) \<noteq> 0)
     \<and> (bit (throttle_request t ty) 0
          \<and> (\<exists>(p, T) \<in> measured. limit p \<noteq> 0 \<and> T \<ge> (if release p \<noteq> 0 then release p else limit p))
          \<longrightarrow> told t' ty \<noteq> [] \<and> last (told t' ty) \<noteq> 0)
     \<and> (measured \<noteq> {} \<and> (\<forall>(p, T) \<in> measured. limit p \<noteq> 0 \<longrightarrow> T \<le> limit p \<and> T < (if release p \<noteq> 0 then release p else limit p))
          \<and> (\<forall>n. 0 < n \<longrightarrow> \<not> bit (throttle_request t' ty) n) \<and> told t' ty \<noteq> [] \<longrightarrow> last (told t' ty) = 0)"
proof -
  let ?j = "level_of ty" and ?rs = "zip (thermal_params s) readings"
  have t': "throttled s' t'" unfolding t'_def
    using throttled_others [OF throttled.thermal_task [OF assms(1,2)] assms(3)] .
  note told = throttled_told [OF t', of ty] throttled_told(2) [OF assms(1), of ty]
  have lr: "limit p = to_int (temp_host p ?j)" "release p = to_int (temp_host_release p ?j)" for p
    by (simp_all add: limit_def release_def to_int_sint level_of_def)
  have j: "?j < 3" by (simp add: level_of_def split: throttle_type.split)
  have h: "hot s' ?j = next_hot s readings ?j" if "measured \<noteq> {}"
  proof -
    have "\<exists>(p, r) \<in> set ?rs. r \<noteq> None" using that by (auto simp: measured_def)
    then show ?thesis using thermal_round(2) [OF _ assms(2) _ j] throttled_agree [OF assms(1)] by (simp add: agree_def)
  qed
  have over: "hot s' ?j" if "(p, T) \<in> measured" "limit p \<noteq> 0" "T > limit p" for p T
  proof -
    have "(p, Some T) \<in> set ?rs" "is_over ?j (p, Some T)" using that by (auto simp: is_over_def measured_def lr)
    then have "next_hot s readings ?j" by (auto simp: next_hot_def list_ex_iff Let_def)
    then show ?thesis using h that(1) by blast
  qed
  have warm: "hot s' ?j" if "hot s ?j" "(p, T) \<in> measured" "limit p \<noteq> 0" "T \<ge> (if release p \<noteq> 0 then release p else limit p)" for p T
  proof -
    have "(p, Some T) \<in> set ?rs" "has_limit ?j (p, Some T)" "\<not> is_cool ?j (p, Some T)"
      using that by (auto simp: has_limit_def is_cool_def measured_def lr split: if_splits)
    then have "\<not> list_all (\<lambda>r. has_limit ?j r \<longrightarrow> is_cool ?j r) ?rs" by (auto simp: list_all_iff)
    then show ?thesis using h that by (auto simp: next_hot_def Let_def)
  qed
  have cool: "\<not> hot s' ?j"
    if m: "measured \<noteq> {}" "\<forall>(p, T) \<in> measured. limit p \<noteq> 0 \<longrightarrow> T \<le> limit p \<and> T < (if release p \<noteq> 0 then release p else limit p)"
  proof -
    have "\<not> is_over ?j r \<and> (has_limit ?j r \<longrightarrow> is_cool ?j r)" if "r \<in> set ?rs" for r
      using m(2) that by (cases r; cases "snd r") (force simp: is_over_def has_limit_def is_cool_def measured_def lr)+
    then show ?thesis using h [OF m(1)] by (simp add: next_hot_def list_ex_iff list_all_iff Let_def)
  qed
  show ?thesis using told over warm cool by fastforce
qed

text \<open>At 330 K, above the high level of 320 K, a source that gives up its own request changes nothing.\<close>

theorem hot_system_is_throttled_witness:
  "\<exists>s'. thermal_control 0 [Some 330] ex_thermal = Some s'
     \<and> last (told (throttle_run [(False, THROTTLE_HARD, THROTTLE_SRC_BAT_VOLTAGE)]
          (fold thermal_throttle (thermal_log s') throttle_initial)) THROTTLE_HARD) \<noteq> 0"
proof -
  obtain s' where s': "thermal_control 0 [Some 330] ex_thermal = Some s'" using ex_thermal_round by blast
  have z: "zip (thermal_params ex_thermal) [Some 330] = [(hd (thermal_params ex_thermal), Some 330)]" "thermal_log ex_thermal = []"
    "sint (temp_host (hd (thermal_params ex_thermal)) 1) = 320" by (simp_all add: ex_thermal_def)
  have "\<forall>(on, type, source) \<in> set [(False, THROTTLE_HARD, THROTTLE_SRC_BAT_VOLTAGE)]. source \<noteq> THROTTLE_SRC_THERMAL" by simp
  note c = hot_system_is_throttled [OF throttled.boot [OF ex_thermal_cold] s' this, of THROTTLE_HARD, THEN conjunct1]
  have "last (told (throttle_run [(False, THROTTLE_HARD, THROTTLE_SRC_BAT_VOLTAGE)]
          (fold thermal_throttle (thermal_log s') throttle_initial)) THROTTLE_HARD) \<noteq> 0"
    using c unfolding z(1,2) by (simp add: z(3) [simplified])
  then show ?thesis using s' by blast
qed

end
