(* ===== verification/Keyboard_8042.thy ===== *)
theory Keyboard_8042
  imports Queue Util_Strings Timer
begin

text \<open>
  The 8042 keyboard controller of common/keyboard_8042.c and the tables of
  common/keyboard_8042_sharedlib.c: the host writes commands and data, which wait in one ring
  buffer and are handled by the protocol task; answers and scan codes wait in another ring buffer
  and are handed to the host byte by byte. Both ring buffers are those of the theory Queue. The
  statics are the fields of a record; calls of the LPC driver, the host events and the chipset are
  recorded in order. Output on the console is left out, and the statics keep the length of an
  array together with the array: \<open>resend_command\<close> and \<open>typematic_scan_code\<close> are the valid bytes.
  \<open>None\<close> is a failed assertion.
\<close>

section \<open>Constants and state\<close>

datatype port_state = STATE_NORMAL | STATE_SCANCODE | STATE_SETLEDS | STATE_EX_SETLEDS_1 | STATE_EX_SETLEDS_2
  | STATE_WRITE_CMD_BYTE | STATE_WRITE_OUTPUT_PORT | STATE_ECHO_MOUSE | STATE_SETREP | STATE_SEND_TO_MOUSE

abbreviation (input) SCANCODE_GET_SET :: byte where "SCANCODE_GET_SET \<equiv> 0"
abbreviation (input) SCANCODE_SET_1 :: byte where "SCANCODE_SET_1 \<equiv> 1"
abbreviation (input) SCANCODE_SET_2 :: byte where "SCANCODE_SET_2 \<equiv> 2"
abbreviation (input) MAX_SCAN_CODE_LEN :: nat where "MAX_SCAN_CODE_LEN \<equiv> 4"
abbreviation (input) KB_TO_HOST_RETRIES :: int where "KB_TO_HOST_RETRIES \<equiv> 3"
abbreviation (input) MAX_KBLOG :: nat where "MAX_KBLOG \<equiv> 512"
abbreviation (input) DEFAULT_TYPEMATIC_VALUE :: byte where "DEFAULT_TYPEMATIC_VALUE \<equiv> 0x2b"
abbreviation (input) HOST_COMMAND :: byte where "HOST_COMMAND \<equiv> 0"
abbreviation (input) HOST_DATA :: byte where "HOST_DATA \<equiv> 1"
abbreviation (input) I8042_RET_ACK :: byte where "I8042_RET_ACK \<equiv> 0xfa"
abbreviation (input) I8042_RET_NAK :: byte where "I8042_RET_NAK \<equiv> 0xfe"
abbreviation (input) I8042_RET_BAT :: byte where "I8042_RET_BAT \<equiv> 0xaa"

text \<open>The bits of the command byte.\<close>

abbreviation (input) I8042_XLATE :: byte where "I8042_XLATE \<equiv> 0x40"
abbreviation (input) I8042_AUX_DIS :: byte where "I8042_AUX_DIS \<equiv> 0x20"
abbreviation (input) I8042_KBD_DIS :: byte where "I8042_KBD_DIS \<equiv> 0x10"
abbreviation (input) I8042_ENIRQ1 :: byte where "I8042_ENIRQ1 \<equiv> 0x01"

abbreviation (input) EC_ERROR_UNIMPLEMENTED :: int where "EC_ERROR_UNIMPLEMENTED \<equiv> 2"
abbreviation (input) EC_ERROR_PARAM1 :: int where "EC_ERROR_PARAM1 \<equiv> 11"
abbreviation (input) EC_ERROR_PARAM_COUNT :: int where "EC_ERROR_PARAM_COUNT \<equiv> 20"

datatype kb_effect = ResumeIrq | ClearLpcBuffer | PutChar byte bool | KeyPressedEvent | ChipsetReset | WakeKeyproto

record kbd =
  data_port_state :: port_state
  to_host :: queue
  from_host :: queue
  i8042_irq_enabled :: bool
  keyboard_enabled :: bool
  keystroke_enabled :: bool
  resend_command :: "byte list"
  controller_ram_address :: byte
  controller_ram :: "byte list"
  A20_status :: bool
  scancode_set :: byte
  typematic_value_from_host :: byte
  typematic_first_delay :: int
  typematic_inter_delay :: int
  typematic_scan_code :: "byte list"
  typematic_deadline :: u64
  kblog :: "(char \<times> byte) list option"
  kb_calls :: "kb_effect list"

definition kb_call :: "kb_effect \<Rightarrow> kbd \<Rightarrow> kbd" where
  "kb_call c s = s\<lparr>kb_calls := kb_calls s @ [c]\<rparr>"

definition kblog_put :: "char \<Rightarrow> byte \<Rightarrow> kbd \<Rightarrow> kbd" where
  "kblog_put type b s =
     (case kblog s of
        None \<Rightarrow> s
      | Some l \<Rightarrow> if length l < MAX_KBLOG then s\<lparr>kblog := Some (l @ [(type, b)])\<rparr> else s)"

text \<open>The values the statics start with; the ring buffers hold 16 bytes and 8 pairs.\<close>

definition queue_null :: "u32 \<Rightarrow> u32 \<Rightarrow> queue" where
  "queue_null units bytes = \<lparr>q_head = 0, q_tail = 0, buffer_units = units, unit_bytes = bytes,
     buffer = replicate (unat units * unat bytes) 0, policy_log = []\<rparr>"

definition kbd_initial :: kbd where
  "kbd_initial = \<lparr>data_port_state = STATE_NORMAL, to_host = queue_null 16 1, from_host = queue_null 8 2,
     i8042_irq_enabled = False, keyboard_enabled = False, keystroke_enabled = False, resend_command = [],
     controller_ram_address = 0, controller_ram = (I8042_XLATE OR I8042_AUX_DIS OR I8042_KBD_DIS) # replicate 31 0,
     A20_status = False, scancode_set = SCANCODE_SET_2, typematic_value_from_host = 0, typematic_first_delay = 0,
     typematic_inter_delay = 0, typematic_scan_code = [], typematic_deadline = 0, kblog = None, kb_calls = []\<rparr>"

section \<open>Towards the host\<close>

definition keyboard_host_write :: "byte \<Rightarrow> bool \<Rightarrow> kbd \<Rightarrow> kbd" where
  "keyboard_host_write data is_cmd s =
     kb_call WakeKeyproto
       (s\<lparr>from_host := snd (queue_add_unit (from_host s) [if is_cmd then HOST_COMMAND else HOST_DATA, data])\<rparr>)"

definition keyboard_enable_irq :: "bool \<Rightarrow> kbd \<Rightarrow> kbd" where
  "keyboard_enable_irq enable s =
     (let s = s\<lparr>i8042_irq_enabled := enable\<rparr> in if enable then kb_call ResumeIrq s else s)"

definition i8042_send_to_host :: "byte list \<Rightarrow> kbd \<Rightarrow> kbd" where
  "i8042_send_to_host bytes s =
     (let s = fold (kblog_put (CHR ''s'')) bytes s;
          s = (if queue_space (to_host s) \<ge> word_of_nat (length bytes)
               then (let s = kblog_put (CHR ''t'') (ucast (q_tail (to_host s))) s
                     in s\<lparr>to_host := snd (queue_add_units (to_host s) bytes (word_of_nat (length bytes)))\<rparr>)
               else s)
      in kb_call WakeKeyproto s)"

section \<open>Scan codes\<close>

text \<open>The matrix of a keyboard without keypad, by column and row.\<close>

definition scancode_set2 :: "u16 list list" where
  "scancode_set2 =
   [[0x0000, 0x0000, 0x0014, 0xe01f, 0xe014, 0xe007, 0x0000, 0x0000],
    [0xe01f, 0x0076, 0x000d, 0x000e, 0x001c, 0x001a, 0x0016, 0x0015],
    [0x0005, 0x000c, 0x0004, 0x0006, 0x0023, 0x0021, 0x0026, 0x0024],
    [0x0032, 0x0034, 0x002c, 0x002e, 0x002b, 0x002a, 0x0025, 0x002d],
    [0x0009, 0x0083, 0x000b, 0x0003, 0x001b, 0x0022, 0x001e, 0x001d],
    [0x0051, 0x0000, 0x005b, 0x0000, 0x0042, 0x0041, 0x003e, 0x0043],
    [0x0031, 0x0033, 0x0035, 0x0036, 0x003b, 0x003a, 0x003d, 0x003c],
    [0x0000, 0x0000, 0x0061, 0x0000, 0x0000, 0x0012, 0x0000, 0x0059],
    [0x0055, 0x0052, 0x0054, 0x004e, 0x004c, 0x004a, 0x0045, 0x004d],
    [0x0000, 0x0001, 0x000a, 0x002f, 0x004b, 0x0049, 0x0046, 0x0044],
    [0xe011, 0x0000, 0x006a, 0x0000, 0x005d, 0x0000, 0x0011, 0x0000],
    [0x0000, 0x0066, 0x0000, 0x005d, 0x005a, 0x0029, 0xe072, 0xe075],
    [0x0000, 0x0064, 0x0000, 0x0067, 0x0000, 0x0000, 0xe074, 0xe06b]]"

definition scancode_translate_table :: "byte list" where
  "scancode_translate_table =
   [0xff, 0x43, 0x41, 0x3f, 0x3d, 0x3b, 0x3c, 0x58,
    0x64, 0x44, 0x42, 0x40, 0x3e, 0x0f, 0x29, 0x59,
    0x65, 0x38, 0x2a, 0x70, 0x1d, 0x10, 0x02, 0x5a,
    0x66, 0x71, 0x2c, 0x1f, 0x1e, 0x11, 0x03, 0x5b,
    0x67, 0x2e, 0x2d, 0x20, 0x12, 0x05, 0x04, 0x5c,
    0x68, 0x39, 0x2f, 0x21, 0x14, 0x13, 0x06, 0x5d,
    0x69, 0x31, 0x30, 0x23, 0x22, 0x15, 0x07, 0x5e,
    0x6a, 0x72, 0x32, 0x24, 0x16, 0x08, 0x09, 0x5f,
    0x6b, 0x33, 0x25, 0x17, 0x18, 0x0b, 0x0a, 0x60,
    0x6c, 0x34, 0x35, 0x26, 0x27, 0x19, 0x0c, 0x61,
    0x6d, 0x73, 0x28, 0x74, 0x1a, 0x0d, 0x62, 0x6e,
    0x3a, 0x36, 0x1c, 0x1b, 0x75, 0x2b, 0x63, 0x76,
    0x55, 0x56, 0x77, 0x78, 0x79, 0x7a, 0x0e, 0x7b,
    0x7c, 0x4f, 0x7d, 0x4b, 0x47, 0x7e, 0x7f, 0x6f,
    0x52, 0x53, 0x50, 0x4c, 0x4d, 0x48, 0x01, 0x45,
    0x57, 0x4e, 0x51, 0x4a, 0x37, 0x49, 0x46, 0x54]"

definition scancode_translate_set2_to_1 :: "byte \<Rightarrow> byte" where
  "scancode_translate_set2_to_1 code =
     (if code AND 0x80 \<noteq> 0 then (if code = 0x83 then 0x41 else code) else scancode_translate_table ! unat code)"

definition acting_code_set :: "byte \<Rightarrow> kbd \<Rightarrow> byte" where
  "acting_code_set code_set s = (if controller_ram s ! 0 AND I8042_XLATE \<noteq> 0 then SCANCODE_SET_1 else code_set)"

definition is_supported_code_set :: "byte \<Rightarrow> bool" where
  "is_supported_code_set code_set \<longleftrightarrow> code_set = SCANCODE_SET_1 \<or> code_set = SCANCODE_SET_2"

definition scancode_bytes :: "u16 \<Rightarrow> bool \<Rightarrow> byte \<Rightarrow> byte list" where
  "scancode_bytes make_code pressed code_set =
     (let prefix = (if make_code \<ge> 0x0100 then [ucast (drop_bit 8 make_code)] else []);
          make_code = (if make_code \<ge> 0x0100 then make_code AND 0xff else make_code)
      in prefix @
         (if code_set = SCANCODE_SET_1
          then (let code = scancode_translate_set2_to_1 (ucast make_code) in [if pressed then code else code OR 0x80])
          else if code_set = SCANCODE_SET_2 then (if pressed then [ucast make_code] else [0xf0, ucast make_code])
          else []))"

text \<open>
  The keyboard and its callback: the number of columns (rows and columns are counted from 0 by all
  callers, so that the signed bytes of the code are numbers from 0 to 127 here), and \<open>keyboard_scancode_callback\<close> when the
  board has one, from the code and whether the key is pressed to an error or a new code.
\<close>

record kb_board =
  keyboard_cols :: nat
  scancode_callback :: "(u16 \<Rightarrow> bool \<Rightarrow> int \<times> u16) option"

definition matrix_callback :: "kb_board \<Rightarrow> nat \<Rightarrow> nat \<Rightarrow> bool \<Rightarrow> byte \<Rightarrow> kbd \<Rightarrow> int + byte list" where
  "matrix_callback board row col pressed code_set s =
     (if row \<ge> 8 \<or> col \<ge> keyboard_cols board then Inl EC_ERROR_INVAL
      else
        let make_code = scancode_set2 ! col ! row;
            (r, make_code) = (case scancode_callback board of None \<Rightarrow> (EC_SUCCESS, make_code) | Some f \<Rightarrow> f make_code pressed);
            code_set = acting_code_set code_set s
        in if r \<noteq> EC_SUCCESS then Inl r
           else if \<not> is_supported_code_set code_set then Inl EC_ERROR_UNIMPLEMENTED
           else if make_code = 0 then Inl EC_ERROR_UNIMPLEMENTED
           else Inr (scancode_bytes make_code pressed code_set))"

definition set_typematic_delays :: "byte \<Rightarrow> kbd \<Rightarrow> kbd" where
  "set_typematic_delays data s =
     s\<lparr>typematic_value_from_host := data,
       typematic_first_delay := 1000 * (uint (drop_bit 5 (data AND 0x60)) + 1) * 250,
       typematic_inter_delay := 1000000 * 2 ^ unat (drop_bit 3 (data AND 0x18)) * (uint (data AND 7) + 8) div 240\<rparr>"

definition reset_rate_and_delay :: "kbd \<Rightarrow> kbd" where
  "reset_rate_and_delay s = set_typematic_delays DEFAULT_TYPEMATIC_VALUE s"

definition keyboard_clear_buffer :: "kbd \<Rightarrow> kbd option" where
  "keyboard_clear_buffer s = map_option (\<lambda>q. kb_call ClearLpcBuffer (s\<lparr>to_host := q\<rparr>)) (queue_init (to_host s))"

definition keyboard_wakeup :: "kbd \<Rightarrow> kbd" where
  "keyboard_wakeup s = kb_call KeyPressedEvent s"

definition set_typematic_key :: "u64 \<Rightarrow> byte list \<Rightarrow> kbd \<Rightarrow> kbd" where
  "set_typematic_key now_val scan_code s =
     s\<lparr>typematic_deadline := now_val + word_of_int (typematic_first_delay s), typematic_scan_code := scan_code\<rparr>"

definition clear_typematic_key :: "kbd \<Rightarrow> kbd" where
  "clear_typematic_key s = s\<lparr>typematic_scan_code := []\<rparr>"

definition keyboard_state_changed :: "kb_board \<Rightarrow> u64 \<Rightarrow> nat \<Rightarrow> nat \<Rightarrow> bool \<Rightarrow> kbd \<Rightarrow> kbd option" where
  "keyboard_state_changed board now_val row col is_pressed s =
     (let ret = matrix_callback board row col is_pressed (scancode_set s) s;
          scan_code = (case ret of Inl _ \<Rightarrow> [] | Inr bytes \<Rightarrow> bytes)
      in if ret = Inr [] then None
         else
           let s = (if scan_code \<noteq> [] \<and> keystroke_enabled s then i8042_send_to_host scan_code s else s)
           in Some (if is_pressed
                    then kb_call WakeKeyproto (set_typematic_key now_val scan_code (keyboard_wakeup s))
                    else clear_typematic_key s))"

section \<open>The controller's memory\<close>

definition keystroke_enable :: "bool \<Rightarrow> kbd \<Rightarrow> kbd" where
  "keystroke_enable enable s = s\<lparr>keystroke_enabled := enable\<rparr>"

definition keyboard_enable :: "bool \<Rightarrow> kbd \<Rightarrow> kbd" where
  "keyboard_enable enable s = s\<lparr>keyboard_enabled := enable\<rparr>"

definition read_ctl_ram :: "byte \<Rightarrow> kbd \<Rightarrow> byte" where
  "read_ctl_ram addr s = (if unat addr < length (controller_ram s) then controller_ram s ! unat addr else 0)"

definition update_ctl_ram :: "byte \<Rightarrow> byte \<Rightarrow> kbd \<Rightarrow> kbd" where
  "update_ctl_ram addr data s =
     (if unat addr \<ge> length (controller_ram s) then s
      else
        let orig = controller_ram s ! unat addr;
            s = s\<lparr>controller_ram := (controller_ram s)[unat addr := data]\<rparr>
        in if addr \<noteq> 0 then s
           else
             let s = (if orig AND I8042_ENIRQ1 = 0 \<and> data AND I8042_ENIRQ1 \<noteq> 0 then keyboard_enable_irq True s else s);
                 s = keyboard_enable (data AND I8042_KBD_DIS = 0) s
             in if orig AND I8042_ENIRQ1 \<noteq> 0 \<and> data AND I8042_ENIRQ1 = 0 then keyboard_enable_irq False s else s)"

section \<open>From the host\<close>

text \<open>A data byte that completes a command, by the state the command left.\<close>

definition port_data :: "byte \<Rightarrow> kbd \<Rightarrow> byte list \<times> kbd" where
  "port_data data s =
     (case data_port_state s of
        STATE_SCANCODE \<Rightarrow>
          (if data = SCANCODE_GET_SET then ([I8042_RET_ACK, scancode_set s], s\<lparr>data_port_state := STATE_NORMAL\<rparr>)
           else ([I8042_RET_ACK], s\<lparr>scancode_set := data, data_port_state := STATE_NORMAL\<rparr>))
      | STATE_SETLEDS \<Rightarrow> ([I8042_RET_ACK], s\<lparr>data_port_state := STATE_NORMAL\<rparr>)
      | STATE_EX_SETLEDS_1 \<Rightarrow> ([I8042_RET_ACK], s\<lparr>data_port_state := STATE_EX_SETLEDS_2\<rparr>)
      | STATE_EX_SETLEDS_2 \<Rightarrow> ([I8042_RET_ACK], s\<lparr>data_port_state := STATE_NORMAL\<rparr>)
      | STATE_WRITE_CMD_BYTE \<Rightarrow> ([], (update_ctl_ram (controller_ram_address s) data s)\<lparr>data_port_state := STATE_NORMAL\<rparr>)
      | STATE_WRITE_OUTPUT_PORT \<Rightarrow> ([], s\<lparr>A20_status := data AND 2 \<noteq> 0, data_port_state := STATE_NORMAL\<rparr>)
      | STATE_ECHO_MOUSE \<Rightarrow> ([data], s\<lparr>data_port_state := STATE_NORMAL\<rparr>)
      | STATE_SETREP \<Rightarrow> ([I8042_RET_ACK], (set_typematic_delays data s)\<lparr>data_port_state := STATE_NORMAL\<rparr>)
      | STATE_SEND_TO_MOUSE \<Rightarrow> ([], s\<lparr>data_port_state := STATE_NORMAL\<rparr>)
      | STATE_NORMAL \<Rightarrow> ([], s))"

text \<open>A data byte that is a command to the keyboard.\<close>

definition normal_data :: "byte \<Rightarrow> kbd \<Rightarrow> (byte list \<times> kbd) option" where
  "normal_data data s =
     (if data = 0xf0 then Some ([I8042_RET_ACK], s\<lparr>data_port_state := STATE_SCANCODE\<rparr>)
      else if data = 0xed then Some ([I8042_RET_ACK], s\<lparr>data_port_state := STATE_SETLEDS\<rparr>)
      else if data = 0xeb then Some ([I8042_RET_ACK], s\<lparr>data_port_state := STATE_EX_SETLEDS_1\<rparr>)
      else if data = 0xee then Some ([I8042_RET_ACK, 0xee], s)
      else if data = 0xf2 \<or> data = 0xe8 then Some ([I8042_RET_ACK, 0xab, 0x83], s)
      else if data = 0xf3 then Some ([I8042_RET_ACK], s\<lparr>data_port_state := STATE_SETREP\<rparr>)
      else if data = 0xf4 then map_option (Pair [I8042_RET_ACK]) (keyboard_clear_buffer (keystroke_enable True s))
      else if data = 0xf5
      then map_option (Pair [I8042_RET_ACK]) (keyboard_clear_buffer (reset_rate_and_delay (keystroke_enable False s)))
      else if data = 0xf6 then map_option (Pair [I8042_RET_ACK]) (keyboard_clear_buffer (reset_rate_and_delay s))
      else if data = 0xff
      then map_option (Pair [I8042_RET_ACK, I8042_RET_BAT, I8042_RET_BAT]) (keyboard_clear_buffer (reset_rate_and_delay s))
      else if data = 0xfe then Some (resend_command s, s)
      else if data = 0x60 \<or> data = 0x45 then Some ([], s)
      else Some ([I8042_RET_NAK], s))"

definition handle_keyboard_data :: "byte \<Rightarrow> kbd \<Rightarrow> (byte list \<times> kbd) option" where
  "handle_keyboard_data data s =
     (let s = kblog_put (CHR ''d'') data s;
          save_for_resend = (data_port_state s \<noteq> STATE_NORMAL \<or> data \<noteq> 0xfe)
      in case (if data_port_state s = STATE_NORMAL then normal_data data s else Some (port_data data s)) of
           None \<Rightarrow> None
         | Some (output, s) \<Rightarrow>
             if length output > MAX_SCAN_CODE_LEN then None
             else Some (output, if output \<noteq> [] \<and> save_for_resend then s\<lparr>resend_command := output\<rparr> else s))"

text \<open>What the LPC driver answers while a command is handled.\<close>

record lpc =
  lpc_input_pending :: bool
  lpc_has_char :: bool

definition output_port :: "lpc \<Rightarrow> kbd \<Rightarrow> byte" where
  "output_port lpc s =
     (if lpc_input_pending lpc then 0x20 else 0) OR (if lpc_has_char lpc then 0x10 else 0) OR (if A20_status s then 2 else 0) OR 1"

definition other_command :: "byte \<Rightarrow> kbd \<Rightarrow> (byte list \<times> kbd) option" where
  "other_command command s =
     (if 0x21 \<le> command \<and> command \<le> 0x3f then Some ([read_ctl_ram (command - 0x20) s], s)
      else if 0x61 \<le> command \<and> command \<le> 0x7f
      then Some ([], s\<lparr>data_port_state := STATE_WRITE_CMD_BYTE, controller_ram_address := command - 0x60\<rparr>)
      else if command = 0xdd then Some ([], s\<lparr>A20_status := False\<rparr>)
      else if command = 0xdf then Some ([], s\<lparr>A20_status := True\<rparr>)
      else if 0xf0 \<le> command then Some ([], s\<lparr>A20_status := command AND 2 \<noteq> 0\<rparr>)
      else map_option (\<lambda>s. ([I8042_RET_NAK], s\<lparr>data_port_state := STATE_NORMAL\<rparr>))
             (keyboard_clear_buffer (reset_rate_and_delay s)))"

definition handle_keyboard_command :: "lpc \<Rightarrow> byte \<Rightarrow> kbd \<Rightarrow> (byte list \<times> kbd) option" where
  "handle_keyboard_command lpc command s =
     (let s = kblog_put (CHR ''c'') command s
      in if command = 0x20 then map_option (\<lambda>s. ([read_ctl_ram 0 s], s)) (keyboard_clear_buffer s)
         else if command = 0x60
         then Some ([], s\<lparr>data_port_state := STATE_WRITE_CMD_BYTE, controller_ram_address := command - 0x60\<rparr>)
         else if command = 0xad
         then map_option (Pair []) (keyboard_clear_buffer
                (clear_typematic_key (reset_rate_and_delay (update_ctl_ram 0 (read_ctl_ram 0 s OR I8042_KBD_DIS) s))))
         else if command = 0xae
         then map_option (Pair []) (keyboard_clear_buffer
                (keystroke_enable True (update_ctl_ram 0 (read_ctl_ram 0 s AND NOT I8042_KBD_DIS) s)))
         else if command = 0xd0 then Some ([output_port lpc s], s)
         else if command = 0xd1 then Some ([], s\<lparr>data_port_state := STATE_WRITE_OUTPUT_PORT\<rparr>)
         else if command = 0xaa then Some ([0x55], s)
         else if command = 0xab then Some ([0], s)
         else if command = 0xa7 then Some ([], update_ctl_ram 0 (read_ctl_ram 0 s OR I8042_AUX_DIS) s)
         else if command = 0xa8 then Some ([], update_ctl_ram 0 (read_ctl_ram 0 s AND NOT I8042_AUX_DIS) s)
         else if command = 0xa9 then Some ([0], s)
         else if command = 0xd3 then Some ([], s\<lparr>data_port_state := STATE_ECHO_MOUSE\<rparr>)
         else if command = 0xd4 then Some ([], s\<lparr>data_port_state := STATE_SEND_TO_MOUSE\<rparr>)
         else if command = 0xfe then Some ([], kb_call ChipsetReset s)
         else other_command command s)"

definition handle_host_byte :: "lpc \<Rightarrow> byte list \<Rightarrow> kbd \<Rightarrow> kbd option" where
  "handle_host_byte lpc h s =
     map_option (\<lambda>(output, s). i8042_send_to_host output s)
       (if h ! 0 = HOST_COMMAND then handle_keyboard_command lpc (h ! 1) s else handle_keyboard_data (h ! 1) s)"

text \<open>The loop that empties the ring buffer.\<close>

partial_function (option) i8042_handle_from_host :: "lpc \<Rightarrow> kbd \<Rightarrow> kbd option" where
  "i8042_handle_from_host lpc s =
     (let (n, h, q) = queue_remove_unit (from_host s) [0, 0]
      in if n = 0 then Some s
         else Option.bind (handle_host_byte lpc h (s\<lparr>from_host := q\<rparr>)) (i8042_handle_from_host lpc))"

section \<open>The task\<close>

text \<open>
  One turn of the inner loop: the clock reads \<open>t\<close>, and \<open>busy\<close> says whether the host has not yet
  taken the last byte. The locals are carried along; the result says whether the loop goes on.
\<close>

definition typematic_turn :: "u64 \<Rightarrow> kbd \<Rightarrow> int \<times> kbd" where
  "typematic_turn t s =
     (if typematic_scan_code s = [] then (-1, s)
      else if timestamp_expired (typematic_deadline s) t
      then (let s = (if keystroke_enabled s then i8042_send_to_host (typematic_scan_code s) s else s)
            in (typematic_inter_delay s, s\<lparr>typematic_deadline := t + word_of_int (typematic_inter_delay s)\<rparr>))
      else (s32 (uint (typematic_deadline s - t)), s))"

definition protocol_turn :: "u64 \<Rightarrow> lpc \<Rightarrow> bool \<Rightarrow> int \<Rightarrow> kbd \<Rightarrow> (bool \<times> int \<times> int \<times> kbd) option" where
  "protocol_turn t lpc busy retries s =
     (let (wait, s) = typematic_turn t s
      in case i8042_handle_from_host lpc s of
           None \<Rightarrow> None
         | Some s \<Rightarrow>
             Some (if queue_is_empty (to_host s) then (False, wait, retries, s)
                   else if busy
                   then (if \<not> i8042_irq_enabled s then (False, wait, retries, s)
                         else if retries + 1 < KB_TO_HOST_RETRIES then (False, wait, retries + 1, s)
                         else (False, wait, 0, kb_call ResumeIrq s))
                   else
                     let s = kblog_put (CHR ''k'') (ucast (q_head (to_host s))) s;
                         (_, chr, q) = queue_remove_unit (to_host s) [0];
                         s = kblog_put (CHR ''K'') (hd chr) (s\<lparr>to_host := q\<rparr>)
                     in (True, wait, 0, kb_call (PutChar (hd chr) (i8042_irq_enabled s)) s)))"

text \<open>The turns after a wake-up, one for each reading; \<open>None\<close> when the loop is not over by then.\<close>

fun protocol_turns :: "(u64 \<times> lpc \<times> bool) list \<Rightarrow> int \<Rightarrow> kbd \<Rightarrow> (int \<times> int \<times> kbd) option" where
  "protocol_turns [] retries s = None"
| "protocol_turns ((t, lpc, busy) # rest) retries s =
     (case protocol_turn t lpc busy retries s of
        None \<Rightarrow> None
      | Some (goes_on, wait, retries, s) \<Rightarrow> if goes_on then protocol_turns rest retries s else Some (wait, retries, s))"

section \<open>Buttons, sysjump and console\<close>

definition buttons_8042 :: "(u16 \<times> bool) list" where
  "buttons_8042 = [(0xe037, False), (0xe021, True), (0xe032, True), (0x0016, True), (0x001e, True), (0x0026, True),
     (0x0025, True), (0x002e, True), (0x0036, True), (0x003d, True), (0x003e, True), (0, False)]"

datatype keyboard_button_type = KEYBOARD_BUTTON_POWER | KEYBOARD_BUTTON_VOLUME_DOWN | KEYBOARD_BUTTON_VOLUME_UP
  | KEYBOARD_BUTTON_RECOVERY | KEYBOARD_BUTTON_CAPSENSE nat

definition button_index :: "keyboard_button_type \<Rightarrow> nat" where
  "button_index b = (case b of KEYBOARD_BUTTON_POWER \<Rightarrow> 0 | KEYBOARD_BUTTON_VOLUME_DOWN \<Rightarrow> 1 | KEYBOARD_BUTTON_VOLUME_UP \<Rightarrow> 2
     | KEYBOARD_BUTTON_RECOVERY \<Rightarrow> 3 | KEYBOARD_BUTTON_CAPSENSE n \<Rightarrow> 3 + n)"

definition keyboard_update_button :: "bool \<Rightarrow> u64 \<Rightarrow> keyboard_button_type \<Rightarrow> bool \<Rightarrow> kbd \<Rightarrow> kbd option" where
  "keyboard_update_button chipset_on now_val button is_pressed s =
     (let code_set = acting_code_set (scancode_set s) s;
          (code, repeat) = buttons_8042 ! button_index button;
          scan_code = scancode_bytes code is_pressed code_set
      in if \<not> chipset_on \<or> \<not> keystroke_enabled s then Some s
         else if \<not> is_supported_code_set code_set then Some s
         else if scan_code = [] then None
         else
           let s = (if repeat then (if is_pressed then set_typematic_key now_val scan_code s else clear_typematic_key s) else s)
           in Some (kb_call WakeKeyproto (i8042_send_to_host scan_code s)))"

text \<open>The jump tag: its version, and the three bytes of \<open>struct kb_state\<close>.\<close>

definition keyboard_preserve_state :: "kbd \<Rightarrow> int \<times> byte list" where
  "keyboard_preserve_state s = (2, [scancode_set s, controller_ram s ! 0, if keystroke_enabled s then 1 else 0])"

definition keyboard_restore_state :: "(int \<times> byte list) option \<Rightarrow> kbd \<Rightarrow> kbd" where
  "keyboard_restore_state tag s =
     (case tag of
        None \<Rightarrow> s
      | Some (version, prev) \<Rightarrow>
          if version = 2 \<and> length prev = 3
          then (update_ctl_ram 0 (prev ! 1) (s\<lparr>scancode_set := prev ! 0\<rparr>))\<lparr>keystroke_enabled := prev ! 2 \<noteq> 0\<rparr>
          else s)"

definition command_typematic :: "cstr list \<Rightarrow> kbd \<Rightarrow> int \<times> kbd" where
  "command_typematic argv s =
     (EC_SUCCESS,
      if length argv = 3
      then s\<lparr>typematic_first_delay := s32 (fst (strtoi (argv ! 1) 0) * 1000),
             typematic_inter_delay := s32 (fst (strtoi (argv ! 2) 0) * 1000)\<rparr>
      else s)"

definition command_codeset :: "cstr list \<Rightarrow> kbd \<Rightarrow> int \<times> kbd" where
  "command_codeset argv s =
     (if length argv = 2
      then (let code_set = fst (strtoi (argv ! 1) 0)
            in if code_set = 1 \<or> code_set = 2 then (EC_SUCCESS, s\<lparr>scancode_set := word_of_int code_set\<rparr>) else (EC_ERROR_PARAM1, s))
      else (EC_SUCCESS, s))"

definition command_controller_ram :: "cstr list \<Rightarrow> kbd \<Rightarrow> int \<times> kbd" where
  "command_controller_ram argv s =
     (if length argv < 2 then (EC_ERROR_PARAM_COUNT, s)
      else
        let index = fst (strtoi (argv ! 1) 0)
        in if unat (word_of_int index :: u32) \<ge> length (controller_ram s) then (EC_ERROR_PARAM1, s)
           else (EC_SUCCESS,
                 if length argv \<ge> 3 then update_ctl_ram (word_of_int index) (word_of_int (fst (strtoi (argv ! 2) 0))) s else s))"

text \<open>\<open>acquire\<close> is the result of the shared-memory allocation for the log.\<close>

definition command_keyboard_log :: "int \<Rightarrow> cstr list \<Rightarrow> kbd \<Rightarrow> int \<times> kbd" where
  "command_keyboard_log acquire argv s =
     (if length argv = 1 then (EC_SUCCESS, s)
      else case parse_bool (argv ! 1) of
             None \<Rightarrow> (EC_ERROR_PARAM1, s)
           | Some True \<Rightarrow>
               (case kblog s of
                  None \<Rightarrow> (acquire, if acquire = EC_SUCCESS then s\<lparr>kblog := Some []\<rparr> else s)
                | Some _ \<Rightarrow> (EC_SUCCESS, s))
           | Some False \<Rightarrow> (EC_SUCCESS, s\<lparr>kblog := None\<rparr>))"

definition command_keyboard :: "cstr list \<Rightarrow> kbd \<Rightarrow> int \<times> kbd" where
  "command_keyboard argv s =
     (if length argv > 1
      then (case parse_bool (argv ! 1) of None \<Rightarrow> (EC_ERROR_PARAM1, s) | Some ena \<Rightarrow> (EC_SUCCESS, keyboard_enable ena s))
      else (EC_SUCCESS, s))"

section \<open>The ring buffers\<close>

definition byte_queue :: "queue \<Rightarrow> bool" where
  "byte_queue q \<longleftrightarrow> queue_inv q \<and> unit_bytes q = 1 \<and> buffer_units q = 16"

definition pair_queue :: "queue \<Rightarrow> bool" where
  "pair_queue q \<longleftrightarrow> queue_inv q \<and> unit_bytes q = 2 \<and> buffer_units q = 8"

definition queued_bytes :: "queue \<Rightarrow> byte list" where
  "queued_bytes q = concat (queue_units q)"

text \<open>The bytes that wait for the host.\<close>

definition pending_out :: "kbd \<Rightarrow> byte list" where
  "pending_out s = queued_bytes (to_host s)"

lemma concat_singletons: "list_all (\<lambda>u. length u = 1) us \<Longrightarrow> map (\<lambda>b. [b]) (concat us) = us"
  by (induction us) (auto simp: length_Suc_conv)

lemma byte_queue_units:
  assumes "byte_queue q"
  shows "queue_units q = map (\<lambda>b. [b]) (queued_bytes q)" "length (queued_bytes q) = unat (queue_count q)"
    "length (queued_bytes q) \<le> 16" "unat (queue_space q) = 16 - length (queued_bytes q)"
proof -
  have inv: "queue_inv q" "unit_bytes q = 1" "buffer_units q = 16" using assms by (simp_all add: byte_queue_def)
  show u: "queue_units q = map (\<lambda>b. [b]) (queued_bytes q)"
    using concat_singletons [of "queue_units q"] queue_units_length [OF inv(1)] inv(2) by (simp add: queued_bytes_def)
  from arg_cong [OF u, of length] show "length (queued_bytes q) = unat (queue_count q)" by simp
  with queue_inv_facts(6,7) [OF inv(1)] inv(3)
  show "length (queued_bytes q) \<le> 16" "unat (queue_space q) = 16 - length (queued_bytes q)" by simp_all
qed

lemma byte_queue_add:
  assumes "byte_queue q" "length bytes \<le> unat (queue_space q)"
  shows "byte_queue (snd (queue_add_units q bytes (word_of_nat (length bytes))))
    \<and> queued_bytes (snd (queue_add_units q bytes (word_of_nat (length bytes)))) = queued_bytes q @ bytes"
proof -
  have inv: "queue_inv q" "unit_bytes q = 1" "buffer_units q = 16" using assms by (simp_all add: byte_queue_def)
  have "length bytes \<le> 16" using assms(2) byte_queue_units(4) [OF assms(1)] by simp
  then have n: "unat (word_of_nat (length bytes) :: u32) = length bytes" by (simp add: unat_of_nat)
  then have m: "min (word_of_nat (length bytes)) (queue_space q) = word_of_nat (length bytes)"
    using assms(2) by (simp add: min_def word_le_nat_alt)
  obtain k q' where r: "queue_add_memcpy q bytes (word_of_nat (length bytes)) write_at = (k, q')" by fastforce
  have "units_of 1 bytes (length bytes) = map (\<lambda>b. [b]) bytes"
    by (rule nth_equalityI) (simp_all add: units_of_def slot_def read_at_def take_Suc_conv_app_nth take_drop hd_drop_conv_nth)
  with queue_add_memcpy_refines [OF inv(1) refl _ r] inv n m
  show ?thesis by (simp add: queue_add_units_def r byte_queue_def queued_bytes_def)
qed

lemma byte_queue_remove:
  assumes "byte_queue q" "queued_bytes q = b # bs"
  shows "\<exists>q'. queue_remove_unit q [x] = (1, [b], q') \<and> byte_queue q' \<and> queued_bytes q' = bs"
proof -
  obtain n u q' where r: "queue_remove_unit q [x] = (n, u, q')" by (metis prod_cases3)
  have inv: "queue_inv q" "unit_bytes q = 1" using assms by (simp_all add: byte_queue_def)
  have units: "queue_units q = [b] # map (\<lambda>b. [b]) bs" using byte_queue_units(1) [OF assms(1)] assms(2) by simp
  have "byte_queue q'" "n = 1" "u = [b]" "queue_units q' = map (\<lambda>b. [b]) bs"
    using queue_remove_unit_refines [OF inv(1) _ r] inv(2) units assms(1) by (simp_all add: byte_queue_def)
  moreover from this(4) have "queued_bytes q' = bs" by (simp add: queued_bytes_def)
  ultimately show ?thesis by (simp add: r)
qed

lemma byte_queue_empty: "byte_queue q \<Longrightarrow> queue_is_empty q \<longleftrightarrow> queued_bytes q = []"
proof -
  assume "byte_queue q"
  from byte_queue_units(2) [OF this] have "queued_bytes q = [] \<longleftrightarrow> q_tail q - q_head q = 0"
    by (simp add: queue_count_def unat_eq_0 flip: length_0_conv)
  then show ?thesis by (auto simp: queue_is_empty_def)
qed

section \<open>What the operations leave alone\<close>

text \<open>Logging changes the log only; sending changes the ring buffer, the log and the calls.\<close>

lemma kblog_put_only: "\<exists>l. kblog_put c b s = s\<lparr>kblog := l\<rparr>"
  by (auto simp: kblog_put_def split: option.split intro: exI [of _ "kblog s"])

lemma kblog_puts_only: "\<exists>l. fold (kblog_put c) bs s = s\<lparr>kblog := l\<rparr>"
proof (induction bs arbitrary: s)
  case Nil
  show ?case by (auto intro: exI [of _ "kblog s"])
next
  case (Cons b bs)
  obtain l where "kblog_put c b s = s\<lparr>kblog := l\<rparr>" using kblog_put_only by blast
  with Cons [of "s\<lparr>kblog := l\<rparr>"] show ?case by auto
qed

lemma send_spec:
  assumes "byte_queue (to_host s)" "length bytes \<le> 16"
  shows "\<exists>l q. i8042_send_to_host bytes s = s\<lparr>kblog := l, to_host := q, kb_calls := kb_calls s @ [WakeKeyproto]\<rparr>
    \<and> byte_queue q
    \<and> queued_bytes q = queued_bytes (to_host s) @ (if length (queued_bytes (to_host s)) + length bytes \<le> 16 then bytes else [])"
proof -
  obtain l where l: "fold (kblog_put (CHR ''s'')) bytes s = s\<lparr>kblog := l\<rparr>" using kblog_puts_only by blast
  obtain l' where l': "kblog_put (CHR ''t'') (ucast (q_tail (to_host s))) (s\<lparr>kblog := l\<rparr>) = s\<lparr>kblog := l'\<rparr>"
    using kblog_put_only [of "CHR ''t''" "ucast (q_tail (to_host s))" "s\<lparr>kblog := l\<rparr>"] by auto
  have n: "unat (word_of_nat (length bytes) :: u32) = length bytes" using assms(2) by (simp add: unat_of_nat)
  have fits: "word_of_nat (length bytes) \<le> queue_space (to_host s) \<longleftrightarrow> length (queued_bytes (to_host s)) + length bytes \<le> 16"
    using byte_queue_units(3,4) [OF assms(1)] by (auto simp: word_le_nat_alt n)
  show ?thesis
  proof (cases "length (queued_bytes (to_host s)) + length bytes \<le> 16")
    case True
    then have "length bytes \<le> unat (queue_space (to_host s))" using byte_queue_units(4) [OF assms(1)] by simp
    from byte_queue_add [OF assms(1) this] show ?thesis using True fits
      by (intro exI [of _ l'] exI [of _ "snd (queue_add_units (to_host s) bytes (word_of_nat (length bytes)))"])
        (simp add: i8042_send_to_host_def Let_def l l' kb_call_def)
  next
    case False
    then show ?thesis using fits assms(1)
      by (intro exI [of _ l] exI [of _ "to_host s"]) (simp add: i8042_send_to_host_def Let_def l kb_call_def)
  qed
qed

lemma clear_spec:
  assumes "byte_queue (to_host s)"
  shows "\<exists>q. keyboard_clear_buffer s = Some (s\<lparr>to_host := q, kb_calls := kb_calls s @ [ClearLpcBuffer]\<rparr>)
    \<and> byte_queue q \<and> queued_bytes q = []"
  using queue_init_refines [of "to_host s"] assms
  by (auto simp: keyboard_clear_buffer_def kb_call_def byte_queue_def queued_bytes_def)

section \<open>The invariant\<close>

text \<open>
  The ring buffers are well formed, the arrays keep their size, what is kept for resending and
  repeating fits its array, and interrupts are enabled as the command byte says.
\<close>

definition kb_inv :: "kbd \<Rightarrow> bool" where
  "kb_inv s \<longleftrightarrow> byte_queue (to_host s) \<and> pair_queue (from_host s) \<and> length (controller_ram s) = 32
     \<and> length (resend_command s) \<le> 4 \<and> length (typematic_scan_code s) \<le> 4
     \<and> i8042_irq_enabled s = bit (controller_ram s ! 0) 0"

lemma kb_inv_updates [simp]:
  "kb_inv (s\<lparr>data_port_state := a\<rparr>) = kb_inv s" "kb_inv (s\<lparr>scancode_set := b\<rparr>) = kb_inv s" "kb_inv (s\<lparr>A20_status := c\<rparr>) = kb_inv s"
  "kb_inv (s\<lparr>controller_ram_address := d\<rparr>) = kb_inv s" "kb_inv (s\<lparr>kblog := e\<rparr>) = kb_inv s" "kb_inv (s\<lparr>kb_calls := f\<rparr>) = kb_inv s"
  "kb_inv (s\<lparr>keystroke_enabled := g\<rparr>) = kb_inv s" "kb_inv (s\<lparr>typematic_deadline := h\<rparr>) = kb_inv s"
  "kb_inv (s\<lparr>typematic_first_delay := i\<rparr>) = kb_inv s" "kb_inv (s\<lparr>typematic_inter_delay := j\<rparr>) = kb_inv s"
  "kb_inv (kb_call k s) = kb_inv s" "kb_inv (keystroke_enable g s) = kb_inv s" "kb_inv (keyboard_enable g s) = kb_inv s"
  "kb_inv (set_typematic_delays b s) = kb_inv s" "kb_inv (reset_rate_and_delay s) = kb_inv s" "kb_inv (keyboard_wakeup s) = kb_inv s"
  by (simp_all add: kb_inv_def kb_call_def keystroke_enable_def keyboard_enable_def set_typematic_delays_def
      reset_rate_and_delay_def keyboard_wakeup_def)

lemma kblog_put_simps [simp]:
  "kb_inv (kblog_put c b s) = kb_inv s" "from_host (kblog_put c b s) = from_host s" "to_host (kblog_put c b s) = to_host s"
  "data_port_state (kblog_put c b s) = data_port_state s" "controller_ram (kblog_put c b s) = controller_ram s"
  "keystroke_enabled (kblog_put c b s) = keystroke_enabled s" "kb_calls (kblog_put c b s) = kb_calls s"
  "resend_command (kblog_put c b s) = resend_command s" "typematic_scan_code (kblog_put c b s) = typematic_scan_code s"
  "typematic_deadline (kblog_put c b s) = typematic_deadline s" "i8042_irq_enabled (kblog_put c b s) = i8042_irq_enabled s"
  using kblog_put_only [of c b s] by auto

lemma from_host_simps [simp]:
  "from_host (kb_call k s) = from_host s" "from_host (keystroke_enable g s) = from_host s" "from_host (keyboard_enable g s) = from_host s"
  "from_host (set_typematic_delays b s) = from_host s" "from_host (reset_rate_and_delay s) = from_host s"
  "from_host (clear_typematic_key s) = from_host s" "from_host (keyboard_wakeup s) = from_host s"
  "from_host (update_ctl_ram addr data s) = from_host s" "keystroke_enabled (update_ctl_ram addr data s) = keystroke_enabled s"
  by (simp_all add: kb_call_def keystroke_enable_def keyboard_enable_def set_typematic_delays_def reset_rate_and_delay_def
      clear_typematic_key_def keyboard_wakeup_def update_ctl_ram_def Let_def keyboard_enable_irq_def)

lemma clear_typematic_inv: "kb_inv s \<Longrightarrow> kb_inv (clear_typematic_key s)"
  by (simp add: kb_inv_def clear_typematic_key_def)

lemma typematic_key_inv: "kb_inv s \<Longrightarrow> length bytes \<le> 4 \<Longrightarrow> kb_inv (set_typematic_key t bytes s)"
  by (simp add: kb_inv_def set_typematic_key_def)

lemma update_ctl_ram_spec:
  assumes "kb_inv s"
  shows "kb_inv (update_ctl_ram addr data s)"
    "controller_ram (update_ctl_ram addr data s) = (if unat addr < 32 then (controller_ram s)[unat addr := data] else controller_ram s)"
    "addr = 0 \<Longrightarrow> keyboard_enabled (update_ctl_ram addr data s) = (\<not> bit data 4)"
proof -
  have b0: "w AND 1 = 0 \<longleftrightarrow> \<not> bit w 0" for w :: byte using and_exp_bit [of w 0] unfolding power_0 by blast
  have b4: "w AND 16 = 0 \<longleftrightarrow> \<not> bit w 4" for w :: byte using and_exp_bit [of w 4, simplified] by blast
  have other: "(controller_ram s)[unat addr := data] ! 0 = controller_ram s ! 0" if "addr \<noteq> 0"
    using that by (simp add: unat_eq_0)
  note defs = update_ctl_ram_def Let_def keyboard_enable_irq_def keyboard_enable_def kb_call_def b0 b4
  show "kb_inv (update_ctl_ram addr data s)"
    using assms other by (cases "addr = 0") (simp_all add: kb_inv_def defs)
  show "controller_ram (update_ctl_ram addr data s) = (if unat addr < 32 then (controller_ram s)[unat addr := data] else controller_ram s)"
    "addr = 0 \<Longrightarrow> keyboard_enabled (update_ctl_ram addr data s) = (\<not> bit data 4)"
    using assms by (simp_all add: kb_inv_def defs)
qed

lemma clear_ok:
  assumes "kb_inv s"
  shows "\<exists>s'. keyboard_clear_buffer s = Some s' \<and> kb_inv s' \<and> from_host s' = from_host s"
  using clear_spec [of s] assms by (auto simp: kb_inv_def)

lemma send_ok:
  assumes "kb_inv s" "length bytes \<le> 16"
  shows "kb_inv (i8042_send_to_host bytes s)" "from_host (i8042_send_to_host bytes s) = from_host s"
  using send_spec [of s bytes] assms by (auto simp: kb_inv_def)

lemma normal_data_ok:
  assumes "kb_inv s"
  shows "\<exists>out s'. normal_data data s = Some (out, s') \<and> length out \<le> 4 \<and> kb_inv s' \<and> from_host s' = from_host s"
proof -
  have c: "\<exists>s'. keyboard_clear_buffer u = Some s' \<and> kb_inv s' \<and> from_host s' = from_host s"
    if "kb_inv u" "from_host u = from_host s" for u
    using clear_ok [OF that(1)] that(2) by auto
  have r: "length (resend_command s) \<le> 4" using assms by (simp add: kb_inv_def)
  obtain s1 s2 s3 where "keyboard_clear_buffer (keystroke_enable True s) = Some s1" "kb_inv s1" "from_host s1 = from_host s"
      "keyboard_clear_buffer (reset_rate_and_delay (keystroke_enable False s)) = Some s2" "kb_inv s2" "from_host s2 = from_host s"
      "keyboard_clear_buffer (reset_rate_and_delay s) = Some s3" "kb_inv s3" "from_host s3 = from_host s"
    using c [of "keystroke_enable True s"] c [of "reset_rate_and_delay (keystroke_enable False s)"] c [of "reset_rate_and_delay s"] assms
    by auto
  then show ?thesis unfolding normal_data_def using assms r by simp
qed

lemma port_data_ok:
  assumes "kb_inv s" "port_data data s = (out, s')"
  shows "length out \<le> 4 \<and> kb_inv s' \<and> from_host s' = from_host s"
  using assms update_ctl_ram_spec(1) [OF assms(1)]
  by (auto simp: port_data_def split: port_state.splits if_splits)

lemma handle_data_ok:
  assumes "kb_inv s"
  shows "\<exists>out s'. handle_keyboard_data data s = Some (out, s') \<and> length out \<le> 4 \<and> kb_inv s' \<and> from_host s' = from_host s"
proof -
  let ?s = "kblog_put (CHR ''d'') data s"
  have "\<exists>out s'. (if data_port_state ?s = STATE_NORMAL then normal_data data ?s else Some (port_data data ?s)) = Some (out, s')
      \<and> length out \<le> 4 \<and> kb_inv s' \<and> from_host s' = from_host s"
    using normal_data_ok [of ?s data] port_data_ok [of ?s data] assms by (cases "port_data data ?s") auto
  then obtain out s' where "(if data_port_state ?s = STATE_NORMAL then normal_data data ?s else Some (port_data data ?s)) = Some (out, s')"
      "length out \<le> 4" "kb_inv s'" "from_host s' = from_host s" by blast
  then show ?thesis unfolding handle_keyboard_data_def Let_def by (auto simp: kb_inv_def)
qed

lemma other_command_ok:
  assumes "kb_inv s"
  shows "\<exists>out s'. other_command command s = Some (out, s') \<and> length out \<le> 4 \<and> kb_inv s' \<and> from_host s' = from_host s"
  using assms clear_ok [of "reset_rate_and_delay s"] by (auto simp: other_command_def)

lemma handle_command_ok:
  assumes "kb_inv s"
  shows "\<exists>out s'. handle_keyboard_command lpc command s = Some (out, s') \<and> length out \<le> 4 \<and> kb_inv s' \<and> from_host s' = from_host s"
proof -
  let ?s = "kblog_put (CHR ''c'') command s"
  let ?d = "clear_typematic_key (reset_rate_and_delay (update_ctl_ram 0 (read_ctl_ram 0 ?s OR I8042_KBD_DIS) ?s))"
  let ?e = "keystroke_enable True (update_ctl_ram 0 (read_ctl_ram 0 ?s AND NOT I8042_KBD_DIS) ?s)"
  have s: "kb_inv ?s" using assms by simp
  have d: "kb_inv ?d" "kb_inv ?e" using update_ctl_ram_spec(1) [OF s] by (simp_all add: clear_typematic_inv)
  obtain s1 s2 s3 out s4 where c: "keyboard_clear_buffer ?s = Some s1" "kb_inv s1" "from_host s1 = from_host s"
      "keyboard_clear_buffer ?d = Some s2" "kb_inv s2" "from_host s2 = from_host s"
      "keyboard_clear_buffer ?e = Some s3" "kb_inv s3" "from_host s3 = from_host s"
      "other_command command ?s = Some (out, s4)" "length out \<le> 4" "kb_inv s4" "from_host s4 = from_host s"
    using clear_ok [OF s] clear_ok [OF d(1)] clear_ok [OF d(2)] other_command_ok [OF s, of command] by auto
  have u: "kb_inv (update_ctl_ram a b (kblog_put x y s))" for a b x y using update_ctl_ram_spec(1) assms by simp
  show ?thesis unfolding handle_keyboard_command_def Let_def c using s c u by simp
qed

lemma handle_host_byte_ok:
  assumes "kb_inv s"
  shows "\<exists>s'. handle_host_byte lpc h s = Some s' \<and> kb_inv s' \<and> from_host s' = from_host s"
proof -
  obtain out s1 where "(if h ! 0 = HOST_COMMAND then handle_keyboard_command lpc (h ! 1) s else handle_keyboard_data (h ! 1) s)
      = Some (out, s1)" "length out \<le> 4" "kb_inv s1" "from_host s1 = from_host s"
    using handle_command_ok [OF assms, of lpc "h ! 1"] handle_data_ok [OF assms, of "h ! 1"] by (cases "h ! 0 = 0") auto
  then show ?thesis using send_ok [of s1 out] by (auto simp: handle_host_byte_def)
qed

lemma from_host_empty:
  assumes "kb_inv s" "queue_units (from_host s) = []"
  shows "i8042_handle_from_host lpc s = Some s"
proof -
  obtain n h q where r: "queue_remove_unit (from_host s) [0, 0] = (n, h, q)" by (metis prod_cases3)
  have "n = 0" using queue_remove_unit_refines [OF _ _ r] assms by (simp add: kb_inv_def pair_queue_def)
  then show ?thesis by (subst i8042_handle_from_host.simps) (simp add: r)
qed

lemma handle_from_host_ok:
  assumes "kb_inv s"
  shows "\<exists>s'. i8042_handle_from_host lpc s = Some s' \<and> kb_inv s' \<and> queue_units (from_host s') = []"
  using assms
proof (induction "length (queue_units (from_host s))" arbitrary: s)
  case 0
  then have "queue_units (from_host s) = []" unfolding length_0_conv [symmetric] by simp
  then show ?case using from_host_empty [OF 0(2)] 0(2) by auto
next
  case (Suc n)
  obtain m h q where r: "queue_remove_unit (from_host s) [0, 0] = (m, h, q)" by (metis prod_cases3)
  have fh: "queue_inv (from_host s)" "unit_bytes (from_host s) = 2" "buffer_units (from_host s) = 8"
    using Suc.prems by (simp_all add: kb_inv_def pair_queue_def)
  have ne: "queue_units (from_host s) \<noteq> []" using Suc.hyps(2) by (metis list.size(3) nat.distinct(1))
  have q: "queue_inv q" "unit_bytes q = 2" "buffer_units q = 8" "m = 1" "queue_units (from_host s) = h # queue_units q"
    using queue_remove_unit_refines [OF fh(1) _ r] fh(2,3) ne by simp_all
  let ?s = "s\<lparr>from_host := q\<rparr>"
  have "kb_inv ?s" using Suc.prems q by (simp add: kb_inv_def pair_queue_def)
  from handle_host_byte_ok [OF this] obtain s1 where s1: "handle_host_byte lpc h ?s = Some s1" "kb_inv s1" "from_host s1 = q"
    by auto
  have "n = length (queue_units (from_host s1))" using Suc.hyps(2) q(5) s1(3) by simp
  from Suc.hyps(1) [OF this s1(2)] show ?case
    using q(4) s1(1) by (subst i8042_handle_from_host.simps) (simp add: r)
qed

section \<open>Keys\<close>

lemma scancode_bytes_length:
  assumes "is_supported_code_set code_set"
  shows "scancode_bytes make_code pressed code_set \<noteq> []" "length (scancode_bytes make_code pressed code_set) \<le> 4"
  using assms by (auto simp: scancode_bytes_def is_supported_code_set_def Let_def)

lemma matrix_callback_length:
  "matrix_callback board row col pressed code_set s = Inr bytes \<Longrightarrow> bytes \<noteq> [] \<and> length bytes \<le> 4"
  using scancode_bytes_length by (auto simp: matrix_callback_def Let_def split: if_splits prod.splits)

lemma state_changed_ok:
  assumes "kb_inv s"
  shows "\<exists>s'. keyboard_state_changed board now_val row col is_pressed s = Some s' \<and> kb_inv s'"
proof -
  define ret where "ret = matrix_callback board row col is_pressed (scancode_set s) s"
  define bytes where "bytes = (case ret of Inl _ \<Rightarrow> [] | Inr bytes \<Rightarrow> bytes)"
  have ret: "ret \<noteq> Inr []" "length bytes \<le> 4"
    using matrix_callback_length [of board row col is_pressed "scancode_set s" s]
    by (auto simp: ret_def bytes_def split: sum.splits)
  define s1 where "s1 = (if bytes \<noteq> [] \<and> keystroke_enabled s then i8042_send_to_host bytes s else s)"
  have "kb_inv s1" using assms send_ok(1) [OF assms, of bytes] ret(2) by (simp add: s1_def)
  then have "kb_inv (if is_pressed then kb_call WakeKeyproto (set_typematic_key now_val bytes (keyboard_wakeup s1)) else clear_typematic_key s1)"
    using ret(2) by (simp add: typematic_key_inv clear_typematic_inv)
  then show ?thesis
    unfolding keyboard_state_changed_def Let_def ret_def [symmetric] bytes_def [symmetric] s1_def [symmetric] using ret(1) by simp
qed

lemma update_button_ok:
  assumes "kb_inv s"
  shows "\<exists>s'. keyboard_update_button chipset_on now_val button is_pressed s = Some s' \<and> kb_inv s'"
proof (cases "chipset_on \<and> keystroke_enabled s \<and> is_supported_code_set (acting_code_set (scancode_set s) s)")
  case True
  obtain code repeat where b: "buttons_8042 ! button_index button = (code, repeat)" by fastforce
  define bytes where "bytes = scancode_bytes code is_pressed (acting_code_set (scancode_set s) s)"
  have bytes: "bytes \<noteq> []" "length bytes \<le> 4" using scancode_bytes_length True by (simp_all add: bytes_def)
  define s1 where "s1 = (if repeat then (if is_pressed then set_typematic_key now_val bytes s else clear_typematic_key s) else s)"
  have "kb_inv s1" using assms bytes by (simp add: s1_def typematic_key_inv clear_typematic_inv)
  then have "kb_inv (i8042_send_to_host bytes s1)" using bytes by (simp add: send_ok)
  then show ?thesis
    unfolding keyboard_update_button_def Let_def b prod.case bytes_def [symmetric] s1_def [symmetric] using True bytes by simp
qed (auto simp: keyboard_update_button_def assms Let_def split: prod.splits)

section \<open>The task\<close>

lemma typematic_turn_ok: "kb_inv s \<Longrightarrow> typematic_turn t s = (w, s') \<Longrightarrow> kb_inv s'"
  using send_ok(1) [of s "typematic_scan_code s"]
  by (auto simp: typematic_turn_def Let_def kb_inv_def split: if_splits)

lemma protocol_turn_ok:
  assumes "kb_inv s"
  shows "\<exists>r. protocol_turn t lpc busy retries s = Some r \<and> kb_inv (snd (snd (snd r)))"
proof -
  obtain w s1 where t: "typematic_turn t s = (w, s1)" by fastforce
  from handle_from_host_ok [OF typematic_turn_ok [OF assms t]]
  obtain s2 where s2: "i8042_handle_from_host lpc s1 = Some s2" "kb_inv s2" by blast
  have bq: "byte_queue (to_host s2)" using s2(2) by (simp add: kb_inv_def)
  show ?thesis
  proof (cases "queued_bytes (to_host s2)")
    case Nil
    then show ?thesis using t s2 byte_queue_empty [OF bq] by (simp add: protocol_turn_def)
  next
    case (Cons b bs)
    from byte_queue_remove [OF bq Cons, of 0] obtain q where q: "queue_remove_unit (to_host s2) [0] = (1, [b], q)" "byte_queue q" by blast
    have "kb_inv (s2\<lparr>to_host := q\<rparr>)" using s2(2) q(2) by (simp add: kb_inv_def)
    moreover obtain l where "kblog_put (CHR ''k'') (ucast (q_head (to_host s2))) s2 = s2\<lparr>kblog := l\<rparr>" using kblog_put_only by blast
    ultimately show ?thesis using t s2 byte_queue_empty [OF bq] Cons q(1)
      by (simp add: protocol_turn_def Let_def) (simp add: kb_inv_def)
  qed
qed

section \<open>Every reachable state\<close>

inductive kb_step :: "kbd \<Rightarrow> kbd \<Rightarrow> bool" where
  host_write: "kb_step s (keyboard_host_write data is_cmd s)"
| key: "keyboard_state_changed board now_val row col is_pressed s = Some s' \<Longrightarrow> kb_step s s'"
| button: "keyboard_update_button chipset_on now_val button is_pressed s = Some s' \<Longrightarrow> kb_step s s'"
| turn: "protocol_turn t lpc busy retries s = Some (goes_on, w, r, s') \<Longrightarrow> kb_step s s'"
| restore: "kb_step s (keyboard_restore_state tag s)"
| typematic_cmd: "kb_step s (snd (command_typematic argv s))"
| codeset_cmd: "kb_step s (snd (command_codeset argv s))"
| ctrlram_cmd: "kb_step s (snd (command_controller_ram argv s))"
| kblog_cmd: "kb_step s (snd (command_keyboard_log acquire argv s))"
| kbd_cmd: "kb_step s (snd (command_keyboard argv s))"

inductive kb_reach :: "kbd \<Rightarrow> bool" where
  start: "kb_reach (reset_rate_and_delay kbd_initial)"
| one_step: "kb_reach s \<Longrightarrow> kb_step s s' \<Longrightarrow> kb_reach s'"

lemma queue_null_inv:
  "power_of_two units \<Longrightarrow> bytes \<noteq> 0 \<Longrightarrow> unat units * unat bytes < 2 ^ 32 \<Longrightarrow> queue_inv (queue_null units bytes)"
  by (simp add: queue_null_def queue_inv_def queue_count_def)

lemma kbd_initial_inv: "kb_inv kbd_initial"
proof -
  have "queue_inv (queue_null 16 1)" "queue_inv (queue_null 8 2)"
    by (rule queue_null_inv, simp_all add: power_of_two_def)+
  then show ?thesis by (simp add: kb_inv_def kbd_initial_def byte_queue_def pair_queue_def) (simp add: queue_null_def)
qed

lemma host_write_inv: "kb_inv s \<Longrightarrow> kb_inv (keyboard_host_write data is_cmd s)"
proof -
  assume inv: "kb_inv s"
  let ?u = "[if is_cmd then HOST_COMMAND else HOST_DATA, data]"
  obtain n q where r: "queue_add_unit (from_host s) ?u = (n, q)" by fastforce
  have fh: "queue_inv (from_host s)" "unit_bytes (from_host s) = 2" "buffer_units (from_host s) = 8"
    using inv by (simp_all add: kb_inv_def pair_queue_def)
  from queue_add_unit_refines [OF fh(1) _ r] fh inv show ?thesis
    by (simp add: keyboard_host_write_def r) (simp add: kb_inv_def pair_queue_def)
qed

lemma restore_inv: "kb_inv s \<Longrightarrow> kb_inv (keyboard_restore_state tag s)"
  using update_ctl_ram_spec(1) [of "s\<lparr>scancode_set := snd (the tag) ! 0\<rparr>" 0 "snd (the tag) ! 1"]
  by (auto simp: keyboard_restore_state_def split: option.split)

lemma console_inv:
  assumes "kb_inv s"
  shows "kb_inv (snd (command_typematic argv s))" "kb_inv (snd (command_codeset argv s))"
    "kb_inv (snd (command_controller_ram argv s))" "kb_inv (snd (command_keyboard_log acquire argv s))"
    "kb_inv (snd (command_keyboard argv s))"
  using assms update_ctl_ram_spec(1) [OF assms]
  by (auto simp: command_typematic_def command_codeset_def command_controller_ram_def command_keyboard_log_def
      command_keyboard_def Let_def split: option.split bool.split)

lemma kb_reach_inv: "kb_reach s \<Longrightarrow> kb_inv s"
proof (induction rule: kb_reach.induct)
  case start
  show ?case by (simp add: kbd_initial_inv)
next
  case (one_step s s')
  from one_step.hyps(2) one_step.IH show ?case
  proof (induction rule: kb_step.induct)
    case (key board now_val row col is_pressed s s')
    then show ?case using state_changed_ok [of s board now_val row col is_pressed] by auto
  next
    case (button chipset_on now_val b is_pressed s s')
    then show ?case using update_button_ok [of s chipset_on now_val b is_pressed] by auto
  next
    case (turn t lpc busy retries s goes_on w r s')
    then show ?case using protocol_turn_ok [of s t lpc busy retries] by auto
  qed (simp_all add: host_write_inv restore_inv console_inv)
qed

text \<open>
  C16. From power-on, through every interleaving of host writes, keys, buttons, turns of the task,
  sysjumps and console commands: no assertion of the module fails, the loop over the host's
  commands ends with all of them handled, at most 16 bytes wait for the host, what is kept for
  resending and repeating fits its array, and interrupts are enabled exactly when the command byte
  says so.
\<close>

theorem keyboard_never_fails:
  assumes "kb_reach s"
  shows "(\<exists>s'. i8042_handle_from_host lpc s = Some s' \<and> queue_units (from_host s') = [])
    \<and> (\<exists>r. protocol_turn t lpc busy retries s = Some r)
    \<and> (\<exists>s'. keyboard_state_changed board now_val row col is_pressed s = Some s')
    \<and> (\<exists>s'. keyboard_update_button chipset_on now_val button is_pressed s = Some s')
    \<and> length (pending_out s) \<le> 16 \<and> length (resend_command s) \<le> MAX_SCAN_CODE_LEN
    \<and> length (typematic_scan_code s) \<le> MAX_SCAN_CODE_LEN
    \<and> i8042_irq_enabled s = bit (controller_ram s ! 0) 0"
proof -
  note inv = kb_reach_inv [OF assms]
  have "length (pending_out s) \<le> 16" using inv byte_queue_units(3) by (simp add: kb_inv_def pending_out_def)
  then show ?thesis
    using inv handle_from_host_ok [OF inv, of lpc] protocol_turn_ok [OF inv, of t lpc busy retries]
      state_changed_ok [OF inv, of board now_val row col is_pressed] update_button_ok [OF inv, of chipset_on now_val button is_pressed]
    unfolding kb_inv_def by blast
qed

section \<open>From a key to the host\<close>

text \<open>The bytes handed to the LPC driver.\<close>

definition delivered :: "kbd \<Rightarrow> byte list" where
  "delivered s = concat (map (\<lambda>c. case c of PutChar b irq \<Rightarrow> [b] | _ \<Rightarrow> []) (kb_calls s))"

text \<open>Nothing to do for the task but to move bytes: no command waits and no key repeats before \<open>t\<close>.\<close>

definition quiet :: "u64 \<Rightarrow> kbd \<Rightarrow> bool" where
  "quiet t s \<longleftrightarrow> queue_units (from_host s) = []
     \<and> (typematic_scan_code s = [] \<or> \<not> timestamp_expired (typematic_deadline s) t)"

lemma quiet_typematic: "quiet t s \<Longrightarrow> \<exists>w. typematic_turn t s = (w, s)"
  by (cases "typematic_scan_code s = []") (simp_all add: typematic_turn_def quiet_def)

lemma quiet_turn:
  assumes "kb_inv s" "quiet t s" "pending_out s = b # bs"
  shows "\<exists>w s'. protocol_turn t lpc False retries s = Some (True, w, 0, s') \<and> kb_inv s' \<and> pending_out s' = bs
    \<and> delivered s' = delivered s @ [b] \<and> from_host s' = from_host s
    \<and> typematic_scan_code s' = typematic_scan_code s \<and> typematic_deadline s' = typematic_deadline s"
proof -
  obtain w where t: "typematic_turn t s = (w, s)" using quiet_typematic [OF assms(2)] by blast
  have h: "i8042_handle_from_host lpc s = Some s" using from_host_empty [OF assms(1)] assms(2) by (simp add: quiet_def)
  have bq: "byte_queue (to_host s)" using assms(1) by (simp add: kb_inv_def)
  from byte_queue_remove [OF bq, of b bs 0] assms(3) obtain q
    where q: "queue_remove_unit (to_host s) [0] = (1, [b], q)" "byte_queue q" "queued_bytes q = bs"
    by (auto simp: pending_out_def)
  have "\<not> queue_is_empty (to_host s)" using byte_queue_empty [OF bq] assms(3) by (simp add: pending_out_def)
  then show ?thesis using t h q assms(1)
    by (simp add: protocol_turn_def Let_def)
      (simp add: kb_inv_def kb_call_def pending_out_def delivered_def)
qed

lemma quiet_end:
  assumes "kb_inv s" "quiet t s" "pending_out s = []"
  shows "\<exists>w. protocol_turn t lpc busy retries s = Some (False, w, retries, s)"
proof -
  obtain w where t: "typematic_turn t s = (w, s)" using quiet_typematic [OF assms(2)] by blast
  have "i8042_handle_from_host lpc s = Some s" using from_host_empty [OF assms(1)] assms(2) by (simp add: quiet_def)
  moreover have "queue_is_empty (to_host s)" using byte_queue_empty assms(1,3) by (simp add: kb_inv_def pending_out_def)
  ultimately show ?thesis using t by (simp add: protocol_turn_def)
qed

lemma quiet_drain:
  assumes "kb_inv s" "\<forall>(t, lpc, busy) \<in> set turns. quiet t s \<and> \<not> busy" "length (pending_out s) < length turns"
  shows "\<exists>w r s'. protocol_turns turns retries s = Some (w, r, s') \<and> delivered s' = delivered s @ pending_out s \<and> pending_out s' = []"
  using assms
proof (induction turns arbitrary: s retries)
  case (Cons e turns)
  note prems = Cons.prems and IH = Cons.IH
  obtain t lpc busy where e: "e = (t, lpc, busy)" by (cases e)
  have q: "quiet t s" "\<not> busy" using prems(2) by (simp_all add: e)
  show ?case
  proof (cases "pending_out s")
    case Nil
    with quiet_end [OF prems(1) q(1)] obtain w where "protocol_turn t lpc busy retries s = Some (False, w, retries, s)" by blast
    then show ?thesis using Nil by (simp add: e)
  next
    case (Cons b bs)
    from quiet_turn [OF prems(1) q(1) Cons, of lpc retries] obtain w s1
      where s1: "protocol_turn t lpc False retries s = Some (True, w, 0, s1)" "kb_inv s1" "pending_out s1 = bs"
        "delivered s1 = delivered s @ [b]" "from_host s1 = from_host s"
        "typematic_scan_code s1 = typematic_scan_code s" "typematic_deadline s1 = typematic_deadline s" by blast
    have "\<forall>(t, lpc, busy) \<in> set turns. quiet t s1 \<and> \<not> busy"
      using prems(2) s1(5-7) by (auto simp: quiet_def)
    from IH [OF s1(2) this, of 0] prems(3) s1(3,4) Cons obtain w' r s'
      where "protocol_turns turns 0 s1 = Some (w', r, s')" "delivered s' = delivered s @ b # bs" "pending_out s' = []" by auto
    then show ?thesis using q(2) s1(1) Cons by (simp add: e)
  qed
qed simp

text \<open>
  What a key means to the host, apart from the code. In set 2 a key sends its code, after 0xf0 when it is
  released; in set 1 it sends its number, with the top bit set when it is released. Set 1 numbers
  the keys of a keyboard from 1, in the order in which \<open>set1_keys\<close> lists their codes of set 2. The
  prefix of an extended key comes first in both sets.
\<close>

definition set1_keys :: "int list" where
  "set1_keys =
   [0x76, 0x16, 0x1e, 0x26, 0x25, 0x2e, 0x36, 0x3d, 0x3e, 0x46, 0x45, 0x4e, 0x55, 0x66,
    0x0d, 0x15, 0x1d, 0x24, 0x2d, 0x2c, 0x35, 0x3c, 0x43, 0x44, 0x4d, 0x54, 0x5b, 0x5a,
    0x14, 0x1c, 0x1b, 0x23, 0x2b, 0x34, 0x33, 0x3b, 0x42, 0x4b, 0x4c, 0x52, 0x0e,
    0x12, 0x5d, 0x1a, 0x22, 0x21, 0x2a, 0x32, 0x31, 0x3a, 0x41, 0x49, 0x4a, 0x59, 0x7c,
    0x11, 0x29, 0x58, 0x05, 0x06, 0x04, 0x0c, 0x03, 0x0b, 0x83, 0x0a, 0x01, 0x09,
    0x77, 0x7e, 0x6c, 0x75, 0x7d, 0x7b, 0x6b, 0x73, 0x74, 0x79, 0x69, 0x72, 0x7a, 0x70, 0x71,
    0x84, 0x60, 0x61, 0x78, 0x07, 0x0f, 0x17, 0x1f, 0x27, 0x2f, 0x37, 0x3f, 0x47, 0x4f, 0x56, 0x5e,
    0x08, 0x10, 0x18, 0x20, 0x28, 0x30, 0x38, 0x40, 0x48, 0x50, 0x57, 0x6f, 0x13, 0x19, 0x39, 0x51, 0x53,
    0x5c, 0x5f, 0x62, 0x63, 0x64, 0x65, 0x67, 0x68, 0x6a, 0x6d, 0x6e]"

definition key_bytes :: "bool \<Rightarrow> bool \<Rightarrow> int \<Rightarrow> byte list" where
  "key_bytes set1 pressed code =
     (let key = code mod 256; number = int (length (takeWhile (\<lambda>k. k \<noteq> key) set1_keys)) + 1
      in (if code < 256 then [] else [word_of_int (code div 256)]) @
         (if set1 then [word_of_int (if pressed then number else 128 + number)]
          else if pressed then [word_of_int key] else [0xf0, word_of_int key]))"

lemma matrix_key_bytes:
  assumes "c \<in> set (concat scancode_set2)" "c \<noteq> 0"
  shows "scancode_bytes c p SCANCODE_SET_1 = key_bytes True p (uint c)" "scancode_bytes c p SCANCODE_SET_2 = key_bytes False p (uint c)"
proof -
  have "list_all (\<lambda>c. c = 0 \<or> list_all (\<lambda>p. scancode_bytes c p SCANCODE_SET_1 = key_bytes True p (uint c)
      \<and> scancode_bytes c p SCANCODE_SET_2 = key_bytes False p (uint c)) [True, False]) (concat scancode_set2)" by code_simp
  then show "scancode_bytes c p SCANCODE_SET_1 = key_bytes True p (uint c)" "scancode_bytes c p SCANCODE_SET_2 = key_bytes False p (uint c)"
    using assms by (cases p; auto simp: list_all_iff)+
qed

lemma matrix_callback_key:
  assumes "scancode_callback board = None" "keyboard_cols board \<le> 13" "row < 8" "col < keyboard_cols board" "scancode_set2 ! col ! row \<noteq> 0"
    and "bit (controller_ram s ! 0) 6 \<or> scancode_set s \<in> {1, 2}"
  shows "matrix_callback board row col pressed (scancode_set s) s
    = Inr (key_bytes (bit (controller_ram s ! 0) 6 \<or> scancode_set s = 1) pressed (uint (scancode_set2 ! col ! row)))"
proof -
  have x: "controller_ram s ! 0 AND I8042_XLATE \<noteq> 0 \<longleftrightarrow> bit (controller_ram s ! 0) 6"
    using and_exp_bit [of "controller_ram s ! 0" 6] by simp
  have "col < length scancode_set2" "list_all (\<lambda>r. length r = 8) scancode_set2" using assms(2,4) by (simp_all add: scancode_set2_def)
  then have l: "scancode_set2 ! col \<in> set scancode_set2" "length (scancode_set2 ! col) = 8" by (simp_all add: list_all_length)
  then have "scancode_set2 ! col ! row \<in> set (scancode_set2 ! col)" using assms(3) by simp
  then have m: "scancode_set2 ! col ! row \<in> set (concat scancode_set2)" using l(1) by (simp only: set_concat) blast
  show ?thesis using assms x matrix_key_bytes [OF m assms(5)]
    by (auto simp: matrix_callback_def acting_code_set_def is_supported_code_set_def Let_def)
qed

text \<open>
  C15. A key reaches the host: on a board that leaves the codes of the matrix as they are, a key that has a
  code, pressed or released while keystrokes are enabled, no command of the host waits, translation is on or the
  host has chosen set 1 or 2, and there is room, is queued behind the bytes that wait, as the bytes
  that the standard assigns to its code: those of set 1 with translation or in set 1, else those of set 2.
  When the host then takes every byte without delay, before the key repeats, the task hands it
  exactly the waiting bytes and these, in that order, and comes to rest with nothing left, as soon as
  it has had one turn more than there are bytes.
\<close>

theorem typed_key_reaches_host:
  assumes "kb_reach s" "keystroke_enabled s" "queue_units (from_host s) = []"
    and "scancode_callback board = None" "keyboard_cols board \<le> 13" "row < 8" "col < keyboard_cols board" "scancode_set2 ! col ! row \<noteq> 0"
    and "bit (controller_ram s ! 0) 6 \<or> scancode_set s \<in> {1, 2}"
    and "bytes = key_bytes (bit (controller_ram s ! 0) 6 \<or> scancode_set s = 1) is_pressed (uint (scancode_set2 ! col ! row))"
    and "length (pending_out s) + length bytes \<le> 16"
    and "\<forall>(t, lpc, busy) \<in> set turns.
      \<not> busy \<and> \<not> timestamp_expired (now_val + word_of_int (typematic_first_delay s)) t"
    and "length (pending_out s) + length bytes < length turns"
  shows "\<exists>s1 w r s2. keyboard_state_changed board now_val row col is_pressed s = Some s1
    \<and> protocol_turns turns retries s1 = Some (w, r, s2)
    \<and> delivered s2 = delivered s @ pending_out s @ bytes \<and> pending_out s2 = []"
proof -
  note inv = kb_reach_inv [OF assms(1)]
  have m: "matrix_callback board row col is_pressed (scancode_set s) s = Inr bytes"
    unfolding assms(10) by (rule matrix_callback_key [OF assms(4-9)])
  have bytes: "bytes \<noteq> []" "length bytes \<le> 4" using matrix_callback_length [OF m] by simp_all
  have bq: "byte_queue (to_host s)" using inv by (simp add: kb_inv_def)
  obtain l q where q: "i8042_send_to_host bytes s = s\<lparr>kblog := l, to_host := q, kb_calls := kb_calls s @ [WakeKeyproto]\<rparr>"
      "byte_queue q" "queued_bytes q = queued_bytes (to_host s) @ bytes"
    using send_spec [OF bq, of bytes] bytes(2) assms(11) by (auto simp: pending_out_def)
  let ?send = "i8042_send_to_host bytes s"
  define s1 where "s1 = (if is_pressed then kb_call WakeKeyproto (set_typematic_key now_val bytes (keyboard_wakeup ?send))
    else clear_typematic_key ?send)"
  have ch: "keyboard_state_changed board now_val row col is_pressed s = Some s1"
    unfolding keyboard_state_changed_def Let_def m s1_def using assms(2) bytes(1) by simp
  have inv1: "kb_inv s1" using state_changed_ok [OF inv, of board now_val row col is_pressed] ch by auto
  have s1: "delivered s1 = delivered s" "pending_out s1 = pending_out s @ bytes" "from_host s1 = from_host s"
      "typematic_scan_code s1 = [] \<or> typematic_deadline s1 = now_val + word_of_int (typematic_first_delay s)"
    unfolding s1_def q(1) using q(3)
    by (simp_all add: kb_call_def set_typematic_key_def keyboard_wakeup_def clear_typematic_key_def pending_out_def delivered_def)
  have "\<forall>(t, lpc, busy) \<in> set turns. quiet t s1 \<and> \<not> busy"
    using assms(3,12) s1(3,4) by (auto simp: quiet_def)
  from quiet_drain [OF inv1 this, of retries] assms(13) s1 ch show ?thesis by auto
qed

text \<open>
  What was answered can be asked for again: a data byte other than the resend command that
  is answered and completes its command is followed by the same answer when the host asks to
  resend, as often as it asks.
\<close>

theorem resend_repeats_answer:
  assumes "kb_reach s" "handle_keyboard_data data s = Some (output, s1)" "output \<noteq> []"
    and "data_port_state s \<noteq> STATE_NORMAL \<or> data \<noteq> 0xfe" "data_port_state s1 = STATE_NORMAL"
  shows "\<exists>s2. handle_keyboard_data 0xfe s1 = Some (output, s2) \<and> data_port_state s2 = STATE_NORMAL
    \<and> resend_command s2 = output \<and> pending_out s2 = pending_out s1"
proof -
  have "resend_command s1 = output" "length output \<le> 4"
    using assms(2-4) by (auto simp: handle_keyboard_data_def Let_def split: option.splits if_splits)
  then show ?thesis using assms(5)
    by (simp add: handle_keyboard_data_def Let_def normal_data_def pending_out_def)
qed

section \<open>The controller's memory\<close>

lemma write_ram_command:
  assumes "unat a < 32"
  shows "handle_keyboard_command lpc (0x60 + a) s
    = Some ([], (kblog_put (CHR ''c'') (0x60 + a) s)\<lparr>data_port_state := STATE_WRITE_CMD_BYTE, controller_ram_address := a\<rparr>)"
proof -
  have u: "unat (0x60 + a) = 96 + unat a" using assms by (simp add: unat_word_ariths)
  show ?thesis
  proof (cases "a = 0")
    case False
    then have "0 < unat a" by (simp add: unat_gt_0)
    then show ?thesis using assms u
      by (simp add: handle_keyboard_command_def other_command_def Let_def word_unat_eq_iff word_le_nat_alt)
  qed (simp add: handle_keyboard_command_def Let_def)
qed

lemma read_ram_command:
  assumes "kb_inv s" "unat a < 32"
  shows "\<exists>s'. handle_keyboard_command lpc (0x20 + a) s = Some ([controller_ram s ! unat a], s') \<and> controller_ram s' = controller_ram s"
proof -
  let ?s = "kblog_put (CHR ''c'') (0x20 + a) s"
  have u: "unat (0x20 + a) = 32 + unat a" using assms(2) by (simp add: unat_word_ariths)
  have n: "length (controller_ram s) = 32" using assms(1) by (simp add: kb_inv_def)
  show ?thesis
  proof (cases "a = 0")
    case True
    have "byte_queue (to_host ?s)" using assms(1) by (simp add: kb_inv_def)
    from clear_spec [OF this] n show ?thesis by (auto simp: True handle_keyboard_command_def Let_def read_ctl_ram_def)
  next
    case False
    then have "0 < unat a" by (simp add: unat_gt_0)
    then show ?thesis using assms(2) u n
      by (simp add: handle_keyboard_command_def other_command_def Let_def word_unat_eq_iff word_le_nat_alt read_ctl_ram_def)
  qed
qed

text \<open>
  The controller's memory is a memory: a byte written with the write command and its data
  byte is read back by the read command at the same of the 32 addresses, and no other byte
  changes. Writing the command byte, at address 0, enables the keyboard and the interrupt as its
  bits say.
\<close>

theorem controller_ram_roundtrip:
  assumes "kb_reach s" "unat a < 32"
  shows "\<exists>s1 s2 s3. handle_keyboard_command lpc (0x60 + a) s = Some ([], s1) \<and> handle_keyboard_data d s1 = Some ([], s2)
    \<and> handle_keyboard_command lpc (0x20 + a) s2 = Some ([d], s3)
    \<and> (\<forall>b. b \<noteq> a \<longrightarrow> read_ctl_ram b s3 = read_ctl_ram b s)
    \<and> (a = 0 \<longrightarrow> keyboard_enabled s2 = (\<not> bit d 4) \<and> i8042_irq_enabled s2 = bit d 0)"
proof -
  note inv = kb_reach_inv [OF assms(1)]
  define s1 where "s1 = (kblog_put (CHR ''c'') (0x60 + a) s)\<lparr>data_port_state := STATE_WRITE_CMD_BYTE, controller_ram_address := a\<rparr>"
  define s1' where "s1' = kblog_put (CHR ''d'') d s1"
  define s2 where "s2 = (update_ctl_ram a d s1')\<lparr>data_port_state := STATE_NORMAL\<rparr>"
  have inv1: "kb_inv s1'" using inv by (simp add: s1'_def s1_def)
  have f1: "data_port_state s1' = STATE_WRITE_CMD_BYTE" "controller_ram_address s1' = a" "controller_ram s1' = controller_ram s"
    using kblog_put_only [of "CHR ''d''" d s1] by (auto simp: s1'_def s1_def)
  note up = update_ctl_ram_spec [OF inv1]
  have c1: "handle_keyboard_command lpc (0x60 + a) s = Some ([], s1)" using write_ram_command [OF assms(2)] by (simp add: s1_def)
  have c2: "handle_keyboard_data d s1 = Some ([], s2)"
    using f1 by (simp add: handle_keyboard_data_def Let_def s1'_def [symmetric] port_data_def s2_def)
  have n: "length (controller_ram s) = 32" using inv by (simp add: kb_inv_def)
  have ram: "controller_ram s2 = (controller_ram s)[unat a := d]" using up(2) assms(2) f1 by (simp add: s2_def)
  have inv2: "kb_inv s2" using up(1) by (simp add: s2_def)
  from read_ram_command [OF inv2 assms(2), of lpc] obtain s3
    where s3: "handle_keyboard_command lpc (0x20 + a) s2 = Some ([d], s3)" "controller_ram s3 = controller_ram s2"
    using n assms(2) by (auto simp: ram)
  have "read_ctl_ram b s3 = read_ctl_ram b s" if "b \<noteq> a" for b
    using that by (simp add: read_ctl_ram_def s3(2) ram n word_unat_eq_iff)
  moreover have "keyboard_enabled s2 = (\<not> bit d 4) \<and> i8042_irq_enabled s2 = bit d 0" if "a = 0"
  proof -
    have "controller_ram s2 ! 0 = d" using that n by (simp add: ram)
    moreover have "keyboard_enabled s2 = (\<not> bit d 4)" using up(3) [OF that] by (simp add: s2_def)
    ultimately show ?thesis using inv2 by (simp add: kb_inv_def)
  qed
  ultimately show ?thesis using c1 c2 s3(1) by blast
qed

text \<open>
  A jump between the two copies of the firmware keeps the keyboard as the host set it up:
  after the state is saved and restored into a controller that has just started, the code set, the
  command byte, the keystroke setting, the interrupt setting and the acting code set are the same.
\<close>

theorem sysjump_keeps_settings:
  assumes "kb_reach s"
  defines "s' \<equiv> keyboard_restore_state (Some (keyboard_preserve_state s)) (reset_rate_and_delay kbd_initial)"
  shows "scancode_set s' = scancode_set s \<and> controller_ram s' ! 0 = controller_ram s ! 0
    \<and> keystroke_enabled s' = keystroke_enabled s \<and> i8042_irq_enabled s' = i8042_irq_enabled s
    \<and> acting_code_set c s' = acting_code_set c s \<and> keyboard_enabled s' = (\<not> bit (controller_ram s ! 0) 4)"
proof -
  note inv = kb_reach_inv [OF assms(1)]
  define s0 where "s0 = (reset_rate_and_delay kbd_initial)\<lparr>scancode_set := scancode_set s\<rparr>"
  have inv0: "kb_inv s0" using kbd_initial_inv by (simp add: s0_def)
  let ?u = "update_ctl_ram 0 (controller_ram s ! 0) s0"
  note up = update_ctl_ram_spec [OF inv0, of 0 "controller_ram s ! 0"]
  have s': "s' = ?u\<lparr>keystroke_enabled := keystroke_enabled s\<rparr>"
    by (simp add: s'_def keyboard_restore_state_def keyboard_preserve_state_def s0_def)
  have ram: "controller_ram ?u ! 0 = controller_ram s ! 0" using up(2) inv0 by (simp add: kb_inv_def)
  have "i8042_irq_enabled ?u = i8042_irq_enabled s" using up(1) ram inv by (simp add: kb_inv_def)
  moreover have "scancode_set ?u = scancode_set s"
    by (simp add: update_ctl_ram_def Let_def keyboard_enable_irq_def keyboard_enable_def kb_call_def s0_def)
  ultimately show ?thesis using ram up(3) by (simp add: s' acting_code_set_def)
qed

section \<open>Scan codes\<close>

definition matrix_codes :: "int list" where
  "matrix_codes = remdups_adj (sort (filter (\<lambda>c. c \<noteq> 0) (map uint (concat scancode_set2))))"

text \<open>The byte sequences of all keys, pressed and released, each as one number.\<close>

definition bytes_value :: "byte list \<Rightarrow> int" where
  "bytes_value bs = fold (\<lambda>b n. n * 256 + uint b) bs 0"

definition matrix_bytes :: "byte \<Rightarrow> int list" where
  "matrix_bytes code_set =
     map (\<lambda>(c, p). bytes_value (scancode_bytes (word_of_int c) p code_set)) (List.product matrix_codes [True, False])"

lemma matrix_bytes_sorted: "sorted_wrt (<) (sort (matrix_bytes 1))" "sorted_wrt (<) (sort (matrix_bytes 2))"
  by code_simp+

lemma matrix_bytes_distinct: "distinct (matrix_bytes 1)" "distinct (matrix_bytes 2)"
  using matrix_bytes_sorted by (simp_all add: strict_sorted_iff)

lemma in_matrix_codes:
  assumes "c \<in> set (concat scancode_set2)" "c \<noteq> 0"
  shows "uint c \<in> set matrix_codes"
proof -
  have "uint c \<in> set (map uint (concat scancode_set2))" unfolding set_map using assms(1) by (rule imageI)
  then show ?thesis using assms(2) unfolding matrix_codes_def by (simp add: uint_0_iff)
qed

text \<open>
  The host can tell keys apart: in both code sets the byte sequences of two keys of the
  matrix, or of a press and a release, are the same only if the keys have the same code and both
  are presses or both are releases.
\<close>

theorem scancodes_unambiguous:
  assumes "code_set \<in> {SCANCODE_SET_1, SCANCODE_SET_2}" "c \<in> set (concat scancode_set2)" "d \<in> set (concat scancode_set2)"
    and "c \<noteq> 0" "d \<noteq> 0"
  shows "scancode_bytes c p code_set = scancode_bytes d q code_set \<longleftrightarrow> c = d \<and> p = q"
proof
  assume eq: "scancode_bytes c p code_set = scancode_bytes d q code_set"
  have "distinct (matrix_bytes code_set)" using assms(1) matrix_bytes_distinct by auto
  then have inj: "inj_on (\<lambda>(c, p). bytes_value (scancode_bytes (word_of_int c) p code_set)) (set matrix_codes \<times> UNIV)"
    by (simp add: matrix_bytes_def distinct_map UNIV_bool insert_commute)
  have "(uint c, p) \<in> set matrix_codes \<times> UNIV" "(uint d, q) \<in> set matrix_codes \<times> UNIV"
    using in_matrix_codes [OF assms(2,4)] in_matrix_codes [OF assms(3,5)] by simp_all
  from inj_onD [OF inj _ this] have "(uint c, p) = (uint d, q)" using eq by simp
  then show "c = d \<and> p = q" by (simp add: word_uint_eq_iff)
qed simp

text \<open>
  Disabling the keyboard does not stop keystrokes: the command that sets the disable bit of
  the command byte clears \<open>keyboard_enabled\<close>, but no operation looks at it. A key pressed
  afterwards is still queued for the host.
\<close>

theorem disabled_keyboard_still_types:
  assumes "kb_reach s" "keystroke_enabled s"
  shows "\<exists>s1. handle_keyboard_command lpc 0xad s = Some ([], s1) \<and> bit (controller_ram s1 ! 0) 4 \<and> \<not> keyboard_enabled s1
    \<and> (\<forall>board row col now_val bytes. matrix_callback board row col True (scancode_set s1) s1 = Inr bytes \<longrightarrow>
         (\<exists>s2. keyboard_state_changed board now_val row col True s1 = Some s2 \<and> pending_out s2 = bytes))"
proof -
  note inv = kb_reach_inv [OF assms(1)]
  let ?s = "kblog_put (CHR ''c'') 0xad s"
  define d where "d = read_ctl_ram 0 ?s OR I8042_KBD_DIS"
  define u where "u = update_ctl_ram 0 d ?s"
  define v where "v = clear_typematic_key (reset_rate_and_delay u)"
  have "kb_inv ?s" using inv by simp
  note up = update_ctl_ram_spec [OF this, of 0 d, folded u_def]
  have d4: "bit d 4" by (simp add: d_def bit_or_iff bit_numeral_rec)
  have u: "keystroke_enabled u" "controller_ram u ! 0 = d" "\<not> keyboard_enabled u"
    using assms(2) up(2,3) inv d4 by (simp_all add: u_def kb_inv_def)
  have v: "kb_inv v" "keystroke_enabled v" "controller_ram v ! 0 = d" "\<not> keyboard_enabled v"
    using up(1) u by (simp_all add: v_def clear_typematic_inv)
      (simp_all add: clear_typematic_key_def reset_rate_and_delay_def set_typematic_delays_def)
  from clear_spec [of v] v(1) obtain q where q: "keyboard_clear_buffer v = Some (v\<lparr>to_host := q, kb_calls := kb_calls v @ [ClearLpcBuffer]\<rparr>)"
      "byte_queue q" "queued_bytes q = []" by (auto simp: kb_inv_def)
  define s1 where "s1 = v\<lparr>to_host := q, kb_calls := kb_calls v @ [ClearLpcBuffer]\<rparr>"
  have c: "handle_keyboard_command lpc 0xad s = Some ([], s1)"
    by (simp add: handle_keyboard_command_def Let_def d_def [symmetric] u_def [symmetric] v_def [symmetric] q(1) s1_def)
  have s1: "byte_queue (to_host s1)" "pending_out s1 = []" "keystroke_enabled s1" using q v by (simp_all add: s1_def pending_out_def)
  have "\<exists>s2. keyboard_state_changed board now_val row col True s1 = Some s2 \<and> pending_out s2 = bytes"
    if m: "matrix_callback board row col True (scancode_set s1) s1 = Inr bytes" for board row col now_val bytes
  proof -
    have bytes: "bytes \<noteq> []" "length bytes \<le> 4" using matrix_callback_length [OF m] by simp_all
    obtain l q' where "i8042_send_to_host bytes s1 = s1\<lparr>kblog := l, to_host := q', kb_calls := kb_calls s1 @ [WakeKeyproto]\<rparr>"
        "queued_bytes q' = bytes"
      using send_spec [OF s1(1), of bytes] bytes(2) s1(2) by (auto simp: pending_out_def)
    then show ?thesis using s1(3) bytes(1)
      by (simp add: keyboard_state_changed_def Let_def m kb_call_def set_typematic_key_def keyboard_wakeup_def pending_out_def)
  qed
  then show ?thesis using c v d4 by (auto simp: s1_def)
qed

text \<open>
  The table of button codes lacks an entry for the recovery button: every later button sends the
  code meant for the one after it, and the last one a zero code.
\<close>

lemma capsense_codes_shifted:
  "map (\<lambda>n. fst (buttons_8042 ! button_index (KEYBOARD_BUTTON_CAPSENSE n))) [1..<9]
     = [0x001e, 0x0026, 0x0025, 0x002e, 0x0036, 0x003d, 0x003e, 0]"
  "fst (buttons_8042 ! button_index KEYBOARD_BUTTON_RECOVERY) = 0x0016"
  by code_simp+

section \<open>Examples\<close>

text \<open>A controller whose host uses code set 2 without translation and has enabled keystrokes.\<close>

definition ex_kbd :: kbd where
  "ex_kbd = keyboard_restore_state (Some (2, [2, 0, 1])) (reset_rate_and_delay kbd_initial)"

definition ex_board :: kb_board where
  "ex_board = \<lparr>keyboard_cols = 13, scancode_callback = None\<rparr>"

definition ex_lpc :: lpc where
  "ex_lpc = \<lparr>lpc_input_pending = False, lpc_has_char = False\<rparr>"

lemma ex_kbd_reach: "kb_reach ex_kbd"
  unfolding ex_kbd_def by (rule kb_reach.one_step [OF kb_reach.start kb_step.restore])

lemma ex_kbd_state:
  "keystroke_enabled ex_kbd" "queue_units (from_host ex_kbd) = []" "pending_out ex_kbd = []" "delivered ex_kbd = []"
  "data_port_state ex_kbd = STATE_NORMAL" "typematic_first_delay ex_kbd = 500000"
  "matrix_callback ex_board 4 1 True (scancode_set ex_kbd) ex_kbd = Inr [0x1c]"
  by code_simp+

theorem keyboard_never_fails_witness:
  "(\<exists>s'. i8042_handle_from_host ex_lpc ex_kbd = Some s' \<and> queue_units (from_host s') = [])
    \<and> (\<exists>s'. keyboard_state_changed ex_board 0 4 1 True ex_kbd = Some s') \<and> length (pending_out ex_kbd) \<le> 16"
  using keyboard_never_fails [OF ex_kbd_reach] by blast

text \<open>The key A is pressed: 0x1c in set 2, which the host has chosen. In set 1 it is the key number 0x1e.\<close>

theorem typed_key_reaches_host_witness:
  "(\<exists>s1 w r s2. keyboard_state_changed ex_board 0 4 1 True ex_kbd = Some s1
    \<and> protocol_turns [(100, ex_lpc, False), (200, ex_lpc, False)] 0 s1 = Some (w, r, s2) \<and> delivered s2 = [0x1c])
    \<and> key_bytes True True 0x1c = [0x1e] \<and> key_bytes True False 0x1c = [0x9e] \<and> key_bytes False False 0xe014 = [0xe0, 0xf0, 0x14]"
proof -
  have k: "key_bytes True True 0x1c = [0x1e]" "key_bytes True False 0x1c = [0x9e]" "key_bytes False False 0xe014 = [0xe0, 0xf0, 0x14]"
    "[0x1c] = key_bytes (bit (controller_ram ex_kbd ! 0) 6 \<or> scancode_set ex_kbd = 1) True (uint (scancode_set2 ! 1 ! 4))"
    "scancode_callback ex_board = None" "keyboard_cols ex_board \<le> 13" "1 < keyboard_cols ex_board" "scancode_set2 ! 1 ! 4 \<noteq> 0"
    "bit (controller_ram ex_kbd ! 0) 6 \<or> scancode_set ex_kbd \<in> {1, 2}" by code_simp+
  have "\<not> timestamp_expired (0 + word_of_int (typematic_first_delay ex_kbd)) 100"
    "\<not> timestamp_expired (0 + word_of_int (typematic_first_delay ex_kbd)) 200"
    unfolding ex_kbd_state by code_simp+
  then have "\<exists>s1 w r s2. keyboard_state_changed ex_board 0 4 1 True ex_kbd = Some s1
    \<and> protocol_turns [(100, ex_lpc, False), (200, ex_lpc, False)] 0 s1 = Some (w, r, s2) \<and> delivered s2 = [0x1c]"
    using typed_key_reaches_host [OF ex_kbd_reach ex_kbd_state(1,2) k(5,6) _ k(7-9,4), of "[(100, ex_lpc, False), (200, ex_lpc, False)]" 0 0]
    by (simp add: ex_kbd_state(3,4)) blast
  then show ?thesis using k(1-3) by blast
qed

theorem resend_repeats_answer_witness:
  "\<exists>s1 s2. handle_keyboard_data 0xf2 ex_kbd = Some ([0xfa, 0xab, 0x83], s1)
    \<and> handle_keyboard_data 0xfe s1 = Some ([0xfa, 0xab, 0x83], s2)"
proof -
  obtain s1 where s1: "handle_keyboard_data 0xf2 ex_kbd = Some ([0xfa, 0xab, 0x83], s1)" "data_port_state s1 = STATE_NORMAL"
    using ex_kbd_state(5) by (simp add: handle_keyboard_data_def Let_def normal_data_def)
  from resend_repeats_answer [OF ex_kbd_reach s1(1) _ _ s1(2)] s1(1) show ?thesis by auto
qed

theorem controller_ram_roundtrip_witness:
  "\<exists>s1 s2 s3. handle_keyboard_command ex_lpc 0x65 ex_kbd = Some ([], s1) \<and> handle_keyboard_data 0x77 s1 = Some ([], s2)
    \<and> handle_keyboard_command ex_lpc 0x25 s2 = Some ([0x77], s3)"
  using controller_ram_roundtrip [OF ex_kbd_reach, of 5 ex_lpc "0x77"] by (auto simp del: One_nat_def)

theorem sysjump_keeps_settings_witness:
  "scancode_set (keyboard_restore_state (Some (keyboard_preserve_state ex_kbd)) (reset_rate_and_delay kbd_initial)) = scancode_set ex_kbd
    \<and> keystroke_enabled (keyboard_restore_state (Some (keyboard_preserve_state ex_kbd)) (reset_rate_and_delay kbd_initial))"
  using sysjump_keeps_settings [OF ex_kbd_reach] ex_kbd_state(1) by simp

theorem scancodes_unambiguous_witness:
  "scancode_bytes 0xe014 True 2 \<noteq> scancode_bytes 0xe014 False 2 \<and> scancode_bytes 0xe014 True 1 \<noteq> scancode_bytes 0x0014 True 1"
proof -
  have "0xe014 \<in> set (concat scancode_set2)" "0x0014 \<in> set (concat scancode_set2)" by (simp_all add: scancode_set2_def)
  then show ?thesis
    using scancodes_unambiguous [of 2 "0xe014" "0xe014" True False] scancodes_unambiguous [of 1 "0xe014" "0x0014" True True] by simp
qed

theorem disabled_keyboard_still_types_witness:
  "\<exists>s1. handle_keyboard_command ex_lpc 0xad ex_kbd = Some ([], s1) \<and> \<not> keyboard_enabled s1
    \<and> (\<forall>bytes. matrix_callback ex_board 4 1 True (scancode_set s1) s1 = Inr bytes \<longrightarrow>
         (\<exists>s2. keyboard_state_changed ex_board 0 4 1 True s1 = Some s2 \<and> pending_out s2 = bytes))"
  using disabled_keyboard_still_types [OF ex_kbd_reach ex_kbd_state(1), of ex_lpc] by blast

end
