(* ===== verification/Battery.thy ===== *)
theory Battery
  imports Util_Strings
begin

text \<open>
  The battery: the parameters the smart battery driver reads (driver/battery/smart.c), their
  compensation for the host (common/battery.c), and cutting the battery off (common/battery.c).
  The bus is a parameter: \<open>rd\<close> answers the 16-bit reads of \<open>i2c_read16\<close> with an error code or a
  word, \<open>wr\<close> gives the result of the writes, which are recorded.
\<close>

section \<open>Parameters\<close>

datatype battery_present = BP_NOT_INIT | BP_NO | BP_YES | BP_NOT_SURE

datatype battery_cutoff_states = BATTERY_CUTOFF_STATE_NORMAL | BATTERY_CUTOFF_STATE_CUT_OFF | BATTERY_CUTOFF_STATE_PENDING

record batt_params =
  b_temperature :: int
  b_state_of_charge :: int
  b_voltage :: int
  b_current :: int
  b_desired_voltage :: int
  b_desired_current :: int
  b_remaining_capacity :: int
  b_full_capacity :: int
  b_display_charge :: int
  b_status :: int
  b_is_present :: battery_present
  b_flags :: u32

definition batt_zero :: batt_params where
  "batt_zero = \<lparr>b_temperature = 0, b_state_of_charge = 0, b_voltage = 0, b_current = 0, b_desired_voltage = 0,
     b_desired_current = 0, b_remaining_capacity = 0, b_full_capacity = 0, b_display_charge = 0, b_status = 0,
     b_is_present = BP_NO, b_flags = 0\<rparr>"

record battery_info =
  voltage_max :: int
  voltage_normal :: int
  voltage_min :: int
  precharge_current :: int
  discharging_min_c :: int
  discharging_max_c :: int

text \<open>The bits of \<open>flags\<close>, by position.\<close>

abbreviation (input) BATT_FLAG_WANT_CHARGE :: nat where "BATT_FLAG_WANT_CHARGE \<equiv> 0"
abbreviation (input) BATT_FLAG_RESPONSIVE :: nat where "BATT_FLAG_RESPONSIVE \<equiv> Suc 0"
abbreviation (input) BATT_FLAG_BAD_TEMPERATURE :: nat where "BATT_FLAG_BAD_TEMPERATURE \<equiv> 2"
abbreviation (input) BATT_FLAG_BAD_STATE_OF_CHARGE :: nat where "BATT_FLAG_BAD_STATE_OF_CHARGE \<equiv> 3"
abbreviation (input) BATT_FLAG_BAD_VOLTAGE :: nat where "BATT_FLAG_BAD_VOLTAGE \<equiv> 4"
abbreviation (input) BATT_FLAG_BAD_CURRENT :: nat where "BATT_FLAG_BAD_CURRENT \<equiv> 5"
abbreviation (input) BATT_FLAG_BAD_DESIRED_VOLTAGE :: nat where "BATT_FLAG_BAD_DESIRED_VOLTAGE \<equiv> 6"
abbreviation (input) BATT_FLAG_BAD_DESIRED_CURRENT :: nat where "BATT_FLAG_BAD_DESIRED_CURRENT \<equiv> 7"
abbreviation (input) BATT_FLAG_BAD_REMAINING_CAPACITY :: nat where "BATT_FLAG_BAD_REMAINING_CAPACITY \<equiv> 8"
abbreviation (input) BATT_FLAG_BAD_FULL_CAPACITY :: nat where "BATT_FLAG_BAD_FULL_CAPACITY \<equiv> 9"
abbreviation (input) BATT_FLAG_BAD_STATUS :: nat where "BATT_FLAG_BAD_STATUS \<equiv> 10"
abbreviation (input) BATT_FLAG_IMBALANCED_CELL :: nat where "BATT_FLAG_IMBALANCED_CELL \<equiv> 11"
abbreviation (input) BATT_FLAG_BAD_ANY :: u32 where "BATT_FLAG_BAD_ANY \<equiv> 0x7fc"

definition has_flag :: "batt_params \<Rightarrow> nat \<Rightarrow> bool" where
  "has_flag b n = (b_flags b AND push_bit n 1 \<noteq> 0)"

definition set_flag :: "nat \<Rightarrow> bool \<Rightarrow> batt_params \<Rightarrow> batt_params" where
  "set_flag n on b = (if on then b\<lparr>b_flags := b_flags b OR push_bit n 1\<rparr> else b)"

section \<open>Smart battery driver\<close>

text \<open>
  The build options, the driver's statics, and the bus. \<open>imbalance\<close> is the limit of
  CONFIG_BATTERY_MEASURE_IMBALANCE, \<open>present\<close> the answer of the hardware test for presence, where
  there is one.
\<close>

record batt_cfg =
  cut_off_cfg :: bool
  nil_when_dead :: bool
  imbalance :: "int option"
  has_hostcmd :: bool
  batt_full_factor :: int
  batt_host_full_factor :: int
  batt_host_shutdown_pct :: int

record batt_drv =
  battery_cutoff_state :: battery_cutoff_states
  fake_state_of_charge :: int

record batt_bus =
  rd :: "nat \<Rightarrow> int + u16"
  wr :: "nat \<Rightarrow> int \<Rightarrow> int"
  imbalance_mv :: int
  present_hw :: "battery_present option"

abbreviation (input) EC_RES_ACCESS_DENIED :: int where "EC_RES_ACCESS_DENIED \<equiv> 4"

definition battery_is_cut_off :: "batt_cfg \<Rightarrow> batt_drv \<Rightarrow> bool" where
  "battery_is_cut_off c d = (cut_off_cfg c \<and> battery_cutoff_state d = BATTERY_CUTOFF_STATE_CUT_OFF)"

definition sb_read :: "batt_cfg \<Rightarrow> batt_drv \<Rightarrow> batt_bus \<Rightarrow> nat \<Rightarrow> int + int" where
  "sb_read c d bus cmd =
     (if battery_is_cut_off c d then Inl EC_RES_ACCESS_DENIED
      else case rd bus cmd of Inl e \<Rightarrow> Inl e | Inr w \<Rightarrow> Inr (uint w))"

text \<open>A write gives its result and the transfers made on the bus.\<close>

definition sb_write :: "batt_cfg \<Rightarrow> batt_drv \<Rightarrow> batt_bus \<Rightarrow> nat \<Rightarrow> int \<Rightarrow> int \<times> (nat \<times> int) list" where
  "sb_write c d bus cmd param =
     (if battery_is_cut_off c d then (EC_RES_ACCESS_DENIED, []) else (wr bus cmd param, [(cmd, param)]))"

abbreviation (input) SB_BATTERY_MODE :: nat where "SB_BATTERY_MODE \<equiv> 0x03"
abbreviation (input) SB_TEMPERATURE :: nat where "SB_TEMPERATURE \<equiv> 0x08"
abbreviation (input) SB_VOLTAGE :: nat where "SB_VOLTAGE \<equiv> 0x09"
abbreviation (input) SB_CURRENT :: nat where "SB_CURRENT \<equiv> 0x0a"
abbreviation (input) SB_RELATIVE_STATE_OF_CHARGE :: nat where "SB_RELATIVE_STATE_OF_CHARGE \<equiv> 0x0d"
abbreviation (input) SB_REMAINING_CAPACITY :: nat where "SB_REMAINING_CAPACITY \<equiv> 0x0f"
abbreviation (input) SB_FULL_CHARGE_CAPACITY :: nat where "SB_FULL_CHARGE_CAPACITY \<equiv> 0x10"
abbreviation (input) SB_CHARGING_CURRENT :: nat where "SB_CHARGING_CURRENT \<equiv> 0x14"
abbreviation (input) SB_CHARGING_VOLTAGE :: nat where "SB_CHARGING_VOLTAGE \<equiv> 0x15"
abbreviation (input) SB_BATTERY_STATUS :: nat where "SB_BATTERY_STATUS \<equiv> 0x16"
abbreviation (input) SB_SPECIFICATION_INFO :: nat where "SB_SPECIFICATION_INFO \<equiv> 0x1a"
abbreviation (input) SB_MANUFACTURER_DATE :: nat where "SB_MANUFACTURER_DATE \<equiv> 0x1b"
abbreviation (input) MODE_CAPACITY :: int where "MODE_CAPACITY \<equiv> 0x8000"

definition battery_force_mah_mode :: "batt_cfg \<Rightarrow> batt_drv \<Rightarrow> batt_bus \<Rightarrow> int \<times> (nat \<times> int) list" where
  "battery_force_mah_mode c d bus =
     (case sb_read c d bus SB_BATTERY_MODE of
        Inl e \<Rightarrow> (e, [])
      | Inr val \<Rightarrow> if val AND MODE_CAPACITY \<noteq> 0 then sb_write c d bus SB_BATTERY_MODE (val AND NOT MODE_CAPACITY) else (0, []))"

text \<open>
  \<open>battery_remaining_capacity\<close>, \<open>battery_full_charge_capacity\<close> and \<open>battery_design_capacity\<close>
  differ in the register only.
\<close>

definition read_capacity :: "batt_cfg \<Rightarrow> batt_drv \<Rightarrow> batt_bus \<Rightarrow> nat \<Rightarrow> (int + int) \<times> (nat \<times> int) list" where
  "read_capacity c d bus cmd =
     (let (rv, ws) = battery_force_mah_mode c d bus in if rv \<noteq> 0 then (Inl rv, ws) else (sb_read c d bus cmd, ws))"

text \<open>
  The error code of a failed read is its only answer: the value stays as it was. Every code is
  nonzero (\<open>bus_ok\<close>); a code of 0 is a success whose value was not written, which the bus does not
  produce.
\<close>

definition bus_ok :: "batt_bus \<Rightarrow> bool" where
  "bus_ok bus \<longleftrightarrow> (\<forall>cmd. rd bus cmd \<noteq> Inl 0)"

fun took :: "int + int \<Rightarrow> int \<Rightarrow> int" where
  "took (Inl e) old = old"
| "took (Inr v) old = v"

fun failed :: "int + int \<Rightarrow> bool" where
  "failed (Inl e) = (e \<noteq> 0)"
| "failed (Inr v) = False"

section \<open>Compensation\<close>

text \<open>
  \<open>lfcc\<close> is the last full charge capacity in the memory the host reads. \<open>None\<close> is a division by
  zero.
\<close>

definition battery_compensate_params :: "batt_cfg \<Rightarrow> int \<Rightarrow> batt_params \<Rightarrow> batt_params option" where
  "battery_compensate_params c lfcc batt =
     (let remain = b_remaining_capacity batt; full = b_full_capacity batt in
      if has_flag batt BATT_FLAG_BAD_FULL_CAPACITY \<or> has_flag batt BATT_FLAG_BAD_REMAINING_CAPACITY then Some batt
      else if remain \<le> 0 \<or> full \<le> 0 then Some batt
      else if batt_host_full_factor c \<noteq> 100 then Some batt
      else
        let batt = batt\<lparr>b_full_capacity := s32 (full * batt_full_factor c) sdiv 100\<rparr>;
            lfcc = (if lfcc = 0 then b_full_capacity batt else lfcc);
            batt = (if remain > lfcc then batt\<lparr>b_remaining_capacity := lfcc\<rparr> else batt);
            remain = (if remain > lfcc then lfcc else remain);
            numer = s32 (s32 (s32 (100 * remain) - s32 (lfcc * batt_host_shutdown_pct c)) * 1000);
            denom = s32 (lfcc * s32 (100 - batt_host_shutdown_pct c))
        in if denom = 0 then None
           else Some (batt\<lparr>b_display_charge := s32 (numer + denom sdiv 2) sdiv denom\<rparr>))"

section \<open>Reading the parameters\<close>

definition read_flags :: "batt_cfg \<Rightarrow> batt_drv \<Rightarrow> batt_bus \<Rightarrow> batt_params \<times> (nat \<times> int) list" where
  "read_flags c d bus =
     (let t = sb_read c d bus SB_TEMPERATURE; soc = sb_read c d bus SB_RELATIVE_STATE_OF_CHARGE;
          v = sb_read c d bus SB_VOLTAGE; i = sb_read c d bus SB_CURRENT;
          dv = sb_read c d bus SB_CHARGING_VOLTAGE; di = sb_read c d bus SB_CHARGING_CURRENT;
          (rc, w1) = read_capacity c d bus SB_REMAINING_CAPACITY;
          (fc, w2) = read_capacity c d bus SB_FULL_CHARGE_CAPACITY;
          st = sb_read c d bus SB_BATTERY_STATUS;
          fake = fake_state_of_charge d;
          b = set_flag BATT_FLAG_BAD_TEMPERATURE (failed t) (batt_zero\<lparr>b_temperature := took t 0\<rparr>);
          b = set_flag BATT_FLAG_BAD_STATE_OF_CHARGE (failed soc \<and> fake < 0) (b\<lparr>b_state_of_charge := took soc 0\<rparr>);
          b = (if fake \<ge> 0 then b\<lparr>b_state_of_charge := fake\<rparr> else b);
          b = set_flag BATT_FLAG_BAD_VOLTAGE (failed v) (b\<lparr>b_voltage := took v 0\<rparr>);
          b = (if failed i then set_flag BATT_FLAG_BAD_CURRENT True b else b\<lparr>b_current := signed_take_bit 15 (took i 0)\<rparr>);
          b = set_flag BATT_FLAG_BAD_DESIRED_VOLTAGE (failed dv) (b\<lparr>b_desired_voltage := took dv 0\<rparr>);
          b = set_flag BATT_FLAG_BAD_DESIRED_CURRENT (failed di) (b\<lparr>b_desired_current := took di 0\<rparr>);
          b = set_flag BATT_FLAG_BAD_REMAINING_CAPACITY (failed rc) (b\<lparr>b_remaining_capacity := took rc 0\<rparr>);
          b = set_flag BATT_FLAG_BAD_FULL_CAPACITY (failed fc) (b\<lparr>b_full_capacity := took fc 0\<rparr>);
          b = set_flag BATT_FLAG_BAD_STATUS (failed st) (b\<lparr>b_status := took st 0\<rparr>)
      in (b, w1 @ w2))"

definition wants_charge :: "batt_cfg \<Rightarrow> batt_params \<Rightarrow> bool" where
  "wants_charge c b \<longleftrightarrow>
     \<not> has_flag b BATT_FLAG_BAD_DESIRED_VOLTAGE \<and> \<not> has_flag b BATT_FLAG_BAD_DESIRED_CURRENT
     \<and> \<not> has_flag b BATT_FLAG_BAD_STATE_OF_CHARGE
     \<and> (b_desired_voltage b \<noteq> 0 \<and> b_desired_current b \<noteq> 0 \<and> b_state_of_charge b < 100
        \<or> nil_when_dead c \<and> b_desired_voltage b = 0 \<and> b_desired_current b = 0 \<and> b_state_of_charge b = 0)"

definition battery_get_params :: "batt_cfg \<Rightarrow> batt_drv \<Rightarrow> batt_bus \<Rightarrow> int \<Rightarrow> (batt_params \<times> (nat \<times> int) list) option" where
  "battery_get_params c d bus lfcc =
     (let (b, ws) = read_flags c d bus;
          b = set_flag BATT_FLAG_RESPONSIVE (b_flags b AND BATT_FLAG_BAD_ANY \<noteq> BATT_FLAG_BAD_ANY) b;
          b = set_flag BATT_FLAG_IMBALANCED_CELL (case imbalance c of None \<Rightarrow> False | Some m \<Rightarrow> imbalance_mv bus > m) b;
          b = b\<lparr>b_is_present := (case present_hw bus of Some p \<Rightarrow> p
                 | None \<Rightarrow> if has_flag b BATT_FLAG_RESPONSIVE then BP_YES else BP_NOT_SURE)\<rparr>;
          b = (if wants_charge c b then set_flag BATT_FLAG_WANT_CHARGE True b else b\<lparr>b_desired_voltage := 0, b_desired_current := 0\<rparr>)
      in map_option (\<lambda>b. (b, ws)) (if has_hostcmd c then battery_compensate_params c lfcc b else Some b))"

section \<open>Flags\<close>

lemma has_flag_bit: "has_flag b n \<longleftrightarrow> bit (b_flags b) n"
  unfolding has_flag_def using and_exp_bit [of "b_flags b" n] by (simp add: push_bit_eq_mult)

lemma set_flag_fields [simp]:
  "b_temperature (set_flag n on b) = b_temperature b" "b_state_of_charge (set_flag n on b) = b_state_of_charge b"
  "b_voltage (set_flag n on b) = b_voltage b" "b_current (set_flag n on b) = b_current b"
  "b_desired_voltage (set_flag n on b) = b_desired_voltage b" "b_desired_current (set_flag n on b) = b_desired_current b"
  "b_remaining_capacity (set_flag n on b) = b_remaining_capacity b" "b_full_capacity (set_flag n on b) = b_full_capacity b"
  "b_display_charge (set_flag n on b) = b_display_charge b" "b_status (set_flag n on b) = b_status b"
  "b_is_present (set_flag n on b) = b_is_present b"
  by (simp_all add: set_flag_def)

lemma bit_set_flag [simp]: "bit (b_flags (set_flag n on b)) m \<longleftrightarrow> bit (b_flags b) m \<or> on \<and> m = n \<and> n < 32"
  by (auto simp: set_flag_def bit_simps dest: bit_imp_le_length)

lemmas if_fields = if_distrib [of b_flags] if_distrib [of b_state_of_charge] if_distrib [of b_voltage] if_distrib [of b_temperature]
  if_distrib [of b_current] if_distrib [of b_desired_voltage] if_distrib [of b_desired_current] if_distrib [of b_remaining_capacity]
  if_distrib [of b_full_capacity] if_distrib [of b_status] if_distrib [of b_display_charge] if_distrib [of b_is_present]

text \<open>The reads that fail, by the flag that reports them. A faked state of charge never counts as bad.\<close>

definition bad_read :: "batt_cfg \<Rightarrow> batt_drv \<Rightarrow> batt_bus \<Rightarrow> nat \<Rightarrow> bool" where
  "bad_read c d bus n \<longleftrightarrow>
     n = BATT_FLAG_BAD_TEMPERATURE \<and> failed (sb_read c d bus SB_TEMPERATURE)
   \<or> n = BATT_FLAG_BAD_STATE_OF_CHARGE \<and> failed (sb_read c d bus SB_RELATIVE_STATE_OF_CHARGE) \<and> fake_state_of_charge d < 0
   \<or> n = BATT_FLAG_BAD_VOLTAGE \<and> failed (sb_read c d bus SB_VOLTAGE)
   \<or> n = BATT_FLAG_BAD_CURRENT \<and> failed (sb_read c d bus SB_CURRENT)
   \<or> n = BATT_FLAG_BAD_DESIRED_VOLTAGE \<and> failed (sb_read c d bus SB_CHARGING_VOLTAGE)
   \<or> n = BATT_FLAG_BAD_DESIRED_CURRENT \<and> failed (sb_read c d bus SB_CHARGING_CURRENT)
   \<or> n = BATT_FLAG_BAD_REMAINING_CAPACITY \<and> failed (fst (read_capacity c d bus SB_REMAINING_CAPACITY))
   \<or> n = BATT_FLAG_BAD_FULL_CAPACITY \<and> failed (fst (read_capacity c d bus SB_FULL_CHARGE_CAPACITY))
   \<or> n = BATT_FLAG_BAD_STATUS \<and> failed (sb_read c d bus SB_BATTERY_STATUS)"

lemma read_flags_bits: "bit (b_flags (fst (read_flags c d bus))) n \<longleftrightarrow> bad_read c d bus n"
  by (auto simp: read_flags_def Let_def split_beta if_fields bad_read_def batt_zero_def)

lemma read_flags_values:
  "b_desired_voltage (fst (read_flags c d bus)) = took (sb_read c d bus SB_CHARGING_VOLTAGE) 0"
  "b_desired_current (fst (read_flags c d bus)) = took (sb_read c d bus SB_CHARGING_CURRENT) 0"
  "b_state_of_charge (fst (read_flags c d bus)) = (if fake_state_of_charge d \<ge> 0 then fake_state_of_charge d
     else took (sb_read c d bus SB_RELATIVE_STATE_OF_CHARGE) 0)"
  "b_voltage (fst (read_flags c d bus)) = took (sb_read c d bus SB_VOLTAGE) 0"
  "b_temperature (fst (read_flags c d bus)) = took (sb_read c d bus SB_TEMPERATURE) 0"
  by (simp_all add: read_flags_def Let_def split_beta if_fields batt_zero_def)

lemma bad_any_iff: "w AND BATT_FLAG_BAD_ANY = BATT_FLAG_BAD_ANY \<longleftrightarrow> (\<forall>n \<in> {2..10}. bit w n)" for w :: u32
proof -
  have m: "bit BATT_FLAG_BAD_ANY n \<longleftrightarrow> n \<in> {2..10}" if "n < 32" for n
    using that by (auto simp: less_Suc_eq numeral_eq_Suc)
  have "w AND BATT_FLAG_BAD_ANY = BATT_FLAG_BAD_ANY \<longleftrightarrow> (\<forall>n < 32. bit w n \<and> bit BATT_FLAG_BAD_ANY n \<longleftrightarrow> bit BATT_FLAG_BAD_ANY n)"
    by (auto simp add: bit_eq_iff bit_and_iff simp del: bit_numeral_simps)
  also have "\<dots> \<longleftrightarrow> (\<forall>n \<in> {2..10}. bit w n)"
  proof -
    have "n < 32" if "n \<in> {2..10}" for n :: nat using that by simp
    then show ?thesis using m by blast
  qed
  finally show ?thesis .
qed

lemma compensate_keeps:
  assumes "battery_compensate_params c lfcc b = Some b'"
  shows "b_flags b' = b_flags b" "b_desired_voltage b' = b_desired_voltage b" "b_desired_current b' = b_desired_current b"
    "b_state_of_charge b' = b_state_of_charge b" "b_voltage b' = b_voltage b" "b_temperature b' = b_temperature b"
    "b_is_present b' = b_is_present b" "b_current b' = b_current b"
  using assms by (auto simp: battery_compensate_params_def Let_def split: if_splits)

lemma took_ok: "bus_ok bus \<Longrightarrow> \<not> failed (sb_read c d bus r) \<Longrightarrow> sb_read c d bus r = Inr (took (sb_read c d bus r) 0)"
  by (cases "rd bus r") (auto simp: sb_read_def bus_ok_def split: if_splits)

text \<open>
  The driver tells the truth about what it could read: each bad flag is set exactly if that
  read failed, the battery counts as responsive exactly if some value was obtained, and the charger
  is only ever asked for a voltage or a current that the battery itself requested, below 100
  percent; a request that could not be read completely is withdrawn as a whole.
\<close>

theorem battery_get_params_sound:
  assumes "bus_ok bus" "battery_get_params c d bus lfcc = Some (b, ws)"
  shows "(\<forall>n \<in> {2..10}. has_flag b n \<longleftrightarrow> bad_read c d bus n)
     \<and> (has_flag b BATT_FLAG_RESPONSIVE \<longleftrightarrow> (\<exists>n \<in> {2..10}. \<not> bad_read c d bus n))
     \<and> (b_desired_voltage b = 0 \<and> b_desired_current b = 0
        \<or> has_flag b BATT_FLAG_WANT_CHARGE \<and> b_state_of_charge b < 100
          \<and> sb_read c d bus SB_CHARGING_VOLTAGE = Inr (b_desired_voltage b) \<and> b_desired_voltage b \<noteq> 0
          \<and> sb_read c d bus SB_CHARGING_CURRENT = Inr (b_desired_current b) \<and> b_desired_current b \<noteq> 0)"
proof -
  let ?r = "fst (read_flags c d bus)"
  let ?resp = "b_flags ?r AND BATT_FLAG_BAD_ANY \<noteq> BATT_FLAG_BAD_ANY"
  define b1 where "b1 = (set_flag BATT_FLAG_IMBALANCED_CELL (case imbalance c of None \<Rightarrow> False | Some m \<Rightarrow> imbalance_mv bus > m)
      (set_flag BATT_FLAG_RESPONSIVE ?resp ?r))"
  define b2 where "b2 = b1\<lparr>b_is_present := (case present_hw bus of Some p \<Rightarrow> p
      | None \<Rightarrow> if has_flag b1 BATT_FLAG_RESPONSIVE then BP_YES else BP_NOT_SURE)\<rparr>"
  define b3 where "b3 = (if wants_charge c b2 then set_flag BATT_FLAG_WANT_CHARGE True b2 else b2\<lparr>b_desired_voltage := 0, b_desired_current := 0\<rparr>)"
  have b: "(if has_hostcmd c then battery_compensate_params c lfcc b3 else Some b3) = Some b"
    using assms(2) unfolding battery_get_params_def Let_def split_beta b3_def b2_def b1_def by (auto split: if_splits)
  have same: "b_flags b = b_flags b3" "b_desired_voltage b = b_desired_voltage b3" "b_desired_current b = b_desired_current b3"
      "b_state_of_charge b = b_state_of_charge b3"
    using b compensate_keeps [of c lfcc b3 b] by (auto split: if_splits)
  have n: "n \<in> {2..10}" if "bad_read c d bus n" for n using that by (auto simp: bad_read_def)
  have flags: "has_flag b3 n \<longleftrightarrow> bad_read c d bus n \<or> n = BATT_FLAG_RESPONSIVE \<and> ?resp
      \<or> n = BATT_FLAG_IMBALANCED_CELL \<and> (case imbalance c of None \<Rightarrow> False | Some m \<Rightarrow> imbalance_mv bus > m) \<or> n = BATT_FLAG_WANT_CHARGE \<and> wants_charge c b2" for n
    by (auto simp: has_flag_bit b3_def b2_def b1_def read_flags_bits)
  have resp: "?resp \<longleftrightarrow> (\<exists>n \<in> {2..10}. \<not> bad_read c d bus n)"
    by (simp add: bad_any_iff read_flags_bits)
  have "b_desired_voltage b = 0 \<and> b_desired_current b = 0
        \<or> has_flag b BATT_FLAG_WANT_CHARGE \<and> b_state_of_charge b < 100
          \<and> sb_read c d bus SB_CHARGING_VOLTAGE = Inr (b_desired_voltage b) \<and> b_desired_voltage b \<noteq> 0
          \<and> sb_read c d bus SB_CHARGING_CURRENT = Inr (b_desired_current b) \<and> b_desired_current b \<noteq> 0"
  proof (cases "wants_charge c b2")
    case True
    have v: "b_desired_voltage b2 = took (sb_read c d bus SB_CHARGING_VOLTAGE) 0"
        "b_desired_current b2 = took (sb_read c d bus SB_CHARGING_CURRENT) 0"
      by (simp_all add: b2_def b1_def read_flags_values)
    have "\<not> has_flag b2 BATT_FLAG_BAD_DESIRED_VOLTAGE" "\<not> has_flag b2 BATT_FLAG_BAD_DESIRED_CURRENT"
      using True by (simp_all add: wants_charge_def)
    then have "\<not> failed (sb_read c d bus SB_CHARGING_VOLTAGE)" "\<not> failed (sb_read c d bus SB_CHARGING_CURRENT)"
      by (auto simp: has_flag_bit b2_def b1_def read_flags_bits bad_read_def)
    then have "sb_read c d bus SB_CHARGING_VOLTAGE = Inr (b_desired_voltage b2)"
        "sb_read c d bus SB_CHARGING_CURRENT = Inr (b_desired_current b2)"
      using took_ok [OF assms(1)] v by metis+
    then show ?thesis using True same by (auto simp: b3_def has_flag_bit wants_charge_def)
  next
    case False
    then show ?thesis using same by (simp add: b3_def)
  qed
  moreover have hb: "has_flag b n = has_flag b3 n" for n using same by (simp add: has_flag_def)
  have "\<forall>n \<in> {2..10}. has_flag b n \<longleftrightarrow> bad_read c d bus n" unfolding hb flags by auto
  moreover have "has_flag b BATT_FLAG_RESPONSIVE \<longleftrightarrow> ?resp" unfolding hb flags using n [of "Suc 0"] by auto
  ultimately show ?thesis using resp by blast
qed

definition ex_batt_cfg :: batt_cfg where
  "ex_batt_cfg = \<lparr>cut_off_cfg = True, nil_when_dead = False, imbalance = None, has_hostcmd = True,
     batt_full_factor = 98, batt_host_full_factor = 100, batt_host_shutdown_pct = 4\<rparr>"

definition ex_bus :: batt_bus where
  "ex_bus = \<lparr>rd = (\<lambda>r. if r = SB_VOLTAGE then Inl 1 else if r = SB_RELATIVE_STATE_OF_CHARGE then Inr 50 else Inr 1000),
     wr = (\<lambda>_ _. 0), imbalance_mv = 0, present_hw = None\<rparr>"

definition ex_drv :: batt_drv where
  "ex_drv = \<lparr>battery_cutoff_state = BATTERY_CUTOFF_STATE_NORMAL, fake_state_of_charge = -1\<rparr>"

theorem battery_get_params_sound_witness:
  "\<exists>b ws. battery_get_params ex_batt_cfg ex_drv ex_bus 0 = Some (b, ws) \<and> has_flag b BATT_FLAG_RESPONSIVE
     \<and> has_flag b BATT_FLAG_BAD_VOLTAGE \<and> b_desired_current b = 1000"
proof -
  have ok: "bus_ok ex_bus" by (simp add: bus_ok_def ex_bus_def)
  have "map_option (b_desired_current \<circ> fst) (battery_get_params ex_batt_cfg ex_drv ex_bus 0) = Some 1000" by code_simp
  then obtain b ws where b: "battery_get_params ex_batt_cfg ex_drv ex_bus 0 = Some (b, ws)" "b_desired_current b = 1000" by auto
  have "bad_read ex_batt_cfg ex_drv ex_bus BATT_FLAG_BAD_VOLTAGE" "\<not> bad_read ex_batt_cfg ex_drv ex_bus BATT_FLAG_BAD_CURRENT"
    by code_simp+
  then show ?thesis using b battery_get_params_sound [OF ok b(1)] by (intro exI [of _ b] exI [of _ ws]) force
qed

section \<open>The charge shown to the user\<close>

lemma div_less_times:
  fixes n d k :: int
  assumes "0 < d" "n < k * d"
  shows "n div d < k"
proof (rule ccontr)
  assume "\<not> n div d < k"
  then have "k * d \<le> (n div d) * d" using assms(1) by simp
  also have "\<dots> \<le> n" using assms(1) by (simp add: minus_mod_eq_div_mult [symmetric])
  finally show False using assms(2) by simp
qed

text \<open>The displayed charge in tenths of a percent, in exact arithmetic.\<close>

definition display_charge :: "int \<Rightarrow> int \<Rightarrow> int \<Rightarrow> int" where
  "display_charge l p r = ((100 * r - l * p) * 1000 + l * (100 - p) div 2) sdiv (l * (100 - p))"

lemma display_charge_s32:
  fixes l p r :: int
  assumes "0 < l" "l \<le> 20000" "0 \<le> p" "p < 100" "0 < r" "r \<le> l"
  shows "s32 (l * s32 (100 - p)) = l * (100 - p)" "0 < l * (100 - p)"
    "s32 (s32 (s32 (s32 (100 * r) - s32 (l * p)) * 1000) + s32 (l * s32 (100 - p)) sdiv 2) sdiv s32 (l * s32 (100 - p))
       = display_charge l p r"
proof -
  have lp: "0 \<le> l * p" "l * p \<le> 20000 * 100" using assms mult_mono [of l 20000 p 100] by simp_all
  show d: "0 < l * (100 - p)" using assms by simp
  have d': "l * (100 - p) \<le> 20000 * 100" using assms mult_mono [of l 20000 "100 - p" 100] by simp
  have n: "(100 * r - l * p) * 1000 \<le> 1000 * (l * (100 - p))" "- 2000000000 \<le> (100 * r - l * p) * 1000"
    using assms lp by (simp_all add: algebra_simps)
  have "s32 (100 - p) = 100 - p" using assms by (simp add: s32_id)
  then show sd: "s32 (l * s32 (100 - p)) = l * (100 - p)" using d d' by (simp add: s32_small)
  have "s32 (100 * r) = 100 * r" using assms by (simp add: s32_id)
  moreover have "s32 (l * p) = l * p" using lp by (intro s32_small) linarith+
  moreover have "s32 (100 * r - l * p) = 100 * r - l * p" using assms lp by (intro s32_small) linarith+
  moreover have "s32 ((100 * r - l * p) * 1000) = (100 * r - l * p) * 1000" using n d' by (intro s32_small) linarith+
  moreover have "s32 ((100 * r - l * p) * 1000 + l * (100 - p) div 2) = (100 * r - l * p) * 1000 + l * (100 - p) div 2"
  proof (rule s32_small)
    have "0 \<le> l * (100 - p) div 2" "l * (100 - p) div 2 \<le> 1000000" using d d' by linarith+
    then show "- 2147483648 \<le> (100 * r - l * p) * 1000 + l * (100 - p) div 2"
        "(100 * r - l * p) * 1000 + l * (100 - p) div 2 \<le> 2147483647"
      using n d' by linarith+
  qed
  ultimately show "s32 (s32 (s32 (s32 (100 * r) - s32 (l * p)) * 1000) + s32 (l * s32 (100 - p)) sdiv 2) sdiv s32 (l * s32 (100 - p))
       = display_charge l p r"
    unfolding sd display_charge_def using d by (simp only: sdiv_nonneg)
qed

lemma display_charge_bounds:
  fixes l p r :: int
  assumes "0 < l" "0 \<le> p" "p < 100" "r \<le> l"
  shows "display_charge l p r \<le> 1000" "l * p \<le> 100 * r \<Longrightarrow> 0 \<le> display_charge l p r" "display_charge l p l = 1000"
proof -
  have d: "0 < l * (100 - p)" "0 \<le> l * (100 - p) div 2" using assms by (simp_all add: pos_imp_zdiv_nonneg_iff)
  let ?n = "(100 * r - l * p) * 1000 + l * (100 - p) div 2"
  show "display_charge l p r \<le> 1000"
  proof (cases "?n < 0")
    case True
    then show ?thesis using sdiv_nonpos [OF True d(1)] unfolding display_charge_def by simp
  next
    case False
    have "(100 * r - l * p) * 1000 \<le> 1000 * (l * (100 - p))" using assms by (simp add: algebra_simps)
    then have "?n < 1001 * (l * (100 - p))" using d by linarith
    then have "?n div (l * (100 - p)) < 1001" by (rule div_less_times [OF d(1)])
    then show ?thesis using False d(1) by (simp add: display_charge_def sdiv_nonneg)
  qed
  show "0 \<le> display_charge l p r" if "l * p \<le> 100 * r"
    using that d by (simp add: display_charge_def sdiv_nonneg pos_imp_zdiv_nonneg_iff)
  have "display_charge l p l = (l * (100 - p) div 2 + 1000 * (l * (100 - p))) div (l * (100 - p))"
    using d by (simp add: display_charge_def sdiv_nonneg algebra_simps)
  also have "\<dots> = 1000" using d(1) by (simp only: div_mult_self1) simp
  finally show "display_charge l p l = 1000" .
qed

text \<open>
  The compensation for the host is total and its result sensible for every battery of up to 20 Ah:
  the remaining capacity never exceeds the full capacity the host knows, and the charge on display
  is never above 100.0 percent, is not negative above the shutdown level, and is 100.0 percent for a
  battery at or above the host's full capacity. The full capacity must not vanish by the scaling.
\<close>

theorem compensated_charge_bounds:
  assumes "batt_host_full_factor c = 100" "0 \<le> batt_host_shutdown_pct c" "batt_host_shutdown_pct c < 100"
    and "1 \<le> batt_full_factor c" "batt_full_factor c \<le> 100"
    and "\<not> has_flag b BATT_FLAG_BAD_FULL_CAPACITY" "\<not> has_flag b BATT_FLAG_BAD_REMAINING_CAPACITY"
    and "0 < b_remaining_capacity b" "0 < b_full_capacity b" "b_full_capacity b \<le> 20000" "0 \<le> lfcc" "lfcc \<le> 20000"
    and known: "0 < (if lfcc = 0 then b_full_capacity b * batt_full_factor c div 100 else lfcc)" (is "0 < ?l")
  shows "\<exists>b'. battery_compensate_params c lfcc b = Some b' \<and> b_display_charge b' \<le> 1000
     \<and> b_remaining_capacity b' = min (b_remaining_capacity b) ?l
     \<and> (?l * batt_host_shutdown_pct c \<le> 100 * b_remaining_capacity b \<longrightarrow> 0 \<le> b_display_charge b')
     \<and> (?l \<le> b_remaining_capacity b \<longrightarrow> b_display_charge b' = 1000)"
proof -
  let ?p = "batt_host_shutdown_pct c" and ?f = "b_full_capacity b * batt_full_factor c"
  define l where "l = ?l"
  define r where "r = min (b_remaining_capacity b) l"
  have f: "0 < ?f" "?f \<le> 20000 * 100"
    using assms mult_mono [of "b_full_capacity b" 20000 "batt_full_factor c" 100] by simp_all
  have fd: "s32 ?f sdiv 100 = ?f div 100" using f by (simp add: s32_id sdiv_nonneg)
  have l: "0 < l" "l \<le> 20000" "(if lfcc = 0 then ?f div 100 else lfcc) = l"
    using assms(12) known f by (auto simp: l_def)
  have r: "0 < r" "r \<le> l" "(if b_remaining_capacity b > l then l else b_remaining_capacity b) = r"
    using assms(8) l by (simp_all add: r_def)
  note arith = display_charge_s32 [OF l(1,2) assms(2,3) r(1,2)]
  have "battery_compensate_params c lfcc b
      = Some ((if b_remaining_capacity b > l then b\<lparr>b_full_capacity := ?f div 100, b_remaining_capacity := l\<rparr> else b\<lparr>b_full_capacity := ?f div 100\<rparr>)
          \<lparr>b_display_charge := display_charge l ?p r\<rparr>)"
    using assms arith fd l(3) r(3) unfolding battery_compensate_params_def Let_def
    by (cases "lfcc = 0"; cases "l < b_remaining_capacity b") simp_all
  moreover have "0 \<le> display_charge l ?p r" if "l * ?p \<le> 100 * b_remaining_capacity b"
  proof -
    have "l * ?p \<le> 100 * l" using assms l mult_left_mono [of ?p 100 l] by simp
    then show ?thesis using that display_charge_bounds(2) [OF l(1) assms(2,3) r(2)] by (simp add: r_def min_def)
  qed
  moreover have "display_charge l ?p r = 1000" if "l \<le> b_remaining_capacity b"
    using that display_charge_bounds(3) [OF l(1) assms(2,3) r(2)] by (simp add: r_def)
  ultimately show ?thesis using display_charge_bounds(1) [OF l(1) assms(2,3) r(2)] unfolding l_def [symmetric] by (simp add: min_def)
qed

theorem compensated_charge_bounds_witness:
  "\<exists>b'. battery_compensate_params ex_batt_cfg 0 (batt_zero\<lparr>b_remaining_capacity := 5000, b_full_capacity := 5000\<rparr>) = Some b'
     \<and> b_display_charge b' = 1000 \<and> b_remaining_capacity b' = 4900"
proof -
  have "\<not> has_flag (batt_zero\<lparr>b_remaining_capacity := 5000, b_full_capacity := 5000\<rparr>) n" for n
    by (simp add: has_flag_def batt_zero_def)
  then show ?thesis
    using compensated_charge_bounds [of ex_batt_cfg "batt_zero\<lparr>b_remaining_capacity := 5000, b_full_capacity := 5000\<rparr>" 0]
    by (simp add: ex_batt_cfg_def) metis
qed

section \<open>Cutting the battery off\<close>

text \<open>
  \<open>rv\<close> is the result of \<open>board_cut_off_battery\<close>; a call of it and of \<open>hook_call_deferred\<close> is
  recorded, a delay of -1 cancels.
\<close>

datatype cut_call = BoardCutOff | DeferCutOff int

definition pending_cutoff_deferred :: "batt_drv \<Rightarrow> batt_drv \<times> cut_call list" where
  "pending_cutoff_deferred d = (d, [BoardCutOff])"

definition clear_pending_cutoff :: "bool \<Rightarrow> batt_drv \<Rightarrow> batt_drv \<times> cut_call list" where
  "clear_pending_cutoff extpower d =
     (if extpower then (d\<lparr>battery_cutoff_state := BATTERY_CUTOFF_STATE_NORMAL\<rparr>, [DeferCutOff (-1)]) else (d, []))"

definition battery_command_cutoff :: "nat \<Rightarrow> bool \<Rightarrow> int \<Rightarrow> batt_drv \<Rightarrow> int \<times> batt_drv \<times> cut_call list" where
  "battery_command_cutoff version at_shutdown rv d =
     (if version = 1 \<and> at_shutdown then (0, d\<lparr>battery_cutoff_state := BATTERY_CUTOFF_STATE_PENDING\<rparr>, [])
      else (rv, if rv = 0 then d\<lparr>battery_cutoff_state := BATTERY_CUTOFF_STATE_CUT_OFF\<rparr> else d, [BoardCutOff]))"

definition check_pending_cutoff :: "int \<Rightarrow> batt_drv \<Rightarrow> batt_drv \<times> cut_call list" where
  "check_pending_cutoff delay_us d =
     (d, if battery_cutoff_state d = BATTERY_CUTOFF_STATE_PENDING then [DeferCutOff delay_us] else [])"

definition str_at_shutdown :: cstr where
  "str_at_shutdown = [97, 116, 45, 115, 104, 117, 116, 100, 111, 119, 110]"

definition command_cutoff :: "cstr list \<Rightarrow> int \<Rightarrow> batt_drv \<Rightarrow> int \<times> batt_drv \<times> cut_call list" where
  "command_cutoff argv rv d =
     (if length argv > 1 then
        if strcasecmp (argv ! 1) str_at_shutdown = 0
        then (EC_SUCCESS, d\<lparr>battery_cutoff_state := BATTERY_CUTOFF_STATE_PENDING\<rparr>, [])
        else (EC_ERROR_INVAL, d, [])
      else if rv = 0 then (EC_SUCCESS, d\<lparr>battery_cutoff_state := BATTERY_CUTOFF_STATE_CUT_OFF\<rparr>, [BoardCutOff])
      else (EC_ERROR_UNKNOWN, d, [BoardCutOff]))"

text \<open>Everything that can happen to the state, with the calls it makes.\<close>

inductive cut_step :: "batt_drv \<Rightarrow> cut_call list \<Rightarrow> batt_drv \<Rightarrow> bool" where
  deferred: "cut_step d (snd (pending_cutoff_deferred d)) (fst (pending_cutoff_deferred d))"
| ac_change: "cut_step d (snd (clear_pending_cutoff extpower d)) (fst (clear_pending_cutoff extpower d))"
| host: "battery_command_cutoff version at_shutdown rv d = (r, d', cs) \<Longrightarrow> cut_step d cs d'"
| shutdown: "0 \<le> delay_us \<Longrightarrow> cut_step d (snd (check_pending_cutoff delay_us d)) (fst (check_pending_cutoff delay_us d))"
| console: "command_cutoff argv rv d = (r, d', cs) \<Longrightarrow> cut_step d cs d'"

inductive cut_run :: "batt_drv \<Rightarrow> cut_call list \<Rightarrow> batt_drv \<Rightarrow> bool" where
  start: "cut_run d [] d"
| step: "cut_run d cs d' \<Longrightarrow> cut_step d' cs' d'' \<Longrightarrow> cut_run d (cs @ cs') d''"

lemma cut_step_normal:
  assumes "cut_step d cs d'" "battery_cutoff_state d \<noteq> BATTERY_CUTOFF_STATE_NORMAL"
    "battery_cutoff_state d' = BATTERY_CUTOFF_STATE_NORMAL"
  shows "cs = [DeferCutOff (-1)]"
  using assms by (cases rule: cut_step.cases)
    (auto simp: pending_cutoff_deferred_def clear_pending_cutoff_def battery_command_cutoff_def check_pending_cutoff_def
      command_cutoff_def split: if_splits)

text \<open>
  A battery that was cut off on request is left alone: no register is read or written and the
  parameters show a battery that does not respond and asks for nothing, whatever the bus would
  answer.
\<close>

theorem cut_off_battery_left_alone:
  assumes "battery_command_cutoff version at_shutdown 0 d = (0, d', cs)" "\<not> (version = 1 \<and> at_shutdown)" "cut_off_cfg c"
    "fake_state_of_charge d < 0" "present_hw bus = None"
  shows "\<exists>b. battery_get_params c d' bus lfcc = Some (b, []) \<and> cs = [BoardCutOff] \<and> \<not> has_flag b BATT_FLAG_RESPONSIVE
     \<and> b_is_present b = BP_NOT_SURE \<and> b_desired_voltage b = 0 \<and> b_desired_current b = 0
     \<and> (\<forall>r. sb_read c d' bus r = Inl EC_RES_ACCESS_DENIED) \<and> (\<forall>r v. sb_write c d' bus r v = (EC_RES_ACCESS_DENIED, []))"
proof -
  have off: "battery_is_cut_off c d'" and d': "fake_state_of_charge d' < 0" "cs = [BoardCutOff]"
    using assms by (auto simp: battery_command_cutoff_def battery_is_cut_off_def)
  have rd: "sb_read c d' bus r = Inl EC_RES_ACCESS_DENIED" "sb_write c d' bus r v = (EC_RES_ACCESS_DENIED, [])"
      "read_capacity c d' bus r = (Inl EC_RES_ACCESS_DENIED, [])" for r v
    using off by (simp_all add: sb_read_def sb_write_def read_capacity_def battery_force_mah_mode_def)
  let ?r = "fst (read_flags c d' bus)"
  have bad: "bit (b_flags ?r) n \<longleftrightarrow> n \<in> {2..10}" for n
    unfolding read_flags_bits bad_read_def rd using d' by auto
  have ws: "snd (read_flags c d' bus) = []" by (simp add: read_flags_def Let_def rd)
  have resp: "b_flags ?r AND BATT_FLAG_BAD_ANY = BATT_FLAG_BAD_ANY" by (simp add: bad_any_iff bad)
  define b1 where "b1 = set_flag BATT_FLAG_IMBALANCED_CELL (case imbalance c of None \<Rightarrow> False | Some m \<Rightarrow> imbalance_mv bus > m)
      (set_flag BATT_FLAG_RESPONSIVE False ?r)"
  define b3 where "b3 = b1\<lparr>b_is_present := BP_NOT_SURE, b_desired_voltage := 0, b_desired_current := 0\<rparr>"
  have "\<not> wants_charge c (b1\<lparr>b_is_present := BP_NOT_SURE\<rparr>)" "\<not> has_flag b1 BATT_FLAG_RESPONSIVE"
    by (simp_all add: wants_charge_def has_flag_bit b1_def bad)
  then have "battery_get_params c d' bus lfcc = map_option (\<lambda>b. (b, [])) (if has_hostcmd c then battery_compensate_params c lfcc b3 else Some b3)"
    unfolding battery_get_params_def Let_def split_beta assms(5) ws using resp by (simp add: b1_def b3_def)
  moreover have "battery_compensate_params c lfcc b3 = Some b3"
    by (simp add: battery_compensate_params_def has_flag_bit b3_def b1_def bad)
  moreover have "\<not> has_flag b3 BATT_FLAG_RESPONSIVE" by (simp add: has_flag_bit b3_def b1_def bad)
  ultimately show ?thesis using rd d' by (auto simp: b3_def)
qed

theorem cut_off_battery_left_alone_witness:
  "\<exists>b. battery_get_params ex_batt_cfg (ex_drv\<lparr>battery_cutoff_state := BATTERY_CUTOFF_STATE_CUT_OFF\<rparr>) ex_bus 0 = Some (b, [])
     \<and> \<not> has_flag b BATT_FLAG_RESPONSIVE"
  using cut_off_battery_left_alone [of 0 False ex_drv "ex_drv\<lparr>battery_cutoff_state := BATTERY_CUTOFF_STATE_CUT_OFF\<rparr>" "[BoardCutOff]" ex_batt_cfg ex_bus 0]
  by (auto simp: battery_command_cutoff_def ex_batt_cfg_def ex_drv_def ex_bus_def)

text \<open>
  A cut-off that is requested for the next shutdown is carried out there but not recorded:
  the firmware does not know that the battery is cut off, talks to it and would charge it, although
  either may wake the battery up again.
\<close>

theorem deferred_cut_off_not_recorded:
  "battery_command_cutoff 1 True rv d = (0, d', cs) \<Longrightarrow>
     snd (check_pending_cutoff delay_us d') = [DeferCutOff delay_us] \<and> snd (pending_cutoff_deferred d') = [BoardCutOff]
     \<and> \<not> battery_is_cut_off c (fst (pending_cutoff_deferred (fst (check_pending_cutoff delay_us d'))))
     \<and> sb_write c (fst (pending_cutoff_deferred d')) bus r v = (wr bus r v, [(r, v)])"
  by (auto simp: battery_command_cutoff_def check_pending_cutoff_def pending_cutoff_deferred_def battery_is_cut_off_def
      sb_write_def)

theorem deferred_cut_off_not_recorded_witness:
  "\<not> battery_is_cut_off ex_batt_cfg (fst (pending_cutoff_deferred (fst (check_pending_cutoff 1000000
     (ex_drv\<lparr>battery_cutoff_state := BATTERY_CUTOFF_STATE_PENDING\<rparr>)))))"
  using deferred_cut_off_not_recorded [of 0 ex_drv "ex_drv\<lparr>battery_cutoff_state := BATTERY_CUTOFF_STATE_PENDING\<rparr>" "[]" 1000000 ex_batt_cfg ex_bus 3 0]
  by (simp add: battery_command_cutoff_def)

section \<open>Date of manufacture\<close>

definition battery_manufacture_date :: "batt_cfg \<Rightarrow> batt_drv \<Rightarrow> batt_bus \<Rightarrow> int + (int \<times> int \<times> int)" where
  "battery_manufacture_date c d bus =
     (case sb_read c d bus SB_SPECIFICATION_INFO of
        Inl e \<Rightarrow> Inl e
      | Inr ymd \<Rightarrow> Inr (drop_bit 8 ymd + 1980, (ymd AND 0xff) sdiv 32, (ymd AND 0xff) smod 32))"

text \<open>
  The encoding in the comment of the function has no room for the months from August on, and the
  register it reads is that of the specification, not of the date.
\<close>

theorem manufacture_date_until_july:
  assumes "\<not> battery_is_cut_off c d" "rd bus SB_SPECIFICATION_INFO = Inr (word_of_int (day + month * 32 + (year - 1980) * 256))"
    "1980 \<le> year" "year < 2100" "1 \<le> month" "month \<le> 12" "1 \<le> day" "day \<le> 31"
  shows "battery_manufacture_date c d bus = Inr (year, month, day) \<longleftrightarrow> month < 8"
proof -
  let ?y = "day + month * 32 + (year - 1980) * 256"
  have u: "uint (word_of_int ?y :: u16) = ?y" using assms by (subst uint_word_of_int) (simp add: take_bit_int_eq_self)
  have "?y AND 0xff = ?y mod 256" using take_bit_eq_mask [of 8 ?y] by (simp add: mask_eq_exp_minus_1 take_bit_eq_mod)
  then have a: "?y AND 0xff = (day + month * 32) mod 256" by (simp only: mod_mult_self1)
  have d: "drop_bit 8 ?y = year - 1980 + (day + month * 32) div 256" by (simp add: drop_bit_eq_div)
  show ?thesis
  proof (cases "month < 8")
    case True
    then have "(day + month * 32) div 256 = 0" "(day + month * 32) mod 256 = day + month * 32" using assms by simp_all
    then show ?thesis using assms u a d True
      by (simp add: battery_manufacture_date_def sb_read_def signed_divide_int_def signed_modulo_int_def)
  next
    case False
    then have "0 < (day + month * 32) div 256" using assms by linarith
    then show ?thesis using assms u d False by (simp add: battery_manufacture_date_def sb_read_def)
  qed
qed

text \<open>Any state after a cut-off that the system leaves for normal operation was left with external power present.\<close>

lemma cut_off_ends_with_power:
  assumes "cut_run d cs d'" "battery_cutoff_state d = BATTERY_CUTOFF_STATE_CUT_OFF"
    "battery_cutoff_state d' = BATTERY_CUTOFF_STATE_NORMAL"
  shows "DeferCutOff (-1) \<in> set cs"
  using assms
proof (induction rule: cut_run.induct)
  case (step d cs d' cs' d'')
  show ?case
  proof (cases "battery_cutoff_state d' = BATTERY_CUTOFF_STATE_NORMAL")
    case False
    then show ?thesis using cut_step_normal [OF step.hyps(2) _ step.prems(2)] by simp
  qed (use step in simp)
qed simp

end
