(* ===== verification/Charger.thy ===== *)
theory Charger
  imports Battery
begin

text \<open>
  What all charger chips share (common/charger.c): rounding a request to a value the chip supports,
  with the limit of the platform's thermal framework, and the charging profiles that override the
  battery's request (common/charger_profile_override.c). \<open>charge_state_data\<close> is the record of
  include/charge_state_v2.h that the charge state machine and the profiles work on.
\<close>

section \<open>Data\<close>

record charger_info =
  ci_voltage_max :: int
  ci_voltage_min :: int
  ci_voltage_step :: int
  ci_current_max :: int
  ci_current_min :: int
  ci_current_step :: int
  ci_input_current_max :: int

record charger_params =
  c_current :: int
  c_voltage :: int
  c_input_current :: int
  c_status :: int
  c_option :: int
  c_flags :: u32

datatype charge_state_v2 = ST_IDLE | ST_DISCHARGE | ST_CHARGE | ST_PRECHARGE

record charge_state_data =
  cs_ts :: u64
  cs_ac :: bool
  batt_is_charging :: bool
  chg :: charger_params
  batt :: batt_params
  cs_state :: charge_state_v2
  requested_voltage :: int
  requested_current :: int
  desired_input_current :: int
  output_current :: int

section \<open>Rounding\<close>

definition dptf_set_charging_current_limit :: "int \<Rightarrow> int" where
  "dptf_set_charging_current_limit ma = (if ma \<ge> 0 then ma else -1)"

definition charger_closest_voltage :: "charger_info \<Rightarrow> int \<Rightarrow> int" where
  "charger_closest_voltage info voltage =
     (if voltage > 0 \<and> voltage < ci_voltage_min info then ci_voltage_min info
      else if voltage > ci_voltage_max info then ci_voltage_max info
      else voltage - voltage smod ci_voltage_step info)"

definition charger_closest_current :: "charger_info \<Rightarrow> int \<Rightarrow> int \<Rightarrow> int" where
  "charger_closest_current info dptf_limit_ma current =
     (let current = (if dptf_limit_ma \<ge> 0 \<and> current > dptf_limit_ma then dptf_limit_ma else current)
      in if current > 0 \<and> current < ci_current_min info then ci_current_min info
         else if current > ci_current_max info then ci_current_max info
         else current - current smod ci_current_step info)"

text \<open>\<open>charger_get_params\<close>: each value is read from the chip; one that cannot be read stays 0.\<close>

definition charger_get_params :: "int + int \<Rightarrow> int + int \<Rightarrow> int + int \<Rightarrow> int + int \<Rightarrow> int + int \<Rightarrow> charger_params" where
  "charger_get_params cur vol input stat opt =
     \<lparr>c_current = took cur 0, c_voltage = took vol 0, c_input_current = took input 0, c_status = took stat 0, c_option = took opt 0,
      c_flags = (if failed cur then 0x1 else 0) OR (if failed vol then 0x2 else 0) OR (if failed input then 0x4 else 0)
        OR (if failed stat then 0x8 else 0) OR (if failed opt then 0x10 else 0)\<rparr>"

abbreviation (input) CHG_FLAG_BAD_ANY :: u32 where "CHG_FLAG_BAD_ANY \<equiv> 0x1f"

section \<open>Charging profiles\<close>

record fast_charge_profile =
  fp_temp_c :: int
  fp_current_mA :: "int list"

record fast_charge_params =
  total_temp_ranges :: nat
  fp_voltage_mV :: "int list"
  chg_profile_info :: "fast_charge_profile list"

text \<open>
  The profile of the first temperature range that reaches \<open>temp_c\<close> among the first \<open>n\<close> of the
  array; \<open>None\<close> is a read behind the array.
\<close>

fun find_profile :: "int \<Rightarrow> nat \<Rightarrow> fast_charge_profile list \<Rightarrow> fast_charge_profile option option" where
  "find_profile temp_c 0 ps = Some None"
| "find_profile temp_c (Suc n) [] = None"
| "find_profile temp_c (Suc n) (p # ps) = (if temp_c \<le> fp_temp_c p then Some (Some p) else find_profile temp_c n ps)"

fun find_range :: "int \<Rightarrow> int list \<Rightarrow> nat \<Rightarrow> nat \<Rightarrow> nat" where
  "find_range v vs i 0 = i"
| "find_range v vs i (Suc n) = (if v < vs ! i then i else find_range v vs (Suc i) n)"

text \<open>
  The result, the data and the last profile used. \<open>ranges\<close> is CONFIG_CHARGER_PROFILE_VOLTAGE_RANGES,
  the length of the two arrays of voltages and currents; \<open>None\<close> is an access through a null
  pointer or outside an array. The console test mode (CONFIG_CMD_CHARGER_PROFILE_OVERRIDE_TEST) is
  left out.
\<close>

definition charger_profile_override_common ::
  "nat \<Rightarrow> bool \<Rightarrow> fast_charge_params \<Rightarrow> int \<Rightarrow> charge_state_data \<Rightarrow> fast_charge_profile option
   \<Rightarrow> (int \<times> charge_state_data \<times> fast_charge_profile option) option" where
  "charger_profile_override_common ranges fast_charging_allowed params batt_vtg_max csd prev =
     (let temp_c = s32 (b_temperature (batt csd) - 2731) in
      case (if \<not> has_flag (batt csd) BATT_FLAG_BAD_TEMPERATURE
            then find_profile temp_c (total_temp_ranges params) (chg_profile_info params)
            else Some prev) of
        None \<Rightarrow> None
      | Some found \<Rightarrow>
          if \<not> has_flag (batt csd) BATT_FLAG_BAD_TEMPERATURE \<and> found = None then Some (-1, csd, prev)
          else
            let voltage_range = (if \<not> has_flag (batt csd) BATT_FLAG_BAD_VOLTAGE
                                 then find_range (b_voltage (batt csd)) (fp_voltage_mV params) 0 (ranges - 1) else ranges - 1)
            in if cs_state csd \<noteq> ST_CHARGE \<or> \<not> fast_charging_allowed then Some (0, csd, found)
               else (case found of
                 None \<Rightarrow> None
               | Some p \<Rightarrow>
                   let i = fp_current_mA p ! voltage_range
                   in Some (0, csd\<lparr>requested_current := i, requested_voltage := (if i \<noteq> 0 then batt_vtg_max else 0)\<rparr>, found)))"

text \<open>The parameter of the host commands.\<close>

abbreviation (input) PARAM_FASTCHARGE :: u32 where "PARAM_FASTCHARGE \<equiv> 0x10000"

definition charger_profile_override_get_param :: "u32 \<Rightarrow> bool \<Rightarrow> u32 option" where
  "charger_profile_override_get_param param allowed =
     (if param = PARAM_FASTCHARGE then Some (if allowed then 1 else 0) else None)"

definition charger_profile_override_set_param :: "u32 \<Rightarrow> u32 \<Rightarrow> bool \<Rightarrow> bool option" where
  "charger_profile_override_set_param param val allowed =
     (if param = PARAM_FASTCHARGE then Some (val \<noteq> 0) else None)"

section \<open>Facts on rounding\<close>

text \<open>A chip whose limits are multiples of its steps.\<close>

definition charger_ok :: "charger_info \<Rightarrow> bool" where
  "charger_ok info \<longleftrightarrow> 0 < ci_voltage_step info \<and> 0 < ci_current_step info
     \<and> 0 \<le> ci_voltage_min info \<and> ci_voltage_min info \<le> ci_voltage_max info
     \<and> 0 \<le> ci_current_min info \<and> ci_current_min info \<le> ci_current_max info
     \<and> ci_voltage_min info mod ci_voltage_step info = 0 \<and> ci_voltage_max info mod ci_voltage_step info = 0
     \<and> ci_current_min info mod ci_current_step info = 0 \<and> ci_current_max info mod ci_current_step info = 0"

text \<open>The values a chip supports: 0, or a multiple of the step between its limits.\<close>

definition supported :: "int \<Rightarrow> int \<Rightarrow> int \<Rightarrow> int \<Rightarrow> bool" where
  "supported lo hi step v \<longleftrightarrow> v mod step = 0 \<and> (v = 0 \<or> lo \<le> v \<and> v \<le> hi)"

definition closest :: "int \<Rightarrow> int \<Rightarrow> int \<Rightarrow> int \<Rightarrow> int" where
  "closest lo hi step v = (if v > 0 \<and> v < lo then lo else if v > hi then hi else v - v smod step)"

lemma closest_voltage: "charger_closest_voltage info v = closest (ci_voltage_min info) (ci_voltage_max info) (ci_voltage_step info) v"
  by (simp add: charger_closest_voltage_def closest_def)

lemma closest_current: "charger_closest_current info dptf c
    = closest (ci_current_min info) (ci_current_max info) (ci_current_step info) (if dptf \<ge> 0 \<and> c > dptf then dptf else c)"
  by (simp add: charger_closest_current_def closest_def Let_def)

lemma smod_nonneg: "0 \<le> v \<Longrightarrow> 0 < s \<Longrightarrow> v smod s = v mod s" for v s :: int
  by (cases "v = 0") (simp_all add: signed_modulo_int_def signed_divide_int_def minus_div_mult_eq_mod)

lemma closest_supported:
  assumes "0 \<le> v" "0 < step" "0 \<le> lo" "lo \<le> hi" "lo mod step = 0" "hi mod step = 0"
  shows "supported lo hi step (closest lo hi step v)" "closest lo hi step v \<le> max lo v" "closest lo hi step v \<le> hi"
    "v = 0 \<Longrightarrow> closest lo hi step v = 0"
    "supported lo hi step v \<Longrightarrow> closest lo hi step v = v"
proof -
  have down: "lo \<le> v - v mod step" if "lo \<le> v"
  proof -
    have "lo = step * (lo div step)" using assms(5) by (metis mod_0_imp_dvd dvd_mult_div_cancel)
    also have "\<dots> \<le> step * (v div step)" using assms(2) that by (simp add: zdiv_mono1)
    finally show ?thesis by (simp add: minus_mod_eq_mult_div)
  qed
  have r: "0 \<le> v mod step" using assms by simp
  show "supported lo hi step (closest lo hi step v)"
  proof (cases "0 < v \<and> v < lo \<or> hi < v")
    case True
    then show ?thesis using assms by (auto simp: closest_def supported_def)
  next
    case False
    then have "closest lo hi step v = v - v mod step" "v = 0 \<or> lo \<le> v" "v \<le> hi"
      using assms(1,2) by (auto simp: closest_def smod_nonneg)
    moreover have "(v - v mod step) mod step = 0" by (simp add: minus_mod_eq_mult_div)
    moreover have "v - v mod step \<le> v" using r by simp
    ultimately show ?thesis using down unfolding supported_def by (cases "v = 0") simp_all
  qed
  show "closest lo hi step v \<le> hi"
    using assms r unfolding closest_def by (auto simp: smod_nonneg intro: order_trans [of _ v])
  show "closest lo hi step v \<le> max lo v" "v = 0 \<Longrightarrow> closest lo hi step v = 0"
      "supported lo hi step v \<Longrightarrow> closest lo hi step v = v"
    using assms r by (auto simp: closest_def smod_nonneg supported_def)
qed

text \<open>
  A request to the charger is rounded to a value the chip supports, without exceeding its
  maximum, and a request of 0 stays 0. The rounding never goes up except to the chip's minimum, and
  a supported value is kept. For currents this holds with the limit of the thermal framework on
  top, which can only be exceeded up to the chip's minimum.
\<close>

theorem closest_values_supported:
  assumes "charger_ok info" "0 \<le> v"
  shows "supported (ci_voltage_min info) (ci_voltage_max info) (ci_voltage_step info) (charger_closest_voltage info v)
     \<and> charger_closest_voltage info v \<le> max (ci_voltage_min info) v
     \<and> charger_closest_voltage info (charger_closest_voltage info v) = charger_closest_voltage info v
     \<and> supported (ci_current_min info) (ci_current_max info) (ci_current_step info) (charger_closest_current info dptf v)
     \<and> charger_closest_current info dptf v \<le> max (ci_current_min info) v
     \<and> (0 \<le> dptf \<longrightarrow> charger_closest_current info dptf v \<le> max (ci_current_min info) dptf)
     \<and> (v = 0 \<longrightarrow> charger_closest_voltage info v = 0 \<and> charger_closest_current info dptf v = 0)"
proof -
  have vok: "0 < ci_voltage_step info" "0 \<le> ci_voltage_min info" "ci_voltage_min info \<le> ci_voltage_max info"
      "ci_voltage_min info mod ci_voltage_step info = 0" "ci_voltage_max info mod ci_voltage_step info = 0"
    and cok: "0 < ci_current_step info" "0 \<le> ci_current_min info" "ci_current_min info \<le> ci_current_max info"
      "ci_current_min info mod ci_current_step info = 0" "ci_current_max info mod ci_current_step info = 0"
    using assms(1) by (simp_all add: charger_ok_def)
  let ?c = "if 0 \<le> dptf \<and> dptf < v then dptf else v"
  have c: "0 \<le> ?c" "?c \<le> v" "0 \<le> dptf \<longrightarrow> ?c \<le> dptf" using assms(2) by auto
  note V = closest_supported [OF assms(2) vok] and C = closest_supported [OF c(1) cok]
  have "0 \<le> closest (ci_voltage_min info) (ci_voltage_max info) (ci_voltage_step info) v"
    using V(1) vok by (auto simp: supported_def)
  from closest_supported(5) [OF this vok V(1)] V C(1) show ?thesis
    unfolding closest_voltage closest_current using c(2,3) order_trans [OF C(2)] C(4) assms(2) by auto
qed

definition ex_info :: charger_info where
  "ex_info = \<lparr>ci_voltage_max = 19200, ci_voltage_min = 1024, ci_voltage_step = 16, ci_current_max = 8128,
     ci_current_min = 128, ci_current_step = 64, ci_input_current_max = 8064\<rparr>"

theorem closest_values_supported_witness:
  "charger_closest_current ex_info 50 3000 \<le> 128 \<and> charger_closest_voltage ex_info 3000 \<le> 3000"
  using closest_values_supported [of ex_info 3000 50] by (simp add: charger_ok_def ex_info_def)

lemma find_profile_Some:
  assumes "n \<le> length ps"
  shows "find_profile t n ps = Some (if \<exists>i < n. t \<le> fp_temp_c (ps ! i) then Some (ps ! (LEAST i. t \<le> fp_temp_c (ps ! i))) else None)"
  using assms
proof (induction t n ps rule: find_profile.induct)
  case (3 t n p ps)
  show ?case
  proof (cases "t \<le> fp_temp_c p")
    case True
    then have "(LEAST i. t \<le> fp_temp_c ((p # ps) ! i)) = 0" by (intro Least_equality) auto
    then show ?thesis using True by auto
  next
    case False
    have "(\<exists>i < Suc n. t \<le> fp_temp_c ((p # ps) ! i)) \<longleftrightarrow> (\<exists>i < n. t \<le> fp_temp_c (ps ! i))"
      using False by (auto simp: less_Suc_eq_0_disj)
    moreover have "(LEAST i. t \<le> fp_temp_c ((p # ps) ! i)) = Suc (LEAST i. t \<le> fp_temp_c (ps ! i))"
      if "i < n" "t \<le> fp_temp_c (ps ! i)" for i
      using Least_Suc [of "\<lambda>i. t \<le> fp_temp_c ((p # ps) ! i)" "Suc i"] that False by simp
    ultimately show ?thesis using 3 False by auto
  qed
qed simp_all

lemma find_range_spec:
  "i \<le> find_range v vs i n \<and> find_range v vs i n \<le> i + n \<and> (\<forall>j. i \<le> j \<longrightarrow> j < find_range v vs i n \<longrightarrow> vs ! j \<le> v)
     \<and> (find_range v vs i n < i + n \<longrightarrow> v < vs ! find_range v vs i n)"
proof (induction n arbitrary: i)
  case (Suc n)
  have "vs ! j \<le> v" if "\<not> v < vs ! i" "i \<le> j" "j < find_range v vs (Suc i) n" for j
    using that Suc.IH [of "Suc i"] by (cases "j = i") auto
  then show ?case using Suc.IH [of "Suc i"] by (cases "v < vs ! i") auto
qed simp

text \<open>
  A charging profile takes effect exactly as its table says: while charging, the request is the
  current in the first temperature range that reaches the battery's temperature and in the voltage
  range of the battery, the last voltage range if the voltage is unknown; a temperature above all
  ranges is an error that changes nothing, and outside the charging state nothing is overridden.
\<close>

theorem profile_override_follows_table:
  assumes "total_temp_ranges params \<le> length (chg_profile_info params)" "\<not> has_flag (batt csd) BATT_FLAG_BAD_TEMPERATURE"
  defines "t \<equiv> s32 (b_temperature (batt csd) - 2731)"
  shows "\<exists>r csd' prev'. charger_profile_override_common (Suc ranges) allowed params vmax csd prev = Some (r, csd', prev')
     \<and> (if \<exists>i < total_temp_ranges params. t \<le> fp_temp_c (chg_profile_info params ! i)
        then r = 0 \<and> prev' = Some (chg_profile_info params ! (LEAST i. t \<le> fp_temp_c (chg_profile_info params ! i)))
          \<and> (if cs_state csd = ST_CHARGE \<and> allowed
             then \<exists>v \<le> ranges. requested_current csd' = fp_current_mA (the prev') ! v
               \<and> requested_voltage csd' = (if requested_current csd' = 0 then 0 else vmax)
               \<and> (has_flag (batt csd) BATT_FLAG_BAD_VOLTAGE \<longrightarrow> v = ranges)
               \<and> (\<not> has_flag (batt csd) BATT_FLAG_BAD_VOLTAGE \<longrightarrow>
                    (\<forall>j < v. fp_voltage_mV params ! j \<le> b_voltage (batt csd))
                    \<and> (v < ranges \<longrightarrow> b_voltage (batt csd) < fp_voltage_mV params ! v))
             else csd' = csd)
        else r = -1 \<and> csd' = csd \<and> prev' = prev)"
proof -
  define v where "v = (if has_flag (batt csd) BATT_FLAG_BAD_VOLTAGE then ranges
    else find_range (b_voltage (batt csd)) (fp_voltage_mV params) 0 ranges)"
  have v: "v \<le> ranges \<and> (has_flag (batt csd) BATT_FLAG_BAD_VOLTAGE \<longrightarrow> v = ranges)
     \<and> (\<not> has_flag (batt csd) BATT_FLAG_BAD_VOLTAGE \<longrightarrow> (\<forall>j < v. fp_voltage_mV params ! j \<le> b_voltage (batt csd))
          \<and> (v < ranges \<longrightarrow> b_voltage (batt csd) < fp_voltage_mV params ! v))"
    using find_range_spec [of 0 "b_voltage (batt csd)" "fp_voltage_mV params" ranges] by (simp add: v_def)
  show ?thesis
    using assms(2) v find_profile_Some [OF assms(1), of t] unfolding charger_profile_override_common_def Let_def t_def [symmetric]
    by (cases "\<exists>i < total_temp_ranges params. t \<le> fp_temp_c (chg_profile_info params ! i)";
        cases "cs_state csd = ST_CHARGE \<and> allowed") (auto simp: v_def intro!: exI [of _ v])
qed

definition ex_profile :: fast_charge_params where
  "ex_profile = \<lparr>total_temp_ranges = 2, fp_voltage_mV = [8000, 0xFFFF],
     chg_profile_info = [\<lparr>fp_temp_c = 150, fp_current_mA = [944, 472]\<rparr>, \<lparr>fp_temp_c = 450, fp_current_mA = [3300, 1416]\<rparr>]\<rparr>"

definition csd_zero :: charge_state_data where
  "csd_zero = \<lparr>cs_ts = 0, cs_ac = False, batt_is_charging = False,
     chg = \<lparr>c_current = 0, c_voltage = 0, c_input_current = 0, c_status = 0, c_option = 0, c_flags = 0\<rparr>,
     batt = batt_zero, cs_state = ST_IDLE, requested_voltage = 0, requested_current = 0, desired_input_current = 0, output_current = 0\<rparr>"

theorem profile_override_follows_table_witness:
  "\<exists>csd' prev'. charger_profile_override_common 2 True ex_profile 8700
       (csd_zero\<lparr>cs_state := ST_CHARGE, batt := batt_zero\<lparr>b_temperature := 2981, b_voltage := 7000\<rparr>\<rparr>) None = Some (0, csd', Some prev')
     \<and> fp_temp_c prev' = 450 \<and> requested_voltage csd' = (if requested_current csd' = 0 then 0 else 8700)"
proof -
  let ?s = "csd_zero\<lparr>cs_state := ST_CHARGE, batt := batt_zero\<lparr>b_temperature := 2981, b_voltage := 7000\<rparr>\<rparr>"
  have t: "s32 (b_temperature (batt ?s) - 2731) = 250" by (simp add: s32_small)
  have "(LEAST i. 250 \<le> fp_temp_c (chg_profile_info ex_profile ! i)) = 1"
  proof (rule Least_equality)
    show "1 \<le> i" if "250 \<le> fp_temp_c (chg_profile_info ex_profile ! i)" for i
      using that by (cases i) (simp_all add: ex_profile_def)
  qed (simp add: ex_profile_def)
  moreover have "\<exists>i < total_temp_ranges ex_profile. 250 \<le> fp_temp_c (chg_profile_info ex_profile ! i)"
    by (rule exI [of _ 1]) (simp add: ex_profile_def)
  moreover have "chg_profile_info ex_profile ! 1 = \<lparr>fp_temp_c = 450, fp_current_mA = [3300, 1416]\<rparr>" by (simp add: ex_profile_def)
  moreover have "total_temp_ranges ex_profile \<le> length (chg_profile_info ex_profile)" "\<not> has_flag (batt ?s) BATT_FLAG_BAD_TEMPERATURE"
    by (simp_all add: ex_profile_def has_flag_def batt_zero_def)
  moreover have "cs_state ?s = ST_CHARGE" by simp
  ultimately obtain csd' where "charger_profile_override_common (Suc 1) True ex_profile 8700 ?s None
        = Some (0, csd', Some \<lparr>fp_temp_c = 450, fp_current_mA = [3300, 1416]\<rparr>)"
      "requested_voltage csd' = (if requested_current csd' = 0 then 0 else 8700)"
    using profile_override_follows_table [of ex_profile ?s 1 True 8700 None] unfolding t by auto
  then show ?thesis unfolding Suc_1 by (intro exI conjI) (assumption | simp)+
qed

end
