(* ===== verification/Charge_State.thy ===== *)
theory Charge_State
  imports Charger Throttle_Ap
begin

text \<open>
  The charging task, common/charge_state_v2.c: one round of its loop per step, the host commands,
  and the queries of other tasks, for systems with one battery. Statics are the fields of the
  record; a round empties the list of calls and records those it makes to the charger chip, the
  chipset, the host and other tasks, in order. What the round learns from the world is in an
  environment record: the clock has one field for each place that reads it, the other answers are
  taken to stay the same during a round. Output to the console is left out.
\<close>

section \<open>Configuration, environment and state\<close>

datatype critical_action = CRIT_NOTHING | CRIT_CUT_OFF | CRIT_HIBERNATE

text \<open>
  The build options. \<open>crit_action\<close> is CONFIG_BATTERY_CRITICAL_SHUTDOWN_CUT_OFF or CONFIG_HIBERNATE;
  \<open>uvp\<close> and \<open>ocp\<close> are the threshold and the hysteresis of throttling on a low voltage and on a high
  discharge current; \<open>pd_max_ma\<close> is PD_MAX_CURRENT_MA with CONFIG_USB_POWER_DELIVERY.
\<close>

record chg_cfg =
  charge_manager_cfg :: bool
  pd_max_ma :: "int option"
  config_input_current :: int
  narrow_vdc :: bool
  maintain_vbat :: bool
  battery_slave :: bool
  profile_override_cfg :: bool
  requests_nil :: bool
  revive_disconnect :: bool
  hostcmd_events :: bool
  crit_action :: critical_action
  crit_custom :: bool
  uvp :: "(int \<times> int) option"
  ocp :: "(int \<times> int) option"
  crit_timeout_us :: int
  precharge_timeout_us :: int
  safe_mode_exit_pct :: int
  near_full_pct :: int
  discharge_full :: bool
  info :: charger_info

datatype host_event = EC_HOST_EVENT_BATTERY | EC_HOST_EVENT_BATTERY_STATUS | EC_HOST_EVENT_BATTERY_LOW
  | EC_HOST_EVENT_BATTERY_CRITICAL | EC_HOST_EVENT_BATTERY_SHUTDOWN

datatype problem_type = PR_STATIC_UPDATE | PR_SET_VOLTAGE | PR_SET_CURRENT | PR_SET_MODE | PR_SET_INPUT_CURR
  | PR_POST_INIT | PR_CHG_FLAGS | PR_BATT_FLAGS | PR_CUSTOM

datatype battery_disconnect_state = BATTERY_DISCONNECTED | BATTERY_NOT_DISCONNECTED | BATTERY_DISCONNECT_ERROR

datatype chg_call =
    PostInit | SetInputCurrent int | SetCurrent int | SetVoltage int | SetMode bool | SetOption int
  | HostEvent host_event | ForceShutdown | CutOffBattery | Hibernate | Throttle bool throttle_sources
  | SocChanged | LeaveSafeMode | WakeCharger | SetOtg int int | EnableOtg bool | DischargeOnAc bool

text \<open>
  What the driver says about the static parameters: the result code and the value it stored, if any.
\<close>

record static_answers =
  a_serial :: "int \<times> int"
  a_dcap :: "int \<times> int option"
  a_dvlt :: "int \<times> int option"
  a_lfcc :: "int \<times> int option"
  a_ccnt :: "int \<times> int option"
  a_mfgr :: "int \<times> byte list option"
  a_model :: "int \<times> byte list option"
  a_type :: "int \<times> byte list option"

record chg_env =
  t_start :: u64
  t_problem :: "problem_type \<Rightarrow> u64"
  t_ocp :: u64
  t_critical :: u64
  t_precharge :: u64
  t_uvp :: u64
  t_end :: u64
  extpower :: bool
  ap_off :: bool
  ap_suspended :: bool
  locked :: bool
  cut_off :: bool
  disconnect_state :: battery_disconnect_state
  charger_reading :: charger_params
  battery_reading :: batt_params
  battery_constants :: battery_info
  static_info :: static_answers
  cm_current :: int
  dptf_limit :: int
  post_init_rv :: int
  set_input_rv :: "int \<Rightarrow> int"
  set_current_rv :: "int \<Rightarrow> int"
  set_voltage_rv :: "int \<Rightarrow> int"
  set_mode_rv :: "bool \<Rightarrow> int"
  critical_check :: bool
  override :: "charge_state_data \<Rightarrow> int \<times> charge_state_data"

text \<open>The battery part of the memory that the host reads.\<close>

record batt_memmap =
  mm_serial :: "byte list"
  mm_dcap :: int
  mm_dvlt :: int
  mm_lfcc :: int
  mm_ccnt :: int
  mm_mfgr :: "byte list"
  mm_model :: "byte list"
  mm_type :: "byte list"
  mm_volt :: int
  mm_rate :: int
  mm_cap :: int
  mm_flags :: byte
  mm_version :: byte

text \<open>
  \<open>is_full_ret\<close>, \<open>batt_present\<close>, \<open>prev_volt\<close>, \<open>prev_curr\<close>, \<open>last_prob_val\<close>, \<open>last_prob_time\<close> and
  \<open>ocp_throttle_start_time\<close> are statics of single functions, \<open>need_static\<close> is a local variable of
  the task that lives across rounds.
\<close>

record chgst =
  curr :: charge_state_data
  batt_info :: battery_info
  prev_state :: charge_state_v2
  prev_ac :: int
  prev_charge :: int
  prev_full :: bool
  prev_disp_charge :: int
  prev_bp :: battery_present
  is_full :: bool
  is_full_ret :: bool
  chg_ctl_mode :: u32
  manual_voltage :: int
  manual_current :: int
  user_current_limit :: u32
  shutdown_warning_time :: u64
  precharge_start_time :: u64
  uvp_throttle_start_time :: u64
  ocp_throttle_start_time :: u64
  battery_seems_to_be_dead :: bool
  battery_seems_to_be_disconnected :: bool
  battery_was_removed :: bool
  problems_exist :: bool
  need_static :: bool
  batt_present :: bool
  prev_volt :: int
  prev_curr :: int
  last_prob_val :: "problem_type \<Rightarrow> int"
  last_prob_time :: "problem_type \<Rightarrow> u64"
  memmap :: batt_memmap
  calls :: "chg_call list"

abbreviation (input) CHARGE_CONTROL_NORMAL :: u32 where "CHARGE_CONTROL_NORMAL \<equiv> 0"
abbreviation (input) CHARGE_CONTROL_IDLE :: u32 where "CHARGE_CONTROL_IDLE \<equiv> 1"
abbreviation (input) CHARGE_CONTROL_DISCHARGE :: u32 where "CHARGE_CONTROL_DISCHARGE \<equiv> 2"
abbreviation (input) EC_ERROR_NOT_POWERED :: int where "EC_ERROR_NOT_POWERED \<equiv> 8"
abbreviation (input) CHARGE_CURRENT_UNINITIALIZED :: int where "CHARGE_CURRENT_UNINITIALIZED \<equiv> -1"
abbreviation (input) BATTERY_LEVEL_LOW :: int where "BATTERY_LEVEL_LOW \<equiv> 10"
abbreviation (input) BATTERY_LEVEL_CRITICAL :: int where "BATTERY_LEVEL_CRITICAL \<equiv> 5"
abbreviation (input) BATTERY_LEVEL_SHUTDOWN :: int where "BATTERY_LEVEL_SHUTDOWN \<equiv> 3"

definition call :: "chg_call \<Rightarrow> chgst \<Rightarrow> chgst" where
  "call c s = s\<lparr>calls := calls s @ [c]\<rparr>"

text \<open>The battery parameters the task works on.\<close>

definition the_batt :: "chgst \<Rightarrow> batt_params" where
  "the_batt s = batt (curr s)"

definition request :: "int \<Rightarrow> int \<Rightarrow> chgst \<Rightarrow> chgst" where
  "request mv ma s = s\<lparr>curr := (curr s)\<lparr>requested_voltage := mv, requested_current := ma\<rparr>\<rparr>"

definition problem :: "chg_env \<Rightarrow> problem_type \<Rightarrow> int \<Rightarrow> chgst \<Rightarrow> chgst" where
  "problem e p v s =
     (if last_prob_val s p \<noteq> v
      then s\<lparr>last_prob_val := (last_prob_val s)(p := v), last_prob_time := (last_prob_time s)(p := t_problem e p), problems_exist := True\<rparr>
      else s\<lparr>problems_exist := True\<rparr>)"

definition problem_if :: "bool \<Rightarrow> chg_env \<Rightarrow> problem_type \<Rightarrow> int \<Rightarrow> chgst \<Rightarrow> chgst" where
  "problem_if b e p v s = (if b then problem e p v s else s)"

section \<open>What the host reads\<close>

definition hex_digit :: "nat \<Rightarrow> byte" where
  "hex_digit n = of_nat (if n < 10 then 48 + n else 55 + n)"

fun hex_digits :: "nat \<Rightarrow> byte list" where
  "hex_digits n = (if n < 16 then [hex_digit n] else hex_digits (n div 16) @ [hex_digit (n mod 16)])"

declare hex_digits.simps [simp del]

text \<open>\<open>snprintf(s, 8, "%04X", v)\<close> into a zeroed field of 8 bytes.\<close>

definition serial_text :: "int \<Rightarrow> byte list" where
  "serial_text v =
     (let d = hex_digits (unat (word_of_int v :: u32)); t = take 7 (replicate (4 - length d) 48 @ d)
      in t @ replicate (8 - length t) 0)"

definition stored :: "'a \<Rightarrow> 'a option \<Rightarrow> 'a" where
  "stored old v = (case v of None \<Rightarrow> old | Some x \<Rightarrow> x)"

definition update_static_battery_info :: "chg_env \<Rightarrow> chgst \<Rightarrow> chgst" where
  "update_static_battery_info e s =
     (let a = static_info e; m = memmap s; zeros = replicate 8 0;
          rv = fst (a_serial a) OR fst (a_dcap a) OR fst (a_dvlt a) OR fst (a_lfcc a) OR fst (a_ccnt a)
             OR fst (a_mfgr a) OR fst (a_model a) OR fst (a_type a);
          m = m\<lparr>mm_serial := (if fst (a_serial a) = 0 then serial_text (snd (a_serial a)) else zeros),
                mm_dcap := stored (mm_dcap m) (snd (a_dcap a)), mm_dvlt := stored (mm_dvlt m) (snd (a_dvlt a)),
                mm_lfcc := stored (mm_lfcc m) (snd (a_lfcc a)), mm_ccnt := stored (mm_ccnt m) (snd (a_ccnt a)),
                mm_mfgr := stored zeros (snd (a_mfgr a)), mm_model := stored zeros (snd (a_model a)),
                mm_type := stored (mm_type m) (snd (a_type a))\<rparr>;
          m = m\<lparr>mm_volt := 0, mm_rate := 0, mm_cap := 0, mm_lfcc := 0, mm_flags := (if extpower e then 1 else 0)\<rparr>
      in if rv \<noteq> 0 then (problem e PR_STATIC_UPDATE rv s)\<lparr>memmap := m, need_static := True\<rparr>
         else s\<lparr>memmap := m\<lparr>mm_version := 1\<rparr>, need_static := False\<rparr>)"

abbreviation (input) EC_BATT_FLAG_AC_PRESENT :: byte where "EC_BATT_FLAG_AC_PRESENT \<equiv> 0x01"
abbreviation (input) EC_BATT_FLAG_BATT_PRESENT :: byte where "EC_BATT_FLAG_BATT_PRESENT \<equiv> 0x02"
abbreviation (input) EC_BATT_FLAG_DISCHARGING :: byte where "EC_BATT_FLAG_DISCHARGING \<equiv> 0x04"
abbreviation (input) EC_BATT_FLAG_CHARGING :: byte where "EC_BATT_FLAG_CHARGING \<equiv> 0x08"
abbreviation (input) EC_BATT_FLAG_LEVEL_CRITICAL :: byte where "EC_BATT_FLAG_LEVEL_CRITICAL \<equiv> 0x10"
abbreviation (input) EC_BATT_FLAG_INVALID_DATA :: byte where "EC_BATT_FLAG_INVALID_DATA \<equiv> 0x20"
abbreviation (input) LFCC_EVENT_THRESH :: int where "LFCC_EVENT_THRESH \<equiv> 5"

text \<open>
  The flags of the update: those the host sees, and whether it must read the battery information
  again. The test for invalid data uses the mask of the host's flag on the driver's flags.
\<close>

definition dynamic_flags :: "chgst \<Rightarrow> byte" where
  "dynamic_flags s =
     (let b = the_batt s in
      (if cs_ac (curr s) then EC_BATT_FLAG_AC_PRESENT else 0)
      OR (if b_is_present b = BP_YES \<or> batt_present s then EC_BATT_FLAG_BATT_PRESENT else 0)
      OR (if b_flags b AND 0x20 \<noteq> 0 then EC_BATT_FLAG_INVALID_DATA else 0)
      OR (if b_is_present b = BP_YES \<and> \<not> has_flag b BATT_FLAG_BAD_STATE_OF_CHARGE \<and> b_state_of_charge b \<le> BATTERY_LEVEL_CRITICAL
          then EC_BATT_FLAG_LEVEL_CRITICAL else 0)
      OR (if batt_is_charging (curr s) then EC_BATT_FLAG_CHARGING else EC_BATT_FLAG_DISCHARGING))"

definition lfcc_changed :: "chgst \<Rightarrow> bool" where
  "lfcc_changed s \<longleftrightarrow> \<not> has_flag (the_batt s) BATT_FLAG_BAD_FULL_CAPACITY
     \<and> (b_full_capacity (the_batt s) \<le> s32 (mm_lfcc (memmap s) - LFCC_EVENT_THRESH)
        \<or> b_full_capacity (the_batt s) \<ge> s32 (mm_lfcc (memmap s) + LFCC_EVENT_THRESH))"

definition info_event :: "chgst \<Rightarrow> bool" where
  "info_event s \<longleftrightarrow>
     (if b_is_present (the_batt s) = BP_YES then mm_flags (memmap s) AND EC_BATT_FLAG_BATT_PRESENT = 0
      else \<not> batt_present s \<and> mm_flags (memmap s) AND EC_BATT_FLAG_BATT_PRESENT \<noteq> 0)
     \<or> lfcc_changed s"

definition dynamic_memmap :: "chgst \<Rightarrow> batt_memmap" where
  "dynamic_memmap s =
     (let b = the_batt s; m = memmap s;
          m = (if has_flag b BATT_FLAG_BAD_VOLTAGE then m else m\<lparr>mm_volt := b_voltage b\<rparr>);
          m = (if has_flag b BATT_FLAG_BAD_CURRENT then m else m\<lparr>mm_rate := s32 \<bar>b_current b\<bar>\<rparr>);
          m = (if has_flag b BATT_FLAG_BAD_REMAINING_CAPACITY then m
               else m\<lparr>mm_cap := (if b_remaining_capacity b = 0 \<and> \<not> batt_is_charging (curr s) then 1 else b_remaining_capacity b)\<rparr>);
          m = (if lfcc_changed s then m\<lparr>mm_lfcc := b_full_capacity b\<rparr> else m)
      in m\<lparr>mm_flags := dynamic_flags s\<rparr>)"

definition event_if :: "bool \<Rightarrow> host_event \<Rightarrow> chgst \<Rightarrow> chgst" where
  "event_if b ev s = (if b then call (HostEvent ev) s else s)"

definition update_dynamic_battery_info :: "chgst \<Rightarrow> chgst" where
  "update_dynamic_battery_info s =
     event_if (mm_flags (memmap s) \<noteq> dynamic_flags s) EC_HOST_EVENT_BATTERY_STATUS
       (event_if (info_event s) EC_HOST_EVENT_BATTERY
         (s\<lparr>memmap := dynamic_memmap s, batt_present := (b_is_present (the_batt s) = BP_YES)\<rparr>))"

section \<open>Requests to the charger\<close>

definition calc_is_full :: "chgst \<Rightarrow> chgst" where
  "calc_is_full s =
     (let b = the_batt s;
          r = (if has_flag b BATT_FLAG_BAD_STATE_OF_CHARGE \<or> b_state_of_charge b > 100 then is_full_ret s
               else b_state_of_charge b \<ge> 90 \<and> b_desired_current b = 0)
      in s\<lparr>is_full := r, is_full_ret := r\<rparr>)"

text \<open>The voltage and the current that are set for a request, and the calls in their order.\<close>

definition effective_request :: "chg_cfg \<Rightarrow> chg_env \<Rightarrow> chgst \<Rightarrow> int \<Rightarrow> int \<Rightarrow> int \<times> int" where
  "effective_request c e s voltage current =
     (if voltage = 0 \<or> current = 0 then
        if narrow_vdc c then
          let v = charger_closest_voltage (info c) (s32 (b_voltage (the_batt s) + ci_voltage_step (info c)));
              v = (if is_full s then voltage_max (battery_constants e) else v)
          in (max v (voltage_normal (battery_constants e)), 0)
        else (0, 0)
      else (voltage, current))"

definition charge_request :: "chg_cfg \<Rightarrow> chg_env \<Rightarrow> int \<Rightarrow> int \<Rightarrow> chgst \<Rightarrow> int \<times> chgst" where
  "charge_request c e voltage current s =
     (let (voltage, current) = effective_request c e s voltage current;
          r2 = (if current \<ge> 0 then set_current_rv e current else 0);
          s = (if current \<ge> 0 then call (SetCurrent current) s else s);
          s = problem_if (r2 \<noteq> 0) e PR_SET_CURRENT r2 s;
          r1 = (if voltage \<ge> 0 then set_voltage_rv e voltage else 0);
          s = (if voltage \<ge> 0 then call (SetVoltage voltage) s else s);
          s = problem_if (r1 \<noteq> 0) e PR_SET_VOLTAGE r1 s;
          inhibit = (\<not> (voltage > 0 \<or> current > 0));
          s = call (SetMode inhibit) s;
          s = problem_if (set_mode_rv e inhibit \<noteq> 0) e PR_SET_MODE (set_mode_rv e inhibit) s;
          s = (if r1 = 0 \<and> r2 = 0 then s\<lparr>prev_volt := voltage, prev_curr := current\<rparr> else s)
      in (if r1 \<noteq> 0 then r1 else r2, s))"

definition chgstate_set_manual_current :: "chg_cfg \<Rightarrow> int \<Rightarrow> int \<Rightarrow> chgst \<Rightarrow> chgst" where
  "chgstate_set_manual_current c dptf curr_ma s =
     s\<lparr>manual_current := (if curr_ma < 0 then -1 else charger_closest_current (info c) dptf curr_ma)\<rparr>"

definition chgstate_set_manual_voltage :: "chg_cfg \<Rightarrow> int \<Rightarrow> chgst \<Rightarrow> chgst" where
  "chgstate_set_manual_voltage c volt_mv s = s\<lparr>manual_voltage := charger_closest_voltage (info c) volt_mv\<rparr>"

definition set_chg_ctrl_mode :: "u32 \<Rightarrow> chgst \<Rightarrow> int \<times> chgst" where
  "set_chg_ctrl_mode mode s =
     (if mode = CHARGE_CONTROL_NORMAL then (EC_SUCCESS, s\<lparr>chg_ctl_mode := mode, manual_current := -1, manual_voltage := -1\<rparr>)
      else if \<not> cs_ac (curr s) then (EC_ERROR_NOT_POWERED, s)
      else (EC_SUCCESS, s\<lparr>chg_ctl_mode := mode, manual_current := 0, manual_voltage := 0\<rparr>))"

section \<open>Critical battery\<close>

definition deci_kelvin_to_celsius :: "int \<Rightarrow> int" where
  "deci_kelvin_to_celsius t = s32 (t - 2731) sdiv 10"

definition battery_too_hot :: "chgst \<Rightarrow> int \<Rightarrow> bool" where
  "battery_too_hot s batt_temp_c \<longleftrightarrow> \<not> has_flag (the_batt s) BATT_FLAG_BAD_TEMPERATURE
     \<and> (batt_temp_c > discharging_max_c (batt_info s) \<or> batt_temp_c < discharging_min_c (batt_info s))"

definition battery_too_low :: "chgst \<Rightarrow> bool" where
  "battery_too_low s \<longleftrightarrow>
     \<not> has_flag (the_batt s) BATT_FLAG_BAD_STATE_OF_CHARGE \<and> b_state_of_charge (the_batt s) < BATTERY_LEVEL_SHUTDOWN
     \<or> \<not> has_flag (the_batt s) BATT_FLAG_BAD_VOLTAGE \<and> b_voltage (the_batt s) \<le> voltage_min (batt_info s)"

definition critical :: "chgst \<Rightarrow> bool" where
  "critical s \<longleftrightarrow> battery_too_hot s (deci_kelvin_to_celsius (b_temperature (the_batt s)))
     \<or> battery_too_low s \<and> \<not> batt_is_charging (curr s)"

definition critical_calls :: "chg_cfg \<Rightarrow> chg_env \<Rightarrow> chg_call list" where
  "critical_calls c e =
     (if ap_off e then
        (case crit_action c of
           CRIT_CUT_OFF \<Rightarrow> if crit_custom c \<and> \<not> critical_check e then [] else [CutOffBattery]
         | CRIT_HIBERNATE \<Rightarrow> [Hibernate]
         | CRIT_NOTHING \<Rightarrow> [])
      else [ForceShutdown])"

definition shutdown_on_critical_battery :: "chg_cfg \<Rightarrow> chg_env \<Rightarrow> chgst \<Rightarrow> bool \<times> chgst" where
  "shutdown_on_critical_battery c e s =
     (if \<not> critical s then (False, s\<lparr>shutdown_warning_time := 0\<rparr>)
      else if shutdown_warning_time s = 0 then
        (True, event_if (hostcmd_events c \<and> \<not> ap_off e) EC_HOST_EVENT_BATTERY_SHUTDOWN (s\<lparr>shutdown_warning_time := t_critical e\<rparr>))
      else if t_critical e > shutdown_warning_time s + word_of_int (crit_timeout_us c) then
        (True, s\<lparr>calls := calls s @ critical_calls c e\<rparr>)
      else (True, s))"

section \<open>Notifications\<close>

definition notify_host_of_low_battery_charge :: "chg_cfg \<Rightarrow> chgst \<Rightarrow> chgst" where
  "notify_host_of_low_battery_charge c s =
     (let soc = b_state_of_charge (the_batt s) in
      if has_flag (the_batt s) BATT_FLAG_BAD_STATE_OF_CHARGE then s
      else event_if (hostcmd_events c \<and> soc \<le> BATTERY_LEVEL_CRITICAL \<and> prev_charge s > BATTERY_LEVEL_CRITICAL)
             EC_HOST_EVENT_BATTERY_CRITICAL
             (event_if (hostcmd_events c \<and> soc \<le> BATTERY_LEVEL_LOW \<and> prev_charge s > BATTERY_LEVEL_LOW)
                EC_HOST_EVENT_BATTERY_LOW s))"

definition set_charge_state :: "charge_state_v2 \<Rightarrow> chgst \<Rightarrow> chgst" where
  "set_charge_state st s = s\<lparr>prev_state := cs_state (curr s), curr := (curr s)\<lparr>cs_state := st\<rparr>\<rparr>"

abbreviation (input) BAT_UVP_TIMEOUT_US :: u64 where "BAT_UVP_TIMEOUT_US \<equiv> 60000000"
abbreviation (input) BAT_OCP_TIMEOUT_US :: u64 where "BAT_OCP_TIMEOUT_US \<equiv> 60000000"

definition notify_host_of_low_battery_voltage :: "chg_cfg \<Rightarrow> chg_env \<Rightarrow> chgst \<Rightarrow> chgst" where
  "notify_host_of_low_battery_voltage c e s =
     (case uvp c of
        None \<Rightarrow> s
      | Some (thresh, hyst) \<Rightarrow>
          let v = b_voltage (the_batt s); t = uvp_throttle_start_time s in
          if has_flag (the_batt s) BATT_FLAG_BAD_VOLTAGE \<or> ap_off e then s
          else if t = 0 \<and> v < thresh then (call (Throttle True THROTTLE_SRC_BAT_VOLTAGE) s)\<lparr>uvp_throttle_start_time := t_uvp e\<rparr>
          else if t \<noteq> 0 \<and> v < thresh + hyst then s\<lparr>uvp_throttle_start_time := t_uvp e\<rparr>
          else if t \<noteq> 0 \<and> t_uvp e > t + BAT_UVP_TIMEOUT_US
          then (call (Throttle False THROTTLE_SRC_BAT_VOLTAGE) s)\<lparr>uvp_throttle_start_time := 0\<rparr>
          else s)"

definition notify_host_of_over_current :: "chg_cfg \<Rightarrow> chg_env \<Rightarrow> chgst \<Rightarrow> chgst" where
  "notify_host_of_over_current c e s =
     (case ocp c of
        None \<Rightarrow> s
      | Some (limit, hyst) \<Rightarrow>
          let i = b_current (the_batt s); t = ocp_throttle_start_time s in
          if has_flag (the_batt s) BATT_FLAG_BAD_CURRENT then s
          else if t = 0 \<and> i < - limit \<or> t \<noteq> 0 \<and> i < - limit + hyst
          then call (Throttle True THROTTLE_SRC_BAT_DISCHG_CURRENT) (s\<lparr>ocp_throttle_start_time := t_ocp e\<rparr>)
          else if t \<noteq> 0 \<and> t_ocp e > t + BAT_OCP_TIMEOUT_US
          then call (Throttle False THROTTLE_SRC_BAT_DISCHG_CURRENT) (s\<lparr>ocp_throttle_start_time := 0\<rparr>)
          else s)"

text \<open>Hooks: start of the system, and the shutdown and suspend of the host processor.\<close>

definition charger_init :: "chgst \<Rightarrow> chgst" where
  "charger_init s = s\<lparr>curr := csd_zero\<lparr>batt := batt_zero\<lparr>b_is_present := BP_NOT_SURE\<rparr>\<rparr>, manual_voltage := -1, manual_current := -1\<rparr>"

definition bat_low_voltage_throttle_reset :: "chgst \<Rightarrow> chgst" where
  "bat_low_voltage_throttle_reset s = s\<lparr>uvp_throttle_start_time := 0\<rparr>"

definition reset_current_limit :: "chgst \<Rightarrow> chgst" where
  "reset_current_limit s = s\<lparr>user_current_limit := -1\<rparr>"

section \<open>One round of the task\<close>

definition get_desired_input_current :: "chg_cfg \<Rightarrow> chg_env \<Rightarrow> battery_present \<Rightarrow> int" where
  "get_desired_input_current c e bp =
     (if bp = BP_YES \<or> locked e then
        if charge_manager_cfg c then
          if cm_current e = CHARGE_CURRENT_UNINITIALIZED then CHARGE_CURRENT_UNINITIALIZED
          else max (config_input_current c) (cm_current e)
        else config_input_current c
      else case pd_max_ma c of Some m \<Rightarrow> min m (ci_input_current_max (info c)) | None \<Rightarrow> ci_input_current_max (info c))"

text \<open>The part of \<open>charger_task\<close> before its loop.\<close>

definition charger_task_start :: "chg_cfg \<Rightarrow> chg_env \<Rightarrow> chgst \<Rightarrow> chgst" where
  "charger_task_start c e s =
     s\<lparr>need_static := True, batt_info := battery_constants e, prev_ac := -1, prev_charge := -1, prev_disp_charge := -1,
       chg_ctl_mode := CHARGE_CONTROL_NORMAL, shutdown_warning_time := 0, battery_seems_to_be_dead := False,
       curr := (curr s)\<lparr>batt := battery_reading e,
          desired_input_current := get_desired_input_current c e (b_is_present (battery_reading e))\<rparr>,
       prev_bp := BP_NOT_INIT\<rparr>"

definition round_begin :: "chg_env \<Rightarrow> chgst \<Rightarrow> chgst" where
  "round_begin e s =
     s\<lparr>calls := [], problems_exist := False, curr := (curr s)\<lparr>cs_ts := t_start e, cs_ac := extpower e\<rparr>\<rparr>"

definition round_ac_change :: "chg_env \<Rightarrow> chgst \<Rightarrow> chgst" where
  "round_ac_change e s =
     (let ac = (if cs_ac (curr s) then 1 else 0); des = desired_input_current (curr s) in
      if ac = prev_ac s then s
      else if cs_ac (curr s) then
        let s = call PostInit s in
        if post_init_rv e \<noteq> 0 then problem e PR_POST_INIT (post_init_rv e) s
        else
          let (rv, s) = (if des \<noteq> CHARGE_CURRENT_UNINITIALIZED then (set_input_rv e des, call (SetInputCurrent des) s) else (0, s))
          in if rv \<noteq> 0 then problem e PR_SET_INPUT_CURR rv s else s\<lparr>prev_ac := ac\<rparr>
      else s\<lparr>chg_ctl_mode := CHARGE_CONTROL_NORMAL, battery_seems_to_be_dead := False, prev_ac := ac\<rparr>)"

definition round_read :: "chg_cfg \<Rightarrow> chg_env \<Rightarrow> chgst \<Rightarrow> chgst" where
  "round_read c e s =
     (let s = s\<lparr>curr := (curr s)\<lparr>chg := charger_reading e, batt := battery_reading e\<rparr>\<rparr>;
          bp = b_is_present (battery_reading e); des = get_desired_input_current c e bp in
      if prev_bp s = bp then s
      else
        let s = s\<lparr>prev_bp := bp, batt_info := battery_constants e, need_static := True,
                  curr := (curr s)\<lparr>desired_input_current := des\<rparr>\<rparr>;
            s = (if des \<noteq> CHARGE_CURRENT_UNINITIALIZED then call (SetInputCurrent des) s else s)
        in call SocChanged s)"

text \<open>Readings that are not believed.\<close>

definition doubt :: "nat \<Rightarrow> bool \<Rightarrow> chgst \<Rightarrow> chgst" where
  "doubt n b s = s\<lparr>curr := (curr s)\<lparr>batt := set_flag n b (the_batt s)\<rparr>\<rparr>"

definition round_sanity :: "chg_cfg \<Rightarrow> chg_env \<Rightarrow> chgst \<Rightarrow> chgst" where
  "round_sanity c e s =
     (let s = doubt BATT_FLAG_BAD_TEMPERATURE (b_temperature (the_batt s) > 59331) s;
          s = doubt BATT_FLAG_BAD_STATE_OF_CHARGE (b_state_of_charge (the_batt s) > 100) s;
          s = notify_host_of_over_current c e s
      in request (b_desired_voltage (the_batt s)) (b_desired_current (the_batt s)) s)"

definition wake_battery :: "chg_cfg \<Rightarrow> chg_env \<Rightarrow> chgst \<Rightarrow> chgst" where
  "wake_battery c e s =
     (if battery_seems_to_be_dead s \<or> cut_off e then request 0 0 (set_charge_state ST_IDLE s)
      else if cs_state (curr s) = ST_PRECHARGE \<and> t_precharge e > precharge_start_time s + word_of_int (precharge_timeout_us c)
      then request 0 0 (set_charge_state ST_IDLE (s\<lparr>battery_seems_to_be_dead := True\<rparr>))
      else
        let s = (if cs_state (curr s) \<noteq> ST_PRECHARGE then s\<lparr>precharge_start_time := t_precharge e, need_static := True\<rparr> else s)
        in request (voltage_max (batt_info s)) (precharge_current (batt_info s)) (set_charge_state ST_PRECHARGE s))"

definition battery_woke_up :: "chg_env \<Rightarrow> chgst \<Rightarrow> chgst" where
  "battery_woke_up e s =
     (if cs_state (curr s) = ST_PRECHARGE \<or> battery_seems_to_be_dead s \<or> battery_was_removed s
      then s\<lparr>batt_info := battery_constants e, need_static := True\<rparr> else s)"

definition nil_request :: "chgst \<Rightarrow> bool" where
  "nil_request s \<longleftrightarrow> requested_voltage (curr s) = 0 \<and> requested_current (curr s) = 0"

definition use_battery :: "chg_cfg \<Rightarrow> chg_env \<Rightarrow> chgst \<Rightarrow> chgst" where
  "use_battery c e s =
     (let give = (\<lambda>s. request (voltage_max (batt_info s)) (precharge_current (batt_info s)) s);
          dead = (requests_nil c \<and> nil_request s \<and> b_state_of_charge (the_batt s) = 0);
          s = (if dead then give s
               else if revive_disconnect c then s\<lparr>battery_seems_to_be_disconnected := (disconnect_state e = BATTERY_DISCONNECTED)\<rparr>
               else s);
          s = (if revive_disconnect c then
                 if nil_request s \<and> battery_seems_to_be_disconnected s then give s else battery_woke_up e s
               else if dead then s else battery_woke_up e s)
      in set_charge_state ST_CHARGE (s\<lparr>battery_seems_to_be_dead := False, battery_was_removed := False\<rparr>))"

text \<open>The new state, and whether the battery is critical; \<open>goto wait_for_it\<close> ends the function.\<close>

definition round_decide :: "chg_cfg \<Rightarrow> chg_env \<Rightarrow> chgst \<Rightarrow> bool \<times> chgst" where
  "round_decide c e s =
     (if b_is_present (the_batt s) = BP_NO then
        let s = set_charge_state ST_IDLE s
        in (False, s\<lparr>curr := (curr s)\<lparr>batt_is_charging := False\<rparr>, battery_was_removed := True\<rparr>)
      else
        let s = problem_if (c_flags (chg (curr s)) AND CHG_FLAG_BAD_ANY \<noteq> 0) e PR_CHG_FLAGS (sint (c_flags (chg (curr s)))) s;
            s = problem_if (b_flags (the_batt s) AND BATT_FLAG_BAD_ANY \<noteq> 0) e PR_BATT_FLAGS (sint (b_flags (the_batt s))) s;
            s = s\<lparr>curr := (curr s)\<lparr>batt_is_charging := cs_ac (curr s) \<and> b_current (the_batt s) \<ge> 0\<rparr>\<rparr>;
            (crit, s) = shutdown_on_critical_battery c e s
        in (crit,
            if \<not> cs_ac (curr s) then set_charge_state ST_DISCHARGE s
            else if chg_ctl_mode s \<noteq> CHARGE_CONTROL_NORMAL then set_charge_state ST_IDLE s
            else if \<not> has_flag (the_batt s) BATT_FLAG_RESPONSIVE then wake_battery c e s
            else use_battery c e s))"

definition round_override :: "chg_cfg \<Rightarrow> chg_env \<Rightarrow> chgst \<Rightarrow> int \<times> chgst" where
  "round_override c e s =
     (if profile_override_cfg c \<and> chg_ctl_mode s = CHARGE_CONTROL_NORMAL then
        let (sleep, d) = override e (curr s) in (sleep, problem_if (sleep < 0) e PR_CUSTOM sleep (s\<lparr>curr := d\<rparr>))
      else (0, s))"

definition round_inform :: "chg_cfg \<Rightarrow> chg_env \<Rightarrow> chgst \<Rightarrow> chgst" where
  "round_inform c e s =
     (let s = (if charge_manager_cfg c \<and> b_state_of_charge (the_batt s) \<ge> safe_mode_exit_pct c \<and> \<not> battery_seems_to_be_disconnected s
               then call LeaveSafeMode s else s);
          s = (if need_static s then update_static_battery_info e s else s);
          s = (if need_static s then s else update_dynamic_battery_info s);
          s = notify_host_of_low_battery_charge c s;
          s = notify_host_of_low_battery_voltage c e s;
          s = calc_is_full s;
          b = the_batt s;
          s = (if \<not> has_flag b BATT_FLAG_BAD_STATE_OF_CHARGE \<and> b_state_of_charge b \<noteq> prev_charge s
                  \<or> is_full s \<noteq> prev_full s \<or> cs_state (curr s) \<noteq> prev_state s \<or> b_display_charge b \<noteq> prev_disp_charge s
               then call SocChanged (s\<lparr>prev_charge := b_state_of_charge b, prev_disp_charge := b_display_charge b\<rparr>) else s)
      in s\<lparr>prev_full := is_full s\<rparr>)"

text \<open>Turning the charger off when it is not needed, then the external limits and the manual settings.\<close>

definition turn_off_idle :: "chg_cfg \<Rightarrow> chgst \<Rightarrow> chgst" where
  "turn_off_idle c s =
     (if \<not> maintain_vbat c \<and> (cs_state (curr s) = ST_IDLE \<or> cs_state (curr s) = ST_DISCHARGE) then request 0 0 s else s)"

definition capped_current :: "chg_cfg \<Rightarrow> chg_env \<Rightarrow> chgst \<Rightarrow> int" where
  "capped_current c e s =
     (let ma = requested_current (curr s)
      in charger_closest_current (info c) (dptf_limit e) (if word_of_int ma > user_current_limit s then sint (user_current_limit s) else ma))"

definition apply_limits :: "chg_cfg \<Rightarrow> chg_env \<Rightarrow> chgst \<Rightarrow> chgst" where
  "apply_limits c e s =
     (let mv = charger_closest_voltage (info c) (requested_voltage (curr s)); ma = capped_current c e s
      in if cs_ac (curr s) then
           if cut_off e then request 0 0 s
           else request (if manual_voltage s \<noteq> -1 then manual_voltage s else mv) (if manual_current s \<noteq> -1 then manual_current s else ma) s
         else if maintain_vbat c then request mv (if battery_slave c then 0 else ma) s
         else request (charger_closest_voltage (info c) (s32 (b_voltage (the_batt s) + ci_voltage_step (info c))))
                (if battery_slave c then 0 else -1) s)"

definition round_limits :: "chg_cfg \<Rightarrow> chg_env \<Rightarrow> chgst \<Rightarrow> chgst" where
  "round_limits c e s = apply_limits c e (turn_off_idle c s)"

abbreviation (input) CHARGE_POLL_PERIOD_VERY_LONG :: int where "CHARGE_POLL_PERIOD_VERY_LONG \<equiv> 60000000"
abbreviation (input) CHARGE_POLL_PERIOD_LONG :: int where "CHARGE_POLL_PERIOD_LONG \<equiv> 500000"
abbreviation (input) CHARGE_POLL_PERIOD_CHARGE :: int where "CHARGE_POLL_PERIOD_CHARGE \<equiv> 250000"
abbreviation (input) CHARGE_POLL_PERIOD_SHORT :: int where "CHARGE_POLL_PERIOD_SHORT \<equiv> 100000"
abbreviation (input) CHARGE_MIN_SLEEP_USEC :: int where "CHARGE_MIN_SLEEP_USEC \<equiv> 50000"
abbreviation (input) CHARGE_MAX_SLEEP_USEC :: int where "CHARGE_MAX_SLEEP_USEC \<equiv> 60000000"

definition round_sleep :: "chg_cfg \<Rightarrow> chg_env \<Rightarrow> bool \<Rightarrow> int \<Rightarrow> chgst \<Rightarrow> int" where
  "round_sleep c e crit sleep s =
     (let sleep =
        (if problems_exist s then CHARGE_POLL_PERIOD_SHORT
         else if sleep \<le> 0 then
           if \<not> cs_ac (curr s) \<and> (cs_state (curr s) = ST_IDLE \<or> cs_state (curr s) = ST_DISCHARGE) then
             if (ap_off e \<or> ap_suspended e) \<and> output_current (curr s) = 0 then CHARGE_POLL_PERIOD_VERY_LONG
             else CHARGE_POLL_PERIOD_LONG
           else CHARGE_POLL_PERIOD_CHARGE
         else sleep);
          sleep = s32 (sleep - sint (ucast (t_end e - cs_ts (curr s)) :: u32));
          sleep = (if sleep < CHARGE_MIN_SLEEP_USEC then CHARGE_MIN_SLEEP_USEC
                   else if sleep > CHARGE_MAX_SLEEP_USEC then CHARGE_MAX_SLEEP_USEC else sleep)
      in if crit \<and> sleep > crit_timeout_us c then crit_timeout_us c else sleep)"

text \<open>A round: the time to sleep, and the new state.\<close>

definition charger_round :: "chg_cfg \<Rightarrow> chg_env \<Rightarrow> chgst \<Rightarrow> int \<times> chgst" where
  "charger_round c e s =
     (let s = round_begin e s;
          s = round_ac_change e s;
          s = round_read c e s;
          s = round_sanity c e s;
          (crit, s) = round_decide c e s;
          (sleep, s) = round_override c e s;
          s = round_inform c e s;
          s = round_limits c e s;
          s = snd (charge_request c e (requested_voltage (curr s)) (requested_current (curr s)) s)
      in (round_sleep c e crit sleep s, s))"

section \<open>Queries and commands of other tasks\<close>

definition charge_want_shutdown :: "chgst \<Rightarrow> bool" where
  "charge_want_shutdown s \<longleftrightarrow> cs_state (curr s) = ST_DISCHARGE \<and> \<not> has_flag (the_batt s) BATT_FLAG_BAD_STATE_OF_CHARGE
     \<and> b_state_of_charge (the_batt s) < BATTERY_LEVEL_SHUTDOWN"

text \<open>
  The options of \<open>charge_prevent_power_on\<close>: the minimum charge, the minimum charge with imbalanced
  cells, the power in mW that is enough without charge and, with the charge it needs, the lower one;
  CONFIG_BATTERY_HW_PRESENT_CUSTOM and CONFIG_SYSTEM_UNLOCKED. An option that is not defined is
  \<open>None\<close>.
\<close>

record power_on_cfg =
  min_pct :: "int option"
  min_pct_imbalanced :: "int option"
  min_power_mw :: "int option"
  min_power_with_batt :: "(int \<times> int) option"
  hw_present_custom :: bool
  system_unlocked :: bool

record power_on_env =
  po_batt :: batt_params
  po_disconnect :: battery_disconnect_state
  po_power_uw :: int
  po_locked :: bool
  po_hw_present :: battery_present
  po_extpower :: bool
  po_cm_current :: int

definition enough_charge :: "chg_cfg \<Rightarrow> power_on_cfg \<Rightarrow> power_on_env \<Rightarrow> batt_params \<Rightarrow> int \<Rightarrow> bool" where
  "enough_charge c p e b pct \<longleftrightarrow> b_is_present b = BP_YES
     \<and> (case min_pct_imbalanced p of None \<Rightarrow> True | Some q \<Rightarrow> \<not> (has_flag b BATT_FLAG_IMBALANCED_CELL \<and> b_state_of_charge b < q))
     \<and> (revive_disconnect c \<longrightarrow> po_disconnect e = BATTERY_NOT_DISCONNECTED)
     \<and> b_state_of_charge b \<ge> pct"

definition enough_power :: "chg_cfg \<Rightarrow> power_on_cfg \<Rightarrow> power_on_env \<Rightarrow> batt_params \<Rightarrow> bool" where
  "enough_power c p e b \<longleftrightarrow> charge_manager_cfg c \<and>
     (case min_power_mw p of
        None \<Rightarrow> False
      | Some mw \<Rightarrow> po_power_uw e \<ge> mw * 1000
          \<or> (case min_power_with_batt p of None \<Rightarrow> False | Some (mw', pct) \<Rightarrow> po_power_uw e \<ge> mw' * 1000 \<and> b_state_of_charge b \<ge> pct))"

text \<open>
  The answer, and the static \<open>automatic_power_on\<close>, which a press of the power button clears.
\<close>

definition charge_prevent_power_on :: "chg_cfg \<Rightarrow> power_on_cfg \<Rightarrow> power_on_env \<Rightarrow> bool \<Rightarrow> bool \<Rightarrow> chgst \<Rightarrow> bool \<times> bool" where
  "charge_prevent_power_on c p e power_button_pressed automatic s =
     (let b = (if b_is_present (the_batt s) = BP_NOT_SURE then po_batt e else the_batt s);
          (prevent, automatic) =
            (case min_pct p of
               None \<Rightarrow> (False, automatic)
             | Some pct \<Rightarrow>
                 let automatic = (automatic \<and> \<not> power_button_pressed);
                     prevent = (\<not> enough_charge c p e b pct \<and> \<not> enough_power c p e b)
                 in (prevent \<and> (po_locked e \<or> automatic \<and> (hw_present_custom p \<longrightarrow> po_hw_present e = BP_YES)), automatic));
          prevent = (prevent \<or> charge_manager_cfg c \<and> po_extpower e \<and> po_cm_current e = CHARGE_CURRENT_UNINITIALIZED);
          prevent = (prevent \<or> charge_manager_cfg c \<and> hw_present_custom p \<and> po_extpower e \<and> po_hw_present e = BP_NO
                       \<and> (case min_power_mw p of None \<Rightarrow> True | Some mw \<Rightarrow> po_power_uw e < mw * 1000));
          prevent = (prevent \<or> system_unlocked p \<and> b_is_present b = BP_NO \<and> \<not> cs_ac (curr s))
      in (prevent, automatic))"

definition charge_get_percent :: "chgst \<Rightarrow> int" where
  "charge_get_percent s = (if is_full s then 100 else b_state_of_charge (the_batt s))"

definition charge_get_display_charge :: "chgst \<Rightarrow> int" where
  "charge_get_display_charge s = b_display_charge (the_batt s)"

definition battery_near_full :: "chg_cfg \<Rightarrow> chgst \<Rightarrow> bool" where
  "battery_near_full c s \<longleftrightarrow> charge_get_percent s \<ge> near_full_pct c"

datatype charge_state = PWR_STATE_UNCHANGE | PWR_STATE_INIT | PWR_STATE_REINIT | PWR_STATE_IDLE0 | PWR_STATE_IDLE
  | PWR_STATE_DISCHARGE | PWR_STATE_DISCHARGE_FULL | PWR_STATE_CHARGE | PWR_STATE_CHARGE_NEAR_FULL | PWR_STATE_ERROR

definition charge_get_state :: "chg_cfg \<Rightarrow> chgst \<Rightarrow> charge_state" where
  "charge_get_state c s =
     (case cs_state (curr s) of
        ST_IDLE \<Rightarrow> if battery_seems_to_be_dead s \<or> b_is_present (the_batt s) = BP_NO then PWR_STATE_ERROR else PWR_STATE_IDLE
      | ST_DISCHARGE \<Rightarrow> if discharge_full c \<and> battery_near_full c s then PWR_STATE_DISCHARGE_FULL else PWR_STATE_DISCHARGE
      | ST_CHARGE \<Rightarrow> if battery_near_full c s then PWR_STATE_CHARGE_NEAR_FULL else PWR_STATE_CHARGE
      | ST_PRECHARGE \<Rightarrow> PWR_STATE_IDLE)"

definition charge_get_flags :: "chgst \<Rightarrow> u32" where
  "charge_get_flags s =
     (if chg_ctl_mode s \<noteq> CHARGE_CONTROL_NORMAL then 1 else 0) OR (if cs_ac (curr s) then 2 else 0)
     OR (if has_flag (the_batt s) BATT_FLAG_RESPONSIVE then 4 else 0)"

definition charge_get_battery_temp :: "chgst \<Rightarrow> int + int" where
  "charge_get_battery_temp s =
     (if has_flag (the_batt s) BATT_FLAG_BAD_TEMPERATURE then Inl EC_ERROR_UNKNOWN else Inr (b_temperature (the_batt s) sdiv 10))"

definition charge_is_consuming_full_input_current :: "chgst \<Rightarrow> bool" where
  "charge_is_consuming_full_input_current s \<longleftrightarrow> charge_get_percent s > 2 \<and> charge_get_percent s < 95"

text \<open>\<open>rv_set\<close> and \<open>rv_enable\<close> are the results of the two calls to the chip.\<close>

definition charge_set_output_current_limit :: "int \<Rightarrow> int \<Rightarrow> int \<Rightarrow> int \<Rightarrow> chgst \<Rightarrow> int \<times> chgst" where
  "charge_set_output_current_limit rv_set rv_enable ma mv s =
     (let enable = (ma > 0); s = (if enable then call (SetOtg ma mv) s else s) in
      if enable \<and> rv_set \<noteq> 0 then (rv_set, s)
      else
        let s = call (EnableOtg enable) s in
        if rv_enable \<noteq> 0 then (rv_enable, s)
        else
          let out = output_current (curr s);
              s = (if out = 0 \<and> enable \<or> out > 0 \<and> \<not> enable then call WakeCharger s else s)
          in (EC_SUCCESS, s\<lparr>curr := (curr s)\<lparr>output_current := ma\<rparr>\<rparr>))"

text \<open>
  \<open>pd_max_mw\<close> is PD_MAX_POWER_MW where it is not the product of the maximal voltage and current;
  \<open>max_input\<close> is CONFIG_CHARGER_MAX_INPUT_CURRENT. \<open>None\<close> is the return before the limit is set.
\<close>

definition charge_set_input_current_limit ::
  "chg_cfg \<Rightarrow> int option \<Rightarrow> int option \<Rightarrow> bool \<Rightarrow> (int \<Rightarrow> int) \<Rightarrow> int \<Rightarrow> int \<Rightarrow> chgst \<Rightarrow> int \<times> chgst" where
  "charge_set_input_current_limit c pd_max_mw max_input lock set_rv ma mv s =
     (let limit =
        (if b_is_present (the_batt s) \<noteq> BP_YES \<and> \<not> lock \<and> pd_max_ma c \<noteq> None then
           (case pd_max_mw of
              None \<Rightarrow> None
            | Some mw \<Rightarrow> if mv > 0 \<and> s32 (mv * desired_input_current (curr s)) > mw * 1000 then Some (mw * 1000 div mv) else None)
         else Some ma)
      in case limit of
           None \<Rightarrow> (EC_SUCCESS, s)
         | Some ma \<Rightarrow>
             let ma = (case max_input of None \<Rightarrow> ma | Some m \<Rightarrow> min ma m)
             in (set_rv ma, call (SetInputCurrent ma) (s\<lparr>curr := (curr s)\<lparr>desired_input_current := ma\<rparr>\<rparr>)))"

text \<open>Results of host commands, as the codes of include/ec_commands.h.\<close>

type_synonym cs_result = int

abbreviation (input) CS_SUCCESS :: cs_result where "CS_SUCCESS \<equiv> 0"
abbreviation (input) CS_ERROR :: cs_result where "CS_ERROR \<equiv> 2"
abbreviation (input) CS_INVALID_PARAM :: cs_result where "CS_INVALID_PARAM \<equiv> 3"
abbreviation (input) CS_ACCESS_DENIED :: cs_result where "CS_ACCESS_DENIED \<equiv> 4"

text \<open>\<open>discharge_rv\<close> is the result of \<open>charger_discharge_on_ac\<close> where CONFIG_CHARGER_DISCHARGE_ON_AC is set.\<close>

definition charge_command_charge_control :: "int option \<Rightarrow> u32 \<Rightarrow> chgst \<Rightarrow> cs_result \<times> chgst" where
  "charge_command_charge_control discharge_rv mode s =
     (let (rv, s) = set_chg_ctrl_mode mode s in
      if rv \<noteq> 0 then (CS_ERROR, s)
      else case discharge_rv of
             None \<Rightarrow> (CS_SUCCESS, s)
           | Some rv \<Rightarrow> (if rv \<noteq> 0 then CS_ERROR else CS_SUCCESS, call (DischargeOnAc (mode = CHARGE_CONTROL_DISCHARGE)) s))"

definition charge_command_current_limit :: "u32 \<Rightarrow> chgst \<Rightarrow> cs_result \<times> chgst" where
  "charge_command_current_limit limit s = (CS_SUCCESS, s\<lparr>user_current_limit := limit\<rparr>)"

abbreviation (input) CS_PARAM_CHG_VOLTAGE :: u32 where "CS_PARAM_CHG_VOLTAGE \<equiv> 0"
abbreviation (input) CS_PARAM_CHG_CURRENT :: u32 where "CS_PARAM_CHG_CURRENT \<equiv> 1"
abbreviation (input) CS_PARAM_CHG_INPUT_CURRENT :: u32 where "CS_PARAM_CHG_INPUT_CURRENT \<equiv> 2"
abbreviation (input) CS_PARAM_CHG_STATUS :: u32 where "CS_PARAM_CHG_STATUS \<equiv> 3"
abbreviation (input) CS_PARAM_CHG_OPTION :: u32 where "CS_PARAM_CHG_OPTION \<equiv> 4"
abbreviation (input) CS_PARAM_LIMIT_POWER :: u32 where "CS_PARAM_LIMIT_POWER \<equiv> 5"

definition charge_get_charge_state_debug :: "u32 \<Rightarrow> chgst \<Rightarrow> int \<times> u32" where
  "charge_get_charge_state_debug param s =
     (let b = (\<lambda>b. if b then 1 else 0) in
      if param = 0x20000 then (EC_SUCCESS, chg_ctl_mode s)
      else if param = 0x20005 then (EC_SUCCESS, word_of_int (manual_current s))
      else if param = 0x20006 then (EC_SUCCESS, word_of_int (manual_voltage s))
      else if param = 0x20002 then (EC_SUCCESS, b (battery_seems_to_be_dead s))
      else if param = 0x20003 then (EC_SUCCESS, b (battery_seems_to_be_disconnected s))
      else if param = 0x20004 then (EC_SUCCESS, b (battery_was_removed s))
      else (EC_ERROR_INVAL, 0))"

text \<open>
  The commands of EC_CMD_CHARGE_STATE. The first parameter of the query answers the custom profile
  parameters, where there are any; \<open>limit_power\<close> is the state of the power limit, where that is
  configured; \<open>debug\<close> is CONFIG_CHARGE_STATE_DEBUG.
\<close>

definition charge_state_get_param :: "(u32 \<Rightarrow> u32 option) option \<Rightarrow> bool \<Rightarrow> bool \<Rightarrow> u32 \<Rightarrow> chgst \<Rightarrow> cs_result \<times> u32" where
  "charge_state_get_param custom limit_power debug param s =
     (if custom \<noteq> None \<and> 0x10000 \<le> param \<and> param \<le> 0x1ffff then
        (case (the custom) param of Some v \<Rightarrow> (CS_SUCCESS, v) | None \<Rightarrow> (CS_INVALID_PARAM, 0))
      else if debug \<and> 0x20000 \<le> param \<and> param \<le> 0x2ffff then
        charge_get_charge_state_debug param s
      else if param = CS_PARAM_CHG_VOLTAGE then (CS_SUCCESS, word_of_int (c_voltage (chg (curr s))))
      else if param = CS_PARAM_CHG_CURRENT then (CS_SUCCESS, word_of_int (c_current (chg (curr s))))
      else if param = CS_PARAM_CHG_INPUT_CURRENT then (CS_SUCCESS, word_of_int (c_input_current (chg (curr s))))
      else if param = CS_PARAM_CHG_STATUS then (CS_SUCCESS, word_of_int (c_status (chg (curr s))))
      else if param = CS_PARAM_CHG_OPTION then (CS_SUCCESS, word_of_int (c_option (chg (curr s))))
      else if param = CS_PARAM_LIMIT_POWER then (CS_SUCCESS, if limit_power then 1 else 0)
      else (CS_INVALID_PARAM, 0))"

text \<open>\<open>allowed\<close> is the state of the custom profile, \<open>set_rv\<close> the result of the call to the chip.\<close>

definition charge_state_set_param ::
  "chg_cfg \<Rightarrow> bool \<Rightarrow> int \<Rightarrow> int \<Rightarrow> u32 \<Rightarrow> u32 \<Rightarrow> chgst \<times> bool \<Rightarrow> cs_result \<times> chgst \<times> bool" where
  "charge_state_set_param c lock dptf set_rv param val sa =
     (let (s, allowed) = sa; v = sint val in
      if lock then (CS_ACCESS_DENIED, s, allowed)
      else if profile_override_cfg c \<and> 0x10000 \<le> param \<and> param \<le> 0x1ffff then
        (case charger_profile_override_set_param param val allowed of
           Some allowed \<Rightarrow> (CS_SUCCESS, s, allowed) | None \<Rightarrow> (CS_INVALID_PARAM, s, allowed))
      else if param = CS_PARAM_CHG_VOLTAGE then (CS_SUCCESS, chgstate_set_manual_voltage c v s, allowed)
      else if param = CS_PARAM_CHG_CURRENT then (CS_SUCCESS, chgstate_set_manual_current c dptf v s, allowed)
      else if param = CS_PARAM_CHG_INPUT_CURRENT then
        (if set_rv \<noteq> 0 then CS_ERROR else CS_SUCCESS, call (SetInputCurrent v) s, allowed)
      else if param = CS_PARAM_CHG_STATUS \<or> param = CS_PARAM_LIMIT_POWER then (CS_ACCESS_DENIED, s, allowed)
      else if param = CS_PARAM_CHG_OPTION then (if set_rv \<noteq> 0 then CS_ERROR else CS_SUCCESS, call (SetOption v) s, allowed)
      else (CS_INVALID_PARAM, s, allowed))"

datatype cs_response = RespState bool int int int int | RespParam u32 | RespNone

definition charge_command_charge_state ::
  "chg_cfg \<Rightarrow> bool \<Rightarrow> bool \<Rightarrow> bool \<Rightarrow> int \<Rightarrow> int \<Rightarrow> byte \<Rightarrow> u32 \<Rightarrow> u32 \<Rightarrow> chgst \<times> bool \<Rightarrow> cs_result \<times> cs_response \<times> chgst \<times> bool" where
  "charge_command_charge_state c lock limit_power debug dptf set_rv cmd param val sa =
     (let (s, allowed) = sa in
      if cmd = 0 then (CS_SUCCESS, RespState (cs_ac (curr s)) (c_voltage (chg (curr s))) (c_current (chg (curr s)))
        (c_input_current (chg (curr s))) (b_state_of_charge (the_batt s)), s, allowed)
      else if cmd = 1 then
        let (rv, v) = charge_state_get_param
              (if profile_override_cfg c then Some (\<lambda>p. charger_profile_override_get_param p allowed) else None) limit_power debug param s
        in (rv, RespParam v, s, allowed)
      else if cmd = 2 then
        let (rv, sa) = charge_state_set_param c lock dptf set_rv param val (s, allowed) in (rv, RespNone, sa)
      else (CS_INVALID_PARAM, RespNone, s, allowed))"

definition str_idle :: cstr where "str_idle = [105, 100, 108, 101]"
definition str_discharge :: cstr where "str_discharge = [100, 105, 115, 99, 104, 97, 114, 103, 101]"
definition str_debug :: cstr where "str_debug = [100, 101, 98, 117, 103]"

text \<open>
  The console command; the flag that turns on more output is not part of the state. Errors of the
  arguments are 11, 12 and 20 as in include/common.h.
\<close>

definition command_chgstate :: "int option \<Rightarrow> cstr list \<Rightarrow> chgst \<Rightarrow> int \<times> chgst" where
  "command_chgstate discharge_rv argv s =
     (let val = parse_bool (argv ! 2) in
      if length argv \<le> 1 then (EC_SUCCESS, s)
      else if strcasecmp (argv ! 1) str_idle = 0 then
        if length argv \<le> 2 then (20, s)
        else if val = None then (12, s)
        else set_chg_ctrl_mode (if the val then CHARGE_CONTROL_IDLE else CHARGE_CONTROL_NORMAL) s
      else if discharge_rv \<noteq> None \<and> strcasecmp (argv ! 1) str_discharge = 0 then
        if length argv \<le> 2 then (20, s)
        else if val = None then (12, s)
        else
          let (rv, s) = set_chg_ctrl_mode (if the val then CHARGE_CONTROL_DISCHARGE else CHARGE_CONTROL_NORMAL) s
          in if rv \<noteq> 0 then (rv, s) else (the discharge_rv, call (DischargeOnAc (the val)) s)
      else if strcasecmp (argv ! 1) str_debug = 0 then
        if length argv \<le> 2 then (20, s) else if val = None then (12, s) else (EC_SUCCESS, s)
      else (11, s))"

section \<open>Shape of a round\<close>

lemmas st_defs = call_def request_def problem_def problem_if_def event_if_def set_charge_state_def doubt_def

lemma problem_simps [simp]:
  "curr (problem e p v s) = curr s" "calls (problem e p v s) = calls s" "batt_info (problem e p v s) = batt_info s"
  "shutdown_warning_time (problem e p v s) = shutdown_warning_time s" "chg_ctl_mode (problem e p v s) = chg_ctl_mode s"
  "prev_ac (problem e p v s) = prev_ac s" "manual_voltage (problem e p v s) = manual_voltage s"
  "manual_current (problem e p v s) = manual_current s" "user_current_limit (problem e p v s) = user_current_limit s"
  "battery_seems_to_be_dead (problem e p v s) = battery_seems_to_be_dead s" "precharge_start_time (problem e p v s) = precharge_start_time s"
  "uvp_throttle_start_time (problem e p v s) = uvp_throttle_start_time s" "ocp_throttle_start_time (problem e p v s) = ocp_throttle_start_time s"
  "problems_exist (problem e p v s)" "memmap (problem e p v s) = memmap s" "need_static (problem e p v s) = need_static s"
  "is_full (problem e p v s) = is_full s" "prev_charge (problem e p v s) = prev_charge s" "prev_state (problem e p v s) = prev_state s"
  "batt_present (problem e p v s) = batt_present s" "prev_bp (problem e p v s) = prev_bp s" "battery_was_removed (problem e p v s) = battery_was_removed s"
  "battery_seems_to_be_disconnected (problem e p v s) = battery_seems_to_be_disconnected s"
  by (simp_all add: problem_def)

lemma problem_if_simps [simp]:
  "curr (problem_if b e p v s) = curr s" "calls (problem_if b e p v s) = calls s" "batt_info (problem_if b e p v s) = batt_info s"
  "shutdown_warning_time (problem_if b e p v s) = shutdown_warning_time s" "chg_ctl_mode (problem_if b e p v s) = chg_ctl_mode s"
  "prev_ac (problem_if b e p v s) = prev_ac s" "manual_voltage (problem_if b e p v s) = manual_voltage s"
  "manual_current (problem_if b e p v s) = manual_current s" "user_current_limit (problem_if b e p v s) = user_current_limit s"
  "battery_seems_to_be_dead (problem_if b e p v s) = battery_seems_to_be_dead s"
  "precharge_start_time (problem_if b e p v s) = precharge_start_time s"
  "uvp_throttle_start_time (problem_if b e p v s) = uvp_throttle_start_time s"
  "ocp_throttle_start_time (problem_if b e p v s) = ocp_throttle_start_time s"
  "problems_exist (problem_if b e p v s) = (problems_exist s \<or> b)" "memmap (problem_if b e p v s) = memmap s"
  "need_static (problem_if b e p v s) = need_static s" "is_full (problem_if b e p v s) = is_full s"
  "prev_charge (problem_if b e p v s) = prev_charge s" "prev_state (problem_if b e p v s) = prev_state s"
  "batt_present (problem_if b e p v s) = batt_present s" "prev_bp (problem_if b e p v s) = prev_bp s"
  "battery_was_removed (problem_if b e p v s) = battery_was_removed s"
  "battery_seems_to_be_disconnected (problem_if b e p v s) = battery_seems_to_be_disconnected s"
  by (simp_all add: problem_if_def)

end
