(* ===== verification/Charge_Safety.thy ===== *)
theory Charge_Safety
  imports Charge_State
begin

text \<open>
  Properties of the charging task: what reaches the charger chip, the shutdown on a critical
  battery, waking a battery that does not respond, throttling, and what the host is told. The first
  section follows the fields that matter through the phases of a round.
\<close>

section \<open>Phases of a round\<close>

text \<open>The calls of one kind, in order.\<close>

definition of_kind :: "(chg_call \<Rightarrow> bool) \<Rightarrow> chgst \<Rightarrow> chg_call list" where
  "of_kind P s = filter P (calls s)"

lemma of_kind_cong: "calls s = calls t \<Longrightarrow> of_kind P s = of_kind P t"
  by (simp add: of_kind_def)

lemma of_kind_call [simp]: "of_kind P (call x s) = of_kind P s @ (if P x then [x] else [])"
  by (simp add: of_kind_def call_def)

lemma call_simps [simp]:
  "curr (call x s) = curr s" "batt_info (call x s) = batt_info s" "shutdown_warning_time (call x s) = shutdown_warning_time s"
  "chg_ctl_mode (call x s) = chg_ctl_mode s" "prev_ac (call x s) = prev_ac s" "manual_voltage (call x s) = manual_voltage s"
  "manual_current (call x s) = manual_current s" "user_current_limit (call x s) = user_current_limit s"
  "battery_seems_to_be_dead (call x s) = battery_seems_to_be_dead s" "precharge_start_time (call x s) = precharge_start_time s"
  "uvp_throttle_start_time (call x s) = uvp_throttle_start_time s" "ocp_throttle_start_time (call x s) = ocp_throttle_start_time s"
  "problems_exist (call x s) = problems_exist s" "memmap (call x s) = memmap s" "need_static (call x s) = need_static s"
  "is_full (call x s) = is_full s" "prev_charge (call x s) = prev_charge s" "prev_state (call x s) = prev_state s"
  "batt_present (call x s) = batt_present s" "prev_bp (call x s) = prev_bp s" "battery_was_removed (call x s) = battery_was_removed s"
  "battery_seems_to_be_disconnected (call x s) = battery_seems_to_be_disconnected s"
  by (simp_all add: call_def)

lemma of_kind_problem [simp]: "of_kind P (problem e p v s) = of_kind P s" "of_kind P (problem_if b e p v s) = of_kind P s"
  by (simp_all add: of_kind_def)

lemma of_kind_event [simp]: "of_kind P (event_if b ev s) = of_kind P s @ (if b \<and> P (HostEvent ev) then [HostEvent ev] else [])"
  by (simp add: event_if_def)

lemma of_kind_update [simp]:
  "of_kind P (s\<lparr>curr := x\<rparr>) = of_kind P s" "of_kind P (s\<lparr>prev_ac := y\<rparr>) = of_kind P s"
  "of_kind P (s\<lparr>shutdown_warning_time := w\<rparr>) = of_kind P s" "of_kind P (s\<lparr>memmap := m\<rparr>) = of_kind P s"
  "of_kind P (s\<lparr>uvp_throttle_start_time := w\<rparr>) = of_kind P s" "of_kind P (s\<lparr>ocp_throttle_start_time := w\<rparr>) = of_kind P s"
  by (simp_all add: of_kind_def)

lemma event_if_simps [simp]:
  "curr (event_if b ev s) = curr s" "shutdown_warning_time (event_if b ev s) = shutdown_warning_time s"
  "chg_ctl_mode (event_if b ev s) = chg_ctl_mode s" "prev_ac (event_if b ev s) = prev_ac s" "manual_voltage (event_if b ev s) = manual_voltage s"
  "manual_current (event_if b ev s) = manual_current s" "user_current_limit (event_if b ev s) = user_current_limit s"
  "battery_seems_to_be_dead (event_if b ev s) = battery_seems_to_be_dead s" "precharge_start_time (event_if b ev s) = precharge_start_time s"
  "uvp_throttle_start_time (event_if b ev s) = uvp_throttle_start_time s" "ocp_throttle_start_time (event_if b ev s) = ocp_throttle_start_time s"
  "problems_exist (event_if b ev s) = problems_exist s" "memmap (event_if b ev s) = memmap s" "batt_info (event_if b ev s) = batt_info s"
  "prev_charge (event_if b ev s) = prev_charge s" "prev_bp (event_if b ev s) = prev_bp s" "is_full (event_if b ev s) = is_full s"
  "batt_present (event_if b ev s) = batt_present s" "need_static (event_if b ev s) = need_static s" "prev_state (event_if b ev s) = prev_state s"
  by (simp_all add: event_if_def)

text \<open>Fields that the phases before the request keep or set.\<close>

lemma round_begin_simps [simp]:
  "curr (round_begin e s) = (curr s)\<lparr>cs_ts := t_start e, cs_ac := extpower e\<rparr>" "of_kind P (round_begin e s) = []"
  "shutdown_warning_time (round_begin e s) = shutdown_warning_time s" "batt_info (round_begin e s) = batt_info s"
  "chg_ctl_mode (round_begin e s) = chg_ctl_mode s" "prev_ac (round_begin e s) = prev_ac s"
  "manual_voltage (round_begin e s) = manual_voltage s" "manual_current (round_begin e s) = manual_current s"
  "user_current_limit (round_begin e s) = user_current_limit s" "battery_seems_to_be_dead (round_begin e s) = battery_seems_to_be_dead s"
  "precharge_start_time (round_begin e s) = precharge_start_time s" "prev_bp (round_begin e s) = prev_bp s"
  "uvp_throttle_start_time (round_begin e s) = uvp_throttle_start_time s" "ocp_throttle_start_time (round_begin e s) = ocp_throttle_start_time s"
  "prev_charge (round_begin e s) = prev_charge s" "memmap (round_begin e s) = memmap s" "batt_present (round_begin e s) = batt_present s"
  "need_static (round_begin e s) = need_static s"
  by (simp_all add: round_begin_def of_kind_def)

lemma round_ac_change_keeps [simp]:
  "curr (round_ac_change e s) = curr s" "shutdown_warning_time (round_ac_change e s) = shutdown_warning_time s"
  "batt_info (round_ac_change e s) = batt_info s" "manual_voltage (round_ac_change e s) = manual_voltage s"
  "manual_current (round_ac_change e s) = manual_current s" "user_current_limit (round_ac_change e s) = user_current_limit s"
  "precharge_start_time (round_ac_change e s) = precharge_start_time s" "prev_bp (round_ac_change e s) = prev_bp s"
  "uvp_throttle_start_time (round_ac_change e s) = uvp_throttle_start_time s"
  "ocp_throttle_start_time (round_ac_change e s) = ocp_throttle_start_time s" "prev_charge (round_ac_change e s) = prev_charge s"
  "memmap (round_ac_change e s) = memmap s" "need_static (round_ac_change e s) = need_static s"
  "batt_present (round_ac_change e s) = batt_present s"
  by (simp_all add: round_ac_change_def Let_def split: if_splits)

lemma round_ac_change_ac:
  "cs_ac (curr s) \<Longrightarrow> chg_ctl_mode (round_ac_change e s) = chg_ctl_mode s"
  "cs_ac (curr s) \<Longrightarrow> battery_seems_to_be_dead (round_ac_change e s) = battery_seems_to_be_dead s"
  "\<not> cs_ac (curr s) \<Longrightarrow> prev_ac (round_ac_change e s) = 0"
  "\<not> cs_ac (curr s) \<Longrightarrow> chg_ctl_mode (round_ac_change e s) = (if prev_ac s = 0 then chg_ctl_mode s else CHARGE_CONTROL_NORMAL)"
  by (simp_all add: round_ac_change_def Let_def)

lemma round_ac_change_kind:
  "\<not> P PostInit \<Longrightarrow> (\<And>x. \<not> P (SetInputCurrent x)) \<Longrightarrow> of_kind P (round_ac_change e s) = of_kind P s"
  by (simp add: round_ac_change_def Let_def of_kind_def call_def)

lemma round_read_keeps [simp]:
  "shutdown_warning_time (round_read c e s) = shutdown_warning_time s" "manual_voltage (round_read c e s) = manual_voltage s"
  "manual_current (round_read c e s) = manual_current s" "user_current_limit (round_read c e s) = user_current_limit s"
  "precharge_start_time (round_read c e s) = precharge_start_time s" "prev_bp (round_read c e s) = b_is_present (battery_reading e)"
  "uvp_throttle_start_time (round_read c e s) = uvp_throttle_start_time s" "ocp_throttle_start_time (round_read c e s) = ocp_throttle_start_time s"
  "prev_charge (round_read c e s) = prev_charge s" "memmap (round_read c e s) = memmap s" "chg_ctl_mode (round_read c e s) = chg_ctl_mode s"
  "prev_ac (round_read c e s) = prev_ac s" "battery_seems_to_be_dead (round_read c e s) = battery_seems_to_be_dead s"
  "batt_info (round_read c e s) = (if prev_bp s = b_is_present (battery_reading e) then batt_info s else battery_constants e)"
  "batt (curr (round_read c e s)) = battery_reading e" "chg (curr (round_read c e s)) = charger_reading e"
  "cs_ac (curr (round_read c e s)) = cs_ac (curr s)" "cs_state (curr (round_read c e s)) = cs_state (curr s)"
  "cs_ts (curr (round_read c e s)) = cs_ts (curr s)" "output_current (curr (round_read c e s)) = output_current (curr s)"
  "batt_present (round_read c e s) = batt_present s"
  by (simp_all add: round_read_def Let_def)

lemma round_read_kind:
  "\<not> P SocChanged \<Longrightarrow> (\<And>x. \<not> P (SetInputCurrent x)) \<Longrightarrow> of_kind P (round_read c e s) = of_kind P s"
  by (simp add: round_read_def Let_def of_kind_def call_def)

text \<open>The battery as the round sees it.\<close>

definition seen_batt :: "chg_env \<Rightarrow> batt_params" where
  "seen_batt e = set_flag BATT_FLAG_BAD_STATE_OF_CHARGE (b_state_of_charge (battery_reading e) > 100)
     (set_flag BATT_FLAG_BAD_TEMPERATURE (b_temperature (battery_reading e) > 59331) (battery_reading e))"

lemma doubt_keeps [simp]:
  "shutdown_warning_time (doubt n b s) = shutdown_warning_time s" "manual_voltage (doubt n b s) = manual_voltage s"
  "manual_current (doubt n b s) = manual_current s" "user_current_limit (doubt n b s) = user_current_limit s"
  "precharge_start_time (doubt n b s) = precharge_start_time s" "prev_bp (doubt n b s) = prev_bp s" "batt_info (doubt n b s) = batt_info s"
  "uvp_throttle_start_time (doubt n b s) = uvp_throttle_start_time s" "ocp_throttle_start_time (doubt n b s) = ocp_throttle_start_time s"
  "prev_charge (doubt n b s) = prev_charge s" "memmap (doubt n b s) = memmap s" "chg_ctl_mode (doubt n b s) = chg_ctl_mode s"
  "prev_ac (doubt n b s) = prev_ac s" "battery_seems_to_be_dead (doubt n b s) = battery_seems_to_be_dead s" "calls (doubt n b s) = calls s"
  "curr (doubt n b s) = (curr s)\<lparr>batt := set_flag n b (the_batt s)\<rparr>" "batt_present (doubt n b s) = batt_present s"
  by (simp_all add: doubt_def)

lemma over_current_keeps [simp]:
  "curr (notify_host_of_over_current c e s) = curr s" "shutdown_warning_time (notify_host_of_over_current c e s) = shutdown_warning_time s"
  "manual_voltage (notify_host_of_over_current c e s) = manual_voltage s" "manual_current (notify_host_of_over_current c e s) = manual_current s"
  "user_current_limit (notify_host_of_over_current c e s) = user_current_limit s"
  "precharge_start_time (notify_host_of_over_current c e s) = precharge_start_time s" "prev_bp (notify_host_of_over_current c e s) = prev_bp s"
  "batt_info (notify_host_of_over_current c e s) = batt_info s" "uvp_throttle_start_time (notify_host_of_over_current c e s) = uvp_throttle_start_time s"
  "prev_charge (notify_host_of_over_current c e s) = prev_charge s" "memmap (notify_host_of_over_current c e s) = memmap s"
  "chg_ctl_mode (notify_host_of_over_current c e s) = chg_ctl_mode s" "prev_ac (notify_host_of_over_current c e s) = prev_ac s"
  "battery_seems_to_be_dead (notify_host_of_over_current c e s) = battery_seems_to_be_dead s"
  "batt_present (notify_host_of_over_current c e s) = batt_present s"
  by (simp_all add: notify_host_of_over_current_def Let_def split: option.split)

lemma over_current_kind: "(\<And>x y. \<not> P (Throttle x y)) \<Longrightarrow> of_kind P (notify_host_of_over_current c e s) = of_kind P s"
  by (simp add: notify_host_of_over_current_def Let_def of_kind_def call_def split: option.split)

lemma request_keeps [simp]:
  "shutdown_warning_time (request v i s) = shutdown_warning_time s" "manual_voltage (request v i s) = manual_voltage s"
  "manual_current (request v i s) = manual_current s" "user_current_limit (request v i s) = user_current_limit s"
  "precharge_start_time (request v i s) = precharge_start_time s" "prev_bp (request v i s) = prev_bp s" "batt_info (request v i s) = batt_info s"
  "uvp_throttle_start_time (request v i s) = uvp_throttle_start_time s" "ocp_throttle_start_time (request v i s) = ocp_throttle_start_time s"
  "prev_charge (request v i s) = prev_charge s" "memmap (request v i s) = memmap s" "chg_ctl_mode (request v i s) = chg_ctl_mode s"
  "prev_ac (request v i s) = prev_ac s" "battery_seems_to_be_dead (request v i s) = battery_seems_to_be_dead s" "calls (request v i s) = calls s"
  "curr (request v i s) = (curr s)\<lparr>requested_voltage := v, requested_current := i\<rparr>" "batt_present (request v i s) = batt_present s"
  "of_kind P (request v i s) = of_kind P s" "is_full (request v i s) = is_full s" "problems_exist (request v i s) = problems_exist s"
  "need_static (request v i s) = need_static s"
  by (simp_all add: request_def of_kind_def)

lemma round_sanity_keeps [simp]:
  "shutdown_warning_time (round_sanity c e s) = shutdown_warning_time s" "manual_voltage (round_sanity c e s) = manual_voltage s"
  "manual_current (round_sanity c e s) = manual_current s" "user_current_limit (round_sanity c e s) = user_current_limit s"
  "precharge_start_time (round_sanity c e s) = precharge_start_time s" "batt_info (round_sanity c e s) = batt_info s"
  "uvp_throttle_start_time (round_sanity c e s) = uvp_throttle_start_time s" "prev_charge (round_sanity c e s) = prev_charge s"
  "memmap (round_sanity c e s) = memmap s" "chg_ctl_mode (round_sanity c e s) = chg_ctl_mode s" "prev_ac (round_sanity c e s) = prev_ac s"
  "battery_seems_to_be_dead (round_sanity c e s) = battery_seems_to_be_dead s" "cs_ac (curr (round_sanity c e s)) = cs_ac (curr s)"
  "cs_state (curr (round_sanity c e s)) = cs_state (curr s)" "batt_present (round_sanity c e s) = batt_present s"
  "prev_bp (round_sanity c e s) = prev_bp s" "cs_ts (curr (round_sanity c e s)) = cs_ts (curr s)"
  by (simp_all add: round_sanity_def Let_def)

lemma round_sanity_batt:
  "the_batt s = battery_reading e \<Longrightarrow> the_batt (round_sanity c e s) = seen_batt e"
  by (simp add: round_sanity_def Let_def the_batt_def seen_batt_def)

lemma round_sanity_kind: "(\<And>x y. \<not> P (Throttle x y)) \<Longrightarrow> of_kind P (round_sanity c e s) = of_kind P s"
  by (simp add: round_sanity_def Let_def over_current_kind) (simp add: of_kind_def)

lemma set_charge_state_keeps [simp]:
  "shutdown_warning_time (set_charge_state st s) = shutdown_warning_time s" "manual_voltage (set_charge_state st s) = manual_voltage s"
  "manual_current (set_charge_state st s) = manual_current s" "user_current_limit (set_charge_state st s) = user_current_limit s"
  "precharge_start_time (set_charge_state st s) = precharge_start_time s" "batt_info (set_charge_state st s) = batt_info s"
  "uvp_throttle_start_time (set_charge_state st s) = uvp_throttle_start_time s"
  "ocp_throttle_start_time (set_charge_state st s) = ocp_throttle_start_time s" "prev_charge (set_charge_state st s) = prev_charge s"
  "memmap (set_charge_state st s) = memmap s" "chg_ctl_mode (set_charge_state st s) = chg_ctl_mode s" "prev_ac (set_charge_state st s) = prev_ac s"
  "battery_seems_to_be_dead (set_charge_state st s) = battery_seems_to_be_dead s" "calls (set_charge_state st s) = calls s"
  "curr (set_charge_state st s) = (curr s)\<lparr>cs_state := st\<rparr>" "of_kind P (set_charge_state st s) = of_kind P s"
  "batt_present (set_charge_state st s) = batt_present s" "prev_bp (set_charge_state st s) = prev_bp s"
  by (simp_all add: set_charge_state_def of_kind_def)

lemma critical_keeps [simp]:
  "curr (snd (shutdown_on_critical_battery c e s)) = curr s" "manual_voltage (snd (shutdown_on_critical_battery c e s)) = manual_voltage s"
  "manual_current (snd (shutdown_on_critical_battery c e s)) = manual_current s"
  "user_current_limit (snd (shutdown_on_critical_battery c e s)) = user_current_limit s"
  "precharge_start_time (snd (shutdown_on_critical_battery c e s)) = precharge_start_time s"
  "batt_info (snd (shutdown_on_critical_battery c e s)) = batt_info s"
  "uvp_throttle_start_time (snd (shutdown_on_critical_battery c e s)) = uvp_throttle_start_time s"
  "ocp_throttle_start_time (snd (shutdown_on_critical_battery c e s)) = ocp_throttle_start_time s"
  "prev_charge (snd (shutdown_on_critical_battery c e s)) = prev_charge s" "memmap (snd (shutdown_on_critical_battery c e s)) = memmap s"
  "chg_ctl_mode (snd (shutdown_on_critical_battery c e s)) = chg_ctl_mode s" "prev_ac (snd (shutdown_on_critical_battery c e s)) = prev_ac s"
  "battery_seems_to_be_dead (snd (shutdown_on_critical_battery c e s)) = battery_seems_to_be_dead s"
  "batt_present (snd (shutdown_on_critical_battery c e s)) = batt_present s" "prev_bp (snd (shutdown_on_critical_battery c e s)) = prev_bp s"
  "fst (shutdown_on_critical_battery c e s) = critical s"
  by (simp_all add: shutdown_on_critical_battery_def)

lemma critical_warning_time:
  "shutdown_warning_time (snd (shutdown_on_critical_battery c e s))
     = (if \<not> critical s then 0 else if shutdown_warning_time s = 0 then t_critical e else shutdown_warning_time s)"
  by (simp add: shutdown_on_critical_battery_def)

text \<open>Calls that take the power away.\<close>

fun is_forced :: "chg_call \<Rightarrow> bool" where
  "is_forced ForceShutdown = True"
| "is_forced CutOffBattery = True"
| "is_forced Hibernate = True"
| "is_forced _ = False"

lemma critical_kind:
  "(\<And>x. \<not> P (HostEvent x)) \<Longrightarrow> (\<And>x. is_forced x \<Longrightarrow> \<not> P x) \<Longrightarrow> of_kind P (snd (shutdown_on_critical_battery c e s)) = of_kind P s"
  by (simp add: shutdown_on_critical_battery_def event_if_def call_def of_kind_def critical_calls_def split: critical_action.split)

lemma critical_calls_forced [simp]: "filter is_forced (critical_calls c e) = critical_calls c e"
  by (simp add: critical_calls_def split: critical_action.split)

lemma critical_forced:
  "of_kind is_forced (snd (shutdown_on_critical_battery c e s)) = of_kind is_forced s @
     (if critical s \<and> shutdown_warning_time s \<noteq> 0 \<and> t_critical e > shutdown_warning_time s + word_of_int (crit_timeout_us c)
      then critical_calls c e else [])"
  by (simp add: shutdown_on_critical_battery_def of_kind_def event_if_def call_def)

lemma wake_battery_keeps [simp]:
  "shutdown_warning_time (wake_battery c e s) = shutdown_warning_time s" "manual_voltage (wake_battery c e s) = manual_voltage s"
  "manual_current (wake_battery c e s) = manual_current s" "user_current_limit (wake_battery c e s) = user_current_limit s"
  "batt_info (wake_battery c e s) = batt_info s" "uvp_throttle_start_time (wake_battery c e s) = uvp_throttle_start_time s"
  "ocp_throttle_start_time (wake_battery c e s) = ocp_throttle_start_time s" "prev_charge (wake_battery c e s) = prev_charge s"
  "memmap (wake_battery c e s) = memmap s" "chg_ctl_mode (wake_battery c e s) = chg_ctl_mode s" "prev_ac (wake_battery c e s) = prev_ac s"
  "of_kind P (wake_battery c e s) = of_kind P s" "batt_present (wake_battery c e s) = batt_present s" "prev_bp (wake_battery c e s) = prev_bp s"
  "batt (curr (wake_battery c e s)) = batt (curr s)" "cs_ac (curr (wake_battery c e s)) = cs_ac (curr s)"
  "batt_is_charging (curr (wake_battery c e s)) = batt_is_charging (curr s)" "cs_ts (curr (wake_battery c e s)) = cs_ts (curr s)"
  by (simp_all add: wake_battery_def Let_def) (simp_all add: of_kind_def)

lemma woke_up_keeps [simp]:
  "shutdown_warning_time (battery_woke_up e s) = shutdown_warning_time s" "manual_voltage (battery_woke_up e s) = manual_voltage s"
  "manual_current (battery_woke_up e s) = manual_current s" "user_current_limit (battery_woke_up e s) = user_current_limit s"
  "precharge_start_time (battery_woke_up e s) = precharge_start_time s" "uvp_throttle_start_time (battery_woke_up e s) = uvp_throttle_start_time s"
  "ocp_throttle_start_time (battery_woke_up e s) = ocp_throttle_start_time s" "prev_charge (battery_woke_up e s) = prev_charge s"
  "memmap (battery_woke_up e s) = memmap s" "chg_ctl_mode (battery_woke_up e s) = chg_ctl_mode s" "prev_ac (battery_woke_up e s) = prev_ac s"
  "calls (battery_woke_up e s) = calls s" "batt_present (battery_woke_up e s) = batt_present s" "prev_bp (battery_woke_up e s) = prev_bp s"
  "curr (battery_woke_up e s) = curr s"
  by (simp_all add: battery_woke_up_def)

lemma use_battery_keeps [simp]:
  "shutdown_warning_time (use_battery c e s) = shutdown_warning_time s" "manual_voltage (use_battery c e s) = manual_voltage s"
  "manual_current (use_battery c e s) = manual_current s" "user_current_limit (use_battery c e s) = user_current_limit s"
  "precharge_start_time (use_battery c e s) = precharge_start_time s" "uvp_throttle_start_time (use_battery c e s) = uvp_throttle_start_time s"
  "ocp_throttle_start_time (use_battery c e s) = ocp_throttle_start_time s" "prev_charge (use_battery c e s) = prev_charge s"
  "memmap (use_battery c e s) = memmap s" "chg_ctl_mode (use_battery c e s) = chg_ctl_mode s" "prev_ac (use_battery c e s) = prev_ac s"
  "calls (use_battery c e s) = calls s" "batt_present (use_battery c e s) = batt_present s" "prev_bp (use_battery c e s) = prev_bp s"
  "batt (curr (use_battery c e s)) = batt (curr s)" "cs_ac (curr (use_battery c e s)) = cs_ac (curr s)"
  "cs_state (curr (use_battery c e s)) = ST_CHARGE" "\<not> battery_seems_to_be_dead (use_battery c e s)"
  "batt_is_charging (curr (use_battery c e s)) = batt_is_charging (curr s)" "cs_ts (curr (use_battery c e s)) = cs_ts (curr s)"
  by (simp_all add: use_battery_def Let_def)

lemma use_battery_kind [simp]:
  "of_kind P (use_battery c e s) = of_kind P s" "of_kind P (s\<lparr>curr := d, battery_was_removed := b\<rparr>) = of_kind P s"
  by (simp_all add: of_kind_def)

section \<open>The decision\<close>

text \<open>The state in which the battery is judged.\<close>

definition judged :: "chg_env \<Rightarrow> chgst \<Rightarrow> chgst" where
  "judged e s =
     (let s = problem_if (c_flags (chg (curr s)) AND CHG_FLAG_BAD_ANY \<noteq> 0) e PR_CHG_FLAGS (sint (c_flags (chg (curr s)))) s;
          s = problem_if (b_flags (the_batt s) AND BATT_FLAG_BAD_ANY \<noteq> 0) e PR_BATT_FLAGS (sint (b_flags (the_batt s))) s
      in s\<lparr>curr := (curr s)\<lparr>batt_is_charging := cs_ac (curr s) \<and> b_current (the_batt s) \<ge> 0\<rparr>\<rparr>)"

lemma judged_simps [simp]:
  "curr (judged e s) = (curr s)\<lparr>batt_is_charging := cs_ac (curr s) \<and> b_current (the_batt s) \<ge> 0\<rparr>" "batt_info (judged e s) = batt_info s"
  "shutdown_warning_time (judged e s) = shutdown_warning_time s" "chg_ctl_mode (judged e s) = chg_ctl_mode s"
  "prev_ac (judged e s) = prev_ac s" "manual_voltage (judged e s) = manual_voltage s" "manual_current (judged e s) = manual_current s"
  "user_current_limit (judged e s) = user_current_limit s" "battery_seems_to_be_dead (judged e s) = battery_seems_to_be_dead s"
  "precharge_start_time (judged e s) = precharge_start_time s" "uvp_throttle_start_time (judged e s) = uvp_throttle_start_time s"
  "ocp_throttle_start_time (judged e s) = ocp_throttle_start_time s" "memmap (judged e s) = memmap s" "prev_charge (judged e s) = prev_charge s"
  "batt_present (judged e s) = batt_present s" "prev_bp (judged e s) = prev_bp s" "of_kind P (judged e s) = of_kind P s"
  by (simp_all add: judged_def Let_def the_batt_def)

lemma round_decide_alt:
  "round_decide c e s =
     (if b_is_present (the_batt s) = BP_NO
      then (False, (set_charge_state ST_IDLE s)\<lparr>curr := (curr s)\<lparr>cs_state := ST_IDLE, batt_is_charging := False\<rparr>, battery_was_removed := True\<rparr>)
      else
        let s1 = judged e s; s2 = snd (shutdown_on_critical_battery c e s1)
        in (critical s1,
            if \<not> cs_ac (curr s) then set_charge_state ST_DISCHARGE s2
            else if chg_ctl_mode s \<noteq> CHARGE_CONTROL_NORMAL then set_charge_state ST_IDLE s2
            else if \<not> has_flag (the_batt s) BATT_FLAG_RESPONSIVE then wake_battery c e s2
            else use_battery c e s2))"
proof -
  have "the_batt (snd (shutdown_on_critical_battery c e s1)) = the_batt s1" for s1
    by (simp add: the_batt_def)
  then show ?thesis
    unfolding round_decide_def judged_def [symmetric] Let_def
    by (simp add: case_prod_beta judged_def Let_def the_batt_def cong: if_cong)
qed

lemma round_decide_keeps [simp]:
  "manual_voltage (snd (round_decide c e s)) = manual_voltage s" "manual_current (snd (round_decide c e s)) = manual_current s"
  "user_current_limit (snd (round_decide c e s)) = user_current_limit s" "prev_charge (snd (round_decide c e s)) = prev_charge s"
  "memmap (snd (round_decide c e s)) = memmap s" "chg_ctl_mode (snd (round_decide c e s)) = chg_ctl_mode s"
  "uvp_throttle_start_time (snd (round_decide c e s)) = uvp_throttle_start_time s"
  "ocp_throttle_start_time (snd (round_decide c e s)) = ocp_throttle_start_time s" "prev_ac (snd (round_decide c e s)) = prev_ac s"
  "batt (curr (snd (round_decide c e s))) = batt (curr s)" "cs_ac (curr (snd (round_decide c e s))) = cs_ac (curr s)"
  "batt_present (snd (round_decide c e s)) = batt_present s" "prev_bp (snd (round_decide c e s)) = prev_bp s"
  "cs_ts (curr (snd (round_decide c e s))) = cs_ts (curr s)"
  by (simp_all add: round_decide_alt Let_def)

lemma round_decide_kind:
  "(\<And>x. \<not> P (HostEvent x)) \<Longrightarrow> (\<And>x. is_forced x \<Longrightarrow> \<not> P x) \<Longrightarrow> of_kind P (snd (round_decide c e s)) = of_kind P s"
  using critical_kind [of P c e "judged e s"]
  by (auto simp: round_decide_alt Let_def)

section \<open>The whole round\<close>

text \<open>
  What the board's \<open>charger_profile_override\<close> may do, include/charger_profile_override.h: change the
  state and the request.
\<close>

definition override_ok :: "chg_env \<Rightarrow> bool" where
  "override_ok e \<longleftrightarrow> (\<forall>d. \<exists>st v i. snd (override e d) = d\<lparr>cs_state := st, requested_voltage := v, requested_current := i\<rparr>)"

lemma round_override_keeps [simp]:
  "manual_voltage (snd (round_override c e s)) = manual_voltage s" "manual_current (snd (round_override c e s)) = manual_current s"
  "user_current_limit (snd (round_override c e s)) = user_current_limit s" "prev_charge (snd (round_override c e s)) = prev_charge s"
  "memmap (snd (round_override c e s)) = memmap s" "chg_ctl_mode (snd (round_override c e s)) = chg_ctl_mode s"
  "uvp_throttle_start_time (snd (round_override c e s)) = uvp_throttle_start_time s"
  "ocp_throttle_start_time (snd (round_override c e s)) = ocp_throttle_start_time s" "prev_ac (snd (round_override c e s)) = prev_ac s"
  "of_kind P (snd (round_override c e s)) = of_kind P s" "shutdown_warning_time (snd (round_override c e s)) = shutdown_warning_time s"
  "precharge_start_time (snd (round_override c e s)) = precharge_start_time s" "batt_info (snd (round_override c e s)) = batt_info s"
  "battery_seems_to_be_dead (snd (round_override c e s)) = battery_seems_to_be_dead s" "batt_present (snd (round_override c e s)) = batt_present s"
  "prev_bp (snd (round_override c e s)) = prev_bp s" "is_full (snd (round_override c e s)) = is_full s"
  "need_static (snd (round_override c e s)) = need_static s"
  by (simp_all add: round_override_def case_prod_beta Let_def)

lemma round_override_curr:
  assumes "override_ok e"
  shows "batt (curr (snd (round_override c e s))) = batt (curr s)" "cs_ac (curr (snd (round_override c e s))) = cs_ac (curr s)"
    "batt_is_charging (curr (snd (round_override c e s))) = batt_is_charging (curr s)"
    "cs_ts (curr (snd (round_override c e s))) = cs_ts (curr s)"
proof -
  obtain st v i where "snd (override e (curr s)) = (curr s)\<lparr>cs_state := st, requested_voltage := v, requested_current := i\<rparr>"
    using assms unfolding override_ok_def by blast
  then show "batt (curr (snd (round_override c e s))) = batt (curr s)" "cs_ac (curr (snd (round_override c e s))) = cs_ac (curr s)"
    "batt_is_charging (curr (snd (round_override c e s))) = batt_is_charging (curr s)"
    "cs_ts (curr (snd (round_override c e s))) = cs_ts (curr s)"
    by (simp_all add: round_override_def case_prod_beta Let_def)
qed

lemma low_voltage_keeps [simp]:
  "curr (notify_host_of_low_battery_voltage c e s) = curr s"
  "shutdown_warning_time (notify_host_of_low_battery_voltage c e s) = shutdown_warning_time s"
  "manual_voltage (notify_host_of_low_battery_voltage c e s) = manual_voltage s"
  "manual_current (notify_host_of_low_battery_voltage c e s) = manual_current s"
  "user_current_limit (notify_host_of_low_battery_voltage c e s) = user_current_limit s"
  "precharge_start_time (notify_host_of_low_battery_voltage c e s) = precharge_start_time s"
  "batt_info (notify_host_of_low_battery_voltage c e s) = batt_info s" "prev_bp (notify_host_of_low_battery_voltage c e s) = prev_bp s"
  "ocp_throttle_start_time (notify_host_of_low_battery_voltage c e s) = ocp_throttle_start_time s"
  "memmap (notify_host_of_low_battery_voltage c e s) = memmap s" "batt_present (notify_host_of_low_battery_voltage c e s) = batt_present s"
  "chg_ctl_mode (notify_host_of_low_battery_voltage c e s) = chg_ctl_mode s" "prev_ac (notify_host_of_low_battery_voltage c e s) = prev_ac s"
  "battery_seems_to_be_dead (notify_host_of_low_battery_voltage c e s) = battery_seems_to_be_dead s"
  "prev_charge (notify_host_of_low_battery_voltage c e s) = prev_charge s"
  by (simp_all add: notify_host_of_low_battery_voltage_def Let_def split: option.split)

lemma low_voltage_kind: "(\<And>x y. \<not> P (Throttle x y)) \<Longrightarrow> of_kind P (notify_host_of_low_battery_voltage c e s) = of_kind P s"
  by (simp add: notify_host_of_low_battery_voltage_def Let_def of_kind_def call_def split: option.split)

lemma static_info_keeps [simp]:
  "curr (update_static_battery_info e s) = curr s" "shutdown_warning_time (update_static_battery_info e s) = shutdown_warning_time s"
  "manual_voltage (update_static_battery_info e s) = manual_voltage s" "manual_current (update_static_battery_info e s) = manual_current s"
  "user_current_limit (update_static_battery_info e s) = user_current_limit s"
  "precharge_start_time (update_static_battery_info e s) = precharge_start_time s" "batt_info (update_static_battery_info e s) = batt_info s"
  "prev_bp (update_static_battery_info e s) = prev_bp s" "ocp_throttle_start_time (update_static_battery_info e s) = ocp_throttle_start_time s"
  "uvp_throttle_start_time (update_static_battery_info e s) = uvp_throttle_start_time s" "chg_ctl_mode (update_static_battery_info e s) = chg_ctl_mode s"
  "prev_ac (update_static_battery_info e s) = prev_ac s" "calls (update_static_battery_info e s) = calls s"
  "battery_seems_to_be_dead (update_static_battery_info e s) = battery_seems_to_be_dead s"
  "prev_charge (update_static_battery_info e s) = prev_charge s" "batt_present (update_static_battery_info e s) = batt_present s"
  by (simp_all add: update_static_battery_info_def Let_def)

lemma dynamic_info_keeps [simp]:
  "curr (update_dynamic_battery_info s) = curr s" "shutdown_warning_time (update_dynamic_battery_info s) = shutdown_warning_time s"
  "manual_voltage (update_dynamic_battery_info s) = manual_voltage s" "manual_current (update_dynamic_battery_info s) = manual_current s"
  "user_current_limit (update_dynamic_battery_info s) = user_current_limit s"
  "precharge_start_time (update_dynamic_battery_info s) = precharge_start_time s" "batt_info (update_dynamic_battery_info s) = batt_info s"
  "prev_bp (update_dynamic_battery_info s) = prev_bp s" "ocp_throttle_start_time (update_dynamic_battery_info s) = ocp_throttle_start_time s"
  "uvp_throttle_start_time (update_dynamic_battery_info s) = uvp_throttle_start_time s" "chg_ctl_mode (update_dynamic_battery_info s) = chg_ctl_mode s"
  "prev_ac (update_dynamic_battery_info s) = prev_ac s" "prev_charge (update_dynamic_battery_info s) = prev_charge s"
  "battery_seems_to_be_dead (update_dynamic_battery_info s) = battery_seems_to_be_dead s"
  by (simp_all add: update_dynamic_battery_info_def)

lemma dynamic_info_kind: "(\<And>x. x \<noteq> EC_HOST_EVENT_BATTERY_SHUTDOWN \<Longrightarrow> \<not> P (HostEvent x)) \<Longrightarrow> of_kind P (update_dynamic_battery_info s) = of_kind P s"
  by (simp add: update_dynamic_battery_info_def) (simp add: of_kind_def)

lemma low_charge_keeps [simp]:
  "curr (notify_host_of_low_battery_charge c s) = curr s" "shutdown_warning_time (notify_host_of_low_battery_charge c s) = shutdown_warning_time s"
  "manual_voltage (notify_host_of_low_battery_charge c s) = manual_voltage s"
  "manual_current (notify_host_of_low_battery_charge c s) = manual_current s"
  "user_current_limit (notify_host_of_low_battery_charge c s) = user_current_limit s"
  "precharge_start_time (notify_host_of_low_battery_charge c s) = precharge_start_time s" "batt_info (notify_host_of_low_battery_charge c s) = batt_info s"
  "prev_bp (notify_host_of_low_battery_charge c s) = prev_bp s"
  "ocp_throttle_start_time (notify_host_of_low_battery_charge c s) = ocp_throttle_start_time s"
  "uvp_throttle_start_time (notify_host_of_low_battery_charge c s) = uvp_throttle_start_time s"
  "chg_ctl_mode (notify_host_of_low_battery_charge c s) = chg_ctl_mode s" "prev_ac (notify_host_of_low_battery_charge c s) = prev_ac s"
  "battery_seems_to_be_dead (notify_host_of_low_battery_charge c s) = battery_seems_to_be_dead s"
  "memmap (notify_host_of_low_battery_charge c s) = memmap s" "batt_present (notify_host_of_low_battery_charge c s) = batt_present s"
  "prev_charge (notify_host_of_low_battery_charge c s) = prev_charge s"
  by (simp_all add: notify_host_of_low_battery_charge_def Let_def)

lemma low_charge_kind: "(\<And>x. x \<noteq> EC_HOST_EVENT_BATTERY_SHUTDOWN \<Longrightarrow> \<not> P (HostEvent x)) \<Longrightarrow> of_kind P (notify_host_of_low_battery_charge c s) = of_kind P s"
  by (simp add: notify_host_of_low_battery_charge_def Let_def)

lemma calc_is_full_keeps [simp]:
  "curr (calc_is_full s) = curr s" "shutdown_warning_time (calc_is_full s) = shutdown_warning_time s" "manual_voltage (calc_is_full s) = manual_voltage s"
  "manual_current (calc_is_full s) = manual_current s" "user_current_limit (calc_is_full s) = user_current_limit s"
  "precharge_start_time (calc_is_full s) = precharge_start_time s" "batt_info (calc_is_full s) = batt_info s" "prev_bp (calc_is_full s) = prev_bp s"
  "ocp_throttle_start_time (calc_is_full s) = ocp_throttle_start_time s" "uvp_throttle_start_time (calc_is_full s) = uvp_throttle_start_time s"
  "chg_ctl_mode (calc_is_full s) = chg_ctl_mode s" "prev_ac (calc_is_full s) = prev_ac s" "calls (calc_is_full s) = calls s"
  "battery_seems_to_be_dead (calc_is_full s) = battery_seems_to_be_dead s" "memmap (calc_is_full s) = memmap s"
  "batt_present (calc_is_full s) = batt_present s" "prev_charge (calc_is_full s) = prev_charge s" "of_kind P (calc_is_full s) = of_kind P s"
  by (simp_all add: calc_is_full_def Let_def of_kind_def)

lemma round_inform_keeps [simp]:
  "curr (round_inform c e s) = curr s" "shutdown_warning_time (round_inform c e s) = shutdown_warning_time s"
  "manual_voltage (round_inform c e s) = manual_voltage s" "manual_current (round_inform c e s) = manual_current s"
  "user_current_limit (round_inform c e s) = user_current_limit s" "precharge_start_time (round_inform c e s) = precharge_start_time s"
  "batt_info (round_inform c e s) = batt_info s" "prev_bp (round_inform c e s) = prev_bp s"
  "ocp_throttle_start_time (round_inform c e s) = ocp_throttle_start_time s" "chg_ctl_mode (round_inform c e s) = chg_ctl_mode s"
  "prev_ac (round_inform c e s) = prev_ac s" "battery_seems_to_be_dead (round_inform c e s) = battery_seems_to_be_dead s"
  by (simp_all add: round_inform_def Let_def)

lemma round_inform_kind:
  assumes "\<And>x y. \<not> P (Throttle x y)" "\<And>x. x \<noteq> EC_HOST_EVENT_BATTERY_SHUTDOWN \<Longrightarrow> \<not> P (HostEvent x)" "\<not> P SocChanged" "\<not> P LeaveSafeMode"
  shows "of_kind P (round_inform c e s) = of_kind P s"
proof -
  have [simp]: "of_kind P (t\<lparr>prev_full := x\<rparr>) = of_kind P t" "of_kind P (t\<lparr>prev_charge := y, prev_disp_charge := z\<rparr>) = of_kind P t"
      "of_kind P (update_static_battery_info e t) = of_kind P t" for t x y z
    by (simp_all add: of_kind_def)
  show ?thesis
    by (simp add: round_inform_def Let_def assms low_voltage_kind low_charge_kind dynamic_info_kind)
qed

lemma round_limits_request: "\<exists>v i. round_limits c e s = request v i s"
proof -
  have idle: "request v i (turn_off_idle c s) = request v i s" for v i by (simp add: turn_off_idle_def request_def)
  have "\<exists>v i. apply_limits c e t = request v i t" for t unfolding apply_limits_def Let_def by (auto split: if_split)
  then show ?thesis unfolding round_limits_def using idle by metis
qed

lemma round_limits_keeps [simp]:
  "shutdown_warning_time (round_limits c e s) = shutdown_warning_time s" "manual_voltage (round_limits c e s) = manual_voltage s"
  "manual_current (round_limits c e s) = manual_current s" "user_current_limit (round_limits c e s) = user_current_limit s"
  "precharge_start_time (round_limits c e s) = precharge_start_time s" "batt_info (round_limits c e s) = batt_info s"
  "prev_bp (round_limits c e s) = prev_bp s" "ocp_throttle_start_time (round_limits c e s) = ocp_throttle_start_time s"
  "uvp_throttle_start_time (round_limits c e s) = uvp_throttle_start_time s" "chg_ctl_mode (round_limits c e s) = chg_ctl_mode s"
  "prev_ac (round_limits c e s) = prev_ac s" "battery_seems_to_be_dead (round_limits c e s) = battery_seems_to_be_dead s"
  "memmap (round_limits c e s) = memmap s" "prev_charge (round_limits c e s) = prev_charge s" "of_kind P (round_limits c e s) = of_kind P s"
  "batt (curr (round_limits c e s)) = batt (curr s)" "cs_ac (curr (round_limits c e s)) = cs_ac (curr s)"
  "cs_state (curr (round_limits c e s)) = cs_state (curr s)" "is_full (round_limits c e s) = is_full s"
  "batt_present (round_limits c e s) = batt_present s" "cs_ts (curr (round_limits c e s)) = cs_ts (curr s)"
  using round_limits_request [of c e s] by auto

text \<open>Calls that set up the charger chip.\<close>

fun is_setting :: "chg_call \<Rightarrow> bool" where
  "is_setting (SetCurrent _) = True"
| "is_setting (SetVoltage _) = True"
| "is_setting (SetMode _) = True"
| "is_setting _ = False"

lemma charge_request_keeps [simp]:
  "curr (snd (charge_request c e v i s)) = curr s" "shutdown_warning_time (snd (charge_request c e v i s)) = shutdown_warning_time s"
  "manual_voltage (snd (charge_request c e v i s)) = manual_voltage s" "manual_current (snd (charge_request c e v i s)) = manual_current s"
  "user_current_limit (snd (charge_request c e v i s)) = user_current_limit s"
  "precharge_start_time (snd (charge_request c e v i s)) = precharge_start_time s" "batt_info (snd (charge_request c e v i s)) = batt_info s"
  "prev_bp (snd (charge_request c e v i s)) = prev_bp s" "ocp_throttle_start_time (snd (charge_request c e v i s)) = ocp_throttle_start_time s"
  "uvp_throttle_start_time (snd (charge_request c e v i s)) = uvp_throttle_start_time s"
  "chg_ctl_mode (snd (charge_request c e v i s)) = chg_ctl_mode s" "prev_ac (snd (charge_request c e v i s)) = prev_ac s"
  "battery_seems_to_be_dead (snd (charge_request c e v i s)) = battery_seems_to_be_dead s"
  "memmap (snd (charge_request c e v i s)) = memmap s" "prev_charge (snd (charge_request c e v i s)) = prev_charge s"
  "is_full (snd (charge_request c e v i s)) = is_full s" "batt_present (snd (charge_request c e v i s)) = batt_present s"
  by (simp_all add: charge_request_def Let_def case_prod_beta)

text \<open>The settings of the chip for an effective request: current before voltage, then the mode.\<close>

definition chip_settings :: "int \<times> int \<Rightarrow> chg_call list" where
  "chip_settings vi = (let (v, i) = vi in
     (if i \<ge> 0 then [SetCurrent i] else []) @ (if v \<ge> 0 then [SetVoltage v] else []) @ [SetMode (\<not> (v > 0 \<or> i > 0))])"

lemma charge_request_settings:
  "of_kind P (snd (charge_request c e v i s)) = of_kind P s @ filter P (chip_settings (effective_request c e s v i))"
proof -
  have [simp]: "of_kind P (t\<lparr>prev_volt := x, prev_curr := y\<rparr>) = of_kind P t" for t x y by (simp add: of_kind_def)
  show ?thesis
    unfolding charge_request_def Let_def case_prod_beta chip_settings_def
    by (simp add: if_distrib [of "of_kind P"])
qed

lemma charge_request_kind:
  "(\<And>x. is_setting x \<Longrightarrow> \<not> P x) \<Longrightarrow> of_kind P (snd (charge_request c e v i s)) = of_kind P s"
  by (simp add: charge_request_settings chip_settings_def case_prod_beta Let_def)

definition prepared :: "chg_cfg \<Rightarrow> chg_env \<Rightarrow> chgst \<Rightarrow> chgst" where
  "prepared c e s = round_sanity c e (round_read c e (round_ac_change e (round_begin e s)))"

definition decided :: "chg_cfg \<Rightarrow> chg_env \<Rightarrow> chgst \<Rightarrow> chgst" where
  "decided c e s = snd (round_override c e (snd (round_decide c e (prepared c e s))))"

definition limited :: "chg_cfg \<Rightarrow> chg_env \<Rightarrow> chgst \<Rightarrow> chgst" where
  "limited c e s = round_limits c e (round_inform c e (decided c e s))"

abbreviation after :: "chg_cfg \<Rightarrow> chg_env \<Rightarrow> chgst \<Rightarrow> chgst" where
  "after c e s \<equiv> snd (charger_round c e s)"

lemma after_alt:
  "after c e s = snd (charge_request c e (requested_voltage (curr (limited c e s))) (requested_current (curr (limited c e s))) (limited c e s))"
  by (simp add: charger_round_def Let_def case_prod_beta limited_def decided_def prepared_def)

lemma prepared_simps [simp]:
  "the_batt (prepared c e s) = seen_batt e" "batt (curr (prepared c e s)) = seen_batt e" "cs_ac (curr (prepared c e s)) = extpower e"
  "cs_state (curr (prepared c e s)) = cs_state (curr s)" "shutdown_warning_time (prepared c e s) = shutdown_warning_time s"
  "manual_voltage (prepared c e s) = manual_voltage s" "manual_current (prepared c e s) = manual_current s"
  "user_current_limit (prepared c e s) = user_current_limit s" "precharge_start_time (prepared c e s) = precharge_start_time s"
  "batt_info (prepared c e s) = (if prev_bp s = b_is_present (battery_reading e) then batt_info s else battery_constants e)"
  "uvp_throttle_start_time (prepared c e s) = uvp_throttle_start_time s" "prev_charge (prepared c e s) = prev_charge s"
  "memmap (prepared c e s) = memmap s" "extpower e \<Longrightarrow> chg_ctl_mode (prepared c e s) = chg_ctl_mode s"
  "extpower e \<Longrightarrow> battery_seems_to_be_dead (prepared c e s) = battery_seems_to_be_dead s" "batt_present (prepared c e s) = batt_present s"
  "prev_bp (prepared c e s) = b_is_present (battery_reading e)" "cs_ts (curr (prepared c e s)) = t_start e"
proof -
  have "the_batt (round_read c e (round_ac_change e (round_begin e s))) = battery_reading e" by (simp add: the_batt_def)
  from round_sanity_batt [OF this] show "the_batt (prepared c e s) = seen_batt e" by (simp add: prepared_def)
  then show "batt (curr (prepared c e s)) = seen_batt e" by (simp add: the_batt_def)
qed (simp_all add: prepared_def round_ac_change_ac)

lemma seen_batt_simps [simp]:
  "b_is_present (seen_batt e) = b_is_present (battery_reading e)" "b_voltage (seen_batt e) = b_voltage (battery_reading e)"
  "b_current (seen_batt e) = b_current (battery_reading e)" "b_state_of_charge (seen_batt e) = b_state_of_charge (battery_reading e)"
  "b_temperature (seen_batt e) = b_temperature (battery_reading e)" "b_desired_current (seen_batt e) = b_desired_current (battery_reading e)"
  "has_flag (seen_batt e) BATT_FLAG_RESPONSIVE = has_flag (battery_reading e) BATT_FLAG_RESPONSIVE"
  "has_flag (seen_batt e) BATT_FLAG_BAD_VOLTAGE = has_flag (battery_reading e) BATT_FLAG_BAD_VOLTAGE"
  "has_flag (seen_batt e) BATT_FLAG_BAD_CURRENT = has_flag (battery_reading e) BATT_FLAG_BAD_CURRENT"
  "has_flag (seen_batt e) BATT_FLAG_BAD_STATE_OF_CHARGE
     \<longleftrightarrow> has_flag (battery_reading e) BATT_FLAG_BAD_STATE_OF_CHARGE \<or> b_state_of_charge (battery_reading e) > 100"
  "has_flag (seen_batt e) BATT_FLAG_BAD_TEMPERATURE
     \<longleftrightarrow> has_flag (battery_reading e) BATT_FLAG_BAD_TEMPERATURE \<or> b_temperature (battery_reading e) > 59331"
  by (simp_all add: seen_batt_def has_flag_bit)

lemma prepared_request [simp]:
  "requested_voltage (curr (prepared c e s)) = b_desired_voltage (battery_reading e)"
  "requested_current (curr (prepared c e s)) = b_desired_current (battery_reading e)"
  by (simp_all add: prepared_def round_sanity_def Let_def the_batt_def)

lemma prepared_kind:
  assumes "\<not> P PostInit" "\<And>x. \<not> P (SetInputCurrent x)" "\<not> P SocChanged" "\<And>x y. \<not> P (Throttle x y)"
  shows "of_kind P (prepared c e s) = []"
  by (simp add: prepared_def assms round_sanity_kind round_read_kind round_ac_change_kind)

section \<open>What the charger chip is told\<close>

lemma closest_any:
  assumes "0 < step" "0 \<le> lo" "lo \<le> hi" "lo mod step = 0" "hi mod step = 0"
  shows "closest lo hi step v < 0 \<or> supported lo hi step (closest lo hi step v)" "v \<le> 0 \<Longrightarrow> closest lo hi step v \<le> 0"
proof -
  have neg: "closest lo hi step v = v - v smod step \<and> v - v smod step \<le> 0 \<and> (v - v smod step) mod step = 0" if "v < 0"
  proof -
    have eq: "v - v smod step = - (- v - (- v) mod step)"
      using that assms(1) by (simp add: signed_modulo_int_def signed_divide_int_def minus_mod_eq_mult_div minus_div_mult_eq_mod [symmetric])
    have "0 \<le> - v - (- v) mod step" using that assms(1) zmod_le_nonneg_dividend [of "- v" step] by simp
    moreover have "(v - v smod step) mod step = 0" unfolding eq by (simp add: minus_mod_eq_mult_div flip: mult_minus_right)
    moreover have "closest lo hi step v = v - v smod step" using that assms by (simp add: closest_def)
    ultimately show ?thesis using eq by linarith
  qed
  show "closest lo hi step v < 0 \<or> supported lo hi step (closest lo hi step v)"
  proof (cases "v < 0")
    case True
    then show ?thesis using neg by (auto simp: supported_def)
  qed (use closest_supported(1) [OF _ assms] in auto)
  show "closest lo hi step v \<le> 0" if "v \<le> 0"
    using that neg closest_supported(4) [OF _ assms, of 0] by (cases "v = 0") auto
qed

text \<open>A value that may be handed to \<open>charge_request\<close>: negative values are not passed on.\<close>

definition voltage_ok :: "chg_cfg \<Rightarrow> int \<Rightarrow> bool" where
  "voltage_ok c v \<longleftrightarrow> v < 0 \<or> supported (ci_voltage_min (info c)) (ci_voltage_max (info c)) (ci_voltage_step (info c)) v"

definition current_ok :: "chg_cfg \<Rightarrow> int \<Rightarrow> bool" where
  "current_ok c i \<longleftrightarrow> i < 0 \<or> supported (ci_current_min (info c)) (ci_current_max (info c)) (ci_current_step (info c)) i"

lemma voltage_ok_closest: "charger_ok (info c) \<Longrightarrow> voltage_ok c (charger_closest_voltage (info c) v)"
  unfolding voltage_ok_def closest_voltage by (rule closest_any) (simp_all add: charger_ok_def)

lemma current_ok_closest: "charger_ok (info c) \<Longrightarrow> current_ok c (charger_closest_current (info c) dptf i)"
  unfolding current_ok_def closest_current by (rule closest_any) (simp_all add: charger_ok_def)

lemma zero_ok [simp]: "voltage_ok c 0" "current_ok c 0" "voltage_ok c (- 1)" "current_ok c (- 1)"
  by (simp_all add: voltage_ok_def current_ok_def supported_def)

definition manual_ok :: "chg_cfg \<Rightarrow> chgst \<Rightarrow> bool" where
  "manual_ok c s \<longleftrightarrow> voltage_ok c (manual_voltage s) \<and> current_ok c (manual_current s)"

text \<open>
  The states of the system: from the start of the task through any sequence of rounds, host and
  console commands, requests of other tasks, and hooks.
\<close>

inductive chg_reach :: "chg_cfg \<Rightarrow> chgst \<Rightarrow> bool" for c where
  boot: "chg_reach c (charger_task_start c e (charger_init s))"
| round: "chg_reach c s \<Longrightarrow> chg_reach c (after c e s)"
| control: "chg_reach c s \<Longrightarrow> chg_reach c (snd (charge_command_charge_control discharge_rv mode s))"
| limit: "chg_reach c s \<Longrightarrow> chg_reach c (snd (charge_command_current_limit limit s))"
| command: "chg_reach c s \<Longrightarrow> charge_command_charge_state c lock limit_power debug dptf set_rv cmd param val (s, allowed) = (r, resp, s', allowed')
    \<Longrightarrow> chg_reach c s'"
| console: "chg_reach c s \<Longrightarrow> chg_reach c (snd (command_chgstate discharge_rv argv s))"
| otg: "chg_reach c s \<Longrightarrow> chg_reach c (snd (charge_set_output_current_limit rv_set rv_enable ma mv s))"
| input: "chg_reach c s \<Longrightarrow> chg_reach c (snd (charge_set_input_current_limit c pd_max_mw max_input lock rv ma mv s))"
| ap_shutdown: "chg_reach c s \<Longrightarrow> chg_reach c (bat_low_voltage_throttle_reset (reset_current_limit s))"
| ap_suspend: "chg_reach c s \<Longrightarrow> chg_reach c (reset_current_limit s)"

lemma manual_ok_ctrl_mode: "manual_ok c s \<Longrightarrow> manual_ok c (snd (set_chg_ctrl_mode mode s))"
  by (simp add: manual_ok_def set_chg_ctrl_mode_def)

lemma manual_ok_call [simp]: "manual_ok c (call x s) = manual_ok c s"
  by (simp add: manual_ok_def)

lemma manual_ok_after [simp]: "manual_ok c (after c e s) = manual_ok c s"
  by (simp add: manual_ok_def after_alt limited_def decided_def)

lemma manual_ok_set_param:
  assumes "manual_ok c s" "charger_ok (info c)" "charge_state_set_param c lock dptf set_rv param val (s, allowed) = (r, s', a)"
  shows "manual_ok c s'"
  using assms voltage_ok_closest [OF assms(2)] current_ok_closest [OF assms(2)]
  unfolding charge_state_set_param_def Let_def manual_ok_def chgstate_set_manual_voltage_def chgstate_set_manual_current_def
  by (auto split: if_splits option.splits)

lemma chg_reach_manual_ok:
  assumes "chg_reach c s" "charger_ok (info c)"
  shows "manual_ok c s"
  using assms(1)
proof (induction rule: chg_reach.induct)
  case (command s lock limit_power debug dptf set_rv cmd param val allowed r resp s' allowed')
  show ?case
  proof (cases "cmd = 2")
    case True
    then obtain r' a where "charge_state_set_param c lock dptf set_rv param val (s, allowed) = (r', s', a)"
      using command.hyps(2) by (auto simp: charge_command_charge_state_def split: prod.splits)
    then show ?thesis using manual_ok_set_param command.IH assms(2) by blast
  next
    case False
    then have "s' = s" using command.hyps(2) by (auto simp: charge_command_charge_state_def split: if_splits prod.splits)
    then show ?thesis using command.IH by simp
  qed
next
  case (control s discharge_rv mode)
  then show ?case using manual_ok_ctrl_mode [of c s mode]
    by (auto simp: charge_command_charge_control_def Let_def case_prod_beta split: option.split)
next
  case (console s discharge_rv argv)
  then show ?case using manual_ok_ctrl_mode [of c s]
    by (simp add: command_chgstate_def Let_def case_prod_beta)
next
  case (otg s rv_set rv_enable ma mv)
  then show ?case by (simp add: charge_set_output_current_limit_def Let_def manual_ok_def)
next
  case (input s pd_max_mw max_input lock rv ma mv)
  then show ?case by (simp add: charge_set_input_current_limit_def Let_def manual_ok_def split: option.split)
next
  case (round s e)
  then show ?case by simp
qed (simp_all add: manual_ok_def charger_task_start_def charger_init_def charge_command_current_limit_def
    bat_low_voltage_throttle_reset_def reset_current_limit_def)

text \<open>The settings of a round.\<close>

lemma after_settings:
  "of_kind is_setting (after c e s)
     = chip_settings (effective_request c e (limited c e s) (requested_voltage (curr (limited c e s))) (requested_current (curr (limited c e s))))"
proof -
  have "\<not> is_setting x" if "is_forced x" for x using that by (cases x) simp_all
  then have "of_kind is_setting (limited c e s) = []"
    by (simp add: limited_def decided_def round_inform_kind round_decide_kind prepared_kind)
  moreover have "filter is_setting (chip_settings vi) = chip_settings vi" for vi
    by (simp add: chip_settings_def case_prod_beta Let_def)
  ultimately show ?thesis unfolding after_alt charge_request_settings by simp
qed

lemma apply_limits_ok:
  assumes "charger_ok (info c)" "manual_ok c s"
  shows "voltage_ok c (requested_voltage (curr (apply_limits c e s)))" "current_ok c (requested_current (curr (apply_limits c e s)))"
  using assms voltage_ok_closest [OF assms(1)] current_ok_closest [OF assms(1)]
  by (simp_all add: apply_limits_def Let_def manual_ok_def capped_current_def)

lemma turn_off_idle_keeps [simp]:
  "manual_ok c (turn_off_idle c' s) = manual_ok c s" "cs_ac (curr (turn_off_idle c' s)) = cs_ac (curr s)"
  "manual_current (turn_off_idle c' s) = manual_current s" "manual_voltage (turn_off_idle c' s) = manual_voltage s"
  "user_current_limit (turn_off_idle c' s) = user_current_limit s"
  by (simp_all add: turn_off_idle_def manual_ok_def)

lemma in_calls_setting:
  "SetCurrent i \<in> set (calls s) \<longleftrightarrow> SetCurrent i \<in> set (of_kind is_setting s)"
  "SetVoltage v \<in> set (calls s) \<longleftrightarrow> SetVoltage v \<in> set (of_kind is_setting s)"
  by (simp_all add: of_kind_def)


definition ex_chg :: chg_cfg where
  "ex_chg = \<lparr>charge_manager_cfg = True, pd_max_ma = Some 3000, config_input_current = 512, narrow_vdc = False, maintain_vbat = False,
     battery_slave = False, profile_override_cfg = False, requests_nil = False, revive_disconnect = False, hostcmd_events = True,
     crit_action = CRIT_HIBERNATE, crit_custom = False, uvp = Some (6400, 192), ocp = Some (5000, 500), crit_timeout_us = 30000000,
     precharge_timeout_us = 30000000, safe_mode_exit_pct = 2, near_full_pct = 97, discharge_full = False, info = ex_info\<rparr>"

definition ex_battery :: batt_params where
  "ex_battery = \<lparr>b_temperature = 2981, b_state_of_charge = 50, b_voltage = 7600, b_current = 1000, b_desired_voltage = 8400,
     b_desired_current = 2000, b_remaining_capacity = 2500, b_full_capacity = 5000, b_display_charge = 500, b_status = 0,
     b_is_present = BP_YES, b_flags = 3\<rparr>"

definition ex_constants :: battery_info where
  "ex_constants = \<lparr>voltage_max = 8400, voltage_normal = 7400, voltage_min = 6000, precharge_current = 256,
     discharging_min_c = 0, discharging_max_c = 60\<rparr>"

definition ex_static :: static_answers where
  "ex_static = \<lparr>a_serial = (0, 0x12ab), a_dcap = (0, Some 5000), a_dvlt = (0, Some 7400), a_lfcc = (0, Some 5000), a_ccnt = (0, Some 3),
     a_mfgr = (0, Some (replicate 8 65)), a_model = (0, Some (replicate 8 66)), a_type = (0, Some (replicate 8 67))\<rparr>"

definition ex_renv :: "u64 \<Rightarrow> bool \<Rightarrow> batt_params \<Rightarrow> chg_env" where
  "ex_renv t ac b = \<lparr>t_start = t, t_problem = (\<lambda>_. t), t_ocp = t, t_critical = t, t_precharge = t, t_uvp = t, t_end = t + 100,
     extpower = ac, ap_off = False, ap_suspended = False, locked = True, cut_off = False, disconnect_state = BATTERY_NOT_DISCONNECTED,
     charger_reading = \<lparr>c_current = 0, c_voltage = 0, c_input_current = 0, c_status = 0, c_option = 0, c_flags = 0\<rparr>,
     battery_reading = b, battery_constants = ex_constants, static_info = ex_static, cm_current = 3000, dptf_limit = -1, post_init_rv = 0,
     set_input_rv = (\<lambda>_. 0), set_current_rv = (\<lambda>_. 0), set_voltage_rv = (\<lambda>_. 0), set_mode_rv = (\<lambda>_. 0), critical_check = True,
     override = (\<lambda>d. (0, d))\<rparr>"

definition memmap_zero :: batt_memmap where
  "memmap_zero = \<lparr>mm_serial = replicate 8 0, mm_dcap = 0, mm_dvlt = 0, mm_lfcc = 0, mm_ccnt = 0, mm_mfgr = replicate 8 0,
     mm_model = replicate 8 0, mm_type = replicate 8 0, mm_volt = 0, mm_rate = 0, mm_cap = 0, mm_flags = 0, mm_version = 0\<rparr>"

text \<open>The statics at reset.\<close>

definition chg_zero :: chgst where
  "chg_zero = \<lparr>curr = csd_zero, batt_info = ex_constants, prev_state = ST_IDLE, prev_ac = 0, prev_charge = 0, prev_full = False,
     prev_disp_charge = 0, prev_bp = BP_NO, is_full = False, is_full_ret = False, chg_ctl_mode = 0, manual_voltage = 0, manual_current = 0,
     user_current_limit = -1, shutdown_warning_time = 0, precharge_start_time = 0, uvp_throttle_start_time = 0, ocp_throttle_start_time = 0,
     battery_seems_to_be_dead = False, battery_seems_to_be_disconnected = False, battery_was_removed = False, problems_exist = False,
     need_static = True, batt_present = False, prev_volt = 0, prev_curr = 0, last_prob_val = (\<lambda>_. 0), last_prob_time = (\<lambda>_. 0),
     memmap = memmap_zero, calls = []\<rparr>"

definition ex_boot :: "chg_env \<Rightarrow> chgst" where
  "ex_boot e = charger_task_start ex_chg e (charger_init chg_zero)"

lemma ex_ok: "charger_ok (info ex_chg)" "\<not> narrow_vdc ex_chg" "\<not> maintain_vbat ex_chg" "chg_reach ex_chg (ex_boot e)"
  by (simp_all add: charger_ok_def ex_chg_def ex_info_def ex_boot_def chg_reach.boot)

lemma sint_small: "uint w < 2147483648 \<Longrightarrow> sint w = uint w" for w :: u32
proof -
  have "- (2 ^ 31) \<le> uint w" using uint_ge_0 [of w] order_trans [of "- (2 ^ 31)" 0 "uint w"] by simp
  then show "uint w < 2147483648 \<Longrightarrow> sint w = uint w" unfolding sint_uint by (simp add: signed_take_bit_int_eq_self)
qed

lemma closest_values_zero: "charger_ok ci \<Longrightarrow> charger_closest_current ci dptf 0 = 0"
  unfolding closest_current by (simp add: charger_ok_def closest_def signed_modulo_int_def)

lemma voltage_zero: "charger_ok ci \<Longrightarrow> charger_closest_voltage ci 0 = 0"
  unfolding closest_voltage by (simp add: charger_ok_def closest_def signed_modulo_int_def)

text \<open>The requested values after the limits, on external power and without manual settings.\<close>

lemma capped_current_bounds:
  assumes "charger_ok (info c)" "requested_current (curr s) < 2147483648" "0 < capped_current c e s"
  shows "capped_current c e s \<le> ci_current_max (info c)"
    "capped_current c e s \<le> max (ci_current_min (info c)) (uint (user_current_limit s))"
    "0 \<le> dptf_limit e \<Longrightarrow> capped_current c e s \<le> max (ci_current_min (info c)) (dptf_limit e)"
    "capped_current c e s \<le> max (ci_current_min (info c)) (requested_current (curr s)) \<or> requested_current (curr s) < 0"
proof -
  let ?ma = "requested_current (curr s)" and ?lim = "user_current_limit s"
  define v where "v = (if word_of_int ?ma > ?lim then sint ?lim else ?ma)"
  define w where "w = (if 0 \<le> dptf_limit e \<and> dptf_limit e < v then dptf_limit e else v)"
  have cok: "0 < ci_current_step (info c)" "0 \<le> ci_current_min (info c)" "ci_current_min (info c) \<le> ci_current_max (info c)"
      "ci_current_min (info c) mod ci_current_step (info c) = 0" "ci_current_max (info c) mod ci_current_step (info c) = 0"
    using assms(1) by (simp_all add: charger_ok_def)
  have cap: "capped_current c e s = closest (ci_current_min (info c)) (ci_current_max (info c)) (ci_current_step (info c)) w"
    by (simp add: capped_current_def closest_current Let_def w_def v_def)
  have "0 < w" using closest_any(2) [OF cok, of w] assms(3) unfolding cap by fastforce
  then have w: "0 \<le> w" "w \<le> v" "0 \<le> dptf_limit e \<Longrightarrow> w \<le> dptf_limit e" "0 < v" by (auto simp: w_def split: if_splits)
  have lim: "sint ?lim = uint ?lim" if "0 < sint ?lim"
  proof -
    have "sint ?lim < 2 ^ 31" unfolding sint_uint using signed_take_bit_int_less_exp [of 31 "uint ?lim"] by simp
    then show ?thesis using that by (simp add: uint_sint take_bit_int_eq_self)
  qed
  have v: "v \<le> uint ?lim \<and> (v \<le> ?ma \<or> ?ma < 0)"
  proof (cases "word_of_int ?ma > ?lim")
    case True
    then have "v = uint ?lim" using lim w(4) by (simp add: v_def)
    moreover have "uint ?lim < ?ma" if "0 \<le> ?ma"
      using True that assms(2) by (simp add: word_less_alt uint_word_of_int take_bit_int_eq_self)
    ultimately show ?thesis by fastforce
  next
    case False
    then have "v = ?ma" "0 < ?ma" using w(4) by (simp_all add: v_def)
    then show ?thesis using False assms(2) by (simp add: word_less_alt uint_word_of_int take_bit_int_eq_self not_less)
  qed
  note C = closest_supported [OF w(1) cok]
  show "capped_current c e s \<le> ci_current_max (info c)" using C(3) by (simp add: cap)
  show "capped_current c e s \<le> max (ci_current_min (info c)) (uint (user_current_limit s))"
    "0 \<le> dptf_limit e \<Longrightarrow> capped_current c e s \<le> max (ci_current_min (info c)) (dptf_limit e)"
    "capped_current c e s \<le> max (ci_current_min (info c)) (requested_current (curr s)) \<or> requested_current (curr s) < 0"
    using C(2) w(2,3) v by (auto simp: cap)
qed

lemma healthy_round:
  assumes "extpower e" "b_is_present (battery_reading e) \<noteq> BP_NO" "has_flag (battery_reading e) BATT_FLAG_RESPONSIVE" "\<not> cut_off e"
    and "chg_ctl_mode s = CHARGE_CONTROL_NORMAL" "manual_voltage s = -1" "manual_current s = -1"
    and "\<not> requests_nil c" "\<not> revive_disconnect c" "\<not> profile_override_cfg c"
    and "0 < b_desired_current (battery_reading e)" "b_desired_current (battery_reading e) < 2147483648"
    and "ci_current_min (info c) > 0" "0 < b_desired_voltage (battery_reading e)" "charger_ok (info c)"
  defines "i \<equiv> charger_closest_current (info c) (dptf_limit e) (min (b_desired_current (battery_reading e)) (uint (user_current_limit s)))"
    and "v \<equiv> charger_closest_voltage (info c) (b_desired_voltage (battery_reading e))"
  shows "cs_state (curr (after c e s)) = ST_CHARGE \<and> \<not> battery_seems_to_be_dead (after c e s)
     \<and> (i > 0 \<and> v > 0 \<longrightarrow> filter is_setting (calls (after c e s)) = [SetCurrent i, SetVoltage v, SetMode False])"
proof -
  let ?p = "prepared c e s"
  let ?d = "snd (round_decide c e ?p)"
  have d: "?d = use_battery c e (snd (shutdown_on_critical_battery c e (judged e ?p)))"
    using assms(1-3,5) by (simp add: round_decide_alt Let_def)
  have dec: "decided c e s = ?d" using assms(10) by (simp add: decided_def round_override_def)
  have cur: "requested_voltage (curr ?d) = b_desired_voltage (battery_reading e)" "requested_current (curr ?d) = b_desired_current (battery_reading e)"
      "cs_state (curr ?d) = ST_CHARGE" "\<not> battery_seems_to_be_dead ?d" "cs_ac (curr ?d)"
    using assms(1,8,9) by (simp_all add: d use_battery_def Let_def)
  have lim: "(if word_of_int (b_desired_current (battery_reading e)) > user_current_limit s then sint (user_current_limit s)
      else b_desired_current (battery_reading e)) = min (b_desired_current (battery_reading e)) (uint (user_current_limit s))"
  proof (cases "word_of_int (b_desired_current (battery_reading e)) > user_current_limit s")
    case True
    then have "uint (user_current_limit s) < b_desired_current (battery_reading e)"
      using assms(11,12) by (simp add: word_less_alt uint_word_of_int take_bit_int_eq_self)
    moreover then have "sint (user_current_limit s) = uint (user_current_limit s)"
      using assms(12) by (simp add: sint_small)
    ultimately show ?thesis using True by simp
  next
    case False
    then show ?thesis using assms(11,12) by (simp add: word_less_alt uint_word_of_int take_bit_int_eq_self not_less)
  qed
  have "capped_current c e t = i" if "requested_current (curr t) = b_desired_current (battery_reading e)" "user_current_limit t = user_current_limit s" for t
    unfolding capped_current_def Let_def that lim i_def by (rule refl)
  then have "requested_voltage (curr (limited c e s)) = v" "requested_current (curr (limited c e s)) = i" "cs_state (curr (limited c e s)) = ST_CHARGE"
    using cur assms(4,6,7) by (simp_all add: limited_def dec round_limits_def turn_off_idle_def apply_limits_def Let_def v_def)
  then show ?thesis using after_settings [of c e s] cur(4)
    by (auto simp: effective_request_def chip_settings_def of_kind_def after_alt) (simp add: limited_def dec)
qed

text \<open>
  A healthy battery is charged as it asks: on external power and in normal operation, a battery
  that responds puts the task into the charging state, and the chip is told the battery's current,
  capped by the host's limit, and the battery's voltage, both rounded to what the chip supports.
\<close>

theorem healthy_battery_charged:
  assumes "extpower e" "b_is_present (battery_reading e) \<noteq> BP_NO" "has_flag (battery_reading e) BATT_FLAG_RESPONSIVE" "\<not> cut_off e"
    and "chg_ctl_mode s = CHARGE_CONTROL_NORMAL" "manual_voltage s = -1" "manual_current s = -1"
    and "\<not> requests_nil c" "\<not> revive_disconnect c" "\<not> profile_override_cfg c"
    and "0 < b_desired_current (battery_reading e)" "b_desired_current (battery_reading e) < 2147483648"
    and "ci_current_min (info c) > 0" "0 < b_desired_voltage (battery_reading e)" "charger_ok (info c)"
  defines "i \<equiv> charger_closest_current (info c) (dptf_limit e) (min (b_desired_current (battery_reading e)) (uint (user_current_limit s)))"
    and "v \<equiv> charger_closest_voltage (info c) (b_desired_voltage (battery_reading e))"
  shows "cs_state (curr (after c e s)) = ST_CHARGE \<and> \<not> battery_seems_to_be_dead (after c e s)
     \<and> (i > 0 \<and> v > 0 \<longrightarrow> filter is_setting (calls (after c e s)) = [SetCurrent i, SetVoltage v, SetMode False])"
  unfolding i_def v_def by (rule healthy_round [OF assms(1-15)])

lemma ex_renv_simps [simp]:
  "extpower (ex_renv t ac b) = ac" "battery_reading (ex_renv t ac b) = b" "\<not> cut_off (ex_renv t ac b)" "dptf_limit (ex_renv t ac b) = -1"
  "t_critical (ex_renv t ac b) = t" "t_precharge (ex_renv t ac b) = t" "t_uvp (ex_renv t ac b) = t" "t_ocp (ex_renv t ac b) = t"
  "override (ex_renv t ac b) = (\<lambda>d. (0, d))" "\<not> ap_off (ex_renv t ac b)" "battery_constants (ex_renv t ac b) = ex_constants"
  "post_init_rv (ex_renv t ac b) = 0" "set_input_rv (ex_renv t ac b) = (\<lambda>_. 0)"
  by (simp_all add: ex_renv_def)

lemma ex_override_ok [simp]: "override_ok (ex_renv t ac b)"
  unfolding override_ok_def
proof
  fix d :: charge_state_data
  show "\<exists>st v i. snd (override (ex_renv t ac b) d) = d\<lparr>cs_state := st, requested_voltage := v, requested_current := i\<rparr>"
    by (intro exI [of _ "cs_state d"] exI [of _ "requested_voltage d"] exI [of _ "requested_current d"]) simp
qed

lemma ex_boot_simps [simp]:
  "chg_ctl_mode (ex_boot e) = 0" "manual_voltage (ex_boot e) = -1" "manual_current (ex_boot e) = -1" "user_current_limit (ex_boot e) = -1"
  "shutdown_warning_time (ex_boot e) = 0" "\<not> battery_seems_to_be_dead (ex_boot e)" "cs_state (curr (ex_boot e)) = ST_IDLE"
  "prev_charge (ex_boot e) = -1" "prev_bp (ex_boot e) = BP_NOT_INIT" "uvp_throttle_start_time (ex_boot e) = 0"
  "ocp_throttle_start_time (ex_boot e) = 0"
  by (simp_all add: ex_boot_def charger_task_start_def charger_init_def chg_zero_def csd_zero_def)

lemma ex_values:
  "charger_closest_voltage ex_info 8400 = 8400" "charger_closest_current ex_info (- 1) 2000 = 1984" "uint (-1 :: u32) = 4294967295"
  "info ex_chg = ex_info" "\<not> requests_nil ex_chg" "\<not> revive_disconnect ex_chg" "\<not> profile_override_cfg ex_chg"
  "b_is_present ex_battery = BP_YES" "has_flag ex_battery BATT_FLAG_RESPONSIVE" "b_desired_current ex_battery = 2000"
  "b_desired_voltage ex_battery = 8400" "ci_current_min ex_info = 128" "ci_current_max ex_info = 8128" "ci_current_step ex_info = 64"
  by (simp_all add: ex_chg_def ex_battery_def ex_info_def has_flag_def charger_closest_voltage_def charger_closest_current_def
      signed_modulo_int_def signed_divide_int_def unsigned_minus_1_eq_mask mask_eq_exp_minus_1)

lemma ex_round:
  "cs_state (curr (after ex_chg (ex_renv t True ex_battery) (ex_boot e))) = ST_CHARGE
   \<and> filter is_setting (calls (after ex_chg (ex_renv t True ex_battery) (ex_boot e))) = [SetCurrent 1984, SetVoltage 8400, SetMode False]"
  using healthy_round [of "ex_renv t True ex_battery" "ex_boot e" ex_chg] ex_ok(1) by (simp add: ex_values)

theorem healthy_battery_charged_witness:
  "cs_state (curr (after ex_chg (ex_renv 1000 True ex_battery) (ex_boot (ex_renv 0 True ex_battery)))) = ST_CHARGE
   \<and> filter is_setting (calls (after ex_chg (ex_renv 1000 True ex_battery) (ex_boot (ex_renv 0 True ex_battery)))) = [SetCurrent 1984, SetVoltage 8400, SetMode False]"
  using healthy_battery_charged [of "ex_renv 1000 True ex_battery" "ex_boot (ex_renv 0 True ex_battery)" ex_chg] ex_ok(1) by (simp add: ex_values)


lemma decided_simps [simp]:
  "manual_voltage (decided c e s) = manual_voltage s" "manual_current (decided c e s) = manual_current s"
  "user_current_limit (decided c e s) = user_current_limit s" "override_ok e \<Longrightarrow> cs_ac (curr (decided c e s)) = extpower e"
  "override_ok e \<Longrightarrow> batt (curr (decided c e s)) = seen_batt e"
  by (simp_all add: decided_def round_override_curr)



section \<open>Critical battery\<close>

text \<open>
  When the readings of a round are critical for a battery with the given constants: the temperature
  is out of the range for discharging, or the charge or the voltage is too low and the battery is not
  being charged. Readings that failed or are absurd do not count.
\<close>

definition is_critical :: "chg_env \<Rightarrow> battery_info \<Rightarrow> bool" where
  "is_critical e bi \<longleftrightarrow>
     (let b = battery_reading e; t = deci_kelvin_to_celsius (b_temperature b) in
      \<not> has_flag b BATT_FLAG_BAD_TEMPERATURE \<and> b_temperature b \<le> 59331 \<and> (t > discharging_max_c bi \<or> t < discharging_min_c bi)
      \<or> (\<not> has_flag b BATT_FLAG_BAD_STATE_OF_CHARGE \<and> b_state_of_charge b < BATTERY_LEVEL_SHUTDOWN
         \<or> \<not> has_flag b BATT_FLAG_BAD_VOLTAGE \<and> b_voltage b \<le> voltage_min bi)
        \<and> \<not> (extpower e \<and> b_current b \<ge> 0))"

definition constants_used :: "chg_env \<Rightarrow> chgst \<Rightarrow> battery_info" where
  "constants_used e s = (if prev_bp s = b_is_present (battery_reading e) then batt_info s else battery_constants e)"

lemma critical_judged: "critical (judged e (prepared c e s)) \<longleftrightarrow> is_critical e (constants_used e s)"
proof -
  have b: "the_batt (judged e (prepared c e s)) = seen_batt e" by (simp add: the_batt_def)
  have i: "batt_info (judged e (prepared c e s)) = constants_used e s" by (simp add: constants_used_def)
  show ?thesis
    unfolding critical_def battery_too_hot_def battery_too_low_def b i is_critical_def Let_def by (auto simp: not_le)
qed

lemma after_warning_time:
  "shutdown_warning_time (after c e s)
     = (if b_is_present (battery_reading e) = BP_NO then shutdown_warning_time s
        else if \<not> is_critical e (constants_used e s) then 0
        else if shutdown_warning_time s = 0 then t_critical e else shutdown_warning_time s)"
  by (simp add: after_alt limited_def decided_def round_decide_alt Let_def critical_warning_time critical_judged)

lemma forced_not_setting: "is_setting x \<Longrightarrow> \<not> is_forced x"
  by (cases x) simp_all

lemma after_kind:
  assumes "\<And>x y. \<not> P (Throttle x y)" "\<And>x. x \<noteq> EC_HOST_EVENT_BATTERY_SHUTDOWN \<Longrightarrow> \<not> P (HostEvent x)" "\<not> P SocChanged"
    "\<not> P LeaveSafeMode" "\<And>x. is_setting x \<Longrightarrow> \<not> P x" "\<not> P PostInit" "\<And>x. \<not> P (SetInputCurrent x)"
  shows "of_kind P (after c e s) = (if b_is_present (battery_reading e) = BP_NO then []
     else of_kind P (snd (shutdown_on_critical_battery c e (judged e (prepared c e s)))))"
proof -
  have "of_kind P (after c e s) = of_kind P (snd (round_decide c e (prepared c e s)))"
    by (simp add: after_alt limited_def decided_def assms charge_request_kind round_inform_kind)
  also have "\<dots> = (if b_is_present (battery_reading e) = BP_NO then of_kind P (prepared c e s)
     else of_kind P (snd (shutdown_on_critical_battery c e (judged e (prepared c e s)))))"
    by (simp add: round_decide_alt Let_def)
  finally show ?thesis by (simp add: assms prepared_kind)
qed

lemma after_forced:
  "of_kind is_forced (after c e s)
     = (if b_is_present (battery_reading e) \<noteq> BP_NO \<and> is_critical e (constants_used e s) \<and> shutdown_warning_time s \<noteq> 0
           \<and> t_critical e > shutdown_warning_time s + word_of_int (crit_timeout_us c)
        then critical_calls c e else [])"
  by (subst after_kind) (simp_all add: forced_not_setting critical_forced critical_judged prepared_kind)

definition is_warning :: "chg_call \<Rightarrow> bool" where
  "is_warning x \<longleftrightarrow> x = HostEvent EC_HOST_EVENT_BATTERY_SHUTDOWN"

lemma after_warning:
  "of_kind is_warning (after c e s)
     = (if b_is_present (battery_reading e) \<noteq> BP_NO \<and> is_critical e (constants_used e s) \<and> shutdown_warning_time s = 0
           \<and> hostcmd_events c \<and> \<not> ap_off e then [HostEvent EC_HOST_EVENT_BATTERY_SHUTDOWN] else [])"
proof -
  have "of_kind is_warning (snd (shutdown_on_critical_battery c e t)) = of_kind is_warning t
      @ (if critical t \<and> shutdown_warning_time t = 0 \<and> hostcmd_events c \<and> \<not> ap_off e then [HostEvent EC_HOST_EVENT_BATTERY_SHUTDOWN] else [])" for t
    by (simp add: shutdown_on_critical_battery_def is_warning_def)
      (simp add: of_kind_def is_warning_def critical_calls_def split: critical_action.split)
  then show ?thesis by (subst after_kind) (auto simp: is_warning_def critical_judged prepared_kind)
qed

text \<open>Rounds in a row, and for each whether the battery was critical, and when.\<close>

fun charger_run :: "chg_cfg \<Rightarrow> chg_env list \<Rightarrow> chgst \<Rightarrow> chgst" where
  "charger_run c [] s = s"
| "charger_run c (e # es) s = charger_run c es (after c e s)"

fun crit_history :: "chg_cfg \<Rightarrow> chg_env list \<Rightarrow> chgst \<Rightarrow> (bool \<times> u64) list" where
  "crit_history c [] s = []"
| "crit_history c (e # es) s = (is_critical e (constants_used e s), t_critical e) # crit_history c es (after c e s)"

text \<open>The time at which the battery became critical, if it has been so ever since.\<close>

definition critical_since :: "(bool \<times> u64) list \<Rightarrow> u64 option" where
  "critical_since h = (case takeWhile fst (rev h) of [] \<Rightarrow> None | xs \<Rightarrow> Some (snd (last xs)))"

lemma critical_since_simps [simp]:
  "critical_since [] = None"
  "critical_since (h @ [(crit, t)]) = (if \<not> crit then None else case critical_since h of None \<Rightarrow> Some t | Some t0 \<Rightarrow> Some t0)"
  by (auto simp: critical_since_def split: list.split)

lemma charger_run_snoc [simp]:
  "charger_run c (es @ [e]) s = after c e (charger_run c es s)"
  "crit_history c (es @ [e]) s = crit_history c es s @ [(is_critical e (constants_used e (charger_run c es s)), t_critical e)]"
  by (induction es arbitrary: s) simp_all

lemma warning_time_run:
  assumes "shutdown_warning_time s = 0" "\<forall>e \<in> set es. b_is_present (battery_reading e) \<noteq> BP_NO \<and> t_critical e \<noteq> 0"
  shows "shutdown_warning_time (charger_run c es s) = (case critical_since (crit_history c es s) of None \<Rightarrow> 0 | Some t \<Rightarrow> t)
     \<and> critical_since (crit_history c es s) \<noteq> Some 0"
  using assms(2)
proof (induction es rule: rev_induct)
  case Nil
  then show ?case using assms(1) by simp
next
  case (snoc e es)
  then show ?case by (auto simp: after_warning_time split: option.splits)
qed

text \<open>
  C3. The power is taken away from the host exactly if the battery has been critical in every round
  for longer than the timeout: while the host runs, by a forced shutdown; when it is off, by cutting
  the battery off where the configuration says so (and the board's own condition, if there is one,
  agrees), or by hibernation where that is configured; never by two of them. The host is warned in
  the round in which the battery becomes critical, and only then, provided that it is running and
  host events are configured. A single round in which the battery is not critical starts the time
  anew. The battery is there in every round, and the clock does not read 0.
\<close>

theorem critical_battery_shuts_down:
  fixes c :: chg_cfg
  assumes "shutdown_warning_time s = 0" "\<forall>e \<in> set (es @ [e]). b_is_present (battery_reading e) \<noteq> BP_NO \<and> t_critical e \<noteq> 0"
  defines "s' \<equiv> charger_run c es s"
  defines "overdue \<equiv> is_critical e (constants_used e s')
     \<and> (\<exists>t0. critical_since (crit_history c es s) = Some t0 \<and> t_critical e > t0 + word_of_int (crit_timeout_us c))"
  shows "(ForceShutdown \<in> set (calls (after c e s')) \<longleftrightarrow> overdue \<and> \<not> ap_off e)
     \<and> (CutOffBattery \<in> set (calls (after c e s'))
        \<longleftrightarrow> overdue \<and> ap_off e \<and> crit_action c = CRIT_CUT_OFF \<and> (crit_custom c \<longrightarrow> critical_check e))
     \<and> (Hibernate \<in> set (calls (after c e s')) \<longleftrightarrow> overdue \<and> ap_off e \<and> crit_action c = CRIT_HIBERNATE)
     \<and> length (filter is_forced (calls (after c e s'))) \<le> 1
     \<and> (HostEvent EC_HOST_EVENT_BATTERY_SHUTDOWN \<in> set (calls (after c e s'))
        \<longleftrightarrow> is_critical e (constants_used e s') \<and> critical_since (crit_history c es s) = None \<and> hostcmd_events c \<and> \<not> ap_off e)"
proof -
  have w: "shutdown_warning_time s' = (case critical_since (crit_history c es s) of None \<Rightarrow> 0 | Some t \<Rightarrow> t)"
      "critical_since (crit_history c es s) \<noteq> Some 0"
    using warning_time_run [OF assms(1), of es c] assms(2) by (simp_all add: s'_def)
  have p: "b_is_present (battery_reading e) \<noteq> BP_NO" using assms(2) by simp
  have m: "HostEvent EC_HOST_EVENT_BATTERY_SHUTDOWN \<in> set (calls (after c e s')) \<longleftrightarrow> of_kind is_warning (after c e s') \<noteq> []"
    by (auto simp: of_kind_def is_warning_def filter_empty_conv)
  have f: "filter is_forced (calls (after c e s')) = (if overdue then critical_calls c e else [])"
    unfolding of_kind_def [symmetric] after_forced using w p by (auto simp: overdue_def split: option.splits)
  have k: "x \<in> set (calls (after c e s')) \<longleftrightarrow> x \<in> set (filter is_forced (calls (after c e s')))" if "is_forced x" for x
    using that by simp
  have "HostEvent EC_HOST_EVENT_BATTERY_SHUTDOWN \<in> set (calls (after c e s'))
      \<longleftrightarrow> is_critical e (constants_used e s') \<and> critical_since (crit_history c es s) = None \<and> hostcmd_events c \<and> \<not> ap_off e"
    unfolding m after_warning using w p by (auto split: option.splits)
  then show ?thesis using k [of ForceShutdown] k [of CutOffBattery] k [of Hibernate] unfolding f
    by (auto simp: critical_calls_def split: critical_action.splits)
qed

definition ex_low :: batt_params where
  "ex_low = ex_battery\<lparr>b_state_of_charge := 1, b_current := - 500\<rparr>"

theorem critical_battery_shuts_down_witness:
  "ForceShutdown \<in> set (calls (after ex_chg (ex_renv 31000001 False ex_low)
     (charger_run ex_chg [ex_renv 1000000 False ex_low, ex_renv 20000000 False ex_low] (ex_boot (ex_renv 0 False ex_low)))))
   \<and> Hibernate \<notin> set (calls (after ex_chg (ex_renv 31000001 False ex_low)
     (charger_run ex_chg [ex_renv 1000000 False ex_low, ex_renv 20000000 False ex_low] (ex_boot (ex_renv 0 False ex_low)))))"
proof -
  have crit: "is_critical (ex_renv t False ex_low) bi" for t bi
    by (simp add: is_critical_def Let_def ex_low_def ex_battery_def has_flag_def)
  have present: "b_is_present ex_low = BP_YES" by (simp add: ex_low_def ex_battery_def)
  have since: "critical_since (crit_history ex_chg [ex_renv 1000000 False ex_low, ex_renv 20000000 False ex_low] s) = Some 1000000" for s
    by (simp add: critical_since_def crit)
  show ?thesis
    using critical_battery_shuts_down [of "ex_boot (ex_renv 0 False ex_low)" "[ex_renv 1000000 False ex_low, ex_renv 20000000 False ex_low]"
        "ex_renv 31000001 False ex_low" ex_chg]
    by (simp only: since) (simp add: crit present, simp add: ex_chg_def)
qed

section \<open>A battery that does not respond\<close>

text \<open>
  A round on external power with a battery that may be there but does not respond. The board's
  profile leaves the states other than charging alone, as the common profile code does.
\<close>

definition silent :: "chg_env \<Rightarrow> bool" where
  "silent e \<longleftrightarrow> extpower e \<and> b_is_present (battery_reading e) \<noteq> BP_NO \<and> \<not> has_flag (battery_reading e) BATT_FLAG_RESPONSIVE
     \<and> \<not> cut_off e \<and> (\<forall>d. cs_state d \<noteq> ST_CHARGE \<longrightarrow> snd (override e d) = d)"

text \<open>
  The contract of the board's charging profile, include/charger_profile_override.h, and what the
  charging task draws from it.
\<close>

locale charge_profile =
  fixes profile :: "charge_state_data \<Rightarrow> int \<times> charge_state_data"
  assumes changes: "\<exists>st v i. snd (profile d) = d\<lparr>cs_state := st, requested_voltage := v, requested_current := i\<rparr>"
    and leaves: "cs_state d \<noteq> ST_CHARGE \<Longrightarrow> snd (profile d) = d"
begin

lemma profile_ok: "override e = profile \<Longrightarrow> override_ok e"
  unfolding override_ok_def by (simp add: changes)

lemma profile_silent:
  "override e = profile \<Longrightarrow> extpower e \<Longrightarrow> b_is_present (battery_reading e) \<noteq> BP_NO \<Longrightarrow>
     \<not> has_flag (battery_reading e) BATT_FLAG_RESPONSIVE \<Longrightarrow> \<not> cut_off e \<Longrightarrow> silent e"
  unfolding silent_def by (simp add: leaves)

end

text \<open>
  A board that uses the common profile code; a fault there counts as an error that changes nothing.
\<close>

definition common_profile :: "nat \<Rightarrow> bool \<Rightarrow> fast_charge_params \<Rightarrow> int \<Rightarrow> fast_charge_profile option \<Rightarrow> charge_state_data \<Rightarrow> int \<times> charge_state_data" where
  "common_profile ranges allowed params vmax prev d =
     (case charger_profile_override_common ranges allowed params vmax d prev of
        Some (r, d', _) \<Rightarrow> (r, d') | None \<Rightarrow> (-1, d))"

lemma profile_override_effect:
  assumes "charger_profile_override_common ranges allowed params vmax d prev = Some (r, d', p)"
  shows "d' = d \<or> cs_state d = ST_CHARGE
     \<and> d' = d\<lparr>requested_current := requested_current d', requested_voltage := requested_voltage d'\<rparr>"
proof -
  obtain found where "(if \<not> has_flag (batt d) BATT_FLAG_BAD_TEMPERATURE
      then find_profile (s32 (b_temperature (batt d) - 2731)) (total_temp_ranges params) (chg_profile_info params) else Some prev) = Some found"
    using assms unfolding charger_profile_override_common_def Let_def by (auto split: option.splits)
  then show ?thesis using assms unfolding charger_profile_override_common_def Let_def
    by (cases found; cases "cs_state d = ST_CHARGE \<and> allowed"; cases "has_flag (batt d) BATT_FLAG_BAD_TEMPERATURE") auto
qed

lemma common_profile_cases:
  "snd (common_profile ranges allowed params vmax prev d) = d
   \<or> cs_state d = ST_CHARGE \<and> (\<exists>v i. snd (common_profile ranges allowed params vmax prev d) = d\<lparr>requested_current := i, requested_voltage := v\<rparr>)"
proof (cases "charger_profile_override_common ranges allowed params vmax d prev")
  case (Some x)
  obtain r d' p where x: "x = (r, d', p)" by (cases x)
  then have "snd (common_profile ranges allowed params vmax prev d) = d'" using Some by (simp add: common_profile_def)
  then show ?thesis using profile_override_effect [OF Some [unfolded x]] by metis
qed (simp add: common_profile_def)

interpretation cp: charge_profile "common_profile ranges allowed params vmax prev"
proof
  fix d :: charge_state_data
  show "\<exists>st v i. snd (common_profile ranges allowed params vmax prev d) = d\<lparr>cs_state := st, requested_voltage := v, requested_current := i\<rparr>"
  proof (cases "snd (common_profile ranges allowed params vmax prev d) = d")
    case True
    then show ?thesis by (intro exI [of _ "cs_state d"] exI [of _ "requested_voltage d"] exI [of _ "requested_current d"]) simp
  next
    case False
    then obtain v i where "snd (common_profile ranges allowed params vmax prev d) = d\<lparr>requested_current := i, requested_voltage := v\<rparr>"
      using common_profile_cases [of ranges allowed params vmax prev d] by blast
    then show ?thesis by (intro exI [of _ "cs_state d"] exI [of _ v] exI [of _ i]) simp
  qed
  show "snd (common_profile ranges allowed params vmax prev d) = d" if "cs_state d \<noteq> ST_CHARGE"
    using common_profile_cases [of ranges allowed params vmax prev d] that by blast
qed

lemma silent_decided:
  fixes c :: chg_cfg
  assumes "silent e" "chg_ctl_mode s = CHARGE_CONTROL_NORMAL"
  defines "t \<equiv> wake_battery c e (snd (shutdown_on_critical_battery c e (judged e (prepared c e s))))"
  shows "curr (decided c e s) = curr t" "battery_seems_to_be_dead (decided c e s) = battery_seems_to_be_dead t"
    "precharge_start_time (decided c e s) = precharge_start_time t" "chg_ctl_mode (decided c e s) = CHARGE_CONTROL_NORMAL"
proof -
  have d: "snd (round_decide c e (prepared c e s)) = t"
    using assms(1,2) by (simp add: round_decide_alt Let_def silent_def t_def)
  have "cs_state (curr t) \<noteq> ST_CHARGE" by (simp add: t_def wake_battery_def Let_def)
  then have "snd (override e (curr t)) = curr t" using assms(1) by (simp add: silent_def)
  then show "curr (decided c e s) = curr t" "battery_seems_to_be_dead (decided c e s) = battery_seems_to_be_dead t"
    "precharge_start_time (decided c e s) = precharge_start_time t" "chg_ctl_mode (decided c e s) = CHARGE_CONTROL_NORMAL"
    using assms(1,2) unfolding decided_def d
    by (simp_all add: round_override_def case_prod_beta Let_def t_def silent_def)
qed

text \<open>
  The charger chip is told to precharge: the battery's own precharge current and maximum voltage,
  each brought to a value that the chip supports, the current within the limit of the thermal
  framework; or it is turned off if one of the two is 0.
\<close>

definition precharges :: "chg_cfg \<Rightarrow> chg_env \<Rightarrow> chgst \<Rightarrow> bool" where
  "precharges c e s \<longleftrightarrow>
     (let i = charger_closest_current (info c) (dptf_limit e) (precharge_current (constants_used e s));
          v = charger_closest_voltage (info c) (voltage_max (constants_used e s))
      in filter is_setting (calls (after c e s))
         = (if i = 0 \<or> v = 0 then [SetCurrent 0, SetVoltage 0, SetMode True] else [SetCurrent i, SetVoltage v, SetMode False]))"

text \<open>The time since which the battery is being woken, for a given start.\<close>

lemma silent_round:
  fixes c :: chg_cfg
  assumes "silent e" "chg_ctl_mode s = CHARGE_CONTROL_NORMAL"
  defines "give_up \<equiv> cs_state (curr s) = ST_PRECHARGE \<and> t_precharge e > precharge_start_time s + word_of_int (precharge_timeout_us c)"
  shows "battery_seems_to_be_dead (after c e s) \<longleftrightarrow> battery_seems_to_be_dead s \<or> give_up"
    "cs_state (curr (after c e s)) = (if battery_seems_to_be_dead s \<or> give_up then ST_IDLE else ST_PRECHARGE)"
    "\<not> battery_seems_to_be_dead s \<Longrightarrow> \<not> give_up \<Longrightarrow>
       precharge_start_time (after c e s) = (if cs_state (curr s) = ST_PRECHARGE then precharge_start_time s else t_precharge e)"
    "chg_ctl_mode (after c e s) = CHARGE_CONTROL_NORMAL"
proof -
  have x: "extpower e" "\<not> cut_off e" using assms(1) by (simp_all add: silent_def)
  note D = silent_decided [OF assms(1,2), of c]
  show "battery_seems_to_be_dead (after c e s) \<longleftrightarrow> battery_seems_to_be_dead s \<or> give_up"
    "cs_state (curr (after c e s)) = (if battery_seems_to_be_dead s \<or> give_up then ST_IDLE else ST_PRECHARGE)"
    "\<not> battery_seems_to_be_dead s \<Longrightarrow> \<not> give_up \<Longrightarrow>
       precharge_start_time (after c e s) = (if cs_state (curr s) = ST_PRECHARGE then precharge_start_time s else t_precharge e)"
    "chg_ctl_mode (after c e s) = CHARGE_CONTROL_NORMAL"
    using x unfolding after_alt limited_def by (simp_all add: D wake_battery_def Let_def give_up_def)
qed

lemma closest_nonneg:
  assumes "charger_ok i" "0 \<le> v"
  shows "0 \<le> charger_closest_voltage i v" "0 \<le> charger_closest_current i dptf v"
proof -
  have n: "0 \<le> x" if "supported lo hi step x" "0 \<le> lo" for lo hi step x using that by (auto simp: supported_def)
  have "0 \<le> ci_voltage_min i" "0 \<le> ci_current_min i" using assms(1) by (simp_all add: charger_ok_def)
  then show "0 \<le> charger_closest_voltage i v" "0 \<le> charger_closest_current i dptf v"
    using n closest_values_supported [OF assms, of dptf] by blast+
qed

lemma silent_precharges:
  fixes c :: chg_cfg
  assumes "silent e" "chg_ctl_mode s = CHARGE_CONTROL_NORMAL" "\<not> battery_seems_to_be_dead (after c e s)" "\<not> narrow_vdc c" "\<not> maintain_vbat c"
    "charger_ok (info c)" "manual_current s = -1" "manual_voltage s = -1"
    "0 \<le> precharge_current (constants_used e s)" "precharge_current (constants_used e s) \<le> uint (user_current_limit s)"
    "0 \<le> voltage_max (constants_used e s)"
  shows "precharges c e s"
proof -
  let ?pc = "precharge_current (constants_used e s)" and ?vm = "voltage_max (constants_used e s)"
  note D = silent_decided [OF assms(1,2), of c] and R = silent_round [OF assms(1,2), of c]
  have x: "extpower e" "\<not> cut_off e" using assms(1) by (simp_all add: silent_def)
  have bi: "batt_info (judged e (prepared c e s)) = constants_used e s" by (simp add: constants_used_def)
  have d: "requested_voltage (curr (decided c e s)) = ?vm" "requested_current (curr (decided c e s)) = ?pc"
    "cs_state (curr (decided c e s)) = ST_PRECHARGE"
    using assms(3) x bi unfolding R(1) by (simp_all add: D wake_battery_def Let_def)
  have w: "\<not> word_of_int ?pc > user_current_limit s"
    using assms(9,10) by (simp add: word_less_alt uint_word_of_int not_less zmod_le_nonneg_dividend [THEN order_trans])
  have ac: "cs_ac (curr (decided c e s))" using x by (simp add: D)
  have l: "requested_voltage (curr (limited c e s)) = charger_closest_voltage (info c) ?vm"
    "requested_current (curr (limited c e s)) = charger_closest_current (info c) (dptf_limit e) ?pc"
    using d w ac x assms(5,7,8) by (simp_all add: limited_def round_limits_def turn_off_idle_def apply_limits_def capped_current_def Let_def)
  have "0 \<le> charger_closest_voltage (info c) ?vm" "0 \<le> charger_closest_current (info c) (dptf_limit e) ?pc"
    using closest_nonneg [OF assms(6,11)] closest_nonneg [OF assms(6,9)] by blast+
  then show ?thesis using after_settings [of c e s] assms(4) unfolding l
    by (auto simp: precharges_def effective_request_def chip_settings_def of_kind_def)
qed

lemma silent_run:
  assumes "\<forall>e \<in> set es. silent e" "chg_ctl_mode s = CHARGE_CONTROL_NORMAL"
  shows "chg_ctl_mode (charger_run c es s) = CHARGE_CONTROL_NORMAL
     \<and> (battery_seems_to_be_dead s \<longrightarrow> battery_seems_to_be_dead (charger_run c es s) \<and> (es \<noteq> [] \<longrightarrow> cs_state (curr (charger_run c es s)) = ST_IDLE))
     \<and> (\<not> battery_seems_to_be_dead s \<and> cs_state (curr s) = ST_PRECHARGE \<longrightarrow>
          (battery_seems_to_be_dead (charger_run c es s)
             \<longleftrightarrow> (\<exists>e \<in> set es. t_precharge e > precharge_start_time s + word_of_int (precharge_timeout_us c)))
          \<and> cs_state (curr (charger_run c es s)) = (if battery_seems_to_be_dead (charger_run c es s) then ST_IDLE else ST_PRECHARGE))"
  using assms
proof (induction es arbitrary: s)
  case (Cons e es)
  note R = silent_round [OF _ Cons.prems(2), of e c]
  have "silent e" "\<forall>e \<in> set es. silent e" using Cons.prems(1) by simp_all
  note IH = Cons.IH [OF this(2) R(4) [OF this(1)]] and R = R [OF this(1)]
  show ?case
  proof (cases "battery_seems_to_be_dead s")
    case True
    then have "battery_seems_to_be_dead (after c e s)" "cs_state (curr (after c e s)) = ST_IDLE" using R(1,2) by simp_all
    then show ?thesis using IH True by (cases es) auto
  next
    case alive: False
    show ?thesis
    proof (cases "cs_state (curr s) = ST_PRECHARGE")
      case True
      show ?thesis
      proof (cases "t_precharge e > precharge_start_time s + word_of_int (precharge_timeout_us c)")
        case up: True
        then have "battery_seems_to_be_dead (after c e s)" "cs_state (curr (after c e s)) = ST_IDLE" using R(1,2) True by simp_all
        then show ?thesis using IH alive up by (cases es) auto
      next
        case False
        then have "\<not> battery_seems_to_be_dead (after c e s)" "cs_state (curr (after c e s)) = ST_PRECHARGE"
            "precharge_start_time (after c e s) = precharge_start_time s"
          using R alive True by simp_all
        then show ?thesis using IH alive False by simp
      qed
    qed (use IH alive in simp)
  qed
qed simp

text \<open>
  C6. Waking a battery that does not respond is bounded. From the first such round on, in each round
  until the attempt is given up, the task is in the precharge state and the chip is told to
  precharge; it is given up in the first round after the timeout. Then the battery counts as dead, the
  task is idle, and it stays so in every later round with a silent battery; in each of them the
  charger is turned off. This is without manual settings and forced modes, for a charger that is not
  narrow-VDC and a build that does not power the system from the battery through the charger; the
  battery's constants are not negative and the host's limit allows its precharge current.
\<close>

theorem wake_attempt_bounded:
  fixes c :: chg_cfg
  assumes "\<forall>e \<in> set (e0 # es). silent e" "chg_ctl_mode s = CHARGE_CONTROL_NORMAL" "\<not> battery_seems_to_be_dead s"
    "cs_state (curr s) \<noteq> ST_PRECHARGE" "\<not> narrow_vdc c" "\<not> maintain_vbat c" "charger_ok (info c)" "manual_current s = -1" "manual_voltage s = -1"
  defines "s' \<equiv> charger_run c (e0 # es) s"
  defines "sensible \<equiv> \<lambda>e t. 0 \<le> voltage_max (constants_used e t) \<and> 0 \<le> precharge_current (constants_used e t)
     \<and> precharge_current (constants_used e t) \<le> uint (user_current_limit t)"
  shows "(battery_seems_to_be_dead s' \<longleftrightarrow> (\<exists>e \<in> set es. t_precharge e > t_precharge e0 + word_of_int (precharge_timeout_us c)))
     \<and> cs_state (curr s') = (if battery_seems_to_be_dead s' then ST_IDLE else ST_PRECHARGE)
     \<and> (\<forall>e. silent e \<and> battery_seems_to_be_dead s' \<longrightarrow>
          battery_seems_to_be_dead (after c e s') \<and> cs_state (curr (after c e s')) = ST_IDLE
          \<and> filter is_setting (calls (after c e s')) = [SetCurrent 0, SetVoltage 0, SetMode True])
     \<and> (sensible e0 s \<longrightarrow> precharges c e0 s)
     \<and> (\<forall>e. silent e \<and> \<not> battery_seems_to_be_dead (after c e s') \<and> sensible e s' \<longrightarrow> precharges c e s')"
proof -
  have s0: "silent e0" and ses: "\<forall>e \<in> set es. silent e" using assms(1) by simp_all
  note R = silent_round [OF s0 assms(2), of c]
  have a: "\<not> battery_seems_to_be_dead (after c e0 s)" "cs_state (curr (after c e0 s)) = ST_PRECHARGE"
      "precharge_start_time (after c e0 s) = t_precharge e0" "chg_ctl_mode (after c e0 s) = CHARGE_CONTROL_NORMAL"
    using R assms(3,4) by simp_all
  note run = silent_run [OF ses a(4), of c]
  have manual: "manual_current (charger_run c es t) = manual_current t" "manual_voltage (charger_run c es t) = manual_voltage t" for es t
    by (induction es arbitrary: t) (simp_all add: after_alt limited_def)
  have "battery_seems_to_be_dead (after c e s') \<and> cs_state (curr (after c e s')) = ST_IDLE
      \<and> filter is_setting (calls (after c e s')) = [SetCurrent 0, SetVoltage 0, SetMode True]"
    if e: "silent e" "battery_seems_to_be_dead s'" for e
  proof -
    have mode: "chg_ctl_mode s' = CHARGE_CONTROL_NORMAL" using run by (simp add: s'_def)
    note R' = silent_round [OF e(1) mode, of c] and D = silent_decided [OF e(1) mode, of c]
    have st: "cs_state (curr (decided c e s')) = ST_IDLE"
      using e by (simp add: D wake_battery_def silent_def)
    have ac: "cs_ac (curr (decided c e s'))" "\<not> cut_off e" using e by (simp_all add: D silent_def)
    have "manual_current s' = -1" "manual_voltage s' = -1"
      using assms(8,9) manual by (simp_all only: s'_def)
    then have "requested_voltage (curr (limited c e s')) = 0 \<and> requested_current (curr (limited c e s')) = 0"
      using assms(6) ac st closest_values_zero [OF assms(7)] voltage_zero [OF assms(7)]
      by (simp add: limited_def round_limits_def turn_off_idle_def apply_limits_def capped_current_def Let_def)
    then show ?thesis using R'(1,2) e after_settings [of c e s'] assms(5)
      by (simp add: effective_request_def chip_settings_def of_kind_def)
  qed
  moreover have "precharges c e0 s" if "sensible e0 s"
    using that silent_precharges [OF s0 assms(2) a(1) assms(5-9)] by (simp add: sensible_def)
  moreover have "precharges c e s'" if e: "silent e" "\<not> battery_seems_to_be_dead (after c e s')" "sensible e s'" for e
  proof -
    have "chg_ctl_mode s' = CHARGE_CONTROL_NORMAL" using run by (simp add: s'_def)
    moreover have "manual_current s' = -1" "manual_voltage s' = -1"
      using assms(8,9) manual by (simp_all only: s'_def)
    ultimately have m: "chg_ctl_mode s' = CHARGE_CONTROL_NORMAL" "manual_current s' = -1" "manual_voltage s' = -1" by simp_all
    from silent_precharges [OF e(1) m(1) e(2) assms(5-7) m(2,3)] show ?thesis using e(3) by (simp add: sensible_def)
  qed
  ultimately show ?thesis using run a by (simp add: s'_def)
qed

definition ex_silent :: batt_params where
  "ex_silent = batt_zero\<lparr>b_is_present := BP_NOT_SURE, b_flags := 0x7fc\<rparr>"

definition ex_silent_env :: "u64 \<Rightarrow> chg_env" where
  "ex_silent_env t = (ex_renv t True ex_silent)\<lparr>override := common_profile 2 True ex_profile 8700 None\<rparr>"

theorem wake_attempt_bounded_witness:
  "battery_seems_to_be_dead (charger_run (ex_chg\<lparr>profile_override_cfg := True\<rparr>) [ex_silent_env 1000000, ex_silent_env 2000000, ex_silent_env 31000001]
     (ex_boot (ex_silent_env 0)))
   \<and> filter is_setting (calls (after (ex_chg\<lparr>profile_override_cfg := True\<rparr>) (ex_silent_env 1000000) (ex_boot (ex_silent_env 0))))
     = [SetCurrent 256, SetVoltage 8400, SetMode False]"
proof -
  let ?c = "ex_chg\<lparr>profile_override_cfg := True\<rparr>" and ?e = "ex_silent_env 1000000" and ?s = "ex_boot (ex_silent_env 0)"
  have "silent (ex_silent_env t)" for t
    by (rule cp.profile_silent [of _ 2 True ex_profile 8700 None]) (simp_all add: ex_silent_env_def ex_silent_def has_flag_def)
  then have w: "battery_seems_to_be_dead (charger_run ?c [?e, ex_silent_env 2000000, ex_silent_env 31000001] ?s)
      \<and> (0 \<le> voltage_max (constants_used ?e ?s) \<and> 0 \<le> precharge_current (constants_used ?e ?s)
          \<and> precharge_current (constants_used ?e ?s) \<le> uint (user_current_limit ?s) \<longrightarrow> precharges ?c ?e ?s)"
    using wake_attempt_bounded [of ?e "[ex_silent_env 2000000, ex_silent_env 31000001]" ?s ?c] ex_ok(1-3)
    by (simp del: charger_run.simps) (simp add: ex_chg_def ex_silent_env_def)
  have k: "constants_used ?e ?s = ex_constants" "user_current_limit ?s = 0xffffffff"
    by (simp_all add: constants_used_def ex_values ex_silent_env_def ex_silent_def)
  moreover have "256 \<le> uint (0xffffffff :: u32)" by simp
  ultimately have "precharges ?c ?e ?s" using w by (simp only: k) (simp add: ex_constants_def del: charger_run.simps)
  then have "filter is_setting (calls (after ?c ?e ?s)) = [SetCurrent 256, SetVoltage 8400, SetMode False]"
    unfolding precharges_def k by (simp add: ex_values ex_silent_env_def ex_chg_def ex_constants_def charger_closest_current_def charger_closest_voltage_def ex_info_def)
  then show ?thesis using w by blast
qed

section \<open>Forced idle and external power\<close>

lemma responsive_decided:
  assumes "extpower e" "b_is_present (battery_reading e) \<noteq> BP_NO" "has_flag (battery_reading e) BATT_FLAG_RESPONSIVE"
    "chg_ctl_mode s = CHARGE_CONTROL_NORMAL" "\<not> profile_override_cfg c"
  shows "cs_state (curr (decided c e s)) = ST_CHARGE" "cs_ac (curr (decided c e s))" "chg_ctl_mode (decided c e s) = CHARGE_CONTROL_NORMAL"
proof -
  have "snd (round_decide c e (prepared c e s)) = use_battery c e (snd (shutdown_on_critical_battery c e (judged e (prepared c e s))))"
    using assms by (simp add: round_decide_alt Let_def)
  then show "cs_state (curr (decided c e s)) = ST_CHARGE" "cs_ac (curr (decided c e s))" "chg_ctl_mode (decided c e s) = CHARGE_CONTROL_NORMAL"
    using assms by (simp_all add: decided_def round_override_def)
qed

lemma after_decided:
  "cs_state (curr (after c e s)) = cs_state (curr (decided c e s))" "chg_ctl_mode (after c e s) = chg_ctl_mode (decided c e s)"
  "batt (curr (after c e s)) = batt (curr (decided c e s))" "cs_ac (curr (after c e s)) = cs_ac (curr (decided c e s))"
  by (simp_all add: after_alt limited_def)

lemma after_no_power:
  assumes "\<not> extpower e" "prev_ac s \<noteq> 0"
  shows "chg_ctl_mode (after c e s) = CHARGE_CONTROL_NORMAL" "manual_current (after c e s) = manual_current s"
    "manual_voltage (after c e s) = manual_voltage s"
  using assms by (simp_all add: after_alt limited_def decided_def prepared_def round_ac_change_ac)

text \<open>
  C40. Forcing the task to idle outlives the external power although the mode does not: after the
  host has forced idle and the power was unplugged and came back, the mode is normal, the task
  reports that it is charging a healthy battery and that idle is not forced, but the manual settings
  of 0 stay in force and the charger is kept off.
\<close>

theorem forced_idle_outlives_power:
  fixes c :: chg_cfg
  assumes "cs_ac (curr s)" "prev_ac s \<noteq> 0" "mode \<noteq> CHARGE_CONTROL_NORMAL" "\<not> extpower e0" "extpower e1" "\<not> cut_off e1"
    "b_is_present (battery_reading e1) \<noteq> BP_NO" "has_flag (battery_reading e1) BATT_FLAG_RESPONSIVE" "\<not> profile_override_cfg c" "\<not> narrow_vdc c"
  defines "s' \<equiv> after c e1 (after c e0 (snd (charge_command_charge_control None mode s)))"
  shows "fst (charge_command_charge_control None mode s) = CS_SUCCESS \<and> chg_ctl_mode s' = CHARGE_CONTROL_NORMAL
     \<and> cs_state (curr s') = ST_CHARGE \<and> charge_get_flags s' AND 1 = 0
     \<and> charge_get_state c s' \<in> {PWR_STATE_CHARGE, PWR_STATE_CHARGE_NEAR_FULL}
     \<and> filter is_setting (calls s') = [SetCurrent 0, SetVoltage 0, SetMode True]"
proof -
  define s1 where "s1 = snd (charge_command_charge_control None mode s)"
  define s2 where "s2 = after c e0 s1"
  have s1: "prev_ac s1 \<noteq> 0" "manual_current s1 = 0" "manual_voltage s1 = 0" "fst (charge_command_charge_control None mode s) = CS_SUCCESS"
    using assms(1-3) by (simp_all add: s1_def charge_command_charge_control_def set_chg_ctrl_mode_def Let_def)
  have s2: "chg_ctl_mode s2 = CHARGE_CONTROL_NORMAL" "manual_current s2 = 0" "manual_voltage s2 = 0"
    unfolding s2_def using after_no_power [OF assms(4) s1(1), of c] s1 by simp_all
  note D = responsive_decided [OF assms(5,7,8) s2(1) assms(9)]
  have "requested_voltage (curr (limited c e1 s2)) = 0 \<and> requested_current (curr (limited c e1 s2)) = 0"
    using D s2 assms(6) by (simp add: limited_def round_limits_def apply_limits_def Let_def)
  then have set: "filter is_setting (calls s') = [SetCurrent 0, SetVoltage 0, SetMode True]"
    using after_settings [of c e1 s2] assms(10)
    by (simp add: effective_request_def chip_settings_def of_kind_def s'_def s2_def s1_def)
  have st: "cs_state (curr s') = ST_CHARGE" "chg_ctl_mode s' = CHARGE_CONTROL_NORMAL"
    unfolding s'_def s1_def [symmetric] s2_def [symmetric] using D by (simp_all add: after_decided)
  moreover have "charge_get_flags s' AND 1 = 0" using st(2) by (simp add: charge_get_flags_def and_one_eq)
  ultimately show ?thesis using set s1 by (simp add: charge_get_state_def)
qed

theorem forced_idle_outlives_power_witness:
  "\<exists>s. cs_ac (curr s) \<and> filter is_setting (calls (after ex_chg (ex_renv 2000000 True ex_battery)
     (after ex_chg (ex_renv 1000000 False ex_battery) (snd (charge_command_charge_control None CHARGE_CONTROL_IDLE s)))))
     = [SetCurrent 0, SetVoltage 0, SetMode True]"
proof (rule exI, rule conjI)
  let ?s = "chg_zero\<lparr>curr := csd_zero\<lparr>cs_ac := True\<rparr>, prev_ac := 1\<rparr>"
  show "cs_ac (curr ?s)" by simp
  show "filter is_setting (calls (after ex_chg (ex_renv 2000000 True ex_battery)
     (after ex_chg (ex_renv 1000000 False ex_battery) (snd (charge_command_charge_control None CHARGE_CONTROL_IDLE ?s)))))
     = [SetCurrent 0, SetVoltage 0, SetMode True]"
    using forced_idle_outlives_power [of ?s 1 "ex_renv 1000000 False ex_battery" "ex_renv 2000000 True ex_battery" ex_chg] ex_ok(2)
    by (simp add: ex_values)
qed

section \<open>Throttling\<close>

fun is_throttle :: "chg_call \<Rightarrow> bool" where
  "is_throttle (Throttle _ _) = True"
| "is_throttle _ = False"

text \<open>The decisions on the discharge current and on the voltage: the new time, and the request.\<close>

definition ocp_step :: "chg_cfg \<Rightarrow> chg_env \<Rightarrow> u64 \<Rightarrow> u64 \<times> bool option" where
  "ocp_step c e t =
     (case ocp c of
        None \<Rightarrow> (t, None)
      | Some (limit, hyst) \<Rightarrow>
          if has_flag (battery_reading e) BATT_FLAG_BAD_CURRENT then (t, None)
          else if b_current (battery_reading e) < (if t = 0 then - limit else - limit + hyst) then (t_ocp e, Some True)
          else if t \<noteq> 0 \<and> t_ocp e > t + BAT_OCP_TIMEOUT_US then (0, Some False)
          else (t, None))"

definition uvp_step :: "chg_cfg \<Rightarrow> chg_env \<Rightarrow> u64 \<Rightarrow> u64 \<times> bool option" where
  "uvp_step c e t =
     (case uvp c of
        None \<Rightarrow> (t, None)
      | Some (thresh, hyst) \<Rightarrow>
          if has_flag (battery_reading e) BATT_FLAG_BAD_VOLTAGE \<or> ap_off e then (t, None)
          else if t = 0 then if b_voltage (battery_reading e) < thresh then (t_uvp e, Some True) else (t, None)
          else if b_voltage (battery_reading e) < thresh + hyst then (t_uvp e, None)
          else if t_uvp e > t + BAT_UVP_TIMEOUT_US then (0, Some False)
          else (t, None))"

definition throttle_calls :: "throttle_sources \<Rightarrow> bool option \<Rightarrow> chg_call list" where
  "throttle_calls src r = (case r of None \<Rightarrow> [] | Some on \<Rightarrow> [Throttle on src])"

lemma over_current_step:
  assumes "b_current (the_batt s) = b_current (battery_reading e)"
    "has_flag (the_batt s) BATT_FLAG_BAD_CURRENT = has_flag (battery_reading e) BATT_FLAG_BAD_CURRENT"
  shows "ocp_throttle_start_time (notify_host_of_over_current c e s) = fst (ocp_step c e (ocp_throttle_start_time s))"
    "of_kind is_throttle (notify_host_of_over_current c e s)
       = of_kind is_throttle s @ throttle_calls THROTTLE_SRC_BAT_DISCHG_CURRENT (snd (ocp_step c e (ocp_throttle_start_time s)))"
  using assms unfolding notify_host_of_over_current_def ocp_step_def Let_def
  by (auto simp: throttle_calls_def split: option.split)

lemma low_voltage_step:
  assumes "the_batt s = seen_batt e"
  shows "uvp_throttle_start_time (notify_host_of_low_battery_voltage c e s) = fst (uvp_step c e (uvp_throttle_start_time s))"
    "of_kind is_throttle (notify_host_of_low_battery_voltage c e s)
       = of_kind is_throttle s @ throttle_calls THROTTLE_SRC_BAT_VOLTAGE (snd (uvp_step c e (uvp_throttle_start_time s)))"
  unfolding notify_host_of_low_battery_voltage_def uvp_step_def Let_def assms
  by (auto simp: throttle_calls_def split: option.split)

lemma prepared_throttle:
  "ocp_throttle_start_time (prepared c e s) = fst (ocp_step c e (ocp_throttle_start_time s))"
  "of_kind is_throttle (prepared c e s) = throttle_calls THROTTLE_SRC_BAT_DISCHG_CURRENT (snd (ocp_step c e (ocp_throttle_start_time s)))"
proof -
  let ?r = "round_read c e (round_ac_change e (round_begin e s))"
  define d where "d = doubt BATT_FLAG_BAD_STATE_OF_CHARGE (b_state_of_charge (the_batt (doubt BATT_FLAG_BAD_TEMPERATURE (b_temperature (the_batt ?r) > 59331) ?r)) > 100)
      (doubt BATT_FLAG_BAD_TEMPERATURE (b_temperature (the_batt ?r) > 59331) ?r)"
  have b: "b_current (the_batt d) = b_current (battery_reading e)"
      "has_flag (the_batt d) BATT_FLAG_BAD_CURRENT = has_flag (battery_reading e) BATT_FLAG_BAD_CURRENT"
    by (simp_all add: d_def the_batt_def has_flag_bit)
  have "of_kind is_throttle d = of_kind is_throttle ?r" by (rule of_kind_cong) (simp add: d_def)
  also have "\<dots> = []" by (simp add: round_read_kind round_ac_change_kind)
  finally have t: "of_kind is_throttle d = []" "ocp_throttle_start_time d = ocp_throttle_start_time s" by (simp_all add: d_def)
  show "ocp_throttle_start_time (prepared c e s) = fst (ocp_step c e (ocp_throttle_start_time s))"
    "of_kind is_throttle (prepared c e s) = throttle_calls THROTTLE_SRC_BAT_DISCHG_CURRENT (snd (ocp_step c e (ocp_throttle_start_time s)))"
    unfolding prepared_def round_sanity_def Let_def d_def [symmetric] using over_current_step [OF b] t by simp_all
qed

lemma round_inform_throttle:
  assumes "the_batt s = seen_batt e"
  shows "uvp_throttle_start_time (round_inform c e s) = fst (uvp_step c e (uvp_throttle_start_time s))"
    "of_kind is_throttle (round_inform c e s)
       = of_kind is_throttle s @ throttle_calls THROTTLE_SRC_BAT_VOLTAGE (snd (uvp_step c e (uvp_throttle_start_time s)))"
proof -
  let ?a = "if charge_manager_cfg c \<and> b_state_of_charge (the_batt s) \<ge> safe_mode_exit_pct c \<and> \<not> battery_seems_to_be_disconnected s
      then call LeaveSafeMode s else s"
  let ?b = "if need_static ?a then update_static_battery_info e ?a else ?a"
  let ?c = "if need_static ?b then ?b else update_dynamic_battery_info ?b"
  define d where "d = notify_host_of_low_battery_charge c ?c"
  have [simp]: "of_kind is_throttle (update_static_battery_info e t) = of_kind is_throttle t"
      "of_kind is_throttle (t\<lparr>prev_full := x\<rparr>) = of_kind is_throttle t"
      "of_kind is_throttle (t\<lparr>prev_charge := y, prev_disp_charge := z\<rparr>) = of_kind is_throttle t" for t x y z
    by (simp_all add: of_kind_def)
  have d: "the_batt d = seen_batt e" "uvp_throttle_start_time d = uvp_throttle_start_time s" "of_kind is_throttle d = of_kind is_throttle s"
    using assms by (simp_all add: d_def the_batt_def low_charge_kind dynamic_info_kind)
  show "uvp_throttle_start_time (round_inform c e s) = fst (uvp_step c e (uvp_throttle_start_time s))"
    "of_kind is_throttle (round_inform c e s)
       = of_kind is_throttle s @ throttle_calls THROTTLE_SRC_BAT_VOLTAGE (snd (uvp_step c e (uvp_throttle_start_time s)))"
    unfolding round_inform_def Let_def d_def [symmetric] using low_voltage_step [OF d(1), of c] d by simp_all
qed

lemma after_throttle:
  assumes "override_ok e"
  shows "ocp_throttle_start_time (after c e s) = fst (ocp_step c e (ocp_throttle_start_time s))"
    "uvp_throttle_start_time (after c e s) = fst (uvp_step c e (uvp_throttle_start_time s))"
    "of_kind is_throttle (after c e s) = throttle_calls THROTTLE_SRC_BAT_DISCHG_CURRENT (snd (ocp_step c e (ocp_throttle_start_time s)))
       @ throttle_calls THROTTLE_SRC_BAT_VOLTAGE (snd (uvp_step c e (uvp_throttle_start_time s)))"
proof -
  have b: "the_batt (decided c e s) = seen_batt e" using assms by (simp add: the_batt_def)
  have f: "is_forced x \<Longrightarrow> \<not> is_throttle x" "is_setting x \<Longrightarrow> \<not> is_throttle x" for x by (cases x; simp)+
  have u: "uvp_throttle_start_time (decided c e s) = uvp_throttle_start_time s" by (simp add: decided_def)
  have k: "of_kind is_throttle (decided c e s) = of_kind is_throttle (prepared c e s)"
    by (simp add: decided_def round_decide_kind f)
  show "ocp_throttle_start_time (after c e s) = fst (ocp_step c e (ocp_throttle_start_time s))"
    by (simp add: after_alt limited_def decided_def prepared_throttle)
  show "uvp_throttle_start_time (after c e s) = fst (uvp_step c e (uvp_throttle_start_time s))"
    by (simp add: after_alt limited_def round_inform_throttle [OF b] u)
  show "of_kind is_throttle (after c e s) = throttle_calls THROTTLE_SRC_BAT_DISCHG_CURRENT (snd (ocp_step c e (ocp_throttle_start_time s)))
       @ throttle_calls THROTTLE_SRC_BAT_VOLTAGE (snd (uvp_step c e (uvp_throttle_start_time s)))"
    by (simp add: after_alt limited_def charge_request_kind f round_inform_throttle [OF b] u k prepared_throttle)
qed

text \<open>The requests of the charging task, made to the module that collects all sources.\<close>

definition charger_throttle :: "chg_call \<Rightarrow> throttle \<Rightarrow> throttle" where
  "charger_throttle x = (case x of Throttle on src \<Rightarrow> throttle_ap on THROTTLE_SOFT src | _ \<Rightarrow> id)"

lemma fold_charger_throttle: "fold charger_throttle xs t = fold charger_throttle (filter is_throttle xs) t"
  by (induction xs arbitrary: t) (auto simp: charger_throttle_def split: chg_call.split)

lemma fold_throttle_calls:
  "fold charger_throttle (throttle_calls src r) t = (case r of None \<Rightarrow> t | Some on \<Rightarrow> throttle_ap on THROTTLE_SOFT src t)"
  by (simp add: throttle_calls_def charger_throttle_def split: option.split)

definition throttle_after :: "chg_cfg \<Rightarrow> chg_env \<Rightarrow> chgst \<Rightarrow> throttle \<Rightarrow> throttle" where
  "throttle_after c e s t = fold charger_throttle (calls (after c e s)) t"

lemma throttle_after_bit:
  assumes "override_ok e" "n < 32"
  shows "bit (throttle_request (throttle_after c e s t) THROTTLE_SOFT) n
    = (if n = 1 then (case snd (ocp_step c e (ocp_throttle_start_time s)) of None \<Rightarrow> bit (throttle_request t THROTTLE_SOFT) n | Some on \<Rightarrow> on)
       else if n = 2 then (case snd (uvp_step c e (uvp_throttle_start_time s)) of None \<Rightarrow> bit (throttle_request t THROTTLE_SOFT) n | Some on \<Rightarrow> on)
       else bit (throttle_request t THROTTLE_SOFT) n)"
  unfolding throttle_after_def fold_charger_throttle [of "calls (after c e s)"]
  using after_throttle(3) [OF assms(1), of c s] assms(2)
  by (simp add: of_kind_def fold_throttle_calls throttle_ap_bit source_bit_def split: option.split)

text \<open>
  The task and the throttling module together: rounds, and requests of the thermal engine, in any
  order. The clock is past 0 when it is read.
\<close>

inductive chg_throttled :: "chg_cfg \<Rightarrow> chgst \<Rightarrow> throttle \<Rightarrow> bool" for c where
  boot: "ocp_throttle_start_time s = 0 \<Longrightarrow> uvp_throttle_start_time s = 0 \<Longrightarrow> chg_throttled c s throttle_initial"
| round: "chg_throttled c s t \<Longrightarrow> override_ok e \<Longrightarrow> t_ocp e \<noteq> 0 \<Longrightarrow> t_uvp e \<noteq> 0 \<Longrightarrow> chg_throttled c (after c e s) (throttle_after c e s t)"
| thermal: "chg_throttled c s t \<Longrightarrow> chg_throttled c s (throttle_ap on type THROTTLE_SRC_THERMAL t)"

lemma ocp_step_time: "t_ocp e \<noteq> 0 \<Longrightarrow> case snd (ocp_step c e t) of None \<Rightarrow> fst (ocp_step c e t) = t | Some on \<Rightarrow> (fst (ocp_step c e t) \<noteq> 0) = on"
  by (simp add: ocp_step_def split: option.split)

lemma uvp_step_time: "t_uvp e \<noteq> 0 \<Longrightarrow> case snd (uvp_step c e t) of None \<Rightarrow> (fst (uvp_step c e t) \<noteq> 0) = (t \<noteq> 0) | Some on \<Rightarrow> (fst (uvp_step c e t) \<noteq> 0) = on"
  by (simp add: uvp_step_def split: option.split)

lemma chg_throttled_bits:
  assumes "chg_throttled c s t"
  shows "(bit (throttle_request t THROTTLE_SOFT) 1 \<longleftrightarrow> ocp_throttle_start_time s \<noteq> 0)
    \<and> (bit (throttle_request t THROTTLE_SOFT) 2 \<longleftrightarrow> uvp_throttle_start_time s \<noteq> 0)"
  using assms
proof (induction rule: chg_throttled.induct)
  case (boot s)
  then show ?case by (simp add: throttle_initial_def)
next
  case (round s t e)
  then show ?case
    using ocp_step_time [of e c "ocp_throttle_start_time s"] uvp_step_time [of e c "uvp_throttle_start_time s"]
    by (auto simp: throttle_after_bit after_throttle simp del: One_nat_def split: option.splits)
next
  case (thermal s t on type)
  have "bit (throttle_request (throttle_ap on type THROTTLE_SRC_THERMAL t) THROTTLE_SOFT) n = bit (throttle_request t THROTTLE_SOFT) n"
    if "n = 1 \<or> n = 2" for n
    using that throttle_ap_bit [of n on type THROTTLE_SRC_THERMAL t THROTTLE_SOFT] by (auto simp: source_bit_def)
  then show ?case using thermal.IH by simp
qed

text \<open>
  C21. The battery is protected with hysteresis: from a round on in which the discharge current is
  above its limit, the processor is asked to throttle, in every interleaving with the requests of
  the thermal engine; the request of the charging task ends only in a round whose current is back
  below the limit by the hysteresis, more than 60 seconds after the last round in which it was not.
\<close>

theorem overcurrent_throttles_host:
  assumes "chg_throttled c s t" "override_ok e" "t_ocp e \<noteq> 0" "ocp c = Some (limit, hyst)" "0 \<le> hyst"
    "\<not> has_flag (battery_reading e) BATT_FLAG_BAD_CURRENT"
  defines "i \<equiv> b_current (battery_reading e)" and "before \<equiv> bit (throttle_request t THROTTLE_SOFT) (source_bit THROTTLE_SRC_BAT_DISCHG_CURRENT)"
    and "now \<equiv> bit (throttle_request (throttle_after c e s t) THROTTLE_SOFT) (source_bit THROTTLE_SRC_BAT_DISCHG_CURRENT)"
  shows "(i < - limit \<longrightarrow> now) \<and> (\<not> before \<and> now \<longrightarrow> i < - limit)
     \<and> (before \<and> \<not> now \<longrightarrow> - limit + hyst \<le> i \<and> t_ocp e > ocp_throttle_start_time s + BAT_OCP_TIMEOUT_US)
     \<and> (before \<and> i < - limit + hyst \<longrightarrow> ocp_throttle_start_time (after c e s) = t_ocp e)
     \<and> (now \<longleftrightarrow> ocp_throttle_start_time (after c e s) \<noteq> 0)"
proof -
  have b: "before \<longleftrightarrow> ocp_throttle_start_time s \<noteq> 0" using chg_throttled_bits [OF assms(1)] by (simp add: before_def source_bit_def)
  have n: "now \<longleftrightarrow> (case snd (ocp_step c e (ocp_throttle_start_time s)) of None \<Rightarrow> before | Some on \<Rightarrow> on)"
    by (simp add: now_def before_def source_bit_def throttle_after_bit [OF assms(2)] split: option.split)
  show ?thesis unfolding n after_throttle(1) [OF assms(2)] b using assms(3-6) by (auto simp: ocp_step_def i_def)
qed

theorem overcurrent_throttles_host_witness:
  "bit (throttle_request (throttle_after ex_chg (ex_renv 1000 False (ex_battery\<lparr>b_current := - 6000\<rparr>)) (ex_boot (ex_renv 0 False ex_battery)) throttle_initial)
     THROTTLE_SOFT) (source_bit THROTTLE_SRC_BAT_DISCHG_CURRENT)"
proof -
  have "chg_throttled ex_chg (ex_boot (ex_renv 0 False ex_battery)) throttle_initial" by (rule chg_throttled.boot) simp_all
  from overcurrent_throttles_host [OF this, of "ex_renv 1000 False (ex_battery\<lparr>b_current := - 6000\<rparr>)" 5000 500]
  show ?thesis by (simp add: ex_chg_def ex_battery_def has_flag_def)
qed

text \<open>Rounds in a row, with the throttling module.\<close>

fun run_throttle :: "chg_cfg \<Rightarrow> chg_env list \<Rightarrow> chgst \<Rightarrow> throttle \<Rightarrow> chgst \<times> throttle" where
  "run_throttle c [] s t = (s, t)"
| "run_throttle c (e # es) s t = run_throttle c es (after c e s) (throttle_after c e s t)"

text \<open>
  Throttling on a low voltage outlives a shutdown of the host: the hook that runs then forgets
  the throttling without taking the request back. From there on, through every sequence of rounds
  in which the voltage is fine, the request stays in force, and the processor is told to throttle
  again with every request that any source makes.
\<close>

theorem low_voltage_throttle_outlives_shutdown:
  fixes c :: chg_cfg and s :: chgst
  assumes "bit (throttle_request t THROTTLE_SOFT) (source_bit THROTTLE_SRC_BAT_VOLTAGE)" "uvp c = Some (thresh, hyst)"
    "\<forall>e \<in> set es. override_ok e \<and> thresh \<le> b_voltage (battery_reading e)"
  defines "t' \<equiv> snd (run_throttle c es (bat_low_voltage_throttle_reset (reset_current_limit s)) t)"
  shows "bit (throttle_request t' THROTTLE_SOFT) (source_bit THROTTLE_SRC_BAT_VOLTAGE)
     \<and> (source \<noteq> THROTTLE_SRC_BAT_VOLTAGE \<longrightarrow> last (told (throttle_ap on THROTTLE_SOFT source t') THROTTLE_SOFT) \<noteq> 0)"
proof -
  have bits: "bit (throttle_request (snd (run_throttle c es s t)) THROTTLE_SOFT) 2"
    if "uvp_throttle_start_time s = 0" "bit (throttle_request t THROTTLE_SOFT) 2" "\<forall>e \<in> set es. override_ok e \<and> thresh \<le> b_voltage (battery_reading e)"
    for es s t
    using that
  proof (induction es arbitrary: s t)
    case (Cons e es)
    have "uvp_step c e 0 = (0, None)" using Cons.prems(3) assms(2) by (simp add: uvp_step_def)
    then have "uvp_throttle_start_time (after c e s) = 0" "bit (throttle_request (throttle_after c e s t) THROTTLE_SOFT) 2"
      using Cons.prems by (simp_all add: after_throttle throttle_after_bit)
    then show ?case using Cons by simp
  qed simp
  have b2: "bit (throttle_request t' THROTTLE_SOFT) 2"
    unfolding t'_def using assms(1,3) by (intro bits) (simp_all add: bat_low_voltage_throttle_reset_def source_bit_def)
  have "bit (throttle_request (throttle_ap on THROTTLE_SOFT source t') THROTTLE_SOFT) 2" if "source \<noteq> THROTTLE_SRC_BAT_VOLTAGE"
  proof -
    have "source_bit source \<noteq> 2" using that by (cases source) (simp_all add: source_bit_def)
    then show ?thesis using b2 throttle_ap_bit [of 2 on THROTTLE_SOFT source t' THROTTLE_SOFT] by simp
  qed
  then have "last (told (throttle_ap on THROTTLE_SOFT source t') THROTTLE_SOFT) \<noteq> 0" if "source \<noteq> THROTTLE_SRC_BAT_VOLTAGE"
    using that by (metis throttle_ap_told last_snoc bit_0_eq bot_apply bot_bool_def)
  then show ?thesis using b2 by (simp add: source_bit_def)
qed

theorem low_voltage_throttle_outlives_shutdown_witness:
  "last (told (throttle_ap False THROTTLE_SOFT THROTTLE_SRC_THERMAL (snd (run_throttle ex_chg [ex_renv 1000 True ex_battery, ex_renv 2000 True ex_battery]
      (bat_low_voltage_throttle_reset (reset_current_limit (ex_boot (ex_renv 0 True ex_battery))))
      (throttle_ap True THROTTLE_SOFT THROTTLE_SRC_BAT_VOLTAGE throttle_initial)))) THROTTLE_SOFT) \<noteq> 0"
proof -
  have "bit (throttle_request (throttle_ap True THROTTLE_SOFT THROTTLE_SRC_BAT_VOLTAGE throttle_initial) THROTTLE_SOFT) (source_bit THROTTLE_SRC_BAT_VOLTAGE)"
    by (simp add: throttle_ap_bit source_bit_def)
  from low_voltage_throttle_outlives_shutdown [OF this, of ex_chg 6400 192 "[ex_renv 1000 True ex_battery, ex_renv 2000 True ex_battery]"]
  show ?thesis by (simp add: ex_chg_def ex_battery_def)
qed

end
