(* ===== verification/Charge_Host.thy ===== *)
theory Charge_Host
  imports Charge_Safety
begin

text \<open>
  What the charging task tells the host: the battery part of the shared memory, the events on a low
  battery, and how soon the task looks again.
\<close>

section \<open>The shared memory\<close>

lemma dynamic_flags_bits:
  "bit (dynamic_flags s) 0 \<longleftrightarrow> cs_ac (curr s)"
  "bit (dynamic_flags s) (Suc 0) \<longleftrightarrow> b_is_present (the_batt s) = BP_YES \<or> batt_present s"
  "bit (dynamic_flags s) 2 \<longleftrightarrow> \<not> batt_is_charging (curr s)"
  "bit (dynamic_flags s) 3 \<longleftrightarrow> batt_is_charging (curr s)"
  "bit (dynamic_flags s) 4 \<longleftrightarrow> b_is_present (the_batt s) = BP_YES \<and> \<not> has_flag (the_batt s) BATT_FLAG_BAD_STATE_OF_CHARGE
     \<and> b_state_of_charge (the_batt s) \<le> BATTERY_LEVEL_CRITICAL"
  "bit (dynamic_flags s) 5 \<longleftrightarrow> has_flag (the_batt s) BATT_FLAG_BAD_CURRENT"
  by (simp_all add: dynamic_flags_def Let_def bit_or_iff has_flag_def)

lemma dynamic_info_memmap [simp]:
  "memmap (update_dynamic_battery_info s) = dynamic_memmap s"
  "batt_present (update_dynamic_battery_info s) = (b_is_present (the_batt s) = BP_YES)"
  "mm_flags (dynamic_memmap s) = dynamic_flags s"
  by (simp_all add: update_dynamic_battery_info_def dynamic_memmap_def Let_def)

lemma byte_bit_1: "w AND EC_BATT_FLAG_BATT_PRESENT = 0 \<longleftrightarrow> \<not> bit w 1" for w :: byte
  using and_exp_bit [of w 1] unfolding power_one_right by blast

text \<open>
  A sequence of updates with the given readings: whether there is external power, whether the battery is
  being charged, and the values of the battery. Everything else is unchanged.
\<close>

definition with_reading :: "bool \<Rightarrow> bool \<Rightarrow> batt_params \<Rightarrow> chgst \<Rightarrow> chgst" where
  "with_reading ac charging b s = s\<lparr>curr := (curr s)\<lparr>batt := b, cs_ac := ac, batt_is_charging := charging\<rparr>, calls := []\<rparr>"

fun updates :: "(bool \<times> bool \<times> batt_params) list \<Rightarrow> chgst \<Rightarrow> chgst" where
  "updates [] s = s"
| "updates ((ac, charging, b) # rs) s = updates rs (update_dynamic_battery_info (with_reading ac charging b s))"

lemma with_reading_fields [simp]:
  "the_batt (with_reading ac ch b s) = b" "cs_ac (curr (with_reading ac ch b s)) = ac" "batt_is_charging (curr (with_reading ac ch b s)) = ch"
  "batt_present (with_reading ac ch b s) = batt_present s" "memmap (with_reading ac ch b s) = memmap s" "calls (with_reading ac ch b s) = []"
  by (simp_all add: with_reading_def the_batt_def)

lemma updates_snoc: "updates (rs @ [(ac, charging, b)]) s = update_dynamic_battery_info (with_reading ac charging b (updates rs s))"
  by (induction rs s rule: updates.induct) simp_all

lemma updates_present:
  "rs \<noteq> [] \<Longrightarrow> batt_present (updates rs s) = (b_is_present (snd (snd (last rs))) = BP_YES)"
  by (cases rs rule: rev_cases) (auto simp: updates_snoc)



text \<open>
  The flag that tells the host that some data is invalid follows the current alone: the mask of
  the host's flag is tested in the driver's flags, where it is the bit of the current. A failure to
  read any of the other values is not reported.
\<close>

theorem invalid_data_means_current:
  "bit (mm_flags (memmap (update_dynamic_battery_info s))) 5 = has_flag (the_batt s) BATT_FLAG_BAD_CURRENT
   \<and> \<not> bit (mm_flags (memmap (update_dynamic_battery_info
        (s\<lparr>curr := (curr s)\<lparr>batt := (the_batt s)\<lparr>b_flags := BATT_FLAG_BAD_ANY AND NOT (push_bit BATT_FLAG_BAD_CURRENT 1)\<rparr>\<rparr>\<rparr>)))) 5"
  by (simp add: dynamic_flags_bits has_flag_bit) (simp add: the_batt_def bit_simps)

section \<open>Low battery\<close>

text \<open>The charge that the events are compared with.\<close>

lemma prev_disp_phases [simp]:
  "prev_disp_charge (problem_if b e p v s) = prev_disp_charge s" "prev_disp_charge (call x s) = prev_disp_charge s"
  "prev_disp_charge (event_if b ev s) = prev_disp_charge s" "prev_disp_charge (round_begin e s) = prev_disp_charge s"
  "prev_disp_charge (request v i s) = prev_disp_charge s" "prev_disp_charge (set_charge_state st s) = prev_disp_charge s"
  "prev_disp_charge (doubt n b s) = prev_disp_charge s" "prev_disp_charge (calc_is_full s) = prev_disp_charge s"
  "prev_disp_charge (problem e p v s) = prev_disp_charge s"
  by (simp_all add: problem_if_def problem_def call_def event_if_def round_begin_def request_def set_charge_state_def doubt_def
      calc_is_full_def Let_def)

lemma prev_disp_decided: "prev_disp_charge (decided c e s) = prev_disp_charge s"
proof -
  have "prev_disp_charge (round_sanity c e t) = prev_disp_charge t" "prev_disp_charge (round_read c e t) = prev_disp_charge t"
      "prev_disp_charge (round_ac_change e t) = prev_disp_charge t" for t
    by (simp_all add: round_sanity_def round_read_def round_ac_change_def notify_host_of_over_current_def Let_def split: option.split)
  then have p: "prev_disp_charge (prepared c e s) = prev_disp_charge s" by (simp add: prepared_def)
  have "prev_disp_charge (snd (shutdown_on_critical_battery c e (judged e t))) = prev_disp_charge t" for t
    by (simp add: shutdown_on_critical_battery_def judged_def Let_def)
  then have "prev_disp_charge (snd (round_decide c e t)) = prev_disp_charge t" for t
    by (simp add: round_decide_alt Let_def wake_battery_def use_battery_def battery_woke_up_def)
  then show ?thesis by (simp add: decided_def round_override_def case_prod_beta Let_def p)
qed

definition known_charge :: "chg_env \<Rightarrow> bool" where
  "known_charge e \<longleftrightarrow> \<not> has_flag (battery_reading e) BATT_FLAG_BAD_STATE_OF_CHARGE \<and> b_state_of_charge (battery_reading e) \<le> 100"

lemma round_inform_prev_charge:
  assumes "the_batt s = seen_batt e" "known_charge e \<or> b_display_charge (battery_reading e) \<noteq> prev_disp_charge s"
  shows "prev_charge (round_inform c e s) = b_state_of_charge (battery_reading e)"
proof -
  have d: "b_display_charge (seen_batt e) = b_display_charge (battery_reading e)" by (simp add: seen_batt_def)
  let ?a = "if charge_manager_cfg c \<and> b_state_of_charge (the_batt s) \<ge> safe_mode_exit_pct c \<and> \<not> battery_seems_to_be_disconnected s
      then call LeaveSafeMode s else s"
  let ?b = "if need_static ?a then update_static_battery_info e ?a else ?a"
  let ?c = "if need_static ?b then ?b else update_dynamic_battery_info ?b"
  define t where "t = calc_is_full (notify_host_of_low_battery_voltage c e (notify_host_of_low_battery_charge c ?c))"
  have p: "prev_disp_charge (notify_host_of_low_battery_voltage c e t) = prev_disp_charge t"
      "prev_disp_charge (notify_host_of_low_battery_charge c t) = prev_disp_charge t"
      "prev_disp_charge (update_static_battery_info e t) = prev_disp_charge t" "prev_disp_charge (update_dynamic_battery_info t) = prev_disp_charge t" for t
    by (simp_all add: notify_host_of_low_battery_voltage_def notify_host_of_low_battery_charge_def update_static_battery_info_def
        update_dynamic_battery_info_def Let_def split: option.split)
  have t: "the_batt t = seen_batt e" "prev_charge t = prev_charge s" "prev_disp_charge t = prev_disp_charge s"
    using assms(1) by (simp_all add: t_def the_batt_def p)
  show ?thesis unfolding round_inform_def Let_def t_def [symmetric] using assms(2) t d by (auto simp: known_charge_def)
qed

text \<open>Events on a low battery.\<close>

fun is_low_event :: "chg_call \<Rightarrow> bool" where
  "is_low_event (HostEvent EC_HOST_EVENT_BATTERY_LOW) = True"
| "is_low_event (HostEvent EC_HOST_EVENT_BATTERY_CRITICAL) = True"
| "is_low_event _ = False"

lemma low_event_kind [simp]:
  "of_kind is_low_event (snd (shutdown_on_critical_battery c e s)) = of_kind is_low_event s"
  "of_kind is_low_event (update_dynamic_battery_info s) = of_kind is_low_event s"
proof -
  show "of_kind is_low_event (snd (shutdown_on_critical_battery c e s)) = of_kind is_low_event s"
    by (simp add: shutdown_on_critical_battery_def) (simp add: of_kind_def critical_calls_def split: critical_action.split)
  show "of_kind is_low_event (update_dynamic_battery_info s) = of_kind is_low_event s"
    by (simp add: update_dynamic_battery_info_def) (simp add: of_kind_def)
qed

definition low_events :: "chg_cfg \<Rightarrow> chg_env \<Rightarrow> int \<Rightarrow> chg_call list" where
  "low_events c e prev =
     (let soc = b_state_of_charge (battery_reading e) in
      if \<not> hostcmd_events c \<or> \<not> known_charge e then []
      else (if soc \<le> BATTERY_LEVEL_LOW \<and> prev > BATTERY_LEVEL_LOW then [HostEvent EC_HOST_EVENT_BATTERY_LOW] else [])
         @ (if soc \<le> BATTERY_LEVEL_CRITICAL \<and> prev > BATTERY_LEVEL_CRITICAL then [HostEvent EC_HOST_EVENT_BATTERY_CRITICAL] else []))"

lemma after_low_events:
  assumes "override_ok e"
  shows "of_kind is_low_event (after c e s) = low_events c e (prev_charge s)"
proof -
  have f: "is_setting x \<Longrightarrow> \<not> is_low_event x" for x by (cases x) simp_all
  have b: "the_batt (decided c e s) = seen_batt e" using assms by (simp add: the_batt_def)
  have p: "prev_charge (decided c e s) = prev_charge s" by (simp add: decided_def)
  have "of_kind is_low_event (snd (round_decide c e (prepared c e s))) = []"
    by (simp add: round_decide_alt Let_def prepared_kind)
  then have d: "of_kind is_low_event (decided c e s) = []" by (simp add: decided_def)
  have k: "has_flag (seen_batt e) BATT_FLAG_BAD_STATE_OF_CHARGE \<longleftrightarrow> \<not> known_charge e" by (auto simp: known_charge_def)
  have n: "of_kind is_low_event (notify_host_of_low_battery_charge c t) = of_kind is_low_event t @ low_events c e (prev_charge t)"
    if "the_batt t = seen_batt e" for t
    unfolding notify_host_of_low_battery_charge_def Let_def that k low_events_def by simp
  have [simp]: "of_kind is_low_event (t\<lparr>prev_full := x\<rparr>) = of_kind is_low_event t"
      "of_kind is_low_event (t\<lparr>prev_charge := y, prev_disp_charge := z\<rparr>) = of_kind is_low_event t"
      "of_kind is_low_event (update_static_battery_info e t) = of_kind is_low_event t" for t x y z
    by (simp_all add: of_kind_def)
  have "of_kind is_low_event (round_inform c e (decided c e s)) = low_events c e (prev_charge s)"
    unfolding round_inform_def Let_def
    by (simp add: low_voltage_kind n b [unfolded the_batt_def] the_batt_def d p)
  then show ?thesis by (simp add: after_alt limited_def charge_request_kind f)
qed

lemma after_prev_charge:
  assumes "override_ok e" "known_charge e \<or> b_display_charge (battery_reading e) \<noteq> prev_disp_charge s"
  shows "prev_charge (after c e s) = b_state_of_charge (battery_reading e)"
proof -
  have "the_batt (decided c e s) = seen_batt e" using assms(1) by (simp add: the_batt_def)
  from round_inform_prev_charge [OF this] assms(2) show ?thesis
    by (simp add: after_alt limited_def prev_disp_decided)
qed

text \<open>
  The host is told of a low and of a critical charge exactly when the charge falls to the level:
  as long as the charge can be read, an event comes in a round exactly if the charge is at or below
  the level and was above it in the round before.
\<close>

theorem low_battery_events_on_crossing:
  fixes c :: chg_cfg
  assumes "es \<noteq> []" "\<forall>e \<in> set (es @ [e]). known_charge e \<and> override_ok e"
  defines "soc \<equiv> \<lambda>e. b_state_of_charge (battery_reading e)"
  shows "(HostEvent EC_HOST_EVENT_BATTERY_LOW \<in> set (calls (after c e (charger_run c es s)))
       \<longleftrightarrow> hostcmd_events c \<and> soc e \<le> BATTERY_LEVEL_LOW \<and> BATTERY_LEVEL_LOW < soc (last es))
     \<and> (HostEvent EC_HOST_EVENT_BATTERY_CRITICAL \<in> set (calls (after c e (charger_run c es s)))
       \<longleftrightarrow> hostcmd_events c \<and> soc e \<le> BATTERY_LEVEL_CRITICAL \<and> BATTERY_LEVEL_CRITICAL < soc (last es))"
proof -
  obtain fs f where es: "es = fs @ [f]" using assms(1) by (cases es rule: rev_cases) auto
  have "prev_charge (charger_run c es s) = soc f" using assms(2) by (simp add: es after_prev_charge soc_def)
  moreover have "of_kind is_low_event (after c e (charger_run c es s)) = low_events c e (prev_charge (charger_run c es s))"
    using assms(2) by (intro after_low_events) simp
  moreover have "HostEvent ev \<in> set (calls t) \<longleftrightarrow> HostEvent ev \<in> set (of_kind is_low_event t)"
    if "ev = EC_HOST_EVENT_BATTERY_LOW \<or> ev = EC_HOST_EVENT_BATTERY_CRITICAL" for ev t
    using that by (auto simp: of_kind_def)
  ultimately show ?thesis using assms(2) by (auto simp: low_events_def es soc_def Let_def)
qed

theorem low_battery_events_on_crossing_witness:
  "HostEvent EC_HOST_EVENT_BATTERY_LOW \<in> set (calls (after ex_chg (ex_renv 2000 False (ex_battery\<lparr>b_state_of_charge := 10\<rparr>))
     (charger_run ex_chg [ex_renv 1000 False ex_battery] (ex_boot (ex_renv 0 False ex_battery)))))"
  using low_battery_events_on_crossing [of "[ex_renv 1000 False ex_battery]" "ex_renv 2000 False (ex_battery\<lparr>b_state_of_charge := 10\<rparr>)" ex_chg]
  by (simp add: known_charge_def has_flag_def ex_battery_def ex_chg_def)

text \<open>
  One failed reading can swallow the events: a round that cannot read the battery, so that the
  charge and the charge on display are 0, stores that charge for the comparison, and no event comes
  when the charge is read again and is low, although it was above both levels before.
\<close>

theorem low_battery_event_lost:
  fixes c :: chg_cfg
  assumes "prev_charge s > BATTERY_LEVEL_LOW" "override_ok e1" "override_ok e2"
    and "has_flag (battery_reading e1) BATT_FLAG_BAD_STATE_OF_CHARGE" "b_state_of_charge (battery_reading e1) = 0"
    and "b_display_charge (battery_reading e1) \<noteq> prev_disp_charge s"
  shows "filter is_low_event (calls (after c e1 s)) = [] \<and> filter is_low_event (calls (after c e2 (after c e1 s))) = []"
proof -
  have "prev_charge (after c e1 s) = 0" using assms by (simp add: after_prev_charge)
  then show ?thesis
    using after_low_events [OF assms(2), of c s] after_low_events [OF assms(3), of c "after c e1 s"] assms(4)
    by (simp add: of_kind_def low_events_def Let_def known_charge_def)
qed

theorem low_battery_event_lost_witness:
  "filter is_low_event (calls (after ex_chg (ex_renv 2000 False (ex_battery\<lparr>b_state_of_charge := 8\<rparr>))
     (after ex_chg (ex_renv 1000 False ex_silent) (chg_zero\<lparr>prev_charge := 50, prev_disp_charge := 500\<rparr>)))) = []"
  using low_battery_event_lost [of "chg_zero\<lparr>prev_charge := 50, prev_disp_charge := 500\<rparr>" "ex_renv 1000 False ex_silent"
      "ex_renv 2000 False (ex_battery\<lparr>b_state_of_charge := 8\<rparr>)" ex_chg]
  by (simp add: ex_silent_def has_flag_def batt_zero_def)

section \<open>How soon the task looks again\<close>

text \<open>
  The task never sleeps for more than a minute and never less than 50 ms, unless the timeout of
  a critical battery is shorter; with a critical battery it sleeps at most that timeout, so the
  shutdown is not missed, and after a problem at most 100 ms. The time the round took is deducted.
\<close>

theorem sleep_bounds:
  assumes "0 \<le> crit_timeout_us c" "charger_round c e s = (sleep, s')"
  shows "min CHARGE_MIN_SLEEP_USEC (crit_timeout_us c) \<le> sleep \<and> sleep \<le> CHARGE_MAX_SLEEP_USEC
     \<and> (b_is_present (battery_reading e) \<noteq> BP_NO \<and> is_critical e (constants_used e s) \<longrightarrow> sleep \<le> crit_timeout_us c)
     \<and> (problems_exist s' \<and> uint (t_end e - cs_ts (curr s')) < 2147483648 \<longrightarrow> sleep \<le> CHARGE_POLL_PERIOD_SHORT)"
proof -
  obtain crit sl where sleep: "sleep = round_sleep c e crit sl s'" and crit: "crit = fst (round_decide c e (prepared c e s))"
    using assms(2) by (auto simp: charger_round_def Let_def case_prod_beta prepared_def)
  have c: "crit" if "b_is_present (battery_reading e) \<noteq> BP_NO" "is_critical e (constants_used e s)"
    using that by (simp add: crit round_decide_alt Let_def critical_judged)
  have el: "sint (ucast d :: u32) = uint d" if "uint d < 2147483648" for d :: u64
  proof -
    have "uint (ucast d :: u32) = uint d" using that by (simp add: unsigned_ucast_eq take_bit_int_eq_self)
    then show ?thesis using sint_small [of "ucast d"] that by simp
  qed
  have short: "s32 (100000 - sint (ucast d :: u32)) \<le> 100000" if "uint d < 2147483648" for d :: u64
  proof -
    have "0 \<le> uint d" by simp
    then have "s32 (100000 - uint d) = 100000 - uint d" using that by (intro s32_small) linarith+
    then show ?thesis using el [OF that] \<open>0 \<le> uint d\<close> by simp
  qed
  define x where "x = s32 ((if problems_exist s' then 100000 else if sl \<le> 0 then
        if \<not> cs_ac (curr s') \<and> (cs_state (curr s') = ST_IDLE \<or> cs_state (curr s') = ST_DISCHARGE) then
          if (ap_off e \<or> ap_suspended e) \<and> output_current (curr s') = 0 then 60000000 else 500000
        else 250000 else sl) - sint (ucast (t_end e - cs_ts (curr s')) :: u32))"
  have "problems_exist s' \<Longrightarrow> uint (t_end e - cs_ts (curr s')) < 2147483648 \<Longrightarrow> x \<le> 100000" using short by (simp add: x_def)
  then show ?thesis using assms(1) c unfolding sleep round_sleep_def Let_def x_def [symmetric] by auto
qed

theorem sleep_bounds_witness:
  "fst (charger_round ex_chg (ex_renv 1000 True ex_battery) (ex_boot (ex_renv 0 True ex_battery))) \<le> 60000000"
  using sleep_bounds [of ex_chg "ex_renv 1000 True ex_battery" "ex_boot (ex_renv 0 True ex_battery)"] by (simp add: ex_chg_def) (metis prod.exhaust_sel)

end
