(* ===== verification/PD_Power.thy ===== *)
theory PD_Power
  imports EC_Prelude
begin

text \<open>
  Power negotiation of USB Power Delivery: the first part of common/usb_pd_policy.c and the data
  objects of include/usb_pd.h. A source offers power data objects (PDO), the sink chooses one and
  sends a request data object (RDO), which the source checks. The limits of the board and its list of
  accepted voltages are in a configuration record. Calls to the charge manager are recorded in order.
\<close>

section \<open>Data objects\<close>

definition PDO_TYPE_MASK :: u32 where "PDO_TYPE_MASK = push_bit 30 3"
definition PDO_TYPE_BATTERY :: u32 where "PDO_TYPE_BATTERY = push_bit 30 1"
definition PDO_TYPE_AUGMENTED :: u32 where "PDO_TYPE_AUGMENTED = push_bit 30 3"
definition RDO_GIVE_BACK :: u32 where "RDO_GIVE_BACK = push_bit 27 1"
definition RDO_CAP_MISMATCH :: u32 where "RDO_CAP_MISMATCH = push_bit 26 1"

definition PDO_FIXED :: "int \<Rightarrow> int \<Rightarrow> u32 \<Rightarrow> u32" where
  "PDO_FIXED mv ma flags = word_of_int (push_bit 10 (mv sdiv 50)) OR word_of_int (ma sdiv 10) OR flags"

definition PDO_BATT :: "int \<Rightarrow> int \<Rightarrow> int \<Rightarrow> u32" where
  "PDO_BATT min_mv max_mv op_mw =
     word_of_int (push_bit 10 ((min_mv sdiv 50) AND 0x3FF)) OR word_of_int (push_bit 20 ((max_mv sdiv 50) AND 0x3FF))
     OR word_of_int ((op_mw sdiv 250) AND 0x3FF) OR PDO_TYPE_BATTERY"

definition RDO_POS :: "u32 \<Rightarrow> nat" where
  "RDO_POS rdo = unat (drop_bit 28 rdo AND 7)"

definition RDO_OBJ_POS :: "nat \<Rightarrow> u32" where
  "RDO_OBJ_POS n = push_bit 28 (word_of_nat n AND 7)"

definition RDO_FIXED :: "nat \<Rightarrow> int \<Rightarrow> int \<Rightarrow> u32 \<Rightarrow> u32" where
  "RDO_FIXED n op_ma max_ma flags = RDO_OBJ_POS n OR flags
     OR word_of_int (push_bit 10 ((op_ma sdiv 10) AND 0x3FF)) OR word_of_int ((max_ma sdiv 10) AND 0x3FF)"

definition RDO_BATT :: "nat \<Rightarrow> int \<Rightarrow> int \<Rightarrow> u32 \<Rightarrow> u32" where
  "RDO_BATT n op_mw max_mw flags = RDO_OBJ_POS n OR flags
     OR word_of_int (push_bit 10 ((op_mw sdiv 250) AND 0x3FF)) OR word_of_int (push_bit 10 ((max_mw sdiv 250) AND 0x3FF))"

section \<open>Configuration and state\<close>

datatype pd_prefer = PREFER_NONE | PD_PREFER_LOW_VOLTAGE | PD_PREFER_HIGH_VOLTAGE

text \<open>
  \<open>give_back\<close> holds PD_MIN_POWER_MW and PD_MIN_CURRENT_MA with CONFIG_USB_PD_GIVE_BACK;
  \<open>valid_input_voltage\<close> is the board's \<open>pd_is_valid_input_voltage\<close>.
\<close>

record pd_power_cfg =
  PD_MAX_VOLTAGE_MV :: int
  PD_MAX_CURRENT_MA :: int
  PD_MAX_POWER_MW :: int
  PD_OPERATING_POWER_MW :: int
  pd_prefer :: pd_prefer
  give_back :: "(int \<times> int) option"
  valid_input_voltage :: "int \<Rightarrow> bool"
  pd_charge_manager :: bool

datatype pd_charge_call = SetPdCeil int | SetInputCurrentLimit u32 u32

record pd_sink =
  pd_src_caps :: "u32 list"
  pd_src_cap_cnt :: nat
  max_request_mv :: u32
  pd_charge_calls :: "pd_charge_call list"

datatype pd_request_type = PD_REQUEST_VSAFE5V | PD_REQUEST_MAX

section \<open>Source: checking a request\<close>

definition pd_board_check_request :: "u32 \<Rightarrow> nat \<Rightarrow> int" where
  "pd_board_check_request rdo pdo_cnt =
     (let idx = RDO_POS rdo in if idx = 0 \<or> idx > pdo_cnt then EC_ERROR_INVAL else EC_SUCCESS)"

definition pd_check_requested_voltage :: "u32 list \<Rightarrow> u32 \<Rightarrow> int" where
  "pd_check_requested_voltage src_pdo rdo =
     (let max_ma = rdo AND 0x3FF; op_ma = drop_bit 10 rdo AND 0x3FF; idx = RDO_POS rdo
      in if pd_board_check_request rdo (length src_pdo) \<noteq> EC_SUCCESS then EC_ERROR_INVAL
         else let pdo = src_pdo ! (idx - 1); pdo_ma = pdo AND 0x3ff
              in if op_ma > pdo_ma then EC_ERROR_INVAL
                 else if max_ma > pdo_ma \<and> rdo AND RDO_CAP_MISMATCH = 0 then EC_ERROR_INVAL
                 else EC_SUCCESS)"

section \<open>Sink: choosing an offer\<close>

text \<open>The body of the loop up to the comparison: power and voltage of an offer that qualifies.\<close>

definition pdo_candidate :: "pd_power_cfg \<Rightarrow> int \<Rightarrow> u32 \<Rightarrow> (int \<times> int) option" where
  "pdo_candidate cfg max_mv pdo =
     (if pdo AND PDO_TYPE_MASK = PDO_TYPE_AUGMENTED then None
      else let mv = uint (drop_bit 10 pdo AND 0x3FF) * 50
           in if mv = 0 then None
              else if \<not> valid_input_voltage cfg mv then None
              else let uw = (if pdo AND PDO_TYPE_MASK = PDO_TYPE_BATTERY then s32 (250000 * uint (pdo AND 0x3FF))
                             else let ma = min (uint (pdo AND 0x3FF) * 10) (PD_MAX_CURRENT_MA cfg) in s32 (ma * mv))
                   in if mv > max_mv then None
                      else Some (min uw (s32 (PD_MAX_POWER_MW cfg * 1000)), mv))"

definition prefer_cur :: "pd_power_cfg \<Rightarrow> int \<Rightarrow> int \<Rightarrow> int \<Rightarrow> int \<Rightarrow> bool" where
  "prefer_cur cfg uw mv cur_uw cur_mv =
     (case pd_prefer cfg of
        PREFER_NONE \<Rightarrow> False
      | PD_PREFER_LOW_VOLTAGE \<Rightarrow> uw = cur_uw \<and> mv < cur_mv
      | PD_PREFER_HIGH_VOLTAGE \<Rightarrow> uw = cur_uw \<and> mv > cur_mv)"

fun pdo_loop :: "pd_power_cfg \<Rightarrow> int \<Rightarrow> nat \<Rightarrow> u32 list \<Rightarrow> nat \<times> int \<times> int \<Rightarrow> nat" where
  "pdo_loop cfg max_mv i [] (ret, cur_uw, cur_mv) = ret"
| "pdo_loop cfg max_mv i (pdo # pdos) (ret, cur_uw, cur_mv) =
     (case pdo_candidate cfg max_mv pdo of
        None \<Rightarrow> pdo_loop cfg max_mv (Suc i) pdos (ret, cur_uw, cur_mv)
      | Some (uw, mv) \<Rightarrow>
          if uw > cur_uw \<or> prefer_cur cfg uw mv cur_uw cur_mv then pdo_loop cfg max_mv (Suc i) pdos (i, uw, mv)
          else pdo_loop cfg max_mv (Suc i) pdos (ret, cur_uw, cur_mv))"

definition pd_find_pdo_index :: "pd_power_cfg \<Rightarrow> int \<Rightarrow> pd_sink \<Rightarrow> nat \<times> u32" where
  "pd_find_pdo_index cfg max_mv st =
     (let max_mv = min max_mv (PD_MAX_VOLTAGE_MV cfg);
          ret = pdo_loop cfg max_mv 0 (take (pd_src_cap_cnt st) (pd_src_caps st)) (0, 0, 0)
      in (ret, pd_src_caps st ! ret))"

definition pd_extract_pdo_power :: "pd_power_cfg \<Rightarrow> u32 \<Rightarrow> u32 \<times> u32" where
  "pd_extract_pdo_power cfg pdo =
     (let mv = (drop_bit 10 pdo AND 0x3FF) * 50
      in if mv = 0 then (0, mv)
         else let max_ma =
                (if pdo AND PDO_TYPE_MASK = PDO_TYPE_BATTERY
                 then let uw = uint (250000 * (pdo AND 0x3FF))
                      in sint (word_of_int (s32 (1000 * min (s32 (1000 * uw)) (PD_MAX_POWER_MW cfg))) div mv)
                 else sint (min (10 * (pdo AND 0x3FF)) (word_of_int (PD_MAX_POWER_MW cfg * 1000) div mv)))
              in (word_of_int (min max_ma (PD_MAX_CURRENT_MA cfg)), mv))"

definition pd_build_request :: "pd_power_cfg \<Rightarrow> pd_request_type \<Rightarrow> pd_sink \<Rightarrow> u32 \<times> u32 \<times> u32" where
  "pd_build_request cfg req_type st =
     (let (pdo_index, pdo) = (if req_type = PD_REQUEST_VSAFE5V then (0, pd_src_caps st ! 0)
                              else pd_find_pdo_index cfg (sint (max_request_mv st)) st);
          (ma, mv) = pd_extract_pdo_power cfg pdo;
          uw = sint (ma * mv);
          flags = (if uw < s32 (1000 * PD_OPERATING_POWER_MW cfg) then RDO_CAP_MISMATCH else 0);
          (flags, max_or_min_mw, max_or_min_ma) =
            (case give_back cfg of
               Some (min_mw, min_ma) \<Rightarrow> (flags OR RDO_GIVE_BACK, min_mw, min_ma)
             | None \<Rightarrow> (flags, uw sdiv 1000, sint ma));
          rdo = (if pdo AND PDO_TYPE_MASK = PDO_TYPE_BATTERY
                 then RDO_BATT (pdo_index + 1) (uw sdiv 1000) max_or_min_mw flags
                 else RDO_FIXED (pdo_index + 1) (uint ma) max_or_min_ma flags)
      in (rdo, ma, mv))"

definition pd_process_source_cap :: "pd_power_cfg \<Rightarrow> u32 list \<Rightarrow> pd_sink \<Rightarrow> pd_sink" where
  "pd_process_source_cap cfg src_caps st =
     (let st = st\<lparr>pd_src_cap_cnt := length src_caps, pd_src_caps := write_at (pd_src_caps st) 0 src_caps\<rparr>
      in if pd_charge_manager cfg
         then let (_, pdo) = pd_find_pdo_index cfg (PD_MAX_VOLTAGE_MV cfg) st;
                  (ma, mv) = pd_extract_pdo_power cfg pdo
              in st\<lparr>pd_charge_calls := pd_charge_calls st @ [SetPdCeil 500, SetInputCurrentLimit ma mv]\<rparr>
         else st)"

definition pd_set_max_voltage :: "u32 \<Rightarrow> pd_sink \<Rightarrow> pd_sink" where
  "pd_set_max_voltage mv st = st\<lparr>max_request_mv := mv\<rparr>"

definition pd_get_max_voltage :: "pd_sink \<Rightarrow> u32" where
  "pd_get_max_voltage st = max_request_mv st"

definition pd_charge_from_device :: "u16 \<Rightarrow> u16 \<Rightarrow> bool" where
  "pd_charge_from_device vid pid = (vid = 0x05ac \<and> (pid = 0x1012 \<or> pid = 0x1013))"

section \<open>Fields of data objects\<close>

lemma mask_10: "0x3FF = (mask 10 :: u32)" "0x3FF = (mask 10 :: int)" "7 = (mask 3 :: u32)"
  by (simp_all add: mask_eq_exp_minus_1)

lemma uint_mask_10: "0 \<le> uint (w AND 0x3FF :: u32)" "uint (w AND 0x3FF :: u32) \<le> 1023"
proof -
  have "w AND 0x3FF \<le> (0x3FF :: u32)" by (rule word_and_le1)
  then show "uint (w AND 0x3FF) \<le> 1023" by (simp add: word_le_def)
qed simp

lemma bit_below_10: "0 \<le> a \<Longrightarrow> a \<le> 1023 \<Longrightarrow> bit a m \<Longrightarrow> m < 10" for a :: int
proof -
  assume "0 \<le> a" "a \<le> 1023"
  then have "take_bit 10 a = a" by (simp add: take_bit_int_eq_self)
  then show "bit a m \<Longrightarrow> m < 10" by (metis bit_take_bit_iff)
qed

lemma bit_field:
  "0 \<le> a \<Longrightarrow> a \<le> 1023 \<Longrightarrow> bit (word_of_int (push_bit k a) :: u32) n \<longleftrightarrow> k \<le> n \<and> n < 32 \<and> n < k + 10 \<and> bit a (n - k)"
  using bit_below_10 [of a "n - k"] by (auto simp: bit_simps)

lemma rdo_fields:
  assumes "0 \<le> a" "a \<le> 1023" "0 \<le> b" "b \<le> 1023" "\<And>k. bit (flags :: u32) k \<Longrightarrow> 20 \<le> k \<and> k < 28" "n \<le> 7"
  defines "r \<equiv> RDO_OBJ_POS n OR flags OR word_of_int (push_bit 10 a) OR word_of_int b"
  shows "RDO_POS r = n" "drop_bit 10 r AND 0x3FF = word_of_int a" "r AND 0x3FF = word_of_int b"
    "\<And>k. 20 \<le> k \<Longrightarrow> k < 28 \<Longrightarrow> bit r k = bit flags k"
proof -
  note f = assms(5)
  note bs = bit_field [OF assms(1,2), of 10] bit_field [OF assms(3,4), of 0, simplified]
  have n: "bit (word_of_nat n :: u32) k \<Longrightarrow> k < 3" for k
  proof -
    have "take_bit 3 n = n" using assms(6) by (simp add: take_bit_nat_eq_self)
    then show "bit (word_of_nat n :: u32) k \<Longrightarrow> k < 3" by (metis bit_of_nat_iff bit_take_bit_iff)
  qed
  have "word_of_nat n AND 7 = (word_of_nat n :: u32)" unfolding mask_10
    by (rule bit_word_eqI) (use n in \<open>auto simp: bit_and_iff bit_mask_iff\<close>)
  then have pos: "RDO_OBJ_POS n = push_bit 28 (word_of_nat n)" by (simp only: RDO_OBJ_POS_def)
  have r: "bit r k \<longleftrightarrow> (28 \<le> k \<and> k < 32 \<and> bit (word_of_nat n :: u32) (k - 28)) \<or> bit flags k \<or> (10 \<le> k \<and> k < 20 \<and> bit a (k - 10)) \<or> (k < 10 \<and> bit b k)" for k
    using n [of "k - 28"] unfolding r_def pos by (auto simp: bit_or_iff bs bit_push_bit_iff)
  show "drop_bit 10 r AND 0x3FF = word_of_int a"
  proof (rule bit_word_eqI)
    fix k assume "k < LENGTH(32)"
    then show "bit (drop_bit 10 r AND 0x3FF) k \<longleftrightarrow> bit (word_of_int a :: u32) k"
      using f [of "10 + k"] bit_below_10 [OF assms(1,2), of k] by (auto simp: bit_simps r mask_10)
  qed
  show "r AND 0x3FF = word_of_int b"
  proof (rule bit_word_eqI)
    fix k assume "k < LENGTH(32)"
    then show "bit (r AND 0x3FF) k \<longleftrightarrow> bit (word_of_int b :: u32) k"
      using f [of k] bit_below_10 [OF assms(3,4), of k] by (auto simp: bit_simps r mask_10)
  qed
  have "drop_bit 28 r AND 7 = word_of_nat n"
  proof (rule bit_word_eqI)
    fix k assume "k < LENGTH(32)"
    then show "bit (drop_bit 28 r AND 7) k \<longleftrightarrow> bit (word_of_nat n :: u32) k"
      using f [of "28 + k"] n [of k] by (auto simp: bit_simps r mask_10)
  qed
  then show "RDO_POS r = n" using assms(6) by (simp add: RDO_POS_def unat_of_nat)
  show "\<And>k. 20 \<le> k \<Longrightarrow> k < 28 \<Longrightarrow> bit r k = bit flags k" by (auto simp: r)
qed

lemma int_and_10: "0 \<le> a \<Longrightarrow> a \<le> 1023 \<Longrightarrow> a AND 0x3FF = (a :: int)"
  by (simp only: mask_10 flip: take_bit_eq_mask) (simp add: take_bit_int_eq_self mask_eq_exp_minus_1)

section \<open>The best offer\<close>

definition beats :: "pd_power_cfg \<Rightarrow> int \<times> int \<Rightarrow> int \<times> int \<Rightarrow> bool" where
  "beats cfg c d = (fst d < fst c \<or> prefer_cur cfg (fst c) (snd c) (fst d) (snd d))"

lemma not_beats_trans: "\<not> beats cfg a b \<Longrightarrow> \<not> beats cfg b c \<Longrightarrow> \<not> beats cfg a c"
  by (auto simp: beats_def prefer_cur_def split: pd_prefer.splits)

lemma beats_asym: "beats cfg a b \<Longrightarrow> \<not> beats cfg b a"
  by (auto simp: beats_def prefer_cur_def split: pd_prefer.splits)

lemma best_cases:
  "\<not> beats cfg (u, m) (uw, mv) \<and> (j < r \<longrightarrow> beats cfg (uw, mv) (u, m)) \<Longrightarrow>
     u \<le> uw \<and> (u = uw \<longrightarrow> (pd_prefer cfg = PD_PREFER_LOW_VOLTAGE \<longrightarrow> mv \<le> m)
       \<and> (pd_prefer cfg = PD_PREFER_HIGH_VOLTAGE \<longrightarrow> m \<le> mv) \<and> (m = mv \<or> pd_prefer cfg = PREFER_NONE \<longrightarrow> r \<le> j))" for j r :: nat
  by (auto simp: beats_def prefer_cur_def not_less [symmetric] split: pd_prefer.splits)

text \<open>The offer at index \<open>k\<close> is the first among the best.\<close>

definition best_offer :: "pd_power_cfg \<Rightarrow> int \<Rightarrow> u32 list \<Rightarrow> nat \<Rightarrow> int \<times> int \<Rightarrow> bool" where
  "best_offer cfg mm pdos k c \<longleftrightarrow> k < length pdos \<and> pdo_candidate cfg mm (pdos ! k) = Some c
     \<and> (\<forall>j < length pdos. \<forall>d. pdo_candidate cfg mm (pdos ! j) = Some d \<longrightarrow> \<not> beats cfg d c \<and> (j < k \<longrightarrow> beats cfg c d))"

lemma best_offer_tail:
  assumes "best_offer cfg mm pdos k d" "\<And>c. pdo_candidate cfg mm p = Some c \<Longrightarrow> beats cfg d c"
  shows "best_offer cfg mm (p # pdos) (Suc k) d"
  using assms beats_asym [of cfg d] by (auto simp: best_offer_def less_Suc_eq_0_disj)

lemma best_offer_head:
  assumes "pdo_candidate cfg mm p = Some c" "\<forall>j < length pdos. \<forall>d. pdo_candidate cfg mm (pdos ! j) = Some d \<longrightarrow> \<not> beats cfg d c"
  shows "best_offer cfg mm (p # pdos) 0 c"
  using assms beats_asym [of cfg c c] by (auto simp: best_offer_def less_Suc_eq_0_disj)

lemma pdo_loop_spec:
  "(pdo_loop cfg mm i pdos (ret, cur) = ret
     \<and> (\<forall>j < length pdos. \<forall>c. pdo_candidate cfg mm (pdos ! j) = Some c \<longrightarrow> \<not> beats cfg c cur)) \<or>
   (\<exists>k c. pdo_loop cfg mm i pdos (ret, cur) = i + k \<and> best_offer cfg mm pdos k c \<and> beats cfg c cur)"
proof (induction pdos arbitrary: i ret cur)
  case Nil
  then show ?case by (cases cur) simp
next
  case (Cons p pdos)
  have step: "pdo_loop cfg mm i (p # pdos) (ret, cur) =
      (case pdo_candidate cfg mm p of None \<Rightarrow> pdo_loop cfg mm (Suc i) pdos (ret, cur)
       | Some c \<Rightarrow> if beats cfg c cur then pdo_loop cfg mm (Suc i) pdos (i, c) else pdo_loop cfg mm (Suc i) pdos (ret, cur))"
    by (cases cur) (auto simp: beats_def split: option.splits)
  show ?case
  proof (cases "\<exists>c. pdo_candidate cfg mm p = Some c \<and> beats cfg c cur")
    case True
    then obtain c where c: "pdo_candidate cfg mm p = Some c" "beats cfg c cur" by blast
    then have l: "pdo_loop cfg mm i (p # pdos) (ret, cur) = pdo_loop cfg mm (Suc i) pdos (i, c)" using step by simp
    from Cons.IH [of "Suc i" i c] show ?thesis
    proof (elim disjE exE conjE)
      assume "\<forall>j < length pdos. \<forall>d. pdo_candidate cfg mm (pdos ! j) = Some d \<longrightarrow> \<not> beats cfg d c"
        and i: "pdo_loop cfg mm (Suc i) pdos (i, c) = i"
      then have "best_offer cfg mm (p # pdos) 0 c" using best_offer_head [OF c(1)] by blast
      then show ?thesis using l c(2) i by (intro disjI2 exI [of _ 0] exI [of _ c]) simp
    next
      fix k d assume k: "pdo_loop cfg mm (Suc i) pdos (i, c) = Suc i + k" "best_offer cfg mm pdos k d" "beats cfg d c"
      have "beats cfg d cur" using c(2) k(3) not_beats_trans beats_asym by metis
      then show ?thesis using k c l best_offer_tail [OF k(2), of p] by (intro disjI2 exI [of _ "Suc k"] exI [of _ d]) simp
    qed
  next
    case False
    then have l: "pdo_loop cfg mm i (p # pdos) (ret, cur) = pdo_loop cfg mm (Suc i) pdos (ret, cur)"
      using step by (auto split: option.splits)
    from Cons.IH [of "Suc i" ret cur] show ?thesis
    proof (elim disjE exE conjE)
      assume "\<forall>j < length pdos. \<forall>c. pdo_candidate cfg mm (pdos ! j) = Some c \<longrightarrow> \<not> beats cfg c cur"
        and "pdo_loop cfg mm (Suc i) pdos (ret, cur) = ret"
      then show ?thesis using False l by (auto simp: less_Suc_eq_0_disj)
    next
      fix k c assume k: "pdo_loop cfg mm (Suc i) pdos (ret, cur) = Suc i + k" "best_offer cfg mm pdos k c" "beats cfg c cur"
      have "pdo_candidate cfg mm p = Some d \<Longrightarrow> beats cfg c d" for d using False k(3) not_beats_trans by blast
      then show ?thesis using k l best_offer_tail [OF k(2), of p] by (intro disjI2 exI [of _ "Suc k"] exI [of _ c]) simp
    qed
  qed
qed

section \<open>What is requested\<close>

text \<open>Limits that every board respects: they keep the arithmetic of the module within 32 bits.\<close>

definition pd_limits :: "pd_power_cfg \<Rightarrow> bool" where
  "pd_limits cfg \<longleftrightarrow> 0 \<le> PD_MAX_CURRENT_MA cfg \<and> PD_MAX_CURRENT_MA cfg \<le> 10230
     \<and> 0 < PD_MAX_POWER_MW cfg \<and> PD_MAX_POWER_MW cfg \<le> 1000000
     \<and> 0 \<le> PD_OPERATING_POWER_MW cfg \<and> PD_OPERATING_POWER_MW cfg \<le> 1000000"

abbreviation pdo_mv :: "u32 \<Rightarrow> int" where "pdo_mv pdo \<equiv> uint (drop_bit 10 pdo AND 0x3FF) * 50"
abbreviation pdo_units :: "u32 \<Rightarrow> int" where "pdo_units pdo \<equiv> uint (pdo AND 0x3FF)"

lemma uint_word_small: "0 \<le> x \<Longrightarrow> x \<le> 4294967295 \<Longrightarrow> uint (word_of_int x :: u32) = x"
  by (simp add: uint_word_of_int)

lemma sint_u32: "sint (w :: u32) = s32 (uint w)"
  by (simp add: s32_def sint_uint)

lemma sint_of_small: "uint (w :: u32) \<le> 2147483647 \<Longrightarrow> sint w = uint w"
  unfolding sint_u32 by (rule s32_small) (use uint_nonnegative [of w] in linarith)+

lemma uint_mult_small: "uint a * uint b \<le> 4294967295 \<Longrightarrow> uint (a * b :: u32) = uint a * uint b"
  by (simp add: uint_word_ariths)

lemma uint_min: "uint (min a b :: u32) = min (uint a) (uint b)"
  by (simp add: min_def word_le_def)

lemma extract_other:
  assumes "pd_limits cfg" "pdo AND PDO_TYPE_MASK \<noteq> PDO_TYPE_BATTERY" "pd_extract_pdo_power cfg pdo = (ma, mv)"
  shows "uint mv = pdo_mv pdo" "uint mv \<le> 51150"
    "uint ma = (if uint mv = 0 then 0 else min (min (10 * pdo_units pdo) (PD_MAX_POWER_MW cfg * 1000 div uint mv)) (PD_MAX_CURRENT_MA cfg))"
    "uint ma \<le> 10 * pdo_units pdo" "uint ma \<le> PD_MAX_CURRENT_MA cfg" "uint ma * uint mv \<le> PD_MAX_POWER_MW cfg * 1000"
proof -
  let ?v = "drop_bit 10 pdo AND 0x3FF" and ?i = "pdo AND 0x3FF"
  note b = uint_mask_10 [of "drop_bit 10 pdo"] uint_mask_10 [of pdo]
  have v: "uint (?v * 50) = pdo_mv pdo" and i: "uint (10 * ?i) = 10 * pdo_units pdo"
    using uint_mult_small [of ?v 50] uint_mult_small [of 10 ?i] b by simp_all
  have mv: "mv = ?v * 50" using assms(3) by (auto simp: pd_extract_pdo_power_def Let_def split: if_splits)
  show m: "uint mv = pdo_mv pdo" using v mv by simp
  show "uint mv \<le> 51150" using m b by simp
  let ?p = "PD_MAX_POWER_MW cfg * 1000"
  have p: "uint (word_of_int ?p :: u32) = ?p" using assms(1) by (intro uint_word_small) (auto simp: pd_limits_def)
  have z: "(mv = 0) = (uint mv = 0)" by (simp add: word_uint_eq_iff)
  show ma: "uint ma = (if uint mv = 0 then 0 else min (min (10 * pdo_units pdo) (?p div uint mv)) (PD_MAX_CURRENT_MA cfg))"
  proof (cases "mv = 0")
    case True
    then show ?thesis using assms(3) mv z by (simp add: pd_extract_pdo_power_def Let_def)
  next
    case False
    let ?w = "min (10 * ?i) (word_of_int ?p div mv)"
    have w: "uint ?w = min (10 * pdo_units pdo) (?p div uint mv)" by (simp only: uint_min i uint_div p)
    have "0 < uint mv" using False z uint_nonnegative [of mv] by linarith
    then have "0 \<le> ?p div uint mv" using assms(1) by (simp add: pos_imp_zdiv_nonneg_iff pd_limits_def)
    then have "uint ?w \<le> 2147483647" "0 \<le> uint ?w" using w b by linarith+
    then have "sint ?w = uint ?w" "0 \<le> uint ?w" using sint_of_small by blast+
    moreover have "ma = word_of_int (min (sint ?w) (PD_MAX_CURRENT_MA cfg))"
      using assms(2,3) False mv by (simp add: pd_extract_pdo_power_def Let_def)
    ultimately have "ma = word_of_int (min (uint ?w) (PD_MAX_CURRENT_MA cfg))" and w0: "0 \<le> uint ?w" by simp_all
    moreover have "uint (word_of_int (min (uint ?w) (PD_MAX_CURRENT_MA cfg)) :: u32) = min (uint ?w) (PD_MAX_CURRENT_MA cfg)"
      using w0 assms(1) by (intro uint_word_small) (auto simp only: pd_limits_def min_def split: if_splits)
    ultimately show ?thesis using w False z by (simp only: if_False)
  qed
  show "uint ma \<le> 10 * pdo_units pdo" "uint ma \<le> PD_MAX_CURRENT_MA cfg" using ma b assms(1) by (auto simp: pd_limits_def)
  have "x * uint mv \<le> ?p" if "x \<le> ?p div uint mv" "uint mv \<noteq> 0" for x
  proof -
    have "x * uint mv \<le> (?p div uint mv) * uint mv" using that by (intro mult_right_mono) auto
    also have "\<dots> \<le> ?p" using that assms(1) uint_nonnegative [of mv]
      by (smt (verit) div_mult_mod_eq pos_mod_sign)
    finally show ?thesis .
  qed
  then show "uint ma * uint mv \<le> ?p" using ma assms(1) by (auto simp: pd_limits_def)
qed

text \<open>
  What an offer means, apart from the code: the board can use one that is not an augmented object and
  whose voltage it supports and is above 0 and within both limits; the power that it can draw from it is
  the offered one, within the board's limits on current and power (in microwatts, on unbounded integers).
\<close>

definition usable_offer :: "pd_power_cfg \<Rightarrow> int \<Rightarrow> u32 \<Rightarrow> bool" where
  "usable_offer cfg limit pdo \<longleftrightarrow> pdo AND PDO_TYPE_MASK \<noteq> PDO_TYPE_AUGMENTED
     \<and> 0 < pdo_mv pdo \<and> pdo_mv pdo \<le> limit \<and> pdo_mv pdo \<le> PD_MAX_VOLTAGE_MV cfg \<and> valid_input_voltage cfg (pdo_mv pdo)"

definition usable_uw :: "pd_power_cfg \<Rightarrow> u32 \<Rightarrow> int" where
  "usable_uw cfg pdo =
     min (1000 * PD_MAX_POWER_MW cfg)
       (if pdo AND PDO_TYPE_MASK = PDO_TYPE_BATTERY then 250000 * pdo_units pdo
        else min (10 * pdo_units pdo) (PD_MAX_CURRENT_MA cfg) * pdo_mv pdo)"

lemma candidate_usable:
  assumes "pd_limits cfg"
  shows "pdo_candidate cfg (min limit (PD_MAX_VOLTAGE_MV cfg)) pdo
     = (if usable_offer cfg limit pdo then Some (usable_uw cfg pdo, pdo_mv pdo) else None)"
proof -
  note b = uint_mask_10 [of "drop_bit 10 pdo"] uint_mask_10 [of pdo]
  let ?m = "min (pdo_units pdo * 10) (PD_MAX_CURRENT_MA cfg)"
  have "0 \<le> ?m" "?m \<le> 10230" "0 \<le> pdo_mv pdo" "pdo_mv pdo \<le> 51150" using b assms by (auto simp: pd_limits_def)
  then have "0 \<le> ?m * pdo_mv pdo" "?m * pdo_mv pdo \<le> 10230 * 51150"
    using mult_mono [of ?m 10230 "pdo_mv pdo" 51150] by (simp_all only: mult_nonneg_nonneg)
  then have other: "s32 (?m * pdo_mv pdo) = ?m * pdo_mv pdo" by (intro s32_small) linarith+
  have batt: "s32 (250000 * pdo_units pdo) = 250000 * pdo_units pdo" using b by (intro s32_small) linarith+
  have max: "s32 (PD_MAX_POWER_MW cfg * 1000) = PD_MAX_POWER_MW cfg * 1000"
    using assms by (intro s32_small) (auto simp: pd_limits_def)
  have pos: "pdo_units (drop_bit 10 pdo) \<noteq> 0 \<longleftrightarrow> 0 < pdo_units (drop_bit 10 pdo)" using b by linarith
  show ?thesis unfolding pdo_candidate_def usable_offer_def usable_uw_def Let_def other batt max
    by (auto simp: pos min.commute mult.commute)
qed

section \<open>Requests\<close>

lemma find_pdo_cases:
  fixes cfg :: pd_power_cfg and st :: pd_sink and max_mv :: int
  defines "mm \<equiv> min max_mv (PD_MAX_VOLTAGE_MV cfg)" and "caps \<equiv> take (pd_src_cap_cnt st) (pd_src_caps st)"
  assumes "pd_src_cap_cnt st \<le> length (pd_src_caps st)"
  shows "(pd_find_pdo_index cfg max_mv st = (0, pd_src_caps st ! 0)
      \<and> (\<forall>j < length caps. \<forall>c. pdo_candidate cfg mm (caps ! j) = Some c \<longrightarrow> \<not> beats cfg c (0, 0)))
    \<or> (\<exists>r c. pd_find_pdo_index cfg max_mv st = (r, caps ! r) \<and> best_offer cfg mm caps r c \<and> beats cfg c (0, 0))"
  using pdo_loop_spec [of cfg mm 0 caps 0 "(0, 0)"] assms(3) unfolding mm_def caps_def
  by (fastforce simp: pd_find_pdo_index_def Let_def best_offer_def)

text \<open>C26. 
  The sink chooses the best offer. Whenever one of the offers that the board can use (a supported
  voltage, not above the caller's limit nor the board's, not an augmented object) has positive power, the
  chosen one is usable, none has more power after the board's limits on current and power are applied, ties are
  broken by the configured preference, and among equals the first is taken. Usability and power are those
  of the offers themselves, computed without overflow; the board's limits are those that every board respects.
\<close>

theorem best_offer_chosen:
  fixes cfg :: pd_power_cfg and st :: pd_sink
  assumes "pd_limits cfg" "pd_src_cap_cnt st \<le> length (pd_src_caps st)"
    and "k < pd_src_cap_cnt st" "usable_offer cfg max_mv (pd_src_caps st ! k)" "0 < usable_uw cfg (pd_src_caps st ! k)"
  shows "\<exists>r < pd_src_cap_cnt st. pd_find_pdo_index cfg max_mv st = (r, pd_src_caps st ! r)
     \<and> usable_offer cfg max_mv (pd_src_caps st ! r)
     \<and> (\<forall>j < pd_src_cap_cnt st. usable_offer cfg max_mv (pd_src_caps st ! j) \<longrightarrow>
          usable_uw cfg (pd_src_caps st ! j) \<le> usable_uw cfg (pd_src_caps st ! r)
          \<and> (usable_uw cfg (pd_src_caps st ! j) = usable_uw cfg (pd_src_caps st ! r) \<longrightarrow>
               (pd_prefer cfg = PD_PREFER_LOW_VOLTAGE \<longrightarrow> pdo_mv (pd_src_caps st ! r) \<le> pdo_mv (pd_src_caps st ! j))
             \<and> (pd_prefer cfg = PD_PREFER_HIGH_VOLTAGE \<longrightarrow> pdo_mv (pd_src_caps st ! j) \<le> pdo_mv (pd_src_caps st ! r))
             \<and> (pdo_mv (pd_src_caps st ! j) = pdo_mv (pd_src_caps st ! r) \<or> pd_prefer cfg = PREFER_NONE \<longrightarrow> r \<le> j)))"
proof -
  let ?caps = "take (pd_src_cap_cnt st) (pd_src_caps st)" and ?mm = "min max_mv (PD_MAX_VOLTAGE_MV cfg)"
  note cand = candidate_usable [OF assms(1), of max_mv]
  have "pdo_candidate cfg ?mm (?caps ! k) = Some (usable_uw cfg (pd_src_caps st ! k), pdo_mv (pd_src_caps st ! k))" "k < length ?caps"
    using cand [of "pd_src_caps st ! k"] assms(2-4) by simp_all
  moreover have "beats cfg (usable_uw cfg (pd_src_caps st ! k), m) (0, 0)" for m using assms(5) by (simp add: beats_def)
  ultimately obtain r c where r: "pd_find_pdo_index cfg max_mv st = (r, ?caps ! r)" "best_offer cfg ?mm ?caps r c"
    using find_pdo_cases [OF assms(2), of cfg max_mv] by blast
  then have l: "r < pd_src_cap_cnt st" "?caps ! r = pd_src_caps st ! r" using assms(2) by (simp_all add: best_offer_def)
  then have u: "usable_offer cfg max_mv (pd_src_caps st ! r)" "c = (usable_uw cfg (pd_src_caps st ! r), pdo_mv (pd_src_caps st ! r))"
    using r(2) cand [of "pd_src_caps st ! r"] by (auto simp: best_offer_def split: if_splits)
  have "usable_uw cfg (pd_src_caps st ! j) \<le> fst c
          \<and> (usable_uw cfg (pd_src_caps st ! j) = fst c \<longrightarrow>
               (pd_prefer cfg = PD_PREFER_LOW_VOLTAGE \<longrightarrow> snd c \<le> pdo_mv (pd_src_caps st ! j))
             \<and> (pd_prefer cfg = PD_PREFER_HIGH_VOLTAGE \<longrightarrow> pdo_mv (pd_src_caps st ! j) \<le> snd c)
             \<and> (pdo_mv (pd_src_caps st ! j) = snd c \<or> pd_prefer cfg = PREFER_NONE \<longrightarrow> r \<le> j))"
    if "j < pd_src_cap_cnt st" "usable_offer cfg max_mv (pd_src_caps st ! j)" for j
  proof -
    let ?d = "(usable_uw cfg (pd_src_caps st ! j), pdo_mv (pd_src_caps st ! j))"
    have "\<not> beats cfg ?d c \<and> (j < r \<longrightarrow> beats cfg c ?d)"
      using r(2) that assms(2) cand [of "pd_src_caps st ! j"] by (simp add: best_offer_def)
    then show ?thesis by (metis best_cases surjective_pairing)
  qed
  then show ?thesis using r(1) l u(1) unfolding u(2) fst_conv snd_conv by (intro exI [of _ r]) simp
qed

lemma request_cases:
  assumes "pd_build_request cfg req st = (rdo, ma, mv)" "0 < pd_src_cap_cnt st" "pd_src_cap_cnt st \<le> length (pd_src_caps st)"
    "give_back cfg = None"
  obtains r where "r < pd_src_cap_cnt st"
    "(r, pd_src_caps st ! r) = (if req = PD_REQUEST_VSAFE5V then (0, pd_src_caps st ! 0) else pd_find_pdo_index cfg (sint (max_request_mv st)) st)"
    "pd_extract_pdo_power cfg (pd_src_caps st ! r) = (ma, mv)"
    "rdo = (let uw = sint (ma * mv); flags = (if uw < s32 (1000 * PD_OPERATING_POWER_MW cfg) then RDO_CAP_MISMATCH else 0)
            in if pd_src_caps st ! r AND PDO_TYPE_MASK = PDO_TYPE_BATTERY then RDO_BATT (Suc r) (uw sdiv 1000) (uw sdiv 1000) flags
               else RDO_FIXED (Suc r) (uint ma) (sint ma) flags)"
proof -
  obtain r pdo where r: "(r, pdo) = (if req = PD_REQUEST_VSAFE5V then (0, pd_src_caps st ! 0) else pd_find_pdo_index cfg (sint (max_request_mv st)) st)"
    by (metis surj_pair)
  have "r < pd_src_cap_cnt st \<and> pdo = pd_src_caps st ! r"
    using r find_pdo_cases [OF assms(3), of cfg "sint (max_request_mv st)"] assms(2)
    by (auto simp: best_offer_def split: if_splits)
  then show ?thesis using that [of r] r assms(1,4)
    by (auto simp: pd_build_request_def Let_def split: prod.splits)
qed

lemma bit_mismatch: "bit RDO_CAP_MISMATCH k \<longleftrightarrow> k = 26"
  unfolding RDO_CAP_MISMATCH_def by (auto simp only: bit_push_bit_iff bit_1_iff) auto

lemma request_other:
  assumes "pd_limits cfg" "pdo AND PDO_TYPE_MASK \<noteq> PDO_TYPE_BATTERY" "pd_extract_pdo_power cfg pdo = (ma, mv)" "n \<le> 7"
    and "rdo = RDO_FIXED n (uint ma) (sint ma) (if sint (ma * mv) < s32 (1000 * PD_OPERATING_POWER_MW cfg) then RDO_CAP_MISMATCH else 0)"
  shows "RDO_POS rdo = n" "uint (drop_bit 10 rdo AND 0x3FF) = uint ma div 10" "uint (rdo AND 0x3FF) = uint ma div 10"
    "rdo AND RDO_CAP_MISMATCH \<noteq> 0 \<longleftrightarrow> uint ma * uint mv < 1000 * PD_OPERATING_POWER_MW cfg"
proof -
  note e = extract_other [OF assms(1-3)] and b = uint_mask_10 [of pdo]
  let ?f = "if sint (ma * mv) < s32 (1000 * PD_OPERATING_POWER_MW cfg) then RDO_CAP_MISMATCH else 0"
  have d: "0 \<le> uint ma div 10" "uint ma div 10 \<le> 1023" using e(4) b by (simp_all add: pos_imp_zdiv_nonneg_iff)
  have "sint ma = uint ma" using e(4) b by (intro sint_of_small) simp
  then have r: "rdo = RDO_OBJ_POS n OR ?f OR word_of_int (push_bit 10 (uint ma div 10)) OR word_of_int (uint ma div 10)"
    unfolding assms(5) RDO_FIXED_def using d by (simp add: int_and_10 sdiv_nonneg)
  have f: "bit ?f k \<Longrightarrow> 20 \<le> k \<and> k < 28" for k by (auto simp: bit_mismatch split: if_splits)
  note fs = rdo_fields [OF d d f assms(4)]
  show "RDO_POS rdo = n" "uint (drop_bit 10 rdo AND 0x3FF) = uint ma div 10" "uint (rdo AND 0x3FF) = uint ma div 10"
    using fs(1-3) r uint_word_small d by simp_all
  have m: "uint (ma * mv) = uint ma * uint mv" using e(6) assms(1) by (intro uint_mult_small) (auto simp: pd_limits_def)
  then have "sint (ma * mv) = uint ma * uint mv" using e(6) assms(1) sint_of_small [of "ma * mv"] by (auto simp: pd_limits_def)
  moreover have "s32 (1000 * PD_OPERATING_POWER_MW cfg) = 1000 * PD_OPERATING_POWER_MW cfg"
    using assms(1) by (intro s32_small) (auto simp: pd_limits_def)
  moreover have "bit ?f 26 \<longleftrightarrow> sint (ma * mv) < s32 (1000 * PD_OPERATING_POWER_MW cfg)" by (simp add: bit_mismatch)
  moreover have "bit rdo 26 = bit ?f 26" unfolding r by (rule fs(4)) simp_all
  ultimately show "rdo AND RDO_CAP_MISMATCH \<noteq> 0 \<longleftrightarrow> uint ma * uint mv < 1000 * PD_OPERATING_POWER_MW cfg"
    using and_exp_bit [of rdo 26] by (simp add: RDO_CAP_MISMATCH_def push_bit_eq_mult)
qed


lemma request_facts:
  assumes "pd_limits cfg" "pd_build_request cfg req st = (rdo, ma, mv)" "give_back cfg = None"
    and "0 < pd_src_cap_cnt st" "pd_src_cap_cnt st \<le> 7" "7 \<le> length (pd_src_caps st)"
    and "\<forall>j < pd_src_cap_cnt st. pd_src_caps st ! j AND PDO_TYPE_MASK \<noteq> PDO_TYPE_BATTERY"
  obtains r where "r < pd_src_cap_cnt st" "Suc r \<le> 7"
    "(r, pd_src_caps st ! r) = (if req = PD_REQUEST_VSAFE5V then (0, pd_src_caps st ! 0) else pd_find_pdo_index cfg (sint (max_request_mv st)) st)"
    "pd_src_caps st ! r AND PDO_TYPE_MASK \<noteq> PDO_TYPE_BATTERY" "pd_extract_pdo_power cfg (pd_src_caps st ! r) = (ma, mv)"
    "rdo = RDO_FIXED (Suc r) (uint ma) (sint ma) (if sint (ma * mv) < s32 (1000 * PD_OPERATING_POWER_MW cfg) then RDO_CAP_MISMATCH else 0)"
proof -
  have len: "pd_src_cap_cnt st \<le> length (pd_src_caps st)" using assms(5,6) by simp
  from request_cases [OF assms(2,4) len assms(3)] obtain r where r: "r < pd_src_cap_cnt st"
    "(r, pd_src_caps st ! r) = (if req = PD_REQUEST_VSAFE5V then (0, pd_src_caps st ! 0) else pd_find_pdo_index cfg (sint (max_request_mv st)) st)"
    and e: "pd_extract_pdo_power cfg (pd_src_caps st ! r) = (ma, mv)"
    and rdo: "rdo = (let uw = sint (ma * mv); flags = (if uw < s32 (1000 * PD_OPERATING_POWER_MW cfg) then RDO_CAP_MISMATCH else 0)
            in if pd_src_caps st ! r AND PDO_TYPE_MASK = PDO_TYPE_BATTERY then RDO_BATT (Suc r) (uw sdiv 1000) (uw sdiv 1000) flags
               else RDO_FIXED (Suc r) (uint ma) (sint ma) flags)" .
  have nb: "pd_src_caps st ! r AND PDO_TYPE_MASK \<noteq> PDO_TYPE_BATTERY" using r(1) assms(7) by blast
  have q: "rdo = RDO_FIXED (Suc r) (uint ma) (sint ma) (if sint (ma * mv) < s32 (1000 * PD_OPERATING_POWER_MW cfg) then RDO_CAP_MISMATCH else 0)"
    unfolding rdo Let_def if_not_P [OF nb] ..
  have "Suc r \<le> 7" using r(1) assms(5) by simp
  then show thesis using that r e nb q by blast
qed


definition ex_pd_cfg :: pd_power_cfg where
  "ex_pd_cfg = \<lparr>PD_MAX_VOLTAGE_MV = 20000, PD_MAX_CURRENT_MA = 3000, PD_MAX_POWER_MW = 45000, PD_OPERATING_POWER_MW = 15000,
     pd_prefer = PREFER_NONE, give_back = None, valid_input_voltage = (\<lambda>mv. True), pd_charge_manager = True\<rparr>"

text \<open>A charger that offers 5 V and 3 A, 9 V and 3 A, 15 V and 3 A, 20 V and 2.25 A.\<close>

definition ex_sink :: pd_sink where
  "ex_sink = \<lparr>pd_src_caps = [0x0001912C, 0x0002D12C, 0x0004B12C, 0x000640E1, 0, 0, 0], pd_src_cap_cnt = 4,
     max_request_mv = 20000, pd_charge_calls = []\<rparr>"

lemma ex_sink_offers: "map (\<lambda>p. (pdo_mv p, 10 * pdo_units p)) (take 4 (pd_src_caps ex_sink)) = [(5000, 3000), (9000, 3000), (15000, 3000), (20000, 2250)]"
  by code_simp

text \<open>
  The best of the four offers has 45 W; the one of 20 V has as much, but is not the first. Where a caller
  allows only 12 V the offer of 9 V is taken.
\<close>

theorem best_offer_chosen_witness:
  "map (usable_uw ex_pd_cfg) (take 4 (pd_src_caps ex_sink)) = [15000000, 27000000, 45000000, 45000000]
   \<and> pd_find_pdo_index ex_pd_cfg 20000 ex_sink = (2, 0x0004B12C) \<and> usable_offer ex_pd_cfg 20000 0x0004B12C
   \<and> pd_find_pdo_index ex_pd_cfg 12000 ex_sink = (1, 0x0002D12C) \<and> \<not> usable_offer ex_pd_cfg 12000 0x0004B12C"
proof -
  have c: "pd_limits ex_pd_cfg" "pd_src_cap_cnt ex_sink = 4" "length (pd_src_caps ex_sink) = 7"
    "usable_offer ex_pd_cfg 20000 (pd_src_caps ex_sink ! 1)" "usable_uw ex_pd_cfg (pd_src_caps ex_sink ! 1) = 27000000"
    "pd_find_pdo_index ex_pd_cfg 20000 ex_sink = (2, 0x0004B12C)" "pd_find_pdo_index ex_pd_cfg 12000 ex_sink = (1, 0x0002D12C)"
    "map (usable_uw ex_pd_cfg) (take 4 (pd_src_caps ex_sink)) = [15000000, 27000000, 45000000, 45000000]"
    "\<not> usable_offer ex_pd_cfg 12000 0x0004B12C" by code_simp+
  then have "pd_src_cap_cnt ex_sink \<le> length (pd_src_caps ex_sink)" "1 < pd_src_cap_cnt ex_sink" "0 < usable_uw ex_pd_cfg (pd_src_caps ex_sink ! 1)"
    by simp_all
  from best_offer_chosen [OF c(1) this(1,2) c(4) this(3)] obtain r where
    "pd_find_pdo_index ex_pd_cfg 20000 ex_sink = (r, pd_src_caps ex_sink ! r)" "usable_offer ex_pd_cfg 20000 (pd_src_caps ex_sink ! r)" by blast
  then have "usable_offer ex_pd_cfg 20000 0x0004B12C" unfolding c(6) by (metis prod.inject)
  then show ?thesis using c(6-9) by blast
qed


lemma request_agreed:
  assumes "pd_limits cfg" "pd_build_request cfg req st = (rdo, ma, mv)" "give_back cfg = None"
    and "0 < pd_src_cap_cnt st" "pd_src_cap_cnt st \<le> 7" "7 \<le> length (pd_src_caps st)"
    and "\<forall>j < pd_src_cap_cnt st. pd_src_caps st ! j AND PDO_TYPE_MASK \<noteq> PDO_TYPE_BATTERY"
  shows "\<exists>r < pd_src_cap_cnt st. RDO_POS rdo = Suc r
     \<and> pd_check_requested_voltage (take (pd_src_cap_cnt st) (pd_src_caps st)) rdo = EC_SUCCESS
     \<and> uint mv = pdo_mv (pd_src_caps st ! r) \<and> uint ma \<le> 10 * pdo_units (pd_src_caps st ! r)
     \<and> uint ma \<le> PD_MAX_CURRENT_MA cfg \<and> uint ma * uint mv \<le> PD_MAX_POWER_MW cfg * 1000"
proof -
  from request_facts [OF assms] obtain r where r: "r < pd_src_cap_cnt st" "Suc r \<le> 7"
    and nb: "pd_src_caps st ! r AND PDO_TYPE_MASK \<noteq> PDO_TYPE_BATTERY" and e: "pd_extract_pdo_power cfg (pd_src_caps st ! r) = (ma, mv)"
    and q: "rdo = RDO_FIXED (Suc r) (uint ma) (sint ma) (if sint (ma * mv) < s32 (1000 * PD_OPERATING_POWER_MW cfg) then RDO_CAP_MISMATCH else 0)" .
  note o = request_other [OF assms(1) nb e r(2) q] and x = extract_other [OF assms(1) nb e]
  have "uint ma div 10 \<le> pdo_units (pd_src_caps st ! r)" using x(4) by simp
  then have "drop_bit 10 rdo AND 0x3FF \<le> pd_src_caps st ! r AND 0x3FF" "rdo AND 0x3FF \<le> pd_src_caps st ! r AND 0x3FF"
    using o(2,3) by (simp_all add: word_le_def)
  then have "pd_check_requested_voltage (take (pd_src_cap_cnt st) (pd_src_caps st)) rdo = EC_SUCCESS" using o(1) r assms(5,6)
    by (simp add: pd_check_requested_voltage_def pd_board_check_request_def Let_def min_absorb2 leD)
  then show ?thesis using r(1) o(1) x by (intro exI [of _ r]) simp
qed



section \<open>Battery supplies\<close>

lemma rdo_batt_max_empty:
  assumes "\<And>k. bit flags k \<Longrightarrow> 20 \<le> k \<and> k < 28"
  shows "RDO_BATT n op_mw max_mw flags AND 0x3FF = 0"
proof (rule bit_word_eqI)
  fix k assume "k < LENGTH(32)"
  have f: "bit (word_of_int (push_bit 10 x) :: u32) k \<Longrightarrow> 10 \<le> k" for x by (simp add: bit_simps)
  have "bit (RDO_OBJ_POS n) k \<Longrightarrow> 10 \<le> k" unfolding RDO_OBJ_POS_def bit_push_bit_iff by simp
  then have "bit (RDO_BATT n op_mw max_mw flags) k \<Longrightarrow> 10 \<le> k"
    using assms [of k] f [of "(op_mw sdiv 250) AND 0x3FF"] f [of "(max_mw sdiv 250) AND 0x3FF"]
    unfolding RDO_BATT_def bit_or_iff by linarith
  then show "bit (RDO_BATT n op_mw max_mw flags AND 0x3FF) k \<longleftrightarrow> bit (0 :: u32) k"
    by (auto simp: bit_and_iff mask_10 bit_mask_iff)
qed

lemma extract_battery:
  assumes "pd_limits cfg" "PD_MAX_POWER_MW cfg \<le> 250000" "pdo AND PDO_TYPE_MASK = PDO_TYPE_BATTERY"
    "pd_extract_pdo_power cfg pdo = (ma, mv)" "mv \<noteq> 0" "1 \<le> pdo_units pdo" "pdo_units pdo \<le> 8"
  shows "uint ma = min (1000 * PD_MAX_POWER_MW cfg div uint mv) (PD_MAX_CURRENT_MA cfg)"
proof -
  let ?p = "1000 * PD_MAX_POWER_MW cfg"
  have mv: "mv = (drop_bit 10 pdo AND 0x3FF) * 50" using assms(4) by (auto simp: pd_extract_pdo_power_def Let_def split: if_splits)
  have u: "uint (250000 * (pdo AND 0x3FF)) = 250000 * pdo_units pdo" using uint_mult_small [of 250000 "pdo AND 0x3FF"] assms(7) by simp
  have "s32 (1000 * (250000 * pdo_units pdo)) = 1000 * (250000 * pdo_units pdo)" using assms(6,7) by (intro s32_small) auto
  then have m: "min (s32 (1000 * uint (250000 * (pdo AND 0x3FF)))) (PD_MAX_POWER_MW cfg) = PD_MAX_POWER_MW cfg"
    unfolding u using assms(2,6) by simp
  have s: "s32 ?p = ?p" using assms(1) by (intro s32_small) (auto simp: pd_limits_def)
  let ?w = "word_of_int ?p div mv :: u32"
  have pos: "0 < uint mv" using assms(5) uint_nonnegative [of mv] by (metis order_le_imp_less_or_eq uint_0_iff)
  have "uint (word_of_int ?p :: u32) = ?p" using assms(1) by (intro uint_word_small) (auto simp: pd_limits_def)
  then have w: "uint ?w = ?p div uint mv" by (simp only: uint_div)
  have "0 \<le> ?p div uint mv" "?p div uint mv \<le> ?p"
    using pos assms(1) zdiv_mono2 [of ?p 1 "uint mv"] by (simp_all add: pos_imp_zdiv_nonneg_iff pd_limits_def)
  then have b: "0 \<le> uint ?w" "uint ?w \<le> 1000000000" using assms(1) unfolding w by (simp_all only: pd_limits_def) linarith
  have "ma = word_of_int (min (sint ?w) (PD_MAX_CURRENT_MA cfg))"
    using assms(3,4,5) mv m s by (auto simp: pd_extract_pdo_power_def Let_def)
  also have "sint ?w = uint ?w" using b(2) by (intro sint_of_small) linarith
  finally show ?thesis using b assms(1) unfolding w [symmetric]
    by (simp only:) (intro uint_word_small, auto simp: pd_limits_def)
qed


definition ex_battery_source :: pd_sink where
  "ex_battery_source = \<lparr>pd_src_caps = [PDO_BATT 4750 5250 250, 0, 0, 0, 0, 0, 0], pd_src_cap_cnt = 1, max_request_mv = 20000, pd_charge_calls = []\<rparr>"


text \<open>What the charge manager is told about new offers: the limit that a request could reach, under a ceiling of 500 mA.\<close>

theorem source_cap_announced:
  assumes "pd_charge_manager cfg" "length caps \<le> length (pd_src_caps st)"
  shows "take (length caps) (pd_src_caps (pd_process_source_cap cfg caps st)) = caps"
    "pd_src_cap_cnt (pd_process_source_cap cfg caps st) = length caps"
    "\<exists>ma mv. pd_charge_calls (pd_process_source_cap cfg caps st) = pd_charge_calls st @ [SetPdCeil 500, SetInputCurrentLimit ma mv]
       \<and> (max_request_mv st = word_of_int (PD_MAX_VOLTAGE_MV cfg) \<and> sint (max_request_mv st) = PD_MAX_VOLTAGE_MV cfg \<longrightarrow>
            snd (pd_build_request cfg PD_REQUEST_MAX (pd_process_source_cap cfg caps st)) = (ma, mv))"
  using assms by (auto simp: pd_process_source_cap_def pd_find_pdo_index_def pd_build_request_def write_at_def Let_def split: prod.splits option.splits)

end
