(* ===== verification/PD_Alt_Mode.thy ===== *)
theory PD_Alt_Mode
  imports PD_Power Util_Arith
begin

text \<open>
  Alternate modes: the part of common/usb_pd_policy.c that discovers the modes of a partner, enters
  and leaves them, and answers structured vendor defined messages, and the drivers of the board reef
  (board/reef/usb_pd_policy.c). A pointer into an array of the policy structure is an index into it.
  \<open>None\<close> is an access outside an array, a call through a null pointer, or a read through one whose
  value matters; the one read through a null pointer that the code makes all the time, of the
  identifier of a mode that is not allocated, yields a value that the configuration names.
\<close>

section \<open>Vendor defined messages\<close>

definition VDO :: "u16 \<Rightarrow> u32 \<Rightarrow> u32 \<Rightarrow> u32" where
  "VDO vid type custom = push_bit 16 (ucast vid) OR push_bit 15 type OR (custom AND 0x7FFF)"

definition VDO_OPOS :: "int \<Rightarrow> u32" where "VDO_OPOS x = push_bit 8 (word_of_int x)"
definition VDO_CMDT :: "nat \<Rightarrow> u32" where "VDO_CMDT x = push_bit 6 (word_of_nat x)"
definition VDO_SVDM_VERS :: "nat \<Rightarrow> u32" where "VDO_SVDM_VERS x = push_bit 13 (word_of_nat x)"
definition VDO_CMDT_MASK :: u32 where "VDO_CMDT_MASK = push_bit 6 3"

definition PD_VDO_VID :: "u32 \<Rightarrow> u16" where "PD_VDO_VID vdo = ucast (drop_bit 16 vdo)"
definition PD_VDO_OPOS :: "u32 \<Rightarrow> nat" where "PD_VDO_OPOS vdo = unat (drop_bit 8 vdo AND 7)"
definition PD_VDO_CMD :: "u32 \<Rightarrow> nat" where "PD_VDO_CMD vdo = unat (vdo AND 0x1f)"
definition PD_VDO_CMDT :: "u32 \<Rightarrow> nat" where "PD_VDO_CMDT vdo = unat (drop_bit 6 vdo AND 3)"
definition PD_VDO_SVDM :: "u32 \<Rightarrow> bool" where "PD_VDO_SVDM vdo = (drop_bit 15 vdo AND 1 \<noteq> 0)"
definition PD_VDO_SVID_SVID0 :: "u32 \<Rightarrow> u16" where "PD_VDO_SVID_SVID0 vdo = ucast (drop_bit 16 vdo)"
definition PD_VDO_SVID_SVID1 :: "u32 \<Rightarrow> u16" where "PD_VDO_SVID_SVID1 vdo = ucast (vdo AND 0xffff)"
definition VDO_SVID :: "u16 \<Rightarrow> u16 \<Rightarrow> u32" where "VDO_SVID svid0 svid1 = push_bit 16 (ucast svid0) OR ucast svid1"
definition PD_IDH_PTYPE :: "u32 \<Rightarrow> nat" where "PD_IDH_PTYPE vdo = unat (drop_bit 27 vdo AND 7)"
definition PD_IDH_VID :: "u32 \<Rightarrow> u16" where "PD_IDH_VID vdo = ucast (vdo AND 0xffff)"
definition PD_PRODUCT_PID :: "u32 \<Rightarrow> u16" where "PD_PRODUCT_PID vdo = ucast (drop_bit 16 vdo AND 0xffff)"
definition PD_VDO_AMA_VCONN_REQ :: "u32 \<Rightarrow> bool" where "PD_VDO_AMA_VCONN_REQ vdo = (drop_bit 4 vdo AND 1 \<noteq> 0)"
definition PD_VDO_AMA_VBUS_REQ :: "u32 \<Rightarrow> bool" where "PD_VDO_AMA_VBUS_REQ vdo = (drop_bit 3 vdo AND 1 \<noteq> 0)"

abbreviation (input) CMDT_INIT :: nat where "CMDT_INIT \<equiv> 0"
abbreviation (input) CMDT_RSP_ACK :: nat where "CMDT_RSP_ACK \<equiv> 1"
abbreviation (input) CMDT_RSP_NAK :: nat where "CMDT_RSP_NAK \<equiv> 2"
abbreviation (input) CMDT_RSP_BUSY :: nat where "CMDT_RSP_BUSY \<equiv> 3"
abbreviation (input) CMD_DISCOVER_IDENT :: nat where "CMD_DISCOVER_IDENT \<equiv> 1"
abbreviation (input) CMD_DISCOVER_SVID :: nat where "CMD_DISCOVER_SVID \<equiv> 2"
abbreviation (input) CMD_DISCOVER_MODES :: nat where "CMD_DISCOVER_MODES \<equiv> 3"
abbreviation (input) CMD_ENTER_MODE :: nat where "CMD_ENTER_MODE \<equiv> 4"
abbreviation (input) CMD_EXIT_MODE :: nat where "CMD_EXIT_MODE \<equiv> 5"
abbreviation (input) CMD_ATTENTION :: nat where "CMD_ATTENTION \<equiv> 6"
abbreviation (input) CMD_DP_STATUS :: nat where "CMD_DP_STATUS \<equiv> 16"
abbreviation (input) CMD_DP_CONFIG :: nat where "CMD_DP_CONFIG \<equiv> 17"
abbreviation (input) USB_SID_PD :: u16 where "USB_SID_PD \<equiv> 0xff00"
abbreviation (input) USB_SID_DISPLAYPORT :: u16 where "USB_SID_DISPLAYPORT \<equiv> 0xff01"
abbreviation (input) USB_VID_GOOGLE :: u16 where "USB_VID_GOOGLE \<equiv> 0x18d1"
abbreviation (input) IDH_PTYPE_AMA :: nat where "IDH_PTYPE_AMA \<equiv> 5"
abbreviation (input) SVID_DISCOVERY_MAX :: nat where "SVID_DISCOVERY_MAX \<equiv> 16"
abbreviation (input) PD_AMODE_COUNT :: nat where "PD_AMODE_COUNT \<equiv> 2"
abbreviation (input) PDO_MODES :: nat where "PDO_MODES \<equiv> 6"

section \<open>State\<close>

record svdm_svid_data =
  svid :: u16
  mode_cnt :: int
  mode_vdo :: "u32 list"

text \<open>\<open>am_fx\<close> is an index into the board's table of modes, \<open>am_data\<close> one into the identifiers.\<close>

record svdm_amode_data =
  am_fx :: "nat option"
  am_opos :: nat
  am_data :: "nat option"

record pd_policy =
  svid_idx :: nat
  svid_cnt :: nat
  identity :: "u32 list"
  svids :: "svdm_svid_data list"
  amodes :: "svdm_amode_data list"
  amode_idx :: nat

text \<open>
  The functions of a mode, over the state of the board's drivers; they see the policy structure, and
  \<open>status\<close>, \<open>config\<close> and \<open>attention\<close> write the message buffer.
\<close>

record 's amode_fx =
  fx_svid :: u16
  fx_enter :: "u32 \<Rightarrow> 's \<Rightarrow> int \<times> 's"
  fx_status :: "pd_policy \<Rightarrow> u32 list \<Rightarrow> 's \<Rightarrow> int \<times> u32 list \<times> 's"
  fx_config :: "pd_policy \<Rightarrow> u32 list \<Rightarrow> 's \<Rightarrow> (int \<times> u32 list \<times> 's) option"
  fx_post_config :: "('s \<Rightarrow> 's) option"
  fx_attention :: "(u32 list \<Rightarrow> 's \<Rightarrow> u32 list \<times> 's) option"
  fx_exit :: "'s \<Rightarrow> 's"

type_synonym 's responder = "u32 list \<Rightarrow> 's \<Rightarrow> int \<times> u32 list \<times> 's"

record 's svdm_response =
  rsp_identity :: "'s responder option"
  rsp_svids :: "'s responder option"
  rsp_modes :: "'s responder option"
  rsp_enter_mode :: "'s responder option"
  rsp_exit_mode :: "'s responder option"
  rsp_amode :: "('s responder option \<times> 's responder option) option"

record 's alt_cfg =
  supported_modes :: "'s amode_fx list"
  svdm_rsp :: "'s svdm_response"
  null_svid :: u16
  vdo_ver :: nat
  vconn_swap :: bool
  alt_charge_manager :: bool

datatype pol_call = TryVconnSrc | PowerSupplyReset | UpdateDualroleDedicated

record 's pol =
  pe :: pd_policy
  drv :: 's
  pol_calls :: "pol_call list"

definition empty_svid :: svdm_svid_data where
  "empty_svid = \<lparr>svid = 0, mode_cnt = 0, mode_vdo = replicate PDO_MODES 0\<rparr>"

definition empty_amode :: svdm_amode_data where
  "empty_amode = \<lparr>am_fx = None, am_opos = 0, am_data = None\<rparr>"

definition empty_policy :: pd_policy where
  "empty_policy = \<lparr>svid_idx = 0, svid_cnt = 0, identity = replicate 6 0, svids = replicate SVID_DISCOVERY_MAX empty_svid,
     amodes = replicate PD_AMODE_COUNT empty_amode, amode_idx = 0\<rparr>"

section \<open>Discovery\<close>

definition pd_dfp_pe_init :: "'s pol \<Rightarrow> 's pol" where
  "pd_dfp_pe_init st = st\<lparr>pe := empty_policy\<rparr>"

definition dfp_consume_identity :: "'s alt_cfg \<Rightarrow> nat \<Rightarrow> u32 list \<Rightarrow> 's pol \<Rightarrow> 's pol" where
  "dfp_consume_identity cfg cnt payload st =
     (let ptype = PD_IDH_PTYPE (payload ! 1);
          identity_words = min 6 (cnt - 1);
          st = pd_dfp_pe_init st;
          st = st\<lparr>pe := (pe st)\<lparr>identity := write_at (identity (pe st)) 0 (read_at payload 1 identity_words)\<rparr>\<rparr>
      in if ptype = IDH_PTYPE_AMA \<and> vconn_swap cfg
         then let ama = payload ! 4;
                  cs = (if PD_VDO_AMA_VCONN_REQ ama then [TryVconnSrc] else []) @
                       (if PD_VDO_AMA_VCONN_REQ ama \<and> \<not> PD_VDO_AMA_VBUS_REQ ama then [PowerSupplyReset] else [])
              in st\<lparr>pol_calls := pol_calls st @ cs\<rparr>
         else st)"

definition dfp_discover_svids :: "u32 list \<Rightarrow> int \<times> u32 list" where
  "dfp_discover_svids payload = (1, payload[0 := VDO USB_SID_PD 1 (word_of_nat CMD_DISCOVER_SVID)])"

definition set_svid :: "nat \<Rightarrow> u16 \<Rightarrow> pd_policy \<Rightarrow> pd_policy option" where
  "set_svid i s p =
     (if i < SVID_DISCOVERY_MAX
      then Some (p\<lparr>svids := (svids p)[i := (svids p ! i)\<lparr>svid := s\<rparr>], svid_cnt := svid_cnt p + 1\<rparr>)
      else None)"

text \<open>The words after the header that are part of the message are the list that the loop consumes.\<close>

fun svid_loop :: "nat \<Rightarrow> u32 list \<Rightarrow> pd_policy \<Rightarrow> pd_policy option" where
  "svid_loop i vdos p =
     (if \<not> i < svid_cnt p + 12 then Some p
      else if i = SVID_DISCOVERY_MAX then Some p
      else case vdos of
             [] \<Rightarrow> Some p
           | vdo # rest \<Rightarrow>
               let svid0 = PD_VDO_SVID_SVID0 vdo; svid1 = PD_VDO_SVID_SVID1 vdo
               in if svid0 = 0 then Some p
                  else case set_svid i svid0 p of
                         None \<Rightarrow> None
                       | Some p \<Rightarrow>
                           if svid1 = 0 then Some p
                           else case set_svid (i + 1) svid1 p of
                                  None \<Rightarrow> None
                                | Some p \<Rightarrow> svid_loop (i + 2) rest p)"

declare svid_loop.simps [simp del]

definition dfp_consume_svids :: "nat \<Rightarrow> u32 list \<Rightarrow> pd_policy \<Rightarrow> pd_policy option" where
  "dfp_consume_svids cnt payload p = svid_loop (svid_cnt p) (read_at payload 1 (cnt - 1)) p"

definition dfp_discover_modes :: "u32 list \<Rightarrow> pd_policy \<Rightarrow> int \<times> u32 list" where
  "dfp_discover_modes payload p =
     (if svid_idx p \<ge> svid_cnt p then (0, payload)
      else (1, payload[0 := VDO (svid (svids p ! svid_idx p)) 1 (word_of_nat CMD_DISCOVER_MODES)]))"

definition dfp_consume_modes :: "nat \<Rightarrow> u32 list \<Rightarrow> pd_policy \<Rightarrow> pd_policy option" where
  "dfp_consume_modes cnt payload p =
     (let idx = svid_idx p
      in if idx \<ge> SVID_DISCOVERY_MAX \<or> cnt - 1 > PDO_MODES then None
         else let d = (svids p ! idx)\<lparr>mode_cnt := int cnt - 1\<rparr>;
                  d = (if mode_cnt d < 0 then d
                       else d\<lparr>mode_vdo := write_at (mode_vdo d) 0 (read_at payload 1 (nat (mode_cnt d)))\<rparr>)
              in Some (p\<lparr>svids := (svids p)[idx := d], svid_idx := idx + 1\<rparr>))"

section \<open>Entering and leaving modes\<close>

abbreviation mode_svids :: "'s alt_cfg \<Rightarrow> u16 list" where
  "mode_svids cfg \<equiv> map fx_svid (supported_modes cfg)"

text \<open>\<open>tbl\<close> holds the identifiers of the supported modes, \<open>null\<close> is what a read through a null pointer yields.\<close>

definition amode_svid :: "u16 \<Rightarrow> u16 list \<Rightarrow> svdm_amode_data \<Rightarrow> u16" where
  "amode_svid null tbl m = (case am_fx m of None \<Rightarrow> null | Some f \<Rightarrow> tbl ! f)"

definition get_mode_idx :: "u16 \<Rightarrow> u16 list \<Rightarrow> u16 \<Rightarrow> pd_policy \<Rightarrow> nat option" where
  "get_mode_idx null tbl s p = find (\<lambda>i. amode_svid null tbl (amodes p ! i) = s) [0..<PD_AMODE_COUNT]"

definition pd_alt_mode :: "u16 \<Rightarrow> u16 list \<Rightarrow> u16 \<Rightarrow> pd_policy \<Rightarrow> int" where
  "pd_alt_mode null tbl s p = (case get_mode_idx null tbl s p of None \<Rightarrow> - 1 | Some i \<Rightarrow> int (am_opos (amodes p ! i)))"

definition allocate_mode :: "'s alt_cfg \<Rightarrow> u16 \<Rightarrow> pd_policy \<Rightarrow> nat option \<times> pd_policy" where
  "allocate_mode cfg s p =
     (case get_mode_idx (null_svid cfg) (mode_svids cfg) s p of
        Some i \<Rightarrow> (Some i, p)
      | None \<Rightarrow>
          if amode_idx p = PD_AMODE_COUNT then (None, p)
          else case find (\<lambda>(i, j). let d = svid (svids p ! j)
                            in \<not> (d \<noteq> fx_svid (supported_modes cfg ! i) \<or> (s \<noteq> 0 \<and> d \<noteq> s)))
                     (List.product [0..<length (supported_modes cfg)] [0..<svid_cnt p]) of
                 None \<Rightarrow> (None, p)
               | Some (i, j) \<Rightarrow>
                   (Some (amode_idx p),
                    p\<lparr>amodes := (amodes p)[amode_idx p := (amodes p ! amode_idx p)\<lparr>am_fx := Some i, am_data := Some j\<rparr>],
                      amode_idx := amode_idx p + 1\<rparr>))"

definition set_opos :: "nat \<Rightarrow> nat \<Rightarrow> 's pol \<Rightarrow> 's pol" where
  "set_opos i pos st = st\<lparr>pe := (pe st)\<lparr>amodes := (amodes (pe st))[i := (amodes (pe st) ! i)\<lparr>am_opos := pos\<rparr>]\<rparr>\<rparr>"

definition pd_dfp_enter_mode :: "'s alt_cfg \<Rightarrow> u16 \<Rightarrow> nat \<Rightarrow> 's pol \<Rightarrow> (u32 \<times> 's pol) option" where
  "pd_dfp_enter_mode cfg s opos st =
     (case allocate_mode cfg s (pe st) of
        (None, p) \<Rightarrow> Some (0, st\<lparr>pe := p\<rparr>)
      | (Some mode_idx, p) \<Rightarrow>
          let st = st\<lparr>pe := p\<rparr>; modep = amodes p ! mode_idx
          in case (am_fx modep, am_data modep) of
               (Some f, Some j) \<Rightarrow>
                 let d = svids p ! j
                 in if opos \<noteq> 0 \<and> \<not> int opos \<le> mode_cnt d then Some (0, st)
                    else let pos = (if opos = 0 then 1 else opos);
                             st = set_opos mode_idx pos st;
                             fx = supported_modes cfg ! f;
                             mode_caps = mode_vdo d ! (pos - 1);
                             (r, drv') = fx_enter fx mode_caps (drv st);
                             st = st\<lparr>drv := drv'\<rparr>
                         in if r = - 1 then Some (0, st)
                            else Some (VDO (fx_svid fx) 1 (word_of_nat CMD_ENTER_MODE OR VDO_OPOS (int pos)), st)
             | _ \<Rightarrow> None)"

definition validate_mode_request :: "'s alt_cfg \<Rightarrow> svdm_amode_data \<Rightarrow> u16 \<Rightarrow> nat \<Rightarrow> bool" where
  "validate_mode_request cfg modep s opos =
     (case am_fx modep of None \<Rightarrow> False | Some f \<Rightarrow> s = fx_svid (supported_modes cfg ! f) \<and> opos = am_opos modep)"

definition dfp_consume_attention :: "'s alt_cfg \<Rightarrow> u32 list \<Rightarrow> 's pol \<Rightarrow> u32 list \<times> 's pol" where
  "dfp_consume_attention cfg payload st =
     (let s = PD_VDO_VID (payload ! 0); opos = PD_VDO_OPOS (payload ! 0)
      in case get_mode_idx (null_svid cfg) (mode_svids cfg) s (pe st) of
           None \<Rightarrow> (payload, st)
         | Some i \<Rightarrow>
             let modep = amodes (pe st) ! i
             in if \<not> validate_mode_request cfg modep s opos then (payload, st)
                else case fx_attention (supported_modes cfg ! the (am_fx modep)) of
                       None \<Rightarrow> (payload, st)
                     | Some att \<Rightarrow> let (payload, d) = att payload (drv st) in (payload, st\<lparr>drv := d\<rparr>))"

definition PD_DP_PIN_CAPS :: "u32 \<Rightarrow> u32" where
  "PD_DP_PIN_CAPS x = (if drop_bit 6 x AND 1 \<noteq> 0 then drop_bit 16 x AND 0x3f else drop_bit 8 x AND 0x3f)"

definition PD_VDO_DPSTS_MF_PREF :: "u32 \<Rightarrow> bool" where
  "PD_VDO_DPSTS_MF_PREF x = (drop_bit 4 x AND 1 \<noteq> 0)"

definition pin_of_caps :: "u32 \<Rightarrow> u32 \<Rightarrow> u32" where
  "pin_of_caps mode_caps status =
     (let pin_caps = PD_DP_PIN_CAPS mode_caps;
          pin_caps = (if \<not> PD_VDO_DPSTS_MF_PREF status then pin_caps AND NOT 0x2a else pin_caps);
          pin_caps = pin_caps AND NOT 0x3;
          pin_caps = (if pin_caps AND (0x04 OR 0x08) \<noteq> 0 then pin_caps AND NOT (0x10 OR 0x20) else pin_caps)
      in if pin_caps = 0 then 0 else push_bit (fst (get_next_bit pin_caps)) 1)"

definition pd_dfp_dp_get_pin_mode :: "u16 \<Rightarrow> u16 list \<Rightarrow> u32 \<Rightarrow> pd_policy \<Rightarrow> u32 option" where
  "pd_dfp_dp_get_pin_mode null tbl status p =
     (case get_mode_idx null tbl USB_SID_DISPLAYPORT p of
        None \<Rightarrow> Some 0
      | Some i \<Rightarrow>
          (case (am_data (amodes p ! i), am_opos (amodes p ! i)) of
             (Some j, Suc k) \<Rightarrow> Some (pin_of_caps (mode_vdo (svids p ! j) ! k) status)
           | _ \<Rightarrow> None))"

definition pd_dfp_exit_mode :: "'s alt_cfg \<Rightarrow> u16 \<Rightarrow> nat \<Rightarrow> 's pol \<Rightarrow> int \<times> 's pol" where
  "pd_dfp_exit_mode cfg s opos st =
     (if s = 0
      then (0, pd_dfp_pe_init (st\<lparr>drv := fold (\<lambda>m d. case am_fx m of None \<Rightarrow> d | Some f \<Rightarrow> fx_exit (supported_modes cfg ! f) d)
                                        (amodes (pe st)) (drv st)\<rparr>))
      else case get_mode_idx (null_svid cfg) (mode_svids cfg) s (pe st) of
             None \<Rightarrow> (0, st)
           | Some i \<Rightarrow>
               let modep = amodes (pe st) ! i
               in if \<not> validate_mode_request cfg modep s opos then (0, st)
                  else let st = st\<lparr>drv := fx_exit (supported_modes cfg ! the (am_fx modep)) (drv st)\<rparr>
                       in (1, set_opos i 0 st))"

definition pd_get_identity_vid :: "pd_policy \<Rightarrow> u16" where
  "pd_get_identity_vid p = PD_IDH_VID (identity p ! 0)"

definition pd_get_identity_pid :: "pd_policy \<Rightarrow> u16" where
  "pd_get_identity_pid p = PD_PRODUCT_PID (identity p ! 2)"

section \<open>Structured messages\<close>

text \<open>The function that answers a command; a null table of mode functions makes the outer result \<open>None\<close>.\<close>

definition svdm_responder :: "'s alt_cfg \<Rightarrow> nat \<Rightarrow> 's responder option option" where
  "svdm_responder cfg cmd =
     (let rsp = svdm_rsp cfg
      in if cmd = CMD_DISCOVER_IDENT then Some (rsp_identity rsp)
         else if cmd = CMD_DISCOVER_SVID then Some (rsp_svids rsp)
         else if cmd = CMD_DISCOVER_MODES then Some (rsp_modes rsp)
         else if cmd = CMD_ENTER_MODE then Some (rsp_enter_mode rsp)
         else if cmd = CMD_DP_STATUS then map_option fst (rsp_amode rsp)
         else if cmd = CMD_DP_CONFIG then map_option snd (rsp_amode rsp)
         else if cmd = CMD_EXIT_MODE then Some (rsp_exit_mode rsp)
         else Some None)"

definition or_hdr :: "u32 \<Rightarrow> u32 list \<Rightarrow> u32 list" where
  "or_hdr x payload = payload[0 := payload ! 0 OR x]"

definition svdm_init :: "'s alt_cfg \<Rightarrow> nat \<Rightarrow> u32 list \<Rightarrow> 's pol \<Rightarrow> (int \<times> u32 list \<times> 's pol) option" where
  "svdm_init cfg cmd payload st =
     (if cmd = CMD_ATTENTION
      then let (payload, st) = dfp_consume_attention cfg payload st in Some (0, payload, st)
      else case svdm_responder cfg cmd of
             None \<Rightarrow> None
           | Some func \<Rightarrow>
               let (rsize, payload, d) = (case func of Some g \<Rightarrow> g payload (drv st) | None \<Rightarrow> (0, payload, drv st));
                   st = st\<lparr>drv := d\<rparr>;
                   (rsize, payload) =
                     (if rsize \<ge> 1 then (rsize, or_hdr (VDO_CMDT CMDT_RSP_ACK) payload)
                      else if rsize = 0 then (1, or_hdr (VDO_CMDT CMDT_RSP_NAK) payload)
                      else (1, or_hdr (VDO_CMDT CMDT_RSP_BUSY) payload))
               in Some (rsize, or_hdr (VDO_SVDM_VERS (vdo_ver cfg)) payload, st))"

definition ack_identity :: "'s alt_cfg \<Rightarrow> nat \<Rightarrow> u32 list \<Rightarrow> 's pol \<Rightarrow> int \<times> u32 list \<times> 's pol" where
  "ack_identity cfg cnt payload st =
     (let st = dfp_consume_identity cfg cnt payload st;
          (rsize, payload) = dfp_discover_svids payload;
          st = (if alt_charge_manager cfg \<and> pd_charge_from_device (pd_get_identity_vid (pe st)) (pd_get_identity_pid (pe st))
                then st\<lparr>pol_calls := pol_calls st @ [UpdateDualroleDedicated]\<rparr> else st)
      in (rsize, payload, st))"

definition ack_svids :: "nat \<Rightarrow> u32 list \<Rightarrow> 's pol \<Rightarrow> (int \<times> u32 list \<times> 's pol) option" where
  "ack_svids cnt payload st =
     (case dfp_consume_svids cnt payload (pe st) of
        None \<Rightarrow> None
      | Some p \<Rightarrow> let (rsize, payload) = dfp_discover_modes payload p in Some (rsize, payload, st\<lparr>pe := p\<rparr>))"

definition ack_modes :: "'s alt_cfg \<Rightarrow> nat \<Rightarrow> u32 list \<Rightarrow> 's pol \<Rightarrow> (int \<times> u32 list \<times> 's pol) option" where
  "ack_modes cfg cnt payload st =
     (case dfp_consume_modes cnt payload (pe st) of
        None \<Rightarrow> None
      | Some p \<Rightarrow>
          let (rsize, payload) = dfp_discover_modes payload p; st = st\<lparr>pe := p\<rparr>
          in if rsize \<noteq> 0 then Some (rsize, payload, st)
             else case pd_dfp_enter_mode cfg 0 0 st of
                    None \<Rightarrow> None
                  | Some (vdo, st) \<Rightarrow> Some (if vdo \<noteq> 0 then 1 else rsize, payload[0 := vdo], st))"

definition ack_enter :: "'s alt_cfg \<Rightarrow> nat option \<Rightarrow> u32 list \<Rightarrow> 's pol \<Rightarrow> (int \<times> u32 list \<times> 's pol) option" where
  "ack_enter cfg modep payload st =
     (case modep of
        None \<Rightarrow> Some (0, payload, st)
      | Some i \<Rightarrow>
          (case (if am_opos (amodes (pe st) ! i) = 0 then map_option snd (pd_dfp_enter_mode cfg 0 0 st) else Some st) of
             None \<Rightarrow> None
           | Some st \<Rightarrow>
               let m = amodes (pe st) ! i
               in if am_opos m = 0 then Some (1, payload, st)
                  else case am_fx m of
                         None \<Rightarrow> None
                       | Some f \<Rightarrow>
                           let (rsize, payload, d) = fx_status (supported_modes cfg ! f) (pe st) payload (drv st)
                           in Some (rsize, or_hdr (word_of_nat (PD_VDO_OPOS (word_of_nat (am_opos m)))) payload, st\<lparr>drv := d\<rparr>)))"

definition ack_dp_status :: "'s alt_cfg \<Rightarrow> nat option \<Rightarrow> u32 list \<Rightarrow> 's pol \<Rightarrow> (int \<times> u32 list \<times> 's pol) option" where
  "ack_dp_status cfg modep payload st =
     (let (payload, st) = dfp_consume_attention cfg payload st
      in case modep of
           None \<Rightarrow> Some (0, payload, st)
         | Some i \<Rightarrow>
             let m = amodes (pe st) ! i
             in if am_opos m = 0 then Some (0, payload, st)
                else case am_fx m of
                       None \<Rightarrow> None
                     | Some f \<Rightarrow> map_option (\<lambda>(rsize, payload, d). (rsize, payload, st\<lparr>drv := d\<rparr>))
                                   (fx_config (supported_modes cfg ! f) (pe st) payload (drv st)))"

definition ack_dp_config :: "'s alt_cfg \<Rightarrow> nat option \<Rightarrow> u32 list \<Rightarrow> 's pol \<Rightarrow> (int \<times> u32 list \<times> 's pol) option" where
  "ack_dp_config cfg modep payload st =
     (case modep of
        None \<Rightarrow> Some (0, payload, st)
      | Some i \<Rightarrow>
          let m = amodes (pe st) ! i
          in if am_opos m = 0 then Some (0, payload, st)
             else case am_fx m of
                    None \<Rightarrow> None
                  | Some f \<Rightarrow>
                      (case fx_post_config (supported_modes cfg ! f) of
                         None \<Rightarrow> Some (0, payload, st)
                       | Some pc \<Rightarrow> Some (0, payload, st\<lparr>drv := pc (drv st)\<rparr>)))"

definition svdm_ack :: "'s alt_cfg \<Rightarrow> nat \<Rightarrow> nat \<Rightarrow> u32 list \<Rightarrow> 's pol \<Rightarrow> (int \<times> u32 list \<times> 's pol) option" where
  "svdm_ack cfg cmd cnt payload st =
     (let modep = get_mode_idx (null_svid cfg) (mode_svids cfg) (PD_VDO_VID (payload ! 0)) (pe st);
          r = (if cmd = CMD_DISCOVER_IDENT then Some (ack_identity cfg cnt payload st)
               else if cmd = CMD_DISCOVER_SVID then ack_svids cnt payload st
               else if cmd = CMD_DISCOVER_MODES then ack_modes cfg cnt payload st
               else if cmd = CMD_ENTER_MODE then ack_enter cfg modep payload st
               else if cmd = CMD_DP_STATUS then ack_dp_status cfg modep payload st
               else if cmd = CMD_DP_CONFIG then ack_dp_config cfg modep payload st
               else Some (0, payload, st))
      in map_option (\<lambda>(rsize, payload, st).
           (rsize, or_hdr (VDO_SVDM_VERS (vdo_ver cfg)) (or_hdr (VDO_CMDT CMDT_INIT) payload), st)) r)"

definition pd_svdm :: "'s alt_cfg \<Rightarrow> nat \<Rightarrow> u32 list \<Rightarrow> 's pol \<Rightarrow> (int \<times> u32 list \<times> 's pol) option" where
  "pd_svdm cfg cnt payload st =
     (let cmd = PD_VDO_CMD (payload ! 0); cmd_type = PD_VDO_CMDT (payload ! 0);
          payload = payload[0 := payload ! 0 AND NOT VDO_CMDT_MASK]
      in if cmd_type = CMDT_INIT then svdm_init cfg cmd payload st
         else if cmd_type = CMDT_RSP_ACK then svdm_ack cfg cmd cnt payload st
         else if cmd_type = CMDT_RSP_BUSY
         then Some (if cmd \<in> {CMD_DISCOVER_IDENT, CMD_DISCOVER_SVID, CMD_DISCOVER_MODES} then 1 else 0, payload, st)
         else Some (0, payload, st))"

section \<open>What the host can ask\<close>

text \<open>The product identifier is left out of the answer (the buffer keeps what it held) when there is no vendor.\<close>

definition hc_remote_pd_discovery :: "pd_policy \<Rightarrow> u16 \<times> nat \<times> u16 option" where
  "hc_remote_pd_discovery p =
     (let vid = pd_get_identity_vid p
      in (vid, PD_IDH_PTYPE (identity p ! 0), if vid \<noteq> 0 then Some (PD_PRODUCT_PID (identity p ! 2)) else None))"

definition hc_remote_pd_get_amode :: "'s alt_cfg \<Rightarrow> nat \<Rightarrow> pd_policy \<Rightarrow> u16 \<times> (int \<times> u32 list) option" where
  "hc_remote_pd_get_amode cfg idx p =
     (if idx \<ge> svid_cnt p then (0, None)
      else let s = svid (svids p ! idx);
               opos = (case get_mode_idx (null_svid cfg) (mode_svids cfg) s p of
                         None \<Rightarrow> 0
                       | Some i \<Rightarrow> pd_alt_mode (null_svid cfg) (mode_svids cfg) s p)
           in (s, Some (opos, mode_vdo (svids p ! idx))))"

section \<open>The drivers of reef\<close>

datatype typec_mux = TYPEC_MUX_NONE | TYPEC_MUX_USB | TYPEC_MUX_DP | TYPEC_MUX_DOCK

datatype reef_call = MuxSet typec_mux | HpdUpdate bool bool | SendReadInfo

record reef =
  dp_on :: bool
  hpd_hi_pending :: bool
  dp_status :: u32
  reef_calls :: "reef_call list"

definition reef_do :: "reef_call \<Rightarrow> reef \<Rightarrow> reef" where
  "reef_do c d = d\<lparr>reef_calls := reef_calls d @ [c]\<rparr>"

definition svdm_safe_dp_mode :: "reef \<Rightarrow> reef" where
  "svdm_safe_dp_mode d = reef_do (MuxSet TYPEC_MUX_NONE) (d\<lparr>dp_on := False, hpd_hi_pending := False, dp_status := 0\<rparr>)"

definition svdm_enter_dp_mode :: "u32 \<Rightarrow> reef \<Rightarrow> int \<times> reef" where
  "svdm_enter_dp_mode mode_caps d = (if mode_caps AND 1 \<noteq> 0 then (0, svdm_safe_dp_mode d) else (- 1, d))"

definition reef_svids :: "u16 list" where
  "reef_svids = [USB_SID_DISPLAYPORT, USB_VID_GOOGLE]"

definition svdm_dp_status :: "u16 \<Rightarrow> pd_policy \<Rightarrow> u32 list \<Rightarrow> reef \<Rightarrow> int \<times> u32 list \<times> reef" where
  "svdm_dp_status null p payload d =
     (let opos = pd_alt_mode null reef_svids USB_SID_DISPLAYPORT p; on = (if dp_on d then 1 else 0)
      in (2, payload[0 := VDO USB_SID_DISPLAYPORT 1 (word_of_nat CMD_DP_STATUS OR VDO_OPOS opos), 1 := push_bit 3 on OR on], d))"

definition svdm_dp_config :: "u16 \<Rightarrow> pd_policy \<Rightarrow> u32 list \<Rightarrow> reef \<Rightarrow> (int \<times> u32 list \<times> reef) option" where
  "svdm_dp_config null p payload d =
     (let opos = pd_alt_mode null reef_svids USB_SID_DISPLAYPORT p; mf_pref = PD_VDO_DPSTS_MF_PREF (dp_status d)
      in case pd_dfp_dp_get_pin_mode null reef_svids (dp_status d) p of
           None \<Rightarrow> None
         | Some pin_mode \<Rightarrow>
             if pin_mode = 0 then Some (0, payload, d)
             else Some (2, payload[0 := VDO USB_SID_DISPLAYPORT 1 (word_of_nat CMD_DP_CONFIG OR VDO_OPOS opos),
                                   1 := push_bit 8 (pin_mode AND 0xff) OR push_bit 2 1 OR 2],
                        reef_do (MuxSet (if mf_pref then TYPEC_MUX_DOCK else TYPEC_MUX_DP)) d))"

definition svdm_dp_post_config :: "reef \<Rightarrow> reef" where
  "svdm_dp_post_config d =
     (let d = d\<lparr>dp_on := True\<rparr> in if \<not> hpd_hi_pending d then d else reef_do (HpdUpdate True False) d)"

definition svdm_dp_attention :: "u32 list \<Rightarrow> reef \<Rightarrow> u32 list \<times> reef" where
  "svdm_dp_attention payload d =
     (let lvl = (drop_bit 7 (payload ! 1) AND 1 \<noteq> 0); irq = (drop_bit 8 (payload ! 1) AND 1 \<noteq> 0);
          d = d\<lparr>dp_status := payload ! 1\<rparr>
      in if \<not> dp_on d then (payload, if lvl then d\<lparr>hpd_hi_pending := True\<rparr> else d)
         else (payload, reef_do (HpdUpdate lvl irq) d))"

definition svdm_exit_dp_mode :: "reef \<Rightarrow> reef" where
  "svdm_exit_dp_mode d = reef_do (HpdUpdate False False) (svdm_safe_dp_mode d)"

definition svdm_enter_gfu_mode :: "u32 \<Rightarrow> reef \<Rightarrow> int \<times> reef" where
  "svdm_enter_gfu_mode mode_caps d = (0, d)"

definition svdm_exit_gfu_mode :: "reef \<Rightarrow> reef" where
  "svdm_exit_gfu_mode d = d"

definition svdm_gfu_status :: "pd_policy \<Rightarrow> u32 list \<Rightarrow> reef \<Rightarrow> int \<times> u32 list \<times> reef" where
  "svdm_gfu_status p payload d = (0, payload, reef_do SendReadInfo d)"

definition svdm_gfu_config :: "pd_policy \<Rightarrow> u32 list \<Rightarrow> reef \<Rightarrow> (int \<times> u32 list \<times> reef) option" where
  "svdm_gfu_config p payload d = Some (0, payload, d)"

definition svdm_gfu_attention :: "u32 list \<Rightarrow> reef \<Rightarrow> u32 list \<times> reef" where
  "svdm_gfu_attention payload d = (payload, d)"

definition reef_modes :: "u16 \<Rightarrow> reef amode_fx list" where
  "reef_modes null =
     [\<lparr>fx_svid = USB_SID_DISPLAYPORT, fx_enter = svdm_enter_dp_mode, fx_status = svdm_dp_status null, fx_config = svdm_dp_config null,
       fx_post_config = Some svdm_dp_post_config, fx_attention = Some svdm_dp_attention, fx_exit = svdm_exit_dp_mode\<rparr>,
      \<lparr>fx_svid = USB_VID_GOOGLE, fx_enter = svdm_enter_gfu_mode, fx_status = svdm_gfu_status, fx_config = svdm_gfu_config,
       fx_post_config = None, fx_attention = Some svdm_gfu_attention, fx_exit = svdm_exit_gfu_mode\<rparr>]"

definition reef_cfg :: "u16 \<Rightarrow> reef alt_cfg" where
  "reef_cfg null = \<lparr>supported_modes = reef_modes null,
     svdm_rsp = \<lparr>rsp_identity = None, rsp_svids = None, rsp_modes = None, rsp_enter_mode = None, rsp_exit_mode = None, rsp_amode = None\<rparr>,
     null_svid = null, vdo_ver = 0, vconn_swap = True, alt_charge_manager = True\<rparr>"

end
