(* ===== verification/PD_Alt_Safety.thy ===== *)
theory PD_Alt_Safety
  imports PD_Alt_Mode
begin

text \<open>
  Alternate modes: well-formed policy structures, and that structured messages keep them so when the
  partner answers what it was asked. The laws that the board's drivers have to respect are a locale,
  interpreted on the drivers of reef. Then what a partner that speaks out of turn can do.
\<close>

section \<open>Well-formed policies\<close>

definition amode_ok :: "u16 list \<Rightarrow> pd_policy \<Rightarrow> svdm_amode_data \<Rightarrow> bool" where
  "amode_ok tbl p m \<longleftrightarrow> (case (am_fx m, am_data m) of
       (Some f, Some j) \<Rightarrow> f < length tbl \<and> j < svid_cnt p \<and> svid (svids p ! j) = tbl ! f \<and> am_opos m \<le> 6
     | _ \<Rightarrow> False)"

definition svid_ok :: "svdm_svid_data \<Rightarrow> bool" where
  "svid_ok d \<longleftrightarrow> length (mode_vdo d) = 6 \<and> 0 \<le> mode_cnt d \<and> mode_cnt d \<le> 6"

definition policy_ok :: "u16 list \<Rightarrow> pd_policy \<Rightarrow> bool" where
  "policy_ok tbl p \<longleftrightarrow> svid_idx p \<le> svid_cnt p \<and> svid_cnt p \<le> 16 \<and> length (identity p) = 6
     \<and> length (svids p) = 16 \<and> (\<forall>d \<in> set (svids p). svid_ok d)
     \<and> length (amodes p) = 2 \<and> amode_idx p \<le> 2
     \<and> (\<forall>i < 2. if i < amode_idx p then amode_ok tbl p (amodes p ! i) else amodes p ! i = empty_amode)"

lemma policy_ok_empty: "policy_ok tbl empty_policy"
  by (auto simp: policy_ok_def empty_policy_def svid_ok_def empty_svid_def less_2_cases_iff)

lemma policy_ok_mode: "policy_ok tbl p \<Longrightarrow> i < 2 \<Longrightarrow> am_fx (amodes p ! i) = Some f \<Longrightarrow> i < amode_idx p \<and> amode_ok tbl p (amodes p ! i)"
  by (cases "i < amode_idx p") (auto simp: policy_ok_def empty_amode_def)

lemma policy_ok_entered: "policy_ok tbl p \<Longrightarrow> i < 2 \<Longrightarrow> am_opos (amodes p ! i) \<noteq> 0 \<Longrightarrow> i < amode_idx p \<and> amode_ok tbl p (amodes p ! i)"
  by (cases "i < amode_idx p") (auto simp: policy_ok_def empty_amode_def)

lemma get_mode_idx_Some:
  assumes "get_mode_idx null tbl s p = Some i"
  shows "i < 2" "amode_svid null tbl (amodes p ! i) = s" "\<forall>j < i. amode_svid null tbl (amodes p ! j) \<noteq> s"
  using assms by (auto simp: get_mode_idx_def find_Some_iff)

section \<open>Discovery keeps the structure\<close>

lemma set_svid_ok:
  assumes "policy_ok tbl p" "svid_cnt p < 16"
  shows "\<exists>p'. set_svid (svid_cnt p) s p = Some p' \<and> policy_ok tbl p' \<and> svid_cnt p' = Suc (svid_cnt p) \<and> svid_idx p' = svid_idx p
     \<and> (\<forall>j < svid_cnt p. svid (svids p' ! j) = svid (svids p ! j)) \<and> svid (svids p' ! svid_cnt p) = s"
proof -
  let ?p = "p\<lparr>svids := (svids p)[svid_cnt p := (svids p ! svid_cnt p)\<lparr>svid := s\<rparr>], svid_cnt := svid_cnt p + 1\<rparr>"
  have "\<forall>d \<in> set (svids ?p). svid_ok d"
    using assms by (auto simp: policy_ok_def svid_ok_def dest!: set_update_subset_insert [THEN subsetD])
  moreover have "amode_ok tbl p m \<Longrightarrow> amode_ok tbl ?p m" for m
    using assms(1) by (auto simp: amode_ok_def policy_ok_def split: option.splits)
  ultimately have "policy_ok tbl ?p" using assms by (simp add: policy_ok_def)
  moreover have "length (svids p) = 16" using assms(1) by (simp add: policy_ok_def)
  ultimately show ?thesis using assms(2) by (simp add: set_svid_def)
qed

text \<open>The identifiers in a list of words: both halves of each, up to the first zero.\<close>

fun svids_of :: "u32 list \<Rightarrow> u16 list" where
  "svids_of [] = []"
| "svids_of (v # vs) =
     (if PD_VDO_SVID_SVID0 v = 0 then []
      else if PD_VDO_SVID_SVID1 v = 0 then [PD_VDO_SVID_SVID0 v]
      else PD_VDO_SVID_SVID0 v # PD_VDO_SVID_SVID1 v # svids_of vs)"

lemma svid_loop_ok:
  assumes "policy_ok tbl p" "even (svid_cnt p)"
  shows "\<exists>p'. svid_loop (svid_cnt p) vdos p = Some p' \<and> policy_ok tbl p' \<and> svid_idx p' = svid_idx p
     \<and> svid_cnt p' = svid_cnt p + length (take (16 - svid_cnt p) (svids_of vdos))
     \<and> (\<forall>j < svid_cnt p. svid (svids p' ! j) = svid (svids p ! j))
     \<and> (\<forall>j < length (take (16 - svid_cnt p) (svids_of vdos)). svid (svids p' ! (svid_cnt p + j)) = svids_of vdos ! j)"
  using assms
proof (induction vdos arbitrary: p)
  case Nil
  then show ?case by (simp add: svid_loop.simps)
next
  case (Cons v vs)
  show ?case
  proof (cases "svid_cnt p = 16 \<or> PD_VDO_SVID_SVID0 v = 0")
    case True
    then show ?thesis using Cons.prems by (auto simp: svid_loop.simps [of "svid_cnt p"])
  next
    case False
    then have lt: "svid_cnt p < 16" and s0: "PD_VDO_SVID_SVID0 v \<noteq> 0" using Cons.prems(1) by (auto simp: policy_ok_def)
    then have lt2: "Suc (svid_cnt p) < 16" using Cons.prems(2) by presburger
    obtain p1 where p1: "set_svid (svid_cnt p) (PD_VDO_SVID_SVID0 v) p = Some p1" "policy_ok tbl p1" "svid_cnt p1 = Suc (svid_cnt p)"
        "svid_idx p1 = svid_idx p" "\<forall>j < svid_cnt p. svid (svids p1 ! j) = svid (svids p ! j)" "svid (svids p1 ! svid_cnt p) = PD_VDO_SVID_SVID0 v"
      using set_svid_ok [OF Cons.prems(1) lt] by blast
    show ?thesis
    proof (cases "PD_VDO_SVID_SVID1 v = 0")
      case True
      then show ?thesis using False s0 p1 lt lt2 by (auto simp: svid_loop.simps [of "svid_cnt p"] Let_def)
    next
      case s1: False
      have "svid_cnt p1 < 16" using p1(3) lt2 by simp
      then obtain p2 where p2: "set_svid (svid_cnt p1) (PD_VDO_SVID_SVID1 v) p1 = Some p2" "policy_ok tbl p2" "svid_cnt p2 = Suc (svid_cnt p1)"
          "svid_idx p2 = svid_idx p1" "\<forall>j < svid_cnt p1. svid (svids p2 ! j) = svid (svids p1 ! j)" "svid (svids p2 ! svid_cnt p1) = PD_VDO_SVID_SVID1 v"
        using set_svid_ok [OF p1(2)] by blast
      have c: "svid_cnt p2 = svid_cnt p + 2" "even (svid_cnt p2)" using p1(3) p2(3) Cons.prems(2) by simp_all
      obtain p' where p': "svid_loop (svid_cnt p2) vs p2 = Some p'" "policy_ok tbl p'" "svid_idx p' = svid_idx p2"
          "svid_cnt p' = svid_cnt p2 + length (take (16 - svid_cnt p2) (svids_of vs))"
          "\<forall>j < svid_cnt p2. svid (svids p' ! j) = svid (svids p2 ! j)"
          "\<forall>j < length (take (16 - svid_cnt p2) (svids_of vs)). svid (svids p' ! (svid_cnt p2 + j)) = svids_of vs ! j"
        using Cons.IH [OF p2(2) c(2)] by blast
      have l: "svid_loop (svid_cnt p) (v # vs) p = Some p'"
        using False s0 s1 p1(1,3) p2(1) p'(1) c(1) lt by (simp add: svid_loop.simps [of "svid_cnt p"] Let_def)
      have m: "16 - svid_cnt p = Suc (Suc (16 - svid_cnt p2))" using c(1) lt2 by simp
      have "svid (svids p' ! (svid_cnt p + j)) = svids_of (v # vs) ! j"
        if "j < length (take (16 - svid_cnt p) (svids_of (v # vs)))" for j
      proof -
        consider "j = 0" | "j = 1" | k where "j = k + 2" by (metis One_nat_def Suc_1 add_2_eq_Suc' old.nat.exhaust)
        then show ?thesis
        proof cases
          case 3
          then show ?thesis using that p'(6) s0 s1 c(1) m by (simp add: add.assoc)
        qed (use p'(5) p2(5,6) p1(3,6) c(1) s0 s1 in auto)
      qed
      moreover have "svid_cnt p' = svid_cnt p + length (take (16 - svid_cnt p) (svids_of (v # vs)))"
        using p'(4) c(1) s0 s1 m by simp
      moreover have "\<forall>j < svid_cnt p. svid (svids p' ! j) = svid (svids p ! j)" using p'(5) p2(5) p1(3,5) c(1) by simp
      ultimately show ?thesis using l p'(2,3) p2(4) p1(4) by auto
    qed
  qed
qed

lemma consume_modes_ok:
  assumes "policy_ok tbl p" "svid_idx p < svid_cnt p" "length payload = 7" "1 \<le> cnt" "cnt \<le> 7"
  shows "\<exists>p'. dfp_consume_modes cnt payload p = Some p' \<and> policy_ok tbl p' \<and> svid_idx p' = Suc (svid_idx p) \<and> svid_cnt p' = svid_cnt p
     \<and> mode_cnt (svids p' ! svid_idx p) = int (cnt - 1) \<and> take (cnt - 1) (mode_vdo (svids p' ! svid_idx p)) = read_at payload 1 (cnt - 1)
     \<and> amodes p' = amodes p"
proof -
  let ?d = "svids p ! svid_idx p"
  have idx: "svid_idx p < 16" and len: "length (svids p) = 16" and ok: "svid_ok ?d" using assms(1,2) by (auto simp: policy_ok_def)
  let ?e = "?d\<lparr>mode_cnt := int cnt - 1, mode_vdo := write_at (mode_vdo ?d) 0 (read_at payload 1 (nat (int cnt - 1)))\<rparr>"
  let ?p = "p\<lparr>svids := (svids p)[svid_idx p := ?e], svid_idx := svid_idx p + 1\<rparr>"
  have n: "nat (int cnt - 1) = cnt - 1" using assms(4) by simp
  have e: "svid_ok ?e" "svid ?e = svid ?d" using ok assms(3-5) by (auto simp: svid_ok_def n)
  have "\<forall>d \<in> set (svids ?p). svid_ok d"
    using assms(1) e by (auto simp: policy_ok_def dest!: set_update_subset_insert [THEN subsetD])
  moreover have "amode_ok tbl p m \<Longrightarrow> amode_ok tbl ?p m" for m
    using e(2) idx len by (auto simp: amode_ok_def nth_list_update split: option.splits)
  ultimately have "policy_ok tbl ?p" using assms(1,2) by (simp add: policy_ok_def)
  moreover have "dfp_consume_modes cnt payload p = Some ?p" using idx assms(4,5) by (simp add: dfp_consume_modes_def Let_def)
  ultimately show ?thesis using idx len assms(3-5) n by (simp add: write_at_def)
qed

lemma find_in_set: "find P xs = Some x \<Longrightarrow> x \<in> set xs" "find P xs = Some x \<Longrightarrow> P x"
  by (auto simp: find_Some_iff)

lemma amode_ok_amodes [simp]: "amode_ok tbl (p\<lparr>amodes := x\<rparr>) m = amode_ok tbl p m" "amode_ok tbl (p\<lparr>amode_idx := n\<rparr>) m = amode_ok tbl p m"
  by (simp_all add: amode_ok_def split: option.split)

section \<open>The laws of the drivers\<close>

text \<open>
  The partner answers what it was asked: a list of identifiers when none is known, modes of an
  identifier that is known. A board without functions for an entered mode does not get commands for it.
\<close>

definition solicited :: "'s alt_cfg \<Rightarrow> pd_policy \<Rightarrow> u32 \<Rightarrow> bool" where
  "solicited cfg p hdr \<longleftrightarrow>
     (PD_VDO_CMDT hdr = CMDT_RSP_ACK \<and> PD_VDO_CMD hdr = CMD_DISCOVER_SVID \<longrightarrow> svid_cnt p = 0)
     \<and> (PD_VDO_CMDT hdr = CMDT_RSP_ACK \<and> PD_VDO_CMD hdr = CMD_DISCOVER_MODES \<longrightarrow> svid_idx p < svid_cnt p)
     \<and> (PD_VDO_CMDT hdr = CMDT_INIT \<and> (PD_VDO_CMD hdr = CMD_DP_STATUS \<or> PD_VDO_CMD hdr = CMD_DP_CONFIG) \<longrightarrow> rsp_amode (svdm_rsp cfg) \<noteq> None)"

text \<open>The result of a message is a buffer of seven words, of which the reply uses a part.\<close>

definition svdm_sound :: "'s alt_cfg \<Rightarrow> (int \<times> u32 list \<times> 's pol) option \<Rightarrow> bool" where
  "svdm_sound cfg r \<longleftrightarrow> (case r of
       None \<Rightarrow> False
     | Some (rsize, payload, st) \<Rightarrow> rsize \<le> 7 \<and> length payload = 7 \<and> policy_ok (mode_svids cfg) (pe st))"

lemma svdm_soundI: "r = Some (n, pl, st) \<Longrightarrow> n \<le> 7 \<Longrightarrow> length pl = 7 \<Longrightarrow> policy_ok (mode_svids cfg) (pe st) \<Longrightarrow> svdm_sound cfg r"
  by (simp add: svdm_sound_def)

locale alt_mode_board =
  fixes cfg :: "'s alt_cfg"
  assumes null_svid_law: "null_svid cfg \<noteq> 0"
    and svid_law: "f \<in> set (supported_modes cfg) \<Longrightarrow> fx_svid f \<noteq> 0"
    and status_law: "f \<in> set (supported_modes cfg) \<Longrightarrow> length pl = 7 \<Longrightarrow> fx_status f p pl d = (r, pl', d') \<Longrightarrow> r \<le> 7 \<and> length pl' = 7"
    and config_law: "policy_ok (mode_svids cfg) p \<Longrightarrow> length pl = 7 \<Longrightarrow> k < length (supported_modes cfg) \<Longrightarrow>
      get_mode_idx (null_svid cfg) (mode_svids cfg) (fx_svid (supported_modes cfg ! k)) p = Some i \<Longrightarrow>
      am_fx (amodes p ! i) = Some k \<Longrightarrow> am_opos (amodes p ! i) \<noteq> 0 \<Longrightarrow>
      \<exists>r pl' d'. fx_config (supported_modes cfg ! k) p pl d = Some (r, pl', d') \<and> r \<le> 7 \<and> length pl' = 7"
    and attention_law: "f \<in> set (supported_modes cfg) \<Longrightarrow> fx_attention f = Some att \<Longrightarrow> length pl = 7 \<Longrightarrow> length (fst (att pl d)) = 7"
    and responder_law: "svdm_responder cfg c = Some (Some g) \<Longrightarrow> length pl = 7 \<Longrightarrow> g pl d = (r, pl', d') \<Longrightarrow> r \<le> 7 \<and> length pl' = 7"
begin

lemma no_mode_0: "policy_ok (mode_svids cfg) p \<Longrightarrow> get_mode_idx (null_svid cfg) (mode_svids cfg) 0 p = None"
proof (rule ccontr)
  assume ok: "policy_ok (mode_svids cfg) p" and "get_mode_idx (null_svid cfg) (mode_svids cfg) 0 p \<noteq> None"
  then obtain i where i: "i < 2" "amode_svid (null_svid cfg) (mode_svids cfg) (amodes p ! i) = 0"
    using get_mode_idx_Some(1,2) by (metis not_Some_eq)
  then obtain f where "am_fx (amodes p ! i) = Some f" "mode_svids cfg ! f = 0"
    using null_svid_law by (auto simp: amode_svid_def split: option.splits)
  then show False using policy_ok_mode [OF ok i(1)] svid_law by (auto simp: amode_ok_def split: option.splits)
qed

lemma allocate_mode_ok:
  assumes ok: "policy_ok (mode_svids cfg) p" and s: "s \<noteq> null_svid cfg" and a: "allocate_mode cfg s p = (r, p')"
  shows "policy_ok (mode_svids cfg) p'" "svids p' = svids p" "svid_cnt p' = svid_cnt p"
    "r = Some i \<Longrightarrow> i < amode_idx p'"
proof -
  have *: "policy_ok (mode_svids cfg) p' \<and> svids p' = svids p \<and> svid_cnt p' = svid_cnt p \<and> (\<forall>i. r = Some i \<longrightarrow> i < amode_idx p')"
  proof (cases "get_mode_idx (null_svid cfg) (mode_svids cfg) s p")
    case (Some k)
    then have "am_fx (amodes p ! k) \<noteq> None" "k < 2" using get_mode_idx_Some(1,2) [OF Some] s by (auto simp: amode_svid_def split: option.splits)
    then show ?thesis using Some a ok policy_ok_mode [OF ok] by (auto simp: allocate_mode_def)
  next
    case None
    let ?P = "\<lambda>(i, j). let d = svid (svids p ! j) in \<not> (d \<noteq> fx_svid (supported_modes cfg ! i) \<or> (s \<noteq> 0 \<and> d \<noteq> s))"
    let ?l = "List.product [0..<length (supported_modes cfg)] [0..<svid_cnt p]"
    show ?thesis
    proof (cases "amode_idx p = 2 \<or> find ?P ?l = None")
      case True
      then have "allocate_mode cfg s p = (None, p)" by (elim disjE) (simp_all add: allocate_mode_def None)
      then show ?thesis using a ok by simp
    next
      case False
      then obtain i j where f: "find ?P ?l = Some (i, j)" by auto
      then have "(i, j) \<in> set ?l" "?P (i, j)" by (rule find_in_set)+
      then have ij: "i < length (supported_modes cfg)" "j < svid_cnt p" "svid (svids p ! j) = mode_svids cfg ! i"
        by (auto simp: Let_def)
      let ?m = "(amodes p ! amode_idx p)\<lparr>am_fx := Some i, am_data := Some j\<rparr>"
      let ?p = "p\<lparr>amodes := (amodes p)[amode_idx p := ?m], amode_idx := amode_idx p + 1\<rparr>"
      have e: "amode_idx p < 2" "amodes p ! amode_idx p = empty_amode" "length (amodes p) = 2"
        using ok False by (auto simp: policy_ok_def)
      have "amode_ok (mode_svids cfg) p ?m" using ij e(2) by (simp add: amode_ok_def empty_amode_def)
      then have "policy_ok (mode_svids cfg) ?p"
        using ok e by (auto simp: policy_ok_def nth_list_update less_Suc_eq)
      moreover have "allocate_mode cfg s p = (Some (amode_idx p), ?p)" using f False by (simp add: allocate_mode_def None)
      ultimately show ?thesis using a by auto
    qed
  qed
  then show "policy_ok (mode_svids cfg) p'" "svids p' = svids p" "svid_cnt p' = svid_cnt p" "r = Some i \<Longrightarrow> i < amode_idx p'"
    by simp_all
qed

lemma set_opos_ok:
  assumes "policy_ok (mode_svids cfg) (pe st)" "i < amode_idx (pe st)" "n \<le> 6"
  shows "policy_ok (mode_svids cfg) (pe (set_opos i n st))"
proof -
  have "amode_ok (mode_svids cfg) (pe st) (amodes (pe st) ! i)" "i < 2" using assms(1,2) by (auto simp: policy_ok_def)
  then have "amode_ok (mode_svids cfg) (pe st) ((amodes (pe st) ! i)\<lparr>am_opos := n\<rparr>)"
    using assms(3) by (simp add: amode_ok_def split: option.splits)
  then show ?thesis using assms(1,2) by (auto simp: policy_ok_def set_opos_def nth_list_update)
qed

lemma enter_mode_ok:
  assumes ok: "policy_ok (mode_svids cfg) (pe st)" and s: "s \<noteq> null_svid cfg"
  shows "\<exists>v st'. pd_dfp_enter_mode cfg s opos st = Some (v, st') \<and> policy_ok (mode_svids cfg) (pe st')"
proof -
  obtain r p where a: "allocate_mode cfg s (pe st) = (r, p)" by (metis surj_pair)
  note al = allocate_mode_ok [OF ok s a]
  show ?thesis
  proof (cases r)
    case None
    then show ?thesis using a al(1) by (simp add: pd_dfp_enter_mode_def)
  next
    case (Some i)
    then have i: "i < amode_idx p" "i < 2" using al(1,4) by (auto simp: policy_ok_def)
    then have "amode_ok (mode_svids cfg) p (amodes p ! i)" using al(1) by (auto simp: policy_ok_def)
    then obtain f j where fj: "am_fx (amodes p ! i) = Some f" "am_data (amodes p ! i) = Some j" "j < svid_cnt p"
      by (auto simp: amode_ok_def split: option.splits)
    then have "svid_ok (svids p ! j)" using al(1) by (auto simp: policy_ok_def)
    then have n: "int opos \<le> mode_cnt (svids p ! j) \<Longrightarrow> opos \<le> 6" by (auto simp: svid_ok_def)
    have "policy_ok (mode_svids cfg) (pe (set_opos i n (st\<lparr>pe := p\<rparr>)))" if "n \<le> 6" for n
      using set_opos_ok [of "st\<lparr>pe := p\<rparr>" i n] al(1) i(1) that by simp
    then show ?thesis using a Some fj al(1) n
      by (auto simp: pd_dfp_enter_mode_def Let_def split: prod.splits)
  qed
qed

lemma attention_ok:
  assumes "policy_ok (mode_svids cfg) (pe st)" "length pl = 7" "dfp_consume_attention cfg pl st = (pl', st')"
  shows "length pl' = 7 \<and> pe st' = pe st"
proof -
  have "length (fst (att pl d)) = 7" if a: "get_mode_idx (null_svid cfg) (mode_svids cfg) s (pe st) = Some i"
    "validate_mode_request cfg (amodes (pe st) ! i) s n" "fx_attention (supported_modes cfg ! the (am_fx (amodes (pe st) ! i))) = Some att" for s i n att d
  proof -
    obtain f where f: "am_fx (amodes (pe st) ! i) = Some f" using a(2) by (auto simp: validate_mode_request_def split: option.splits)
    then have "f < length (supported_modes cfg)"
      using policy_ok_mode [OF assms(1) get_mode_idx_Some(1) [OF a(1)] f] by (auto simp: amode_ok_def split: option.splits)
    then show ?thesis using attention_law [OF nth_mem _ assms(2)] a(3) f by simp
  qed
  note att = this
  show ?thesis
  proof (cases "get_mode_idx (null_svid cfg) (mode_svids cfg) (PD_VDO_VID (pl ! 0)) (pe st)")
    case None
    then show ?thesis using assms(2,3) by (simp add: dfp_consume_attention_def)
  next
    case (Some i)
    show ?thesis using att [OF Some] assms(2,3) Some
      by (auto simp: dfp_consume_attention_def Let_def split: option.splits if_splits prod.splits) (metis fst_conv)
  qed
qed

lemma init_sound:
  assumes ok: "policy_ok (mode_svids cfg) (pe st)" and len: "length pl = 7"
    and cmd: "cmd = CMD_DP_STATUS \<or> cmd = CMD_DP_CONFIG \<longrightarrow> rsp_amode (svdm_rsp cfg) \<noteq> None"
  shows "svdm_sound cfg (svdm_init cfg cmd pl st)"
proof (cases "cmd = CMD_ATTENTION")
  case True
  obtain pl' st' where a: "dfp_consume_attention cfg pl st = (pl', st')" by (metis surj_pair)
  then show ?thesis using True attention_ok [OF ok len a] ok by (simp add: svdm_init_def svdm_sound_def)
next
  case False
  have "svdm_responder cfg cmd \<noteq> None" using cmd by (auto simp: svdm_responder_def Let_def)
  then obtain func where f: "svdm_responder cfg cmd = Some func" by blast
  obtain r pl' d' where g: "(case func of Some g \<Rightarrow> g pl (drv st) | None \<Rightarrow> (0, pl, drv st)) = (r, pl', d')" by (metis surj_pair)
  then have "r \<le> 7 \<and> length pl' = 7" using responder_law [of cmd _ pl "drv st" r pl' d'] f len by (auto split: option.splits)
  then show ?thesis using False f g ok by (auto simp: svdm_init_def svdm_sound_def Let_def or_hdr_def)
qed

lemma identity_sound:
  assumes "length pl = 7" "1 \<le> cnt" "cnt \<le> 7"
  shows "svdm_sound cfg (Some (ack_identity cfg cnt pl st))"
proof -
  have "policy_ok (mode_svids cfg) (empty_policy\<lparr>identity := write_at (identity empty_policy) 0 (read_at pl 1 (min 6 (cnt - 1)))\<rparr>)"
    using policy_ok_empty [of "mode_svids cfg"] assms
    by (simp add: policy_ok_def amode_ok_def empty_policy_def)
  then show ?thesis using assms(1)
    by (auto simp: svdm_sound_def ack_identity_def dfp_consume_identity_def pd_dfp_pe_init_def dfp_discover_svids_def Let_def)
qed

lemma discover_modes_ok: "dfp_discover_modes pl p = (r, pl') \<Longrightarrow> r \<le> 1 \<and> length pl' = length pl"
  by (auto simp: dfp_discover_modes_def split: if_splits)

lemma svids_sound:
  assumes ok: "policy_ok (mode_svids cfg) (pe st)" and len: "length pl = 7" and "svid_cnt (pe st) = 0"
  shows "svdm_sound cfg (ack_svids cnt pl st)"
proof -
  obtain p' where p': "dfp_consume_svids cnt pl (pe st) = Some p'" "policy_ok (mode_svids cfg) p'"
    using svid_loop_ok [OF ok] assms(3) by (auto simp: dfp_consume_svids_def)
  obtain r pl' where d: "dfp_discover_modes pl p' = (r, pl')" by (metis surj_pair)
  then show ?thesis using p' discover_modes_ok [OF d] len by (simp add: ack_svids_def svdm_sound_def)
qed

lemma modes_sound:
  assumes ok: "policy_ok (mode_svids cfg) (pe st)" and len: "length pl = 7" and "svid_idx (pe st) < svid_cnt (pe st)" "1 \<le> cnt" "cnt \<le> 7"
  shows "svdm_sound cfg (ack_modes cfg cnt pl st)"
proof -
  obtain p' where p': "dfp_consume_modes cnt pl (pe st) = Some p'" "policy_ok (mode_svids cfg) p'"
    using consume_modes_ok [OF ok assms(3) len assms(4,5)] by blast
  obtain r pl' where d: "dfp_discover_modes pl p' = (r, pl')" by (metis surj_pair)
  obtain v st' where "pd_dfp_enter_mode cfg 0 0 (st\<lparr>pe := p'\<rparr>) = Some (v, st')" "policy_ok (mode_svids cfg) (pe st')"
    using enter_mode_ok [of "st\<lparr>pe := p'\<rparr>" 0 0] p'(2) null_svid_law by auto
  then show ?thesis using p' d discover_modes_ok [OF d] len by (auto simp: ack_modes_def svdm_sound_def Let_def)
qed

lemma enter_sound:
  assumes ok: "policy_ok (mode_svids cfg) (pe st)" and len: "length pl = 7" and m: "\<forall>i. modep = Some i \<longrightarrow> i < 2"
  shows "svdm_sound cfg (ack_enter cfg modep pl st)"
proof (cases modep)
  case None
  then show ?thesis using ok len by (simp add: ack_enter_def svdm_sound_def)
next
  case (Some i)
  obtain st' where st': "(if am_opos (amodes (pe st) ! i) = 0 then map_option snd (pd_dfp_enter_mode cfg 0 0 st) else Some st) = Some st'"
      "policy_ok (mode_svids cfg) (pe st')"
    using enter_mode_ok [OF ok, of 0 0] null_svid_law ok by (cases "am_opos (amodes (pe st) ! i) = 0") auto
  show ?thesis
  proof (cases "am_opos (amodes (pe st') ! i) = 0")
    case True
    then show ?thesis using Some st' len by (simp add: ack_enter_def svdm_sound_def)
  next
    case False
    then obtain f where f: "am_fx (amodes (pe st') ! i) = Some f" "f < length (supported_modes cfg)"
      using policy_ok_entered [OF st'(2)] m Some by (fastforce simp: amode_ok_def split: option.splits)
    obtain r pl' d' where r: "fx_status (supported_modes cfg ! f) (pe st') pl (drv st') = (r, pl', d')" by (metis surj_pair)
    show ?thesis using Some st' False f r status_law [OF nth_mem [OF f(2)] len r]
      by (simp add: ack_enter_def svdm_sound_def or_hdr_def)
  qed
qed

lemma dp_status_sound:
  assumes ok: "policy_ok (mode_svids cfg) (pe st)" and len: "length pl = 7"
    and m: "modep = get_mode_idx (null_svid cfg) (mode_svids cfg) s (pe st)"
  shows "svdm_sound cfg (ack_dp_status cfg modep pl st)"
proof -
  obtain pl' st' where a: "dfp_consume_attention cfg pl st = (pl', st')" by (metis surj_pair)
  then have a': "length pl' = 7" "pe st' = pe st" using attention_ok [OF ok len a] by auto
  show ?thesis
  proof (cases "\<exists>i. modep = Some i \<and> am_opos (amodes (pe st) ! i) \<noteq> 0")
    case False
    then show ?thesis using a a' ok by (cases modep) (auto simp: ack_dp_status_def svdm_sound_def)
  next
    case True
    then obtain i where i: "modep = Some i" "am_opos (amodes (pe st) ! i) \<noteq> 0" by blast
    note gm = get_mode_idx_Some [OF m [symmetric, unfolded i(1)]]
    obtain f where f: "am_fx (amodes (pe st) ! i) = Some f" "f < length (supported_modes cfg)"
      using policy_ok_entered [OF ok gm(1) i(2)] by (auto simp: amode_ok_def split: option.splits)
    then have "s = fx_svid (supported_modes cfg ! f)" using gm(2) by (simp add: amode_svid_def)
    then obtain r pl'' d' where "fx_config (supported_modes cfg ! f) (pe st) pl' (drv st') = Some (r, pl'', d')" "r \<le> 7" "length pl'' = 7"
      using config_law [OF ok a'(1) f(2) _ f(1) i(2), of "drv st'"] m i(1) by auto
    then show ?thesis using a a' i f ok by (simp add: ack_dp_status_def svdm_sound_def)
  qed
qed

lemma dp_config_sound:
  assumes ok: "policy_ok (mode_svids cfg) (pe st)" and len: "length pl = 7" and m: "\<forall>i. modep = Some i \<longrightarrow> i < 2"
  shows "svdm_sound cfg (ack_dp_config cfg modep pl st)"
proof (cases "\<exists>i. modep = Some i \<and> am_opos (amodes (pe st) ! i) \<noteq> 0")
  case False
  then show ?thesis using ok len by (cases modep) (auto simp: ack_dp_config_def svdm_sound_def)
next
  case True
  then obtain i where i: "modep = Some i" "am_opos (amodes (pe st) ! i) \<noteq> 0" by blast
  then obtain f where "am_fx (amodes (pe st) ! i) = Some f"
    using policy_ok_entered [OF ok] m by (fastforce simp: amode_ok_def split: option.splits)
  then show ?thesis using i ok len by (auto simp: ack_dp_config_def svdm_sound_def split: option.split)
qed

lemma svdm_sound_map:
  "svdm_sound cfg r \<Longrightarrow> svdm_sound cfg (map_option (\<lambda>(n, pl, st). (n, or_hdr x (or_hdr y pl), st)) r)"
  by (auto simp: svdm_sound_def or_hdr_def split: option.splits prod.splits)

theorem svdm_type_safe:
  assumes ok: "policy_ok (mode_svids cfg) (pe st)" and len: "length payload = 7" and cnt: "1 \<le> cnt" "cnt \<le> 7"
    and sol: "solicited cfg (pe st) (payload ! 0)"
  shows "svdm_sound cfg (pd_svdm cfg cnt payload st)"
proof -
  let ?pl = "payload[0 := payload ! 0 AND NOT VDO_CMDT_MASK]" and ?cmd = "PD_VDO_CMD (payload ! 0)" and ?type = "PD_VDO_CMDT (payload ! 0)"
  let ?m = "get_mode_idx (null_svid cfg) (mode_svids cfg) (PD_VDO_VID (?pl ! 0)) (pe st)"
  have len': "length ?pl = 7" using len by simp
  have m: "\<forall>i. ?m = Some i \<longrightarrow> i < 2" using get_mode_idx_Some(1) by blast
  have "svdm_sound cfg (svdm_ack cfg ?cmd cnt ?pl st)" if "?type = CMDT_RSP_ACK"
    unfolding svdm_ack_def Let_def
    using sol that svids_sound [OF ok len'] modes_sound [OF ok len' _ cnt] enter_sound [OF ok len' m] dp_status_sound [OF ok len' refl]
      dp_config_sound [OF ok len' m] identity_sound [OF len' cnt] ok len
    by (intro svdm_sound_map) (auto simp: solicited_def intro: svdm_soundI)
  moreover have "svdm_sound cfg (svdm_init cfg ?cmd ?pl st)" if "?type = CMDT_INIT"
    using init_sound [OF ok len'] sol that by (simp add: solicited_def)
  ultimately show ?thesis using ok len by (auto simp: pd_svdm_def Let_def svdm_sound_def)
qed

end

section \<open>The drivers of reef respect the laws\<close>

lemma reef_mode_svids: "mode_svids (reef_cfg null) = reef_svids"
  by (simp add: reef_cfg_def reef_modes_def reef_svids_def)

lemma reef_config_defined:
  assumes "policy_ok reef_svids p" "get_mode_idx null reef_svids USB_SID_DISPLAYPORT p = Some i" "am_fx (amodes p ! i) = Some f" "am_opos (amodes p ! i) \<noteq> 0"
  shows "\<exists>pin. pd_dfp_dp_get_pin_mode null reef_svids status p = Some pin"
proof -
  obtain j where "am_data (amodes p ! i) = Some j"
    using policy_ok_entered [OF assms(1) get_mode_idx_Some(1) [OF assms(2)] assms(4)] by (auto simp: amode_ok_def split: option.splits)
  then show ?thesis using assms(2,4) by (cases "am_opos (amodes p ! i)") (auto simp: pd_dfp_dp_get_pin_mode_def)
qed

lemma reef_board: "null \<noteq> 0 \<Longrightarrow> alt_mode_board (reef_cfg null)"
proof (unfold_locales, unfold reef_mode_svids)
  fix p :: pd_policy and pl :: "u32 list" and f i and d :: reef
  assume "null \<noteq> 0" "policy_ok reef_svids p" "length pl = 7" "f < length (supported_modes (reef_cfg null))"
    "get_mode_idx (null_svid (reef_cfg null)) reef_svids (fx_svid (supported_modes (reef_cfg null) ! f)) p = Some i"
    "am_fx (amodes p ! i) = Some f" "am_opos (amodes p ! i) \<noteq> 0"
  then show "\<exists>r pl' d'. fx_config (supported_modes (reef_cfg null) ! f) p pl d = Some (r, pl', d') \<and> r \<le> 7 \<and> length pl' = 7"
    using reef_config_defined [of p null i f "dp_status d"]
    by (auto simp: reef_cfg_def reef_modes_def less_Suc_eq numeral_2_eq_2 svdm_dp_config_def svdm_gfu_config_def Let_def)
qed (auto simp: reef_cfg_def reef_modes_def svdm_dp_status_def svdm_gfu_status_def svdm_dp_attention_def svdm_gfu_attention_def
       svdm_responder_def Let_def split: if_splits)

interpretation reef: alt_mode_board "reef_cfg 0x1000"
  by (rule reef_board) simp


section \<open>Whole conversations\<close>

text \<open>
  The policy structure after any conversation: messages of the partner that answer what was asked,
  requests of the host to enter or leave a mode, and disconnections. The identifier of the host's
  request is not the value that a null pointer reads.
\<close>

inductive alt_reach :: "'s alt_cfg \<Rightarrow> 's \<Rightarrow> 's pol \<Rightarrow> bool" for cfg :: "'s alt_cfg" and d :: 's where
  start: "alt_reach cfg d \<lparr>pe = empty_policy, drv = d, pol_calls = []\<rparr>"
| message: "alt_reach cfg d st \<Longrightarrow> length payload = 7 \<Longrightarrow> 1 \<le> cnt \<Longrightarrow> cnt \<le> 7 \<Longrightarrow> solicited cfg (pe st) (payload ! 0) \<Longrightarrow>
    pd_svdm cfg cnt payload st = Some (r, payload', st') \<Longrightarrow> alt_reach cfg d st'"
| host_enter: "alt_reach cfg d st \<Longrightarrow> s \<noteq> null_svid cfg \<Longrightarrow> pd_dfp_enter_mode cfg s opos st = Some (v, st') \<Longrightarrow> alt_reach cfg d st'"
| host_exit: "alt_reach cfg d st \<Longrightarrow> alt_reach cfg d (snd (pd_dfp_exit_mode cfg s opos st))"

lemma exit_mode_ok:
  assumes "alt_mode_board cfg" "policy_ok (mode_svids cfg) (pe st)"
  shows "policy_ok (mode_svids cfg) (pe (snd (pd_dfp_exit_mode cfg s opos st)))"
proof (cases "s = 0")
  case True
  then show ?thesis by (simp add: pd_dfp_exit_mode_def pd_dfp_pe_init_def policy_ok_empty)
next
  case False
  show ?thesis
  proof (cases "\<exists>i. get_mode_idx (null_svid cfg) (mode_svids cfg) s (pe st) = Some i \<and> validate_mode_request cfg (amodes (pe st) ! i) s opos")
    case True
    then obtain i f where i: "get_mode_idx (null_svid cfg) (mode_svids cfg) s (pe st) = Some i"
      "validate_mode_request cfg (amodes (pe st) ! i) s opos" "am_fx (amodes (pe st) ! i) = Some f"
      by (auto simp: validate_mode_request_def split: option.splits)
    then have "i < amode_idx (pe st)" using policy_ok_mode [OF assms(2) get_mode_idx_Some(1) [OF i(1)]] by blast
    then show ?thesis using i False assms(2) alt_mode_board.set_opos_ok [OF assms(1), of "st\<lparr>drv := fx_exit (supported_modes cfg ! f) (drv st)\<rparr>" i 0]
      by (simp add: pd_dfp_exit_mode_def Let_def)
  qed (use False assms(2) in \<open>auto simp: pd_dfp_exit_mode_def Let_def split: option.splits\<close>)
qed

lemma alt_reach_ok:
  assumes "alt_reach cfg d st" "alt_mode_board cfg"
  shows "policy_ok (mode_svids cfg) (pe st)"
  using assms
proof (induction rule: alt_reach.induct)
  case start
  show ?case by (simp add: policy_ok_empty)
next
  case (message st payload cnt r payload' st')
  then show ?case using alt_mode_board.svdm_type_safe [OF message.prems message.IH] by (fastforce simp: svdm_sound_def)
next
  case (host_enter st s opos v st')
  then show ?case using alt_mode_board.enter_mode_ok [OF host_enter.prems host_enter.IH] by (metis option.inject prod.inject)
qed (simp add: exit_mode_ok)


definition ex_reef :: "reef pol" where
  "ex_reef = \<lparr>pe = empty_policy, drv = \<lparr>dp_on = False, hpd_hi_pending = False, dp_status = 0, reef_calls = []\<rparr>, pol_calls = []\<rparr>"


section \<open>Discovery records the partner's list\<close>

fun encode_svids :: "u16 list \<Rightarrow> u32 list" where
  "encode_svids [] = []"
| "encode_svids [a] = [VDO_SVID a 0]"
| "encode_svids (a # b # xs) = VDO_SVID a b # encode_svids xs"

lemma svid_halves: "PD_VDO_SVID_SVID0 (VDO_SVID a b) = a" "PD_VDO_SVID_SVID1 (VDO_SVID a b) = b"
proof -
  have m: "0xffff = (mask 16 :: u32)" by (simp add: mask_eq_exp_minus_1)
  show "PD_VDO_SVID_SVID0 (VDO_SVID a b) = a"
    by (rule bit_word_eqI) (auto simp: PD_VDO_SVID_SVID0_def VDO_SVID_def bit_simps dest: bit_imp_le_length)
  show "PD_VDO_SVID_SVID1 (VDO_SVID a b) = b" unfolding PD_VDO_SVID_SVID1_def m
    by (rule bit_word_eqI) (auto simp: VDO_SVID_def bit_simps dest: bit_imp_le_length)
qed

lemma svids_of_encode: "0 \<notin> set xs \<Longrightarrow> svids_of (encode_svids xs) = xs"
  by (induction xs rule: encode_svids.induct) (auto simp: svid_halves)

lemma length_encode: "length (encode_svids xs) = (length xs + 1) div 2"
  by (induction xs rule: encode_svids.induct) auto

text \<open>C29. 
  A partner's list of identifiers arrives unchanged. When the partner answers the first request
  with up to twelve identifiers, packed two to a word as the specification asks, exactly these are
  recorded, in order, and the reply asks for the modes of the first.
\<close>

theorem discovered_svids:
  assumes "0 \<notin> set xs" "length xs \<le> 12" "xs \<noteq> []" "payload = hdr # encode_svids xs @ rest" "length payload = 7"
    and "policy_ok tbl (pe st)" "svid_cnt (pe st) = 0"
  shows "\<exists>payload' st'. ack_svids (Suc (length (encode_svids xs))) payload st = Some (1, payload', st')
     \<and> map svid (take (svid_cnt (pe st')) (svids (pe st'))) = xs \<and> policy_ok tbl (pe st')
     \<and> payload' ! 0 = VDO (hd xs) 1 (word_of_nat CMD_DISCOVER_MODES) \<and> drv st' = drv st"
proof -
  have r: "read_at payload 1 (length (encode_svids xs)) = encode_svids xs" by (simp add: assms(4) read_at_def)
  have sv: "svids_of (encode_svids xs) = xs" using assms(1) by (rule svids_of_encode)
  obtain p where p: "dfp_consume_svids (Suc (length (encode_svids xs))) payload (pe st) = Some p" "policy_ok tbl p"
      "svid_idx p = svid_idx (pe st)" "svid_cnt p = length xs" "\<forall>j < length xs. svid (svids p ! j) = xs ! j"
    using svid_loop_ok [OF assms(6), of "encode_svids xs"] assms(2,7) sv r by (auto simp: dfp_consume_svids_def)
  have "svid_idx p = 0" using p(3) assms(6,7) by (simp add: policy_ok_def)
  then have "dfp_discover_modes payload p = (1, payload[0 := VDO (hd xs) 1 (word_of_nat CMD_DISCOVER_MODES)])"
    using p(4,5) assms(3) by (simp add: dfp_discover_modes_def hd_conv_nth)
  moreover have "map svid (take (svid_cnt p) (svids p)) = xs"
    using p(2,4,5) by (intro nth_equalityI) (auto simp: policy_ok_def)
  ultimately show ?thesis using p(1,2) assms(5) by (cases payload) (auto simp: ack_svids_def)
qed

theorem discovered_svids_witness:
  "\<exists>payload' st'. ack_svids 3 [0xff008002, 0xff0118d1, 0x05ac0000, 0, 0, 0, 0] ex_reef = Some (1, payload', st')
     \<and> map svid (take (svid_cnt (pe st')) (svids (pe st'))) = [0xff01, 0x18d1, 0x05ac] \<and> payload' ! 0 = 0xff018003"
proof -
  have e: "encode_svids [0xff01, 0x18d1, 0x05ac] = [0xff0118d1, 0x05ac0000]" "VDO 0xff01 1 3 = 0xff018003" by code_simp+
  have p: "policy_ok reef_svids (pe ex_reef)" "svid_cnt (pe ex_reef) = 0" using policy_ok_empty by (simp_all add: ex_reef_def empty_policy_def)
  from discovered_svids [OF _ _ _ _ _ p, of "[0xff01, 0x18d1, 0x05ac]" "[0xff008002, 0xff0118d1, 0x05ac0000, 0, 0, 0, 0]" "0xff008002" "[0, 0, 0, 0]"]
  show ?thesis by (simp add: e numeral_3_eq_3 del: encode_svids.simps) (elim exE conjE, intro exI conjI)
qed

section \<open>A partner that speaks out of turn\<close>

lemma svid_loop_overrun:
  assumes "odd (svid_cnt p)" "svid_cnt p < 16" "length (svids p) = 16" "16 - svid_cnt p < length (svids_of vdos)"
  shows "svid_loop (svid_cnt p) vdos p = None"
  using assms
proof (induction vdos arbitrary: p)
  case (Cons v vs)
  then have s0: "PD_VDO_SVID_SVID0 v \<noteq> 0" by auto
  let ?p1 = "p\<lparr>svids := (svids p)[svid_cnt p := (svids p ! svid_cnt p)\<lparr>svid := PD_VDO_SVID_SVID0 v\<rparr>], svid_cnt := svid_cnt p + 1\<rparr>"
  have p1: "set_svid (svid_cnt p) (PD_VDO_SVID_SVID0 v) p = Some ?p1" using Cons.prems(2) by (simp add: set_svid_def)
  have s1: "PD_VDO_SVID_SVID1 v \<noteq> 0" using Cons.prems(2,4) s0 by (auto split: if_splits)
  show ?case
  proof (cases "svid_cnt p = 15")
    case True
    then show ?thesis using s0 s1 p1 by (simp add: svid_loop.simps [of "15"] set_svid_def Let_def)
  next
    case False
    then have lt: "svid_cnt p + 2 < 16" using Cons.prems(1,2) by presburger
    let ?p2 = "?p1\<lparr>svids := (svids ?p1)[Suc (svid_cnt p) := (svids ?p1 ! Suc (svid_cnt p))\<lparr>svid := PD_VDO_SVID_SVID1 v\<rparr>], svid_cnt := svid_cnt p + 2\<rparr>"
    have p2: "set_svid (Suc (svid_cnt p)) (PD_VDO_SVID_SVID1 v) ?p1 = Some ?p2" using lt by (simp add: set_svid_def)
    have "svid_loop (svid_cnt p + 2) vs ?p2 = None"
      using Cons.IH [of ?p2] Cons.prems lt s0 s1 by simp
    then show ?thesis using s0 s1 p1 p2 Cons.prems(2) by (simp add: svid_loop.simps [of "svid_cnt p"] Let_def)
  qed
qed simp

text \<open>C30. 
  A partner can make the code write behind the array of identifiers. When an odd number of
  identifiers is known and a list arrives that nobody asked for, long enough to fill the array, the
  loop steps over its bound, which it compares for equality only, and writes behind the end.
\<close>

theorem unsolicited_svids_overrun:
  assumes "odd (svid_cnt (pe st))" "svid_cnt (pe st) < 16" "length (svids (pe st)) = 16" "length payload = 7"
    and "PD_VDO_CMDT (payload ! 0) = CMDT_RSP_ACK" "PD_VDO_CMD (payload ! 0) = CMD_DISCOVER_SVID"
    and "16 - svid_cnt (pe st) < length (svids_of (tl payload))"
  shows "pd_svdm cfg 7 payload st = None"
proof -
  have "read_at (payload[0 := x]) 1 6 = tl payload" for x
    using assms(4) by (cases payload) (simp_all add: read_at_def)
  then have "dfp_consume_svids 7 (payload[0 := x]) (pe st) = None" for x
    using svid_loop_overrun [OF assms(1-3,7)] by (simp add: dfp_consume_svids_def)
  then show ?thesis using assms(5,6) by (simp add: pd_svdm_def svdm_ack_def ack_svids_def Let_def)
qed

text \<open>Five identifiers when asked, then a list of twelve.\<close>

theorem unsolicited_svids_overrun_witness:
  "\<exists>r payload st. pd_svdm (reef_cfg 0x1000) 4 [0xff008042, 0xff0118d1, 0x00020003, 0x00040000, 0, 0, 0] ex_reef = Some (r, payload, st)
     \<and> svid_cnt (pe st) = 5
     \<and> pd_svdm (reef_cfg 0x1000) 7 [0xff008042, 0x00010002, 0x00030004, 0x00050006, 0x00070008, 0x0009000a, 0x000b000c] st = None"
proof -
  let ?m = "[0xff008042, 0xff0118d1, 0x00020003, 0x00040000, 0, 0, 0] :: u32 list"
    and ?n = "[0xff008042, 0x00010002, 0x00030004, 0x00050006, 0x00070008, 0x0009000a, 0x000b000c] :: u32 list"
  have "map_option (\<lambda>(n, pl, st). (svid_cnt (pe st), length (svids (pe st)))) (pd_svdm (reef_cfg 0x1000) 4 ?m ex_reef) = Some (5, 16)" by code_simp
  then obtain r payload st where m: "pd_svdm (reef_cfg 0x1000) 4 ?m ex_reef = Some (r, payload, st)" and s: "svid_cnt (pe st) = 5" "length (svids (pe st)) = 16"
    by auto
  have "length (svids_of (tl ?n)) = 12" "PD_VDO_CMDT (?n ! 0) = CMDT_RSP_ACK" "PD_VDO_CMD (?n ! 0) = CMD_DISCOVER_SVID" by code_simp+
  then have "pd_svdm (reef_cfg 0x1000) 7 ?n st = None"
    using s unsolicited_svids_overrun [of st ?n "reef_cfg 0x1000"] by (simp del: nth_Cons_0 svids_of.simps)
  then show ?thesis using m s by blast
qed

text \<open>
  A request for the status or the configuration of an entered mode makes a board without functions
  for it, as reef, call through a null pointer.
\<close>

theorem dp_request_calls_null:
  assumes "rsp_amode (svdm_rsp cfg) = None" "PD_VDO_CMDT (payload ! 0) = CMDT_INIT" "PD_VDO_CMD (payload ! 0) \<in> {CMD_DP_STATUS, CMD_DP_CONFIG}"
  shows "pd_svdm cfg cnt payload st = None"
  using assms by (auto simp: pd_svdm_def svdm_init_def svdm_responder_def Let_def)

text \<open>C31. 
  A mode that the board refuses is reported as entered. When a partner offers DisplayPort but is not
  a display sink, the driver refuses the mode and nothing is sent, but the position of the mode has been
  stored before the driver was asked: the host is told that the mode is active.
\<close>

theorem refused_mode_reported:
  assumes "policy_ok reef_svids (pe st)" "amode_idx (pe st) = 0" "null \<noteq> 0" "null \<noteq> USB_SID_DISPLAYPORT"
    and "svid_cnt (pe st) = 1" "svid (svids (pe st) ! 0) = USB_SID_DISPLAYPORT" "mode_vdo (svids (pe st) ! 0) ! 0 AND 1 = 0"
  shows "\<exists>st'. pd_dfp_enter_mode (reef_cfg null) 0 0 st = Some (0, st') \<and> drv st' = drv st
     \<and> hc_remote_pd_get_amode (reef_cfg null) 0 (pe st') = (USB_SID_DISPLAYPORT, Some (1, mode_vdo (svids (pe st) ! 0)))"
proof -
  let ?p = "pe st" and ?c = "reef_cfg null"
  have a: "amodes ?p = [empty_amode, empty_amode]"
  proof -
    have "length (amodes ?p) = 2" "amodes ?p ! 0 = empty_amode" "amodes ?p ! 1 = empty_amode"
      using assms(1,2) by (auto simp: policy_ok_def)
    then show ?thesis by (auto simp: length_Suc_conv numeral_2_eq_2)
  qed
  have n: "null_svid ?c = null" "mode_svids ?c = reef_svids" "length (supported_modes ?c) = 2"
    "fx_svid (supported_modes ?c ! 0) = USB_SID_DISPLAYPORT" "fx_enter (supported_modes ?c ! 0) = svdm_enter_dp_mode"
    by (simp_all add: reef_cfg_def reef_modes_def reef_svids_def)
  have two: "[0..<2] = [0, Suc 0]" by (simp add: upt_rec)
  have g: "get_mode_idx null reef_svids 0 ?p = None"
    using assms(3) by (simp add: get_mode_idx_def a two amode_svid_def empty_amode_def)
  let ?q = "?p\<lparr>amodes := [empty_amode\<lparr>am_fx := Some 0, am_data := Some 0\<rparr>, empty_amode], amode_idx := 1\<rparr>"
  have al: "allocate_mode ?c 0 ?p = (Some 0, ?q)"
    using assms(2,5,6) by (simp add: allocate_mode_def n g a two)
  let ?r = "?q\<lparr>amodes := [empty_amode\<lparr>am_fx := Some 0, am_data := Some 0, am_opos := 1\<rparr>, empty_amode]\<rparr>"
  have "pd_dfp_enter_mode ?c 0 0 st = Some (0, st\<lparr>pe := ?r\<rparr>)"
    using assms(7) by (simp add: pd_dfp_enter_mode_def al n Let_def set_opos_def svdm_enter_dp_mode_def)
  moreover have "hc_remote_pd_get_amode ?c 0 ?r = (USB_SID_DISPLAYPORT, Some (1, mode_vdo (svids ?p ! 0)))"
    using assms(5,6) by (simp add: hc_remote_pd_get_amode_def n get_mode_idx_def pd_alt_mode_def two amode_svid_def reef_svids_def Let_def)
  ultimately show ?thesis by (intro exI [of _ "st\<lparr>pe := ?r\<rparr>"]) simp
qed

definition ex_dp_source :: "reef pol" where
  "ex_dp_source = ex_reef\<lparr>pe := empty_policy\<lparr>svid_cnt := 1, svid_idx := 1,
     svids := empty_svid\<lparr>svid := USB_SID_DISPLAYPORT, mode_cnt := 1, mode_vdo := [0x0c02, 0, 0, 0, 0, 0]\<rparr> # replicate 15 empty_svid\<rparr>\<rparr>"

text \<open>A status message for the refused mode then connects the display lines.\<close>

theorem refused_mode_reported_witness:
  "\<exists>st'. pd_dfp_enter_mode (reef_cfg 0x1000) 0 0 ex_dp_source = Some (0, st') \<and> drv st' = drv ex_dp_source
     \<and> snd (hc_remote_pd_get_amode (reef_cfg 0x1000) 0 (pe st')) = Some (1, [0x0c02, 0, 0, 0, 0, 0])
     \<and> map_option (\<lambda>(r, pl, st). reef_calls (drv st)) (pd_svdm (reef_cfg 0x1000) 2 [0xff018150, 0, 0, 0, 0, 0, 0] st') = Some [MuxSet TYPEC_MUX_DP]"
proof -
  have "svid_ok (svids (pe ex_dp_source) ! 0)" by code_simp
  then have ok: "policy_ok reef_svids (pe ex_dp_source)"
    using policy_ok_empty [of reef_svids] by (simp add: ex_dp_source_def policy_ok_def empty_policy_def svid_ok_def)
  have c: "amode_idx (pe ex_dp_source) = 0" "svid_cnt (pe ex_dp_source) = 1" "svid (svids (pe ex_dp_source) ! 0) = USB_SID_DISPLAYPORT"
    "mode_vdo (svids (pe ex_dp_source) ! 0) = [0x0c02, 0, 0, 0, 0, 0]" "mode_vdo (svids (pe ex_dp_source) ! 0) ! 0 AND 1 = 0"
    "(0x1000 :: u16) \<noteq> 0" "(0x1000 :: u16) \<noteq> USB_SID_DISPLAYPORT" by code_simp+
  have "map_option (\<lambda>(v, st). map_option (\<lambda>(r, pl, st). reef_calls (drv st)) (pd_svdm (reef_cfg 0x1000) 2 [0xff018150, 0, 0, 0, 0, 0, 0] st))
      (pd_dfp_enter_mode (reef_cfg 0x1000) 0 0 ex_dp_source) = Some (Some [MuxSet TYPEC_MUX_DP])" by code_simp
  then show ?thesis using refused_mode_reported [OF ok c(1,6,7,2,3,5)] c(4) by fastforce
qed

section \<open>The pins of DisplayPort\<close>

lemma bits_of_pins:
  "bit (0x2a :: u32) k \<longleftrightarrow> k = 1 \<or> k = 3 \<or> k = 5" "bit (0x3 :: u32) k \<longleftrightarrow> k = 0 \<or> k = 1"
  "bit (0xc :: u32) k \<longleftrightarrow> k = 2 \<or> k = 3" "bit (0x30 :: u32) k \<longleftrightarrow> k = 4 \<or> k = 5" "bit (0x3f :: u32) k \<longleftrightarrow> k < 6"
proof -
  show "bit (0x3f :: u32) k \<longleftrightarrow> k < 6"
    using bit_mask_iff [of 6 k, where ?'a = u32] by (auto simp: mask_eq_exp_minus_1)
qed (auto simp: bit_numeral_rec bit_1_iff split: nat.splits)


lemma get_next_bit_Max:
  assumes "m \<noteq> 0" "\<And>k. bit m k \<longleftrightarrow> k \<in> S"
  shows "fst (get_next_bit m) = Max S"
proof -
  obtain b m' where g: "get_next_bit m = (b, m')" by (metis surj_pair)
  note sp = get_next_bit_spec [OF assms(1) g]
  have "S \<subseteq> {..b}" using sp(3) assms(2) by (metis atMost_iff not_le subsetI)
  then have "finite S" by (rule finite_subset) simp
  then have "Max S = b" using sp(1,3) assms(2) by (intro Max_eqI) (auto simp: not_less [symmetric])
  then show ?thesis by (simp add: g)
qed

text \<open>
  The pin assignment for DisplayPort: of the assignments that the partner supports, those for USB
  Gen 2 signals are never chosen and the multi-function ones only if the partner prefers them; C and D
  come before E and F; among the rest, the highest wins, and no assignment is chosen only if none is left.
\<close>

theorem dp_pin_choice:
  fixes caps status :: u32
  defines "usable \<equiv> {k. bit (PD_DP_PIN_CAPS caps) k \<and> 2 \<le> k \<and> (PD_VDO_DPSTS_MF_PREF status \<or> even k)}"
  shows "pin_of_caps caps status =
     (if usable = {} then 0 else push_bit (Max (if usable \<inter> {2, 3} \<noteq> {} then usable \<inter> {2, 3} else usable)) 1)"
proof -
  have six: "bit (PD_DP_PIN_CAPS caps) k \<Longrightarrow> k < 6" for k unfolding PD_DP_PIN_CAPS_def by (auto simp only: bit_and_iff bits_of_pins split: if_splits)
  define w1 where "w1 = (if \<not> PD_VDO_DPSTS_MF_PREF status then PD_DP_PIN_CAPS caps AND NOT 0x2a else PD_DP_PIN_CAPS caps) AND NOT 0x3"
  have w1: "bit w1 k \<longleftrightarrow> k \<in> usable" for k
  proof (cases "bit (PD_DP_PIN_CAPS caps) k")
    case True
    then have "k \<in> {0, 1, 2, 3, 4, 5}" using six by force
    moreover have n: "bit (w AND NOT m) k \<longleftrightarrow> bit w k \<and> \<not> bit m k" for w m :: u32
      by (auto simp: bit_and_iff bit_not_iff dest: bit_imp_le_length)
    ultimately show ?thesis using True unfolding w1_def usable_def
      by (cases "PD_VDO_DPSTS_MF_PREF status") (simp_all only: n bits_of_pins mem_Collect_eq if_True if_False simp_thms, auto)
  qed (simp add: w1_def usable_def bit_and_iff)
  define w2 where "w2 = (if w1 AND 0xc \<noteq> 0 then w1 AND NOT 0x30 else w1)"
  have ne: "w \<noteq> 0 \<longleftrightarrow> (\<exists>k. bit w k)" for w :: u32 by (metis bit_0_eq bit_eq_iff bot_apply bot_bool_def)
  have c: "w1 AND 0xc \<noteq> 0 \<longleftrightarrow> usable \<inter> {2, 3} \<noteq> {}" unfolding ne bit_and_iff bits_of_pins w1 by auto
  let ?S = "if usable \<inter> {2, 3} \<noteq> {} then usable \<inter> {2, 3} else usable"
  have w2: "bit w2 k \<longleftrightarrow> k \<in> ?S" for k
  proof (cases "k \<in> usable")
    case True
    then have "k \<in> {2, 3, 4, 5}" using six [of k] by (auto simp: usable_def)
    moreover have "bit w1 k" using True w1 by simp
    moreover have "bit (w1 AND NOT 0x30) k \<longleftrightarrow> bit w1 k \<and> k < 32 \<and> \<not> (k = 4 \<or> k = 5)"
      by (auto simp only: bit_and_iff bit_not_iff bits_of_pins) (auto dest: bit_imp_le_length)
    ultimately show ?thesis using True unfolding w2_def c by auto
  qed (auto simp: w2_def bit_and_iff w1)
  have z: "w2 = 0 \<longleftrightarrow> usable = {}" using ne [of w2] w2 by (auto split: if_splits)
  have "pin_of_caps caps status = (if w2 = 0 then 0 else push_bit (fst (get_next_bit w2)) 1)"
    by (simp add: pin_of_caps_def Let_def w1_def w2_def)
  then show ?thesis using z get_next_bit_Max [OF _ w2] by auto
qed

end
