(* ===== verification/PD_Protocol.thy ===== *)
theory PD_Protocol
  imports PD_Alt_Mode
begin

text \<open>
  The protocol layer of USB Power Delivery: the state of a port, messages, and the handlers of
  incoming messages of common/usb_pd_protocol.c, in the configuration of the board reef_it8320 (dual
  role, Try.SRC, VCONN swap, alternate modes, charge manager; no revision 3.0 and no automatic
  toggling), with the board's policy (board/reef_it8320/usb_pd_policy.c). One port is modelled; what
  the code reads of the other ports is part of the environment. The flag word is the set of its
  flags. Times are counts of microseconds that do not wrap, and the readings of the clock within one
  phase of the task agree. What the type-C port controller does is the fields \<open>cc_pull\<close>,
  \<open>vconn_en\<close>, \<open>rx_enable\<close> and the log of calls; \<open>vbus_en\<close> is the board's switch for VBUS.
\<close>

section \<open>States and flags\<close>

datatype pd_states =
    PD_STATE_DISABLED | PD_STATE_SUSPENDED
  | PD_STATE_SNK_DISCONNECTED | PD_STATE_SNK_DISCONNECTED_DEBOUNCE | PD_STATE_SNK_HARD_RESET_RECOVER
  | PD_STATE_SNK_DISCOVERY | PD_STATE_SNK_REQUESTED | PD_STATE_SNK_TRANSITION | PD_STATE_SNK_READY
  | PD_STATE_SNK_SWAP_INIT | PD_STATE_SNK_SWAP_SNK_DISABLE | PD_STATE_SNK_SWAP_SRC_DISABLE
  | PD_STATE_SNK_SWAP_STANDBY | PD_STATE_SNK_SWAP_COMPLETE
  | PD_STATE_SRC_DISCONNECTED | PD_STATE_SRC_DISCONNECTED_DEBOUNCE | PD_STATE_SRC_HARD_RESET_RECOVER
  | PD_STATE_SRC_STARTUP | PD_STATE_SRC_DISCOVERY | PD_STATE_SRC_NEGOCIATE | PD_STATE_SRC_ACCEPTED
  | PD_STATE_SRC_POWERED | PD_STATE_SRC_TRANSITION | PD_STATE_SRC_READY | PD_STATE_SRC_GET_SINK_CAP
  | PD_STATE_DR_SWAP
  | PD_STATE_SRC_SWAP_INIT | PD_STATE_SRC_SWAP_SNK_DISABLE | PD_STATE_SRC_SWAP_SRC_DISABLE
  | PD_STATE_SRC_SWAP_STANDBY
  | PD_STATE_VCONN_SWAP_SEND | PD_STATE_VCONN_SWAP_INIT | PD_STATE_VCONN_SWAP_READY
  | PD_STATE_SOFT_RESET | PD_STATE_HARD_RESET_SEND | PD_STATE_HARD_RESET_EXECUTE
  | PD_STATE_BIST_RX | PD_STATE_BIST_TX

datatype pd_flag =
    PD_FLAGS_PING_ENABLED | PD_FLAGS_PARTNER_DR_POWER | PD_FLAGS_PARTNER_DR_DATA | PD_FLAGS_CHECK_IDENTITY
  | PD_FLAGS_SNK_CAP_RECVD | PD_FLAGS_TCPC_DRP_TOGGLE | PD_FLAGS_EXPLICIT_CONTRACT | PD_FLAGS_VBUS_NEVER_LOW
  | PD_FLAGS_PREVIOUS_PD_CONN | PD_FLAGS_CHECK_PR_ROLE | PD_FLAGS_CHECK_DR_ROLE | PD_FLAGS_PARTNER_EXTPOWER
  | PD_FLAGS_VCONN_ON | PD_FLAGS_TRY_SRC | PD_FLAGS_PARTNER_USB_COMM | PD_FLAGS_UPDATE_SRC_CAPS
  | PD_FLAGS_TS_DTS_PARTNER

definition PD_FLAGS_RESET_ON_DISCONNECT_MASK :: "pd_flag set" where
  "PD_FLAGS_RESET_ON_DISCONNECT_MASK =
     {PD_FLAGS_PARTNER_DR_POWER, PD_FLAGS_PARTNER_DR_DATA, PD_FLAGS_CHECK_IDENTITY, PD_FLAGS_SNK_CAP_RECVD,
      PD_FLAGS_TCPC_DRP_TOGGLE, PD_FLAGS_EXPLICIT_CONTRACT, PD_FLAGS_PREVIOUS_PD_CONN, PD_FLAGS_CHECK_PR_ROLE,
      PD_FLAGS_CHECK_DR_ROLE, PD_FLAGS_PARTNER_EXTPOWER, PD_FLAGS_VCONN_ON, PD_FLAGS_TRY_SRC,
      PD_FLAGS_PARTNER_USB_COMM, PD_FLAGS_UPDATE_SRC_CAPS, PD_FLAGS_TS_DTS_PARTNER}"

datatype pd_bbram_flag = PD_BBRMFLG_EXPLICIT_CONTRACT | PD_BBRMFLG_POWER_ROLE | PD_BBRMFLG_DATA_ROLE
datatype pd_power_role = PD_ROLE_SINK | PD_ROLE_SOURCE
datatype pd_data_role = PD_ROLE_UFP | PD_ROLE_DFP
datatype pd_cc_states = PD_CC_NONE | PD_CC_NO_UFP | PD_CC_AUDIO_ACC | PD_CC_DEBUG_ACC | PD_CC_UFP_ATTACHED | PD_CC_DFP_ATTACHED
datatype pd_dual_role_states = PD_DRP_TOGGLE_ON | PD_DRP_TOGGLE_OFF | PD_DRP_FREEZE | PD_DRP_FORCE_SINK | PD_DRP_FORCE_SOURCE
datatype tcpc_cc_pull = TYPEC_CC_RA | TYPEC_CC_RP | TYPEC_CC_RD | TYPEC_CC_OPEN
datatype tcpc_transmit_complete = TCPC_TX_COMPLETE_SUCCESS | TCPC_TX_COMPLETE_DISCARDED | TCPC_TX_COMPLETE_FAILED
datatype tcpm_transmit_type = TCPC_TX_SOP | TCPC_TX_HARD_RESET | TCPC_TX_BIST_MODE_2
datatype vdm_states =
    VDM_STATE_ERR_BUSY | VDM_STATE_ERR_SEND | VDM_STATE_ERR_TMOUT | VDM_STATE_DONE
  | VDM_STATE_READY | VDM_STATE_BUSY | VDM_STATE_WAIT_RSP_BUSY
datatype dualrole_cap = CAP_UNKNOWN | CAP_DUALROLE | CAP_DEDICATED
datatype ec_image = SYSTEM_IMAGE_UNKNOWN | SYSTEM_IMAGE_RO | SYSTEM_IMAGE_RW

text \<open>Voltages on a CC line are ordered as in the code, which compares them.\<close>

abbreviation (input) TYPEC_CC_VOLT_OPEN :: nat where "TYPEC_CC_VOLT_OPEN \<equiv> 0"
abbreviation (input) TYPEC_CC_VOLT_RA :: nat where "TYPEC_CC_VOLT_RA \<equiv> 1"
abbreviation (input) TYPEC_CC_VOLT_RD :: nat where "TYPEC_CC_VOLT_RD \<equiv> 2"
abbreviation (input) TYPEC_CC_VOLT_RP_DEF :: nat where "TYPEC_CC_VOLT_RP_DEF \<equiv> 5"
abbreviation (input) TYPEC_CC_VOLT_RP_1_5 :: nat where "TYPEC_CC_VOLT_RP_1_5 \<equiv> 6"
abbreviation (input) TYPEC_CC_VOLT_RP_3_0 :: nat where "TYPEC_CC_VOLT_RP_3_0 \<equiv> 7"

abbreviation (input) PD_CTRL_GOOD_CRC :: nat where "PD_CTRL_GOOD_CRC \<equiv> 1"
abbreviation (input) PD_CTRL_GOTO_MIN :: nat where "PD_CTRL_GOTO_MIN \<equiv> 2"
abbreviation (input) PD_CTRL_ACCEPT :: nat where "PD_CTRL_ACCEPT \<equiv> 3"
abbreviation (input) PD_CTRL_REJECT :: nat where "PD_CTRL_REJECT \<equiv> 4"
abbreviation (input) PD_CTRL_PING :: nat where "PD_CTRL_PING \<equiv> 5"
abbreviation (input) PD_CTRL_PS_RDY :: nat where "PD_CTRL_PS_RDY \<equiv> 6"
abbreviation (input) PD_CTRL_GET_SOURCE_CAP :: nat where "PD_CTRL_GET_SOURCE_CAP \<equiv> 7"
abbreviation (input) PD_CTRL_GET_SINK_CAP :: nat where "PD_CTRL_GET_SINK_CAP \<equiv> 8"
abbreviation (input) PD_CTRL_DR_SWAP :: nat where "PD_CTRL_DR_SWAP \<equiv> 9"
abbreviation (input) PD_CTRL_PR_SWAP :: nat where "PD_CTRL_PR_SWAP \<equiv> 10"
abbreviation (input) PD_CTRL_VCONN_SWAP :: nat where "PD_CTRL_VCONN_SWAP \<equiv> 11"
abbreviation (input) PD_CTRL_WAIT :: nat where "PD_CTRL_WAIT \<equiv> 12"
abbreviation (input) PD_CTRL_SOFT_RESET :: nat where "PD_CTRL_SOFT_RESET \<equiv> 13"
abbreviation (input) PD_DATA_SOURCE_CAP :: nat where "PD_DATA_SOURCE_CAP \<equiv> 1"
abbreviation (input) PD_DATA_REQUEST :: nat where "PD_DATA_REQUEST \<equiv> 2"
abbreviation (input) PD_DATA_BIST :: nat where "PD_DATA_BIST \<equiv> 3"
abbreviation (input) PD_DATA_SINK_CAP :: nat where "PD_DATA_SINK_CAP \<equiv> 4"
abbreviation (input) PD_DATA_VENDOR_DEF :: nat where "PD_DATA_VENDOR_DEF \<equiv> 15"
abbreviation (input) PD_REV20 :: nat where "PD_REV20 \<equiv> 1"
abbreviation (input) MSEC :: nat where "MSEC \<equiv> 1000"
abbreviation (input) VDO_MAX_SIZE :: nat where "VDO_MAX_SIZE \<equiv> 7"
abbreviation (input) PD_MIN_MA :: int where "PD_MIN_MA \<equiv> 500"
abbreviation (input) CHARGE_CEIL_NONE :: int where "CHARGE_CEIL_NONE \<equiv> - 1"

section \<open>The port\<close>

record pd_protocol =
  power_role :: pd_power_role
  data_role :: pd_data_role
  msg_id :: nat
  polarity :: bool
  task_state :: pd_states
  last_state :: pd_states
  req_suspend_state :: bool
  timeout_state :: pd_states
  flags :: "pd_flag set"
  timeout :: nat
  src_recover :: nat
  cc_debounce :: nat
  cc_state :: pd_cc_states
  tx_status :: tcpc_transmit_complete
  requested_idx :: nat
  curr_limit :: u32
  supply_voltage :: u32
  new_power_request :: bool
  prev_request_mv :: u32
  try_src_marker :: nat
  try_timeout :: nat
  vbus_debounce_time :: nat
  vdm_state :: vdm_states
  vdm_timeout :: nat
  vdo_data :: "u32 list"
  vdo_count :: nat
  vdo_retry :: u32
  dev_id :: u16
  dev_rw_hash :: "u32 list"
  current_image :: ec_image
  snk_ready_holdoff_timer :: nat

datatype pd_call =
    Transmit tcpm_transmit_type u16 "u32 list"
  | SetMsgHeader pd_power_role pd_data_role
  | SetPolarity bool
  | SelectRp
  | Charge pd_charge_call
  | ForceCeil int
  | TypecLimit u32 u32
  | UpdateDualrole dualrole_cap
  | SelectInputPort bool
  | SourcePort bool
  | Discharge bool
  | PowerChangeEvent
  | UpdateDeviceEvent
  | UsbMux typec_mux bool bool
  | UsbMuxFlip
  | UsbMuxInit
  | ModeDriver reef_call
  | LogRecv nat "u32 list"
  | SleepPd bool
  | DisconnectHook
  | BillboardDeferred
  | ResumeDeferred
  | TaskWake
  | DualRoleEvent
  | PowerStateEvent
  | TcpcResetEvent
  | TcpcInit
  | TcpcRelease
  | TcpcPowerOn
  | ClearPendingMessages
  | Usleep nat

text \<open>
  The port: the structure of the code, the statics that belong to the port, the hardware, the
  policy's parts, and the local variables of the port's task.
\<close>

record pd_port = pd_protocol +
  pd_comm_enabled :: bool
  drp_state :: pd_dual_role_states
  pd_try_src_enable :: bool
  bbram :: "pd_bbram_flag set option"
  rw_hash_table :: "(u16 \<times> u32 list) list"
  cc_pull :: tcpc_cc_pull
  vbus_en :: bool
  vconn_en :: bool
  rx_enable :: bool
  snk :: pd_sink
  alt :: "reef pol"
  wait_time :: nat
  hard_reset_count :: nat
  next_role_swap :: nat
  snk_hard_reset_vbus_off :: bool
  typec_curr :: u32
  typec_curr_change :: bool
  next_src_cap :: nat
  caps_count :: nat
  hard_reset_sent :: bool
  snk_cap_count :: nat
  pd_calls :: "pd_call list"

text \<open>What a transmission does: it completes, times out, or a completion of an earlier one is still pending.\<close>

datatype tx_result = TxComplete tcpc_transmit_complete | TxTimeout | TxStale

text \<open>
  One round of the task: the events that woke it, the message that is pending, and what the board,
  the port controller and the clock answer in each phase of the round. Each phase transmits at most
  once.
\<close>

record pd_env =
  ev_power :: bool
  ev_dual_role :: bool
  ev_tcpc_reset :: bool
  rx_msg :: "(u16 \<times> u32 list) option"
  rx_more :: bool
  tx_vdm :: tx_result
  tx_power :: tx_result
  tx_rx :: tx_result
  tx_state :: tx_result
  t_vdm :: nat
  t_power :: nat
  t_rx :: nat
  t_state :: nat
  t_sent :: nat
  t_check :: nat
  t_disc :: nat
  cc_reset :: "nat \<times> nat"
  cc_seen :: "nat \<times> nat"
  cc_disc :: "nat \<times> nat"
  vbus_seen :: bool
  vbus_again :: bool
  vbus_disc :: bool
  supply_fails :: bool
  set_cc_open_ok :: bool
  chipset_off :: bool
  others_capable :: bool
  active_charge_port :: bool
  in_rw :: bool
  pp5000_on :: bool
  src_pdos :: "u32 list"
  snk_pdos :: "u32 list"
  power_cfg :: pd_power_cfg
  null_word :: u16
  release_result :: int
  restart_fails :: bool
  supply_on_delay :: nat
  supply_off_delay :: nat
  vconn_swap_delay :: nat

definition pd_do :: "pd_call \<Rightarrow> pd_port \<Rightarrow> pd_port" where
  "pd_do c s = s\<lparr>pd_calls := pd_calls s @ [c]\<rparr>"

definition set_pd_flag :: "pd_flag \<Rightarrow> pd_port \<Rightarrow> pd_port" where
  "set_pd_flag f s = s\<lparr>flags := insert f (flags s)\<rparr>"

definition clear_pd_flag :: "pd_flag \<Rightarrow> pd_port \<Rightarrow> pd_port" where
  "clear_pd_flag f s = s\<lparr>flags := flags s - {f}\<rparr>"

section \<open>Questions about a port\<close>

definition pd_is_connected :: "pd_port \<Rightarrow> bool" where
  "pd_is_connected s \<longleftrightarrow> task_state s \<noteq> PD_STATE_DISABLED \<and>
     (case power_role s of
        PD_ROLE_SINK \<Rightarrow> task_state s \<notin> {PD_STATE_SNK_DISCONNECTED, PD_STATE_SNK_DISCONNECTED_DEBOUNCE}
      | PD_ROLE_SOURCE \<Rightarrow> task_state s \<notin> {PD_STATE_SRC_DISCONNECTED, PD_STATE_SRC_DISCONNECTED_DEBOUNCE})"

definition READY_RETURN_STATE :: "pd_port \<Rightarrow> pd_states" where
  "READY_RETURN_STATE s = (case power_role s of PD_ROLE_SINK \<Rightarrow> PD_STATE_SNK_READY | PD_ROLE_SOURCE \<Rightarrow> PD_STATE_SRC_READY)"

definition disconnected_state :: "pd_port \<Rightarrow> pd_states" where
  "disconnected_state s =
     (case power_role s of PD_ROLE_SINK \<Rightarrow> PD_STATE_SNK_DISCONNECTED | PD_ROLE_SOURCE \<Rightarrow> PD_STATE_SRC_DISCONNECTED)"

definition pd_ts_dts_plugged :: "pd_port \<Rightarrow> bool" where
  "pd_ts_dts_plugged s \<longleftrightarrow> PD_FLAGS_TS_DTS_PARTNER \<in> flags s"

definition pd_capable :: "pd_port \<Rightarrow> bool" where
  "pd_capable s \<longleftrightarrow> PD_FLAGS_PREVIOUS_PD_CONN \<in> flags s"

definition pd_get_partner_usb_comm_capable :: "pd_port \<Rightarrow> bool" where
  "pd_get_partner_usb_comm_capable s \<longleftrightarrow> PD_FLAGS_PARTNER_USB_COMM \<in> flags s"

definition pd_get_partner_data_swap_capable :: "pd_port \<Rightarrow> bool" where
  "pd_get_partner_data_swap_capable s \<longleftrightarrow> PD_FLAGS_PARTNER_DR_DATA \<in> flags s"

definition pd_is_port_enabled :: "pd_port \<Rightarrow> bool" where
  "pd_is_port_enabled s \<longleftrightarrow> task_state s \<notin> {PD_STATE_DISABLED, PD_STATE_SUSPENDED}"

definition pd_is_power_swapping :: "pd_port \<Rightarrow> bool" where
  "pd_is_power_swapping s \<longleftrightarrow> task_state s \<in>
     {PD_STATE_SNK_SWAP_SNK_DISABLE, PD_STATE_SNK_SWAP_SRC_DISABLE, PD_STATE_SNK_SWAP_STANDBY, PD_STATE_SNK_SWAP_COMPLETE,
      PD_STATE_SRC_SWAP_SNK_DISABLE, PD_STATE_SRC_SWAP_SRC_DISABLE, PD_STATE_SRC_SWAP_STANDBY}"

definition pdo_busy :: "pd_port \<Rightarrow> bool" where
  "pdo_busy s \<longleftrightarrow> task_state s \<noteq> PD_STATE_SRC_READY \<and> task_state s \<noteq> PD_STATE_SNK_READY"

definition cc_is_rp :: "nat \<Rightarrow> bool" where
  "cc_is_rp cc \<longleftrightarrow> cc = TYPEC_CC_VOLT_RP_DEF \<or> cc = TYPEC_CC_VOLT_RP_1_5 \<or> cc = TYPEC_CC_VOLT_RP_3_0"

definition get_snk_polarity :: "nat \<Rightarrow> nat \<Rightarrow> bool" where
  "get_snk_polarity cc1 cc2 \<longleftrightarrow> cc2 > cc1"

text \<open>The flag TYPEC_CURRENT_DTS_MASK is bit 31 of the current.\<close>

definition get_typec_current_limit :: "bool \<Rightarrow> nat \<Rightarrow> nat \<Rightarrow> u32" where
  "get_typec_current_limit pol cc1 cc2 =
     (let cc = (if pol then cc2 else cc1); cc_alt = (if pol then cc1 else cc2);
          charge = (if cc = TYPEC_CC_VOLT_RP_3_0 \<and> cc_alt \<noteq> TYPEC_CC_VOLT_RP_1_5 then 3000
                    else if cc = TYPEC_CC_VOLT_RP_1_5 then 1500 else 0)
      in if cc_is_rp cc_alt then charge OR push_bit 31 1 else charge)"

section \<open>The board\<close>

definition pd_set_power_supply_ready :: "pd_env \<Rightarrow> pd_port \<Rightarrow> bool \<times> pd_port" where
  "pd_set_power_supply_ready env s =
     (if supply_fails env then (False, s)
      else (True, pd_do PowerChangeEvent (pd_do (Discharge False) (pd_do (SourcePort True) (pd_do (SelectInputPort False) s))\<lparr>vbus_en := True\<rparr>)))"

definition pd_power_supply_reset :: "pd_port \<Rightarrow> pd_port" where
  "pd_power_supply_reset s =
     (let prev_en = vbus_en s; s = s\<lparr>vbus_en := False\<rparr>;
          s = (if prev_en then pd_do (Discharge True) s else s)
      in pd_do PowerChangeEvent (pd_do (SourcePort False) s))"

definition pd_check_power_swap :: "pd_port \<Rightarrow> bool" where
  "pd_check_power_swap s \<longleftrightarrow> drp_state s = PD_DRP_TOGGLE_ON"

definition pd_check_data_swap :: "pd_env \<Rightarrow> pd_port \<Rightarrow> bool" where
  "pd_check_data_swap env s \<longleftrightarrow> data_role s = PD_ROLE_UFP \<and> in_rw env"

definition pd_check_vconn_swap :: "pd_env \<Rightarrow> bool" where
  "pd_check_vconn_swap env \<longleftrightarrow> pp5000_on env"

section \<open>Changing the state\<close>

definition set_state_timeout :: "nat \<Rightarrow> pd_states \<Rightarrow> pd_port \<Rightarrow> pd_port" where
  "set_state_timeout t st s = s\<lparr>timeout := t, timeout_state := st\<rparr>"

definition set_polarity :: "bool \<Rightarrow> pd_port \<Rightarrow> pd_port" where
  "set_polarity pol s = pd_do (SetPolarity pol) s"

definition set_vconn :: "bool \<Rightarrow> pd_port \<Rightarrow> pd_port" where
  "set_vconn enable s = s\<lparr>vconn_en := enable\<rparr>"

definition tcpm_set_cc :: "tcpc_cc_pull \<Rightarrow> pd_port \<Rightarrow> pd_port" where
  "tcpm_set_cc pull s = s\<lparr>cc_pull := pull\<rparr>"

definition tcpm_set_rx_enable :: "bool \<Rightarrow> pd_port \<Rightarrow> pd_port" where
  "tcpm_set_rx_enable enable s = s\<lparr>rx_enable := enable\<rparr>"

definition pd_update_saved_port_flags :: "pd_bbram_flag \<Rightarrow> bool \<Rightarrow> pd_port \<Rightarrow> pd_port" where
  "pd_update_saved_port_flags f val s =
     (case bbram s of
        None \<Rightarrow> s
      | Some fs \<Rightarrow> s\<lparr>bbram := Some (if val then insert f fs else fs - {f})\<rparr>)"

definition input_limit :: "u32 \<Rightarrow> u32 \<Rightarrow> pd_port \<Rightarrow> pd_port" where
  "input_limit ma mv s = pd_do (Charge (SetInputCurrentLimit ma mv)) s"

definition pd_ceil :: "int \<Rightarrow> pd_port \<Rightarrow> pd_port" where
  "pd_ceil ma s = pd_do (Charge (SetPdCeil ma)) s"

text \<open>
  The calls that the policy and its drivers made: a mode driver may queue a message, and the policy
  may ask for a swap of VCONN, or cut VBUS.
\<close>

definition queue_vdm :: "u32 \<Rightarrow> u32 list \<Rightarrow> pd_port \<Rightarrow> pd_port" where
  "queue_vdm header data s =
     s\<lparr>vdo_count := length data + 1, vdo_data := write_at (write_at (vdo_data s) 0 [header]) 1 data, vdm_state := VDM_STATE_READY\<rparr>"

definition pd_send_vdm :: "u16 \<Rightarrow> u32 \<Rightarrow> u32 list \<Rightarrow> pd_port \<Rightarrow> pd_port" where
  "pd_send_vdm vid cmd data s =
     (if length data > VDO_MAX_SIZE - 1 then s
      else let structured = (if vid AND USB_SID_PD = USB_SID_PD then 1 else if PD_VDO_CMD cmd \<le> CMD_ATTENTION then 1 else 0)
           in pd_do TaskWake (queue_vdm (VDO vid structured cmd) data s))"

abbreviation (input) VDO_CMD_VERSION :: nat where "VDO_CMD_VERSION \<equiv> 10"
abbreviation (input) VDO_CMD_SEND_INFO :: nat where "VDO_CMD_SEND_INFO \<equiv> 11"
abbreviation (input) VDO_CMD_READ_INFO :: nat where "VDO_CMD_READ_INFO \<equiv> 12"
abbreviation (input) VDO_CMD_REBOOT :: nat where "VDO_CMD_REBOOT \<equiv> 15"
abbreviation (input) VDO_CMD_FLASH_ERASE :: nat where "VDO_CMD_FLASH_ERASE \<equiv> 16"
abbreviation (input) VDO_CMD_FLASH_WRITE :: nat where "VDO_CMD_FLASH_WRITE \<equiv> 17"
abbreviation (input) VDO_CMD_ERASE_SIG :: nat where "VDO_CMD_ERASE_SIG \<equiv> 18"
abbreviation (input) VDO_CMD_FLIP :: nat where "VDO_CMD_FLIP \<equiv> 22"
abbreviation (input) VDO_CMD_GET_LOG :: nat where "VDO_CMD_GET_LOG \<equiv> 23"

definition driver_call :: "reef_call \<Rightarrow> pd_port \<Rightarrow> pd_port" where
  "driver_call c s =
     (case c of SendReadInfo \<Rightarrow> pd_send_vdm USB_VID_GOOGLE (word_of_nat VDO_CMD_READ_INFO) [] s | _ \<Rightarrow> pd_do (ModeDriver c) s)"

text \<open>The policy and its drivers run on empty logs; their calls are made afterwards, in order.\<close>

definition policy_in :: "pd_port \<Rightarrow> reef pol" where
  "policy_in s = (alt s)\<lparr>pol_calls := [], drv := (drv (alt s))\<lparr>reef_calls := []\<rparr>\<rparr>"

definition policy_out :: "reef pol \<Rightarrow> pd_port \<Rightarrow> pd_port" where
  "policy_out p s = fold driver_call (reef_calls (drv p)) (s\<lparr>alt := p\<rparr>)"

definition exit_modes :: "pd_env \<Rightarrow> pd_port \<Rightarrow> pd_port" where
  "exit_modes env s = policy_out (snd (pd_dfp_exit_mode (reef_cfg (null_word env)) 0 0 (policy_in s))) s"

text \<open>What \<open>set_state\<close> does on the way to a disconnected state.\<close>

definition enter_disconnected :: "pd_env \<Rightarrow> pd_port \<Rightarrow> pd_port" where
  "enter_disconnected env s =
     (let s = s\<lparr>snk_ready_holdoff_timer := 0\<rparr>;
          s = pd_ceil CHARGE_CEIL_NONE (pd_do (TypecLimit 0 0) (input_limit 0 0 s));
          s = pd_update_saved_port_flags PD_BBRMFLG_EXPLICIT_CONTRACT False (set_vconn False s);
          s = (if power_role s = PD_ROLE_SOURCE then tcpm_set_cc TYPEC_CC_RP (pd_do SelectRp (pd_power_supply_reset s)) else s);
          s = s\<lparr>dev_id := 0, flags := flags s - PD_FLAGS_RESET_ON_DISCONNECT_MASK\<rparr>;
          s = exit_modes env (pd_do (UpdateDualrole CAP_UNKNOWN) s);
          s = tcpm_set_rx_enable False (pd_do (UsbMux TYPEC_MUX_NONE False (polarity s)) s)
      in pd_do DisconnectHook s)"

definition set_state :: "pd_env \<Rightarrow> pd_states \<Rightarrow> pd_port \<Rightarrow> pd_port" where
  "set_state env next_state s =
     (let last = task_state s; s = set_state_timeout 0 PD_STATE_DISABLED s\<lparr>task_state := next_state\<rparr>
      in if last = next_state then s
         else if last = PD_STATE_SNK_DISCONNECTED \<and> next_state = PD_STATE_SRC_DISCONNECTED
               \<or> last = PD_STATE_SRC_DISCONNECTED \<and> next_state = PD_STATE_SNK_DISCONNECTED then s
         else let s = (if next_state = PD_STATE_SRC_DISCONNECTED \<or> next_state = PD_STATE_SNK_DISCONNECTED
                       then enter_disconnected env s else s)
              in pd_do (SleepPd (\<not> (pd_capable s \<or> others_capable env))) s)"

section \<open>Sending messages\<close>

definition PD_HEADER :: "nat \<Rightarrow> nat \<Rightarrow> nat \<Rightarrow> nat \<Rightarrow> nat \<Rightarrow> nat \<Rightarrow> nat \<Rightarrow> u16" where
  "PD_HEADER type prole drole mid cnt rv ext =
     word_of_nat type OR push_bit 6 (word_of_nat rv) OR push_bit 5 (word_of_nat drole) OR push_bit 8 (word_of_nat prole)
     OR push_bit 9 (word_of_nat mid) OR push_bit 12 (word_of_nat cnt) OR push_bit 15 (word_of_nat ext)"

definition PD_HEADER_CNT :: "u16 \<Rightarrow> nat" where "PD_HEADER_CNT header = unat (drop_bit 12 header AND 7)"
definition PD_HEADER_TYPE :: "u16 \<Rightarrow> nat" where "PD_HEADER_TYPE header = unat (header AND 0x1F)"
definition PD_HEADER_ID :: "u16 \<Rightarrow> nat" where "PD_HEADER_ID header = unat (drop_bit 9 header AND 7)"
definition PD_HEADER_REV :: "u16 \<Rightarrow> nat" where "PD_HEADER_REV header = unat (drop_bit 6 header AND 3)"
definition PD_HEADER_DROLE :: "u16 \<Rightarrow> nat" where "PD_HEADER_DROLE header = unat (drop_bit 5 header AND 1)"

definition prole_bit :: "pd_power_role \<Rightarrow> nat" where
  "prole_bit r = (case r of PD_ROLE_SINK \<Rightarrow> 0 | PD_ROLE_SOURCE \<Rightarrow> 1)"

definition drole_bit :: "pd_data_role \<Rightarrow> nat" where
  "drole_bit r = (case r of PD_ROLE_UFP \<Rightarrow> 0 | PD_ROLE_DFP \<Rightarrow> 1)"

definition msg_header :: "nat \<Rightarrow> nat \<Rightarrow> pd_port \<Rightarrow> u16" where
  "msg_header type cnt s = PD_HEADER type (prole_bit (power_role s)) (drole_bit (data_role s)) (msg_id s) cnt PD_REV20 0"

definition inc_id :: "pd_port \<Rightarrow> pd_port" where
  "inc_id s = s\<lparr>msg_id := (msg_id s + 1) AND 7\<rparr>"

definition pd_transmit_complete :: "tcpc_transmit_complete \<Rightarrow> pd_port \<Rightarrow> pd_port" where
  "pd_transmit_complete status s =
     (let s = (if status = TCPC_TX_COMPLETE_SUCCESS then inc_id s else s) in s\<lparr>tx_status := status\<rparr>)"

text \<open>A successful transmission is \<open>True\<close> (the code returns 1), a failed one \<open>False\<close> (it returns -1).\<close>

definition pd_transmit :: "tx_result \<Rightarrow> tcpm_transmit_type \<Rightarrow> u16 \<Rightarrow> u32 list \<Rightarrow> pd_port \<Rightarrow> bool \<times> pd_port" where
  "pd_transmit tx type header data s =
     (if \<not> pd_comm_enabled s then (False, s)
      else let s = pd_do (Transmit type header data) s
           in case tx of
                TxTimeout \<Rightarrow> (False, s)
              | TxStale \<Rightarrow> (tx_status s = TCPC_TX_COMPLETE_SUCCESS, s)
              | TxComplete status \<Rightarrow> let s = pd_transmit_complete status s in (tx_status s = TCPC_TX_COMPLETE_SUCCESS, s))"

definition pd_update_roles :: "pd_port \<Rightarrow> pd_port" where
  "pd_update_roles s = pd_do (SetMsgHeader (power_role s) (data_role s)) s"

definition send_control :: "tx_result \<Rightarrow> nat \<Rightarrow> pd_port \<Rightarrow> bool \<times> pd_port" where
  "send_control tx type s = pd_transmit tx TCPC_TX_SOP (msg_header type 0 s) [] s"

definition send_source_cap :: "pd_env \<Rightarrow> tx_result \<Rightarrow> pd_port \<Rightarrow> bool \<times> pd_port" where
  "send_source_cap env tx s =
     (let pdos = src_pdos env
      in if length pdos = 0 then pd_transmit tx TCPC_TX_SOP (msg_header PD_CTRL_REJECT 0 s) pdos s
         else pd_transmit tx TCPC_TX_SOP (msg_header PD_DATA_SOURCE_CAP (length pdos) s) pdos s)"

definition send_sink_cap :: "pd_env \<Rightarrow> tx_result \<Rightarrow> pd_port \<Rightarrow> pd_port" where
  "send_sink_cap env tx s =
     snd (pd_transmit tx TCPC_TX_SOP (msg_header PD_DATA_SINK_CAP (length (snk_pdos env)) s) (snk_pdos env) s)"

definition send_request :: "tx_result \<Rightarrow> u32 \<Rightarrow> pd_port \<Rightarrow> bool \<times> pd_port" where
  "send_request tx rdo s = pd_transmit tx TCPC_TX_SOP (msg_header PD_DATA_REQUEST 1 s) [rdo] s"

definition send_bist_cmd :: "tx_result \<Rightarrow> pd_port \<Rightarrow> pd_port" where
  "send_bist_cmd tx s = snd (pd_transmit tx TCPC_TX_SOP (msg_header PD_DATA_BIST 1 s) [push_bit 28 5] s)"

section \<open>Roles and resets\<close>

definition set_usb_mux_with_current_data_role :: "pd_env \<Rightarrow> pd_port \<Rightarrow> pd_port" where
  "set_usb_mux_with_current_data_role env s =
     (if chipset_off env then pd_do (UsbMux TYPEC_MUX_NONE False (polarity s)) s
      else if data_role s = PD_ROLE_DFP then pd_do (UsbMux TYPEC_MUX_USB True (polarity s)) s
      else pd_do (UsbMux TYPEC_MUX_NONE False (polarity s)) s)"

definition pd_set_data_role :: "pd_env \<Rightarrow> pd_data_role \<Rightarrow> pd_port \<Rightarrow> pd_port" where
  "pd_set_data_role env role s =
     pd_update_roles (set_usb_mux_with_current_data_role env
       (pd_update_saved_port_flags PD_BBRMFLG_DATA_ROLE (role = PD_ROLE_DFP) (s\<lparr>data_role := role\<rparr>)))"

definition pd_set_power_role :: "pd_power_role \<Rightarrow> pd_port \<Rightarrow> pd_port" where
  "pd_set_power_role role s = pd_update_saved_port_flags PD_BBRMFLG_POWER_ROLE (role = PD_ROLE_SOURCE) (s\<lparr>power_role := role\<rparr>)"

definition pd_dr_swap :: "pd_env \<Rightarrow> pd_port \<Rightarrow> pd_port" where
  "pd_dr_swap env s =
     set_pd_flag PD_FLAGS_CHECK_IDENTITY
       (pd_set_data_role env (case data_role s of PD_ROLE_UFP \<Rightarrow> PD_ROLE_DFP | PD_ROLE_DFP \<Rightarrow> PD_ROLE_UFP) s)"

definition role_of_power :: "pd_power_role \<Rightarrow> pd_data_role" where
  "role_of_power r = (case r of PD_ROLE_SINK \<Rightarrow> PD_ROLE_UFP | PD_ROLE_SOURCE \<Rightarrow> PD_ROLE_DFP)"

abbreviation (input) PD_T_SRC_RECOVER :: nat where "PD_T_SRC_RECOVER \<equiv> 760 * MSEC"

definition pd_execute_hard_reset :: "pd_env \<Rightarrow> nat \<Rightarrow> pd_port \<Rightarrow> pd_port" where
  "pd_execute_hard_reset env now s =
     (let s = exit_modes env (s\<lparr>msg_id := 0\<rparr>);
          s = s\<lparr>last_state := PD_STATE_HARD_RESET_EXECUTE\<rparr>;
          s = (if task_state s = PD_STATE_SNK_SWAP_STANDBY \<or> task_state s = PD_STATE_SNK_SWAP_COMPLETE
               then pd_power_supply_reset (tcpm_set_cc TYPEC_CC_RD s) else s);
          s = pd_set_data_role env (role_of_power (power_role s)) s
      in if power_role s = PD_ROLE_SINK
         then let s = pd_ceil CHARGE_CEIL_NONE (input_limit 0 0 s);
                  s = (if PD_FLAGS_VCONN_ON \<in> flags s then clear_pd_flag PD_FLAGS_VCONN_ON (set_vconn False s) else s)
              in set_state env PD_STATE_SNK_HARD_RESET_RECOVER s
         else let s = (pd_power_supply_reset s)\<lparr>src_recover := now + PD_T_SRC_RECOVER\<rparr>
              in set_state env PD_STATE_SRC_HARD_RESET_RECOVER (set_vconn False s))"

definition execute_soft_reset :: "pd_env \<Rightarrow> pd_port \<Rightarrow> pd_port" where
  "execute_soft_reset env s =
     set_state env (case power_role s of PD_ROLE_SINK \<Rightarrow> PD_STATE_SNK_DISCOVERY | PD_ROLE_SOURCE \<Rightarrow> PD_STATE_SRC_DISCOVERY)
       (s\<lparr>msg_id := 0\<rparr>)"

definition pd_request_power_swap :: "pd_env \<Rightarrow> pd_port \<Rightarrow> pd_port" where
  "pd_request_power_swap env s =
     pd_do TaskWake
       (if task_state s = PD_STATE_SRC_READY then set_state env PD_STATE_SRC_SWAP_INIT s
        else if task_state s = PD_STATE_SNK_READY then set_state env PD_STATE_SNK_SWAP_INIT s else s)"

definition pd_request_vconn_swap :: "pd_env \<Rightarrow> pd_port \<Rightarrow> pd_port" where
  "pd_request_vconn_swap env s =
     pd_do TaskWake
       (if task_state s = PD_STATE_SRC_READY \<or> task_state s = PD_STATE_SNK_READY
        then set_state env PD_STATE_VCONN_SWAP_SEND s else s)"

definition pd_try_vconn_src :: "pd_env \<Rightarrow> pd_port \<Rightarrow> pd_port" where
  "pd_try_vconn_src env s =
     (if PD_FLAGS_VCONN_ON \<notin> flags s \<and> pd_check_vconn_swap env then pd_request_vconn_swap env s else s)"

definition pd_request_data_swap :: "pd_env \<Rightarrow> pd_port \<Rightarrow> pd_port" where
  "pd_request_data_swap env s =
     pd_do TaskWake (if task_state s = READY_RETURN_STATE s then set_state env PD_STATE_DR_SWAP s else s)"

definition pd_check_pr_role :: "pd_env \<Rightarrow> pd_power_role \<Rightarrow> pd_port \<Rightarrow> pd_port" where
  "pd_check_pr_role env pr_role s =
     (if PD_FLAGS_PARTNER_DR_POWER \<in> flags s \<and> drp_state s = PD_DRP_TOGGLE_ON
      then let partner_extpower = (PD_FLAGS_PARTNER_EXTPOWER \<in> flags s)
           in if \<not> partner_extpower \<and> pr_role = PD_ROLE_SINK \<or> partner_extpower \<and> pr_role = PD_ROLE_SOURCE
              then pd_request_power_swap env s else s
      else s)"

definition pd_check_dr_role :: "pd_env \<Rightarrow> pd_data_role \<Rightarrow> pd_port \<Rightarrow> pd_port" where
  "pd_check_dr_role env dr_role s =
     (if PD_FLAGS_PARTNER_DR_DATA \<in> flags s \<and> dr_role = PD_ROLE_UFP \<and> in_rw env then pd_request_data_swap env s else s)"

section \<open>Asking for power\<close>

definition pd_send_request_msg :: "pd_env \<Rightarrow> tx_result \<Rightarrow> bool \<Rightarrow> pd_port \<Rightarrow> bool \<times> pd_port" where
  "pd_send_request_msg env tx always_send_request s =
     (let s = s\<lparr>new_power_request := False\<rparr>;
          (rdo, cl, sv) = pd_build_request (power_cfg env) (if active_charge_port env then PD_REQUEST_MAX else PD_REQUEST_VSAFE5V) (snk s)
      in if \<not> always_send_request \<and> prev_request_mv s = sv then (True, s)
         else let s = (if always_send_request then s else pd_do (ForceCeil PD_MIN_MA) s);
                  s = s\<lparr>curr_limit := cl, supply_voltage := sv, prev_request_mv := sv\<rparr>;
                  (ok, s) = send_request tx rdo s
              in if ok then (True, set_state env PD_STATE_SNK_REQUESTED s) else (False, s))"

definition flag_from :: "bool \<Rightarrow> pd_flag \<Rightarrow> pd_port \<Rightarrow> pd_port" where
  "flag_from b f s = (if b then set_pd_flag f s else clear_pd_flag f s)"

definition pd_update_pdo_flags :: "u32 \<Rightarrow> pd_port \<Rightarrow> pd_port" where
  "pd_update_pdo_flags pdo s =
     (let charge_whitelisted = (power_role s = PD_ROLE_SINK
            \<and> pd_charge_from_device (pd_get_identity_vid (pe (alt s))) (pd_get_identity_pid (pe (alt s))))
      in if pdo AND PDO_TYPE_MASK \<noteq> 0 then s
         else let s = flag_from (bit pdo 29) PD_FLAGS_PARTNER_DR_POWER s;
                  s = flag_from (bit pdo 27) PD_FLAGS_PARTNER_EXTPOWER s;
                  s = flag_from (bit pdo 26) PD_FLAGS_PARTNER_USB_COMM s;
                  s = flag_from (bit pdo 25) PD_FLAGS_PARTNER_DR_DATA s
              in pd_do (UpdateDualrole (if PD_FLAGS_PARTNER_DR_POWER \<notin> flags s \<or> PD_FLAGS_PARTNER_EXTPOWER \<in> flags s \<or> charge_whitelisted
                                        then CAP_DEDICATED else CAP_DUALROLE)) s)"

text \<open>The policy's part of the sink runs on an empty log, whose calls are then made.\<close>

definition process_source_cap :: "pd_env \<Rightarrow> u32 list \<Rightarrow> pd_port \<Rightarrow> pd_port" where
  "process_source_cap env caps s =
     (let k = pd_process_source_cap (power_cfg env) caps ((snk s)\<lparr>pd_charge_calls := []\<rparr>)
      in s\<lparr>snk := k\<lparr>pd_charge_calls := []\<rparr>, pd_calls := pd_calls s @ map Charge (pd_charge_calls k)\<rparr>)"

section \<open>Vendor defined messages\<close>

definition pd_dev_store_rw_hash :: "u16 \<Rightarrow> u32 list \<Rightarrow> ec_image \<Rightarrow> pd_port \<Rightarrow> bool \<times> pd_port" where
  "pd_dev_store_rw_hash did rw_hash img s =
     (let s = s\<lparr>dev_id := did, dev_rw_hash := rw_hash, current_image := img\<rparr>
      in (case find (\<lambda>e. fst e = did) (rw_hash_table s) of None \<Rightarrow> False | Some e \<Rightarrow> snd e = rw_hash, s))"

definition pd_custom_vdm :: "nat \<Rightarrow> u32 list \<Rightarrow> pd_port \<Rightarrow> pd_port" where
  "pd_custom_vdm cnt payload s =
     (let cmd = PD_VDO_CMD (payload ! 0)
      in if cnt = 0 then s
         else if cmd = VDO_CMD_READ_INFO \<or> cmd = VDO_CMD_SEND_INFO
         then if cnt = 7
              then let did = ucast (drop_bit 16 (payload ! 6)); is_rw = bit (payload ! 6) 0;
                       (is_latest, s) = pd_dev_store_rw_hash did (read_at payload 1 5) (if is_rw then SYSTEM_IMAGE_RW else SYSTEM_IMAGE_RO) s
                   in if \<not> is_rw \<or> \<not> is_latest then pd_do UpdateDeviceEvent s else s
              else if cnt = 6 then snd (pd_dev_store_rw_hash 0 (read_at payload 1 5) SYSTEM_IMAGE_UNKNOWN s)
              else s
         else if cmd = VDO_CMD_FLIP then pd_do UsbMuxFlip s
         else if cmd = VDO_CMD_GET_LOG then pd_do (LogRecv cnt payload) s
         else s)"

definition relay_call :: "pd_env \<Rightarrow> pol_call \<Rightarrow> pd_port \<Rightarrow> pd_port" where
  "relay_call env c s =
     (case c of
        TryVconnSrc \<Rightarrow> pd_try_vconn_src env s
      | PowerSupplyReset \<Rightarrow> pd_power_supply_reset s
      | UpdateDualroleDedicated \<Rightarrow> pd_do (UpdateDualrole CAP_DEDICATED) s)"

abbreviation (input) PD_T_VDM_BUSY :: nat where "PD_T_VDM_BUSY \<equiv> 100 * MSEC"

definition handle_vdm_request :: "pd_env \<Rightarrow> nat \<Rightarrow> u32 list \<Rightarrow> pd_port \<Rightarrow> pd_port option" where
  "handle_vdm_request env cnt payload s =
     (if vdm_state s = VDM_STATE_BUSY \<and> PD_VDO_CMDT (payload ! 0) = CMDT_RSP_BUSY
      then Some (s\<lparr>vdm_timeout := t_rx env + PD_T_VDM_BUSY, vdm_state := VDM_STATE_WAIT_RSP_BUSY,
                   vdo_retry := (payload ! 0 AND NOT VDO_CMDT_MASK) OR word_of_nat CMDT_INIT\<rparr>)
      else let s = (if vdm_state s = VDM_STATE_BUSY then s\<lparr>vdm_state := VDM_STATE_DONE\<rparr> else s)
           in if PD_VDO_SVDM (payload ! 0)
              then case pd_svdm (reef_cfg (null_word env)) cnt payload (policy_in s) of
                     None \<Rightarrow> None
                   | Some (rlen, rdata, p) \<Rightarrow>
                       let s = fold (relay_call env) (pol_calls p) (policy_out p s)
                       in Some (if rlen > 0 then queue_vdm (rdata ! 0) (read_at rdata 1 (nat rlen - 1)) s else s)
              else Some (pd_custom_vdm cnt payload s))"

section \<open>Incoming messages\<close>

definition handle_source_cap :: "pd_env \<Rightarrow> nat \<Rightarrow> u32 list \<Rightarrow> pd_port \<Rightarrow> pd_port" where
  "handle_source_cap env cnt payload s =
     (if task_state s \<in> {PD_STATE_SNK_DISCOVERY, PD_STATE_SNK_TRANSITION, PD_STATE_SNK_REQUESTED, PD_STATE_SNK_READY}
      then let s = pd_update_pdo_flags (payload ! 0) (set_pd_flag PD_FLAGS_PREVIOUS_PD_CONN s);
               s = process_source_cap env (take cnt payload) s
           in snd (pd_send_request_msg env (tx_rx env) True s)
      else s)"

definition handle_power_request :: "pd_env \<Rightarrow> nat \<Rightarrow> u32 list \<Rightarrow> pd_port \<Rightarrow> pd_port" where
  "handle_power_request env cnt payload s =
     (if power_role s = PD_ROLE_SOURCE \<and> cnt = 1 \<and> pd_check_requested_voltage (src_pdos env) (payload ! 0) = EC_SUCCESS
      then let (ok, s) = send_control (tx_rx env) PD_CTRL_ACCEPT s
           in if \<not> ok then s
              else let s = pd_update_saved_port_flags PD_BBRMFLG_EXPLICIT_CONTRACT True (set_pd_flag PD_FLAGS_EXPLICIT_CONTRACT s)
                   in set_state env PD_STATE_SRC_ACCEPTED (s\<lparr>requested_idx := RDO_POS (payload ! 0)\<rparr>)
      else set_state env PD_STATE_SRC_READY (snd (send_control (tx_rx env) PD_CTRL_REJECT s)))"

definition handle_data_request :: "pd_env \<Rightarrow> u16 \<Rightarrow> u32 list \<Rightarrow> pd_port \<Rightarrow> pd_port option" where
  "handle_data_request env head payload s =
     (let type = PD_HEADER_TYPE head; cnt = PD_HEADER_CNT head
      in if type = PD_DATA_SOURCE_CAP then Some (handle_source_cap env cnt payload s)
         else if type = PD_DATA_REQUEST then Some (handle_power_request env cnt payload s)
         else if type = PD_DATA_BIST
         then Some (if task_state s = READY_RETURN_STATE s \<and> drop_bit 28 (payload ! 0) = 5
                    then let s = snd (pd_transmit (tx_rx env) TCPC_TX_BIST_MODE_2 0 [] s)
                         in set_state env (disconnected_state s) s
                    else s)
         else if type = PD_DATA_SINK_CAP
         then Some (let s = pd_update_pdo_flags (payload ! 0) (set_pd_flag PD_FLAGS_SNK_CAP_RECVD s)
                    in if task_state s = PD_STATE_SRC_GET_SINK_CAP then set_state env PD_STATE_SRC_READY s else s)
         else if type = PD_DATA_VENDOR_DEF then handle_vdm_request env cnt payload s
         else Some s)"

abbreviation (input) PD_T_DEBOUNCE :: nat where "PD_T_DEBOUNCE \<equiv> 15 * MSEC"
abbreviation (input) SNK_READY_HOLD_OFF_US :: nat where "SNK_READY_HOLD_OFF_US \<equiv> 200 * MSEC"
abbreviation (input) PD_T_SINK_REQUEST :: nat where "PD_T_SINK_REQUEST \<equiv> 100 * MSEC"
abbreviation (input) PD_T_ERROR_RECOVERY :: nat where "PD_T_ERROR_RECOVERY \<equiv> 25 * MSEC"

definition handle_ps_rdy :: "pd_env \<Rightarrow> pd_port \<Rightarrow> pd_port" where
  "handle_ps_rdy env s =
     (if task_state s = PD_STATE_SNK_SWAP_SRC_DISABLE then set_state env PD_STATE_SNK_SWAP_STANDBY s
      else if task_state s = PD_STATE_SRC_SWAP_STANDBY
      then let s = pd_update_roles (pd_set_power_role PD_ROLE_SINK (s\<lparr>msg_id := 0\<rparr>))
           in set_state env PD_STATE_SNK_DISCOVERY (s\<lparr>vbus_debounce_time := t_rx env + PD_T_DEBOUNCE\<rparr>)
      else if task_state s = PD_STATE_VCONN_SWAP_INIT
      then if PD_FLAGS_VCONN_ON \<in> flags s then set_state env PD_STATE_VCONN_SWAP_READY s else s
      else if task_state s = PD_STATE_SNK_DISCOVERY then set_state env PD_STATE_HARD_RESET_SEND s
      else if task_state s = PD_STATE_SNK_SWAP_STANDBY then s
      else if power_role s = PD_ROLE_SINK
      then let s = (if task_state s = PD_STATE_SNK_TRANSITION
                    then s\<lparr>snk_ready_holdoff_timer := t_rx env + SNK_READY_HOLD_OFF_US\<rparr> else s);
               s = set_state env PD_STATE_SNK_READY s
           in pd_ceil (uint (curr_limit s)) (input_limit (curr_limit s) (supply_voltage s) s)
      else s)"

definition handle_refusal :: "pd_env \<Rightarrow> bool \<Rightarrow> pd_port \<Rightarrow> pd_port" where
  "handle_refusal env wait s =
     (if task_state s = PD_STATE_DR_SWAP
      then set_state env (READY_RETURN_STATE s) (if wait then set_pd_flag PD_FLAGS_CHECK_DR_ROLE s else s)
      else if task_state s = PD_STATE_VCONN_SWAP_SEND then set_state env (READY_RETURN_STATE s) s
      else if task_state s = PD_STATE_SRC_SWAP_INIT then set_state env PD_STATE_SRC_READY s
      else if task_state s = PD_STATE_SNK_SWAP_INIT then set_state env PD_STATE_SNK_READY s
      else if task_state s = PD_STATE_SNK_REQUESTED
      then if wait
           then set_state_timeout (t_rx env + PD_T_SINK_REQUEST) PD_STATE_SNK_READY (s\<lparr>new_power_request := True, prev_request_mv := 0\<rparr>)
           else set_state env (if PD_FLAGS_EXPLICIT_CONTRACT \<in> flags s then PD_STATE_SNK_READY else PD_STATE_SNK_DISCOVERY) s
      else s)"

definition drop_contract :: "pd_port \<Rightarrow> pd_port" where
  "drop_contract s = pd_update_saved_port_flags PD_BBRMFLG_EXPLICIT_CONTRACT False (clear_pd_flag PD_FLAGS_EXPLICIT_CONTRACT s)"

definition handle_accept :: "pd_env \<Rightarrow> pd_port \<Rightarrow> pd_port" where
  "handle_accept env s =
     (if task_state s = PD_STATE_SOFT_RESET then execute_soft_reset env (clear_pd_flag PD_FLAGS_VBUS_NEVER_LOW s)
      else if task_state s = PD_STATE_DR_SWAP then let s = pd_dr_swap env s in set_state env (READY_RETURN_STATE s) s
      else if task_state s = PD_STATE_VCONN_SWAP_SEND then set_state env PD_STATE_VCONN_SWAP_INIT s
      else if task_state s = PD_STATE_SRC_SWAP_INIT then set_state env PD_STATE_SRC_SWAP_SNK_DISABLE (drop_contract s)
      else if task_state s = PD_STATE_SNK_SWAP_INIT then set_state env PD_STATE_SNK_SWAP_SNK_DISABLE (drop_contract s)
      else if task_state s = PD_STATE_SNK_REQUESTED
      then set_state env PD_STATE_SNK_TRANSITION
             (pd_update_saved_port_flags PD_BBRMFLG_EXPLICIT_CONTRACT True (set_pd_flag PD_FLAGS_EXPLICIT_CONTRACT s))
      else s)"

definition handle_pr_swap :: "pd_env \<Rightarrow> pd_port \<Rightarrow> pd_port" where
  "handle_pr_swap env s =
     (if pd_check_power_swap s
      then let s = clear_pd_flag PD_FLAGS_CHECK_PR_ROLE (snd (send_control (tx_rx env) PD_CTRL_ACCEPT s))
           in set_state env (case power_role s of PD_ROLE_SINK \<Rightarrow> PD_STATE_SNK_SWAP_SNK_DISABLE | PD_ROLE_SOURCE \<Rightarrow> PD_STATE_SRC_SWAP_SNK_DISABLE) s
      else snd (send_control (tx_rx env) PD_CTRL_REJECT s))"

definition handle_dr_swap :: "pd_env \<Rightarrow> pd_port \<Rightarrow> pd_port" where
  "handle_dr_swap env s =
     (if pd_check_data_swap env s
      then let (ok, s) = send_control (tx_rx env) PD_CTRL_ACCEPT (clear_pd_flag PD_FLAGS_CHECK_DR_ROLE s)
           in if ok then pd_dr_swap env s else s
      else snd (send_control (tx_rx env) PD_CTRL_REJECT s))"

definition handle_vconn_swap :: "pd_env \<Rightarrow> pd_port \<Rightarrow> pd_port" where
  "handle_vconn_swap env s =
     (if task_state s = PD_STATE_SRC_READY \<or> task_state s = PD_STATE_SNK_READY
      then if pd_check_vconn_swap env
           then let (ok, s) = send_control (tx_rx env) PD_CTRL_ACCEPT s
                in if ok then set_state env PD_STATE_VCONN_SWAP_INIT s else s
           else snd (send_control (tx_rx env) PD_CTRL_REJECT s)
      else s)"

definition handle_ctrl_request :: "pd_env \<Rightarrow> u16 \<Rightarrow> pd_port \<Rightarrow> pd_port" where
  "handle_ctrl_request env head s =
     (let type = PD_HEADER_TYPE head
      in if type = PD_CTRL_GET_SOURCE_CAP
         then if task_state s = PD_STATE_SRC_READY then set_state env PD_STATE_SRC_DISCOVERY s
              else let (ok, s) = send_source_cap env (tx_rx env) s
                   in if ok \<and> task_state s = PD_STATE_SRC_DISCOVERY then set_state env PD_STATE_SRC_NEGOCIATE s else s
         else if type = PD_CTRL_GET_SINK_CAP then send_sink_cap env (tx_rx env) s
         else if type = PD_CTRL_PS_RDY then handle_ps_rdy env s
         else if type = PD_CTRL_REJECT \<or> type = PD_CTRL_WAIT then handle_refusal env (type = PD_CTRL_WAIT) s
         else if type = PD_CTRL_ACCEPT then handle_accept env s
         else if type = PD_CTRL_SOFT_RESET then snd (send_control (tx_rx env) PD_CTRL_ACCEPT (execute_soft_reset env s))
         else if type = PD_CTRL_PR_SWAP then handle_pr_swap env s
         else if type = PD_CTRL_DR_SWAP then handle_dr_swap env s
         else if type = PD_CTRL_VCONN_SWAP then handle_vconn_swap env s
         else s)"

definition handle_role_conflict :: "pd_env \<Rightarrow> pd_port \<Rightarrow> pd_port" where
  "handle_role_conflict env s =
     (let s = (if set_cc_open_ok env
               then let s = set_vconn False (pd_power_supply_reset (tcpm_set_cc TYPEC_CC_OPEN s));
                        s = pd_do (Usleep PD_T_ERROR_RECOVERY) s
                    in tcpm_set_cc (case power_role s of PD_ROLE_SINK \<Rightarrow> TYPEC_CC_RD | PD_ROLE_SOURCE \<Rightarrow> TYPEC_CC_RP) s
               else s)
      in set_state env (disconnected_state s) s)"

definition handle_request :: "pd_env \<Rightarrow> u16 \<Rightarrow> u32 list \<Rightarrow> pd_port \<Rightarrow> pd_port option" where
  "handle_request env head payload s =
     (let s = (if pd_is_connected s then s else set_state env PD_STATE_HARD_RESET_SEND s)
      in if drole_bit (data_role s) = PD_HEADER_DROLE head then Some (handle_role_conflict env s)
         else if PD_HEADER_CNT head \<noteq> 0 then handle_data_request env head payload s
         else Some (handle_ctrl_request env head s))"

section \<open>Outgoing vendor defined messages\<close>

definition vdm_get_ready_timeout :: "u32 \<Rightarrow> nat" where
  "vdm_get_ready_timeout vdm_hdr =
     (let cmd = PD_VDO_CMD vdm_hdr; mode = (cmd = CMD_ENTER_MODE \<or> cmd = CMD_EXIT_MODE)
      in if \<not> PD_VDO_SVDM vdm_hdr then 500 * MSEC
         else if PD_VDO_CMDT vdm_hdr = CMDT_INIT then (if mode then 100 * MSEC else 30 * MSEC)
         else (if mode then 25 * MSEC else 15 * MSEC))"

definition pd_vdm_send_state_machine :: "tx_result \<Rightarrow> nat \<Rightarrow> pd_port \<Rightarrow> pd_port" where
  "pd_vdm_send_state_machine tx now s =
     (case vdm_state s of
        VDM_STATE_READY \<Rightarrow>
          if \<not> pd_is_connected s then s\<lparr>vdm_state := VDM_STATE_ERR_BUSY\<rparr>
          else if pdo_busy s then s
          else let (ok, s) = pd_transmit tx TCPC_TX_SOP (msg_header PD_DATA_VENDOR_DEF (vdo_count s) s) (take (vdo_count s) (vdo_data s)) s
               in if \<not> ok then s\<lparr>vdm_state := VDM_STATE_ERR_SEND\<rparr>
                  else s\<lparr>vdm_state := VDM_STATE_BUSY, vdm_timeout := now + vdm_get_ready_timeout (vdo_data s ! 0)\<rparr>
      | VDM_STATE_WAIT_RSP_BUSY \<Rightarrow>
          if now > vdm_timeout s
          then s\<lparr>vdo_data := (vdo_data s)[0 := vdo_retry s], vdo_count := 1, vdm_state := VDM_STATE_READY\<rparr> else s
      | VDM_STATE_BUSY \<Rightarrow>
          if vdm_timeout s \<noteq> 0 \<and> now > vdm_timeout s then s\<lparr>vdm_state := VDM_STATE_ERR_TMOUT\<rparr> else s
      | _ \<Rightarrow> s)"

definition exit_dp_mode :: "pd_env \<Rightarrow> pd_port \<Rightarrow> pd_port" where
  "exit_dp_mode env s =
     (let cfg = reef_cfg (null_word env);
          opos = pd_alt_mode (null_svid cfg) (mode_svids cfg) USB_SID_DISPLAYPORT (pe (alt s))
      in if opos \<le> 0 then s
         else let (r, p) = pd_dfp_exit_mode cfg USB_SID_DISPLAYPORT (nat opos) (policy_in s); s = policy_out p s
              in if r = 0 then s
                 else pd_vdm_send_state_machine (tx_power env) (t_power env)
                        (pd_send_vdm USB_SID_DISPLAYPORT (word_of_nat CMD_EXIT_MODE OR VDO_OPOS opos) [] s))"

definition handle_new_power_state :: "pd_env \<Rightarrow> pd_port \<Rightarrow> pd_port" where
  "handle_new_power_state env s =
     set_usb_mux_with_current_data_role env (if chipset_off env then exit_dp_mode env s else s)"

text \<open>Most changes of state only stop the timer of the state.\<close>

lemma set_state_other:
  "x \<noteq> PD_STATE_SNK_DISCONNECTED \<Longrightarrow> x \<noteq> PD_STATE_SRC_DISCONNECTED \<Longrightarrow>
   set_state env x s = (if task_state s = x then s\<lparr>timeout := 0, timeout_state := PD_STATE_DISABLED, task_state := x\<rparr>
     else pd_do (SleepPd (\<not> (pd_capable s \<or> others_capable env))) (s\<lparr>timeout := 0, timeout_state := PD_STATE_DISABLED, task_state := x\<rparr>))"
  by (simp add: set_state_def set_state_timeout_def pd_capable_def Let_def)

end
