(* ===== verification/PD_Task.thy ===== *)
theory PD_Task
  imports PD_Protocol
begin

text \<open>
  The task of a port (\<open>pd_task\<close> of common/usb_pd_protocol.c): one definition per state of the
  machine, the round that the loop of the task makes around it, the start of the task, and what
  other tasks do to a port. The wait of a suspended port ends when another task has resumed it, and
  nothing else happens to the port meanwhile.
\<close>

definition wait_for :: "nat \<Rightarrow> pd_port \<Rightarrow> pd_port" where
  "wait_for t s = s\<lparr>wait_time := t\<rparr>"

definition entered :: "pd_port \<Rightarrow> bool" where
  "entered s \<longleftrightarrow> last_state s \<noteq> task_state s"

definition on_entry :: "nat \<Rightarrow> pd_states \<Rightarrow> pd_port \<Rightarrow> pd_port" where
  "on_entry t st s = (if entered s then set_state_timeout t st s else s)"

definition enable_rx :: "pd_port \<Rightarrow> pd_port" where
  "enable_rx s = (if pd_comm_enabled s then tcpm_set_rx_enable True s else s)"

abbreviation (input) PD_T_SEND_SOURCE_CAP :: nat where "PD_T_SEND_SOURCE_CAP \<equiv> 100 * MSEC"
abbreviation (input) PD_T_SINK_WAIT_CAP :: nat where "PD_T_SINK_WAIT_CAP \<equiv> 600 * MSEC"
abbreviation (input) PD_T_SINK_TRANSITION :: nat where "PD_T_SINK_TRANSITION \<equiv> 35 * MSEC"
abbreviation (input) PD_T_SOURCE_ACTIVITY :: nat where "PD_T_SOURCE_ACTIVITY \<equiv> 45 * MSEC"
abbreviation (input) PD_T_SENDER_RESPONSE :: nat where "PD_T_SENDER_RESPONSE \<equiv> 30 * MSEC"
abbreviation (input) PD_T_PS_TRANSITION :: nat where "PD_T_PS_TRANSITION \<equiv> 500 * MSEC"
abbreviation (input) PD_T_PS_SOURCE_ON :: nat where "PD_T_PS_SOURCE_ON \<equiv> 480 * MSEC"
abbreviation (input) PD_T_PS_SOURCE_OFF :: nat where "PD_T_PS_SOURCE_OFF \<equiv> 920 * MSEC"
abbreviation (input) PD_T_PS_HARD_RESET :: nat where "PD_T_PS_HARD_RESET \<equiv> 25 * MSEC"
abbreviation (input) PD_T_CC_DEBOUNCE :: nat where "PD_T_CC_DEBOUNCE \<equiv> 100 * MSEC"
abbreviation (input) PD_T_DRP_SNK :: nat where "PD_T_DRP_SNK \<equiv> 40 * MSEC"
abbreviation (input) PD_T_DRP_SRC :: nat where "PD_T_DRP_SRC \<equiv> 30 * MSEC"
abbreviation (input) PD_T_SINK_ADJ :: nat where "PD_T_SINK_ADJ \<equiv> 55 * MSEC"
abbreviation (input) PD_T_SRC_RECOVER_MAX :: nat where "PD_T_SRC_RECOVER_MAX \<equiv> 1000 * MSEC"
abbreviation (input) PD_T_SRC_TURN_ON :: nat where "PD_T_SRC_TURN_ON \<equiv> 275 * MSEC"
abbreviation (input) PD_T_SAFE_0V :: nat where "PD_T_SAFE_0V \<equiv> 650 * MSEC"
abbreviation (input) PD_T_NO_RESPONSE :: nat where "PD_T_NO_RESPONSE \<equiv> 5500 * MSEC"
abbreviation (input) PD_T_BIST_TRANSMIT :: nat where "PD_T_BIST_TRANSMIT \<equiv> 50 * MSEC"
abbreviation (input) PD_T_BIST_RECEIVE :: nat where "PD_T_BIST_RECEIVE \<equiv> 60 * MSEC"
abbreviation (input) PD_T_VCONN_SOURCE_ON :: nat where "PD_T_VCONN_SOURCE_ON \<equiv> 100 * MSEC"
abbreviation (input) PD_T_DRP_TRY :: nat where "PD_T_DRP_TRY \<equiv> 125 * MSEC"
abbreviation (input) PD_T_TRY_TIMEOUT :: nat where "PD_T_TRY_TIMEOUT \<equiv> 550 * MSEC"
abbreviation (input) PD_HARD_RESET_COUNT :: nat where "PD_HARD_RESET_COUNT \<equiv> 2"
abbreviation (input) PD_CAPS_COUNT :: nat where "PD_CAPS_COUNT \<equiv> 50"
abbreviation (input) PD_SNK_CAP_RETRIES :: nat where "PD_SNK_CAP_RETRIES \<equiv> 3"
abbreviation (input) TYPE_C_VOLTAGE :: u32 where "TYPE_C_VOLTAGE \<equiv> 5000"
abbreviation (input) EC_ERROR_UNIMPLEMENTED :: int where "EC_ERROR_UNIMPLEMENTED \<equiv> 2"

section \<open>States of a source\<close>

definition on_SRC_DISCONNECTED :: "pd_env \<Rightarrow> pd_port \<Rightarrow> pd_port" where
  "on_SRC_DISCONNECTED env s =
     (let s = wait_for (10 * MSEC) s; (cc1, cc2) = cc_seen env; now = t_state env
      in if cc1 = TYPEC_CC_VOLT_RD \<or> cc2 = TYPEC_CC_VOLT_RD \<or> cc1 = TYPEC_CC_VOLT_RA \<and> cc2 = TYPEC_CC_VOLT_RA
         then set_state env PD_STATE_SRC_DISCONNECTED_DEBOUNCE (s\<lparr>cc_state := PD_CC_NONE\<rparr>)
         else if PD_FLAGS_TRY_SRC \<in> flags s
         then if now < try_src_marker s \<or> now < try_timeout s \<and> vbus_seen env then s
              else let s = tcpm_set_cc TYPEC_CC_RD (pd_set_power_role PD_ROLE_SINK (set_state env PD_STATE_SNK_DISCONNECTED s))
                   in wait_for (2 * MSEC) (s\<lparr>try_src_marker := now + PD_T_DEBOUNCE\<rparr>)
         else if now < next_role_swap s \<or> drp_state s = PD_DRP_FORCE_SOURCE \<or> drp_state s = PD_DRP_FREEZE then s
         else let s = tcpm_set_cc TYPEC_CC_RD (pd_set_power_role PD_ROLE_SINK (set_state env PD_STATE_SNK_DISCONNECTED s))
              in wait_for (2 * MSEC) (s\<lparr>next_role_swap := now + PD_T_DRP_SNK\<rparr>))"

definition src_cc_state :: "nat \<Rightarrow> nat \<Rightarrow> pd_cc_states option" where
  "src_cc_state cc1 cc2 =
     (if cc1 = TYPEC_CC_VOLT_RD \<and> cc2 = TYPEC_CC_VOLT_RD then Some PD_CC_DEBUG_ACC
      else if cc1 = TYPEC_CC_VOLT_RD \<or> cc2 = TYPEC_CC_VOLT_RD then Some PD_CC_UFP_ATTACHED
      else if cc1 = TYPEC_CC_VOLT_RA \<and> cc2 = TYPEC_CC_VOLT_RA then Some PD_CC_AUDIO_ACC
      else None)"

text \<open>The code's expression \<open>get_time().val + (flags & PD_FLAGS_TRY_SRC) ? PD_T_DEBOUNCE : PD_T_CC_DEBOUNCE\<close> as C parses it.\<close>

definition src_debounce_end :: "nat \<Rightarrow> bool \<Rightarrow> nat" where
  "src_debounce_end now try_src = (if now + (if try_src then 8192 else 0) \<noteq> 0 then PD_T_DEBOUNCE else PD_T_CC_DEBOUNCE)"

definition attach_source :: "pd_env \<Rightarrow> pd_cc_states \<Rightarrow> pd_port \<Rightarrow> pd_port" where
  "attach_source env new_cc_state s =
     (let s = s\<lparr>polarity := (fst (cc_seen env) \<noteq> TYPEC_CC_VOLT_RD)\<rparr>;
          s = pd_set_data_role env PD_ROLE_DFP (set_polarity (polarity s) s);
          s = (if new_cc_state = PD_CC_DEBUG_ACC then set_pd_flag PD_FLAGS_TS_DTS_PARTNER s
               else set_pd_flag PD_FLAGS_VCONN_ON (set_vconn True s));
          (ok, s) = pd_set_power_supply_ready env s
      in if \<not> ok
         then pd_do (UsbMux TYPEC_MUX_NONE False (polarity s)) (clear_pd_flag PD_FLAGS_VCONN_ON (set_vconn False s))
         else let s = set_pd_flag PD_FLAGS_CHECK_DR_ROLE (set_pd_flag PD_FLAGS_CHECK_PR_ROLE (enable_rx s))
              in set_state env PD_STATE_SRC_STARTUP (wait_for (5 * MSEC) (s\<lparr>hard_reset_count := 0\<rparr>)))"

definition on_SRC_DISCONNECTED_DEBOUNCE :: "pd_env \<Rightarrow> pd_port \<Rightarrow> pd_port" where
  "on_SRC_DISCONNECTED_DEBOUNCE env s =
     (let s = wait_for (20 * MSEC) s
      in case src_cc_state (fst (cc_seen env)) (snd (cc_seen env)) of
           None \<Rightarrow> wait_for (5 * MSEC) (set_state env PD_STATE_SRC_DISCONNECTED s)
         | Some new_cc_state \<Rightarrow>
             if new_cc_state \<noteq> cc_state s
             then s\<lparr>cc_debounce := src_debounce_end (t_state env) (PD_FLAGS_TRY_SRC \<in> flags s), cc_state := new_cc_state\<rparr>
             else if t_state env < cc_debounce s then s
             else if new_cc_state = PD_CC_UFP_ATTACHED \<or> new_cc_state = PD_CC_DEBUG_ACC then attach_source env new_cc_state s
             else s)"

definition on_SRC_HARD_RESET_RECOVER :: "pd_env \<Rightarrow> pd_port \<Rightarrow> pd_port" where
  "on_SRC_HARD_RESET_RECOVER env s =
     (if t_state env < src_recover s then wait_for (50 * MSEC) s
      else let s = wait_for (10 * MSEC) (set_pd_flag PD_FLAGS_VCONN_ON (set_vconn True s));
               (ok, s) = pd_set_power_supply_ready env s
           in if \<not> ok then set_state env PD_STATE_SRC_DISCONNECTED s
              else set_state env PD_STATE_SRC_STARTUP (enable_rx s))"

definition on_SRC_STARTUP :: "pd_env \<Rightarrow> pd_port \<Rightarrow> pd_port" where
  "on_SRC_STARTUP env s =
     (if entered s
      then set_state_timeout (t_state env + supply_on_delay env) PD_STATE_SRC_DISCOVERY
             ((set_pd_flag PD_FLAGS_CHECK_IDENTITY s)\<lparr>caps_count := 0, msg_id := 0, snk_cap_count := 0\<rparr>)
      else s)"

definition on_SRC_DISCOVERY :: "pd_env \<Rightarrow> pd_port \<Rightarrow> pd_port" where
  "on_SRC_DISCOVERY env s =
     (let now = t_state env;
          s = (if entered s
               then let s = s\<lparr>caps_count := 0, next_src_cap := now\<rparr>
                    in if pd_capable s
                       then set_state_timeout (now + PD_T_NO_RESPONSE)
                              (if hard_reset_count s < PD_HARD_RESET_COUNT then PD_STATE_HARD_RESET_SEND else PD_STATE_SRC_DISCONNECTED) s
                       else s
               else s)
      in if caps_count s < PD_CAPS_COUNT \<and> next_src_cap s \<le> now
         then let (ok, s) = send_source_cap env (tx_state env) s
              in if ok
                 then set_pd_flag PD_FLAGS_PREVIOUS_PD_CONN
                        ((wait_for (10 * MSEC) (set_state env PD_STATE_SRC_NEGOCIATE s))\<lparr>hard_reset_count := 0, caps_count := 0\<rparr>)
                 else (wait_for PD_T_SEND_SOURCE_CAP s)\<lparr>next_src_cap := now + PD_T_SEND_SOURCE_CAP, caps_count := caps_count s + 1\<rparr>
         else if caps_count s < PD_CAPS_COUNT then wait_for (next_src_cap s - now) s
         else s)"

definition on_SRC_NEGOCIATE :: "pd_env \<Rightarrow> pd_port \<Rightarrow> pd_port" where
  "on_SRC_NEGOCIATE env s = on_entry (t_state env + PD_T_SENDER_RESPONSE) PD_STATE_HARD_RESET_SEND s"

definition on_SRC_ACCEPTED :: "pd_env \<Rightarrow> pd_port \<Rightarrow> pd_port" where
  "on_SRC_ACCEPTED env s = on_entry (t_state env + PD_T_SINK_TRANSITION) PD_STATE_SRC_POWERED s"

definition on_SRC_POWERED :: "pd_env \<Rightarrow> pd_port \<Rightarrow> pd_port" where
  "on_SRC_POWERED env s = on_entry (t_state env + supply_on_delay env) PD_STATE_SRC_TRANSITION s"

definition on_SRC_TRANSITION :: "pd_env \<Rightarrow> pd_port \<Rightarrow> pd_port" where
  "on_SRC_TRANSITION env s =
     (let (ok, s) = send_control (tx_state env) PD_CTRL_PS_RDY s
      in if ok then set_state env PD_STATE_SRC_READY (wait_for (10 * MSEC) s)
         else set_state env PD_STATE_SRC_DISCONNECTED s)"

definition on_SRC_READY :: "pd_env \<Rightarrow> pd_port \<Rightarrow> pd_port" where
  "on_SRC_READY env s =
     (let s = wait_for PD_T_SOURCE_ACTIVITY s
      in if rx_msg env \<noteq> None \<or> vdm_state s = VDM_STATE_BUSY then s
         else if PD_FLAGS_UPDATE_SRC_CAPS \<in> flags s
         then let (ok, s) = send_source_cap env (tx_state env) s
              in if ok then clear_pd_flag PD_FLAGS_UPDATE_SRC_CAPS (set_state env PD_STATE_SRC_NEGOCIATE s) else s
         else let ask = (PD_FLAGS_SNK_CAP_RECVD \<notin> flags s);
                  s = (if ask then s\<lparr>snk_cap_count := snk_cap_count s + 1\<rparr> else s)
              in if ask \<and> snk_cap_count s \<le> PD_SNK_CAP_RETRIES
                 then set_state env PD_STATE_SRC_GET_SINK_CAP (snd (send_control (tx_state env) PD_CTRL_GET_SINK_CAP s))
                 else if PD_FLAGS_CHECK_PR_ROLE \<in> flags s
                 then clear_pd_flag PD_FLAGS_CHECK_PR_ROLE (pd_check_pr_role env PD_ROLE_SOURCE s)
                 else if PD_FLAGS_CHECK_DR_ROLE \<in> flags s
                 then clear_pd_flag PD_FLAGS_CHECK_DR_ROLE (pd_check_dr_role env (data_role s) s)
                 else if data_role s = PD_ROLE_DFP \<and> PD_FLAGS_CHECK_IDENTITY \<in> flags s
                 then clear_pd_flag PD_FLAGS_CHECK_IDENTITY (pd_send_vdm USB_SID_PD (word_of_nat CMD_DISCOVER_IDENT) [] s)
                 else if PD_FLAGS_PING_ENABLED \<notin> flags s then s
                 else let (ok, s) = send_control (tx_state env) PD_CTRL_PING s
                      in if ok then s else wait_for (10 * MSEC) (set_state env PD_STATE_SOFT_RESET s))"

definition on_SRC_GET_SINK_CAP :: "pd_env \<Rightarrow> pd_port \<Rightarrow> pd_port" where
  "on_SRC_GET_SINK_CAP env s = on_entry (t_state env + PD_T_SENDER_RESPONSE) PD_STATE_SRC_READY s"

text \<open>
  The states that send a request for a swap on entry and wait for the answer: without an
  acknowledgement a soft reset follows (a failed transmission always returns -1).
\<close>

definition ask_swap :: "pd_env \<Rightarrow> nat \<Rightarrow> pd_states \<Rightarrow> pd_port \<Rightarrow> pd_port" where
  "ask_swap env type back s =
     (if entered s
      then let (ok, s) = send_control (tx_state env) type s
           in if \<not> ok then set_state env PD_STATE_SOFT_RESET (wait_for (10 * MSEC) s)
              else set_state_timeout (t_sent env + PD_T_SENDER_RESPONSE) back s
      else s)"

definition on_DR_SWAP :: "pd_env \<Rightarrow> pd_port \<Rightarrow> pd_port" where
  "on_DR_SWAP env s = ask_swap env PD_CTRL_DR_SWAP (READY_RETURN_STATE s) s"

definition on_SRC_SWAP_INIT :: "pd_env \<Rightarrow> pd_port \<Rightarrow> pd_port" where
  "on_SRC_SWAP_INIT env s = ask_swap env PD_CTRL_PR_SWAP PD_STATE_SRC_READY s"

definition on_SRC_SWAP_SNK_DISABLE :: "pd_env \<Rightarrow> pd_port \<Rightarrow> pd_port" where
  "on_SRC_SWAP_SNK_DISABLE env s = on_entry (t_state env + PD_T_SINK_TRANSITION) PD_STATE_SRC_SWAP_SRC_DISABLE s"

definition on_SRC_SWAP_SRC_DISABLE :: "pd_env \<Rightarrow> pd_port \<Rightarrow> pd_port" where
  "on_SRC_SWAP_SRC_DISABLE env s =
     (if entered s
      then set_state_timeout (t_state env + supply_off_delay env) PD_STATE_SRC_SWAP_STANDBY (pd_power_supply_reset s)
      else s)"

definition on_SRC_SWAP_STANDBY :: "pd_env \<Rightarrow> pd_port \<Rightarrow> pd_port" where
  "on_SRC_SWAP_STANDBY env s =
     (if entered s
      then let (ok, s) = send_control (tx_state env) PD_CTRL_PS_RDY s
           in if \<not> ok then set_state env PD_STATE_SRC_DISCONNECTED (wait_for (10 * MSEC) s)
              else set_state_timeout (t_sent env + PD_T_PS_SOURCE_ON) PD_STATE_SNK_DISCONNECTED
                     (pd_set_power_role PD_ROLE_SINK (tcpm_set_cc TYPEC_CC_RD s))
      else s)"

definition on_SUSPENDED :: "pd_env \<Rightarrow> pd_port \<Rightarrow> pd_port" where
  "on_SUSPENDED env s =
     (let s = pd_do ClearPendingMessages (pd_do TcpcRelease (s\<lparr>req_suspend_state := False\<rparr>));
          s = set_state env PD_STATE_SNK_DISCONNECTED s
      in if release_result env \<noteq> EC_ERROR_UNIMPLEMENTED
         then let s = pd_do TcpcInit s in if restart_fails env then s else set_state env PD_STATE_SNK_DISCONNECTED s
         else set_state env PD_STATE_SNK_DISCONNECTED s)"

section \<open>States of a sink\<close>

definition on_SNK_DISCONNECTED :: "pd_env \<Rightarrow> pd_port \<Rightarrow> pd_port" where
  "on_SNK_DISCONNECTED env s =
     (let s = wait_for (10 * MSEC) s; (cc1, cc2) = cc_seen env; now = t_state env
      in if cc1 \<noteq> TYPEC_CC_VOLT_OPEN \<or> cc2 \<noteq> TYPEC_CC_VOLT_OPEN
         then wait_for (10 * MSEC) (set_state env PD_STATE_SNK_DISCONNECTED_DEBOUNCE
                (s\<lparr>cc_state := PD_CC_NONE, hard_reset_count := 0, cc_debounce := now + PD_T_CC_DEBOUNCE\<rparr>))
         else if PD_FLAGS_TRY_SRC \<in> flags s
         then if now > try_src_marker s then clear_pd_flag PD_FLAGS_TRY_SRC s else s
         else if drp_state s = PD_DRP_TOGGLE_ON \<and> now \<ge> next_role_swap s
         then let s = tcpm_set_cc TYPEC_CC_RP (set_state env PD_STATE_SRC_DISCONNECTED (pd_set_power_role PD_ROLE_SOURCE s))
              in wait_for (2 * MSEC) (s\<lparr>next_role_swap := now + PD_T_DRP_SRC\<rparr>)
         else s)"

definition snk_cc_state :: "nat \<Rightarrow> nat \<Rightarrow> pd_cc_states option" where
  "snk_cc_state cc1 cc2 =
     (if cc_is_rp cc1 \<and> cc_is_rp cc2 then Some PD_CC_DEBUG_ACC
      else if cc_is_rp cc1 \<or> cc_is_rp cc2 then Some PD_CC_DFP_ATTACHED
      else None)"

definition try_source :: "pd_env \<Rightarrow> pd_port \<Rightarrow> pd_port" where
  "try_source env s =
     (let s = s\<lparr>try_src_marker := t_state env + PD_T_DRP_TRY, try_timeout := t_state env + PD_T_TRY_TIMEOUT\<rparr>;
          s = tcpm_set_cc TYPEC_CC_RP (pd_set_power_role PD_ROLE_SOURCE s)
      in set_pd_flag PD_FLAGS_TRY_SRC (set_state env PD_STATE_SRC_DISCONNECTED (wait_for (2 * MSEC) s)))"

definition attach_sink :: "pd_env \<Rightarrow> pd_cc_states \<Rightarrow> pd_port \<Rightarrow> pd_port" where
  "attach_sink env new_cc_state s =
     (let (cc1, cc2) = cc_seen env;
          s = s\<lparr>polarity := get_snk_polarity cc1 cc2\<rparr>;
          s = (set_polarity (polarity s) s)\<lparr>msg_id := 0\<rparr>;
          s = pd_set_data_role env PD_ROLE_UFP s;
          s = s\<lparr>typec_curr := get_typec_current_limit (polarity s) cc1 cc2\<rparr>;
          s = enable_rx (pd_do (TypecLimit (typec_curr s) TYPE_C_VOLTAGE) s);
          s = set_pd_flag PD_FLAGS_CHECK_IDENTITY (set_pd_flag PD_FLAGS_CHECK_DR_ROLE (set_pd_flag PD_FLAGS_CHECK_PR_ROLE s));
          s = (if new_cc_state = PD_CC_DEBUG_ACC then set_pd_flag PD_FLAGS_TS_DTS_PARTNER s else s)
      in pd_do BillboardDeferred (wait_for (10 * MSEC) (set_state env PD_STATE_SNK_DISCOVERY s)))"

definition on_SNK_DISCONNECTED_DEBOUNCE :: "pd_env \<Rightarrow> pd_port \<Rightarrow> pd_port" where
  "on_SNK_DISCONNECTED_DEBOUNCE env s =
     (case snk_cc_state (fst (cc_seen env)) (snd (cc_seen env)) of
        None \<Rightarrow> wait_for (5 * MSEC) (set_state env PD_STATE_SNK_DISCONNECTED s)
      | Some new_cc_state \<Rightarrow>
          let s = wait_for (20 * MSEC) s
          in if new_cc_state \<noteq> cc_state s
             then s\<lparr>cc_debounce := t_state env + PD_T_CC_DEBOUNCE, cc_state := new_cc_state\<rparr>
             else if t_state env < cc_debounce s \<or> \<not> vbus_seen env then s
             else if pd_try_src_enable s \<and> PD_FLAGS_TRY_SRC \<notin> flags s then try_source env s
             else attach_sink env new_cc_state s)"

definition on_SNK_HARD_RESET_RECOVER :: "pd_env \<Rightarrow> pd_port \<Rightarrow> pd_port" where
  "on_SNK_HARD_RESET_RECOVER env s =
     (let s = (if entered s
               then set_state_timeout (t_state env + PD_T_SAFE_0V)
                      (if hard_reset_count s < PD_HARD_RESET_COUNT then PD_STATE_HARD_RESET_SEND else PD_STATE_SNK_DISCOVERY)
                      ((set_pd_flag PD_FLAGS_CHECK_IDENTITY s)\<lparr>snk_hard_reset_vbus_off := False\<rparr>)
               else s);
          s = (if \<not> vbus_seen env \<and> \<not> snk_hard_reset_vbus_off s
               then set_state_timeout (t_state env + PD_T_SRC_RECOVER_MAX + PD_T_SRC_TURN_ON) PD_STATE_SNK_DISCONNECTED
                      (s\<lparr>snk_hard_reset_vbus_off := True\<rparr>)
               else s)
      in if vbus_again env \<and> snk_hard_reset_vbus_off s
         then wait_for (10 * MSEC) (set_state env PD_STATE_SNK_DISCOVERY (enable_rx s))
         else s)"

definition discovery_timer :: "pd_env \<Rightarrow> pd_port \<Rightarrow> pd_port" where
  "discovery_timer env s =
     (if entered s \<and> pd_comm_enabled s
      then let s = (if PD_FLAGS_VBUS_NEVER_LOW \<in> flags s then set_state_timeout (t_state env + PD_T_SINK_WAIT_CAP) PD_STATE_SOFT_RESET s
                    else if hard_reset_count s < PD_HARD_RESET_COUNT
                    then set_state_timeout (t_state env + PD_T_SINK_WAIT_CAP) PD_STATE_HARD_RESET_SEND s
                    else if pd_capable s then set_state_timeout (t_state env + PD_T_NO_RESPONSE) PD_STATE_SNK_DISCONNECTED s
                    else s)
           in if last_state s \<noteq> PD_STATE_SNK_DISCONNECTED_DEBOUNCE then s\<lparr>typec_curr := 0\<rparr> else s
      else s)"

definition on_SNK_DISCOVERY :: "pd_env \<Rightarrow> pd_port \<Rightarrow> pd_port" where
  "on_SNK_DISCOVERY env s =
     (let s = wait_for (PD_T_SINK_ADJ - PD_T_DEBOUNCE) (discovery_timer env s);
          limit = get_typec_current_limit (polarity s) (fst (cc_seen env)) (snd (cc_seen env))
      in if typec_curr s \<noteq> limit
         then let s = (if typec_curr_change s then pd_do (TypecLimit limit TYPE_C_VOLTAGE) (s\<lparr>typec_curr := limit\<rparr>)
                       else wait_for PD_T_DEBOUNCE s)
              in s\<lparr>typec_curr_change := \<not> typec_curr_change s\<rparr>
         else s\<lparr>typec_curr_change := False\<rparr>)"

definition on_SNK_REQUESTED :: "pd_env \<Rightarrow> pd_port \<Rightarrow> pd_port" where
  "on_SNK_REQUESTED env s =
     (if entered s
      then set_state_timeout (t_state env + PD_T_SENDER_RESPONSE) PD_STATE_HARD_RESET_SEND (s\<lparr>hard_reset_count := 0\<rparr>)
      else s)"

definition on_SNK_TRANSITION :: "pd_env \<Rightarrow> pd_port \<Rightarrow> pd_port" where
  "on_SNK_TRANSITION env s = on_entry (t_state env + PD_T_PS_TRANSITION) PD_STATE_HARD_RESET_SEND s"

definition on_SNK_READY :: "pd_env \<Rightarrow> pd_port \<Rightarrow> pd_port" where
  "on_SNK_READY env s =
     (let s = wait_for (20 * MSEC) s
      in if t_state env \<le> snk_ready_holdoff_timer s then s
         else if rx_msg env \<noteq> None \<or> vdm_state s = VDM_STATE_BUSY then s
         else if new_power_request s
         then let (ok, s) = pd_send_request_msg env (tx_state env) False s
              in if \<not> ok then set_state env PD_STATE_SOFT_RESET s else s
         else if PD_FLAGS_CHECK_PR_ROLE \<in> flags s
         then clear_pd_flag PD_FLAGS_CHECK_PR_ROLE (pd_check_pr_role env PD_ROLE_SINK s)
         else if PD_FLAGS_CHECK_DR_ROLE \<in> flags s
         then clear_pd_flag PD_FLAGS_CHECK_DR_ROLE (pd_check_dr_role env (data_role s) s)
         else if data_role s = PD_ROLE_DFP \<and> PD_FLAGS_CHECK_IDENTITY \<in> flags s
         then clear_pd_flag PD_FLAGS_CHECK_IDENTITY (pd_send_vdm USB_SID_PD (word_of_nat CMD_DISCOVER_IDENT) [] s)
         else wait_for (200 * MSEC) s)"

definition on_SNK_SWAP_INIT :: "pd_env \<Rightarrow> pd_port \<Rightarrow> pd_port" where
  "on_SNK_SWAP_INIT env s = ask_swap env PD_CTRL_PR_SWAP PD_STATE_SNK_READY s"

definition on_SNK_SWAP_SNK_DISABLE :: "pd_env \<Rightarrow> pd_port \<Rightarrow> pd_port" where
  "on_SNK_SWAP_SNK_DISABLE env s =
     wait_for (10 * MSEC) (set_state env PD_STATE_SNK_SWAP_SRC_DISABLE
       (pd_ceil CHARGE_CEIL_NONE (pd_do (TypecLimit 0 0) (input_limit 0 0 s))))"

definition on_SNK_SWAP_SRC_DISABLE :: "pd_env \<Rightarrow> pd_port \<Rightarrow> pd_port" where
  "on_SNK_SWAP_SRC_DISABLE env s = on_entry (t_state env + PD_T_PS_SOURCE_OFF) PD_STATE_HARD_RESET_SEND s"

definition on_SNK_SWAP_STANDBY :: "pd_env \<Rightarrow> pd_port \<Rightarrow> pd_port" where
  "on_SNK_SWAP_STANDBY env s =
     (if entered s
      then let (ok, s) = pd_set_power_supply_ready env (tcpm_set_cc TYPEC_CC_RP s)
           in if \<not> ok then set_state env PD_STATE_SNK_DISCONNECTED (wait_for (10 * MSEC) (tcpm_set_cc TYPEC_CC_RD s))
              else set_state_timeout (t_state env + supply_on_delay env) PD_STATE_SNK_SWAP_COMPLETE s
      else s)"

definition on_SNK_SWAP_COMPLETE :: "pd_env \<Rightarrow> pd_port \<Rightarrow> pd_port" where
  "on_SNK_SWAP_COMPLETE env s =
     (let (ok, s) = send_control (tx_state env) PD_CTRL_PS_RDY s
      in if \<not> ok
         then set_state env PD_STATE_SNK_DISCONNECTED (wait_for (10 * MSEC) (pd_power_supply_reset (tcpm_set_cc TYPEC_CC_RD s)))
         else let s = s\<lparr>snk_cap_count := PD_SNK_CAP_RETRIES + 1, caps_count := 0, msg_id := 0\<rparr>;
                  s = pd_update_roles (pd_set_power_role PD_ROLE_SOURCE s)
              in wait_for (10 * MSEC) (set_state env PD_STATE_SRC_DISCOVERY s))"

section \<open>States of both roles\<close>

definition on_VCONN_SWAP_SEND :: "pd_env \<Rightarrow> pd_port \<Rightarrow> pd_port" where
  "on_VCONN_SWAP_SEND env s = ask_swap env PD_CTRL_VCONN_SWAP (READY_RETURN_STATE s) s"

definition on_VCONN_SWAP_INIT :: "pd_env \<Rightarrow> pd_port \<Rightarrow> pd_port" where
  "on_VCONN_SWAP_INIT env s =
     (if entered s
      then if PD_FLAGS_VCONN_ON \<notin> flags s
           then set_state_timeout (t_state env + vconn_swap_delay env) PD_STATE_VCONN_SWAP_READY (set_vconn True s)
           else set_state_timeout (t_state env + PD_T_VCONN_SOURCE_ON) (READY_RETURN_STATE s) s
      else s)"

definition on_VCONN_SWAP_READY :: "pd_env \<Rightarrow> pd_port \<Rightarrow> pd_port" where
  "on_VCONN_SWAP_READY env s =
     (if entered s
      then if PD_FLAGS_VCONN_ON \<notin> flags s
           then let (ok, s) = send_control (tx_state env) PD_CTRL_PS_RDY (set_pd_flag PD_FLAGS_VCONN_ON s)
                in if \<not> ok then set_state env PD_STATE_SOFT_RESET (wait_for (10 * MSEC) s)
                   else set_state env (READY_RETURN_STATE s) s
           else set_state_timeout (t_state env + vconn_swap_delay env) (READY_RETURN_STATE s)
                  (clear_pd_flag PD_FLAGS_VCONN_ON (set_vconn False s))
      else s)"

definition on_SOFT_RESET :: "pd_env \<Rightarrow> pd_port \<Rightarrow> pd_port" where
  "on_SOFT_RESET env s =
     (if entered s
      then let (ok, s) = send_control (tx_state env) PD_CTRL_SOFT_RESET (s\<lparr>msg_id := 0\<rparr>)
           in if \<not> ok then wait_for (5 * MSEC) (set_state env PD_STATE_HARD_RESET_SEND s)
              else set_state_timeout (t_sent env + PD_T_SENDER_RESPONSE) PD_STATE_HARD_RESET_SEND s
      else s)"

definition on_HARD_RESET_SEND :: "pd_env \<Rightarrow> pd_port \<Rightarrow> pd_port" where
  "on_HARD_RESET_SEND env s =
     (let s = s\<lparr>hard_reset_count := hard_reset_count s + 1\<rparr>;
          s = (if entered s then s\<lparr>hard_reset_sent := False\<rparr> else s);
          s = (if last_state s = PD_STATE_SNK_DISCOVERY \<or> last_state s = PD_STATE_SOFT_RESET \<and> PD_FLAGS_VBUS_NEVER_LOW \<in> flags s
               then pd_do (UpdateDualrole CAP_DEDICATED) (clear_pd_flag PD_FLAGS_VBUS_NEVER_LOW s) else s)
      in if hard_reset_sent s then s
         else let (ok, s) = pd_transmit (tx_state env) TCPC_TX_HARD_RESET 0 [] s
              in if \<not> ok then wait_for (10 * MSEC) s
                 else let s = s\<lparr>hard_reset_sent := True\<rparr>
                      in if power_role s = PD_ROLE_SOURCE
                         then set_state_timeout (t_sent env + PD_T_PS_HARD_RESET) PD_STATE_HARD_RESET_EXECUTE s
                         else wait_for (10 * MSEC) (set_state env PD_STATE_HARD_RESET_EXECUTE s))"

definition on_HARD_RESET_EXECUTE :: "pd_env \<Rightarrow> pd_port \<Rightarrow> pd_port" where
  "on_HARD_RESET_EXECUTE env s =
     (let s = (if last_state s = PD_STATE_SNK_SWAP_STANDBY then tcpm_set_cc TYPEC_CC_RD s else s)
      in wait_for (10 * MSEC) (pd_execute_hard_reset env (t_state env) s))"

definition on_BIST_RX :: "pd_env \<Rightarrow> pd_port \<Rightarrow> pd_port" where
  "on_BIST_RX env s =
     (let s = wait_for (PD_T_BIST_RECEIVE + 20 * MSEC) (send_bist_cmd (tx_state env) s) in set_state env (disconnected_state s) s)"

definition on_BIST_TX :: "pd_env \<Rightarrow> pd_port \<Rightarrow> pd_port" where
  "on_BIST_TX env s =
     (let s = wait_for (PD_T_BIST_TRANSMIT + 20 * MSEC) (snd (pd_transmit (tx_state env) TCPC_TX_BIST_MODE_2 0 [] s))
      in set_state env (disconnected_state s) s)"

section \<open>The round\<close>

definition run_state :: "pd_env \<Rightarrow> pd_port \<Rightarrow> pd_port" where
  "run_state env s =
     (case task_state s of
        PD_STATE_DISABLED \<Rightarrow> s
      | PD_STATE_SUSPENDED \<Rightarrow> on_SUSPENDED env s
      | PD_STATE_SNK_DISCONNECTED \<Rightarrow> on_SNK_DISCONNECTED env s
      | PD_STATE_SNK_DISCONNECTED_DEBOUNCE \<Rightarrow> on_SNK_DISCONNECTED_DEBOUNCE env s
      | PD_STATE_SNK_HARD_RESET_RECOVER \<Rightarrow> on_SNK_HARD_RESET_RECOVER env s
      | PD_STATE_SNK_DISCOVERY \<Rightarrow> on_SNK_DISCOVERY env s
      | PD_STATE_SNK_REQUESTED \<Rightarrow> on_SNK_REQUESTED env s
      | PD_STATE_SNK_TRANSITION \<Rightarrow> on_SNK_TRANSITION env s
      | PD_STATE_SNK_READY \<Rightarrow> on_SNK_READY env s
      | PD_STATE_SNK_SWAP_INIT \<Rightarrow> on_SNK_SWAP_INIT env s
      | PD_STATE_SNK_SWAP_SNK_DISABLE \<Rightarrow> on_SNK_SWAP_SNK_DISABLE env s
      | PD_STATE_SNK_SWAP_SRC_DISABLE \<Rightarrow> on_SNK_SWAP_SRC_DISABLE env s
      | PD_STATE_SNK_SWAP_STANDBY \<Rightarrow> on_SNK_SWAP_STANDBY env s
      | PD_STATE_SNK_SWAP_COMPLETE \<Rightarrow> on_SNK_SWAP_COMPLETE env s
      | PD_STATE_SRC_DISCONNECTED \<Rightarrow> on_SRC_DISCONNECTED env s
      | PD_STATE_SRC_DISCONNECTED_DEBOUNCE \<Rightarrow> on_SRC_DISCONNECTED_DEBOUNCE env s
      | PD_STATE_SRC_HARD_RESET_RECOVER \<Rightarrow> on_SRC_HARD_RESET_RECOVER env s
      | PD_STATE_SRC_STARTUP \<Rightarrow> on_SRC_STARTUP env s
      | PD_STATE_SRC_DISCOVERY \<Rightarrow> on_SRC_DISCOVERY env s
      | PD_STATE_SRC_NEGOCIATE \<Rightarrow> on_SRC_NEGOCIATE env s
      | PD_STATE_SRC_ACCEPTED \<Rightarrow> on_SRC_ACCEPTED env s
      | PD_STATE_SRC_POWERED \<Rightarrow> on_SRC_POWERED env s
      | PD_STATE_SRC_TRANSITION \<Rightarrow> on_SRC_TRANSITION env s
      | PD_STATE_SRC_READY \<Rightarrow> on_SRC_READY env s
      | PD_STATE_SRC_GET_SINK_CAP \<Rightarrow> on_SRC_GET_SINK_CAP env s
      | PD_STATE_DR_SWAP \<Rightarrow> on_DR_SWAP env s
      | PD_STATE_SRC_SWAP_INIT \<Rightarrow> on_SRC_SWAP_INIT env s
      | PD_STATE_SRC_SWAP_SNK_DISABLE \<Rightarrow> on_SRC_SWAP_SNK_DISABLE env s
      | PD_STATE_SRC_SWAP_SRC_DISABLE \<Rightarrow> on_SRC_SWAP_SRC_DISABLE env s
      | PD_STATE_SRC_SWAP_STANDBY \<Rightarrow> on_SRC_SWAP_STANDBY env s
      | PD_STATE_VCONN_SWAP_SEND \<Rightarrow> on_VCONN_SWAP_SEND env s
      | PD_STATE_VCONN_SWAP_INIT \<Rightarrow> on_VCONN_SWAP_INIT env s
      | PD_STATE_VCONN_SWAP_READY \<Rightarrow> on_VCONN_SWAP_READY env s
      | PD_STATE_SOFT_RESET \<Rightarrow> on_SOFT_RESET env s
      | PD_STATE_HARD_RESET_SEND \<Rightarrow> on_HARD_RESET_SEND env s
      | PD_STATE_HARD_RESET_EXECUTE \<Rightarrow> on_HARD_RESET_EXECUTE env s
      | PD_STATE_BIST_RX \<Rightarrow> on_BIST_RX env s
      | PD_STATE_BIST_TX \<Rightarrow> on_BIST_TX env s)"

definition pd_update_dual_role_config :: "pd_env \<Rightarrow> pd_port \<Rightarrow> pd_port" where
  "pd_update_dual_role_config env s =
     (let s = (if power_role s = PD_ROLE_SOURCE
                 \<and> (drp_state s = PD_DRP_FORCE_SINK \<and> \<not> pd_ts_dts_plugged s
                    \<or> drp_state s = PD_DRP_TOGGLE_OFF \<and> task_state s = PD_STATE_SRC_DISCONNECTED)
               then pd_power_supply_reset (tcpm_set_cc TYPEC_CC_RD
                      (set_state env PD_STATE_SNK_DISCONNECTED (pd_set_power_role PD_ROLE_SINK s)))
               else s)
      in if power_role s = PD_ROLE_SINK \<and> drp_state s = PD_DRP_FORCE_SOURCE
         then tcpm_set_cc TYPEC_CC_RP (set_state env PD_STATE_SRC_DISCONNECTED (pd_set_power_role PD_ROLE_SOURCE s))
         else s)"

text \<open>The default role of a dual-role port is the sink.\<close>

definition tcpc_was_reset :: "pd_env \<Rightarrow> pd_port \<Rightarrow> pd_port" where
  "tcpc_was_reset env s =
     (let s = pd_do TcpcInit s;
          s = (if task_state s = PD_STATE_SOFT_RESET
               then let s = tcpm_set_cc (if power_role s = PD_ROLE_SOURCE then TYPEC_CC_RP else TYPEC_CC_RD) s;
                        (cc1, cc2) = cc_reset env
                    in s\<lparr>polarity := (if power_role s = PD_ROLE_SINK then get_snk_polarity cc1 cc2 else cc1 \<noteq> TYPEC_CC_VOLT_RD)\<rparr>
               else tcpm_set_cc TYPEC_CC_RD s)
      in if vdm_state s = VDM_STATE_DONE \<and> (task_state s = PD_STATE_SNK_READY \<or> task_state s = PD_STATE_SOFT_RESET)
         then tcpm_set_rx_enable True (pd_do (SetMsgHeader (power_role s) (data_role s)) (set_polarity (polarity s) s))
         else set_state env PD_STATE_SNK_DISCONNECTED ((pd_set_power_role PD_ROLE_SINK s)\<lparr>vdm_state := VDM_STATE_DONE\<rparr>))"

definition handle_events :: "pd_env \<Rightarrow> pd_port \<Rightarrow> pd_port" where
  "handle_events env s =
     (let s = pd_vdm_send_state_machine (tx_vdm env) (t_vdm env) s;
          s = (if ev_power env then handle_new_power_state env s else s);
          s = (if ev_dual_role env then pd_update_dual_role_config env s else s)
      in if ev_tcpc_reset env then tcpc_was_reset env s else s)"

definition receive_message :: "pd_env \<Rightarrow> pd_port \<Rightarrow> pd_port option" where
  "receive_message env s =
     (case rx_msg env of
        None \<Rightarrow> Some s
      | Some (head, payload) \<Rightarrow>
          map_option (\<lambda>s. if rx_more env then pd_do TaskWake s else s) (handle_request env head payload s))"

definition check_state_timeout :: "pd_env \<Rightarrow> pd_port \<Rightarrow> pd_port" where
  "check_state_timeout env s =
     (if timeout s \<noteq> 0
      then if t_check env \<ge> timeout s
           then (set_state env (timeout_state s) s)\<lparr>wait_time := min (wait_time s) (10 * MSEC)\<rparr>
           else if timeout s - t_check env < wait_time s then wait_for (timeout s - t_check env) s
           else s
      else s)"

definition source_disconnect :: "pd_env \<Rightarrow> pd_port \<Rightarrow> pd_port" where
  "source_disconnect env s =
     (let s = wait_for (10 * MSEC) (set_state env PD_STATE_SRC_DISCONNECTED s)
      in if pd_try_src_enable s
         then let s = tcpm_set_cc TYPEC_CC_RD (pd_set_power_role PD_ROLE_SINK s);
                  s = s\<lparr>try_src_marker := t_disc env + PD_T_DEBOUNCE\<rparr>
              in set_pd_flag PD_FLAGS_TRY_SRC (set_state env PD_STATE_SNK_DISCONNECTED s)
         else s)"

definition check_disconnect :: "pd_env \<Rightarrow> pd_port \<Rightarrow> pd_port" where
  "check_disconnect env s =
     (if \<not> pd_is_connected s \<or> pd_is_power_swapping s then s
      else let s = (if power_role s = PD_ROLE_SOURCE
                      \<and> (if polarity s then snd (cc_disc env) else fst (cc_disc env)) = TYPEC_CC_VOLT_OPEN
                    then source_disconnect env s else s)
           in if power_role s = PD_ROLE_SINK \<and> vbus_debounce_time s < t_disc env \<and> \<not> vbus_disc env
                 \<and> task_state s \<noteq> PD_STATE_SNK_HARD_RESET_RECOVER \<and> task_state s \<noteq> PD_STATE_HARD_RESET_EXECUTE
              then wait_for (5 * MSEC) (set_state env PD_STATE_SNK_DISCONNECTED s)
              else s)"

definition suspend_if_asked :: "pd_env \<Rightarrow> pd_port \<Rightarrow> pd_port" where
  "suspend_if_asked env s = (if req_suspend_state s then set_state env PD_STATE_SUSPENDED s else s)"

definition run_and_check :: "pd_env \<Rightarrow> pd_port \<Rightarrow> pd_port" where
  "run_and_check env s =
     (let this_state = task_state s;
          s = (run_state env (wait_for (500 * MSEC) s))\<lparr>last_state := this_state\<rparr>
      in check_disconnect env (check_state_timeout env s))"

definition pd_round :: "pd_env \<Rightarrow> pd_port \<Rightarrow> pd_port option" where
  "pd_round env s =
     map_option (\<lambda>s. run_and_check env (suspend_if_asked env s)) (receive_message env (handle_events env s))"

section \<open>Start of the task\<close>

datatype chipset_power = CHIPSET_STATE_ANY_OFF | CHIPSET_STATE_ANY_SUSPEND | CHIPSET_STATE_ON

definition pd_init_tasks :: "chipset_power \<Rightarrow> bool \<Rightarrow> bool \<Rightarrow> pd_port \<Rightarrow> pd_port" where
  "pd_init_tasks chipset rw locked s =
     s\<lparr>drp_state := (case chipset of CHIPSET_STATE_ANY_OFF \<Rightarrow> PD_DRP_FORCE_SINK | CHIPSET_STATE_ANY_SUSPEND \<Rightarrow> PD_DRP_TOGGLE_OFF
                                  | CHIPSET_STATE_ON \<Rightarrow> PD_DRP_TOGGLE_ON),
       pd_comm_enabled := (rw \<or> \<not> locked)\<rparr>"

text \<open>\<open>power_lost\<close>: the reset was a brown-out or power-on. An unreadable store leaves the code with a flag
  byte that is not initialised; the model takes it as empty.\<close>

definition pd_partner_port_reset :: "bool \<Rightarrow> pd_port \<Rightarrow> pd_port" where
  "pd_partner_port_reset power_lost s =
     (let contract = (case bbram s of None \<Rightarrow> False | Some fs \<Rightarrow> PD_BBRMFLG_EXPLICIT_CONTRACT \<in> fs)
      in if contract \<and> pd_comm_enabled s then s
         else if \<not> contract \<or> power_lost then s
         else tcpm_set_cc TYPEC_CC_RP (pd_update_saved_port_flags PD_BBRMFLG_EXPLICIT_CONTRACT False s))"

definition pd_task_init :: "pd_env \<Rightarrow> bool \<Rightarrow> bool \<Rightarrow> pd_port \<Rightarrow> pd_port" where
  "pd_task_init env init_fails power_lost s =
     (let s = pd_do TcpcInit (pd_power_supply_reset s);
          s = pd_partner_port_reset power_lost s;
          s = (if vbus_seen env then set_pd_flag PD_FLAGS_VBUS_NEVER_LOW s else s);
          s = pd_do UsbMuxInit (tcpm_set_rx_enable False s);
          saved = (if pd_comm_enabled s then case bbram s of None \<Rightarrow> {} | Some fs \<Rightarrow> fs else {});
          contract = (PD_BBRMFLG_EXPLICIT_CONTRACT \<in> saved);
          this_state = (if contract then PD_STATE_SOFT_RESET else if init_fails then PD_STATE_SUSPENDED else PD_STATE_SNK_DISCONNECTED);
          s = (if contract
               then pd_do TcpcResetEvent
                      (pd_set_data_role env (if PD_BBRMFLG_DATA_ROLE \<in> saved then PD_ROLE_DFP else PD_ROLE_UFP)
                        (pd_set_power_role (if PD_BBRMFLG_POWER_ROLE \<in> saved then PD_ROLE_SOURCE else PD_ROLE_SINK) s))
               else pd_set_power_role PD_ROLE_SINK s);
          s = pd_do SelectRp (set_state env this_state (s\<lparr>vdm_state := VDM_STATE_DONE\<rparr>));
          s = (if contract then s else tcpm_set_cc TYPEC_CC_RD s);
          s = s\<lparr>alt := pd_dfp_pe_init (alt s)\<rparr>;
          s = pd_do (UpdateDualrole CAP_UNKNOWN) (pd_do (TypecLimit 0 0) (input_limit 0 0 s))
      in s\<lparr>wait_time := 10 * MSEC, hard_reset_count := 0, next_role_swap := PD_T_DRP_SNK, snk_hard_reset_vbus_off := False,
           typec_curr := 0, typec_curr_change := False, next_src_cap := 0, caps_count := 0, hard_reset_sent := False, snk_cap_count := 0\<rparr>)"

section \<open>What other tasks do\<close>

definition pd_vbus_low :: "pd_port \<Rightarrow> pd_port" where
  "pd_vbus_low s = clear_pd_flag PD_FLAGS_VBUS_NEVER_LOW s"

definition pd_comm_enable :: "nat \<Rightarrow> bool \<Rightarrow> pd_port \<Rightarrow> pd_port" where
  "pd_comm_enable now enable s =
     (let s = s\<lparr>pd_comm_enabled := enable\<rparr>;
          s = (if pd_is_connected s then tcpm_set_rx_enable enable s else s)
      in if enable \<and> task_state s = PD_STATE_SNK_DISCOVERY
         then set_state_timeout (now + PD_T_SINK_WAIT_CAP) PD_STATE_HARD_RESET_SEND s else s)"

definition pd_ping_enable :: "bool \<Rightarrow> pd_port \<Rightarrow> pd_port" where
  "pd_ping_enable enable s = flag_from enable PD_FLAGS_PING_ENABLED s"

definition pd_set_new_power_request :: "pd_port \<Rightarrow> pd_port" where
  "pd_set_new_power_request s = pd_do TaskWake (s\<lparr>new_power_request := True\<rparr>)"

definition pd_soft_reset :: "pd_env \<Rightarrow> pd_port \<Rightarrow> pd_port" where
  "pd_soft_reset env s = (if pd_is_connected s then pd_do TaskWake (set_state env PD_STATE_SOFT_RESET s) else s)"

text \<open>\<open>others\<close>: some other port is toggling; \<open>soc\<close> and \<open>present\<close> are the charge and presence of the battery.\<close>

definition pd_update_try_source :: "bool \<Rightarrow> int \<Rightarrow> bool \<Rightarrow> pd_port \<Rightarrow> pd_port" where
  "pd_update_try_source others soc present s =
     (let try_src = (others \<or> drp_state s = PD_DRP_TOGGLE_ON)
      in clear_pd_flag PD_FLAGS_TRY_SRC (s\<lparr>pd_try_src_enable := (try_src \<and> soc \<ge> 1 \<and> present)\<rparr>))"

definition pd_set_dual_role_no_wakeup :: "bool \<Rightarrow> int \<Rightarrow> bool \<Rightarrow> pd_dual_role_states \<Rightarrow> pd_port \<Rightarrow> pd_port" where
  "pd_set_dual_role_no_wakeup others soc present st s = pd_update_try_source others soc present (s\<lparr>drp_state := st\<rparr>)"

definition pd_set_dual_role :: "bool \<Rightarrow> int \<Rightarrow> bool \<Rightarrow> pd_dual_role_states \<Rightarrow> pd_port \<Rightarrow> pd_port" where
  "pd_set_dual_role others soc present st s = pd_do DualRoleEvent (pd_set_dual_role_no_wakeup others soc present st s)"

definition pd_chipset_resume :: "bool \<Rightarrow> bool \<Rightarrow> int \<Rightarrow> bool \<Rightarrow> pd_port \<Rightarrow> pd_port" where
  "pd_chipset_resume active others soc present s =
     pd_set_dual_role others soc present PD_DRP_TOGGLE_ON
       (if active then s else set_pd_flag PD_FLAGS_CHECK_DR_ROLE (set_pd_flag PD_FLAGS_CHECK_PR_ROLE s))"

definition pd_chipset_suspend :: "bool \<Rightarrow> int \<Rightarrow> bool \<Rightarrow> pd_port \<Rightarrow> pd_port" where
  "pd_chipset_suspend others soc present s = pd_set_dual_role others soc present PD_DRP_TOGGLE_OFF s"

definition pd_chipset_startup :: "bool \<Rightarrow> int \<Rightarrow> bool \<Rightarrow> pd_port \<Rightarrow> pd_port" where
  "pd_chipset_startup others soc present s =
     pd_do PowerStateEvent (pd_do DualRoleEvent
       (set_pd_flag PD_FLAGS_CHECK_IDENTITY (pd_set_dual_role_no_wakeup others soc present PD_DRP_TOGGLE_OFF s)))"

definition pd_chipset_shutdown :: "bool \<Rightarrow> int \<Rightarrow> bool \<Rightarrow> pd_port \<Rightarrow> pd_port" where
  "pd_chipset_shutdown others soc present s =
     pd_do PowerStateEvent (pd_do DualRoleEvent (pd_set_dual_role_no_wakeup others soc present PD_DRP_FORCE_SINK s))"

text \<open>The caller waits for the task to reach the suspended state, for 300 ms at most.\<close>

definition pd_set_suspend :: "pd_env \<Rightarrow> bool \<Rightarrow> pd_port \<Rightarrow> pd_port" where
  "pd_set_suspend env enable s =
     (if enable then pd_do TaskWake (s\<lparr>req_suspend_state := True\<rparr>)
      else pd_do TaskWake (set_state env PD_STATE_SNK_DISCONNECTED s))"

definition pd_request_source_voltage :: "pd_env \<Rightarrow> u32 \<Rightarrow> pd_port \<Rightarrow> pd_port" where
  "pd_request_source_voltage env mv s =
     (let s = s\<lparr>snk := pd_set_max_voltage mv (snk s)\<rparr>;
          s = (if task_state s = PD_STATE_SNK_READY \<or> task_state s = PD_STATE_SNK_TRANSITION
               then s\<lparr>new_power_request := True\<rparr>
               else set_state env PD_STATE_SNK_DISCONNECTED (tcpm_set_cc TYPEC_CC_RD (pd_set_power_role PD_ROLE_SINK s)))
      in pd_do TaskWake s)"

definition pd_set_external_voltage_limit :: "u32 \<Rightarrow> pd_port \<Rightarrow> pd_port" where
  "pd_set_external_voltage_limit mv s =
     (let s = s\<lparr>snk := pd_set_max_voltage mv (snk s)\<rparr>
      in if task_state s = PD_STATE_SNK_READY \<or> task_state s = PD_STATE_SNK_TRANSITION
         then pd_do TaskWake (s\<lparr>new_power_request := True\<rparr>) else s)"

definition pd_update_contract :: "pd_port \<Rightarrow> pd_port" where
  "pd_update_contract s =
     (if task_state s \<in> {PD_STATE_SRC_NEGOCIATE, PD_STATE_SRC_ACCEPTED, PD_STATE_SRC_POWERED, PD_STATE_SRC_TRANSITION,
                         PD_STATE_SRC_READY, PD_STATE_SRC_GET_SINK_CAP}
      then pd_do TaskWake (set_pd_flag PD_FLAGS_UPDATE_SRC_CAPS s) else s)"

end
