(* ===== verification/PD_Task_Safety.thy ===== *)
theory PD_Task_Safety
  imports PD_Task
begin

text \<open>
  VBUS under the USB PD task: a port drives VBUS only as a source, apart from the last part of a
  swap of roles, over every sequence of rounds and of calls from other tasks, for a partner and a
  port controller that keep to the protocol; and what happens when they do not.
\<close>

section \<open>What the helpers keep\<close>

text \<open>The fields that decide whether VBUS is on.\<close>

definition vbus_core :: "pd_port \<Rightarrow> bool \<times> pd_power_role \<times> pd_states \<times> nat \<times> pd_states \<times> pd_states" where
  "vbus_core s = (vbus_en s, power_role s, task_state s, timeout s, timeout_state s, last_state s)"

lemma core_updates [simp]:
  "vbus_core (s\<lparr>data_role := x0\<rparr>) = vbus_core s"
  "vbus_core (s\<lparr>msg_id := x1\<rparr>) = vbus_core s"
  "vbus_core (s\<lparr>polarity := x2\<rparr>) = vbus_core s"
  "vbus_core (s\<lparr>req_suspend_state := x4\<rparr>) = vbus_core s"
  "vbus_core (s\<lparr>flags := x5\<rparr>) = vbus_core s"
  "vbus_core (s\<lparr>src_recover := x6\<rparr>) = vbus_core s"
  "vbus_core (s\<lparr>cc_debounce := x7\<rparr>) = vbus_core s"
  "vbus_core (s\<lparr>cc_state := x8\<rparr>) = vbus_core s"
  "vbus_core (s\<lparr>tx_status := x9\<rparr>) = vbus_core s"
  "vbus_core (s\<lparr>requested_idx := x10\<rparr>) = vbus_core s"
  "vbus_core (s\<lparr>curr_limit := x11\<rparr>) = vbus_core s"
  "vbus_core (s\<lparr>supply_voltage := x12\<rparr>) = vbus_core s"
  "vbus_core (s\<lparr>new_power_request := x13\<rparr>) = vbus_core s"
  "vbus_core (s\<lparr>prev_request_mv := x14\<rparr>) = vbus_core s"
  "vbus_core (s\<lparr>try_src_marker := x15\<rparr>) = vbus_core s"
  "vbus_core (s\<lparr>try_timeout := x16\<rparr>) = vbus_core s"
  "vbus_core (s\<lparr>vbus_debounce_time := x17\<rparr>) = vbus_core s"
  "vbus_core (s\<lparr>vdm_state := x18\<rparr>) = vbus_core s"
  "vbus_core (s\<lparr>vdm_timeout := x19\<rparr>) = vbus_core s"
  "vbus_core (s\<lparr>vdo_data := x20\<rparr>) = vbus_core s"
  "vbus_core (s\<lparr>vdo_count := x21\<rparr>) = vbus_core s"
  "vbus_core (s\<lparr>vdo_retry := x22\<rparr>) = vbus_core s"
  "vbus_core (s\<lparr>dev_id := x23\<rparr>) = vbus_core s"
  "vbus_core (s\<lparr>dev_rw_hash := x24\<rparr>) = vbus_core s"
  "vbus_core (s\<lparr>current_image := x25\<rparr>) = vbus_core s"
  "vbus_core (s\<lparr>snk_ready_holdoff_timer := x26\<rparr>) = vbus_core s"
  "vbus_core (s\<lparr>pd_comm_enabled := x27\<rparr>) = vbus_core s"
  "vbus_core (s\<lparr>drp_state := x28\<rparr>) = vbus_core s"
  "vbus_core (s\<lparr>pd_try_src_enable := x29\<rparr>) = vbus_core s"
  "vbus_core (s\<lparr>bbram := x30\<rparr>) = vbus_core s"
  "vbus_core (s\<lparr>rw_hash_table := x31\<rparr>) = vbus_core s"
  "vbus_core (s\<lparr>cc_pull := x32\<rparr>) = vbus_core s"
  "vbus_core (s\<lparr>vconn_en := x33\<rparr>) = vbus_core s"
  "vbus_core (s\<lparr>rx_enable := x34\<rparr>) = vbus_core s"
  "vbus_core (s\<lparr>snk := x35\<rparr>) = vbus_core s"
  "vbus_core (s\<lparr>alt := x36\<rparr>) = vbus_core s"
  "vbus_core (s\<lparr>wait_time := x37\<rparr>) = vbus_core s"
  "vbus_core (s\<lparr>hard_reset_count := x38\<rparr>) = vbus_core s"
  "vbus_core (s\<lparr>next_role_swap := x39\<rparr>) = vbus_core s"
  "vbus_core (s\<lparr>snk_hard_reset_vbus_off := x40\<rparr>) = vbus_core s"
  "vbus_core (s\<lparr>typec_curr := x41\<rparr>) = vbus_core s"
  "vbus_core (s\<lparr>typec_curr_change := x42\<rparr>) = vbus_core s"
  "vbus_core (s\<lparr>next_src_cap := x43\<rparr>) = vbus_core s"
  "vbus_core (s\<lparr>caps_count := x44\<rparr>) = vbus_core s"
  "vbus_core (s\<lparr>hard_reset_sent := x45\<rparr>) = vbus_core s"
  "vbus_core (s\<lparr>snk_cap_count := x46\<rparr>) = vbus_core s"
  "vbus_core (s\<lparr>pd_calls := x47\<rparr>) = vbus_core s"
  by (simp_all add: vbus_core_def)

lemmas pd_basic = pd_do_def set_pd_flag_def clear_pd_flag_def set_polarity_def set_vconn_def tcpm_set_cc_def tcpm_set_rx_enable_def
  input_limit_def pd_ceil_def pd_update_roles_def wait_for_def inc_id_def queue_vdm_def pd_update_saved_port_flags_def

lemma core_basic [simp]:
  "vbus_core (pd_do c s) = vbus_core s"
  "vbus_core (set_pd_flag f s) = vbus_core s"
  "vbus_core (clear_pd_flag f s) = vbus_core s"
  "vbus_core (set_polarity b s) = vbus_core s"
  "vbus_core (set_vconn b s) = vbus_core s"
  "vbus_core (tcpm_set_cc pull s) = vbus_core s"
  "vbus_core (tcpm_set_rx_enable b s) = vbus_core s"
  "vbus_core (input_limit ma mv s) = vbus_core s"
  "vbus_core (pd_ceil i s) = vbus_core s"
  "vbus_core (pd_update_roles s) = vbus_core s"
  "vbus_core (wait_for t s) = vbus_core s"
  "vbus_core (inc_id s) = vbus_core s"
  "vbus_core (queue_vdm h d s) = vbus_core s"
  "vbus_core (pd_update_saved_port_flags bf b s) = vbus_core s"
  by (simp_all add: pd_basic split: option.split)

lemma core_helpers [simp]:
  "vbus_core (flag_from b f s) = vbus_core s"
  "vbus_core (set_usb_mux_with_current_data_role env s) = vbus_core s"
  "vbus_core (enable_rx s) = vbus_core s"
  "vbus_core (pd_transmit_complete st s) = vbus_core s"
  "vbus_core (pd_send_vdm v w d s) = vbus_core s"
  "vbus_core (drop_contract s) = vbus_core s"
  "vbus_core (pd_set_data_role env dr s) = vbus_core s"
  "vbus_core (driver_call rc s) = vbus_core s"
  by (simp_all add: flag_from_def set_usb_mux_with_current_data_role_def enable_rx_def pd_transmit_complete_def pd_send_vdm_def Let_def
      drop_contract_def pd_set_data_role_def driver_call_def split: reef_call.split)

lemma core_drivers [simp]: "vbus_core (fold driver_call cs s) = vbus_core s"
  by (induction cs arbitrary: s) simp_all

lemma core_policy [simp]:
  "vbus_core (policy_out p s) = vbus_core s"
  "vbus_core (exit_modes env s) = vbus_core s"
  "vbus_core (pd_dr_swap env s) = vbus_core s"
  "vbus_core (pd_update_pdo_flags pdo s) = vbus_core s"
  "vbus_core (process_source_cap env caps s) = vbus_core s"
  "vbus_core (snd (pd_dev_store_rw_hash u hs im s)) = vbus_core s"
  by (simp_all add: policy_out_def exit_modes_def pd_dr_swap_def pd_update_pdo_flags_def process_source_cap_def pd_dev_store_rw_hash_def Let_def)

lemma core_custom [simp]: "vbus_core (pd_custom_vdm n pl s) = vbus_core s"
  by (simp add: pd_custom_vdm_def pd_dev_store_rw_hash_def Let_def)

lemma core_supply [simp]: "vbus_core (pd_power_supply_reset s) = (False, snd (vbus_core s))"
  by (simp add: vbus_core_def pd_power_supply_reset_def pd_do_def Let_def)

lemma core_timeout [simp]: "vbus_core (set_state_timeout t st s) = (vbus_en s, power_role s, task_state s, t, st, last_state s)"
  by (simp add: vbus_core_def set_state_timeout_def)

lemma core_role [simp]: "vbus_core (pd_set_power_role r s) = (vbus_en s, r, task_state s, timeout s, timeout_state s, last_state s)"
  by (simp add: pd_set_power_role_def) (simp add: vbus_core_def)

definition cuts_vbus :: "pd_states \<Rightarrow> pd_port \<Rightarrow> bool" where
  "cuts_vbus x s \<longleftrightarrow> power_role s = PD_ROLE_SOURCE \<and> task_state s \<noteq> x \<and>
     (x = PD_STATE_SNK_DISCONNECTED \<and> task_state s \<noteq> PD_STATE_SRC_DISCONNECTED
      \<or> x = PD_STATE_SRC_DISCONNECTED \<and> task_state s \<noteq> PD_STATE_SNK_DISCONNECTED)"

lemma vcore_eqD:
  assumes "vbus_core s' = vbus_core s"
  shows "vbus_en s' = vbus_en s" "power_role s' = power_role s" "task_state s' = task_state s" "timeout s' = timeout s"
    "timeout_state s' = timeout_state s" "last_state s' = last_state s"
  using assms by (auto simp: vbus_core_def)

lemma core_disconnected:
  "vbus_core (enter_disconnected env s) = (vbus_en s \<and> power_role s \<noteq> PD_ROLE_SOURCE, snd (vbus_core s))"
proof -
  let ?s = "pd_update_saved_port_flags PD_BBRMFLG_EXPLICIT_CONTRACT False (set_vconn False
     (pd_ceil CHARGE_CEIL_NONE (pd_do (TypecLimit 0 0) (input_limit 0 0 (s\<lparr>snk_ready_holdoff_timer := 0\<rparr>)))))"
  have c: "vbus_core ?s = vbus_core s" by simp
  show ?thesis using vcore_eqD(2) [OF c] unfolding enter_disconnected_def Let_def
    by simp (simp add: vbus_core_def)
qed

lemma core_set_state [simp]:
  "vbus_core (set_state env x s) = (vbus_en s \<and> \<not> cuts_vbus x s, power_role s, x, 0, PD_STATE_DISABLED, last_state s)"
  unfolding set_state_def Let_def cuts_vbus_def
  by (auto simp: core_disconnected) (auto simp: vbus_core_def set_state_timeout_def)

lemma core_transmit [simp]: "vbus_core (snd (pd_transmit tx ty h d s)) = vbus_core s"
  by (simp add: pd_transmit_def Let_def split: tx_result.split)

lemma core_send [simp]:
  "vbus_core (snd (send_control tx ty s)) = vbus_core s"
  "vbus_core (snd (send_source_cap env tx s)) = vbus_core s"
  "vbus_core (send_sink_cap env tx s) = vbus_core s"
  "vbus_core (snd (send_request tx rdo s)) = vbus_core s"
  "vbus_core (send_bist_cmd tx s) = vbus_core s"
  by (simp_all add: send_control_def send_source_cap_def send_sink_cap_def send_request_def send_bist_cmd_def Let_def)

lemma core_vdm_machine [simp]: "vbus_core (pd_vdm_send_state_machine tx now s) = vbus_core s"
  by (simp add: pd_vdm_send_state_machine_def Let_def case_prod_unfold split: vdm_states.split)

lemma core_exit_dp [simp]: "vbus_core (exit_dp_mode env s) = vbus_core s"
  by (simp add: exit_dp_mode_def Let_def case_prod_unfold)

lemma core_new_power [simp]: "vbus_core (handle_new_power_state env s) = vbus_core s"
  by (simp add: handle_new_power_state_def)

lemmas core_kept = core_basic core_helpers core_drivers core_policy core_custom core_transmit core_send core_vdm_machine core_exit_dp core_new_power

lemmas vcore_fields [simp] = core_kept [THEN vcore_eqD(1)] core_kept [THEN vcore_eqD(2)] core_kept [THEN vcore_eqD(3)]
  core_kept [THEN vcore_eqD(4)] core_kept [THEN vcore_eqD(5)] core_kept [THEN vcore_eqD(6)]

lemma supply_fields [simp]:
  "vbus_en (pd_power_supply_reset s) = False" "power_role (pd_power_supply_reset s) = power_role s"
  "task_state (pd_power_supply_reset s) = task_state s" "timeout (pd_power_supply_reset s) = timeout s"
  "timeout_state (pd_power_supply_reset s) = timeout_state s" "last_state (pd_power_supply_reset s) = last_state s"
  by (simp_all add: pd_power_supply_reset_def pd_do_def Let_def)

lemma timeout_fields [simp]:
  "vbus_en (set_state_timeout t st s) = vbus_en s" "power_role (set_state_timeout t st s) = power_role s"
  "task_state (set_state_timeout t st s) = task_state s" "timeout (set_state_timeout t st s) = t"
  "timeout_state (set_state_timeout t st s) = st" "last_state (set_state_timeout t st s) = last_state s"
  by (simp_all add: set_state_timeout_def)

lemma role_fields [simp]:
  "vbus_en (pd_set_power_role r s) = vbus_en s" "power_role (pd_set_power_role r s) = r"
  "task_state (pd_set_power_role r s) = task_state s" "timeout (pd_set_power_role r s) = timeout s"
  "timeout_state (pd_set_power_role r s) = timeout_state s" "last_state (pd_set_power_role r s) = last_state s"
  using core_role [of r s] by (simp_all add: vbus_core_def)

lemma set_state_fields [simp]:
  "vbus_en (set_state env x s) = (vbus_en s \<and> \<not> cuts_vbus x s)" "power_role (set_state env x s) = power_role s"
  "task_state (set_state env x s) = x" "timeout (set_state env x s) = 0" "timeout_state (set_state env x s) = PD_STATE_DISABLED"
  "last_state (set_state env x s) = last_state s"
  using core_set_state [of env x s] unfolding vbus_core_def by simp_all

section \<open>VBUS\<close>

text \<open>The states of a source; in \<open>PD_STATE_SRC_SWAP_STANDBY\<close> the port becomes a sink.\<close>

definition src_state :: "pd_states \<Rightarrow> bool" where
  "src_state x \<longleftrightarrow> x \<in> {PD_STATE_SRC_DISCONNECTED, PD_STATE_SRC_DISCONNECTED_DEBOUNCE, PD_STATE_SRC_HARD_RESET_RECOVER,
     PD_STATE_SRC_STARTUP, PD_STATE_SRC_DISCOVERY, PD_STATE_SRC_NEGOCIATE, PD_STATE_SRC_ACCEPTED, PD_STATE_SRC_POWERED,
     PD_STATE_SRC_TRANSITION, PD_STATE_SRC_READY, PD_STATE_SRC_GET_SINK_CAP, PD_STATE_SRC_SWAP_INIT,
     PD_STATE_SRC_SWAP_SNK_DISABLE, PD_STATE_SRC_SWAP_SRC_DISABLE}"

lemma src_state_simps [simp]:
  "\<not> src_state PD_STATE_DISABLED"
  "\<not> src_state PD_STATE_SUSPENDED"
  "\<not> src_state PD_STATE_SNK_DISCONNECTED"
  "\<not> src_state PD_STATE_SNK_DISCONNECTED_DEBOUNCE"
  "\<not> src_state PD_STATE_SNK_HARD_RESET_RECOVER"
  "\<not> src_state PD_STATE_SNK_DISCOVERY"
  "\<not> src_state PD_STATE_SNK_REQUESTED"
  "\<not> src_state PD_STATE_SNK_TRANSITION"
  "\<not> src_state PD_STATE_SNK_READY"
  "\<not> src_state PD_STATE_SNK_SWAP_INIT"
  "\<not> src_state PD_STATE_SNK_SWAP_SNK_DISABLE"
  "\<not> src_state PD_STATE_SNK_SWAP_SRC_DISABLE"
  "\<not> src_state PD_STATE_SNK_SWAP_STANDBY"
  "\<not> src_state PD_STATE_SNK_SWAP_COMPLETE"
  "src_state PD_STATE_SRC_DISCONNECTED"
  "src_state PD_STATE_SRC_DISCONNECTED_DEBOUNCE"
  "src_state PD_STATE_SRC_HARD_RESET_RECOVER"
  "src_state PD_STATE_SRC_STARTUP"
  "src_state PD_STATE_SRC_DISCOVERY"
  "src_state PD_STATE_SRC_NEGOCIATE"
  "src_state PD_STATE_SRC_ACCEPTED"
  "src_state PD_STATE_SRC_POWERED"
  "src_state PD_STATE_SRC_TRANSITION"
  "src_state PD_STATE_SRC_READY"
  "src_state PD_STATE_SRC_GET_SINK_CAP"
  "\<not> src_state PD_STATE_DR_SWAP"
  "src_state PD_STATE_SRC_SWAP_INIT"
  "src_state PD_STATE_SRC_SWAP_SNK_DISABLE"
  "src_state PD_STATE_SRC_SWAP_SRC_DISABLE"
  "\<not> src_state PD_STATE_SRC_SWAP_STANDBY"
  "\<not> src_state PD_STATE_VCONN_SWAP_SEND"
  "\<not> src_state PD_STATE_VCONN_SWAP_INIT"
  "\<not> src_state PD_STATE_VCONN_SWAP_READY"
  "\<not> src_state PD_STATE_SOFT_RESET"
  "\<not> src_state PD_STATE_HARD_RESET_SEND"
  "\<not> src_state PD_STATE_HARD_RESET_EXECUTE"
  "\<not> src_state PD_STATE_BIST_RX"
  "\<not> src_state PD_STATE_BIST_TX"
  by (simp_all add: src_state_def)

definition good :: "pd_port \<Rightarrow> bool" where
  "good s \<longleftrightarrow> (vbus_en s \<longrightarrow> power_role s = PD_ROLE_SOURCE \<and> timeout_state s \<noteq> PD_STATE_SRC_SWAP_STANDBY
       \<and> task_state s \<notin> {PD_STATE_SNK_DISCONNECTED, PD_STATE_SRC_DISCONNECTED, PD_STATE_SRC_SWAP_STANDBY})
     \<and> (power_role s = PD_ROLE_SINK \<longrightarrow> \<not> src_state (task_state s) \<and> \<not> src_state (timeout_state s)
       \<and> timeout_state s \<noteq> PD_STATE_SRC_SWAP_STANDBY)"

definition late :: "pd_port \<Rightarrow> bool" where
  "late s \<longleftrightarrow> (power_role s = PD_ROLE_SINK \<and> task_state s = PD_STATE_SRC_SWAP_STANDBY \<longrightarrow> last_state s = PD_STATE_SRC_SWAP_STANDBY)"

lemma late_core: assumes "vbus_core s' = vbus_core s" shows "late s' = late s"
  unfolding late_def vcore_eqD [OF assms] by (rule refl)

lemma late_set_state: "x \<noteq> PD_STATE_SRC_SWAP_STANDBY \<Longrightarrow> late (set_state env x s)"
  by (simp add: late_def)

lemma good_set_state:
  assumes "good s" "x \<noteq> PD_STATE_SRC_SWAP_STANDBY" "power_role s = PD_ROLE_SINK \<Longrightarrow> \<not> src_state x"
  shows "good (set_state env x s)"
proof (cases "power_role s")
  case PD_ROLE_SINK
  then show ?thesis using assms by (simp add: good_def)
next
  case PD_ROLE_SOURCE
  consider "x = PD_STATE_SNK_DISCONNECTED" | "x = PD_STATE_SRC_DISCONNECTED"
    | "x \<noteq> PD_STATE_SNK_DISCONNECTED" "x \<noteq> PD_STATE_SRC_DISCONNECTED" by blast
  then show ?thesis using assms(1,2) PD_ROLE_SOURCE by cases (auto simp: good_def cuts_vbus_def)
qed

lemma good_core: assumes "vbus_core s' = vbus_core s" shows "good s' = good s"
  unfolding good_def vcore_eqD [OF assms] by (rule refl)

lemmas late_kept [simp] = core_kept [THEN late_core] core_updates [THEN late_core]

lemmas good_kept [simp] = core_kept [THEN good_core] core_updates [THEN good_core]

lemma role_cases [simp]: "r \<noteq> PD_ROLE_SOURCE \<longleftrightarrow> r = PD_ROLE_SINK" "r \<noteq> PD_ROLE_SINK \<longleftrightarrow> r = PD_ROLE_SOURCE"
  by (cases r; simp) (cases r; simp)

lemma ready_return_src [simp]: "src_state (READY_RETURN_STATE s) = (power_role s = PD_ROLE_SOURCE)"
    "READY_RETURN_STATE s \<noteq> PD_STATE_SRC_SWAP_STANDBY" 
  by (simp_all add: READY_RETURN_STATE_def split: pd_power_role.split)

lemma disconnected_src [simp]: "src_state (disconnected_state s) = (power_role s = PD_ROLE_SOURCE)"
    "disconnected_state s \<noteq> PD_STATE_SRC_SWAP_STANDBY" 
  by (simp_all add: disconnected_state_def split: pd_power_role.split)

lemmas good_unfold = Let_def case_prod_unfold good_def cuts_vbus_def on_entry_def ask_swap_def

lemma good_src1:
  assumes "good s" "task_state s = PD_STATE_SRC_DISCONNECTED"
  shows "good (on_SRC_DISCONNECTED env s)"
  using assms by (simp add: on_SRC_DISCONNECTED_def good_unfold)

lemma good_src2:
  assumes "good s" "task_state s = PD_STATE_SRC_DISCONNECTED_DEBOUNCE"  
  shows "good (on_SRC_DISCONNECTED_DEBOUNCE env s)"
  using assms by (simp add: on_SRC_DISCONNECTED_DEBOUNCE_def attach_source_def good_unfold pd_set_power_supply_ready_def split: option.split)

lemma good_src3:
  assumes "good s" "task_state s = PD_STATE_SRC_HARD_RESET_RECOVER"  
  shows "good (on_SRC_HARD_RESET_RECOVER env s)"
  using assms by (auto simp: on_SRC_HARD_RESET_RECOVER_def good_unfold pd_set_power_supply_ready_def)

lemma good_src4:
  assumes "good s"
  shows "task_state s = PD_STATE_SRC_STARTUP \<Longrightarrow> good (on_SRC_STARTUP env s)"
    "task_state s = PD_STATE_SRC_DISCOVERY \<Longrightarrow> good (on_SRC_DISCOVERY env s)"
    "task_state s = PD_STATE_SRC_NEGOCIATE \<Longrightarrow> good (on_SRC_NEGOCIATE env s)"
    "task_state s = PD_STATE_SRC_ACCEPTED \<Longrightarrow> good (on_SRC_ACCEPTED env s)"
    "task_state s = PD_STATE_SRC_POWERED \<Longrightarrow> good (on_SRC_POWERED env s)"
    "task_state s = PD_STATE_SRC_TRANSITION \<Longrightarrow> good (on_SRC_TRANSITION env s)"
    "task_state s = PD_STATE_SRC_GET_SINK_CAP \<Longrightarrow> good (on_SRC_GET_SINK_CAP env s)"
  using assms
  by (simp_all add: on_SRC_STARTUP_def on_SRC_DISCOVERY_def on_SRC_NEGOCIATE_def on_SRC_ACCEPTED_def on_SRC_POWERED_def on_SRC_TRANSITION_def
      on_SRC_GET_SINK_CAP_def good_unfold)


lemma good_ready:
  assumes "good s"
  shows "good (pd_check_pr_role env r s)" "good (pd_check_dr_role env d s)" "good (pd_request_power_swap env s)"
    "good (pd_request_data_swap env s)" "good (pd_request_vconn_swap env s)" "good (pd_try_vconn_src env s)"
proof -
  show p: "good (pd_request_power_swap env s)" and d: "good (pd_request_data_swap env s)" and v: "good (pd_request_vconn_swap env s)"
    using assms
    by (auto simp: pd_request_power_swap_def pd_request_data_swap_def pd_request_vconn_swap_def good_core [OF core_basic(1)]
      intro!: good_set_state) (auto simp: good_def)
  show "good (pd_check_pr_role env r s)" "good (pd_check_dr_role env d s)" "good (pd_try_vconn_src env s)"
    using p d v assms by (simp_all add: pd_check_pr_role_def pd_check_dr_role_def pd_try_vconn_src_def Let_def)
qed

lemma good_source: "good s \<Longrightarrow> src_state (task_state s) \<Longrightarrow> power_role s = PD_ROLE_SOURCE"
  by (cases "power_role s") (auto simp: good_def)

lemma good_set_state_source:
  "good s \<Longrightarrow> x \<noteq> PD_STATE_SRC_SWAP_STANDBY \<Longrightarrow> power_role s = PD_ROLE_SOURCE \<Longrightarrow> good (set_state env x s)"
  by (rule good_set_state) simp_all

lemma good_src5:
  assumes "good s" "task_state s = PD_STATE_SRC_READY"
  shows "good (on_SRC_READY env s)"
proof -
  have "power_role s = PD_ROLE_SOURCE" using good_source [OF assms(1)] assms(2) by simp
  then show ?thesis using assms by (simp add: on_SRC_READY_def Let_def case_prod_unfold good_set_state_source good_ready)
qed

lemma good_send_request: 
  assumes "good s"
  shows "good (snd (pd_send_request_msg env tx a s))" 
  using assms by (simp add: pd_send_request_msg_def Let_def case_prod_unfold good_set_state)

lemma good_swap_states:
  assumes "good s"
  shows "good (on_DR_SWAP env s)" "task_state s = PD_STATE_SRC_SWAP_INIT \<Longrightarrow> good (on_SRC_SWAP_INIT env s)"
    "task_state s = PD_STATE_SRC_SWAP_SNK_DISABLE \<Longrightarrow> good (on_SRC_SWAP_SNK_DISABLE env s)"
    "task_state s = PD_STATE_SRC_SWAP_SRC_DISABLE \<Longrightarrow> good (on_SRC_SWAP_SRC_DISABLE env s)"
    "task_state s = PD_STATE_SRC_SWAP_STANDBY \<Longrightarrow> late s \<Longrightarrow> good (on_SRC_SWAP_STANDBY env s)"
    "good (on_SNK_SWAP_INIT env s)" "good (on_SNK_SWAP_SNK_DISABLE env s)" "good (on_SNK_SWAP_SRC_DISABLE env s)" 
    "good (on_VCONN_SWAP_SEND env s)" "good (on_VCONN_SWAP_INIT env s)" "good (on_VCONN_SWAP_READY env s)"
  using assms by (auto simp: on_DR_SWAP_def on_SRC_SWAP_INIT_def on_SRC_SWAP_SNK_DISABLE_def on_SRC_SWAP_SRC_DISABLE_def on_SRC_SWAP_STANDBY_def
    on_SNK_SWAP_INIT_def on_SNK_SWAP_SNK_DISABLE_def on_SNK_SWAP_SRC_DISABLE_def on_VCONN_SWAP_SEND_def on_VCONN_SWAP_INIT_def on_VCONN_SWAP_READY_def
    good_unfold late_def entered_def)


lemma good_sink_states:
  assumes "good s"
  shows "task_state s = PD_STATE_SNK_DISCONNECTED \<Longrightarrow> good (on_SNK_DISCONNECTED env s)"
    "good (on_SNK_HARD_RESET_RECOVER env s)" "good (on_SNK_DISCOVERY env s)" "good (on_SNK_REQUESTED env s)"
    "good (on_SNK_TRANSITION env s)"
  using assms
  by (auto simp: on_SNK_DISCONNECTED_def on_SNK_HARD_RESET_RECOVER_def on_SNK_DISCOVERY_def discovery_timer_def on_SNK_REQUESTED_def
      on_SNK_TRANSITION_def good_unfold)

lemma good_sink_debounce:
  assumes "good s" "task_state s = PD_STATE_SNK_DISCONNECTED_DEBOUNCE"
  shows "good (on_SNK_DISCONNECTED_DEBOUNCE env s)"
  using assms by (auto simp: on_SNK_DISCONNECTED_DEBOUNCE_def attach_sink_def try_source_def good_unfold split: option.split)

lemma good_sink_ready: "good s \<Longrightarrow> good (on_SNK_READY env s)"
  by (simp add: on_SNK_READY_def Let_def case_prod_unfold good_set_state good_ready good_send_request)

lemma good_swap_complete:
  "power_role s = PD_ROLE_SINK \<Longrightarrow> timeout_state s \<noteq> PD_STATE_SRC_SWAP_STANDBY \<Longrightarrow> task_state s = PD_STATE_SNK_SWAP_COMPLETE \<Longrightarrow> good (on_SNK_SWAP_COMPLETE env s)"
  "good s \<Longrightarrow> task_state s = PD_STATE_SNK_SWAP_COMPLETE \<Longrightarrow> good (on_SNK_SWAP_COMPLETE env s)"
  by (auto simp: on_SNK_SWAP_COMPLETE_def good_unfold)

lemma good_hard_reset: 
  assumes "good s \<or> (task_state s = PD_STATE_SNK_SWAP_STANDBY \<or> task_state s = PD_STATE_SNK_SWAP_COMPLETE) \<and> \<not> src_state (timeout_state s)"
  shows "good (pd_execute_hard_reset env now s)"
  using assms by (cases "power_role s") (auto simp: pd_execute_hard_reset_def good_unfold)

lemma good_resets:
  assumes "good s"
  shows "good (execute_soft_reset env s)" "good (on_SOFT_RESET env s)" "good (on_HARD_RESET_SEND env s)" "good (on_HARD_RESET_EXECUTE env s)"
    "good (on_BIST_RX env s)" "good (on_BIST_TX env s)" "good (on_SUSPENDED env s)"
  using assms
  by (auto simp: execute_soft_reset_def on_SOFT_RESET_def on_HARD_RESET_SEND_def on_HARD_RESET_EXECUTE_def on_BIST_RX_def on_BIST_TX_def on_SUSPENDED_def
      Let_def case_prod_unfold good_set_state good_hard_reset split: pd_power_role.split intro!: good_set_state) (auto simp: good_def)


lemma good_supply_reset [simp]: "good s \<Longrightarrow> good (pd_power_supply_reset s)"
  by (simp add: good_def)

lemma good_policy_call:
  assumes "good s"
  shows "good (relay_call env c s)" "good (fold (relay_call env) cs s)"
proof -
  have p: "good (relay_call env c s)" if "good s" for c s
    using that by (simp add: relay_call_def good_ready split: pol_call.split)
  then show "good (relay_call env c s)" using assms .
  show "good (fold (relay_call env) cs s)" using assms p by (induction cs arbitrary: s) simp_all
qed

lemma good_vdm: "good s \<Longrightarrow> handle_vdm_request env cnt payload s = Some s' \<Longrightarrow> good s'"
  by (auto simp: handle_vdm_request_def Let_def good_policy_call split: if_splits option.splits)

lemma good_data:
  assumes "good s" "power_role s = PD_ROLE_SINK \<Longrightarrow> PD_HEADER_TYPE head \<noteq> PD_DATA_REQUEST" "handle_data_request env head payload s = Some s'"
  shows "good s'"
proof -
  have "good (handle_source_cap env n payload s)" for n
    using assms(1) by (simp add: handle_source_cap_def Let_def good_send_request)
  moreover have "good (handle_power_request env n payload s)" if "power_role s = PD_ROLE_SOURCE" for n
    using assms(1) that by (simp add: handle_power_request_def Let_def case_prod_unfold good_set_state_source)
  moreover have "good (set_state env (disconnected_state s) (snd (pd_transmit tx ty h d s)))" for tx ty h d
    using assms(1) by (intro good_set_state) simp_all
  moreover have "task_state s = PD_STATE_SRC_GET_SINK_CAP \<Longrightarrow> power_role s = PD_ROLE_SOURCE" using good_source [OF assms(1)] by simp
  ultimately show ?thesis using assms good_vdm [OF assms(1)]
    by (cases "power_role s") (auto simp: handle_data_request_def Let_def good_set_state_source disconnected_state_def split: if_splits)
qed

lemma good_ctrl_parts:
  assumes "good s"
  shows "good (handle_ps_rdy env s)" "good (handle_refusal env w s)" "good (handle_accept env s)" "good (handle_pr_swap env s)"
    "good (handle_dr_swap env s)" "good (handle_vconn_swap env s)" "good (handle_role_conflict env s)"
proof -
  note src = good_source [OF assms]
  show "good (handle_ps_rdy env s)" using assms by (auto simp: handle_ps_rdy_def good_unfold)
  show "good (handle_refusal env w s)" using assms by (auto simp: handle_refusal_def good_unfold)
  show "good (handle_accept env s)" using assms by (auto simp: handle_accept_def execute_soft_reset_def good_unfold split: pd_power_role.split)
  show "good (handle_pr_swap env s)" using assms by (auto simp: handle_pr_swap_def good_unfold split: pd_power_role.split)
  show "good (handle_dr_swap env s)" using assms by (auto simp: handle_dr_swap_def Let_def case_prod_unfold)
  show "good (handle_vconn_swap env s)" using assms by (auto simp: handle_vconn_swap_def Let_def case_prod_unfold good_set_state)
  show "good (handle_role_conflict env s)" using assms by (auto simp: handle_role_conflict_def good_unfold disconnected_state_def split: pd_power_role.split)
qed


lemma good_ctrl:
  assumes "good s"
  shows "good (handle_ctrl_request env head s)"
proof -
  note src = good_source [OF assms]
  have "good (set_state env PD_STATE_SRC_DISCOVERY s)" if "task_state s = PD_STATE_SRC_READY"
    using assms src that by (intro good_set_state_source) simp_all
  moreover have "good (set_state env PD_STATE_SRC_NEGOCIATE (snd (send_source_cap env tx s)))" if "task_state s = PD_STATE_SRC_DISCOVERY" for tx
    using assms src that by (intro good_set_state_source) simp_all
  ultimately show ?thesis using assms
    by (simp add: handle_ctrl_request_def Let_def case_prod_unfold good_ctrl_parts good_resets)
qed

lemma good_request:
  assumes "good s" "power_role s = PD_ROLE_SINK \<Longrightarrow> PD_HEADER_TYPE head = PD_DATA_REQUEST \<Longrightarrow> PD_HEADER_CNT head = 0"
    "handle_request env head payload s = Some s'"
  shows "good s'"
proof -
  let ?s = "if pd_is_connected s then s else set_state env PD_STATE_HARD_RESET_SEND s"
  have g: "good ?s" using assms(1) by (simp add: good_set_state)
  have "power_role ?s = power_role s" by simp
  then show ?thesis using assms(2,3) good_data [OF g, of head env payload s'] good_ctrl [OF g, of env head] good_ctrl_parts(7) [OF g, of env]
    by (auto simp: handle_request_def Let_def split: if_splits)
qed

lemma good_receive:
  assumes "good s" "receive_message env s = Some s'"
    "\<And>head payload. rx_msg env = Some (head, payload) \<Longrightarrow> power_role s = PD_ROLE_SINK \<Longrightarrow> PD_HEADER_TYPE head = PD_DATA_REQUEST \<Longrightarrow> PD_HEADER_CNT head = 0"
  shows "good s'"
proof (cases "rx_msg env")
  case None
  then show ?thesis using assms by (simp add: receive_message_def)
next
  case (Some m)
  obtain head payload where m: "m = (head, payload)" by (cases m)
  then obtain r where r: "handle_request env head payload s = Some r" "good s' = good r"
    using Some assms(2) by (auto simp: receive_message_def)
  then show ?thesis using good_request [OF assms(1) _ r(1)] assms(3) Some m by blast
qed

lemma good_dual_role: "good s \<Longrightarrow> good (pd_update_dual_role_config env s)"
  by (auto simp: pd_update_dual_role_config_def good_unfold)

lemma good_tcpc: "good s \<Longrightarrow> \<not> vbus_en s \<Longrightarrow> good (tcpc_was_reset env s)"
  by (auto simp: tcpc_was_reset_def good_unfold)

lemma good_timeout: 
  assumes "good s"
  shows "good (check_state_timeout env s)"
proof (cases "vbus_en s")
  case True
  then have "timeout_state s \<noteq> PD_STATE_SRC_SWAP_STANDBY" "power_role s = PD_ROLE_SOURCE" using assms by (simp_all add: good_def)
  then show ?thesis using assms by (simp add: check_state_timeout_def good_set_state_source)
next
  case False
  then show ?thesis using assms by (auto simp: check_state_timeout_def good_unfold)
qed

lemma good_disconnect: "good s \<Longrightarrow> good (check_disconnect env s)"
  by (auto simp: check_disconnect_def source_disconnect_def good_unfold)


lemma good_run:
  assumes "good s" "late s" "task_state s \<noteq> PD_STATE_SNK_SWAP_STANDBY"
  shows "good (run_state env s)"
  using assms
  by (cases "task_state s") (simp_all add: run_state_def good_src1 good_src2 good_src3 good_src4 good_src5 good_swap_states good_sink_states
      good_sink_debounce good_sink_ready good_swap_complete good_resets)

lemma ready_not_standby [simp]:
  "task_state s \<noteq> PD_STATE_SRC_SWAP_STANDBY \<Longrightarrow> task_state (pd_check_pr_role env r s) \<noteq> PD_STATE_SRC_SWAP_STANDBY"
  "task_state s \<noteq> PD_STATE_SRC_SWAP_STANDBY \<Longrightarrow> task_state (pd_check_dr_role env d s) \<noteq> PD_STATE_SRC_SWAP_STANDBY"
  "task_state s \<noteq> PD_STATE_SRC_SWAP_STANDBY \<Longrightarrow> task_state (snd (pd_send_request_msg env tx a s)) \<noteq> PD_STATE_SRC_SWAP_STANDBY"
  "task_state (pd_execute_hard_reset env now s) \<noteq> PD_STATE_SRC_SWAP_STANDBY"
  by (simp_all add: pd_check_pr_role_def pd_check_dr_role_def pd_request_power_swap_def pd_request_data_swap_def pd_send_request_msg_def
      pd_execute_hard_reset_def Let_def case_prod_unfold)

lemma snd_ready_task [simp]: "task_state (snd (pd_set_power_supply_ready env s)) = task_state s"
  by (simp add: pd_set_power_supply_ready_def)

lemma run_not_standby:
  assumes "task_state s \<noteq> PD_STATE_SRC_SWAP_STANDBY"
  shows "task_state (run_state env s) \<noteq> PD_STATE_SRC_SWAP_STANDBY"
  using assms
  by (cases "task_state s") (simp_all add: run_state_def on_SRC_DISCONNECTED_def on_SRC_DISCONNECTED_DEBOUNCE_def attach_source_def
      on_SRC_HARD_RESET_RECOVER_def on_SRC_STARTUP_def on_SRC_DISCOVERY_def on_SRC_NEGOCIATE_def on_SRC_ACCEPTED_def on_SRC_POWERED_def
      on_SRC_TRANSITION_def on_SRC_READY_def on_SRC_GET_SINK_CAP_def on_DR_SWAP_def on_SRC_SWAP_INIT_def on_SRC_SWAP_SNK_DISABLE_def
      on_SRC_SWAP_SRC_DISABLE_def on_SUSPENDED_def on_SNK_DISCONNECTED_def on_SNK_DISCONNECTED_DEBOUNCE_def try_source_def attach_sink_def
      on_SNK_HARD_RESET_RECOVER_def on_SNK_DISCOVERY_def discovery_timer_def on_SNK_REQUESTED_def on_SNK_TRANSITION_def on_SNK_READY_def
      on_SNK_SWAP_INIT_def on_SNK_SWAP_SNK_DISABLE_def on_SNK_SWAP_SRC_DISABLE_def on_SNK_SWAP_STANDBY_def on_SNK_SWAP_COMPLETE_def
      on_VCONN_SWAP_SEND_def on_VCONN_SWAP_INIT_def on_VCONN_SWAP_READY_def on_SOFT_RESET_def on_HARD_RESET_SEND_def on_HARD_RESET_EXECUTE_def
      on_BIST_RX_def on_BIST_TX_def Let_def case_prod_unfold on_entry_def ask_swap_def split: option.split)


section \<open>The last part of a swap\<close>

definition swapping :: "pd_port \<Rightarrow> bool" where
  "swapping s \<longleftrightarrow> power_role s = PD_ROLE_SINK \<and> \<not> src_state (timeout_state s) \<and> timeout_state s \<noteq> PD_STATE_SRC_SWAP_STANDBY \<and>
     (task_state s = PD_STATE_SNK_SWAP_STANDBY \<and> last_state s = PD_STATE_SNK_SWAP_STANDBY
        \<and> (timeout s = 0 \<or> timeout_state s = PD_STATE_SNK_SWAP_COMPLETE)
      \<or> task_state s = PD_STATE_SNK_SWAP_COMPLETE \<and> timeout s = 0)"

definition vbus_ok :: "pd_port \<Rightarrow> bool" where
  "vbus_ok s \<longleftrightarrow> (good s \<or> swapping s) \<and> late s"

lemma swapping_core: assumes "vbus_core s' = vbus_core s" shows "swapping s' = swapping s"
  unfolding swapping_def vcore_eqD [OF assms] by (rule refl)

lemmas swapping_kept [simp] = core_kept [THEN swapping_core] core_updates [THEN swapping_core]

lemma swapping_late: "swapping s \<Longrightarrow> late s"
  by (auto simp: swapping_def late_def)

lemma swap_reset: "swapping s \<Longrightarrow> good (pd_power_supply_reset s)"
  by (auto simp: swapping_def good_def)

lemma swap_policy_call:
  assumes "good s \<or> swapping s"
  shows "good (fold (relay_call env) cs s) \<or> swapping (fold (relay_call env) cs s)"
proof -
  have "good (relay_call env c s) \<or> swapping (relay_call env c s)" if "good s \<or> swapping s" for c s
    using that
  proof
    assume sw: "swapping s"
    then have "pd_try_vconn_src env s = s \<or> pd_try_vconn_src env s = pd_do TaskWake s"
      by (auto simp: pd_try_vconn_src_def pd_request_vconn_swap_def swapping_def)
    then show ?thesis using sw swap_reset [OF sw] by (auto simp: relay_call_def split: pol_call.split)
  qed (simp add: good_policy_call)
  then show ?thesis using assms by (induction cs arbitrary: s) simp_all
qed

lemma swap_vdm:
  assumes "swapping s" "handle_vdm_request env cnt payload s = Some s'"
  shows "good s' \<or> swapping s'"
proof -
  have "good (fold (relay_call env) cs (policy_out p t))"
    if "swapping t" "\<not> swapping (fold (relay_call env) cs (policy_out p t))" for p t cs
    using that swap_policy_call [of "policy_out p t" env cs] by simp
  then show ?thesis using assms by (auto simp: handle_vdm_request_def Let_def split: if_splits option.splits)
qed

lemma swap_data:
  assumes "swapping s" "PD_HEADER_TYPE head \<noteq> PD_DATA_REQUEST" "handle_data_request env head payload s = Some s'"
  shows "good s' \<or> swapping s'"
proof -
  have t: "task_state s = PD_STATE_SNK_SWAP_STANDBY \<or> task_state s = PD_STATE_SNK_SWAP_COMPLETE" "power_role s = PD_ROLE_SINK"
    using assms(1) by (auto simp: swapping_def)
  then have "handle_source_cap env cnt payload s = s" "task_state s \<noteq> READY_RETURN_STATE s" for cnt
    by (auto simp: handle_source_cap_def READY_RETURN_STATE_def)
  then show ?thesis using assms t swap_vdm [OF assms(1), of env _ payload s']
    by (auto simp: handle_data_request_def Let_def split: if_splits)
qed

text \<open>Messages that do not disturb a port that is about to become the source.\<close>

definition calm_message :: "pd_env \<Rightarrow> u16 \<Rightarrow> pd_port \<Rightarrow> bool" where
  "calm_message env head s \<longleftrightarrow> (power_role s = PD_ROLE_SINK \<longrightarrow>
     (PD_HEADER_CNT head \<noteq> 0 \<longrightarrow> PD_HEADER_TYPE head \<noteq> PD_DATA_REQUEST) \<and>
     (vbus_en s \<longrightarrow> set_cc_open_ok env \<and>
        (PD_HEADER_CNT head = 0 \<longrightarrow> PD_HEADER_TYPE head \<notin> {PD_CTRL_SOFT_RESET, PD_CTRL_PR_SWAP}
           \<and> (PD_HEADER_TYPE head = PD_CTRL_PS_RDY \<longrightarrow> task_state s = PD_STATE_SNK_SWAP_STANDBY))))"

lemma swap_ctrl:
  assumes "swapping s" "vbus_en s" "calm_message env head s" "PD_HEADER_CNT head = 0"
  shows "swapping (handle_ctrl_request env head s)"
proof -
  have t: "task_state s = PD_STATE_SNK_SWAP_STANDBY \<or> task_state s = PD_STATE_SNK_SWAP_COMPLETE" "power_role s = PD_ROLE_SINK"
    using assms(1) by (auto simp: swapping_def)
  then have "handle_refusal env w s = s" "handle_accept env s = s" "handle_vconn_swap env s = s" for w
    by (auto simp: handle_refusal_def handle_accept_def handle_vconn_swap_def)
  moreover have "task_state s = PD_STATE_SNK_SWAP_STANDBY \<Longrightarrow> handle_ps_rdy env s = s" by (simp add: handle_ps_rdy_def)
  moreover have "swapping (handle_dr_swap env s)" using assms(1) by (simp add: handle_dr_swap_def Let_def case_prod_unfold)
  ultimately show ?thesis using assms t by (auto simp: handle_ctrl_request_def calm_message_def Let_def case_prod_unfold)
qed

lemma swap_request:
  assumes "swapping s" "vbus_en s" "calm_message env head s" "handle_request env head payload s = Some s'"
  shows "good s' \<or> swapping s'"
proof -
  have c: "pd_is_connected s" using assms(1) by (auto simp: pd_is_connected_def swapping_def)
  have "set_cc_open_ok env" using assms by (simp add: calm_message_def swapping_def)
  then have "good (handle_role_conflict env s)" using assms(1)
    by (auto simp: handle_role_conflict_def swapping_def disconnected_state_def good_unfold)
  then show ?thesis using assms c swap_data [OF assms(1) _, of head env payload s'] swap_ctrl [OF assms(1,2,3)]
    by (auto simp: handle_request_def calm_message_def swapping_def split: if_splits)
qed


section \<open>Rounds\<close>

lemma late_dual_role: "late s \<Longrightarrow> late (pd_update_dual_role_config env s)"
  by (simp add: pd_update_dual_role_config_def late_def Let_def)

lemma late_tcpc: "late s \<Longrightarrow> late (tcpc_was_reset env s)"
  by (simp add: tcpc_was_reset_def late_def Let_def case_prod_unfold)

lemma swap_dual_role: "swapping s \<Longrightarrow> good (pd_update_dual_role_config env s) \<or> swapping (pd_update_dual_role_config env s)"
  by (auto simp: pd_update_dual_role_config_def swapping_def good_unfold)

lemma vbus_en_dual_role: "vbus_en (pd_update_dual_role_config env s) \<Longrightarrow> vbus_en s"
  by (auto simp: pd_update_dual_role_config_def Let_def split: if_splits)

lemma events_ok:
  assumes "vbus_ok s" "ev_tcpc_reset env \<Longrightarrow> \<not> vbus_en s"
  shows "vbus_ok (handle_events env s)"
proof -
  let ?s = "if ev_power env then handle_new_power_state env (pd_vdm_send_state_machine (tx_vdm env) (t_vdm env) s)
            else pd_vdm_send_state_machine (tx_vdm env) (t_vdm env) s"
  let ?d = "if ev_dual_role env then pd_update_dual_role_config env ?s else ?s"
  have e: "handle_events env s = (if ev_tcpc_reset env then tcpc_was_reset env ?d else ?d)"
    by (simp add: handle_events_def Let_def)
  have "vbus_ok ?s" "vbus_en ?s = vbus_en s" using assms(1) by (simp_all add: vbus_ok_def)
  then have d: "vbus_ok ?d" "vbus_en ?d \<Longrightarrow> vbus_en s"
    using swap_dual_role [of ?s env] good_dual_role [of ?s env] late_dual_role [of ?s env] vbus_en_dual_role [of env ?s]
    by (auto simp: vbus_ok_def split: if_splits)
  have "vbus_ok (tcpc_was_reset env ?d)" if "ev_tcpc_reset env"
  proof -
    have "\<not> vbus_en ?d" using d(2) assms(2) that by blast
    moreover from this d(1) have "good ?d \<or> swapping ?d" by (simp add: vbus_ok_def)
    moreover have "good ?d" if "\<not> vbus_en ?d" "swapping ?d" using that by (auto simp: swapping_def good_def)
    ultimately show ?thesis using d(1) good_tcpc [of ?d env] late_tcpc [of ?d env] by (auto simp: vbus_ok_def)
  qed
  then show ?thesis using d(1) e by simp
qed


lemma late_more [simp]:
  "late (pd_power_supply_reset s) = late s" "late (set_state_timeout t x s) = late s"
  by (simp_all add: late_def)

lemma late_requests:
  "late s \<Longrightarrow> late (pd_try_vconn_src env s)" "late s \<Longrightarrow> late (relay_call env c s)" "late s \<Longrightarrow> late (snd (pd_send_request_msg env tx a s))"
proof -
  show v: "late s \<Longrightarrow> late (pd_try_vconn_src env s)"
    by (simp add: pd_try_vconn_src_def pd_request_vconn_swap_def late_set_state)
  then show "late s \<Longrightarrow> late (relay_call env c s)" by (simp add: relay_call_def split: pol_call.split)
  show "late s \<Longrightarrow> late (snd (pd_send_request_msg env tx a s))"
    by (simp add: pd_send_request_msg_def Let_def case_prod_unfold late_set_state)
qed

lemma late_policy_calls: "late s \<Longrightarrow> late (fold (relay_call env) cs s)"
  by (induction cs arbitrary: s) (simp_all add: late_requests)

lemma late_vdm: "late s \<Longrightarrow> handle_vdm_request env cnt payload s = Some s' \<Longrightarrow> late s'"
  by (auto simp: handle_vdm_request_def Let_def late_policy_calls split: if_splits option.splits)

lemma late_data: "late s \<Longrightarrow> handle_data_request env head payload s = Some s' \<Longrightarrow> late s'"
  using late_vdm [of s env "PD_HEADER_CNT head" payload s']
  by (auto simp: handle_data_request_def handle_source_cap_def handle_power_request_def Let_def case_prod_unfold late_set_state late_requests
      split: if_splits)

lemma late_ctrl:
  assumes "late s"
  shows "late (handle_ctrl_request env head s)"
proof -
  have "late (handle_ps_rdy env s)" "late (handle_refusal env w s)" "late (handle_accept env s)" "late (handle_pr_swap env s)"
    "late (handle_dr_swap env s)" "late (handle_vconn_swap env s)" "late (execute_soft_reset env s)" for w
    using assms by (simp_all add: handle_ps_rdy_def handle_refusal_def handle_accept_def handle_pr_swap_def handle_dr_swap_def handle_vconn_swap_def
      execute_soft_reset_def Let_def case_prod_unfold late_set_state split: pd_power_role.split)
  then show ?thesis using assms by (simp add: handle_ctrl_request_def Let_def case_prod_unfold late_set_state)
qed

lemma late_request: "late s \<Longrightarrow> handle_request env head payload s = Some s' \<Longrightarrow> late s'"
  using late_data [of "if pd_is_connected s then s else set_state env PD_STATE_HARD_RESET_SEND s" env head payload s']
    late_ctrl [of "if pd_is_connected s then s else set_state env PD_STATE_HARD_RESET_SEND s" env head]
  by (auto simp: handle_request_def handle_role_conflict_def Let_def late_set_state split: if_splits)

definition undisturbed :: "pd_env \<Rightarrow> pd_port \<Rightarrow> bool" where
  "undisturbed env s \<longleftrightarrow> (ev_tcpc_reset env \<longrightarrow> \<not> vbus_en s)
     \<and> (case rx_msg env of None \<Rightarrow> True | Some (head, _) \<Rightarrow> calm_message env head (handle_events env s))
     \<and> (case receive_message env (handle_events env s) of None \<Rightarrow> True
        | Some r \<Rightarrow> vbus_en r \<and> power_role r = PD_ROLE_SINK \<longrightarrow> \<not> req_suspend_state r)"

lemma receive_ok:
  assumes "vbus_ok s" "receive_message env s = Some s'"
    "\<And>head payload. rx_msg env = Some (head, payload) \<Longrightarrow> calm_message env head s"
  shows "vbus_ok s'"
proof (cases "rx_msg env")
  case None
  then show ?thesis using assms by (simp add: receive_message_def)
next
  case (Some m)
  obtain head payload where m: "m = (head, payload)" by (cases m)
  then obtain r where r: "handle_request env head payload s = Some r" "vbus_ok s' = vbus_ok r"
    using Some assms(2) by (auto simp: receive_message_def vbus_ok_def)
  have l: "late r" using late_request [OF _ r(1)] assms(1) by (simp add: vbus_ok_def)
  have c: "calm_message env head s" using assms(3) Some m by blast
  have "good s \<or> swapping s \<and> vbus_en s" using assms(1) by (auto simp: vbus_ok_def swapping_def good_def)
  then have "good r \<or> swapping r"
    using good_request [OF _ _ r(1)] swap_request [OF _ _ c r(1)] c by (auto simp: calm_message_def)
  then show ?thesis using l r(2) by (simp add: vbus_ok_def)
qed

lemma suspend_ok:
  assumes "vbus_ok s" "vbus_en s \<Longrightarrow> power_role s = PD_ROLE_SINK \<Longrightarrow> \<not> req_suspend_state s"
  shows "vbus_ok (suspend_if_asked env s)"
proof -
  have "good s" if "req_suspend_state s" using assms that by (auto simp: vbus_ok_def swapping_def good_def)
  then show ?thesis using assms(1) by (auto simp: suspend_if_asked_def vbus_ok_def good_set_state late_set_state)
qed

lemma last_state_update: "good (s\<lparr>last_state := x\<rparr>) = good s"
  by (simp add: good_def)

lemma swap_standby:
  assumes "good s" "task_state s = PD_STATE_SNK_SWAP_STANDBY"
  shows "good (on_SNK_SWAP_STANDBY env s) \<or> swapping ((on_SNK_SWAP_STANDBY env s)\<lparr>last_state := PD_STATE_SNK_SWAP_STANDBY\<rparr>)"
  using assms by (cases "power_role s") (auto simp: on_SNK_SWAP_STANDBY_def pd_set_power_supply_ready_def good_unfold swapping_def)

lemma run_ok:
  assumes "vbus_ok s"
  shows "vbus_ok ((run_state env s)\<lparr>last_state := task_state s\<rparr>)" 
proof -
  have l: "late s" using assms by (simp add: vbus_ok_def)
  have late: "late ((run_state env s)\<lparr>last_state := task_state s\<rparr>)"
    using run_not_standby [of s env] by (auto simp: late_def)
  consider "swapping s" | "good s" "task_state s = PD_STATE_SNK_SWAP_STANDBY" | "good s" "task_state s \<noteq> PD_STATE_SNK_SWAP_STANDBY"
    using assms by (auto simp: vbus_ok_def)
  then show ?thesis
  proof cases
    case 1
    then consider "task_state s = PD_STATE_SNK_SWAP_STANDBY" | "task_state s = PD_STATE_SNK_SWAP_COMPLETE" by (auto simp: swapping_def)
    then show ?thesis
    proof cases
      case 1
      then have "run_state env s = s" "last_state s = PD_STATE_SNK_SWAP_STANDBY"
        using \<open>swapping s\<close> by (auto simp: run_state_def on_SNK_SWAP_STANDBY_def entered_def swapping_def)
      then show ?thesis using \<open>swapping s\<close> late 1 by (simp add: vbus_ok_def swapping_def)
    next
      case 2
      then have "good (run_state env s)" using \<open>swapping s\<close> by (simp add: run_state_def swapping_def good_swap_complete)
      then show ?thesis using late by (simp add: vbus_ok_def last_state_update)
    qed
  next
    case 2
    then show ?thesis using swap_standby [OF 2, of env] late by (auto simp: vbus_ok_def run_state_def last_state_update)
  next
    case 3
    then show ?thesis using good_run [OF 3(1) l 3(2), of env] late by (simp add: vbus_ok_def last_state_update)
  qed
qed

lemma timeout_ok: 
  assumes "vbus_ok s"
  shows "vbus_ok (check_state_timeout env s)"
proof -
  have l: "late s" "good s \<or> swapping s" using assms by (simp_all add: vbus_ok_def)
  then have "late (check_state_timeout env s)"
    by (cases "power_role s") (auto simp: check_state_timeout_def late_def swapping_def good_def)
  moreover have "swapping s \<Longrightarrow> swapping (check_state_timeout env s)"
    by (auto simp: check_state_timeout_def swapping_def)
  ultimately show ?thesis using l good_timeout [of s env] by (auto simp: vbus_ok_def)
qed

lemma disconnect_ok:
  assumes "vbus_ok s"
  shows "vbus_ok (check_disconnect env s)"
proof -
  have "swapping s \<Longrightarrow> check_disconnect env s = s"
    by (auto simp: check_disconnect_def pd_is_power_swapping_def swapping_def)
  moreover have "late (check_disconnect env s)" using assms
    by (simp add: check_disconnect_def source_disconnect_def Let_def vbus_ok_def late_set_state)
  ultimately show ?thesis using assms good_disconnect [of s env] by (auto simp: vbus_ok_def)
qed

lemma round_ok:
  assumes "vbus_ok s" "undisturbed env s" "pd_round env s = Some s'"
  shows "vbus_ok s'"
proof -
  obtain r where r: "receive_message env (handle_events env s) = Some r" "s' = run_and_check env (suspend_if_asked env r)"
    using assms(3) by (auto simp: pd_round_def)
  have "vbus_ok (handle_events env s)" using events_ok assms by (simp add: undisturbed_def)
  then have "vbus_ok r" using receive_ok [OF _ r(1)] assms(2) by (auto simp: undisturbed_def split: option.splits)
  then have "vbus_ok (suspend_if_asked env r)" using suspend_ok assms(2) r(1) by (auto simp: undisturbed_def)
  then have "vbus_ok (wait_for (500 * MSEC) (suspend_if_asked env r))" by (simp add: vbus_ok_def)
  from disconnect_ok [OF timeout_ok [OF run_ok [OF this, of env], of env], of env] show ?thesis
    unfolding r(2) run_and_check_def Let_def by simp
qed

section \<open>Everything that happens to a port\<close>

text \<open>
  A port starts, its task makes rounds, the port controller reports completed transmissions and
  received hard resets, and other tasks make their calls, within the following limits. A round is
  \<open>undisturbed\<close> if
    \<^item> the port controller does not lose its state while VBUS is on,
    \<^item> no request for power comes in while the port is a sink,
    \<^item> while VBUS is on and the role is that of a sink (the last part of a swap to the source), the partner sends
      neither a soft reset nor a request to swap the power roles, nor its PS_RDY a second time, the
      port controller accepts that the CC lines are opened, and no suspension is pending.
  Other tasks suspend a port at any time, but resume it or reset it softly only outside that last part of a
  swap, and ask a port for another input voltage (which turns it into a sink) only when it does not
  supply VBUS. What happens outside the limits is stated in C32, C33 and \<open>soft_reset_leaves_vbus_on\<close>.
\<close>

inductive pd_reach :: "pd_port \<Rightarrow> bool" where
  start: "pd_reach (pd_task_init env init_fails power_lost s)"
| round: "pd_reach s \<Longrightarrow> undisturbed env s \<Longrightarrow> pd_round env s = Some s' \<Longrightarrow> pd_reach s'"
| hard_reset: "pd_reach s \<Longrightarrow> pd_reach (pd_execute_hard_reset env now s)"
| tx_done: "pd_reach s \<Longrightarrow> pd_reach (pd_transmit_complete st s)"
| vbus_low: "pd_reach s \<Longrightarrow> pd_reach (pd_vbus_low s)"
| comm: "pd_reach s \<Longrightarrow> pd_reach (pd_comm_enable now b s)"
| ping: "pd_reach s \<Longrightarrow> pd_reach (pd_ping_enable b s)"
| new_request: "pd_reach s \<Longrightarrow> pd_reach (pd_set_new_power_request s)"
| dual_role: "pd_reach s \<Longrightarrow> pd_reach (pd_set_dual_role others soc present drp s)"
| battery: "pd_reach s \<Longrightarrow> pd_reach (pd_update_try_source others soc present s)"
| chipset_resume: "pd_reach s \<Longrightarrow> pd_reach (pd_chipset_resume active others soc present s)"
| chipset_suspend: "pd_reach s \<Longrightarrow> pd_reach (pd_chipset_suspend others soc present s)"
| chipset_startup: "pd_reach s \<Longrightarrow> pd_reach (pd_chipset_startup others soc present s)"
| chipset_shutdown: "pd_reach s \<Longrightarrow> pd_reach (pd_chipset_shutdown others soc present s)"
| power_swap: "pd_reach s \<Longrightarrow> pd_reach (pd_request_power_swap env s)"
| data_swap: "pd_reach s \<Longrightarrow> pd_reach (pd_request_data_swap env s)"
| vconn_swap: "pd_reach s \<Longrightarrow> pd_reach (pd_request_vconn_swap env s)"
| voltage_limit: "pd_reach s \<Longrightarrow> pd_reach (pd_set_external_voltage_limit mv s)"
| source_voltage: "pd_reach s \<Longrightarrow> \<not> vbus_en s \<Longrightarrow> pd_reach (pd_request_source_voltage env mv s)"
| contract: "pd_reach s \<Longrightarrow> pd_reach (pd_update_contract s)"
| suspend: "pd_reach s \<Longrightarrow> pd_reach (pd_set_suspend env True s)"
| resume: "pd_reach s \<Longrightarrow> \<not> (vbus_en s \<and> power_role s = PD_ROLE_SINK) \<Longrightarrow> pd_reach (pd_set_suspend env False s)"
| soft_reset: "pd_reach s \<Longrightarrow> \<not> (vbus_en s \<and> power_role s = PD_ROLE_SINK) \<Longrightarrow> pd_reach (pd_soft_reset env s)"

lemma vbus_ok_core: assumes "vbus_core s' = vbus_core s" shows "vbus_ok s' = vbus_ok s"
  using good_core [OF assms] swapping_core [OF assms] late_core [OF assms] by (simp add: vbus_ok_def)

lemma vbus_ok_off: "vbus_ok s \<Longrightarrow> \<not> (vbus_en s \<and> power_role s = PD_ROLE_SINK) \<Longrightarrow> good s"
  by (auto simp: vbus_ok_def swapping_def good_def)

lemma vbus_ok_set_state:
  "vbus_ok s \<Longrightarrow> \<not> (vbus_en s \<and> power_role s = PD_ROLE_SINK) \<Longrightarrow> x \<noteq> PD_STATE_SRC_SWAP_STANDBY \<Longrightarrow> \<not> src_state x
   \<Longrightarrow> vbus_ok (set_state env x s)"
  using vbus_ok_off [of s] by (simp add: vbus_ok_def good_set_state late_set_state)

lemma start_ok: "vbus_ok (pd_task_init env init_fails power_lost s)"
proof -
  have p: "vbus_en (pd_partner_port_reset l t) = vbus_en t" for l t by (simp add: pd_partner_port_reset_def Let_def)
  have "good (set_state env x t)" if "\<not> vbus_en t" "\<not> src_state x" for x t using that by (simp add: good_def)
  then show ?thesis unfolding vbus_ok_def pd_task_init_def Let_def
    by (simp add: late_set_state p)
qed

lemma hard_reset_ok:
  assumes "vbus_ok s"
  shows "vbus_ok (pd_execute_hard_reset env now s)"
proof -
  have "good (pd_execute_hard_reset env now s)"
    using assms by (intro good_hard_reset) (auto simp: vbus_ok_def swapping_def)
  then show ?thesis by (simp add: vbus_ok_def late_def)
qed

lemma requests_ok:
  assumes "vbus_ok s"
  shows "vbus_ok (pd_request_power_swap env s)" "vbus_ok (pd_request_data_swap env s)" "vbus_ok (pd_request_vconn_swap env s)"
proof -
  have "swapping s \<Longrightarrow> task_state s \<noteq> PD_STATE_SRC_READY \<and> task_state s \<noteq> PD_STATE_SNK_READY \<and> task_state s \<noteq> READY_RETURN_STATE s"
    by (auto simp: swapping_def READY_RETURN_STATE_def)
  then show "vbus_ok (pd_request_power_swap env s)" "vbus_ok (pd_request_data_swap env s)" "vbus_ok (pd_request_vconn_swap env s)"
    using assms good_ready [of s env] 
    by (auto simp: vbus_ok_def pd_request_power_swap_def pd_request_data_swap_def pd_request_vconn_swap_def late_set_state)
qed

lemma core_calls [simp]:
  "vbus_core (pd_vbus_low s) = vbus_core s" "vbus_core (pd_ping_enable b s) = vbus_core s" "vbus_core (pd_set_new_power_request s) = vbus_core s"
  "vbus_core (pd_update_try_source o1 soc p s) = vbus_core s" "vbus_core (pd_set_dual_role o1 soc p drp s) = vbus_core s"
  "vbus_core (pd_chipset_resume a o1 soc p s) = vbus_core s" "vbus_core (pd_chipset_suspend o1 soc p s) = vbus_core s"
  "vbus_core (pd_chipset_startup o1 soc p s) = vbus_core s" "vbus_core (pd_chipset_shutdown o1 soc p s) = vbus_core s"
  "vbus_core (pd_set_external_voltage_limit mv s) = vbus_core s" "vbus_core (pd_update_contract s) = vbus_core s"
  "vbus_core (pd_set_suspend env True s) = vbus_core s"
  by (simp_all add: pd_vbus_low_def pd_ping_enable_def pd_set_new_power_request_def pd_update_try_source_def pd_set_dual_role_def
      pd_set_dual_role_no_wakeup_def pd_chipset_resume_def pd_chipset_suspend_def pd_chipset_startup_def pd_chipset_shutdown_def
      pd_set_external_voltage_limit_def pd_update_contract_def pd_set_suspend_def Let_def)

lemma comm_ok: "vbus_ok s \<Longrightarrow> vbus_ok (pd_comm_enable now b s)"
  by (auto simp: pd_comm_enable_def Let_def vbus_ok_def good_def swapping_def)

lemma source_voltage_ok:
  assumes "vbus_ok s" "\<not> vbus_en s"
  shows "vbus_ok (pd_request_source_voltage env mv s)"
proof -
  have "good s" using vbus_ok_off assms by blast
  then show ?thesis using assms
    by (auto simp: pd_request_source_voltage_def Let_def vbus_ok_def late_set_state good_def)
qed

lemma reach_ok: "pd_reach s \<Longrightarrow> vbus_ok s"
proof (induction rule: pd_reach.induct)
  case (resume s env)
  then show ?case by (simp add: pd_set_suspend_def vbus_ok_core [OF core_basic(1)] vbus_ok_set_state)
next
  case (soft_reset s env)
  then show ?case by (simp add: pd_soft_reset_def vbus_ok_core [OF core_basic(1)] vbus_ok_set_state)
qed (simp_all add: start_ok round_ok source_voltage_ok hard_reset_ok requests_ok comm_ok core_calls [THEN vbus_ok_core] core_helpers(4) [THEN vbus_ok_core])


section \<open>Fields that most steps keep\<close>

lemma kept_basic [simp]:
  "req_suspend_state (pd_do c s) = req_suspend_state s"
  "req_suspend_state (set_pd_flag f s) = req_suspend_state s"
  "req_suspend_state (clear_pd_flag f s) = req_suspend_state s"
  "req_suspend_state (set_polarity b s) = req_suspend_state s"
  "req_suspend_state (set_vconn b s) = req_suspend_state s"
  "req_suspend_state (tcpm_set_cc pull s) = req_suspend_state s"
  "req_suspend_state (tcpm_set_rx_enable b s) = req_suspend_state s"
  "req_suspend_state (input_limit ma mv s) = req_suspend_state s"
  "req_suspend_state (pd_ceil i s) = req_suspend_state s"
  "req_suspend_state (pd_update_roles s) = req_suspend_state s"
  "req_suspend_state (wait_for t s) = req_suspend_state s"
  "req_suspend_state (pd_update_saved_port_flags bf b s) = req_suspend_state s"
  "req_suspend_state (set_state_timeout t x s) = req_suspend_state s"
  "req_suspend_state (queue_vdm h d s) = req_suspend_state s"
  "polarity (pd_do c s) = polarity s"
  "polarity (set_pd_flag f s) = polarity s"
  "polarity (clear_pd_flag f s) = polarity s"
  "polarity (set_polarity b s) = polarity s"
  "polarity (set_vconn b s) = polarity s"
  "polarity (tcpm_set_cc pull s) = polarity s"
  "polarity (tcpm_set_rx_enable b s) = polarity s"
  "polarity (input_limit ma mv s) = polarity s"
  "polarity (pd_ceil i s) = polarity s"
  "polarity (pd_update_roles s) = polarity s"
  "polarity (wait_for t s) = polarity s"
  "polarity (pd_update_saved_port_flags bf b s) = polarity s"
  "polarity (set_state_timeout t x s) = polarity s"
  "polarity (queue_vdm h d s) = polarity s"
  "pd_comm_enabled (pd_do c s) = pd_comm_enabled s"
  "pd_comm_enabled (set_pd_flag f s) = pd_comm_enabled s"
  "pd_comm_enabled (clear_pd_flag f s) = pd_comm_enabled s"
  "pd_comm_enabled (set_polarity b s) = pd_comm_enabled s"
  "pd_comm_enabled (set_vconn b s) = pd_comm_enabled s"
  "pd_comm_enabled (tcpm_set_cc pull s) = pd_comm_enabled s"
  "pd_comm_enabled (tcpm_set_rx_enable b s) = pd_comm_enabled s"
  "pd_comm_enabled (input_limit ma mv s) = pd_comm_enabled s"
  "pd_comm_enabled (pd_ceil i s) = pd_comm_enabled s"
  "pd_comm_enabled (pd_update_roles s) = pd_comm_enabled s"
  "pd_comm_enabled (wait_for t s) = pd_comm_enabled s"
  "pd_comm_enabled (pd_update_saved_port_flags bf b s) = pd_comm_enabled s"
  "pd_comm_enabled (set_state_timeout t x s) = pd_comm_enabled s"
  "pd_comm_enabled (queue_vdm h d s) = pd_comm_enabled s"
  "drp_state (pd_do c s) = drp_state s"
  "drp_state (set_pd_flag f s) = drp_state s"
  "drp_state (clear_pd_flag f s) = drp_state s"
  "drp_state (set_polarity b s) = drp_state s"
  "drp_state (set_vconn b s) = drp_state s"
  "drp_state (tcpm_set_cc pull s) = drp_state s"
  "drp_state (tcpm_set_rx_enable b s) = drp_state s"
  "drp_state (input_limit ma mv s) = drp_state s"
  "drp_state (pd_ceil i s) = drp_state s"
  "drp_state (pd_update_roles s) = drp_state s"
  "drp_state (wait_for t s) = drp_state s"
  "drp_state (pd_update_saved_port_flags bf b s) = drp_state s"
  "drp_state (set_state_timeout t x s) = drp_state s"
  "drp_state (queue_vdm h d s) = drp_state s"
  "curr_limit (pd_do c s) = curr_limit s"
  "curr_limit (set_pd_flag f s) = curr_limit s"
  "curr_limit (clear_pd_flag f s) = curr_limit s"
  "curr_limit (set_polarity b s) = curr_limit s"
  "curr_limit (set_vconn b s) = curr_limit s"
  "curr_limit (tcpm_set_cc pull s) = curr_limit s"
  "curr_limit (tcpm_set_rx_enable b s) = curr_limit s"
  "curr_limit (input_limit ma mv s) = curr_limit s"
  "curr_limit (pd_ceil i s) = curr_limit s"
  "curr_limit (pd_update_roles s) = curr_limit s"
  "curr_limit (wait_for t s) = curr_limit s"
  "curr_limit (pd_update_saved_port_flags bf b s) = curr_limit s"
  "curr_limit (set_state_timeout t x s) = curr_limit s"
  "curr_limit (queue_vdm h d s) = curr_limit s"
  "supply_voltage (pd_do c s) = supply_voltage s"
  "supply_voltage (set_pd_flag f s) = supply_voltage s"
  "supply_voltage (clear_pd_flag f s) = supply_voltage s"
  "supply_voltage (set_polarity b s) = supply_voltage s"
  "supply_voltage (set_vconn b s) = supply_voltage s"
  "supply_voltage (tcpm_set_cc pull s) = supply_voltage s"
  "supply_voltage (tcpm_set_rx_enable b s) = supply_voltage s"
  "supply_voltage (input_limit ma mv s) = supply_voltage s"
  "supply_voltage (pd_ceil i s) = supply_voltage s"
  "supply_voltage (pd_update_roles s) = supply_voltage s"
  "supply_voltage (wait_for t s) = supply_voltage s"
  "supply_voltage (pd_update_saved_port_flags bf b s) = supply_voltage s"
  "supply_voltage (set_state_timeout t x s) = supply_voltage s"
  "supply_voltage (queue_vdm h d s) = supply_voltage s"
  "msg_id (pd_do c s) = msg_id s"
  "msg_id (set_pd_flag f s) = msg_id s"
  "msg_id (clear_pd_flag f s) = msg_id s"
  "msg_id (set_polarity b s) = msg_id s"
  "msg_id (set_vconn b s) = msg_id s"
  "msg_id (tcpm_set_cc pull s) = msg_id s"
  "msg_id (tcpm_set_rx_enable b s) = msg_id s"
  "msg_id (input_limit ma mv s) = msg_id s"
  "msg_id (pd_ceil i s) = msg_id s"
  "msg_id (pd_update_roles s) = msg_id s"
  "msg_id (wait_for t s) = msg_id s"
  "msg_id (pd_update_saved_port_flags bf b s) = msg_id s"
  "msg_id (set_state_timeout t x s) = msg_id s"
  "msg_id (queue_vdm h d s) = msg_id s"
  "src_recover (pd_do c s) = src_recover s"
  "src_recover (set_pd_flag f s) = src_recover s"
  "src_recover (clear_pd_flag f s) = src_recover s"
  "src_recover (set_polarity b s) = src_recover s"
  "src_recover (set_vconn b s) = src_recover s"
  "src_recover (tcpm_set_cc pull s) = src_recover s"
  "src_recover (tcpm_set_rx_enable b s) = src_recover s"
  "src_recover (input_limit ma mv s) = src_recover s"
  "src_recover (pd_ceil i s) = src_recover s"
  "src_recover (pd_update_roles s) = src_recover s"
  "src_recover (wait_for t s) = src_recover s"
  "src_recover (pd_update_saved_port_flags bf b s) = src_recover s"
  "src_recover (set_state_timeout t x s) = src_recover s"
  "src_recover (queue_vdm h d s) = src_recover s"
  "snk (pd_do c s) = snk s"
  "snk (set_pd_flag f s) = snk s"
  "snk (clear_pd_flag f s) = snk s"
  "snk (set_polarity b s) = snk s"
  "snk (set_vconn b s) = snk s"
  "snk (tcpm_set_cc pull s) = snk s"
  "snk (tcpm_set_rx_enable b s) = snk s"
  "snk (input_limit ma mv s) = snk s"
  "snk (pd_ceil i s) = snk s"
  "snk (pd_update_roles s) = snk s"
  "snk (wait_for t s) = snk s"
  "snk (pd_update_saved_port_flags bf b s) = snk s"
  "snk (set_state_timeout t x s) = snk s"
  "snk (queue_vdm h d s) = snk s"
  "vbus_debounce_time (pd_do c s) = vbus_debounce_time s"
  "vbus_debounce_time (set_pd_flag f s) = vbus_debounce_time s"
  "vbus_debounce_time (clear_pd_flag f s) = vbus_debounce_time s"
  "vbus_debounce_time (set_polarity b s) = vbus_debounce_time s"
  "vbus_debounce_time (set_vconn b s) = vbus_debounce_time s"
  "vbus_debounce_time (tcpm_set_cc pull s) = vbus_debounce_time s"
  "vbus_debounce_time (tcpm_set_rx_enable b s) = vbus_debounce_time s"
  "vbus_debounce_time (input_limit ma mv s) = vbus_debounce_time s"
  "vbus_debounce_time (pd_ceil i s) = vbus_debounce_time s"
  "vbus_debounce_time (pd_update_roles s) = vbus_debounce_time s"
  "vbus_debounce_time (wait_for t s) = vbus_debounce_time s"
  "vbus_debounce_time (pd_update_saved_port_flags bf b s) = vbus_debounce_time s"
  "vbus_debounce_time (set_state_timeout t x s) = vbus_debounce_time s"
  "vbus_debounce_time (queue_vdm h d s) = vbus_debounce_time s"
  "pd_try_src_enable (pd_do c s) = pd_try_src_enable s"
  "pd_try_src_enable (set_pd_flag f s) = pd_try_src_enable s"
  "pd_try_src_enable (clear_pd_flag f s) = pd_try_src_enable s"
  "pd_try_src_enable (set_polarity b s) = pd_try_src_enable s"
  "pd_try_src_enable (set_vconn b s) = pd_try_src_enable s"
  "pd_try_src_enable (tcpm_set_cc pull s) = pd_try_src_enable s"
  "pd_try_src_enable (tcpm_set_rx_enable b s) = pd_try_src_enable s"
  "pd_try_src_enable (input_limit ma mv s) = pd_try_src_enable s"
  "pd_try_src_enable (pd_ceil i s) = pd_try_src_enable s"
  "pd_try_src_enable (pd_update_roles s) = pd_try_src_enable s"
  "pd_try_src_enable (wait_for t s) = pd_try_src_enable s"
  "pd_try_src_enable (pd_update_saved_port_flags bf b s) = pd_try_src_enable s"
  "pd_try_src_enable (set_state_timeout t x s) = pd_try_src_enable s"
  "pd_try_src_enable (queue_vdm h d s) = pd_try_src_enable s"
  by (simp_all add: pd_basic set_state_timeout_def split: option.split)

lemma kept_basic_vdm [simp]:
  "vdm_state (pd_do c s) = vdm_state s"
  "vdm_state (set_pd_flag f s) = vdm_state s"
  "vdm_state (clear_pd_flag f s) = vdm_state s"
  "vdm_state (set_polarity b s) = vdm_state s"
  "vdm_state (set_vconn b s) = vdm_state s"
  "vdm_state (tcpm_set_cc pull s) = vdm_state s"
  "vdm_state (tcpm_set_rx_enable b s) = vdm_state s"
  "vdm_state (input_limit ma mv s) = vdm_state s"
  "vdm_state (pd_ceil i s) = vdm_state s"
  "vdm_state (pd_update_roles s) = vdm_state s"
  "vdm_state (wait_for t s) = vdm_state s"
  "vdm_state (pd_update_saved_port_flags bf b s) = vdm_state s"
  "vdm_state (set_state_timeout t x s) = vdm_state s"
  "alt (pd_do c s) = alt s"
  "alt (set_pd_flag f s) = alt s"
  "alt (clear_pd_flag f s) = alt s"
  "alt (set_polarity b s) = alt s"
  "alt (set_vconn b s) = alt s"
  "alt (tcpm_set_cc pull s) = alt s"
  "alt (tcpm_set_rx_enable b s) = alt s"
  "alt (input_limit ma mv s) = alt s"
  "alt (pd_ceil i s) = alt s"
  "alt (pd_update_roles s) = alt s"
  "alt (wait_for t s) = alt s"
  "alt (pd_update_saved_port_flags bf b s) = alt s"
  "alt (set_state_timeout t x s) = alt s"
  by (simp_all add: pd_basic set_state_timeout_def split: option.split)

lemma kept_helpers [simp]:
  "req_suspend_state (flag_from b f s) = req_suspend_state s"
  "req_suspend_state (set_usb_mux_with_current_data_role env s) = req_suspend_state s"
  "req_suspend_state (enable_rx s) = req_suspend_state s"
  "req_suspend_state (drop_contract s) = req_suspend_state s"
  "req_suspend_state (pd_set_data_role env dr s) = req_suspend_state s"
  "req_suspend_state (pd_set_power_role r s) = req_suspend_state s"
  "req_suspend_state (pd_power_supply_reset s) = req_suspend_state s"
  "req_suspend_state (pd_send_vdm v w d s) = req_suspend_state s"
  "req_suspend_state (driver_call rc s) = req_suspend_state s"
  "polarity (flag_from b f s) = polarity s"
  "polarity (set_usb_mux_with_current_data_role env s) = polarity s"
  "polarity (enable_rx s) = polarity s"
  "polarity (drop_contract s) = polarity s"
  "polarity (pd_set_data_role env dr s) = polarity s"
  "polarity (pd_set_power_role r s) = polarity s"
  "polarity (pd_power_supply_reset s) = polarity s"
  "polarity (pd_send_vdm v w d s) = polarity s"
  "polarity (driver_call rc s) = polarity s"
  "pd_comm_enabled (flag_from b f s) = pd_comm_enabled s"
  "pd_comm_enabled (set_usb_mux_with_current_data_role env s) = pd_comm_enabled s"
  "pd_comm_enabled (enable_rx s) = pd_comm_enabled s"
  "pd_comm_enabled (drop_contract s) = pd_comm_enabled s"
  "pd_comm_enabled (pd_set_data_role env dr s) = pd_comm_enabled s"
  "pd_comm_enabled (pd_set_power_role r s) = pd_comm_enabled s"
  "pd_comm_enabled (pd_power_supply_reset s) = pd_comm_enabled s"
  "pd_comm_enabled (pd_send_vdm v w d s) = pd_comm_enabled s"
  "pd_comm_enabled (driver_call rc s) = pd_comm_enabled s"
  "drp_state (flag_from b f s) = drp_state s"
  "drp_state (set_usb_mux_with_current_data_role env s) = drp_state s"
  "drp_state (enable_rx s) = drp_state s"
  "drp_state (drop_contract s) = drp_state s"
  "drp_state (pd_set_data_role env dr s) = drp_state s"
  "drp_state (pd_set_power_role r s) = drp_state s"
  "drp_state (pd_power_supply_reset s) = drp_state s"
  "drp_state (pd_send_vdm v w d s) = drp_state s"
  "drp_state (driver_call rc s) = drp_state s"
  "curr_limit (flag_from b f s) = curr_limit s"
  "curr_limit (set_usb_mux_with_current_data_role env s) = curr_limit s"
  "curr_limit (enable_rx s) = curr_limit s"
  "curr_limit (drop_contract s) = curr_limit s"
  "curr_limit (pd_set_data_role env dr s) = curr_limit s"
  "curr_limit (pd_set_power_role r s) = curr_limit s"
  "curr_limit (pd_power_supply_reset s) = curr_limit s"
  "curr_limit (pd_send_vdm v w d s) = curr_limit s"
  "curr_limit (driver_call rc s) = curr_limit s"
  "supply_voltage (flag_from b f s) = supply_voltage s"
  "supply_voltage (set_usb_mux_with_current_data_role env s) = supply_voltage s"
  "supply_voltage (enable_rx s) = supply_voltage s"
  "supply_voltage (drop_contract s) = supply_voltage s"
  "supply_voltage (pd_set_data_role env dr s) = supply_voltage s"
  "supply_voltage (pd_set_power_role r s) = supply_voltage s"
  "supply_voltage (pd_power_supply_reset s) = supply_voltage s"
  "supply_voltage (pd_send_vdm v w d s) = supply_voltage s"
  "supply_voltage (driver_call rc s) = supply_voltage s"
  "msg_id (flag_from b f s) = msg_id s"
  "msg_id (set_usb_mux_with_current_data_role env s) = msg_id s"
  "msg_id (enable_rx s) = msg_id s"
  "msg_id (drop_contract s) = msg_id s"
  "msg_id (pd_set_data_role env dr s) = msg_id s"
  "msg_id (pd_set_power_role r s) = msg_id s"
  "msg_id (pd_power_supply_reset s) = msg_id s"
  "msg_id (pd_send_vdm v w d s) = msg_id s"
  "msg_id (driver_call rc s) = msg_id s"
  "src_recover (flag_from b f s) = src_recover s"
  "src_recover (set_usb_mux_with_current_data_role env s) = src_recover s"
  "src_recover (enable_rx s) = src_recover s"
  "src_recover (drop_contract s) = src_recover s"
  "src_recover (pd_set_data_role env dr s) = src_recover s"
  "src_recover (pd_set_power_role r s) = src_recover s"
  "src_recover (pd_power_supply_reset s) = src_recover s"
  "src_recover (pd_send_vdm v w d s) = src_recover s"
  "src_recover (driver_call rc s) = src_recover s"
  "snk (flag_from b f s) = snk s"
  "snk (set_usb_mux_with_current_data_role env s) = snk s"
  "snk (enable_rx s) = snk s"
  "snk (drop_contract s) = snk s"
  "snk (pd_set_data_role env dr s) = snk s"
  "snk (pd_set_power_role r s) = snk s"
  "snk (pd_power_supply_reset s) = snk s"
  "snk (pd_send_vdm v w d s) = snk s"
  "snk (driver_call rc s) = snk s"
  "vbus_debounce_time (flag_from b f s) = vbus_debounce_time s"
  "vbus_debounce_time (set_usb_mux_with_current_data_role env s) = vbus_debounce_time s"
  "vbus_debounce_time (enable_rx s) = vbus_debounce_time s"
  "vbus_debounce_time (drop_contract s) = vbus_debounce_time s"
  "vbus_debounce_time (pd_set_data_role env dr s) = vbus_debounce_time s"
  "vbus_debounce_time (pd_set_power_role r s) = vbus_debounce_time s"
  "vbus_debounce_time (pd_power_supply_reset s) = vbus_debounce_time s"
  "vbus_debounce_time (pd_send_vdm v w d s) = vbus_debounce_time s"
  "vbus_debounce_time (driver_call rc s) = vbus_debounce_time s"
  "pd_try_src_enable (flag_from b f s) = pd_try_src_enable s"
  "pd_try_src_enable (set_usb_mux_with_current_data_role env s) = pd_try_src_enable s"
  "pd_try_src_enable (enable_rx s) = pd_try_src_enable s"
  "pd_try_src_enable (drop_contract s) = pd_try_src_enable s"
  "pd_try_src_enable (pd_set_data_role env dr s) = pd_try_src_enable s"
  "pd_try_src_enable (pd_set_power_role r s) = pd_try_src_enable s"
  "pd_try_src_enable (pd_power_supply_reset s) = pd_try_src_enable s"
  "pd_try_src_enable (pd_send_vdm v w d s) = pd_try_src_enable s"
  "pd_try_src_enable (driver_call rc s) = pd_try_src_enable s"
  by (simp_all add: flag_from_def set_usb_mux_with_current_data_role_def enable_rx_def drop_contract_def pd_set_data_role_def pd_set_power_role_def
      pd_power_supply_reset_def pd_send_vdm_def driver_call_def Let_def split: reef_call.split)

lemma kept_helpers_vdm [simp]:
  "vdm_state (flag_from b f s) = vdm_state s"
  "vdm_state (set_usb_mux_with_current_data_role env s) = vdm_state s"
  "vdm_state (enable_rx s) = vdm_state s"
  "vdm_state (drop_contract s) = vdm_state s"
  "vdm_state (pd_set_data_role env dr s) = vdm_state s"
  "vdm_state (pd_set_power_role r s) = vdm_state s"
  "vdm_state (pd_power_supply_reset s) = vdm_state s"
  "alt (flag_from b f s) = alt s"
  "alt (set_usb_mux_with_current_data_role env s) = alt s"
  "alt (enable_rx s) = alt s"
  "alt (drop_contract s) = alt s"
  "alt (pd_set_data_role env dr s) = alt s"
  "alt (pd_set_power_role r s) = alt s"
  "alt (pd_power_supply_reset s) = alt s"
  by (simp_all add: flag_from_def set_usb_mux_with_current_data_role_def enable_rx_def drop_contract_def pd_set_data_role_def pd_set_power_role_def
      pd_power_supply_reset_def pd_send_vdm_def driver_call_def Let_def split: reef_call.split)

lemma kept_drivers [simp]:
  "req_suspend_state (fold driver_call cs s) = req_suspend_state s"
  "polarity (fold driver_call cs s) = polarity s"
  "pd_comm_enabled (fold driver_call cs s) = pd_comm_enabled s"
  "drp_state (fold driver_call cs s) = drp_state s"
  "curr_limit (fold driver_call cs s) = curr_limit s"
  "supply_voltage (fold driver_call cs s) = supply_voltage s"
  "msg_id (fold driver_call cs s) = msg_id s"
  "src_recover (fold driver_call cs s) = src_recover s"
  "snk (fold driver_call cs s) = snk s"
  "vbus_debounce_time (fold driver_call cs s) = vbus_debounce_time s"
  "pd_try_src_enable (fold driver_call cs s) = pd_try_src_enable s"
  by (induction cs arbitrary: s) simp_all

lemma kept_exit [simp]:
  "req_suspend_state (exit_modes env s) = req_suspend_state s"
  "polarity (exit_modes env s) = polarity s"
  "pd_comm_enabled (exit_modes env s) = pd_comm_enabled s"
  "drp_state (exit_modes env s) = drp_state s"
  "curr_limit (exit_modes env s) = curr_limit s"
  "supply_voltage (exit_modes env s) = supply_voltage s"
  "msg_id (exit_modes env s) = msg_id s"
  "src_recover (exit_modes env s) = src_recover s"
  "snk (exit_modes env s) = snk s"
  "vbus_debounce_time (exit_modes env s) = vbus_debounce_time s"
  "pd_try_src_enable (exit_modes env s) = pd_try_src_enable s"
  by (simp_all add: exit_modes_def policy_out_def)

lemma kept_disconnected [simp]:
  "req_suspend_state (enter_disconnected env s) = req_suspend_state s"
  "polarity (enter_disconnected env s) = polarity s"
  "pd_comm_enabled (enter_disconnected env s) = pd_comm_enabled s"
  "drp_state (enter_disconnected env s) = drp_state s"
  "curr_limit (enter_disconnected env s) = curr_limit s"
  "supply_voltage (enter_disconnected env s) = supply_voltage s"
  "msg_id (enter_disconnected env s) = msg_id s"
  "src_recover (enter_disconnected env s) = src_recover s"
  "snk (enter_disconnected env s) = snk s"
  "vbus_debounce_time (enter_disconnected env s) = vbus_debounce_time s"
  "pd_try_src_enable (enter_disconnected env s) = pd_try_src_enable s"
  by (simp_all add: enter_disconnected_def Let_def)

lemma kept_set_state [simp]:
  "req_suspend_state (set_state env x s) = req_suspend_state s"
  "polarity (set_state env x s) = polarity s"
  "pd_comm_enabled (set_state env x s) = pd_comm_enabled s"
  "drp_state (set_state env x s) = drp_state s"
  "curr_limit (set_state env x s) = curr_limit s"
  "supply_voltage (set_state env x s) = supply_voltage s"
  "msg_id (set_state env x s) = msg_id s"
  "src_recover (set_state env x s) = src_recover s"
  "snk (set_state env x s) = snk s"
  "vbus_debounce_time (set_state env x s) = vbus_debounce_time s"
  "pd_try_src_enable (set_state env x s) = pd_try_src_enable s"
  by (simp_all add: set_state_def Let_def)


section \<open>An example\<close>

definition ex_port0 :: pd_port where
  "ex_port0 = \<lparr>power_role = PD_ROLE_SINK, data_role = PD_ROLE_UFP, msg_id = 0, polarity = False, task_state = PD_STATE_DISABLED,
     last_state = PD_STATE_DISABLED, req_suspend_state = False, timeout_state = PD_STATE_DISABLED, flags = {}, timeout = 0,
     src_recover = 0, cc_debounce = 0, cc_state = PD_CC_NONE, tx_status = TCPC_TX_COMPLETE_SUCCESS, requested_idx = 0,
     curr_limit = 0, supply_voltage = 0, new_power_request = False, prev_request_mv = 0, try_src_marker = 0, try_timeout = 0,
     vbus_debounce_time = 0, vdm_state = VDM_STATE_DONE, vdm_timeout = 0, vdo_data = replicate 7 0, vdo_count = 0, vdo_retry = 0,
     dev_id = 0, dev_rw_hash = replicate 5 0, current_image = SYSTEM_IMAGE_UNKNOWN, snk_ready_holdoff_timer = 0,
     pd_comm_enabled = True, drp_state = PD_DRP_TOGGLE_ON, pd_try_src_enable = False, bbram = Some {},
     rw_hash_table = replicate 4 (0, replicate 5 0), cc_pull = TYPEC_CC_RD, vbus_en = False, vconn_en = False, rx_enable = False,
     snk = \<lparr>pd_src_caps = replicate 7 0, pd_src_cap_cnt = 0, max_request_mv = 20000, pd_charge_calls = []\<rparr>,
     alt = \<lparr>pe = empty_policy, drv = \<lparr>dp_on = False, hpd_hi_pending = False, dp_status = 0, reef_calls = []\<rparr>, pol_calls = []\<rparr>,
     wait_time = 0, hard_reset_count = 0, next_role_swap = 0, snk_hard_reset_vbus_off = False, typec_curr = 0,
     typec_curr_change = False, next_src_cap = 0, caps_count = 0, hard_reset_sent = False, snk_cap_count = 0, pd_calls = []\<rparr>"

definition ex_pd_env :: "nat \<Rightarrow> nat \<Rightarrow> pd_env" where
  "ex_pd_env t cc = \<lparr>ev_power = False, ev_dual_role = False, ev_tcpc_reset = False, rx_msg = None, rx_more = False,
     tx_vdm = TxComplete TCPC_TX_COMPLETE_SUCCESS, tx_power = TxComplete TCPC_TX_COMPLETE_SUCCESS,
     tx_rx = TxComplete TCPC_TX_COMPLETE_SUCCESS, tx_state = TxComplete TCPC_TX_COMPLETE_SUCCESS,
     t_vdm = t, t_power = t, t_rx = t, t_state = t, t_sent = t, t_check = t, t_disc = t,
     cc_reset = (cc, 0), cc_seen = (cc, 0), cc_disc = (cc, 0), vbus_seen = True, vbus_again = True, vbus_disc = True,
     supply_fails = False, set_cc_open_ok = True, chipset_off = False, others_capable = False, active_charge_port = True,
     in_rw = True, pp5000_on = True, src_pdos = [PDO_FIXED 5000 1500 0], snk_pdos = [PDO_FIXED 5000 500 0],
     power_cfg = ex_pd_cfg, null_word = 0x1000, release_result = 0, restart_fails = False, supply_on_delay = 30000,
     supply_off_delay = 250000, vconn_swap_delay = 5000\<rparr>"

lemma exit_modes_idle:
  assumes "pe (alt s) = empty_policy"
  shows "exit_modes env s = s\<lparr>alt := policy_in s\<rparr>"
  using assms
  by (simp add: exit_modes_def policy_out_def pd_dfp_exit_mode_def pd_dfp_pe_init_def policy_in_def empty_policy_def empty_amode_def numeral_2_eq_2)

definition ex_source :: pd_port where
  "ex_source = pd_execute_hard_reset (ex_pd_env 0 2) 0 (pd_task_init (ex_pd_env 0 2) False False
     (ex_port0\<lparr>bbram := Some {PD_BBRMFLG_EXPLICIT_CONTRACT, PD_BBRMFLG_POWER_ROLE, PD_BBRMFLG_DATA_ROLE}\<rparr>))"

lemma ex_source_reach: "pd_reach ex_source"
  unfolding ex_source_def by (intro pd_reach.hard_reset pd_reach.start)

lemma set_state_other_vdm [simp]:
  "x \<noteq> PD_STATE_SNK_DISCONNECTED \<Longrightarrow> x \<noteq> PD_STATE_SRC_DISCONNECTED \<Longrightarrow> vdm_state (set_state env x s) = vdm_state s"
  by (simp add: set_state_other)

lemma partner_reset_kept [simp]: "bbram s = Some fs \<Longrightarrow> PD_BBRMFLG_EXPLICIT_CONTRACT \<in> fs \<Longrightarrow> pd_comm_enabled s \<Longrightarrow> pd_partner_port_reset lost s = s"
  by (simp add: pd_partner_port_reset_def)

lemma bbram_kept [simp]: "bbram (pd_do c s) = bbram s" "bbram (pd_power_supply_reset s) = bbram s" "bbram (set_pd_flag f s) = bbram s"
  "bbram (tcpm_set_rx_enable b s) = bbram s"
  by (simp_all add: pd_do_def pd_power_supply_reset_def set_pd_flag_def tcpm_set_rx_enable_def Let_def)

lemma ex_source_fields:
  "power_role ex_source = PD_ROLE_SOURCE" "task_state ex_source = PD_STATE_SRC_HARD_RESET_RECOVER" "vdm_state ex_source = VDM_STATE_DONE"
  "\<not> req_suspend_state ex_source" "src_recover ex_source = 760000" "\<not> polarity ex_source" "\<not> vbus_en ex_source"
  by (simp_all add: ex_source_def pd_execute_hard_reset_def pd_task_init_def exit_modes_idle pd_dfp_pe_init_def Let_def)
     (simp_all add: ex_port0_def ex_pd_env_def)

lemma recover_round:
  assumes "task_state s = PD_STATE_SRC_HARD_RESET_RECOVER" "power_role s = PD_ROLE_SOURCE" "vdm_state s = VDM_STATE_DONE" "\<not> req_suspend_state s"
    "src_recover s \<le> t" "\<not> polarity s"
  shows "\<exists>s'. undisturbed (ex_pd_env t 2) s \<and> pd_round (ex_pd_env t 2) s = Some s' \<and> vbus_en s' \<and> power_role s' = PD_ROLE_SOURCE \<and> task_state s' = PD_STATE_SRC_STARTUP"
proof -
  have e: "handle_events (ex_pd_env t 2) s = s" using assms(3)
    by (simp add: handle_events_def ex_pd_env_def pd_vdm_send_state_machine_def)
  have r: "receive_message (ex_pd_env t 2) s = Some s" by (simp add: receive_message_def ex_pd_env_def)
  let ?r = "run_state (ex_pd_env t 2) (wait_for (500 * MSEC) s)"
  have f: "vbus_en ?r" "power_role ?r = PD_ROLE_SOURCE" "task_state ?r = PD_STATE_SRC_STARTUP" "timeout ?r = 0" "\<not> polarity ?r"
    using assms by (simp_all add: run_state_def on_SRC_HARD_RESET_RECOVER_def pd_set_power_supply_ready_def ex_pd_env_def Let_def cuts_vbus_def)
  have "check_disconnect (ex_pd_env t 2) (check_state_timeout (ex_pd_env t 2) (?r\<lparr>last_state := task_state s\<rparr>)) = ?r\<lparr>last_state := task_state s\<rparr>"
    using f by (simp add: check_state_timeout_def check_disconnect_def ex_pd_env_def)
  then have "pd_round (ex_pd_env t 2) s = Some (?r\<lparr>last_state := task_state s\<rparr>)"
    using e r assms(4) by (simp add: pd_round_def suspend_if_asked_def run_and_check_def Let_def)
  moreover have "undisturbed (ex_pd_env t 2) s" using e r assms(2) by (simp add: undisturbed_def) (simp add: ex_pd_env_def)
  ultimately show ?thesis using f by (intro exI [of _ "?r\<lparr>last_state := task_state s\<rparr>"]) simp
qed


lemma cc_pull_basic [simp]:
  "cc_pull (tcpm_set_cc pull s) = pull"
  "cc_pull (pd_do c s) = cc_pull s"
  "cc_pull (set_pd_flag f s) = cc_pull s"
  "cc_pull (clear_pd_flag f s) = cc_pull s"
  "cc_pull (set_polarity b s) = cc_pull s"
  "cc_pull (set_vconn b s) = cc_pull s"
  "cc_pull (tcpm_set_rx_enable b s) = cc_pull s"
  "cc_pull (input_limit ma mv s) = cc_pull s"
  "cc_pull (pd_ceil i s) = cc_pull s"
  "cc_pull (pd_update_roles s) = cc_pull s"
  "cc_pull (wait_for t s) = cc_pull s"
  "cc_pull (pd_update_saved_port_flags bf b s) = cc_pull s"
  "cc_pull (set_state_timeout t x s) = cc_pull s"
  "cc_pull (queue_vdm h d s) = cc_pull s"
  by (simp_all add: pd_basic set_state_timeout_def split: option.split)

lemma cc_pull_helpers [simp]:
  "cc_pull (flag_from b f s) = cc_pull s"
  "cc_pull (set_usb_mux_with_current_data_role env s) = cc_pull s"
  "cc_pull (enable_rx s) = cc_pull s"
  "cc_pull (pd_set_data_role env dr s) = cc_pull s"
  "cc_pull (pd_set_power_role r s) = cc_pull s"
  "cc_pull (pd_power_supply_reset s) = cc_pull s"
  "cc_pull (pd_send_vdm v w d s) = cc_pull s"
  "cc_pull (driver_call rc s) = cc_pull s"
  by (simp_all add: flag_from_def set_usb_mux_with_current_data_role_def enable_rx_def pd_set_data_role_def pd_set_power_role_def
      pd_power_supply_reset_def pd_send_vdm_def driver_call_def Let_def split: reef_call.split)

lemma cc_pull_exit [simp]: "cc_pull (fold driver_call cs s) = cc_pull s" "cc_pull (exit_modes env s) = cc_pull s"
proof -
  show d: "cc_pull (fold driver_call cs s) = cc_pull s" for cs s by (induction cs arbitrary: s) simp_all
  show "cc_pull (exit_modes env s) = cc_pull s" by (simp add: exit_modes_def policy_out_def d)
qed

lemma cc_pull_set_state:
  assumes "power_role s = PD_ROLE_SINK"
  shows "cc_pull (set_state env x s) = cc_pull s"
proof -
  have "cc_pull (enter_disconnected env t) = cc_pull t" if "power_role t = PD_ROLE_SINK" for t
    using that by (simp add: enter_disconnected_def Let_def)
  then show ?thesis using assms by (simp add: set_state_def Let_def)
qed

section \<open>When the protocol is not kept\<close>

text \<open>
  C32. A port controller that resets leaves VBUS on. When the controller of a port that supplies power
  reports that it has reset, the task makes the port a sink before it enters the disconnected state,
  and for a sink that state does not switch VBUS off: the port presents Rd, waits for a source to
  attach, and goes on supplying power.
\<close>

theorem tcpc_reset_leaves_vbus_on:
  assumes "ev_tcpc_reset env" "\<not> ev_dual_role env" "vbus_en s" "power_role s = PD_ROLE_SOURCE"
    "src_state (task_state s)" "task_state s \<noteq> PD_STATE_SRC_DISCONNECTED" 
  shows "let h = handle_events env s
    in power_role h = PD_ROLE_SINK \<and> task_state h = PD_STATE_SNK_DISCONNECTED \<and> cc_pull h = TYPEC_CC_RD \<and> vbus_en h"
proof -
  define d where "d = (if ev_power env then handle_new_power_state env (pd_vdm_send_state_machine (tx_vdm env) (t_vdm env) s)
                       else pd_vdm_send_state_machine (tx_vdm env) (t_vdm env) s)"
  have d: "vbus_en d" "task_state d = task_state s" using assms by (simp_all add: d_def)
  have n: "task_state d \<noteq> PD_STATE_SOFT_RESET" "task_state d \<noteq> PD_STATE_SNK_READY" "task_state d \<noteq> PD_STATE_SNK_DISCONNECTED"
    using assms(5) d(2) by auto
  have h: "handle_events env s = tcpc_was_reset env d" using assms(1,2) by (simp add: handle_events_def d_def Let_def)
  have "tcpc_was_reset env d = set_state env PD_STATE_SNK_DISCONNECTED
      ((pd_set_power_role PD_ROLE_SINK (tcpm_set_cc TYPEC_CC_RD (pd_do TcpcInit d)))\<lparr>vdm_state := VDM_STATE_DONE\<rparr>)"
    using n by (simp add: tcpc_was_reset_def Let_def)
  then show ?thesis using h d by (simp add: Let_def cuts_vbus_def cc_pull_set_state)
qed


text \<open>In the same way a soft reset in the last part of a swap makes the port a sink that supplies power.\<close>

lemma soft_reset_leaves_vbus_on:
  assumes "power_role s = PD_ROLE_SINK" "task_state s = PD_STATE_SNK_SWAP_STANDBY" "vbus_en s"
    "PD_HEADER_CNT head = 0" "PD_HEADER_TYPE head = PD_CTRL_SOFT_RESET" "PD_HEADER_DROLE head \<noteq> drole_bit (data_role s)"
    "handle_request env head payload s = Some s'"
  shows "power_role s' = PD_ROLE_SINK \<and> task_state s' = PD_STATE_SNK_DISCOVERY \<and> vbus_en s'"
proof -
  have "pd_is_connected s" using assms(1,2) by (simp add: pd_is_connected_def)
  then have "s' = snd (send_control (tx_rx env) PD_CTRL_ACCEPT (execute_soft_reset env s))"
    using assms by (simp add: handle_request_def handle_ctrl_request_def)
  then show ?thesis using assms by (simp add: execute_soft_reset_def cuts_vbus_def)
qed

text \<open>
  C33. A request for power sent to a sink confuses it. Whatever a connected sink is doing, a partner
  that sends it a request message is told that the request is rejected, and the port continues in the
  ready state of a source, in the role of a sink, with the power role, VBUS and the CC lines as
  before.
\<close>

theorem request_confuses_sink:
  assumes "pd_is_connected s" "power_role s = PD_ROLE_SINK" "PD_HEADER_TYPE head = PD_DATA_REQUEST" "PD_HEADER_CNT head \<noteq> 0"
    "PD_HEADER_DROLE head \<noteq> drole_bit (data_role s)" "pd_comm_enabled s"
  shows "\<exists>s'. handle_request env head payload s = Some s' \<and> task_state s' = PD_STATE_SRC_READY \<and> power_role s' = PD_ROLE_SINK
     \<and> vbus_en s' = vbus_en s \<and> cc_pull s' = cc_pull s
     \<and> Transmit TCPC_TX_SOP (msg_header PD_CTRL_REJECT 0 s) [] \<in> set (pd_calls s')"
proof -
  have t: "Transmit ty h d \<in> set (pd_calls (snd (pd_transmit tx ty h d s)))" "cc_pull (snd (pd_transmit tx ty h d s)) = cc_pull s" for tx ty h d
    using assms(6) by (simp_all add: pd_transmit_def pd_do_def pd_transmit_complete_def inc_id_def Let_def split: tx_result.split)
  have "handle_request env head payload s = Some (set_state env PD_STATE_SRC_READY (snd (send_control (tx_rx env) PD_CTRL_REJECT s)))"
    using assms by (simp add: handle_request_def handle_data_request_def handle_power_request_def Let_def)
  moreover have "set (pd_calls (set_state env PD_STATE_SRC_READY x)) \<supseteq> set (pd_calls x)" for x
    by (auto simp: set_state_other pd_do_def)
  ultimately show ?thesis using assms(2) t [where tx = "tx_rx env" and ty = TCPC_TX_SOP and h = "msg_header PD_CTRL_REJECT 0 s" and d = "[]"]
    by (auto simp: send_control_def cuts_vbus_def cc_pull_set_state)
qed

text \<open>
  C34. A source does not debounce. The code means to wait, after it first sees a sink, for 100 ms (15 ms
  in Try.SRC); the time it stores is not in the future but the constant 15 ms. So in the second round
  that sees the same sink, however soon it follows, the port attaches and turns VBUS on. (The sink's
  side, by contrast, waits.)
\<close>

theorem source_attaches_without_debounce:
  assumes "power_role s = PD_ROLE_SOURCE" "cc_state s \<noteq> PD_CC_UFP_ATTACHED" "task_state s = PD_STATE_SRC_DISCONNECTED_DEBOUNCE"
    "cc_seen e1 = (TYPEC_CC_VOLT_RD, TYPEC_CC_VOLT_OPEN)" "cc_seen e2 = cc_seen e1" "0 < t_state e1" "15000 \<le> t_state e2" "\<not> supply_fails e2"
  shows "let s' = on_SRC_DISCONNECTED_DEBOUNCE e2 (on_SRC_DISCONNECTED_DEBOUNCE e1 s)
    in task_state s' = PD_STATE_SRC_STARTUP \<and> vbus_en s' \<and> power_role s' = PD_ROLE_SOURCE"
proof -
  let ?s = "(wait_for (20 * MSEC) s)\<lparr>cc_debounce := PD_T_DEBOUNCE, cc_state := PD_CC_UFP_ATTACHED\<rparr>"
  have cc: "src_cc_state 2 0 = Some PD_CC_UFP_ATTACHED" by (simp add: src_cc_state_def)
  have 1: "on_SRC_DISCONNECTED_DEBOUNCE e1 s = ?s"
    using assms(2,4,6) cc by (simp add: on_SRC_DISCONNECTED_DEBOUNCE_def src_debounce_end_def wait_for_def)
  have "on_SRC_DISCONNECTED_DEBOUNCE e2 ?s = attach_source e2 PD_CC_UFP_ATTACHED (wait_for (20 * MSEC) ?s)"
    using assms(4,5,7) cc by (simp add: on_SRC_DISCONNECTED_DEBOUNCE_def wait_for_def)
  moreover have "task_state (attach_source e2 PD_CC_UFP_ATTACHED t) = PD_STATE_SRC_STARTUP \<and> vbus_en (attach_source e2 PD_CC_UFP_ATTACHED t)
      \<and> power_role (attach_source e2 PD_CC_UFP_ATTACHED t) = PD_ROLE_SOURCE" if "power_role t = PD_ROLE_SOURCE" for t
    using assms(8) that by (simp add: attach_source_def pd_set_power_supply_ready_def Let_def cuts_vbus_def)
  ultimately show ?thesis unfolding 1 using assms(1) by simp
qed


theorem tcpc_reset_leaves_vbus_on_witness:
  "let h = handle_events ((ex_pd_env 0 2)\<lparr>ev_tcpc_reset := True\<rparr>)
      (ex_port0\<lparr>power_role := PD_ROLE_SOURCE, task_state := PD_STATE_SRC_READY, vbus_en := True\<rparr>)
   in power_role h = PD_ROLE_SINK \<and> task_state h = PD_STATE_SNK_DISCONNECTED \<and> cc_pull h = TYPEC_CC_RD \<and> vbus_en h"
  by (rule tcpc_reset_leaves_vbus_on) (simp_all add: ex_pd_env_def)

theorem request_confuses_sink_witness:
  "\<exists>s'. handle_request (ex_pd_env 0 5) 0x1162 [0x1104B12C] (ex_port0\<lparr>task_state := PD_STATE_SNK_READY\<rparr>) = Some s'
     \<and> task_state s' = PD_STATE_SRC_READY \<and> power_role s' = PD_ROLE_SINK"
proof -
  let ?s = "ex_port0\<lparr>task_state := PD_STATE_SNK_READY\<rparr>"
  have "pd_is_connected ?s" "power_role ?s = PD_ROLE_SINK" "PD_HEADER_TYPE 0x1162 = PD_DATA_REQUEST" "PD_HEADER_CNT 0x1162 \<noteq> 0"
    "PD_HEADER_DROLE 0x1162 \<noteq> drole_bit (data_role ?s)" "pd_comm_enabled ?s"
    by (simp_all add: pd_is_connected_def ex_port0_def PD_HEADER_TYPE_def PD_HEADER_CNT_def PD_HEADER_DROLE_def drole_bit_def)
  from request_confuses_sink [OF this, of "ex_pd_env 0 5" "[0x1104B12C]"] show ?thesis by blast
qed

theorem source_attaches_without_debounce_witness:
  "let s' = on_SRC_DISCONNECTED_DEBOUNCE (ex_pd_env 1000001 2) (on_SRC_DISCONNECTED_DEBOUNCE (ex_pd_env 1000000 2)
      (ex_port0\<lparr>power_role := PD_ROLE_SOURCE, task_state := PD_STATE_SRC_DISCONNECTED_DEBOUNCE\<rparr>))
   in task_state s' = PD_STATE_SRC_STARTUP \<and> vbus_en s' \<and> power_role s' = PD_ROLE_SOURCE"
  by (rule source_attaches_without_debounce) (simp_all add: ex_port0_def ex_pd_env_def)

end
