(* ===== verification/Spec2Isabelle.thy ===== *)
theory Spec2Isabelle
  imports EC_Prelude Queue Util_Strings Util_Memory Util_Arith Checksums Shmalloc Hooks
    Timer Task Charge_Manager Charge_Ramp Nvmem_Vars Host_Command Thermal Throttle_Ap
    Keyboard_8042 Battery Charger Charge_State Charge_Safety Charge_Host PD_Alt_Safety PD_Task_Safety
begin

text \<open>
  Verification of the embedded-controller firmware: the kernel, its services, and the charging
  subsystem.

  \<^bold>\<open>The program.\<close> The firmware runs a fixed set of prioritised tasks on a small core. The kernel
  (core/cortex-m0/task.c) schedules them, delivers 32-bit event masks and provides mutexes; the
  timer module (common/timer.c) gives every task one alarm and a 64-bit clock on top of a 32-bit
  counter; the hook module (common/hooks.c) calls the routines that other modules register for an
  event and runs deferred routines in its own task. The services below them are a shared-memory
  allocator (common/shmalloc.c), a ring buffer (common/queue.c), the string, memory and arithmetic
  routines (common/util.c, common/clz.c) and checksums (common/crc.c, common/crc8.c). The charge
  manager (common/charge_manager.c) decides, from what the suppliers on each port report, which
  port charges the system and with which limits; the ramp task (common/charge_ramp_sw.c,
  common/charge_ramp.c) searches the highest input current a charger sustains. The host processor
  talks to the firmware in packets (common/host_command.c); persistent variables are packed into a
  region of flash (common/nvmem_vars.c); the thermal module (common/thermal.c) compares the
  temperature sensors with their limits once a second and throttles (common/throttle_ap.c) or
  shuts down the system; the keyboard controller (common/keyboard_8042.c) speaks the 8042 protocol
  with the host. The charging task (common/charge_state_v2.c) reads the battery
  (driver/battery/smart.c, common/battery.c) and the charger chip (common/charger.c) in each round,
  decides whether to charge, to wake or to leave the battery alone, and watches over it. The USB PD
  policy (common/usb_pd_policy.c, board/reef/usb_pd_policy.c) chooses among the offers of a partner
  at a type-C port, tells the charge manager the result, and discovers, enters and leaves the
  partner's alternate modes; the PD task (common/usb_pd_protocol.c, one per port) runs the protocol:
  it attaches and detaches, takes the role of source or sink, negotiates, swaps roles and resets.

  \<^bold>\<open>How it is modelled.\<close> Statics become the fields of a record, one function becomes one
  definition that returns the updated record, loops become recursion, and machine integers keep
  their width wherever wrap-around can happen. Calls into modules that are not modelled are either
  answers supplied by an environment record (the board, the PD stack, the clock) or entries of a
  log, in order. A failed assertion is \<open>None\<close>.

  \<^item> EC_Prelude: machine types, the value of a C \<open>int\<close> after wrapping, blocks of byte arrays.
  \<^item> Queue: common/queue.c. Locale \<open>bounded_fifo\<close> states the contract of a bounded FIFO and is
    interpreted on the ring buffer, whose head and tail are free-running counters. Shown: no unit is
    lost, duplicated or reordered; both bulk transfers refine list operations; the return value of
    a peek beyond the end is wrong.
  \<^item> Util_Strings, Util_Memory, Util_Arith: common/util.c and common/clz.c. Shown: parsing inverts
    printing, the word-wise memory routines do what byte-wise ones would, the constant-time compare
    agrees with \<open>memcmp\<close>, the 64-bit division is exact up to its real bound, bit search, edge
    detection.
  \<^item> Checksums: common/crc.c and common/crc8.c against the bit-serial definitions.
  \<^item> Shmalloc: common/shmalloc.c on an explicit heap of linked headers. Locale \<open>allocator\<close> states
    what clients rely on and is interpreted on the C functions; shown are the effect of each
    operation, disjointness of live buffers over whole histories, and conservation of memory. Loops
    along a chain take a bound; the theorems show that the number of buffers is enough.
  \<^item> Timer: common/timer.c. The scan of the running timers, the retry when the hardware event is
    already past, the clock and the delays. The number of passes is bounded by fuel, and enough
    fuel is shown to exist for every clock that advances.
  \<^item> Task: core/cortex-m0/task.c. The scheduling decision, event delivery, waiting, interrupt
    priorities; the mutex as a step relation over all interleavings.
  \<^item> Hooks: common/hooks.c. The notify loop (a partial function, shown to terminate), deferred
    calls, and the sleep decision of the hook task in the presence of interrupts.
  \<^item> Charge_Manager: common/charge_manager.c complete, with its host and console commands. Shown:
    the chosen port is optimal, refresh terminates and respects ceilings, safe mode keeps
    charging, one port at most sources the maximum current, nothing happens before every supplier
    reported.
  \<^item> Charge_Ramp: common/charge_ramp_sw.c and common/charge_ramp.c, one round of the task per step.
  \<^item> Nvmem_Vars: common/nvmem_vars.c. Locale \<open>var_store\<close> states what a store of variables promises
    and is interpreted on the operations on the packed region. Shown: the region refines a finite
    map, a value set is read back, and start-up repairs a malformed region. The bytes behind the
    region, which the key comparison can reach, are a parameter that no result depends on. The
    loops are partial functions, shown to return.
  \<^item> Host_Command: common/host_command.c. The table of commands and its handlers are a parameter.
    Shown: request and response packets are well formed and checked, the binary search agrees with
    the linear one, and the saved result of a slow command is lost.
  \<^item> Thermal: common/thermal.c, with the conditions of Util_Arith. Shown: hysteresis and reactions
    on the edges only, and the fan percentage.
  \<^item> Throttle_Ap: common/throttle_ap.c, and its composition with Thermal as a step relation. Shown:
    throttling is the OR of its sources, and a hot system stays throttled.
  \<^item> Keyboard_8042: common/keyboard_8042.c on two ring buffers of Queue. Shown, over every
    interleaving of host, keys and task: no assertion fails and the buffers stay bounded; a key
    reaches the host byte by byte; the controller's memory, the resend command, the sysjump state
    and the scan codes work as the protocol asks, but the disable bit is ignored.
  \<^item> Battery: driver/battery/smart.c and common/battery.c; the bus is a parameter. Shown: what is
    reported is what was read, the charge on display is in range, a battery that is cut off is left
    alone, but a cut-off at shutdown is not recorded.
  \<^item> Charger: common/charger.c and common/charger_profile_override.c. Shown: requests are rounded to
    supported values, and profiles follow their table.
  \<^item> Charge_State: common/charge_state_v2.c, one definition per phase of a round, with the commands
    and queries. Charge_Safety: what each phase keeps, then, over all reachable states and sequences
    of rounds, what reaches the chip, the shutdown on a critical battery, waking a silent battery,
    and throttling composed with Throttle_Ap. Locale \<open>charge_profile\<close> is the contract of the board's
    profile and is interpreted on the common profile code. Charge_Host: shared memory, events on
    a low battery, and sleep times.
  \<^item> PD_Power: the part of common/usb_pd_policy.c that a sink and a source use to agree on power.
    Shown: the offer chosen is the best one, requests stay within the limits in force, a source
    accepts every request made from its own offers; offers of batteries are misread.
  \<^item> PD_Alt_Mode: structured vendor-defined messages and alternate modes in
    common/usb_pd_policy.c, with the drivers of the modes of board reef. PD_Alt_Safety: locale
    \<open>alt_mode_board\<close> is what the common code relies on in a board's table of modes, and is
    interpreted on reef. Shown, over every sequence of messages of a partner that answers what it
    was asked: no array is overrun and no missing driver is called; discovery keeps what was sent;
    the choice of the DisplayPort pins; and what an unsolicited answer can do.
  \<^item> PD_Protocol: the protocol layer of common/usb_pd_protocol.c, as board reef_it8320 configures it:
    state changes, messages sent and received, resets, swaps, vendor messages, on top of PD_Power and
    PD_Alt_Mode. PD_Task: the task itself, one definition per state of its switch, one round of its
    loop per step, and what other tasks call. What the port controller, the clock and the board
    answer in a round is a record. PD_Task_Safety: the invariant that power is supplied by sources
    only, over every sequence of rounds, hard resets and calls; and what happens when the port
    controller resets, or the partner does not keep to the protocol.
  \<^item> This theory composes Timer and Task: an expired timer makes its task run.

  \<^bold>\<open>Not modelled.\<close> Output (console, UART, printf), register-level chip and board code, drivers of
  external chips, the assembly of the context switch, cryptographic primitives, and the host
  tools. Of the charging task, sharing power with a base and the memory for several batteries. Of
  the USB PD protocol, revision 3.0, toggling and low power in the port controller, power-path
  controllers, the console and host commands of its file, and the bit-level port controller. Keyboard
  scanning, flash and power sequencing.

  \<^bold>\<open>Plan.\<close> In order: base-32 coding and the event log; the host commands of the PD protocol;
  keyboard scanning.
\<close>

section \<open>The timer interrupt and the scheduler\<close>

text \<open>
  Each timer that expires sends its task the timer event, from interrupt context; the context
  switch that this requests is made when the interrupt returns.
\<close>

fun deliver :: "tm_call list \<Rightarrow> sys \<Rightarrow> sys option" where
  "deliver [] st = Some st"
| "deliver (TriggerTimerIrq # cs) st = deliver cs st"
| "deliver (TimerEvent tskid # cs) st =
     (case task_set_event 0 (\<lambda>_ st. st) 0 0 True tskid (push_bit EVENT_TIMER_BIT 1) False 0 st of
        None \<Rightarrow> None
      | Some (_, _, st) \<Rightarrow> deliver cs st)"

definition timer_irq :: "nat \<Rightarrow> (nat \<Rightarrow> u64) \<Rightarrow> bool \<Rightarrow> sys \<Rightarrow> (nat \<times> sys) option" where
  "timer_irq fuel clk overflow st =
     (case process_timers fuel clk overflow ((snd st)\<lparr>tm_calls := []\<rparr>) of
        None \<Rightarrow> None
      | Some (j, tm) \<Rightarrow> map_option (Pair j) (deliver (tm_calls tm) (fst st, tm)))"

definition pendsv_handler :: "sys \<Rightarrow> sys option" where
  "pendsv_handler st =
     (if pend_sv (fst st)
      then map_option (\<lambda>s. (s\<lparr>pend_sv := False\<rparr>, snd st)) (svc_handler False 0 (fst st))
      else Some st)"

lemma deliver_events:
  assumes "sched_inv s" "\<forall>k \<in> set ks. k < 32"
  shows "\<exists>s'. deliver (map TimerEvent ks) (s, tm) = Some (s', tm) \<and> sched_inv s'
     \<and> (\<forall>k. task_events s' k = (if k \<in> set ks then task_events s k OR push_bit EVENT_TIMER_BIT 1 else task_events s k))
     \<and> bits_of (tasks_ready s') = bits_of (tasks_ready s) \<union> set ks \<and> tasks_enabled s' = tasks_enabled s
     \<and> current_task s' = current_task s \<and> start_called s' = start_called s
     \<and> pend_sv s' = (pend_sv s \<or> start_called s \<and> ks \<noteq> [])"
  using assms
proof (induction ks arbitrary: s)
  case (Cons k ks)
  let ?s = "event_or k (push_bit EVENT_TIMER_BIT 1) s\<lparr>tasks_ready := tasks_ready s OR push_bit k 1, pend_sv := pend_sv s \<or> start_called s\<rparr>"
  have "sched_inv ?s" using sched_inv_event_or [OF Cons.prems(1)] Cons.prems(2) by simp
  from Cons.IH [OF this] Cons.prems(2) obtain s' where "deliver (map TimerEvent ks) (?s, tm) = Some (s', tm)"
      "sched_inv s'" "\<forall>j. task_events s' j = (if j \<in> set ks then task_events ?s j OR push_bit EVENT_TIMER_BIT 1 else task_events ?s j)"
      "bits_of (tasks_ready s') = bits_of (tasks_ready ?s) \<union> set ks" "tasks_enabled s' = tasks_enabled ?s"
      "current_task s' = current_task ?s" "start_called s' = start_called ?s" "pend_sv s' = (pend_sv ?s \<or> start_called ?s \<and> ks \<noteq> [])"
    by auto
  then show ?case using Cons.prems(2)
    by (intro exI [of _ s']) (auto simp: task_set_event_def Let_def event_or_def bits_of_push_bit or.assoc simp del: push_bit_of_1)
qed simp

lemma pendsv_switches:
  assumes "sched_inv s"
  shows "\<exists>s'. pendsv_handler (s, tm) = Some (s', tm) \<and> sched_inv s' \<and> task_events s' = task_events s
     \<and> bits_of (tasks_ready s) \<subseteq> bits_of (tasks_ready s') \<and> tasks_enabled s' = tasks_enabled s
     \<and> (pend_sv s \<longrightarrow> current_task s' = Max (runnable s'))"
proof (cases "pend_sv s")
  case True
  have "ready_after False 0 s \<inter> bits_of (tasks_enabled s) \<noteq> {}"
    using assms by (auto simp: ready_after_def sched_inv_def)
  from svc_handler_total [OF _ this] obtain s' where s': "svc_handler False 0 s = Some s'" by auto
  have "sched_inv (s'\<lparr>pend_sv := False\<rparr>)" "runnable (s'\<lparr>pend_sv := False\<rparr>) = runnable s'"
    using svc_handler_inv [OF assms s'] by (simp_all add: sched_inv_def runnable_def)
  then show ?thesis using True s' svc_handler_Some [OF s']
    by (intro exI [of _ "s'\<lparr>pend_sv := False\<rparr>"]) (auto simp: pendsv_handler_def ready_after_def)
qed (simp add: pendsv_handler_def assms)

text \<open>
  C14. A task whose timer has expired runs as soon as the priorities allow: the timer interrupt
  returns, every task whose deadline the clock has reached then has its timer event pending, is
  ready and has no running timer, and the context switch at the end of the interrupt leaves a task
  running that is at least as urgent as each of them. Tasks whose timers have not expired receive
  nothing.
\<close>

theorem alarm_reaches_task:
  assumes "\<And>i. clk i \<le> clk (Suc i)" "\<And>i. ts_hi (clk i) \<noteq> 0xffffffff" "33 \<le> fuel" "sched_inv s" "start_called s"
  shows "\<exists>j s1 tm' s2. timer_irq fuel clk overflow (s, tm) = Some (j, (s1, tm')) \<and> pendsv_handler (s1, tm') = Some (s2, tm')
     \<and> sched_inv s2
     \<and> (\<forall>k \<in> bits_of (timer_running tm). timer_deadline tm k \<le> clk j \<longrightarrow>
          bit (task_events s2 k) EVENT_TIMER_BIT \<and> k \<in> bits_of (tasks_ready s2) \<and> k \<notin> bits_of (timer_running tm')
          \<and> (k \<in> bits_of (tasks_enabled s) \<longrightarrow> k \<le> current_task s2))
     \<and> (\<forall>k. \<not> (k \<in> bits_of (timer_running tm) \<and> timer_deadline tm k \<le> clk j) \<longrightarrow> task_events s2 k = task_events s k)"
proof -
  let ?tm = "tm\<lparr>tm_calls := []\<rparr>"
  obtain j tm' where p: "process_timers fuel clk overflow ?tm = Some (j, tm')" and e: "expired_ok (clk j) ?tm tm'"
    using process_timers_returns [of clk fuel overflow ?tm, OF assms(1-3)] by blast
  then obtain ks where ks: "tm_calls tm' = map TimerEvent ks" "set ks = {k \<in> bits_of (timer_running tm). timer_deadline tm k \<le> clk j}"
    and run: "bits_of (timer_running tm') = {k \<in> bits_of (timer_running tm). clk j < timer_deadline tm k}"
    by (auto simp: expired_ok_def)
  have lt: "\<forall>k \<in> set ks. k < 32" using ks(2) bits_of_subset [of "timer_running tm"] by auto
  from deliver_events [OF assms(4) lt, of tm'] obtain s1 where d: "deliver (map TimerEvent ks) (s, tm') = Some (s1, tm')"
    and s1: "sched_inv s1"
      "\<And>k. task_events s1 k = (if k \<in> set ks then task_events s k OR push_bit EVENT_TIMER_BIT 1 else task_events s k)"
      "bits_of (tasks_ready s1) = bits_of (tasks_ready s) \<union> set ks" "tasks_enabled s1 = tasks_enabled s"
      "pend_sv s1 = (pend_sv s \<or> ks \<noteq> [])" using assms(5) by auto
  have irq: "timer_irq fuel clk overflow (s, tm) = Some (j, (s1, tm'))"
    using p d ks(1) by (simp add: timer_irq_def)
  obtain s2 where s2: "pendsv_handler (s1, tm') = Some (s2, tm')" "sched_inv s2" "task_events s2 = task_events s1"
      "bits_of (tasks_ready s1) \<subseteq> bits_of (tasks_ready s2)" "tasks_enabled s2 = tasks_enabled s1"
      "pend_sv s1 \<longrightarrow> current_task s2 = Max (runnable s2)"
    using pendsv_switches [OF s1(1), of tm'] by blast
  have "k \<le> current_task s2" if "k \<in> set ks" "k \<in> bits_of (tasks_enabled s)" for k
  proof -
    have "k \<in> runnable s2" "pend_sv s1" using that s1 s2 by (auto simp: runnable_def)
    then show ?thesis using s2(6) by (simp add: runnable_def)
  qed
  moreover have "bit (push_bit EVENT_TIMER_BIT 1 :: u32) EVENT_TIMER_BIT" by (simp add: bit_simps)
  ultimately show ?thesis using irq s2 s1 ks(2) run
    by (intro exI [of _ j] exI [of _ s1] exI [of _ tm'] exI [of _ s2]) (auto simp: bit_or_iff leD)
qed

theorem alarm_reaches_task_witness:
  "\<exists>j s1 tm' s2. timer_irq 33 ex_clk False (ex_sched, ex_timers) = Some (j, (s1, tm')) \<and> j = 2
     \<and> pendsv_handler (s1, tm') = Some (s2, tm') \<and> sched_inv s2 \<and> bit (task_events s2 1) EVENT_TIMER_BIT \<and> 1 \<le> current_task s2"
proof -
  have "map_option fst (timer_irq 33 ex_clk False (ex_sched, ex_timers)) = Some 2" by code_simp
  moreover have "1 \<in> bits_of (timer_running ex_timers)" "1 \<in> bits_of (tasks_enabled ex_sched)" "timer_deadline ex_timers 1 \<le> ex_clk 2"
    by (simp_all add: bits_of_def ex_timers_def ex_sched_def ex_clk_def bit_numeral_rec)
  moreover have "start_called ex_sched" by (simp add: ex_sched_def)
  ultimately show ?thesis
    using alarm_reaches_task [of ex_clk, OF ex_clk_mono _ ex_sched_inv, of 33 False ex_timers] by fastforce
qed

end
